(* ===== verification/Prelude.thy ===== *)
theory Prelude
  imports Main "HOL-Library.AList" "HOL-Library.Monad_Syntax"
begin

text \<open>
  Shared vocabulary of the development: the fact collections the component theories add to,
  JavaScript's insertion-ordered \<open>Map\<close> as an association list, and the generic list lemmas that
  more than one component uses.

  \<^item> \<open>new Map()\<close> is a list of pairs with distinct keys, in insertion order: \<open>get\<close> is \<open>map_of\<close>,
    \<open>set\<close> is \<open>AList.update\<close> (it replaces in place, and appends a new key at the end, as the
    language does), \<open>delete\<close> is \<open>AList.delete\<close>, \<open>size\<close> is \<open>length\<close>.
  \<^item> A result that may fail is \<open>error + 'a\<close>, with \<open>Inl\<close> for the failure.
\<close>

named_theorems inv_preserved "an operation of a component keeps the component's invariant"
named_theorems frame_facts "an operation leaves a part of the state alone"

subsection \<open>JavaScript's Map\<close>

type_synonym ('k, 'v) jsmap = "('k \<times> 'v) list"

abbreviation js_get :: "('k, 'v) jsmap \<Rightarrow> 'k \<Rightarrow> 'v option" where
  "js_get m k \<equiv> map_of m k"

abbreviation js_set :: "'k \<Rightarrow> 'v \<Rightarrow> ('k, 'v) jsmap \<Rightarrow> ('k, 'v) jsmap" where
  "js_set \<equiv> AList.update"

abbreviation js_delete :: "'k \<Rightarrow> ('k, 'v) jsmap \<Rightarrow> ('k, 'v) jsmap" where
  "js_delete \<equiv> AList.delete"

definition js_map_wf :: "('k, 'v) jsmap \<Rightarrow> bool" where
  "js_map_wf m \<longleftrightarrow> distinct (map fst m)"

lemma js_map_wf_Nil [simp, intro]: "js_map_wf []"
  by (simp add: js_map_wf_def)

lemma js_map_wf_set [simp, intro]: "js_map_wf m \<Longrightarrow> js_map_wf (js_set k v m)"
  unfolding js_map_wf_def by (rule distinct_update)

lemma js_map_wf_delete [simp, intro]: "js_map_wf m \<Longrightarrow> js_map_wf (js_delete k m)"
  unfolding js_map_wf_def by (rule distinct_delete)

lemma js_map_wf_filter [simp, intro]: "js_map_wf m \<Longrightarrow> js_map_wf (filter P m)"
  by (simp add: js_map_wf_def distinct_map_filter)

lemma js_map_wf_tl [simp, intro]: "js_map_wf m \<Longrightarrow> js_map_wf (tl m)"
  by (cases m) (auto simp: js_map_wf_def)

lemma js_map_wf_drop [simp, intro]: "js_map_wf m \<Longrightarrow> js_map_wf (drop n m)"
  by (simp add: js_map_wf_def drop_map [symmetric])

lemma js_get_set [simp]: "js_get (js_set k v m) = (js_get m)(k \<mapsto> v)"
  by (rule update_conv')

lemma js_set_fresh: "k \<notin> fst ` set m \<Longrightarrow> js_set k v m = m @ [(k, v)]"
  by (induction m) auto

lemma length_js_set: "length (js_set k v m) = (if k \<in> fst ` set m then length m else Suc (length m))"
  by (induction m) auto

lemma length_js_set_old: "js_get m k = Some v \<Longrightarrow> length (js_set k v' m) = length m"
  by (induction m) (auto split: if_splits)

lemma js_get_in_set: "js_map_wf m \<Longrightarrow> (k, v) \<in> set m \<longleftrightarrow> js_get m k = Some v"
  unfolding js_map_wf_def by (rule map_of_eq_Some_iff [symmetric])

lemma js_get_filterD:
  "js_map_wf m \<Longrightarrow> js_get (filter P m) k = Some v \<Longrightarrow> js_get m k = Some v \<and> P (k, v)"
  using js_get_in_set [of m k v] js_get_in_set [of "filter P m" k v] by auto

lemma js_get_dropD: "js_map_wf m \<Longrightarrow> js_get (drop n m) k = Some v \<Longrightarrow> js_get m k = Some v"
  using js_get_in_set [of m k v] js_get_in_set [of "drop n m" k v] by (auto dest: in_set_dropD)

lemma js_set_split:
  "js_map_wf m \<Longrightarrow> js_get m k = Some v0 \<Longrightarrow>
     \<exists>xs ys. m = xs @ (k, v0) # ys \<and> js_set k v m = xs @ (k, v) # ys"
proof (induction m)
  case (Cons e m)
  obtain k' w where e: "e = (k', w)" by (cases e)
  show ?case
  proof (cases "k' = k")
    case True
    with Cons.prems e show ?thesis by (intro exI [of _ "[]"] exI [of _ m]) simp
  next
    case False
    with Cons e obtain xs ys where "m = xs @ (k, v0) # ys" "js_set k v m = xs @ (k, v) # ys"
      by (auto simp: js_map_wf_def)
    with False e show ?thesis by (intro exI [of _ "e # xs"] exI [of _ ys]) simp
  qed
qed simp

lemma js_get_filter:
  "js_map_wf m \<Longrightarrow> js_get (filter P m) k = (case js_get m k of None \<Rightarrow> None | Some v \<Rightarrow> if P (k, v) then Some v else None)"
proof (induction m)
  case (Cons e m)
  obtain k' v where e: "e = (k', v)" by (cases e)
  with Cons.prems have "k' \<notin> fst ` set m" "js_map_wf m" by (simp_all add: js_map_wf_def)
  with Cons.IH e show ?case by (auto simp: map_of_eq_None_iff split: option.splits)
qed simp

text \<open>Every entry of a Map satisfies \<open>P\<close>.\<close>

definition js_all :: "('k \<Rightarrow> 'v \<Rightarrow> bool) \<Rightarrow> ('k, 'v) jsmap \<Rightarrow> bool" where
  "js_all P m \<longleftrightarrow> (\<forall>(k, v) \<in> set m. P k v)"

lemma js_all_Nil [simp]: "js_all P []"
  by (simp add: js_all_def)

lemma js_all_set: "js_all P m \<Longrightarrow> P k v \<Longrightarrow> js_all P (js_set k v m)"
  unfolding js_all_def by (induction m) (auto split: if_splits)

lemma js_all_filter: "js_all P m \<Longrightarrow> js_all P (filter Q m)"
  by (auto simp: js_all_def)

lemma js_all_drop: "js_all P m \<Longrightarrow> js_all P (drop n m)"
  by (auto simp: js_all_def dest: in_set_dropD)

lemma js_all_get: "js_all P m \<Longrightarrow> js_get m k = Some v \<Longrightarrow> P k v"
  by (auto simp: js_all_def dest: map_of_SomeD)

subsection \<open>Lists\<close>

text \<open>
  A filtered list is empty, or has a head that passed the filter: the shape behind every
  \<open>entries[0]\<close> of the code.
\<close>

lemma hd_filter_in: "filter P xs \<noteq> [] \<Longrightarrow> hd (filter P xs) \<in> set xs \<and> P (hd (filter P xs))"
  using hd_in_set [of "filter P xs"] by simp

lemma find_Some_in: "List.find P xs = Some x \<Longrightarrow> x \<in> set xs \<and> P x"
  by (auto simp: find_Some_iff)

text \<open>The running sum of a list of naturals, one element replaced.\<close>

lemma sum_list_map_add:
  fixes f :: "'a \<Rightarrow> nat"
  shows "(\<Sum>x\<leftarrow>xs. f x + g x) = (\<Sum>x\<leftarrow>xs. f x) + (\<Sum>x\<leftarrow>xs. g x)"
  by (induction xs) auto

subsection \<open>Identifiers\<close>

text \<open>
  The code's identifiers are matched against patterns over ASCII letters, digits and a few marks;
  these are the character classes the patterns use.
\<close>

definition is_digit :: "char \<Rightarrow> bool" where
  "is_digit c \<longleftrightarrow> c \<in> set ''0123456789''"

definition is_upper :: "char \<Rightarrow> bool" where
  "is_upper c \<longleftrightarrow> c \<in> set ''ABCDEFGHIJKLMNOPQRSTUVWXYZ''"

definition is_lower :: "char \<Rightarrow> bool" where
  "is_lower c \<longleftrightarrow> c \<in> set ''abcdefghijklmnopqrstuvwxyz''"

definition is_alnum :: "char \<Rightarrow> bool" where
  "is_alnum c \<longleftrightarrow> is_digit c \<or> is_upper c \<or> is_lower c"

end
