(* ===== verification/Js_Number.thy ===== *)
theory Js_Number
  imports Complex_Main Prelude "HOL-Library.Log_Nat"
begin

text \<open>
  JavaScript's \<open>number\<close>: an IEEE 754 double. A value is the rational it denotes, and each
  arithmetic operation is the exact one followed by \<open>fl\<close>, rounding to the nearest number of 53
  significant bits, ties to even. The model leaves out what the code's ranges exclude: overflow
  to an infinity, subnormal numbers, \<open>NaN\<close> and the sign of zero.

  \<open>fl\<close> is executable, monotone, and the identity on the integers up to \<open>2 ^ 53\<close>; the components
  use those three facts only.
\<close>

subsection \<open>The exponent of a positive rational\<close>

definition ilog2 :: "rat \<Rightarrow> int" where
  "ilog2 x = (let (n, d) = quotient_of x; k = bitlen n - bitlen d
              in if (2::rat) powi k \<le> x then k else k - 1)"

lemma bitlen_rat_bounds:
  assumes "0 < (n::int)"
  shows "(2::rat) powi (bitlen n - 1) \<le> of_int n" and "of_int n < (2::rat) powi bitlen n"
proof -
  have b: "2 ^ nat (bitlen n - 1) \<le> n \<and> n < 2 ^ nat (bitlen n)"
    by (rule bitlen_bounds [OF assms])
  have pos: "0 < bitlen n"
    using assms bitlen_nonneg [of n] bitlen_eq_zero_iff [of n] by linarith
  have "(of_int (2 ^ nat (bitlen n - 1)) :: rat) \<le> of_int n"
    using b by (simp only: of_int_le_iff)
  with pos show "(2::rat) powi (bitlen n - 1) \<le> of_int n"
    by (simp add: power_int_def)
  have "(of_int n :: rat) < of_int (2 ^ nat (bitlen n))"
    using b by (simp only: of_int_less_iff)
  with pos show "of_int n < (2::rat) powi bitlen n"
    by (simp add: power_int_def)
qed

lemma ilog2_bounds:
  assumes "0 < x"
  shows "2 powi (ilog2 x) \<le> x" and "x < 2 powi (ilog2 x + 1)"
proof -
  obtain n d where q: "quotient_of x = (n, d)" by (cases "quotient_of x")
  have x: "x = of_int n / of_int d" and d: "0 < d"
    using q by (simp_all add: quotient_of_div quotient_of_denom_pos)
  have n: "0 < n"
    using assms d by (simp add: x zero_less_divide_iff)
  define k where "k = bitlen n - bitlen d"
  have lo: "2 powi (k - 1) \<le> x"
  proof -
    have "2 powi (k - 1) * of_int d \<le> 2 powi (k - 1) * (2::rat) powi bitlen d"
      using bitlen_rat_bounds(2) [OF d] by (intro mult_left_mono) auto
    also have "\<dots> = 2 powi (bitlen n - 1)"
      by (simp add: k_def power_int_add [symmetric])
    also have "\<dots> \<le> of_int n" by (rule bitlen_rat_bounds(1) [OF n])
    finally show ?thesis using d by (simp add: x pos_le_divide_eq)
  qed
  have hi: "x < 2 powi (k + 1)"
  proof -
    have "(of_int n :: rat) < 2 powi bitlen n" by (rule bitlen_rat_bounds(2) [OF n])
    also have "\<dots> = 2 powi (k + 1) * 2 powi (bitlen d - 1)"
      by (simp add: k_def power_int_add [symmetric])
    also have "\<dots> \<le> 2 powi (k + 1) * of_int d"
      using bitlen_rat_bounds(1) [OF d] by (intro mult_left_mono) auto
    finally show ?thesis using d by (simp add: x pos_divide_less_eq)
  qed
  have i: "ilog2 x = (if 2 powi k \<le> x then k else k - 1)"
    by (simp add: ilog2_def q k_def)
  show "2 powi (ilog2 x) \<le> x" using lo by (simp add: i)
  show "x < 2 powi (ilog2 x + 1)" using hi by (simp add: i)
qed

lemma powi_less_exponentD: "(2::rat) powi a < 2 powi b \<Longrightarrow> a < b"
  by (metis leI linorder_not_less one_le_numeral power_int_increasing)

lemma ilog2_mono: "0 < x \<Longrightarrow> x \<le> y \<Longrightarrow> ilog2 x \<le> ilog2 y"
proof -
  assume "0 < x" "x \<le> y"
  then have "2 powi (ilog2 x) < (2::rat) powi (ilog2 y + 1)"
    using ilog2_bounds(1) [of x] ilog2_bounds(2) [of y] by linarith
  then show ?thesis by (drule_tac powi_less_exponentD) simp
qed

subsection \<open>Rounding to an integer, ties to even\<close>

definition rne :: "rat \<Rightarrow> int" where
  "rne q = (let f = \<lfloor>q\<rfloor>; r = q - of_int f
            in if r < 1 / 2 then f else if 1 / 2 < r then f + 1 else if even f then f else f + 1)"

lemma rne_bounds: "\<lfloor>q\<rfloor> \<le> rne q" "rne q \<le> \<lfloor>q\<rfloor> + 1"
  by (auto simp: rne_def Let_def)

lemma rne_of_int [simp]: "rne (of_int n) = n"
  by (simp add: rne_def)

lemma rne_mono: "q \<le> q' \<Longrightarrow> rne q \<le> rne q'"
proof -
  assume le: "q \<le> q'"
  show ?thesis
  proof (cases "\<lfloor>q\<rfloor> = \<lfloor>q'\<rfloor>")
    case True
    with le show ?thesis by (auto simp: rne_def Let_def)
  next
    case False
    then have "\<lfloor>q\<rfloor> + 1 \<le> \<lfloor>q'\<rfloor>" using floor_mono [OF le] by linarith
    then show ?thesis using rne_bounds [of q] rne_bounds [of q'] by linarith
  qed
qed

subsection \<open>Rounding to a double\<close>

definition fl_pos :: "rat \<Rightarrow> rat" where
  "fl_pos x = (let e = ilog2 x - 52 in of_int (rne (x / 2 powi e)) * 2 powi e)"

definition fl :: "rat \<Rightarrow> rat" where
  "fl x = (if x = 0 then 0 else if 0 < x then fl_pos x else - fl_pos (- x))"

lemma fl_0 [simp]: "fl 0 = 0"
  by (simp add: fl_def)

lemma powi_split: "(2::rat) powi (of_nat k + e) = 2 ^ k * 2 powi e"
  by (simp add: power_int_add)

lemma fl_pos_mantissa:
  assumes "0 < x"
  defines "m \<equiv> rne (x / 2 powi (ilog2 x - 52))"
  shows "2 ^ 52 \<le> m" and "m \<le> 2 ^ 53"
proof -
  define e where "e = ilog2 x - 52"
  have lo: "(2::rat) ^ 52 * 2 powi e \<le> x"
    using ilog2_bounds(1) [OF assms(1)] by (simp only: powi_split [symmetric] e_def) simp
  have hi: "x \<le> (2::rat) ^ 53 * 2 powi e"
    using ilog2_bounds(2) [OF assms(1)]
    by (simp only: powi_split [symmetric] e_def) (simp add: add.commute)
  have "of_int (2 ^ 52) \<le> x / 2 powi e" using lo by (simp add: pos_le_divide_eq)
  then have "rne (of_int (2 ^ 52)) \<le> m" unfolding m_def e_def by (rule rne_mono)
  then show "2 ^ 52 \<le> m" by (simp only: rne_of_int)
  have "x / 2 powi e \<le> of_int (2 ^ 53)" using hi by (simp add: pos_divide_le_eq)
  then have "m \<le> rne (of_int (2 ^ 53))" unfolding m_def e_def by (rule rne_mono)
  then show "m \<le> 2 ^ 53" by (simp only: rne_of_int)
qed

lemma fl_pos_bounds:
  assumes "0 < x"
  shows "2 powi (ilog2 x) \<le> fl_pos x" and "fl_pos x \<le> 2 powi (ilog2 x + 1)"
proof -
  define e where "e = ilog2 x - 52"
  define m where "m = rne (x / 2 powi e)"
  have f: "fl_pos x = of_int m * 2 powi e" by (simp add: fl_pos_def Let_def m_def e_def)
  have b: "(of_int (2 ^ 52) :: rat) \<le> of_int m" "(of_int m :: rat) \<le> of_int (2 ^ 53)"
    using fl_pos_mantissa [OF assms] unfolding m_def e_def by (simp_all only: of_int_le_iff)
  have "(2::rat) powi (ilog2 x) = 2 ^ 52 * 2 powi e"
    by (simp only: powi_split [symmetric] e_def) simp
  also have "\<dots> \<le> fl_pos x" unfolding f using b(1) by (intro mult_right_mono) auto
  finally show "2 powi (ilog2 x) \<le> fl_pos x" .
  have "fl_pos x \<le> 2 ^ 53 * 2 powi e" unfolding f using b(2) by (intro mult_right_mono) auto
  also have "\<dots> = 2 powi (ilog2 x + 1)"
    by (simp only: powi_split [symmetric] e_def) (simp add: add.commute)
  finally show "fl_pos x \<le> 2 powi (ilog2 x + 1)" .
qed

lemma fl_pos_mono:
  assumes "0 < x" "x \<le> y"
  shows "fl_pos x \<le> fl_pos y"
proof (cases "ilog2 x = ilog2 y")
  case True
  have "rne (x / 2 powi (ilog2 y - 52)) \<le> rne (y / 2 powi (ilog2 y - 52))"
    using assms by (intro rne_mono divide_right_mono) auto
  then show ?thesis by (simp add: fl_pos_def Let_def True mult_right_mono)
next
  case False
  then have "ilog2 x + 1 \<le> ilog2 y" using ilog2_mono [OF assms] by linarith
  then have "(2::rat) powi (ilog2 x + 1) \<le> 2 powi (ilog2 y)" by (intro power_int_increasing) auto
  then show ?thesis
    using fl_pos_bounds(2) [of x] fl_pos_bounds(1) [of y] assms by linarith
qed

lemma fl_pos_positive: "0 < x \<Longrightarrow> 0 < fl_pos x"
  using fl_pos_bounds(1) [of x] zero_less_power_int [of "2::rat" "ilog2 x"] by linarith

theorem fl_mono: "x \<le> y \<Longrightarrow> fl x \<le> fl y"
  using fl_pos_mono [of x y] fl_pos_mono [of "- y" "- x"]
    fl_pos_positive [of y] fl_pos_positive [of "- x"]
  by (auto simp: fl_def)

lemma fl_nonneg: "0 \<le> x \<Longrightarrow> 0 \<le> fl x"
  using fl_mono [of 0 x] by simp

text \<open>An integer of at most 53 bits is a double, so rounding leaves it alone.\<close>

lemma fl_pos_int:
  assumes "0 < n" "n \<le> (2 ^ 53 :: int)"
  shows "fl_pos (of_int n) = of_int n"
proof -
  let ?l = "ilog2 (of_int n)"
  have "(2::rat) powi ?l \<le> of_int n" using assms by (intro ilog2_bounds) simp
  also have "(of_int n :: rat) \<le> of_int (2 ^ 53)" using assms(2) by (simp only: of_int_le_iff)
  also have "of_int (2 ^ 53) < (2::rat) powi 54" by simp
  finally have l: "?l \<le> 53" by (drule_tac powi_less_exponentD) simp
  show ?thesis
  proof (cases "?l = 53")
    case True
    have "(2::rat) powi 53 \<le> of_int n" using ilog2_bounds(1) [of "of_int n"] assms True by simp
    then have "(of_int (2 ^ 53) :: rat) \<le> of_int n" by simp
    then have "n = 2 ^ 53" using assms(2) by (simp only: of_int_le_iff)
    have h: "(of_int n :: rat) / 2 powi (?l - 52) = of_int (2 ^ 52)"
      unfolding True by (simp add: \<open>n = 2 ^ 53\<close>)
    show ?thesis unfolding fl_pos_def Let_def h rne_of_int unfolding True by (simp add: \<open>n = 2 ^ 53\<close>)
  next
    case False
    define k where "k = nat (52 - ?l)"
    define e where "e = ?l - 52"
    have ke: "of_nat k + e = 0" using False l by (simp add: k_def e_def)
    have p: "(2::rat) ^ k * 2 powi e = 1" unfolding powi_split [symmetric] ke by simp
    have d: "1 / (2::rat) powi e = 2 ^ k" using p by (simp add: divide_eq_eq)
    have "(of_int n :: rat) / 2 powi e = of_int n * (1 / 2 powi e)" by simp
    also have "\<dots> = of_int (n * 2 ^ k)" unfolding d by simp
    finally have h: "(of_int n :: rat) / 2 powi (?l - 52) = of_int (n * 2 ^ k)"
      unfolding e_def .
    show ?thesis
      unfolding fl_pos_def Let_def h rne_of_int
      by (simp only: of_int_mult of_int_power of_int_numeral mult.assoc p [unfolded e_def] mult_1_right)
  qed
qed

theorem fl_int: "\<bar>n\<bar> \<le> 2 ^ 53 \<Longrightarrow> fl (of_int n) = of_int n"
  using fl_pos_int [of n] fl_pos_int [of "- n"] by (cases "0 < n") (auto simp: fl_def)

lemma fl_nat: "n \<le> 2 ^ 53 \<Longrightarrow> fl (of_nat n) = of_nat n"
proof -
  assume "n \<le> 2 ^ 53"
  then have "\<bar>int n\<bar> \<le> 2 ^ 53" by (metis abs_of_nat of_nat_le_iff of_nat_numeral of_nat_power)
  from fl_int [OF this] show ?thesis by simp
qed

lemma fl_numeral: "(numeral n :: nat) \<le> 2 ^ 53 \<Longrightarrow> fl (numeral n) = numeral n"
  using fl_nat [of "numeral n"] by simp

lemma fl_1 [simp]: "fl 1 = 1"
  using fl_nat [of 1] by simp

subsection \<open>The operators\<close>

definition js_add :: "rat \<Rightarrow> rat \<Rightarrow> rat" where
  "js_add x y = fl (x + y)"

definition js_mul :: "rat \<Rightarrow> rat \<Rightarrow> rat" where
  "js_mul x y = fl (x * y)"

definition js_div :: "rat \<Rightarrow> rat \<Rightarrow> rat" where
  "js_div x y = fl (x / y)"

text \<open>\<open>Math.round\<close>: the integer nearest, a tie going up (ECMA-262 21.3.2.28).\<close>

definition js_round :: "rat \<Rightarrow> int" where
  "js_round x = \<lfloor>x + 1 / 2\<rfloor>"

lemma js_add_mono: "x \<le> x' \<Longrightarrow> y \<le> y' \<Longrightarrow> js_add x y \<le> js_add x' y'"
  unfolding js_add_def by (intro fl_mono add_mono)

lemma js_mul_mono: "x \<le> x' \<Longrightarrow> y \<le> y' \<Longrightarrow> 0 \<le> x \<Longrightarrow> 0 \<le> y \<Longrightarrow> js_mul x y \<le> js_mul x' y'"
  unfolding js_mul_def by (intro fl_mono mult_mono) auto

lemma js_mul_nonneg: "0 \<le> x \<Longrightarrow> 0 \<le> y \<Longrightarrow> 0 \<le> js_mul x y"
  unfolding js_mul_def by (intro fl_nonneg mult_nonneg_nonneg)

lemma js_add_nonneg: "0 \<le> x \<Longrightarrow> 0 \<le> y \<Longrightarrow> 0 \<le> js_add x y"
  unfolding js_add_def by (intro fl_nonneg add_nonneg_nonneg)

lemma js_round_mono: "x \<le> y \<Longrightarrow> js_round x \<le> js_round y"
  unfolding js_round_def by (intro floor_mono) simp

text \<open>\<open>Number(bigint)\<close>.\<close>

definition js_number_nat :: "nat \<Rightarrow> nat" where
  "js_number_nat n = nat \<lfloor>fl (of_nat n)\<rfloor>"

end
