(* ===== verification/Js_Text.thy ===== *)
theory Js_Text
  imports Prelude "HOL-Library.Word"
begin

text \<open>
  JavaScript strings as the code measures and cuts them: sequences of UTF-16 code units
  (\<open>js_text\<close>). \<open>length\<close>, \<open>slice\<close> and \<open>charCodeAt\<close> count code units; \<open>Buffer.byteLength\<close>
  counts the bytes of the UTF-8 encoding, a lone surrogate being encoded as U+FFFD.

  Identifiers, which the schemas restrict to ASCII, are HOL's \<open>string\<close>; \<open>js\<close> embeds one.
\<close>

type_synonym unit16 = "16 word"
type_synonym js_text = "unit16 list"

definition js :: "string \<Rightarrow> js_text" where
  "js s = map of_char s"

lemma length_js [simp]: "length (js s) = length s"
  by (simp add: js_def)

lemma js_append [simp]: "js (s @ t) = js s @ js t"
  by (simp add: js_def)

lemma js_Nil [simp]: "js [] = []"
  by (simp add: js_def)

definition high_surrogate :: "unit16 \<Rightarrow> bool" where
  "high_surrogate u \<longleftrightarrow> 0xD800 \<le> u \<and> u \<le> 0xDBFF"

definition low_surrogate :: "unit16 \<Rightarrow> bool" where
  "low_surrogate u \<longleftrightarrow> 0xDC00 \<le> u \<and> u \<le> 0xDFFF"

text \<open>\<open>Buffer.byteLength(text, "utf8")\<close>.\<close>

fun utf8_length :: "js_text \<Rightarrow> nat" where
  "utf8_length [] = 0"
| "utf8_length (u # us) =
     (if u < 0x80 then Suc (utf8_length us)
      else if u < 0x800 then 2 + utf8_length us
      else case us of
          [] \<Rightarrow> 3
        | w # ws \<Rightarrow> if high_surrogate u \<and> low_surrogate w then 4 + utf8_length ws
                    else 3 + utf8_length us)"

lemma utf8_length_bounds: "length us \<le> utf8_length us \<and> utf8_length us \<le> 3 * length us"
proof (induction us rule: utf8_length.induct)
  case (2 u us)
  then show ?case by (cases us) (auto split: if_splits)
qed simp

text \<open>
  \<open>String(n)\<close> for a natural number: its decimal digits.
\<close>

definition digit_unit :: "nat \<Rightarrow> unit16" where
  "digit_unit d = of_nat (48 + d)"

fun js_nat :: "nat \<Rightarrow> js_text" where
  "js_nat n = (if n < 10 then [digit_unit n] else js_nat (n div 10) @ [digit_unit (n mod 10)])"

declare js_nat.simps [simp del]

lemma js_nat_nonempty [simp]: "js_nat n \<noteq> []"
  by (subst js_nat.simps) simp

text \<open>A number below \<open>10 ^ k\<close> has at most \<open>k\<close> digits.\<close>

lemma length_js_nat_le: "n < 10 ^ k \<Longrightarrow> 0 < k \<Longrightarrow> length (js_nat n) \<le> k"
proof (induction n arbitrary: k rule: js_nat.induct)
  case (1 n)
  show ?case
  proof (cases "n < 10")
    case True
    with 1 show ?thesis by (subst js_nat.simps) simp
  next
    case False
    then obtain j where k: "k = Suc j" "0 < j"
      using "1.prems" by (cases k; cases "k - 1") auto
    then have "n div 10 < 10 ^ j" using "1.prems"(1) by (simp add: less_mult_imp_div_less)
    with "1.IH" [OF False] k have "length (js_nat (n div 10)) \<le> j" by simp
    with False k show ?thesis by (subst js_nat.simps) simp
  qed
qed

text \<open>\<open>join\<close> with a separator.\<close>

fun js_join :: "js_text \<Rightarrow> js_text list \<Rightarrow> js_text" where
  "js_join d [] = []"
| "js_join d [x] = x"
| "js_join d (x # y # zs) = x @ d @ js_join d (y # zs)"

lemma js_join_snoc: "xs \<noteq> [] \<Longrightarrow> js_join d (xs @ [y]) = js_join d xs @ d @ y"
  by (induction d xs rule: js_join.induct) auto

end
