(* ===== verification/Json.thy ===== *)
theory Json
  imports Prelude "HOL-Library.List_Lexorder" "HOL-Library.Char_ord"
begin

text \<open>
  JSON values and the two renderings the proxy commits to: \<open>JSON.stringify\<close> of strings and arrays
  (the upstream key of \<open>packages/proxy/src/enforce.ts\<close>) and \<open>canonicalJson\<close> of
  \<open>packages/proxy/src/audit-log.ts\<close>, the text every arguments hash is taken over.

  A string is its UTF-8 bytes, so the escapes are those of \<open>JSON.stringify\<close> on a well-formed
  string. A number is carried as its ECMAScript rendering (\<open>Number::toString\<close>), since nothing here
  computes with it. An object is its entries in insertion order.

  The main result is that \<open>canonical_json\<close> loses nothing but the order of object keys.
\<close>

datatype json =
    JNull
  | JBool bool
  | JNum string
  | JStr string
  | JArr "json list"
  | JObj "(string \<times> json) list"

subsection \<open>Strings\<close>

definition hex_digits :: string where
  "hex_digits = ''0123456789abcdef''"

definition json_escape :: "char \<Rightarrow> string" where
  "json_escape c =
     (if c = CHR 0x22 then [CHR 0x5C, CHR 0x22]
      else if c = CHR 0x5C then [CHR 0x5C, CHR 0x5C]
      else if c = CHR 0x08 then [CHR 0x5C, CHR ''b'']
      else if c = CHR 0x0C then [CHR 0x5C, CHR ''f'']
      else if c = CHR 0x0A then [CHR 0x5C, CHR ''n'']
      else if c = CHR 0x0D then [CHR 0x5C, CHR ''r'']
      else if c = CHR 0x09 then [CHR 0x5C, CHR ''t'']
      else if (of_char c :: nat) < 32 then
        [CHR 0x5C, CHR ''u'', CHR ''0'', CHR ''0'',
         hex_digits ! (of_char c div 16), hex_digits ! (of_char c mod 16)]
      else [c])"

definition json_quote :: "string \<Rightarrow> string" where
  "json_quote s = CHR 0x22 # concat (map json_escape s) @ [CHR 0x22]"

lemma hex_digits_inj: "i < 16 \<Longrightarrow> j < 16 \<Longrightarrow> hex_digits ! i = hex_digits ! j \<Longrightarrow> i = j"
proof -
  assume a: "i < 16" "j < 16" "hex_digits ! i = hex_digits ! j"
  have "distinct hex_digits" "length hex_digits = 16" by (simp_all add: hex_digits_def)
  with a show "i = j" by (simp add: nth_eq_iff_index_eq)
qed

lemma of_char_lt_256: "(of_char c :: nat) < 256"
  by simp

lemma control_char_eqI:
  assumes "(of_char c :: nat) < 32" "(of_char d :: nat) < 32"
    and "hex_digits ! (of_char c div 16) = hex_digits ! (of_char d div 16)"
    and "hex_digits ! (of_char c mod 16) = hex_digits ! (of_char d mod 16)"
  shows "c = d"
proof -
  have "(of_char c :: nat) div 16 = of_char d div 16"
    by (rule hex_digits_inj) (use assms in auto)
  moreover have "(of_char c :: nat) mod 16 = of_char d mod 16"
    by (rule hex_digits_inj) (use assms in auto)
  ultimately have "(of_char c :: nat) = of_char d"
    by (metis div_mult_mod_eq)
  then show ?thesis by simp
qed

lemma json_escape_prefix_free: "json_escape c @ u = json_escape d @ v \<Longrightarrow> c = d \<and> u = v"
  unfolding json_escape_def by (auto split: if_splits intro: control_char_eqI)

lemma json_escape_not_Nil [simp]: "json_escape c \<noteq> []"
  by (simp add: json_escape_def)

lemma json_escape_not_quote: "json_escape c @ u \<noteq> CHR 0x22 # v"
  by (auto simp: json_escape_def)

lemma escaped_unique:
  "concat (map json_escape s) @ CHR 0x22 # xs = concat (map json_escape t) @ CHR 0x22 # ys
   \<Longrightarrow> s = t \<and> xs = ys"
proof (induction s arbitrary: t)
  case Nil
  then show ?case
    by (cases t) (auto dest: json_escape_not_quote [THEN notE, OF sym])
next
  case (Cons c s)
  show ?case
  proof (cases t)
    case Nil
    with Cons.prems show ?thesis using json_escape_not_quote by auto
  next
    case (Cons d t')
    with Cons.prems have
      "json_escape c @ concat (map json_escape s) @ CHR 0x22 # xs
       = json_escape d @ concat (map json_escape t') @ CHR 0x22 # ys" by simp
    from json_escape_prefix_free [OF this] Cons.IH [of t'] Cons show ?thesis by auto
  qed
qed

lemma json_quote_unique: "json_quote s @ xs = json_quote t @ ys \<Longrightarrow> s = t \<and> xs = ys"
  by (auto simp: json_quote_def dest!: escaped_unique)

lemma json_quote_inj [simp]: "json_quote s = json_quote t \<longleftrightarrow> s = t"
  using json_quote_unique [of s "[]" t "[]"] by auto

subsection \<open>Rendering\<close>

text \<open>\<open>Array.prototype.join(",")\<close>.\<close>

fun join_comma :: "string list \<Rightarrow> string" where
  "join_comma [] = []"
| "join_comma [x] = x"
| "join_comma (x # y # zs) = x @ CHR '','' # join_comma (y # zs)"

text \<open>\<open>canonicalJson\<close>: the keys of every object sorted, no whitespace.\<close>

primrec canonical_json :: "json \<Rightarrow> string" where
  "canonical_json JNull = ''null''"
| "canonical_json (JBool b) = (if b then ''true'' else ''false'')"
| "canonical_json (JNum t) = t"
| "canonical_json (JStr s) = json_quote s"
| "canonical_json (JArr vs) = CHR ''['' # join_comma (map canonical_json vs) @ '']''"
| "canonical_json (JObj kvs) =
     CHR ''{'' # join_comma (map (\<lambda>(k, t). json_quote k @ CHR '':'' # t)
       (sort_key fst (map (map_prod id canonical_json) kvs))) @ ''}''"

text \<open>What a rendering keeps: the value with every object's entries in key order.\<close>

primrec sorted_keys :: "json \<Rightarrow> json" where
  "sorted_keys JNull = JNull"
| "sorted_keys (JBool b) = JBool b"
| "sorted_keys (JNum t) = JNum t"
| "sorted_keys (JStr s) = JStr s"
| "sorted_keys (JArr vs) = JArr (map sorted_keys vs)"
| "sorted_keys (JObj kvs) = JObj (sort_key fst (map (map_prod id sorted_keys) kvs))"

text \<open>Every number is a token of the characters \<open>Number::toString\<close> writes.\<close>

definition num_token :: "string \<Rightarrow> bool" where
  "num_token t \<longleftrightarrow> t \<noteq> [] \<and> (\<forall>c \<in> set t. c \<in> set ''0123456789+-.e'')"

primrec json_wf :: "json \<Rightarrow> bool" where
  "json_wf JNull = True"
| "json_wf (JBool b) = True"
| "json_wf (JNum t) = num_token t"
| "json_wf (JStr s) = True"
| "json_wf (JArr vs) = list_all id (map json_wf vs)"
| "json_wf (JObj kvs) = list_all snd (map (map_prod id json_wf) kvs)"

lemma sort_key_map_prod:
  fixes f :: "'a \<Rightarrow> 'b" and kvs :: "(string \<times> 'a) list"
  shows "sort_key fst (map (map_prod id f) kvs) = map (map_prod id f) (sort_key fst kvs)"
proof (induction kvs)
  case (Cons p kvs)
  have ins: "insort_key fst (map_prod id f q) (map (map_prod id f) ys)
      = map (map_prod id f) (insort_key fst q ys)" for q :: "string \<times> 'a" and ys
    by (induction ys) auto
  have "sort_key fst (map (map_prod id f) (p # kvs))
      = insort_key fst (map_prod id f p) (map (map_prod id f) (sort_key fst kvs))"
    by (simp only: list.map sort_key_simps Cons.IH)
  then show ?case by (simp only: ins sort_key_simps)
qed simp

lemma sort_key_idem: "sort_key fst (sort_key fst (kvs :: (string \<times> 'a) list)) = sort_key fst kvs"
  by (intro sort_key_id_if_sorted) simp

lemma canonical_json_obj:
  "canonical_json (JObj kvs) =
     CHR ''{'' # join_comma (map (\<lambda>(k, v). json_quote k @ CHR '':'' # canonical_json v)
       (sort_key fst kvs)) @ ''}''"
  by (simp add: sort_key_map_prod case_prod_unfold comp_def)

lemma sorted_keys_obj: "sorted_keys (JObj kvs) = JObj (map (map_prod id sorted_keys) (sort_key fst kvs))"
  by (simp add: sort_key_map_prod)

lemma json_wf_arr [simp]: "json_wf (JArr vs) \<longleftrightarrow> (\<forall>v \<in> set vs. json_wf v)"
  by (simp add: list_all_iff)

lemma json_wf_obj [simp]: "json_wf (JObj kvs) \<longleftrightarrow> (\<forall>(k, v) \<in> set kvs. json_wf v)"
  by (auto simp: list_all_iff)

lemmas json_raw = json_wf.simps(5,6) canonical_json.simps(6) sorted_keys.simps(6)
declare json_raw [simp del]
declare canonical_json_obj [simp] sorted_keys_obj [simp]

subsection \<open>A rendering determines the value\<close>

text \<open>A number may be followed only by a delimiter, or a digit of the next text would extend it.\<close>

definition delimited :: "string \<Rightarrow> bool" where
  "delimited xs \<longleftrightarrow> (case xs of [] \<Rightarrow> True | c # _ \<Rightarrow> c \<in> set '',]}'')"

lemma delimited_simps [simp]:
  "delimited []" "delimited (CHR '','' # xs)" "delimited (CHR '']'' # xs)" "delimited (CHR ''}'' # xs)"
  by (simp_all add: delimited_def)

lemma num_token_unique:
  assumes "num_token s" "num_token t" "delimited xs" "delimited ys" "s @ xs = t @ ys"
  shows "s = t \<and> xs = ys"
proof -
  let ?P = "\<lambda>c. c \<in> set ''0123456789+-.e''"
  have tw: "takeWhile ?P (u @ zs) = u" if "num_token u" "delimited zs" for u zs
    using that by (cases zs) (auto simp: num_token_def delimited_def takeWhile_append)
  have "s = t" using tw [OF assms(1,3)] tw [OF assms(2,4)] assms(5) by simp
  with assms(5) show ?thesis by simp
qed

text \<open>A list of uniquely readable elements is uniquely readable up to its closing bracket.\<close>

lemma join_comma_unique:
  assumes uniq: "\<And>a b xs ys. a \<in> set as \<Longrightarrow> P b \<Longrightarrow> delimited xs \<Longrightarrow> delimited ys \<Longrightarrow>
      f a @ xs = f b @ ys \<Longrightarrow> g a = g b \<and> xs = ys"
    and starts: "\<And>a. a \<in> set as \<Longrightarrow> f a \<noteq> [] \<and> hd (f a) \<noteq> c"
      "\<And>b. P b \<Longrightarrow> f b \<noteq> [] \<and> hd (f b) \<noteq> c"
    and c: "c = CHR '']'' \<or> c = CHR ''}''"
    and bs: "\<forall>b \<in> set bs. P b"
    and eq: "join_comma (map f as) @ c # xs = join_comma (map f bs) @ c # ys"
  shows "map g as = map g bs \<and> xs = ys"
  using uniq starts(1) bs eq
proof (induction as arbitrary: bs)
  case Nil
  show ?case
  proof (cases bs)
    case (Cons b bs')
    with Nil.prems(3) have "f b \<noteq> [] \<and> hd (f b) \<noteq> c" using starts(2) by simp
    with Nil.prems(4) Cons show ?thesis by (cases bs'; cases "f b") auto
  qed (use Nil.prems(4) in simp)
next
  case (Cons a as)
  from Cons.prems(2) have fa: "f a \<noteq> [] \<and> hd (f a) \<noteq> c" by simp
  have dc: "delimited (c # zs)" for zs using c by auto
  show ?case
  proof (cases bs)
    case Nil
    with Cons.prems(4) fa show ?thesis by (cases as; cases "f a") auto
  next
    case bs: (Cons b bs')
    define ra where "ra = (case as of [] \<Rightarrow> c # xs | _ \<Rightarrow> CHR '','' # join_comma (map f as) @ c # xs)"
    define rb where "rb = (case bs' of [] \<Rightarrow> c # ys | _ \<Rightarrow> CHR '','' # join_comma (map f bs') @ c # ys)"
    have "f a @ ra = f b @ rb"
      using Cons.prems(4) bs by (cases as; cases bs') (simp_all add: ra_def rb_def)
    moreover have "delimited ra" "delimited rb"
      by (cases as; simp add: ra_def dc) (cases bs'; simp add: rb_def dc)
    moreover have "P b" using Cons.prems(3) bs by simp
    ultimately have g: "g a = g b" and r: "ra = rb"
      using Cons.prems(1) [of a b ra rb] by simp_all
    have cc: "c \<noteq> CHR '',''" using c by auto
    show ?thesis
    proof (cases as)
      case Nil
      with r cc have "bs' = []" by (cases bs') (simp_all add: ra_def rb_def)
      with r Nil g bs show ?thesis by (simp add: ra_def rb_def)
    next
      case as: (Cons a' as')
      with r cc have "bs' \<noteq> []" by (cases bs') (simp_all add: ra_def rb_def)
      then obtain b' bs'' where bs': "bs' = b' # bs''" by (cases bs') auto
      have j: "join_comma (map f as) @ c # xs = join_comma (map f bs') @ c # ys"
        using r by (simp add: ra_def rb_def as bs')
      have "map g as = map g bs' \<and> xs = ys"
      proof (rule Cons.IH)
        show "g u = g v \<and> us = vs" if "u \<in> set as" "P v" "delimited us" "delimited vs"
          "f u @ us = f v @ vs" for u v us vs
          using Cons.prems(1) [of u v us vs] that by simp
        show "f u \<noteq> [] \<and> hd (f u) \<noteq> c" if "u \<in> set as" for u
          using Cons.prems(2) [of u] that by simp
        show "\<forall>b \<in> set bs'. P b" using Cons.prems(3) bs by simp
      qed (rule j)
      with g bs show ?thesis by simp
    qed
  qed
qed

text \<open>The first character of a rendering tells what kind of value it is.\<close>

primrec json_kind :: "json \<Rightarrow> nat" where
  "json_kind JNull = 0"
| "json_kind (JBool b) = (if b then 1 else 2)"
| "json_kind (JNum t) = 3"
| "json_kind (JStr s) = 4"
| "json_kind (JArr vs) = 5"
| "json_kind (JObj kvs) = 6"

definition char_kind :: "char \<Rightarrow> nat" where
  "char_kind c = (if c = CHR ''n'' then 0 else if c = CHR ''t'' then 1 else if c = CHR ''f'' then 2
     else if c = CHR 0x22 then 4 else if c = CHR ''['' then 5 else if c = CHR ''{'' then 6
     else if c \<in> set ''0123456789+-.e'' then 3 else 7)"

lemma canonical_json_kind:
  assumes "json_wf v"
  shows "canonical_json v \<noteq> [] \<and> char_kind (hd (canonical_json v)) = json_kind v"
proof (cases v)
  case (JNum t)
  with assms obtain c r where "t = c # r" "c \<in> set ''0123456789+-.e''"
    by (cases t) (auto simp: num_token_def)
  with JNum show ?thesis by (auto simp: char_kind_def)
qed (auto simp: json_quote_def char_kind_def)

lemma canonical_json_start:
  assumes "json_wf v"
  shows "canonical_json v \<noteq> [] \<and> hd (canonical_json v) \<noteq> CHR '']'' \<and> hd (canonical_json v) \<noteq> CHR ''}''"
proof -
  have "json_kind v < 7" by (cases v) auto
  then have "char_kind (hd (canonical_json v)) \<noteq> char_kind CHR '']''"
    "char_kind (hd (canonical_json v)) \<noteq> char_kind CHR ''}''"
    using canonical_json_kind [OF assms] by (simp_all add: char_kind_def)
  then show ?thesis using canonical_json_kind [OF assms] by metis
qed

lemma same_kind:
  assumes "json_wf v" "json_wf w" "canonical_json v @ xs = canonical_json w @ ys"
  shows "json_kind v = json_kind w"
proof -
  have "hd (canonical_json v @ xs) = hd (canonical_json w @ ys)" using assms(3) by simp
  with canonical_json_kind [OF assms(1)] canonical_json_kind [OF assms(2)]
  show ?thesis by simp
qed

lemma canonical_json_unique:
  "json_wf v \<Longrightarrow> json_wf w \<Longrightarrow> delimited xs \<Longrightarrow> delimited ys \<Longrightarrow>
   canonical_json v @ xs = canonical_json w @ ys \<Longrightarrow> sorted_keys v = sorted_keys w \<and> xs = ys"
proof (induction v arbitrary: w xs ys)
  case JNull
  from same_kind [OF JNull(1,2,5)] have "w = JNull" by (cases w) (auto split: if_splits)
  with JNull(5) show ?case by simp
next
  case (JBool b)
  from same_kind [OF JBool(1,2,5)] have "w = JBool b" by (cases w) (auto split: if_splits)
  with JBool(5) show ?case by simp
next
  case (JNum t)
  from same_kind [OF JNum(1,2,5)] obtain t' where "w = JNum t'" by (cases w) (auto split: if_splits)
  with JNum num_token_unique [of t t' xs ys] show ?case by simp
next
  case (JStr s)
  from same_kind [OF JStr(1,2,5)] obtain s' where "w = JStr s'" by (cases w) (auto split: if_splits)
  with JStr json_quote_unique [of s xs s' ys] show ?case by simp
next
  case (JArr vs)
  note prems = JArr.prems
  from same_kind [OF prems(1,2,5)] obtain ws where w: "w = JArr ws"
    by (cases w) (auto split: if_splits)
  have "map sorted_keys vs = map sorted_keys ws \<and> xs = ys"
  proof (rule join_comma_unique [where f = canonical_json and g = sorted_keys
        and c = "CHR '']''" and P = json_wf])
    show "sorted_keys a = sorted_keys b \<and> us = zs"
      if "a \<in> set vs" "json_wf b" "delimited us" "delimited zs"
        "canonical_json a @ us = canonical_json b @ zs" for a b us zs
      by (rule JArr.IH) (use that prems in simp_all)
  qed (use prems w canonical_json_start in simp_all)
  with w show ?case by simp
next
  case (JObj kvs)
  note prems = JObj.prems
  let ?f = "\<lambda>(k, v). json_quote k @ CHR '':'' # canonical_json v"
  from same_kind [OF prems(1,2,5)] obtain kws where w: "w = JObj kws"
    by (cases w) (auto split: if_splits)
  have "map (map_prod id sorted_keys) (sort_key fst kvs)
      = map (map_prod id sorted_keys) (sort_key fst kws) \<and> xs = ys"
  proof (rule join_comma_unique [where f = ?f and c = "CHR ''}''" and P = "\<lambda>(k, v). json_wf v"])
    show "map_prod id sorted_keys a = map_prod id sorted_keys b \<and> us = zs"
      if a: "a \<in> set (sort_key fst kvs)" and b: "case b of (k, v) \<Rightarrow> json_wf v"
        and d: "delimited us" "delimited zs" and eq: "?f a @ us = ?f b @ zs" for a b us zs
    proof -
      obtain k v k' v' where ab: "a = (k, v)" "b = (k', v')" by (cases a, cases b) auto
      from eq ab have k: "k = k'" and vv: "canonical_json v @ us = canonical_json v' @ zs"
        using json_quote_unique [of k "CHR '':'' # canonical_json v @ us" k'
            "CHR '':'' # canonical_json v' @ zs"] by simp_all
      have kv: "(k, v) \<in> set kvs" using a ab by simp
      have "json_wf v" using prems(1) kv by auto
      then have "sorted_keys v = sorted_keys v' \<and> us = zs"
        using JObj.IH [OF kv _ _ _ d vv] b ab by (simp add: snds.intros)
      with k ab show ?thesis by simp
    qed
  qed (use prems w in \<open>auto simp: json_quote_def\<close>)
  with w show ?case by simp
qed

theorem canonical_json_eq_iff:
  assumes "json_wf v" "json_wf w"
  shows "canonical_json v = canonical_json w \<longleftrightarrow> sorted_keys v = sorted_keys w"
proof
  show "canonical_json v = canonical_json w \<Longrightarrow> sorted_keys v = sorted_keys w"
    using canonical_json_unique [OF assms, of "[]" "[]"] by simp
next
  have idem: "canonical_json (sorted_keys u) = canonical_json u" for u
  proof (induction u)
    case (JArr vs)
    then have "map (canonical_json \<circ> sorted_keys) vs = map canonical_json vs" by simp
    then show ?case by (simp only: canonical_json.simps sorted_keys.simps list.map_comp)
  next
    case (JObj kvs)
    have s: "sort_key fst (map (map_prod id sorted_keys) (sort_key fst kvs))
        = map (map_prod id sorted_keys) (sort_key fst kvs)"
      by (simp only: sort_key_map_prod sort_key_idem)
    have "canonical_json (sorted_keys v) = canonical_json v" if "(k, v) \<in> set kvs" for k v
      using JObj.IH [OF that] by (simp add: snds.intros)
    then have "map ((\<lambda>(k, v). json_quote k @ CHR '':'' # canonical_json v) \<circ> map_prod id sorted_keys)
          (sort_key fst kvs)
        = map (\<lambda>(k, v). json_quote k @ CHR '':'' # canonical_json v) (sort_key fst kvs)"
      by (intro map_cong) auto
    then show ?case by (simp only: canonical_json_obj sorted_keys_obj s list.map_comp)
  qed auto
  show "canonical_json v = canonical_json w" if "sorted_keys v = sorted_keys w"
    using idem [of v] idem [of w] that by metis
qed

end
