(* ===== verification/Schema.thy ===== *)
theory Schema
  imports Js_Number Js_Text Json
begin

text \<open>
  The data of \<open>packages/schema/src\<close>: identifiers, the team sheet and its validation rules, tool
  calls, refusals and the price table. The zod schemas become records and datatypes with a
  validity predicate (\<open>\<dots>_ok\<close>) that states the constraints a parsed value satisfies.
\<close>

subsection \<open>Names (\<open>names.ts\<close>)\<close>

text \<open>\<open>/^[A-Za-z0-9][A-Za-z0-9._-]*$/\<close>, of 1 to 64 characters.\<close>

definition ident_char :: "char \<Rightarrow> bool" where
  "ident_char c \<longleftrightarrow> is_alnum c \<or> c \<in> set ''._-''"

definition identifier_ok :: "string \<Rightarrow> bool" where
  "identifier_ok s \<longleftrightarrow> s \<noteq> [] \<and> length s \<le> 64 \<and> is_alnum (hd s) \<and> list_all ident_char s"

definition channel_id_pattern :: "string \<Rightarrow> bool" where
  "channel_id_pattern s \<longleftrightarrow> s \<noteq> [] \<and> is_alnum (hd s) \<and> list_all ident_char (tl s) \<and> length (tl s) \<le> 63"

definition ambient_requesting_user :: string where
  "ambient_requesting_user = ''ambient:clock''"

definition requesting_user_ok :: "string \<Rightarrow> bool" where
  "requesting_user_ok s \<longleftrightarrow> identifier_ok s \<or> s = ambient_requesting_user"

definition model_id_ok :: "string \<Rightarrow> bool" where
  "model_id_ok s \<longleftrightarrow> s \<noteq> [] \<and> length s \<le> 128 \<and> is_alnum (hd s)
     \<and> list_all (\<lambda>c. is_alnum c \<or> c \<in> set ''._:/-'') s"

definition destination_host_ok :: "string \<Rightarrow> bool" where
  "destination_host_ok s \<longleftrightarrow> s \<noteq> [] \<and> length s \<le> 253 \<and> list_all (\<lambda>c. is_alnum c \<or> c \<in> set ''.:_-'') s"

text \<open>A SHA-256 fingerprint: 32 hex pairs, colon-separated or bare.\<close>

definition hex_digit :: "char \<Rightarrow> bool" where
  "hex_digit c \<longleftrightarrow> c \<in> set ''0123456789ABCDEFabcdef''"

fun hex_pairs_colon :: "nat \<Rightarrow> string \<Rightarrow> bool" where
  "hex_pairs_colon (Suc n) (a # b # c # s) =
     (hex_digit a \<and> hex_digit b \<and> c = CHR '':'' \<and> hex_pairs_colon n s)"
| "hex_pairs_colon 0 [a, b] = (hex_digit a \<and> hex_digit b)"
| "hex_pairs_colon _ _ = False"

definition certificate_sha256_ok :: "string \<Rightarrow> bool" where
  "certificate_sha256_ok s \<longleftrightarrow> hex_pairs_colon 31 s \<or> length s = 64 \<and> list_all hex_digit s"

text \<open>ASCII case mapping, by the letters' positions.\<close>

definition to_upper :: "char \<Rightarrow> char" where
  "to_upper c = (if is_lower c then char_of ((of_char c :: nat) - 32) else c)"

definition to_lower :: "char \<Rightarrow> char" where
  "to_lower c = (if is_upper c then char_of ((of_char c :: nat) + 32) else c)"

definition normalize_certificate_sha256 :: "string \<Rightarrow> string" where
  "normalize_certificate_sha256 s = map to_upper (filter (\<lambda>c. c \<noteq> CHR '':'') s)"

text \<open>\<open>ChannelId\<close> and \<open>identifier()\<close> spell the same language.\<close>

lemma channel_id_pattern_iff: "channel_id_pattern s \<longleftrightarrow> identifier_ok s"
  by (cases s) (auto simp: channel_id_pattern_def identifier_ok_def ident_char_def)

lemma char_ranges:
  "is_lower c \<longleftrightarrow> (of_char c :: nat) \<in> {97..122}"
  "is_upper c \<longleftrightarrow> (of_char c :: nat) \<in> {65..90}"
proof -
  have l: "set ''abcdefghijklmnopqrstuvwxyz'' = char_of ` {97..122::nat}" by code_simp
  have u: "set ''ABCDEFGHIJKLMNOPQRSTUVWXYZ'' = char_of ` {65..90::nat}" by code_simp
  show "is_lower c \<longleftrightarrow> (of_char c :: nat) \<in> {97..122}" unfolding is_lower_def l by force
  show "is_upper c \<longleftrightarrow> (of_char c :: nat) \<in> {65..90}" unfolding is_upper_def u by force
qed

lemma of_char_to_upper:
  "(of_char (to_upper c) :: nat) = (if is_lower c then of_char c - 32 else of_char c)"
  by (auto simp: to_upper_def char_ranges)

lemma of_char_to_lower:
  "(of_char (to_lower c) :: nat) = (if is_upper c then of_char c + 32 else of_char c)"
  by (auto simp: to_lower_def char_ranges)

lemma to_upper_idem [simp]: "to_upper (to_upper c) = to_upper c"
proof -
  have "\<not> is_lower (to_upper c)" by (auto simp: char_ranges of_char_to_upper)
  then show ?thesis by (simp add: to_upper_def [of "to_upper c"])
qed

lemma to_lower_idem [simp]: "to_lower (to_lower c) = to_lower c"
proof -
  have "\<not> is_upper (to_lower c)" by (auto simp: char_ranges of_char_to_lower)
  then show ?thesis by (simp add: to_lower_def [of "to_lower c"])
qed

lemma to_upper_colon: "to_upper c = CHR '':'' \<longleftrightarrow> c = CHR '':''"
proof (cases "is_lower c")
  case True
  then have "(of_char (to_upper c) :: nat) \<noteq> of_char CHR '':''" "(of_char c :: nat) \<noteq> of_char CHR '':''"
    by (auto simp: of_char_to_upper char_ranges)
  then show ?thesis by metis
qed (simp add: to_upper_def)

text \<open>Normalising a fingerprint twice is normalising it once: both sides of a pin comparison do it.\<close>

lemma normalize_certificate_idem [simp]:
  "normalize_certificate_sha256 (normalize_certificate_sha256 s) = normalize_certificate_sha256 s"
  by (simp add: normalize_certificate_sha256_def filter_map comp_def to_upper_colon)

end
