(* ===== verification/Team_Sheet.thy ===== *)
theory Team_Sheet
  imports Schema
begin

text \<open>
  The team sheet (\<open>packages/schema/src/team-sheet.ts\<close>, \<open>builtin.ts\<close>, \<open>sandbox.ts\<close>,
  \<open>egress.ts\<close>): one channel's grants and limits. One record per TOML block and one \<open>\<dots>_ok\<close>
  predicate per zod schema, with the cross-field checks written as the code writes them.
\<close>

subsection \<open>Tools and servers\<close>

datatype approval_mode = ApprovalRequired | ApprovalNone

record tool_entry =
  te_name :: string
  te_approval :: "approval_mode option"
  te_max_result_chars :: "nat option"

definition tool_entry_ok :: "tool_entry \<Rightarrow> bool" where
  "tool_entry_ok t \<longleftrightarrow> identifier_ok (te_name t) \<and> pred_option (\<lambda>n. 0 < n) (te_max_result_chars t)"

datatype dpop_mode = DpopPrefer | DpopRequire | DpopOff

record auth_config =
  auth_issuer :: string
  auth_scopes :: "string list"
  auth_dpop :: dpop_mode

datatype transport = Http | Stdio

record mcp_server =
  srv_name :: string
  srv_transport :: transport
  srv_url :: "string option"
  srv_credential :: "string option"
  srv_auth :: "auth_config option"
  srv_tools :: "tool_entry list"

definition scope_token_ok :: "string \<Rightarrow> bool" where
  "scope_token_ok s \<longleftrightarrow> s \<noteq> [] \<and> length s \<le> 128 \<and>
     list_all (\<lambda>c. let n = (of_char c :: nat) in n = 0x21 \<or> 0x23 \<le> n \<and> n \<le> 0x5B \<or> 0x5D \<le> n \<and> n \<le> 0x7E) s"

text \<open>
  The URL parser is the platform's: \<open>url_ok\<close> and \<open>issuer_ok\<close> stand for \<open>z.url()\<close> and for an
  issuer with neither query nor fragment.
\<close>

definition auth_config_ok :: "(string \<Rightarrow> bool) \<Rightarrow> auth_config \<Rightarrow> bool" where
  "auth_config_ok issuer_ok a \<longleftrightarrow>
     issuer_ok (auth_issuer a) \<and> list_all scope_token_ok (auth_scopes a) \<and> length (auth_scopes a) \<le> 16"

definition mcp_server_ok :: "(string \<Rightarrow> bool) \<Rightarrow> (string \<Rightarrow> bool) \<Rightarrow> mcp_server \<Rightarrow> bool" where
  "mcp_server_ok url_ok issuer_ok s \<longleftrightarrow>
     identifier_ok (srv_name s) \<and> pred_option identifier_ok (srv_credential s) \<and>
     list_all tool_entry_ok (srv_tools s) \<and>
     (case srv_transport s of
        Http \<Rightarrow> (case srv_url s of None \<Rightarrow> False | Some u \<Rightarrow> url_ok u) \<and>
          pred_option (auth_config_ok issuer_ok) (srv_auth s) \<and>
          (srv_auth s = None \<or> srv_credential s \<noteq> None)
      | Stdio \<Rightarrow> srv_url s = None \<and> srv_auth s = None)"

definition builtin_server :: string where
  "builtin_server = ''libero''"

text \<open>\<open>McpServerList\<close>: the built-in server's name is reserved.\<close>

definition mcp_server_list_ok :: "(string \<Rightarrow> bool) \<Rightarrow> (string \<Rightarrow> bool) \<Rightarrow> mcp_server list \<Rightarrow> bool" where
  "mcp_server_list_ok url_ok issuer_ok ss \<longleftrightarrow>
     list_all (mcp_server_ok url_ok issuer_ok) ss \<and> list_all (\<lambda>s. srv_name s \<noteq> builtin_server) ss"

subsection \<open>Built-in tools\<close>

datatype builtin_name = SearchChannelHistory | ScheduleTask | RunCode

fun builtin_tool_name :: "builtin_name \<Rightarrow> string" where
  "builtin_tool_name SearchChannelHistory = ''search_channel_history''"
| "builtin_tool_name ScheduleTask = ''schedule_task''"
| "builtin_tool_name RunCode = ''run_code''"

lemma builtin_tool_name_inj [simp]: "builtin_tool_name a = builtin_tool_name b \<longleftrightarrow> a = b"
  by (cases a; cases b) auto

fun builtin_approval_default :: "builtin_name \<Rightarrow> approval_mode" where
  "builtin_approval_default SearchChannelHistory = ApprovalNone"
| "builtin_approval_default ScheduleTask = ApprovalRequired"
| "builtin_approval_default RunCode = ApprovalRequired"

record sandbox_caps =
  cap_cpus :: rat
  cap_memory_mb :: nat
  cap_timeout_seconds :: nat

definition sandbox_caps_ok :: "sandbox_caps \<Rightarrow> bool" where
  "sandbox_caps_ok c \<longleftrightarrow> 0 < cap_cpus c \<and> cap_cpus c \<le> 64 \<and>
     0 < cap_memory_mb c \<and> cap_memory_mb c \<le> 65536 \<and>
     0 < cap_timeout_seconds c \<and> cap_timeout_seconds c \<le> 3600"

text \<open>The discriminated union: only a \<open>run_code\<close> entry carries sandbox limits.\<close>

datatype builtin_entry =
    SearchEntry (be_approval: "approval_mode option") (be_max_result_chars: "nat option")
  | ScheduleEntry (be_approval: "approval_mode option") (be_max_result_chars: "nat option")
  | SandboxEntry (be_approval: "approval_mode option") (be_max_result_chars: "nat option")
      (be_caps: sandbox_caps)

fun be_name :: "builtin_entry \<Rightarrow> builtin_name" where
  "be_name (SearchEntry _ _) = SearchChannelHistory"
| "be_name (ScheduleEntry _ _) = ScheduleTask"
| "be_name (SandboxEntry _ _ _) = RunCode"

fun builtin_entry_ok :: "builtin_entry \<Rightarrow> bool" where
  "builtin_entry_ok (SandboxEntry a m c) = (pred_option (\<lambda>n. 0 < n) m \<and> sandbox_caps_ok c)"
| "builtin_entry_ok e = pred_option (\<lambda>n. 0 < n) (be_max_result_chars e)"

subsection \<open>The blocks of limits\<close>

record channel_block =
  ch_name :: js_text
  ch_description :: js_text
  ch_persona :: js_text
  ch_certificate_sha256 :: "string list"

definition channel_block_ok :: "channel_block \<Rightarrow> bool" where
  "channel_block_ok c \<longleftrightarrow> ch_name c \<noteq> [] \<and> length (ch_description c) \<le> 500 \<and>
     length (ch_persona c) \<le> 1000 \<and> list_all certificate_sha256_ok (ch_certificate_sha256 c) \<and>
     1 \<le> length (ch_certificate_sha256 c) \<and> length (ch_certificate_sha256 c) \<le> 4"

record llm_block =
  llm_model :: "string option"
  llm_max_tool_calls_per_task :: nat
  llm_max_task_seconds :: nat
  llm_max_tokens_per_task :: nat
  llm_max_tokens_per_turn :: nat
  llm_max_history_messages :: nat
  llm_max_history_chars :: nat
  llm_max_result_chars :: nat
  llm_follow_up_window_seconds :: nat

definition llm_block_ok :: "llm_block \<Rightarrow> bool" where
  "llm_block_ok l \<longleftrightarrow> pred_option (\<lambda>m. m \<noteq> []) (llm_model l) \<and>
     0 < llm_max_tool_calls_per_task l \<and> 0 < llm_max_task_seconds l \<and>
     0 < llm_max_tokens_per_task l \<and> 0 < llm_max_tokens_per_turn l \<and>
     llm_max_history_messages l \<le> 200 \<and> 0 < llm_max_result_chars l \<and>
     llm_follow_up_window_seconds l \<le> 1800"

definition default_llm :: llm_block where
  "default_llm = \<lparr>llm_model = None, llm_max_tool_calls_per_task = 25, llm_max_task_seconds = 300,
     llm_max_tokens_per_task = 200000, llm_max_tokens_per_turn = 8192, llm_max_history_messages = 40,
     llm_max_history_chars = 12000, llm_max_result_chars = 32768, llm_follow_up_window_seconds = 900\<rparr>"

record budget_block =
  daily_tokens :: nat
  daily_tool_calls :: nat
  daily_usd :: "rat option"
  cache_read_weight :: rat
  cache_write_weight :: rat
  warn_at :: rat

definition budget_block_ok :: "budget_block \<Rightarrow> bool" where
  "budget_block_ok b \<longleftrightarrow> 0 < daily_tokens b \<and> 0 < daily_tool_calls b \<and>
     pred_option (\<lambda>u. 0 < u) (daily_usd b) \<and>
     0 \<le> cache_read_weight b \<and> cache_read_weight b \<le> 100 \<and>
     0 \<le> cache_write_weight b \<and> cache_write_weight b \<le> 100 \<and>
     0 \<le> warn_at b \<and> warn_at b < 1"

definition default_budget :: budget_block where
  "default_budget = \<lparr>daily_tokens = 1000000, daily_tool_calls = 200, daily_usd = None,
     cache_read_weight = fl (1 / 10), cache_write_weight = 5 / 4, warn_at = fl (8 / 10)\<rparr>"

record memory_block =
  mem_enabled :: bool
  mem_max_file_chars :: nat
  mem_summarize :: bool
  mem_summarize_after_idle_minutes :: nat

definition memory_block_ok :: "memory_block \<Rightarrow> bool" where
  "memory_block_ok m \<longleftrightarrow> 4096 \<le> mem_max_file_chars m \<and> mem_max_file_chars m \<le> 262144 \<and>
     5 \<le> mem_summarize_after_idle_minutes m \<and> mem_summarize_after_idle_minutes m \<le> 10080"

definition default_memory :: memory_block where
  "default_memory = \<lparr>mem_enabled = True, mem_max_file_chars = 32768, mem_summarize = True,
     mem_summarize_after_idle_minutes = 60\<rparr>"

record skills_block =
  sk_enabled :: bool
  sk_curate :: bool
  sk_author_after_tool_calls :: nat
  sk_top_k :: nat
  sk_max_skill_chars :: nat
  sk_max_always_skills :: nat
  sk_max_always_chars :: nat
  sk_max_skills :: nat
  sk_stale_after_days :: nat
  sk_archive_after_days :: nat

definition skills_block_ok :: "skills_block \<Rightarrow> bool" where
  "skills_block_ok k \<longleftrightarrow> 1 \<le> sk_author_after_tool_calls k \<and>
     1 \<le> sk_top_k k \<and> sk_top_k k \<le> 10 \<and>
     4096 \<le> sk_max_skill_chars k \<and> sk_max_skill_chars k \<le> 65536 \<and>
     1 \<le> sk_max_always_skills k \<and> sk_max_always_skills k \<le> 10 \<and>
     4096 \<le> sk_max_always_chars k \<and> sk_max_always_chars k \<le> 32768 \<and>
     1 \<le> sk_max_skills k \<and> sk_max_skills k \<le> 1000 \<and>
     1 \<le> sk_stale_after_days k \<and> sk_stale_after_days k \<le> 3650 \<and>
     1 \<le> sk_archive_after_days k \<and> sk_archive_after_days k \<le> 3650 \<and>
     sk_stale_after_days k \<le> sk_archive_after_days k"

definition default_skills :: skills_block where
  "default_skills = \<lparr>sk_enabled = True, sk_curate = True, sk_author_after_tool_calls = 5,
     sk_top_k = 3, sk_max_skill_chars = 8192, sk_max_always_skills = 2, sk_max_always_chars = 8192,
     sk_max_skills = 100, sk_stale_after_days = 30, sk_archive_after_days = 90\<rparr>"

subsection \<open>Shared skills and ambient rules\<close>

text \<open>\<open>/^[a-z0-9]+(?:-[a-z0-9]+)*$/\<close>: words of lowercase letters and digits, joined by single dashes.\<close>

definition word_char :: "char \<Rightarrow> bool" where
  "word_char c \<longleftrightarrow> is_lower c \<or> is_digit c"

fun dashed_words :: "bool \<Rightarrow> string \<Rightarrow> bool" where
  "dashed_words in_word [] = in_word"
| "dashed_words in_word (c # s) =
     (if word_char c then dashed_words True s
      else c = CHR ''-'' \<and> in_word \<and> dashed_words False s)"

definition skill_name_ok :: "string \<Rightarrow> bool" where
  "skill_name_ok s \<longleftrightarrow> dashed_words False s \<and> s \<noteq> [] \<and> length s \<le> 64"

datatype skill_load = LoadAlways | LoadRetrieved

record shared_skill =
  ss_name :: string
  ss_load :: skill_load

definition shared_skill_list_ok :: "shared_skill list \<Rightarrow> bool" where
  "shared_skill_list_ok ss \<longleftrightarrow> list_all (\<lambda>e. skill_name_ok (ss_name e)) ss \<and> distinct (map ss_name ss)"

datatype rule_day = Mon | Tue | Wed | Thu | Fri | Sat | Sun

text \<open>\<open>/^([01]\d|2[0-3]):[0-5]\d$/\<close>.\<close>

fun clock_time_ok :: "string \<Rightarrow> bool" where
  "clock_time_ok [a, b, c, d, e] =
     ((a \<in> set ''01'' \<and> is_digit b \<or> a = CHR ''2'' \<and> b \<in> set ''0123'') \<and> c = CHR '':''
      \<and> d \<in> set ''012345'' \<and> is_digit e)"
| "clock_time_ok _ = False"

record ambient_rule =
  rule_name :: string
  rule_at :: "string list"
  rule_days :: "rule_day list option"
  rule_timezone :: "string option"
  rule_question :: js_text

text \<open>The zones the runtime names (\<open>Intl.supportedValuesOf\<close>) are the argument \<open>zone_ok\<close>.\<close>

definition ambient_rule_ok :: "(string \<Rightarrow> bool) \<Rightarrow> ambient_rule \<Rightarrow> bool" where
  "ambient_rule_ok zone_ok r \<longleftrightarrow> skill_name_ok (rule_name r) \<and>
     list_all clock_time_ok (rule_at r) \<and> 1 \<le> length (rule_at r) \<and> length (rule_at r) \<le> 4 \<and>
     pred_option (\<lambda>ds. 1 \<le> length ds \<and> length ds \<le> 7) (rule_days r) \<and>
     pred_option (\<lambda>z. z \<noteq> [] \<and> length z \<le> 64 \<and> zone_ok z) (rule_timezone r) \<and>
     1 \<le> length (rule_question r) \<and> length (rule_question r) \<le> 500"

definition ambient_rule_list_ok :: "(string \<Rightarrow> bool) \<Rightarrow> ambient_rule list \<Rightarrow> bool" where
  "ambient_rule_list_ok zone_ok rs \<longleftrightarrow> length rs \<le> 8 \<and> list_all (ambient_rule_ok zone_ok) rs \<and>
     distinct (map rule_name rs) \<and> list_all (\<lambda>r. distinct (rule_at r)) rs \<and>
     list_all (\<lambda>r. pred_option distinct (rule_days r)) rs"

record ambient_block =
  amb_enabled :: bool
  amb_heartbeat :: bool
  amb_heartbeat_every_minutes :: nat
  amb_answer_after_idle_minutes :: nat
  amb_rules :: "ambient_rule list"
  amb_tools :: bool

definition ambient_block_ok :: "(string \<Rightarrow> bool) \<Rightarrow> ambient_block \<Rightarrow> bool" where
  "ambient_block_ok zone_ok a \<longleftrightarrow>
     1 \<le> amb_heartbeat_every_minutes a \<and> amb_heartbeat_every_minutes a \<le> 1440 \<and>
     5 \<le> amb_answer_after_idle_minutes a \<and> amb_answer_after_idle_minutes a \<le> 10080 \<and>
     ambient_rule_list_ok zone_ok (amb_rules a)"

definition default_ambient :: ambient_block where
  "default_ambient = \<lparr>amb_enabled = False, amb_heartbeat = True, amb_heartbeat_every_minutes = 15,
     amb_answer_after_idle_minutes = 60, amb_rules = [], amb_tools = False\<rparr>"

subsection \<open>Egress patterns\<close>

definition egress_char :: "char \<Rightarrow> bool" where
  "egress_char c \<longleftrightarrow> is_alnum c \<or> c \<in> set ''.:_-''"

fun strip_wildcard :: "string \<Rightarrow> string" where
  "strip_wildcard (a # b # s) = (if a = CHR ''*'' \<and> b = CHR ''.'' then s else a # b # s)"
| "strip_wildcard s = s"

definition egress_pattern_ok :: "string \<Rightarrow> bool" where
  "egress_pattern_ok p \<longleftrightarrow> length p \<le> 255 \<and> strip_wildcard p \<noteq> [] \<and> list_all egress_char (strip_wildcard p)"

subsection \<open>The sheet\<close>

record team_sheet =
  sheet_channel :: channel_block
  sheet_llm :: llm_block
  sheet_budget :: budget_block
  sheet_memory :: memory_block
  sheet_skills :: skills_block
  sheet_shared_skill :: "shared_skill list"
  sheet_mcp_server :: "mcp_server list"
  sheet_builtin :: "builtin_entry list"
  sheet_egress_allow :: "string list"
  sheet_ambient :: ambient_block

text \<open>The check that spans two keys: the standing skills stay under their own cap.\<close>

definition standing_skills :: "team_sheet \<Rightarrow> nat" where
  "standing_skills s = length (filter (\<lambda>e. ss_load e = LoadAlways) (sheet_shared_skill s))"

definition standing_skills_ok :: "team_sheet \<Rightarrow> bool" where
  "standing_skills_ok s \<longleftrightarrow> sk_max_always_skills (sheet_skills s) < 1
     \<or> standing_skills s \<le> sk_max_always_skills (sheet_skills s)"

definition team_sheet_ok ::
    "(string \<Rightarrow> bool) \<Rightarrow> (string \<Rightarrow> bool) \<Rightarrow> (string \<Rightarrow> bool) \<Rightarrow> team_sheet \<Rightarrow> bool" where
  "team_sheet_ok url_ok issuer_ok zone_ok s \<longleftrightarrow>
     channel_block_ok (sheet_channel s) \<and> llm_block_ok (sheet_llm s) \<and>
     budget_block_ok (sheet_budget s) \<and> memory_block_ok (sheet_memory s) \<and>
     skills_block_ok (sheet_skills s) \<and> shared_skill_list_ok (sheet_shared_skill s) \<and>
     mcp_server_list_ok url_ok issuer_ok (sheet_mcp_server s) \<and>
     list_all builtin_entry_ok (sheet_builtin s) \<and>
     list_all egress_pattern_ok (sheet_egress_allow s) \<and>
     ambient_block_ok zone_ok (sheet_ambient s) \<and> standing_skills_ok s"

lemma default_blocks_ok:
  "llm_block_ok default_llm" "memory_block_ok default_memory" "skills_block_ok default_skills"
  "ambient_block_ok zone_ok default_ambient"
  by (simp_all add: llm_block_ok_def default_llm_def memory_block_ok_def default_memory_def
      skills_block_ok_def default_skills_def ambient_block_ok_def default_ambient_def
      ambient_rule_list_ok_def)

lemma default_budget_ok: "budget_block_ok default_budget"
proof -
  have "fl 1 = 1" using fl_int [of 1] by simp
  then have a: "0 \<le> fl (1 / 10)" "fl (1 / 10) \<le> 1" "0 \<le> fl (8 / 10)"
    using fl_mono [of "1 / 10" 1] by (auto intro: fl_nonneg)
  have b: "fl (8 / 10) < 1" by code_simp
  show ?thesis
    unfolding budget_block_ok_def default_budget_def budget_block.simps using a b by simp
qed

lemma team_sheet_okD:
  assumes "team_sheet_ok url_ok issuer_ok zone_ok s"
  shows "budget_block_ok (sheet_budget s)" "list_all builtin_entry_ok (sheet_builtin s)"
    "mcp_server_list_ok url_ok issuer_ok (sheet_mcp_server s)" "channel_block_ok (sheet_channel s)"
    "llm_block_ok (sheet_llm s)"
  using assms by (simp_all add: team_sheet_ok_def)

end
