(* ===== verification/Tool_Call.thy ===== *)
theory Tool_Call
  imports Team_Sheet
begin

text \<open>
  Tool calls, their results, refusals and warnings (\<open>packages/schema/src/tool-call.ts\<close>,
  \<open>refusal.ts\<close>, \<open>budget-warning.ts\<close>, \<open>approval.ts\<close>), the price table
  (\<open>price-table.ts\<close>) and the egress matcher (\<open>egress.ts\<close>).
\<close>

subsection \<open>Calls\<close>

record tool_call =
  tc_id :: string
  tc_server :: string
  tc_tool :: string
  tc_arguments :: json
  tc_requesting_user :: string
  tc_task :: string
  tc_thread :: "string option"

text \<open>A resolved call carries the channel the certificate named, and no ticket.\<close>

record resolved_call = tool_call +
  rc_channel :: string

text \<open>\<open>Inl\<close> is the throw for a channel that is not a channel id.\<close>

definition resolve_tool_call :: "tool_call \<Rightarrow> string \<Rightarrow> unit + resolved_call" where
  "resolve_tool_call call channel =
     (if \<not> channel_id_pattern channel then Inl ()
      else Inr (tool_call.extend call (resolved_call.fields channel)))"

subsection \<open>Refusals\<close>

datatype budget_limit = DailyTokens | DailyToolCalls | DailyUsd

datatype tool_refusal =
    NoTeamSheet
  | TeamSheetUnreadable
  | ServerNotAllowed string
  | ToolNotAllowed string string
  | ServerAmbiguous string string
  | NeedsApproval string string
  | ApprovalPending string string
  | ApprovalUnknown string string
  | ApprovalExpired string string
  | ApprovalSpent string string
  | ApprovalDenied string string
  | ApprovalMismatch string string
  | BudgetExhausted budget_limit
  | ModelNotPriced string
  | ModelUnreported
  | EgressDenied string
  | CredentialUnresolved string
  | ScheduleFull
  | ScheduleTooSoon
  | ScheduleTooFar
  | AmbientDisabled

datatype refusal_reason =
    R_no_team_sheet | R_team_sheet_unreadable | R_server_not_allowed | R_tool_not_allowed
  | R_server_ambiguous | R_approval_required | R_approval_pending | R_approval_unknown
  | R_approval_expired | R_approval_spent | R_approval_denied | R_approval_mismatch
  | R_budget_exhausted | R_model_not_priced | R_model_unreported | R_egress_denied
  | R_credential_unresolved | R_schedule_full | R_schedule_too_soon | R_schedule_too_far
  | R_ambient_disabled

fun reason_of :: "tool_refusal \<Rightarrow> refusal_reason" where
  "reason_of NoTeamSheet = R_no_team_sheet"
| "reason_of TeamSheetUnreadable = R_team_sheet_unreadable"
| "reason_of (ServerNotAllowed _) = R_server_not_allowed"
| "reason_of (ToolNotAllowed _ _) = R_tool_not_allowed"
| "reason_of (ServerAmbiguous _ _) = R_server_ambiguous"
| "reason_of (NeedsApproval _ _) = R_approval_required"
| "reason_of (ApprovalPending _ _) = R_approval_pending"
| "reason_of (ApprovalUnknown _ _) = R_approval_unknown"
| "reason_of (ApprovalExpired _ _) = R_approval_expired"
| "reason_of (ApprovalSpent _ _) = R_approval_spent"
| "reason_of (ApprovalDenied _ _) = R_approval_denied"
| "reason_of (ApprovalMismatch _ _) = R_approval_mismatch"
| "reason_of (BudgetExhausted _) = R_budget_exhausted"
| "reason_of (ModelNotPriced _) = R_model_not_priced"
| "reason_of ModelUnreported = R_model_unreported"
| "reason_of (EgressDenied _) = R_egress_denied"
| "reason_of (CredentialUnresolved _) = R_credential_unresolved"
| "reason_of ScheduleFull = R_schedule_full"
| "reason_of ScheduleTooSoon = R_schedule_too_soon"
| "reason_of ScheduleTooFar = R_schedule_too_far"
| "reason_of AmbientDisabled = R_ambient_disabled"

text \<open>
  \<open>auditRefusalMessage\<close>: the refusal a row's columns still determine, or none. The message is a
  function of the refusal, so the model returns the refusal itself.
\<close>

fun audit_refusal ::
    "refusal_reason \<Rightarrow> string \<Rightarrow> string \<Rightarrow> budget_limit option \<Rightarrow> string option \<Rightarrow> tool_refusal option"
where
  "audit_refusal R_no_team_sheet _ _ _ _ = Some NoTeamSheet"
| "audit_refusal R_team_sheet_unreadable _ _ _ _ = Some TeamSheetUnreadable"
| "audit_refusal R_server_not_allowed s _ _ _ = Some (ServerNotAllowed s)"
| "audit_refusal R_tool_not_allowed s t _ _ = Some (ToolNotAllowed s t)"
| "audit_refusal R_server_ambiguous s t _ _ = Some (ServerAmbiguous s t)"
| "audit_refusal R_approval_required s t _ _ = Some (NeedsApproval s t)"
| "audit_refusal R_approval_pending s t _ _ = Some (ApprovalPending s t)"
| "audit_refusal R_approval_unknown s t _ _ = Some (ApprovalUnknown s t)"
| "audit_refusal R_approval_expired s t _ _ = Some (ApprovalExpired s t)"
| "audit_refusal R_approval_spent s t _ _ = Some (ApprovalSpent s t)"
| "audit_refusal R_approval_denied s t _ _ = Some (ApprovalDenied s t)"
| "audit_refusal R_approval_mismatch s t _ _ = Some (ApprovalMismatch s t)"
| "audit_refusal R_budget_exhausted _ _ l _ = map_option BudgetExhausted l"
| "audit_refusal R_model_unreported _ _ _ _ = Some ModelUnreported"
| "audit_refusal R_schedule_full _ _ _ _ = Some ScheduleFull"
| "audit_refusal R_schedule_too_soon _ _ _ _ = Some ScheduleTooSoon"
| "audit_refusal R_schedule_too_far _ _ _ _ = Some ScheduleTooFar"
| "audit_refusal R_ambient_disabled _ _ _ _ = Some AmbientDisabled"
| "audit_refusal R_egress_denied _ _ _ d = map_option EgressDenied d"
| "audit_refusal R_model_not_priced _ _ _ _ = None"
| "audit_refusal R_credential_unresolved _ _ _ _ = None"

lemma audit_refusal_reason: "audit_refusal r s t l d = Some f \<Longrightarrow> reason_of f = r"
  by (cases r) auto

record budget_warning =
  bw_limit :: budget_limit
  bw_spent :: rat
  bw_cap :: rat

subsection \<open>Results\<close>

datatype result_block =
    TextBlock js_text
  | ImageBlock string js_text
  | AudioBlock string js_text
  | ResourceBlock js_text "js_text option" string

datatype block_type = TText | TImage | TAudio | TResource

fun block_type_of :: "result_block \<Rightarrow> block_type" where
  "block_type_of (TextBlock _) = TText"
| "block_type_of (ImageBlock _ _) = TImage"
| "block_type_of (AudioBlock _ _) = TAudio"
| "block_type_of (ResourceBlock _ _ _) = TResource"

record tool_result =
  res_content :: "result_block list"
  res_is_error :: bool

definition ends_with :: "'a list \<Rightarrow> 'a list \<Rightarrow> bool" where
  "ends_with s t \<longleftrightarrow> length t \<le> length s \<and> drop (length s - length t) s = t"

definition starts_with :: "'a list \<Rightarrow> 'a list \<Rightarrow> bool" where
  "starts_with s t \<longleftrightarrow> take (length t) s = t"

text \<open>The subtraction stops at zero, as the code's \<open>Math.max(0, \<dots>)\<close> does.\<close>

definition base64_bytes :: "string \<Rightarrow> nat" where
  "base64_bytes data =
     (let padding = (if ends_with data ''=='' then 2 else if ends_with data ''='' then 1 else 0)
      in length data * 3 div 4 - padding)"

text \<open>Dividing by a power of two is exact, so \<open>Math.round(count / 1024)\<close> is integer arithmetic.\<close>

definition describe_bytes :: "nat \<Rightarrow> js_text" where
  "describe_bytes count =
     (if count < 1024 then js_nat count @ js '' bytes''
      else if count < 1024 * 1024 then js_nat ((count + 512) div 1024) @ js '' KB''
      else js_nat ((count + 524288) div 1048576) @ js '' MB'')"

fun block_bytes :: "result_block \<Rightarrow> nat" where
  "block_bytes (TextBlock _) = 0"
| "block_bytes (ImageBlock d _) = base64_bytes d"
| "block_bytes (AudioBlock d _) = base64_bytes d"
| "block_bytes (ResourceBlock _ _ b) = base64_bytes b"

fun block_cost :: "result_block \<Rightarrow> nat" where
  "block_cost (TextBlock t) = length t"
| "block_cost b = block_bytes b"

definition result_cost :: "result_block list \<Rightarrow> nat" where
  "result_cost content = fold (\<lambda>b total. total + block_cost b) content 0"

fun block_utf8_bytes :: "result_block \<Rightarrow> nat" where
  "block_utf8_bytes (TextBlock t) = utf8_length t"
| "block_utf8_bytes b = block_bytes b"

definition result_bytes :: "result_block list \<Rightarrow> nat" where
  "result_bytes content = fold (\<lambda>b total. total + block_utf8_bytes b) content 0"

definition result_bytes_by_type :: "result_block list \<Rightarrow> (block_type, nat) jsmap" where
  "result_bytes_by_type content =
     fold (\<lambda>b totals. js_set (block_type_of b)
         (case_option 0 id (js_get totals (block_type_of b)) + block_utf8_bytes b) totals) content []"

definition omitted_text :: "js_text \<Rightarrow> js_text option \<Rightarrow> js_text \<Rightarrow> js_text" where
  "omitted_text kind mime amount =
     js ''['' @ kind @ js '' omitted: ''
     @ (case mime of None \<Rightarrow> js ''unknown'' | Some m \<Rightarrow> if m = [] then js ''unknown'' else m)
     @ js '', '' @ amount @ js '']''"

fun block_to_text :: "result_block \<Rightarrow> js_text" where
  "block_to_text (TextBlock t) = t"
| "block_to_text (ImageBlock d m) = omitted_text (js ''image'') (Some m) (describe_bytes (base64_bytes d))"
| "block_to_text (AudioBlock d m) = omitted_text (js ''audio'') (Some m) (describe_bytes (base64_bytes d))"
| "block_to_text (ResourceBlock _ m b) = omitted_text (js ''resource'') m (describe_bytes (base64_bytes b))"

definition result_text :: "result_block list \<Rightarrow> js_text" where
  "result_text content = js_join (js [CHR 0x0A]) (map block_to_text content)"

lemma fold_add_sum: "fold (\<lambda>b total. total + f b) xs (n::nat) = n + (\<Sum>b\<leftarrow>xs. f b)"
  by (induction xs arbitrary: n) auto

lemma result_cost_sum [simp]: "result_cost content = (\<Sum>b\<leftarrow>content. block_cost b)"
  by (simp add: result_cost_def fold_add_sum)

lemma result_bytes_sum: "result_bytes content = (\<Sum>b\<leftarrow>content. block_utf8_bytes b)"
  by (simp add: result_bytes_def fold_add_sum)

text \<open>The values of the breakdown add up to the total the audit row carries beside it.\<close>

lemma sum_js_set:
  "js_map_wf m \<Longrightarrow> (\<Sum>(k, v)\<leftarrow>js_set k (case_option 0 id (js_get m k) + n) m. v) = n + (\<Sum>(k, v)\<leftarrow>m. v :: nat)"
  by (induction m) (auto simp: js_map_wf_def split: option.splits dest: map_of_SomeD)

lemma result_bytes_by_type_total: "(\<Sum>(k, v)\<leftarrow>result_bytes_by_type content. v) = result_bytes content"
proof -
  define step where "step = (\<lambda>b totals. js_set (block_type_of b)
      (case_option 0 id (js_get totals (block_type_of b)) + block_utf8_bytes b) totals)"
  have "js_map_wf (fold step bs m) \<and>
      (\<Sum>(k, v)\<leftarrow>fold step bs m. v) = (\<Sum>(k, v)\<leftarrow>m. v) + (\<Sum>b\<leftarrow>bs. block_utf8_bytes b)"
    if "js_map_wf m" for bs m
    using that
  proof (induction bs arbitrary: m)
    case (Cons b bs)
    then have "js_map_wf (step b m)" by (simp add: step_def)
    from Cons.IH [OF this] show ?case
      using sum_js_set [OF Cons.prems, of "block_type_of b" "block_utf8_bytes b"]
      by (simp add: step_def)
  qed simp
  from this [of "[]" content] show ?thesis
    by (simp add: result_bytes_by_type_def step_def result_bytes_sum)
qed

subsection \<open>Prices\<close>

record model_price =
  mp_id :: string
  mp_input :: nat
  mp_output :: nat
  mp_cache_write :: nat
  mp_cache_read :: nat

definition max_price_micro_usd :: nat where
  "max_price_micro_usd = 1000000000"

definition model_price_ok :: "model_price \<Rightarrow> bool" where
  "model_price_ok p \<longleftrightarrow> model_id_ok (mp_id p) \<and> mp_input p \<le> max_price_micro_usd \<and>
     mp_output p \<le> max_price_micro_usd \<and> mp_cache_write p \<le> max_price_micro_usd \<and>
     mp_cache_read p \<le> max_price_micro_usd"

definition price_table_ok :: "model_price list \<Rightarrow> bool" where
  "price_table_ok t \<longleftrightarrow> list_all model_price_ok t \<and> distinct (map mp_id t)"

definition legacy_model :: string where "legacy_model = ''(legacy)''"
definition unreported_model :: string where "unreported_model = ''(unreported)''"

definition free_price :: model_price where
  "free_price = \<lparr>mp_id = legacy_model, mp_input = 0, mp_output = 0, mp_cache_write = 0, mp_cache_read = 0\<rparr>"

definition price_for :: "model_price list \<Rightarrow> string \<Rightarrow> model_price option" where
  "price_for table model =
     (if model = legacy_model then Some free_price else List.find (\<lambda>e. mp_id e = model) table)"

record token_counts =
  tk_input :: nat
  tk_output :: nat
  tk_cache_read :: nat
  tk_cache_write :: nat

text \<open>BigInt arithmetic; the operands are non-negative, so its division is \<open>div\<close>.\<close>

definition cost_micro_usd :: "model_price \<Rightarrow> token_counts \<Rightarrow> nat" where
  "cost_micro_usd p t =
     (tk_input t * mp_input p + tk_output t * mp_output p +
      tk_cache_read t * mp_cache_read p + tk_cache_write t * mp_cache_write p) div 1000000"

definition usd_to_micro_usd :: "rat \<Rightarrow> int" where
  "usd_to_micro_usd usd = js_round (js_mul usd 1000000)"

text \<open>Neither reserved bucket name can be an entry of a table: \<open>(\<close> starts no model id.\<close>

lemma reserved_models_not_ids [simp]:
  "\<not> model_id_ok legacy_model" "\<not> model_id_ok unreported_model"
  by (simp_all add: model_id_ok_def legacy_model_def unreported_model_def is_alnum_def is_digit_def
      is_upper_def is_lower_def)

lemma price_for_unreported: "price_table_ok t \<Longrightarrow> price_for t unreported_model = None"
proof -
  assume "price_table_ok t"
  then have "mp_id e \<noteq> unreported_model" if "e \<in> set t" for e
    using that by (auto simp: price_table_ok_def list_all_iff model_price_ok_def)
  then show ?thesis
    by (auto simp: price_for_def legacy_model_def unreported_model_def find_None_iff)
qed

lemma cost_micro_usd_mono:
  "tk_input t \<le> tk_input u \<Longrightarrow> tk_output t \<le> tk_output u \<Longrightarrow> tk_cache_read t \<le> tk_cache_read u \<Longrightarrow>
   tk_cache_write t \<le> tk_cache_write u \<Longrightarrow> cost_micro_usd p t \<le> cost_micro_usd p u"
  unfolding cost_micro_usd_def by (intro div_le_mono add_mono mult_right_mono) auto

lemma usd_to_micro_usd_mono: "0 \<le> u \<Longrightarrow> u \<le> v \<Longrightarrow> usd_to_micro_usd u \<le> usd_to_micro_usd v"
  unfolding usd_to_micro_usd_def by (intro js_round_mono js_mul_mono) auto

subsection \<open>Egress\<close>

definition normalize_host :: "string \<Rightarrow> string option" where
  "normalize_host host =
     (let trimmed = (if ends_with host ''.'' then butlast host else host)
      in if trimmed = [] then None else Some (map to_lower trimmed))"

text \<open>\<open>String.prototype.split\<close> at a character.\<close>

fun split_at :: "char \<Rightarrow> string \<Rightarrow> string list" where
  "split_at d [] = [[]]"
| "split_at d (c # s) =
     (if c = d then [] # split_at d s
      else case split_at d s of [] \<Rightarrow> [[c]] | l # ls \<Rightarrow> (c # l) # ls)"

definition is_ip_literal :: "string \<Rightarrow> bool" where
  "is_ip_literal host \<longleftrightarrow> starts_with host ''['' \<or>
     (let labels = split_at CHR ''.'' host
      in length labels = 4 \<and>
         list_all (\<lambda>l. 1 \<le> length l \<and> length l \<le> 3 \<and> list_all is_digit l) labels)"

definition admits :: "string \<Rightarrow> string \<Rightarrow> bool" where
  "admits pattern host =
     (if \<not> starts_with pattern ''*.'' then pattern = host
      else let suffix = drop 2 pattern in
        if suffix = [] \<or> starts_with suffix ''.'' \<or> CHR ''*'' \<in> set suffix then False
        else if is_ip_literal host then False
        else ends_with host (CHR ''.'' # suffix) \<and> length host > length suffix + 1)"

definition is_egress_allowed :: "string \<Rightarrow> string list \<Rightarrow> bool" where
  "is_egress_allowed host allow =
     (case normalize_host host of
        None \<Rightarrow> False
      | Some destination \<Rightarrow>
          list_ex (\<lambda>entry. case normalize_host entry of None \<Rightarrow> False | Some p \<Rightarrow> admits p destination) allow)"

end
