(* ===== verification/Enforce.thy ===== *)
theory Enforce
  imports Tool_Call "HOL-Library.Multiset"
begin

text \<open>
  The enforcement decision, \<open>packages/proxy/src/enforce.ts\<close>: a pure function of the sheet, the call,
  the day's spend and the price table. Definitions first, in the file's order; then the abstract
  policy the decision implements (sets of granting entries instead of lists and first matches), the
  refinement between the two, and the lemmas the server component uses.
\<close>

subsection \<open>Inputs and outputs\<close>

record model_spend =
  ms_model :: string
  ms_tokens :: token_counts

record budget_spend =
  sp_tool_calls :: nat
  sp_input :: nat
  sp_output :: nat
  sp_cache_read :: nat
  sp_cache_write :: nat
  sp_by_model :: "model_spend list"

record price_lookup =
  pl_price_for :: "string \<Rightarrow> model_price option"
  pl_version :: string

datatype target =
    McpTarget mcp_server
  | StoreTarget builtin_name
  | SandboxTarget sandbox_caps "string list"

datatype decision =
    Allow target nat "budget_warning option"
  | Hold target tool_refusal nat "budget_warning option"
  | Refuse tool_refusal

text \<open>The last good sheet, or why there is none (\<open>team-sheet-store.ts\<close>).\<close>

datatype sheet_state = Active team_sheet bool | Absent | Unusable

subsection \<open>Names and approval\<close>

definition destructive_verbs :: "string list" where
  "destructive_verbs = [''delete'', ''drop'', ''transfer'', ''deploy'']"

fun str_includes :: "'a list \<Rightarrow> 'a list \<Rightarrow> bool" where
  "str_includes [] t = (t = [])"
| "str_includes (c # s) t = (starts_with (c # s) t \<or> str_includes s t)"

definition is_destructive_name :: "string \<Rightarrow> bool" where
  "is_destructive_name tool =
     (let lowered = map to_lower tool in list_ex (\<lambda>verb. str_includes lowered verb) destructive_verbs)"

definition servers_named :: "team_sheet \<Rightarrow> string \<Rightarrow> mcp_server list" where
  "servers_named sheet name = filter (\<lambda>s. srv_name s = name) (sheet_mcp_server sheet)"

definition tools_named :: "mcp_server list \<Rightarrow> string \<Rightarrow> tool_entry list" where
  "tools_named servers name = concat (map (\<lambda>s. filter (\<lambda>t. te_name t = name) (srv_tools s)) servers)"

definition servers_carrying :: "mcp_server list \<Rightarrow> string \<Rightarrow> mcp_server list" where
  "servers_carrying servers tool = filter (\<lambda>s. list_ex (\<lambda>e. te_name e = tool) (srv_tools s)) servers"

fun transport_name :: "transport \<Rightarrow> string" where
  "transport_name Http = ''http''"
| "transport_name Stdio = ''stdio''"

definition json_opt :: "string option \<Rightarrow> json" where
  "json_opt v = (case v of None \<Rightarrow> JNull | Some s \<Rightarrow> JStr s)"

definition auth_json :: "auth_config option \<Rightarrow> json" where
  "auth_json a = (case a of None \<Rightarrow> JNull
     | Some c \<Rightarrow> JArr [JStr ''oauth'', JStr (auth_issuer c), JArr (map JStr (auth_scopes c))])"

definition upstream_key :: "mcp_server \<Rightarrow> string" where
  "upstream_key s = canonical_json
     (JArr [JStr (transport_name (srv_transport s)), json_opt (srv_url s), json_opt (srv_credential s),
            auth_json (srv_auth s)])"

definition same_upstream :: "mcp_server \<Rightarrow> mcp_server \<Rightarrow> bool" where
  "same_upstream a b \<longleftrightarrow> upstream_key a = upstream_key b"

definition select_upstream :: "mcp_server list \<Rightarrow> mcp_server option" where
  "select_upstream carriers =
     (case carriers of
        [] \<Rightarrow> None
      | first # _ \<Rightarrow> if list_all (\<lambda>s. same_upstream s first) carriers then Some first else None)"

definition resolve_approval :: "tool_entry list \<Rightarrow> string \<Rightarrow> approval_mode" where
  "resolve_approval entries tool =
     (if entries = [] then ApprovalRequired
      else if list_ex (\<lambda>e. te_approval e = Some ApprovalRequired) entries then ApprovalRequired
      else if list_ex (\<lambda>e. te_approval e = Some ApprovalNone) entries then ApprovalNone
      else if is_destructive_name tool then ApprovalRequired else ApprovalNone)"

definition resolve_builtin_approval :: "builtin_entry list \<Rightarrow> builtin_name \<Rightarrow> approval_mode" where
  "resolve_builtin_approval entries name =
     (if entries = [] then ApprovalRequired
      else if list_ex (\<lambda>e. be_approval e = Some ApprovalRequired) entries then ApprovalRequired
      else if list_ex (\<lambda>e. be_approval e = Some ApprovalNone) entries then ApprovalNone
      else builtin_approval_default name)"

subsection \<open>The budget gate\<close>

definition billable_tokens :: "team_sheet \<Rightarrow> budget_spend \<Rightarrow> rat" where
  "billable_tokens sheet spend =
     js_add (js_add (js_add (of_nat (sp_input spend)) (of_nat (sp_output spend)))
         (js_mul (of_nat (sp_cache_read spend)) (cache_read_weight (sheet_budget sheet))))
       (js_mul (of_nat (sp_cache_write spend)) (cache_write_weight (sheet_budget sheet)))"

fun priced_buckets :: "model_spend list \<Rightarrow> price_lookup \<Rightarrow> nat \<Rightarrow> tool_refusal + nat" where
  "priced_buckets [] prices micro_usd = Inr micro_usd"
| "priced_buckets (bucket # rest) prices micro_usd =
     (if ms_model bucket = unreported_model then Inl ModelUnreported
      else case pl_price_for prices (ms_model bucket) of
          None \<Rightarrow> Inl (ModelNotPriced (ms_model bucket))
        | Some price \<Rightarrow> priced_buckets rest prices (micro_usd + cost_micro_usd price (ms_tokens bucket)))"

definition priced_spend :: "budget_spend \<Rightarrow> price_lookup \<Rightarrow> tool_refusal + nat" where
  "priced_spend spend prices = priced_buckets (sp_by_model spend) prices 0"

definition price_day_spend :: "team_sheet \<Rightarrow> budget_spend \<Rightarrow> price_lookup \<Rightarrow> (nat \<times> string) option" where
  "price_day_spend sheet spend prices =
     (case daily_usd (sheet_budget sheet) of
        None \<Rightarrow> None
      | Some _ \<Rightarrow> (case priced_spend spend prices of Inl _ \<Rightarrow> None | Inr m \<Rightarrow> Some (m, pl_version prices)))"

definition price_day_spend_from_state ::
    "sheet_state \<Rightarrow> budget_spend \<Rightarrow> price_lookup \<Rightarrow> (nat \<times> string) option" where
  "price_day_spend_from_state state spend prices =
     (case state of Active sheet _ \<Rightarrow> price_day_spend sheet spend prices | _ \<Rightarrow> None)"

definition exhausted_counts :: "team_sheet \<Rightarrow> budget_spend \<Rightarrow> tool_refusal option" where
  "exhausted_counts sheet spend =
     (if billable_tokens sheet spend \<ge> of_nat (daily_tokens (sheet_budget sheet))
      then Some (BudgetExhausted DailyTokens)
      else if sp_tool_calls spend \<ge> daily_tool_calls (sheet_budget sheet)
      then Some (BudgetExhausted DailyToolCalls)
      else None)"

definition exhausted_limit :: "team_sheet \<Rightarrow> budget_spend \<Rightarrow> price_lookup \<Rightarrow> tool_refusal option" where
  "exhausted_limit sheet spend prices =
     (case daily_usd (sheet_budget sheet) of
        None \<Rightarrow> exhausted_counts sheet spend
      | Some cap \<Rightarrow>
          (case priced_spend spend prices of
             Inl refusal \<Rightarrow> Some refusal
           | Inr micro_usd \<Rightarrow>
               if int micro_usd \<ge> usd_to_micro_usd cap then Some (BudgetExhausted DailyUsd)
               else exhausted_counts sheet spend))"

definition exhausted_limit_from_state ::
    "sheet_state \<Rightarrow> budget_spend \<Rightarrow> price_lookup \<Rightarrow> tool_refusal option" where
  "exhausted_limit_from_state state spend prices =
     (case state of
        Absent \<Rightarrow> Some NoTeamSheet
      | Unusable \<Rightarrow> Some TeamSheetUnreadable
      | Active sheet _ \<Rightarrow> exhausted_limit sheet spend prices)"

definition crossed_counts :: "team_sheet \<Rightarrow> budget_spend \<Rightarrow> budget_warning option" where
  "crossed_counts sheet spend =
     (let b = sheet_budget sheet; fraction = warn_at b; tokens = billable_tokens sheet spend
      in if tokens \<ge> js_mul (of_nat (daily_tokens b)) fraction
         then Some \<lparr>bw_limit = DailyTokens, bw_spent = tokens, bw_cap = of_nat (daily_tokens b)\<rparr>
         else if of_nat (sp_tool_calls spend) \<ge> js_mul (of_nat (daily_tool_calls b)) fraction
         then Some \<lparr>bw_limit = DailyToolCalls, bw_spent = of_nat (sp_tool_calls spend),
                    bw_cap = of_nat (daily_tool_calls b)\<rparr>
         else None)"

definition crossed_threshold :: "team_sheet \<Rightarrow> budget_spend \<Rightarrow> price_lookup \<Rightarrow> budget_warning option" where
  "crossed_threshold sheet spend prices =
     (let fraction = warn_at (sheet_budget sheet)
      in if fraction = 0 then None
         else case daily_usd (sheet_budget sheet) of
             None \<Rightarrow> crossed_counts sheet spend
           | Some cap \<Rightarrow>
               (case priced_spend spend prices of
                  Inl _ \<Rightarrow> crossed_counts sheet spend
                | Inr micro_usd \<Rightarrow>
                    let spent = js_div (fl (of_nat micro_usd)) 1000000
                    in if spent \<ge> js_mul cap fraction
                       then Some \<lparr>bw_limit = DailyUsd, bw_spent = spent, bw_cap = cap\<rparr>
                       else crossed_counts sheet spend))"

subsection \<open>Limits\<close>

definition min_by :: "('a \<Rightarrow> 'b :: linorder) \<Rightarrow> 'a list \<Rightarrow> 'b" where
  "min_by f xs = min_list (map f xs)"

definition resolve_sandbox_caps :: "sandbox_caps list \<Rightarrow> sandbox_caps" where
  "resolve_sandbox_caps entries =
     \<lparr>cap_cpus = min_by cap_cpus entries, cap_memory_mb = min_by cap_memory_mb entries,
      cap_timeout_seconds = min_by cap_timeout_seconds entries\<rparr>"

fun sandbox_entries :: "builtin_entry list \<Rightarrow> sandbox_caps list" where
  "sandbox_entries [] = []"
| "sandbox_entries (SandboxEntry _ _ c # es) = c # sandbox_entries es"
| "sandbox_entries (_ # es) = sandbox_entries es"

definition resolve_limits :: "team_sheet \<Rightarrow> nat option list \<Rightarrow> nat" where
  "resolve_limits sheet declared =
     (let chars = List.map_filter id declared
      in if chars = [] then llm_max_result_chars (sheet_llm sheet) else min_list chars)"

subsection \<open>The decision\<close>

definition builtin_target :: "team_sheet \<Rightarrow> builtin_entry list \<Rightarrow> builtin_name \<Rightarrow> target" where
  "builtin_target sheet entries name =
     (if name = RunCode
      then SandboxTarget (resolve_sandbox_caps (sandbox_entries entries)) (sheet_egress_allow sheet)
      else StoreTarget name)"

definition decide_builtin ::
    "team_sheet \<Rightarrow> string \<Rightarrow> string \<Rightarrow> budget_spend \<Rightarrow> price_lookup \<Rightarrow> decision" where
  "decide_builtin sheet server tool spend prices =
     (if sheet_builtin sheet = [] then Refuse (ServerNotAllowed server)
      else let entries = filter (\<lambda>e. builtin_tool_name (be_name e) = tool) (sheet_builtin sheet)
        in case entries of
            [] \<Rightarrow> Refuse (ToolNotAllowed server tool)
          | first # _ \<Rightarrow>
              if be_name first = ScheduleTask \<and> \<not> amb_enabled (sheet_ambient sheet)
              then Refuse AmbientDisabled
              else case exhausted_limit sheet spend prices of
                  Some overspent \<Rightarrow> Refuse overspent
                | None \<Rightarrow>
                    let tgt = builtin_target sheet entries (be_name first);
                        limits = resolve_limits sheet (map be_max_result_chars entries);
                        warning = crossed_threshold sheet spend prices
                    in if resolve_builtin_approval entries (be_name first) = ApprovalRequired
                       then Hold tgt (NeedsApproval server tool) limits warning
                       else Allow tgt limits warning)"

definition decide ::
    "team_sheet \<Rightarrow> string \<Rightarrow> string \<Rightarrow> budget_spend \<Rightarrow> price_lookup \<Rightarrow> decision" where
  "decide sheet server tool spend prices =
     (if server = builtin_server then decide_builtin sheet server tool spend prices
      else let servers = servers_named sheet server
        in if servers = [] then Refuse (ServerNotAllowed server)
           else let tools = tools_named servers tool
             in if tools = [] then Refuse (ToolNotAllowed server tool)
                else case select_upstream (servers_carrying servers tool) of
                    None \<Rightarrow> Refuse (ServerAmbiguous server tool)
                  | Some upstream \<Rightarrow>
                      (case exhausted_limit sheet spend prices of
                         Some overspent \<Rightarrow> Refuse overspent
                       | None \<Rightarrow>
                           let limits = resolve_limits sheet (map te_max_result_chars tools);
                               warning = crossed_threshold sheet spend prices
                           in if resolve_approval tools tool = ApprovalRequired
                              then Hold (McpTarget upstream) (NeedsApproval server tool) limits warning
                              else Allow (McpTarget upstream) limits warning))"

definition decide_from_state ::
    "sheet_state \<Rightarrow> string \<Rightarrow> string \<Rightarrow> budget_spend \<Rightarrow> price_lookup \<Rightarrow> decision" where
  "decide_from_state state server tool spend prices =
     (case state of
        Absent \<Rightarrow> Refuse NoTeamSheet
      | Unusable \<Rightarrow> Refuse TeamSheetUnreadable
      | Active sheet _ \<Rightarrow> decide sheet server tool spend prices)"

subsection \<open>The listing\<close>

record permitted_tool =
  pt_server :: string
  pt_tool :: string
  pt_approval :: approval_mode

record permitted_source =
  ps_tool :: permitted_tool
  ps_target :: "target option"

definition listing_key :: "string \<Rightarrow> string \<Rightarrow> string" where
  "listing_key server tool = server @ CHR 0x00 # tool"

definition mcp_source :: "team_sheet \<Rightarrow> string \<Rightarrow> string \<Rightarrow> permitted_source" where
  "mcp_source sheet server tool =
     (let named = servers_named sheet server
      in \<lparr>ps_tool = \<lparr>pt_server = server, pt_tool = tool,
             pt_approval = resolve_approval (tools_named named tool) tool\<rparr>,
          ps_target = map_option McpTarget (select_upstream (servers_carrying named tool))\<rparr>)"

definition builtin_source :: "team_sheet \<Rightarrow> builtin_name \<Rightarrow> permitted_source" where
  "builtin_source sheet name =
     (let named = filter (\<lambda>e. be_name e = name) (sheet_builtin sheet)
      in \<lparr>ps_tool = \<lparr>pt_server = builtin_server, pt_tool = builtin_tool_name name,
             pt_approval = resolve_builtin_approval named name\<rparr>,
          ps_target = Some (builtin_target sheet named name)\<rparr>)"

text \<open>One pass of a loop body: skip a key already seen, else record it and push the source.\<close>

definition list_once ::
    "string \<times> permitted_source \<Rightarrow> permitted_source list \<times> string set \<Rightarrow> permitted_source list \<times> string set"
where
  "list_once entry acc =
     (case (entry, acc) of ((key, src), (listed, seen)) \<Rightarrow>
        if key \<in> seen then (listed, seen) else (listed @ [src], insert key seen))"

definition listing_entries :: "team_sheet \<Rightarrow> (string \<times> permitted_source) list" where
  "listing_entries sheet =
     concat (map (\<lambda>server. map (\<lambda>entry. (listing_key (srv_name server) (te_name entry),
          mcp_source sheet (srv_name server) (te_name entry))) (srv_tools server)) (sheet_mcp_server sheet))
     @ map (\<lambda>entry. (listing_key builtin_server (builtin_tool_name (be_name entry)),
          builtin_source sheet (be_name entry))) (sheet_builtin sheet)"

definition permitted_tool_sources :: "team_sheet \<Rightarrow> permitted_source list" where
  "permitted_tool_sources sheet = fst (fold list_once (listing_entries sheet) ([], {}))"

definition permitted_tools :: "team_sheet \<Rightarrow> permitted_tool list" where
  "permitted_tools sheet = map ps_tool (permitted_tool_sources sheet)"

definition permitted_tool_sources_from_state :: "sheet_state \<Rightarrow> permitted_source list" where
  "permitted_tool_sources_from_state state =
     (case state of Active sheet _ \<Rightarrow> permitted_tool_sources sheet | _ \<Rightarrow> [])"

end
