(* ===== verification/Demo_Sheet.thy ===== *)
theory Demo_Sheet
  imports Enforce
begin

text \<open>
  One concrete team sheet, its spend and its prices, for the witnesses: a GitHub server split over
  two blocks that share an upstream, one tool whose name is destructive, one that an entry exempts,
  and a sandbox in two \<open>run_code\<close> entries.
\<close>

definition demo_tool :: "string \<Rightarrow> approval_mode option \<Rightarrow> nat option \<Rightarrow> tool_entry" where
  "demo_tool n a m = \<lparr>te_name = n, te_approval = a, te_max_result_chars = m\<rparr>"

definition demo_server :: "string \<Rightarrow> tool_entry list \<Rightarrow> mcp_server" where
  "demo_server u ts = \<lparr>srv_name = ''github'', srv_transport = Http, srv_url = Some u,
     srv_credential = Some ''gh'', srv_auth = None, srv_tools = ts\<rparr>"

definition demo_caps :: "nat \<Rightarrow> sandbox_caps" where
  "demo_caps m = \<lparr>cap_cpus = 1, cap_memory_mb = m, cap_timeout_seconds = 30\<rparr>"

definition demo_budget :: budget_block where
  "demo_budget = \<lparr>daily_tokens = 1000, daily_tool_calls = 6, daily_usd = None,
     cache_read_weight = 1 / 2, cache_write_weight = 5 / 4, warn_at = 1 / 2\<rparr>"

definition demo_server_a :: mcp_server where
  "demo_server_a = demo_server ''https://gh/'' [demo_tool ''search'' None (Some 100), demo_tool ''delete_repo'' None None]"

definition demo_server_b :: mcp_server where
  "demo_server_b = demo_server ''https://gh/'' [demo_tool ''search'' (Some ApprovalNone) (Some 80)]"

definition demo_builtins :: "builtin_entry list" where
  "demo_builtins = [SandboxEntry (Some ApprovalNone) None (demo_caps 512), SandboxEntry None None (demo_caps 256)]"

definition demo_sheet :: team_sheet where
  "demo_sheet = \<lparr>
     sheet_channel = \<lparr>ch_name = js ''ops'', ch_description = [], ch_persona = [],
       ch_certificate_sha256 = [replicate 64 CHR ''a'']\<rparr>,
     sheet_llm = default_llm, sheet_budget = demo_budget, sheet_memory = default_memory,
     sheet_skills = default_skills, sheet_shared_skill = [],
     sheet_mcp_server = [demo_server_a, demo_server_b],
     sheet_builtin = demo_builtins,
     sheet_egress_allow = [''*.example.com''],
     sheet_ambient = default_ambient\<rparr>"

definition demo_spend :: "nat \<Rightarrow> budget_spend" where
  "demo_spend calls = \<lparr>sp_tool_calls = calls, sp_input = 100, sp_output = 20, sp_cache_read = 0,
     sp_cache_write = 0, sp_by_model = [\<lparr>ms_model = ''m'', ms_tokens =
       \<lparr>tk_input = 100, tk_output = 20, tk_cache_read = 0, tk_cache_write = 0\<rparr>\<rparr>]\<rparr>"

definition demo_price :: model_price where
  "demo_price = \<lparr>mp_id = ''m'', mp_input = 3000000, mp_output = 15000000,
     mp_cache_write = 3750000, mp_cache_read = 300000\<rparr>"

definition demo_prices :: price_lookup where
  "demo_prices = \<lparr>pl_price_for = price_for [demo_price], pl_version = ''v1''\<rparr>"

lemma demo_sheet_fields [simp]:
  "sheet_mcp_server demo_sheet = [demo_server_a, demo_server_b]"
  "sheet_builtin demo_sheet = demo_builtins"
  "sheet_budget demo_sheet = demo_budget"
  "sheet_egress_allow demo_sheet = [''*.example.com'']"
  "sheet_ambient demo_sheet = default_ambient"
  "sheet_llm demo_sheet = default_llm"
  by (simp_all add: demo_sheet_def)

lemma demo_budget_ok: "budget_block_ok demo_budget"
  by (simp add: budget_block_ok_def demo_budget_def)

lemma demo_names_ok [simp]:
  "identifier_ok ''github''" "identifier_ok ''gh''" "identifier_ok ''search''" "identifier_ok ''delete_repo''"
  by code_simp+

lemma demo_sheet_ok: "team_sheet_ok (\<lambda>_. True) (\<lambda>_. True) (\<lambda>_. True) demo_sheet"
proof -
  have "list_all egress_pattern_ok [''*.example.com'']" by code_simp
  moreover have "mcp_server_list_ok (\<lambda>_. True) (\<lambda>_. True) [demo_server_a, demo_server_b]"
    by (auto simp: mcp_server_list_ok_def mcp_server_ok_def demo_server_a_def demo_server_b_def
        demo_server_def demo_tool_def tool_entry_ok_def builtin_server_def same_upstream_def)
  moreover have "list_all builtin_entry_ok demo_builtins"
    by (simp add: demo_builtins_def demo_caps_def sandbox_caps_ok_def)
  moreover have "hex_digit CHR ''a''" by code_simp
  then have "certificate_sha256_ok (replicate 64 CHR ''a'')"
    by (simp add: certificate_sha256_ok_def list_all_iff)
  then have "channel_block_ok (sheet_channel demo_sheet)"
    by (simp add: channel_block_ok_def demo_sheet_def js_def)
  moreover have "shared_skill_list_ok []" by (simp add: shared_skill_list_ok_def)
  moreover have "standing_skills_ok demo_sheet"
    by (simp add: standing_skills_ok_def standing_skills_def demo_sheet_def default_skills_def default_memory_def default_ambient_def)
  ultimately show ?thesis
    unfolding team_sheet_ok_def demo_sheet_fields
    using default_blocks_ok demo_budget_ok
    by (simp add: demo_sheet_def)
qed

lemma demo_within_limits [simp]: "n < 6 \<Longrightarrow> exhausted_limit demo_sheet (demo_spend n) prices = None"
  by (simp add: exhausted_limit_def exhausted_counts_def demo_budget_def demo_spend_def
      billable_tokens_def js_add_def js_mul_def fl_numeral)

lemma demo_over_limits: "6 \<le> n \<Longrightarrow>
    exhausted_limit demo_sheet (demo_spend n) prices = Some (BudgetExhausted DailyToolCalls)"
  by (simp add: exhausted_limit_def exhausted_counts_def demo_budget_def demo_spend_def
      billable_tokens_def js_add_def js_mul_def fl_numeral)

lemma demo_crossed: "crossed_threshold demo_sheet (demo_spend 3) prices
    = Some \<lparr>bw_limit = DailyToolCalls, bw_spent = 3, bw_cap = 6\<rparr>"
  by (simp add: crossed_threshold_def crossed_counts_def demo_budget_def demo_spend_def
      billable_tokens_def js_add_def js_mul_def fl_numeral Let_def)

lemma demo_uncrossed: "n < 3 \<Longrightarrow> crossed_threshold demo_sheet (demo_spend n) prices = None"
  by (simp add: crossed_threshold_def crossed_counts_def demo_budget_def demo_spend_def
      billable_tokens_def js_add_def js_mul_def fl_numeral Let_def)

lemma demo_decide_search: "n < 6 \<Longrightarrow> decide demo_sheet ''github'' ''search'' (demo_spend n) prices
    = Allow (McpTarget demo_server_a) 80 (crossed_threshold demo_sheet (demo_spend n) prices)"
  by (simp add: decide_def builtin_server_def servers_named_def tools_named_def servers_carrying_def
      demo_server_a_def demo_server_b_def demo_server_def demo_tool_def select_upstream_def
      same_upstream_def resolve_approval_def resolve_limits_def upstream_key_def)

lemma demo_decide_delete: "n < 6 \<Longrightarrow> decide demo_sheet ''github'' ''delete_repo'' (demo_spend n) prices
    = Hold (McpTarget demo_server_a) (NeedsApproval ''github'' ''delete_repo'')
        (llm_max_result_chars default_llm) (crossed_threshold demo_sheet (demo_spend n) prices)"
proof -
  have "is_destructive_name ''delete_repo''" by code_simp
  moreover assume "n < 6"
  ultimately show ?thesis
    by (simp add: decide_def builtin_server_def servers_named_def tools_named_def servers_carrying_def
        demo_server_a_def demo_server_b_def demo_server_def demo_tool_def select_upstream_def
        same_upstream_def resolve_approval_def resolve_limits_def upstream_key_def)
qed

end
