(* ===== verification/Enforce_Policy.thy ===== *)
theory Enforce_Policy
  imports Demo_Sheet
begin

text \<open>
  What \<open>decide\<close> promises, stated over the sets of entries a sheet grants rather than over the
  lists the code walks: the verdict, the provenance of the target, the budget gate, and the
  agreement of the tool listing with the decision.
\<close>

subsection \<open>The abstract policy\<close>

definition granting_servers :: "team_sheet \<Rightarrow> string \<Rightarrow> string \<Rightarrow> mcp_server set" where
  "granting_servers sheet server tool =
     {s \<in> set (sheet_mcp_server sheet). srv_name s = server \<and> (\<exists>e \<in> set (srv_tools s). te_name e = tool)}"

definition granting_entries :: "team_sheet \<Rightarrow> string \<Rightarrow> string \<Rightarrow> tool_entry set" where
  "granting_entries sheet server tool =
     {e. \<exists>s \<in> set (sheet_mcp_server sheet). srv_name s = server \<and> e \<in> set (srv_tools s) \<and> te_name e = tool}"

definition builtin_grants :: "team_sheet \<Rightarrow> string \<Rightarrow> builtin_entry set" where
  "builtin_grants sheet tool = {e \<in> set (sheet_builtin sheet). builtin_tool_name (be_name e) = tool}"

definition may_call :: "team_sheet \<Rightarrow> string \<Rightarrow> string \<Rightarrow> bool" where
  "may_call sheet server tool \<longleftrightarrow>
     (if server = builtin_server
      then builtin_grants sheet tool \<noteq> {}
        \<and> (tool = builtin_tool_name ScheduleTask \<longrightarrow> amb_enabled (sheet_ambient sheet))
      else granting_servers sheet server tool \<noteq> {}
        \<and> (\<forall>a \<in> granting_servers sheet server tool. \<forall>b \<in> granting_servers sheet server tool.
             same_upstream a b))"

definition within_budget :: "team_sheet \<Rightarrow> budget_spend \<Rightarrow> price_lookup \<Rightarrow> bool" where
  "within_budget sheet spend prices \<longleftrightarrow>
     (\<forall>cap. daily_usd (sheet_budget sheet) = Some cap \<longrightarrow>
        (\<exists>m. priced_spend spend prices = Inr m \<and> int m < usd_to_micro_usd cap)) \<and>
     billable_tokens sheet spend < of_nat (daily_tokens (sheet_budget sheet)) \<and>
     sp_tool_calls spend < daily_tool_calls (sheet_budget sheet)"

definition needs_human :: "team_sheet \<Rightarrow> string \<Rightarrow> string \<Rightarrow> bool" where
  "needs_human sheet server tool \<longleftrightarrow>
     (if server = builtin_server
      then (\<exists>e \<in> builtin_grants sheet tool. be_approval e = Some ApprovalRequired)
        \<or> (\<forall>e \<in> builtin_grants sheet tool. be_approval e \<noteq> Some ApprovalNone)
          \<and> tool \<noteq> builtin_tool_name SearchChannelHistory
      else (\<exists>e \<in> granting_entries sheet server tool. te_approval e = Some ApprovalRequired)
        \<or> (\<forall>e \<in> granting_entries sheet server tool. te_approval e \<noteq> Some ApprovalNone)
          \<and> is_destructive_name tool)"

datatype verdict = Permitted | AskHuman | Denied

fun verdict_of :: "decision \<Rightarrow> verdict" where
  "verdict_of (Allow _ _ _) = Permitted"
| "verdict_of (Hold _ _ _ _) = AskHuman"
| "verdict_of (Refuse _) = Denied"

definition policy :: "team_sheet \<Rightarrow> string \<Rightarrow> string \<Rightarrow> budget_spend \<Rightarrow> price_lookup \<Rightarrow> verdict" where
  "policy sheet server tool spend prices =
     (if may_call sheet server tool \<and> within_budget sheet spend prices
      then if needs_human sheet server tool then AskHuman else Permitted
      else Denied)"

subsection \<open>From lists to sets\<close>

named_theorems grant_sets "the lists the code builds, as sets of granting entries"

lemma set_servers_carrying [grant_sets]:
  "set (servers_carrying (servers_named sheet server) tool) = granting_servers sheet server tool"
  by (auto simp: servers_carrying_def servers_named_def granting_servers_def list_ex_iff)

lemma set_tools_named [grant_sets]:
  "set (tools_named (servers_named sheet server) tool) = granting_entries sheet server tool"
  by (auto simp: tools_named_def servers_named_def granting_entries_def)

lemma set_builtin_entries [grant_sets]:
  "set (filter (\<lambda>e. builtin_tool_name (be_name e) = tool) (sheet_builtin sheet)) = builtin_grants sheet tool"
  by (auto simp: builtin_grants_def)

lemma granting_entries_empty: "granting_entries sheet server tool = {} \<longleftrightarrow> granting_servers sheet server tool = {}"
  by (auto simp: granting_entries_def granting_servers_def)

lemma tools_named_Nil_iff:
  "tools_named (servers_named sheet server) tool = [] \<longleftrightarrow> granting_servers sheet server tool = {}"
  by (metis granting_entries_empty set_empty set_tools_named)

lemma servers_carrying_Nil_iff:
  "servers_carrying (servers_named sheet server) tool = [] \<longleftrightarrow> granting_servers sheet server tool = {}"
  by (metis set_empty set_servers_carrying)

lemma servers_named_Nil: "servers_named sheet server = [] \<Longrightarrow> granting_servers sheet server tool = {}"
  by (auto simp: servers_named_def granting_servers_def filter_empty_conv)

lemma select_upstream_SomeD:
  "select_upstream cs = Some u \<Longrightarrow> u \<in> set cs \<and> (\<forall>s \<in> set cs. same_upstream s u)"
  by (auto simp: select_upstream_def list_all_iff split: list.splits if_splits)

lemma same_upstream_sym: "same_upstream a b \<longleftrightarrow> same_upstream b a"
  by (auto simp: same_upstream_def)

lemma same_upstream_trans: "same_upstream a b \<Longrightarrow> same_upstream b c \<Longrightarrow> same_upstream a c"
  by (auto simp: same_upstream_def)

lemma select_upstream_None_iff:
  "select_upstream cs = None \<longleftrightarrow> cs = [] \<or> (\<exists>a \<in> set cs. \<exists>b \<in> set cs. \<not> same_upstream a b)"
proof (cases cs)
  case (Cons c rest)
  have "(\<forall>a \<in> set cs. same_upstream a c) \<longleftrightarrow> (\<forall>a \<in> set cs. \<forall>b \<in> set cs. same_upstream a b)"
    using Cons by (auto simp: same_upstream_def)
  then show ?thesis using Cons by (auto simp: select_upstream_def list_all_iff)
qed (simp add: select_upstream_def)

lemma exhausted_limit_None_iff: "exhausted_limit sheet spend prices = None \<longleftrightarrow> within_budget sheet spend prices"
  by (auto simp: exhausted_limit_def exhausted_counts_def within_budget_def not_le
      split: option.splits sum.splits)

lemma resolve_approval_iff:
  "entries \<noteq> [] \<Longrightarrow> resolve_approval entries tool = ApprovalRequired \<longleftrightarrow>
     (\<exists>e \<in> set entries. te_approval e = Some ApprovalRequired)
     \<or> (\<forall>e \<in> set entries. te_approval e \<noteq> Some ApprovalNone) \<and> is_destructive_name tool"
  by (auto simp: resolve_approval_def list_ex_iff)

lemma resolve_builtin_approval_iff:
  "entries \<noteq> [] \<Longrightarrow> resolve_builtin_approval entries name = ApprovalRequired \<longleftrightarrow>
     (\<exists>e \<in> set entries. be_approval e = Some ApprovalRequired)
     \<or> (\<forall>e \<in> set entries. be_approval e \<noteq> Some ApprovalNone) \<and> name \<noteq> SearchChannelHistory"
  by (cases name) (auto simp: resolve_builtin_approval_def list_ex_iff)

lemma needs_human_mcp:
  assumes "server \<noteq> builtin_server" "tools_named (servers_named sheet server) tool \<noteq> []"
  shows "needs_human sheet server tool
     \<longleftrightarrow> resolve_approval (tools_named (servers_named sheet server) tool) tool = ApprovalRequired"
  using assms by (simp add: needs_human_def resolve_approval_iff grant_sets)

lemma needs_human_builtin:
  assumes "filter (\<lambda>e. builtin_tool_name (be_name e) = tool) (sheet_builtin sheet) = first # rest"
  shows "needs_human sheet builtin_server tool
     \<longleftrightarrow> resolve_builtin_approval (first # rest) (be_name first) = ApprovalRequired"
proof -
  have s: "builtin_grants sheet tool = set (first # rest)"
    using set_builtin_entries [of tool sheet] by (simp add: assms)
  have "first \<in> builtin_grants sheet tool" by (simp add: s)
  then have n: "tool = builtin_tool_name (be_name first)" by (simp add: builtin_grants_def)
  have ne: "first # rest \<noteq> []" by simp
  have "needs_human sheet builtin_server tool \<longleftrightarrow>
      (\<exists>e \<in> set (first # rest). be_approval e = Some ApprovalRequired)
      \<or> (\<forall>e \<in> set (first # rest). be_approval e \<noteq> Some ApprovalNone)
        \<and> be_name first \<noteq> SearchChannelHistory"
    by (simp only: needs_human_def s simp_thms if_True) (simp only: n builtin_tool_name_inj)
  then show ?thesis by (simp only: resolve_builtin_approval_iff [OF ne])
qed

subsection \<open>The verdict\<close>

lemma decide_mcp_verdict:
  assumes "server \<noteq> builtin_server"
  shows "verdict_of (decide sheet server tool spend prices) = policy sheet server tool spend prices"
proof -
  let ?cs = "servers_carrying (servers_named sheet server) tool"
  let ?ts = "tools_named (servers_named sheet server) tool"
  consider (none) "granting_servers sheet server tool = {}"
    | (ambiguous) "?ts \<noteq> []" "select_upstream ?cs = None"
    | (one) u where "?ts \<noteq> []" "select_upstream ?cs = Some u"
    using tools_named_Nil_iff [of sheet server tool] by (cases "select_upstream ?cs") auto
  then show ?thesis
  proof cases
    case none
    then show ?thesis
      using assms tools_named_Nil_iff [of sheet server tool]
      by (auto simp: decide_def policy_def may_call_def Let_def)
  next
    case ambiguous
    then have "\<not> may_call sheet server tool"
      using assms select_upstream_None_iff [of ?cs] tools_named_Nil_iff [of sheet server tool]
        servers_carrying_Nil_iff [of sheet server tool]
      by (auto simp: may_call_def grant_sets)
    with ambiguous assms show ?thesis by (simp add: decide_def policy_def Let_def)
  next
    case one
    have ne: "servers_named sheet server \<noteq> []" using one(1) by (auto simp: tools_named_def)
    have may: "may_call sheet server tool"
      using assms one select_upstream_None_iff [of ?cs] tools_named_Nil_iff [of sheet server tool]
      by (auto simp: may_call_def grant_sets)
    show ?thesis
      using one ne assms may
      by (cases "exhausted_limit sheet spend prices")
        (auto simp: decide_def policy_def Let_def needs_human_mcp exhausted_limit_None_iff [symmetric])
  qed
qed

lemma decide_builtin_verdict:
  "verdict_of (decide_builtin sheet builtin_server tool spend prices)
     = policy sheet builtin_server tool spend prices"
proof (cases "filter (\<lambda>e. builtin_tool_name (be_name e) = tool) (sheet_builtin sheet)")
  case Nil
  then have "builtin_grants sheet tool = {}" by (auto simp: builtin_grants_def filter_empty_conv)
  with Nil show ?thesis by (simp add: decide_builtin_def policy_def may_call_def)
next
  case (Cons first rest)
  have s: "builtin_grants sheet tool = set (first # rest)"
    using set_builtin_entries [of tool sheet] by (simp add: Cons)
  then have "first \<in> builtin_grants sheet tool" by simp
  then have n: "tool = builtin_tool_name (be_name first)" by (simp add: builtin_grants_def)
  have ne: "sheet_builtin sheet \<noteq> []" using Cons by auto
  have may: "may_call sheet builtin_server tool
      \<longleftrightarrow> \<not> (be_name first = ScheduleTask \<and> \<not> amb_enabled (sheet_ambient sheet))"
    unfolding may_call_def s by (auto simp: n simp del: builtin_tool_name.simps)
  show ?thesis
    using ne may needs_human_builtin [OF Cons]
    by (cases "exhausted_limit sheet spend prices")
      (auto simp: decide_builtin_def Cons policy_def Let_def exhausted_limit_None_iff [symmetric])
qed

lemma decide_verdict:
  "verdict_of (decide sheet server tool spend prices) = policy sheet server tool spend prices"
proof (cases "server = builtin_server")
  case True
  then have "decide sheet server tool spend prices = decide_builtin sheet builtin_server tool spend prices"
    by (simp add: decide_def)
  with True decide_builtin_verdict show ?thesis by simp
qed (rule decide_mcp_verdict)

text \<open>
  C40. The decision implements the policy: a call is permitted exactly when the sheet grants the
  tool through one unambiguous upstream (or a built-in entry, with ambient mode on for
  \<open>schedule_task\<close>), no daily limit is reached, and no human is needed; it is held exactly when
  a human is needed and the rest holds; every other call is refused.
\<close>

theorem decide_implements_policy:
  "verdict_of (decide_from_state (Active sheet stale) server tool spend prices)
     = policy sheet server tool spend prices
   \<and> verdict_of (decide_from_state Absent server tool spend prices) = Denied
   \<and> verdict_of (decide_from_state Unusable server tool spend prices) = Denied"
  using decide_verdict by (simp add: decide_from_state_def)


subsection \<open>Order and repetition of blocks do not matter\<close>

text \<open>
  Two sheets with the same set of server blocks, the same set of built-in entries, the same
  budget and the same ambient switch give every call the same verdict: no reordering or repeating
  of TOML blocks can turn a refusal into a permission or drop an approval.
\<close>

theorem verdict_order_irrelevant:
  assumes "set (sheet_mcp_server a) = set (sheet_mcp_server b)"
    and "set (sheet_builtin a) = set (sheet_builtin b)"
    and "sheet_budget a = sheet_budget b"
    and "amb_enabled (sheet_ambient a) = amb_enabled (sheet_ambient b)"
  shows "verdict_of (decide a server tool spend prices) = verdict_of (decide b server tool spend prices)"
proof -
  have g: "granting_servers a server tool = granting_servers b server tool"
    "granting_entries a server tool = granting_entries b server tool"
    "builtin_grants a tool = builtin_grants b tool"
    by (simp_all add: granting_servers_def granting_entries_def builtin_grants_def assms)
  have "within_budget a spend prices = within_budget b spend prices"
    by (simp add: within_budget_def billable_tokens_def assms)
  then show ?thesis
    by (simp add: decide_verdict policy_def may_call_def needs_human_def g assms)
qed

theorem verdict_order_irrelevant_witness:
  "verdict_of (decide (demo_sheet\<lparr>sheet_mcp_server := [demo_server_b, demo_server_a, demo_server_b]\<rparr>)
      ''github'' ''delete_repo'' (demo_spend 1) demo_prices) = AskHuman"
proof -
  let ?b = "demo_sheet\<lparr>sheet_mcp_server := [demo_server_b, demo_server_a, demo_server_b]\<rparr>"
  have "set (sheet_mcp_server ?b) = set (sheet_mcp_server demo_sheet)" by auto
  from verdict_order_irrelevant [OF this] show ?thesis by (simp add: demo_decide_delete)
qed

subsection \<open>The upstream key\<close>

lemma auth_json_plain: "json_wf (auth_json a)" "sorted_keys (auth_json a) = auth_json a"
  by (auto simp: auth_json_def comp_def split: option.splits)

lemma json_opt_plain: "json_wf (json_opt a)" "sorted_keys (json_opt a) = json_opt a"
  by (auto simp: json_opt_def split: option.splits)

lemma json_opt_inj: "json_opt a = json_opt b \<longleftrightarrow> a = b"
  by (auto simp: json_opt_def split: option.splits)

lemma auth_json_eq_iff:
  "auth_json a = auth_json b \<longleftrightarrow>
   map_option (\<lambda>c. (auth_issuer c, auth_scopes c)) a = map_option (\<lambda>c. (auth_issuer c, auth_scopes c)) b"
proof -
  have "map JStr xs = map JStr ys \<longleftrightarrow> xs = ys" for xs ys
    by (simp add: inj_map_eq_map inj_on_def)
  then show ?thesis by (auto simp: auth_json_def split: option.splits)
qed

lemma transport_name_inj: "transport_name a = transport_name b \<longleftrightarrow> a = b"
  by (cases a; cases b) auto

text \<open>
  Two server blocks share an upstream key exactly when they agree on transport, url, credential
  name, issuer and scopes, so no delimiter in a url or a name can make two upstreams collide. The
  \<open>dpop\<close> mode of an \<open>[auth]\<close> block is not part of the key.
\<close>

theorem upstream_key_eq_iff:
  "upstream_key a = upstream_key b \<longleftrightarrow>
     srv_transport a = srv_transport b \<and> srv_url a = srv_url b \<and> srv_credential a = srv_credential b \<and>
     map_option (\<lambda>c. (auth_issuer c, auth_scopes c)) (srv_auth a)
       = map_option (\<lambda>c. (auth_issuer c, auth_scopes c)) (srv_auth b)"
proof -
  let ?j = "\<lambda>s. JArr [JStr (transport_name (srv_transport s)), json_opt (srv_url s),
      json_opt (srv_credential s), auth_json (srv_auth s)]"
  have "json_wf (?j a)" "json_wf (?j b)" by (simp_all add: auth_json_plain json_opt_plain)
  from canonical_json_eq_iff [OF this]
  have "upstream_key a = upstream_key b \<longleftrightarrow> ?j a = ?j b"
    by (simp add: upstream_key_def auth_json_plain json_opt_plain del: canonical_json.simps)
  then show ?thesis by (simp add: transport_name_inj json_opt_inj auth_json_eq_iff)
qed

subsection \<open>Where a served call goes\<close>

fun decision_target :: "decision \<Rightarrow> target option" where
  "decision_target (Allow t _ _) = Some t"
| "decision_target (Hold t _ _ _) = Some t"
| "decision_target (Refuse _) = None"

fun granted_target :: "team_sheet \<Rightarrow> string \<Rightarrow> string \<Rightarrow> target \<Rightarrow> bool" where
  "granted_target sheet server tool (McpTarget u) \<longleftrightarrow>
     server \<noteq> builtin_server \<and> u \<in> granting_servers sheet server tool \<and>
     (\<forall>v \<in> granting_servers sheet server tool. same_upstream v u)"
| "granted_target sheet server tool (StoreTarget n) \<longleftrightarrow>
     server = builtin_server \<and> tool = builtin_tool_name n \<and> n \<noteq> RunCode \<and>
     (\<exists>e \<in> set (sheet_builtin sheet). be_name e = n)"
| "granted_target sheet server tool (SandboxTarget c egress) \<longleftrightarrow>
     server = builtin_server \<and> tool = builtin_tool_name RunCode \<and> egress = sheet_egress_allow sheet \<and>
     (\<exists>e \<in> set (sheet_builtin sheet). be_name e = RunCode) \<and>
     (\<forall>a m caps. SandboxEntry a m caps \<in> set (sheet_builtin sheet) \<longrightarrow>
        cap_cpus c \<le> cap_cpus caps \<and> cap_memory_mb c \<le> cap_memory_mb caps \<and>
        cap_timeout_seconds c \<le> cap_timeout_seconds caps)"

lemma min_by_le: "x \<in> set xs \<Longrightarrow> min_by f xs \<le> f x"
proof -
  assume "x \<in> set xs"
  then have ne: "map f xs \<noteq> []" and x: "f x \<in> set (map f xs)" by auto
  show ?thesis unfolding min_by_def min_list_Min [OF ne] by (rule Min_le [OF finite_set x])
qed

lemma set_sandbox_entries: "c \<in> set (sandbox_entries es) \<longleftrightarrow> (\<exists>a m. SandboxEntry a m c \<in> set es)"
  by (induction es rule: sandbox_entries.induct) auto

lemma be_name_RunCode: "be_name e = RunCode \<longleftrightarrow> (\<exists>a m c. e = SandboxEntry a m c)"
  by (cases e) auto

lemma builtin_target_granted:
  assumes "be_name first = n" "first \<in> set (sheet_builtin sheet)"
  shows "granted_target sheet builtin_server (builtin_tool_name n)
    (builtin_target sheet (filter (\<lambda>e. builtin_tool_name (be_name e) = builtin_tool_name n)
       (sheet_builtin sheet)) n)"
  using assms
  by (auto simp: builtin_target_def resolve_sandbox_caps_def set_sandbox_entries be_name_RunCode
      intro!: min_by_le) blast+

text \<open>
  Whatever a decision would dispatch to is granted by the sheet itself: an MCP call goes to a
  block of the named server that lists the tool, and every block that lists it agrees on the upstream;
  a sandbox run gets the sheet's egress list and caps no looser than any of its \<open>run_code\<close> entries.
\<close>

theorem decision_target_granted:
  assumes "decision_target (decide sheet server tool spend prices) = Some t"
  shows "granted_target sheet server tool t"
proof (cases "server = builtin_server")
  case True
  show ?thesis
  proof (cases "filter (\<lambda>e. builtin_tool_name (be_name e) = tool) (sheet_builtin sheet)")
    case Nil
    with assms True show ?thesis
      by (simp add: decide_def decide_builtin_def split: if_splits)
  next
    case (Cons first rest)
    have "first \<in> set (filter (\<lambda>e. builtin_tool_name (be_name e) = tool) (sheet_builtin sheet))"
      by (simp add: Cons)
    then have first: "first \<in> set (sheet_builtin sheet)" "tool = builtin_tool_name (be_name first)"
      by simp_all
    have "t = builtin_target sheet (first # rest) (be_name first)"
      using assms True Cons
      by (auto simp: decide_def decide_builtin_def Let_def split: if_splits option.splits)
    with builtin_target_granted [OF refl first(1)] first(2) Cons True show ?thesis by simp
  qed
next
  case False
  then obtain u where u: "select_upstream (servers_carrying (servers_named sheet server) tool) = Some u"
      "t = McpTarget u"
    using assms by (auto simp: decide_def Let_def split: if_splits option.splits)
  with False select_upstream_SomeD [OF u(1)] show ?thesis by (simp add: grant_sets)
qed

theorem decision_target_granted_witness:
  "granted_target demo_sheet ''github'' ''search'' (McpTarget demo_server_a)"
proof -
  have "decision_target (decide demo_sheet ''github'' ''search'' (demo_spend 1) demo_prices)
      = Some (McpTarget demo_server_a)" by (simp add: demo_decide_search)
  then show ?thesis by (rule decision_target_granted)
qed

subsection \<open>The budget gate is monotone\<close>

definition bucket_le :: "model_spend \<Rightarrow> model_spend \<Rightarrow> bool" where
  "bucket_le a b \<longleftrightarrow> ms_model a = ms_model b \<and>
     tk_input (ms_tokens a) \<le> tk_input (ms_tokens b) \<and> tk_output (ms_tokens a) \<le> tk_output (ms_tokens b) \<and>
     tk_cache_read (ms_tokens a) \<le> tk_cache_read (ms_tokens b) \<and>
     tk_cache_write (ms_tokens a) \<le> tk_cache_write (ms_tokens b)"

text \<open>More spend: no count smaller, every bucket kept and grown, new buckets anywhere.\<close>

definition spend_le :: "budget_spend \<Rightarrow> budget_spend \<Rightarrow> bool" where
  "spend_le s t \<longleftrightarrow> sp_tool_calls s \<le> sp_tool_calls t \<and> sp_input s \<le> sp_input t \<and>
     sp_output s \<le> sp_output t \<and> sp_cache_read s \<le> sp_cache_read t \<and> sp_cache_write s \<le> sp_cache_write t \<and>
     (\<exists>old new. mset (sp_by_model t) = mset (old @ new) \<and> list_all2 bucket_le (sp_by_model s) old)"

definition unpriced :: "price_lookup \<Rightarrow> model_spend \<Rightarrow> bool" where
  "unpriced prices b \<longleftrightarrow> ms_model b = unreported_model \<or> pl_price_for prices (ms_model b) = None"

definition bucket_cost :: "price_lookup \<Rightarrow> model_spend \<Rightarrow> nat" where
  "bucket_cost prices b = (case pl_price_for prices (ms_model b) of
     None \<Rightarrow> 0 | Some p \<Rightarrow> cost_micro_usd p (ms_tokens b))"

lemma priced_buckets_Inr_iff:
  "priced_buckets bs prices n = Inr m \<longleftrightarrow>
     (\<forall>b \<in> set bs. \<not> unpriced prices b) \<and> m = n + (\<Sum>b\<leftarrow>bs. bucket_cost prices b)"
  by (induction bs arbitrary: n)
    (auto simp: unpriced_def bucket_cost_def split: option.splits)

lemma priced_spend_Inr_iff:
  "priced_spend spend prices = Inr m \<longleftrightarrow>
     (\<forall>b \<in># mset (sp_by_model spend). \<not> unpriced prices b)
     \<and> m = (\<Sum>b \<in># mset (sp_by_model spend). bucket_cost prices b)"
  by (simp add: priced_spend_def priced_buckets_Inr_iff sum_mset_sum_list [symmetric] flip: mset_map)

lemma bucket_le_cost: "bucket_le a b \<Longrightarrow> bucket_cost prices a \<le> bucket_cost prices b"
  by (auto simp: bucket_le_def bucket_cost_def intro: cost_micro_usd_mono split: option.splits)

lemma bucket_le_list:
  "list_all2 bucket_le xs ys \<Longrightarrow> (\<Sum>b\<leftarrow>xs. bucket_cost prices b) \<le> (\<Sum>b\<leftarrow>ys. bucket_cost prices b)
     \<and> (\<forall>x \<in> set xs. \<exists>y \<in> set ys. ms_model x = ms_model y)"
proof (induction rule: list_all2_induct)
  case (Cons x xs y ys)
  with bucket_le_cost [OF Cons(1), of prices] show ?case
    by (auto simp: bucket_le_def [of x y] intro: add_mono)
qed simp

lemma priced_spend_mono:
  assumes "spend_le s t" and "priced_spend t prices = Inr n"
  shows "\<exists>m \<le> n. priced_spend s prices = Inr m"
proof -
  from assms(1) obtain old new where t: "mset (sp_by_model t) = mset (old @ new)"
    and o: "list_all2 bucket_le (sp_by_model s) old" by (auto simp: spend_le_def)
  note le = bucket_le_list [OF o, of prices]
  have n: "n = (\<Sum>b\<leftarrow>old. bucket_cost prices b) + (\<Sum>b\<leftarrow>new. bucket_cost prices b)"
    and ok: "\<forall>b \<in> set old. \<not> unpriced prices b"
    using assms(2) by (simp_all add: priced_spend_Inr_iff t sum_mset_sum_list [symmetric])
  have "\<forall>b \<in> set (sp_by_model s). \<not> unpriced prices b" using ok le by (metis unpriced_def)
  then have "priced_spend s prices = Inr (\<Sum>b\<leftarrow>sp_by_model s. bucket_cost prices b)"
    by (simp add: priced_spend_Inr_iff sum_mset_sum_list [symmetric])
  with le n show ?thesis by auto
qed

lemma billable_tokens_mono:
  assumes "spend_le s t" "budget_block_ok (sheet_budget sheet)"
  shows "billable_tokens sheet s \<le> billable_tokens sheet t"
  using assms unfolding billable_tokens_def
  by (intro js_add_mono js_mul_mono) (auto simp: spend_le_def budget_block_ok_def)

lemma within_budget_antimono:
  assumes "spend_le s t" "budget_block_ok (sheet_budget sheet)" "within_budget sheet t prices"
  shows "within_budget sheet s prices"
  unfolding within_budget_def
proof (intro conjI allI impI)
  fix cap assume "daily_usd (sheet_budget sheet) = Some cap"
  then obtain n where n: "priced_spend t prices = Inr n" "int n < usd_to_micro_usd cap"
    using assms(3) by (auto simp: within_budget_def)
  from priced_spend_mono [OF assms(1) n(1)] n(2)
  show "\<exists>m. priced_spend s prices = Inr m \<and> int m < usd_to_micro_usd cap" by fastforce
next
  show "billable_tokens sheet s < of_nat (daily_tokens (sheet_budget sheet))"
    using billable_tokens_mono [OF assms(1,2)] assms(3) by (auto simp: within_budget_def)
  show "sp_tool_calls s < daily_tool_calls (sheet_budget sheet)"
    using assms(1,3) by (auto simp: within_budget_def spend_le_def)
qed

text \<open>
  A channel over one of its daily limits stays over it as the day's spend grows: no further tool
  call, token report or new model bucket makes the gate open again.
\<close>

theorem exhausted_stays_exhausted:
  assumes "budget_block_ok (sheet_budget sheet)" and "spend_le s t"
    and "exhausted_limit sheet s prices \<noteq> None"
  shows "exhausted_limit sheet t prices \<noteq> None"
  using assms within_budget_antimono [of s t sheet prices] by (auto simp: exhausted_limit_None_iff)

theorem exhausted_stays_exhausted_witness:
  "exhausted_limit demo_sheet ((demo_spend 7)\<lparr>sp_input := 400\<rparr>) demo_prices \<noteq> None"
proof -
  have "mset (sp_by_model (demo_spend 7)) = mset (sp_by_model (demo_spend 6) @ [])"
      "list_all2 bucket_le (sp_by_model (demo_spend 6)) (sp_by_model (demo_spend 6))"
    by (simp_all add: demo_spend_def bucket_le_def)
  then have "spend_le (demo_spend 6) ((demo_spend 7)\<lparr>sp_input := 400\<rparr>)"
    unfolding spend_le_def by (intro conjI exI) (auto simp: demo_spend_def)
  then show ?thesis
    using exhausted_stays_exhausted [of demo_sheet "demo_spend 6"] demo_budget_ok
    by (simp add: demo_over_limits)
qed

end
