(* ===== verification/Enforce_Listing.thy ===== *)
theory Enforce_Listing
  imports Enforce_Policy
begin

text \<open>
  The tool listing against the decision (\<open>permittedToolSources\<close> and \<open>decide\<close> of
  \<open>packages/proxy/src/enforce.ts\<close>), and the limits and warnings a decision carries. Concrete
  sheets for the witnesses are at the end.
\<close>

subsection \<open>The deduplicating loop\<close>

definition source_key :: "permitted_source \<Rightarrow> string" where
  "source_key p = listing_key (pt_server (ps_tool p)) (pt_tool (ps_tool p))"

lemma fold_list_once:
  assumes "\<forall>e \<in> set xs. fst e = source_key (snd e)"
    and "distinct (map source_key l)" and "seen = source_key ` set l"
  shows "distinct (map source_key (fst (fold list_once xs (l, seen))))
     \<and> source_key ` set (fst (fold list_once xs (l, seen))) = seen \<union> fst ` set xs
     \<and> set (fst (fold list_once xs (l, seen))) \<subseteq> set l \<union> snd ` set xs"
  using assms
proof (induction xs arbitrary: l seen)
  case Nil
  then show ?case by simp
next
  case (Cons e xs)
  obtain k src where e: "e = (k, src)" by (cases e)
  with Cons.prems(1) have k: "k = source_key src" by simp
  show ?case
  proof (cases "k \<in> seen")
    case True
    with Cons.IH [of l seen] Cons.prems e show ?thesis by (auto simp: list_once_def)
  next
    case False
    have "distinct (map source_key (l @ [src]))" "insert k seen = source_key ` set (l @ [src])"
      using False Cons.prems k by auto
    with Cons.IH [of "l @ [src]" "insert k seen"] Cons.prems(1) False e
    show ?thesis by (auto simp: list_once_def)
  qed
qed

lemma listing_entries_keyed: "e \<in> set (listing_entries sheet) \<Longrightarrow> fst e = source_key (snd e)"
  by (auto simp: listing_entries_def source_key_def mcp_source_def builtin_source_def Let_def)

lemma listing_key_inj:
  assumes "CHR 0x00 \<notin> set s" "CHR 0x00 \<notin> set s'"
  shows "listing_key s t = listing_key s' t' \<longleftrightarrow> s = s' \<and> t = t'"
  using assms
proof (induction s arbitrary: s')
  case Nil
  then show ?case by (cases s') (auto simp: listing_key_def)
next
  case (Cons c s)
  then show ?case by (cases s') (auto simp: listing_key_def)
qed

lemma nul_not_ident: "\<not> ident_char CHR 0x00"
  by (simp add: ident_char_def is_alnum_def is_digit_def is_upper_def is_lower_def)

lemma identifier_no_nul: "identifier_ok s \<Longrightarrow> CHR 0x00 \<notin> set s"
  using nul_not_ident by (auto simp only: identifier_ok_def list_all_iff)

lemma builtin_server_no_nul: "CHR 0x00 \<notin> set builtin_server"
  by (simp add: builtin_server_def)

definition listed :: "team_sheet \<Rightarrow> string \<Rightarrow> string \<Rightarrow> permitted_source \<Rightarrow> bool" where
  "listed sheet server tool p \<longleftrightarrow> p \<in> set (permitted_tool_sources sheet) \<and>
     pt_server (ps_tool p) = server \<and> pt_tool (ps_tool p) = tool"

definition granted_by_sheet :: "team_sheet \<Rightarrow> string \<Rightarrow> string \<Rightarrow> bool" where
  "granted_by_sheet sheet server tool \<longleftrightarrow>
     granting_servers sheet server tool \<noteq> {} \<or> server = builtin_server \<and> builtin_grants sheet tool \<noteq> {}"

lemma listing_entries_mem:
  "(k, p) \<in> set (listing_entries sheet) \<longleftrightarrow>
     (\<exists>server tool. k = listing_key server tool \<and> p = mcp_source sheet server tool \<and>
        granting_servers sheet server tool \<noteq> {})
     \<or> (\<exists>n. k = listing_key builtin_server (builtin_tool_name n) \<and> p = builtin_source sheet n \<and>
          builtin_grants sheet (builtin_tool_name n) \<noteq> {})"
  by (auto simp: listing_entries_def granting_servers_def builtin_grants_def)

lemma sources_facts:
  "distinct (map source_key (permitted_tool_sources sheet))"
  "source_key ` set (permitted_tool_sources sheet) = fst ` set (listing_entries sheet)"
  "p \<in> set (permitted_tool_sources sheet) \<Longrightarrow> (source_key p, p) \<in> set (listing_entries sheet)"
proof -
  note f = fold_list_once [of "listing_entries sheet" "[]" "{}"]
  from f show "distinct (map source_key (permitted_tool_sources sheet))"
    "source_key ` set (permitted_tool_sources sheet) = fst ` set (listing_entries sheet)"
    using listing_entries_keyed by (auto simp: permitted_tool_sources_def)
  assume "p \<in> set (permitted_tool_sources sheet)"
  with f have "p \<in> snd ` set (listing_entries sheet)"
    using listing_entries_keyed by (auto simp: permitted_tool_sources_def)
  then obtain k where "(k, p) \<in> set (listing_entries sheet)" by auto
  with listing_entries_keyed [OF this] show "(source_key p, p) \<in> set (listing_entries sheet)" by simp
qed

lemma mcp_source_simps [simp]:
  "pt_server (ps_tool (mcp_source sheet server tool)) = server"
  "pt_tool (ps_tool (mcp_source sheet server tool)) = tool"
  by (simp_all add: mcp_source_def Let_def)

lemma builtin_source_simps [simp]:
  "pt_server (ps_tool (builtin_source sheet n)) = builtin_server"
  "pt_tool (ps_tool (builtin_source sheet n)) = builtin_tool_name n"
  by (simp_all add: builtin_source_def Let_def)

text \<open>A sheet whose server names are identifiers and do not use the reserved name.\<close>

definition names_ok :: "team_sheet \<Rightarrow> bool" where
  "names_ok sheet \<longleftrightarrow> (\<forall>s \<in> set (sheet_mcp_server sheet). identifier_ok (srv_name s) \<and> srv_name s \<noteq> builtin_server)"

lemma names_ok_sheet: "team_sheet_ok url_ok issuer_ok zone_ok sheet \<Longrightarrow> names_ok sheet"
  by (auto simp: team_sheet_ok_def mcp_server_list_ok_def mcp_server_ok_def names_ok_def list_all_iff)

lemma granted_server_name:
  "names_ok sheet \<Longrightarrow> x \<in> granting_servers sheet server tool \<Longrightarrow>
     CHR 0x00 \<notin> set server \<and> server \<noteq> builtin_server"
  by (auto simp: names_ok_def granting_servers_def dest: identifier_no_nul)

lemma listed_source:
  assumes "names_ok sheet" "listed sheet server tool p"
  shows "p = mcp_source sheet server tool \<and> granting_servers sheet server tool \<noteq> {} \<and> server \<noteq> builtin_server
    \<or> (\<exists>n. tool = builtin_tool_name n \<and> p = builtin_source sheet n) \<and> server = builtin_server
        \<and> builtin_grants sheet tool \<noteq> {}"
proof -
  from assms(2) have "(source_key p, p) \<in> set (listing_entries sheet)"
    and st: "pt_server (ps_tool p) = server" "pt_tool (ps_tool p) = tool"
    by (auto simp: listed_def intro: sources_facts(3))
  then show ?thesis
    by (auto simp: listing_entries_mem dest: granted_server_name [OF assms(1)])
qed

lemma listed_iff_granted:
  assumes "names_ok sheet" "CHR 0x00 \<notin> set server"
  shows "(\<exists>p. listed sheet server tool p) \<longleftrightarrow> granted_by_sheet sheet server tool"
proof
  show "\<exists>p. listed sheet server tool p \<Longrightarrow> granted_by_sheet sheet server tool"
    using listed_source [OF assms(1)] by (auto simp: granted_by_sheet_def)
next
  assume g: "granted_by_sheet sheet server tool"
  obtain p where "(listing_key server tool, p) \<in> set (listing_entries sheet)"
  proof (cases "granting_servers sheet server tool = {}")
    case True
    with g obtain e where "server = builtin_server" "e \<in> builtin_grants sheet tool"
      by (auto simp: granted_by_sheet_def)
    then show ?thesis using that by (fastforce simp: listing_entries_mem builtin_grants_def)
  next
    case False
    then show ?thesis using that by (auto simp: listing_entries_mem)
  qed
  then have "listing_key server tool \<in> source_key ` set (permitted_tool_sources sheet)"
    unfolding sources_facts(2) by force
  then obtain q where q: "q \<in> set (permitted_tool_sources sheet)" "listing_key server tool = source_key q"
    by auto
  have "CHR 0x00 \<notin> set (pt_server (ps_tool q))"
    using sources_facts(3) [OF q(1)] builtin_server_no_nul
    by (auto simp: listing_entries_mem dest: granted_server_name [OF assms(1)])
  with q assms(2) show "\<exists>p. listed sheet server tool p"
    by (auto simp: source_key_def listing_key_inj listed_def)
qed

lemma builtin_name_filter:
  "filter (\<lambda>e. be_name e = n) es = filter (\<lambda>e. builtin_tool_name (be_name e) = builtin_tool_name n) es"
  by simp

lemma listed_matches_decision:
  assumes "names_ok sheet" "listed sheet server tool p"
  shows "pt_approval (ps_tool p) = ApprovalRequired \<longleftrightarrow> needs_human sheet server tool"
    and "decision_target (decide sheet server tool spend prices) = Some t \<Longrightarrow> ps_target p = Some t"
proof -
  from listed_source [OF assms] consider
      (mcp) "p = mcp_source sheet server tool" "granting_servers sheet server tool \<noteq> {}"
        "server \<noteq> builtin_server"
    | (builtin) n where "tool = builtin_tool_name n" "p = builtin_source sheet n"
        "server = builtin_server" "builtin_grants sheet tool \<noteq> {}" by blast
  then have "(pt_approval (ps_tool p) = ApprovalRequired \<longleftrightarrow> needs_human sheet server tool) \<and>
    (decision_target (decide sheet server tool spend prices) = Some t \<longrightarrow> ps_target p = Some t)"
  proof cases
    case mcp
    have "tools_named (servers_named sheet server) tool \<noteq> []"
      using mcp(2) tools_named_Nil_iff [of sheet server tool] by simp
    with mcp show ?thesis
      by (auto simp: mcp_source_def Let_def needs_human_mcp decide_def split: if_splits option.splits)
  next
    case builtin
    let ?es = "filter (\<lambda>e. builtin_tool_name (be_name e) = tool) (sheet_builtin sheet)"
    have "?es \<noteq> []" using builtin(4) set_builtin_entries [of tool sheet] by (metis set_empty)
    then obtain first rest where es: "?es = first # rest" by (cases ?es) auto
    have "first \<in> set ?es" unfolding es by simp
    then have n: "be_name first = n" using builtin(1) by simp
    have es': "filter (\<lambda>e. be_name e = n) (sheet_builtin sheet) = first # rest"
      using es builtin(1) by simp
    show ?thesis
      using needs_human_builtin [OF es] es es' n builtin
      by (auto simp: builtin_source_def Let_def decide_def decide_builtin_def
          split: if_splits option.splits)
  qed
  then show "pt_approval (ps_tool p) = ApprovalRequired \<longleftrightarrow> needs_human sheet server tool"
    and "decision_target (decide sheet server tool spend prices) = Some t \<Longrightarrow> ps_target p = Some t"
    by blast+
qed

text \<open>
  The listing and the decision agree. On a valid sheet a (server, tool) pair is listed exactly
  when the sheet grants it, and at most once; the listed approval mode is the one the decision
  applies; and whatever target the decision would dispatch to is the one the listing carries.
\<close>

theorem listing_agrees_with_decision:
  assumes "team_sheet_ok url_ok issuer_ok zone_ok sheet" and "identifier_ok server"
  shows "((\<exists>p. listed sheet server tool p) \<longleftrightarrow> granted_by_sheet sheet server tool)
    \<and> (\<forall>p q. listed sheet server tool p \<and> listed sheet server tool q \<longrightarrow> p = q)
    \<and> (\<forall>p. listed sheet server tool p \<longrightarrow>
          (pt_approval (ps_tool p) = ApprovalRequired \<longleftrightarrow> needs_human sheet server tool))
    \<and> (\<forall>p t. listed sheet server tool p \<and>
          decision_target (decide sheet server tool spend prices) = Some t \<longrightarrow> ps_target p = Some t)"
proof -
  note ok = names_ok_sheet [OF assms(1)]
  have "p = q" if "listed sheet server tool p" "listed sheet server tool q" for p q
    using that sources_facts(1) [of sheet]
    by (auto simp: listed_def source_key_def distinct_map inj_on_def)
  with listed_iff_granted [OF ok identifier_no_nul [OF assms(2)]] listed_matches_decision [OF ok]
  show ?thesis by blast
qed

theorem listing_agrees_with_decision_witness:
  "(\<exists>p. listed demo_sheet ''github'' ''search'' p) \<longleftrightarrow> granted_by_sheet demo_sheet ''github'' ''search''"
proof -
  have i: "identifier_ok ''github''" by code_simp
  show ?thesis
    using listing_agrees_with_decision [OF demo_sheet_ok i, of "''search''" "demo_spend 1" demo_prices] by blast
qed

subsection \<open>Result limits\<close>

lemma map_filter_id_set: "n \<in> set (List.map_filter id xs) \<longleftrightarrow> Some n \<in> set xs"
  by (force simp: List.map_filter_def)

lemma resolve_limits_spec:
  "(\<forall>n. Some n \<in> set declared \<longrightarrow> resolve_limits sheet declared \<le> n)
   \<and> (if \<exists>n. Some n \<in> set declared then Some (resolve_limits sheet declared) \<in> set declared
      else resolve_limits sheet declared = llm_max_result_chars (sheet_llm sheet))"
proof (cases "List.map_filter id declared = []")
  case True
  then have "\<not> (\<exists>n. Some n \<in> set declared)" using map_filter_id_set [of _ declared] by auto
  with True show ?thesis by (auto simp: resolve_limits_def)
next
  case False
  have m: "resolve_limits sheet declared = Min (set (List.map_filter id declared))"
    using False by (simp add: resolve_limits_def Let_def min_list_Min)
  have "Min (set (List.map_filter id declared)) \<in> set (List.map_filter id declared)"
    using False by (intro Min_in) auto
  then have "Some (resolve_limits sheet declared) \<in> set declared"
    by (simp only: m map_filter_id_set)
  moreover have "resolve_limits sheet declared \<le> n" if "Some n \<in> set declared" for n
    using that by (simp add: m map_filter_id_set)
  ultimately show ?thesis by auto
qed

fun decision_limit :: "decision \<Rightarrow> nat option" where
  "decision_limit (Allow _ l _) = Some l"
| "decision_limit (Hold _ _ l _) = Some l"
| "decision_limit (Refuse _) = None"

definition declared_limits :: "team_sheet \<Rightarrow> string \<Rightarrow> string \<Rightarrow> nat option set" where
  "declared_limits sheet server tool =
     (if server = builtin_server then be_max_result_chars ` builtin_grants sheet tool
      else te_max_result_chars ` granting_entries sheet server tool)"

text \<open>
  A served call's result limit is the tightest one any granting entry declares, and the sheet's
  own limit when none declares one: a laxer duplicate entry cannot widen it.
\<close>

theorem decision_limit_tightest:
  assumes "decision_limit (decide sheet server tool spend prices) = Some l"
  shows "(\<forall>n. Some n \<in> declared_limits sheet server tool \<longrightarrow> l \<le> n) \<and>
    (if \<exists>n. Some n \<in> declared_limits sheet server tool then Some l \<in> declared_limits sheet server tool
     else l = llm_max_result_chars (sheet_llm sheet))"
proof -
  obtain ds where l: "l = resolve_limits sheet ds" and ds: "set ds = declared_limits sheet server tool"
  proof (cases "server = builtin_server")
    case True
    let ?es = "filter (\<lambda>e. builtin_tool_name (be_name e) = tool) (sheet_builtin sheet)"
    from True have "set (map be_max_result_chars ?es) = declared_limits sheet server tool"
      by (simp add: declared_limits_def set_builtin_entries [symmetric])
    moreover from True assms have "l = resolve_limits sheet (map be_max_result_chars ?es)"
      by (auto simp: decide_def decide_builtin_def Let_def split: if_splits option.splits list.splits)
    ultimately show ?thesis using that by blast
  next
    case False
    let ?ts = "tools_named (servers_named sheet server) tool"
    from False have "set (map te_max_result_chars ?ts) = declared_limits sheet server tool"
      by (simp add: declared_limits_def set_tools_named)
    moreover from False assms have "l = resolve_limits sheet (map te_max_result_chars ?ts)"
      by (auto simp: decide_def Let_def split: if_splits option.splits)
    ultimately show ?thesis using that by blast
  qed
  show ?thesis using resolve_limits_spec [of ds sheet] unfolding l ds .
qed

theorem decision_limit_tightest_witness:
  "decision_limit (decide demo_sheet ''github'' ''search'' (demo_spend 1) demo_prices) = Some 80
   \<and> Some 80 \<in> declared_limits demo_sheet ''github'' ''search''"
proof -
  have d: "decision_limit (decide demo_sheet ''github'' ''search'' (demo_spend 1) demo_prices) = Some 80"
    by (simp add: demo_decide_search)
  have "demo_tool ''search'' (Some ApprovalNone) (Some 80) \<in> granting_entries demo_sheet ''github'' ''search''"
    by (simp add: granting_entries_def demo_server_b_def demo_server_def demo_tool_def)
  then have "te_max_result_chars (demo_tool ''search'' (Some ApprovalNone) (Some 80))
      \<in> te_max_result_chars ` granting_entries demo_sheet ''github'' ''search''"
    by (rule imageI)
  then have "Some 80 \<in> declared_limits demo_sheet ''github'' ''search''"
    by (simp add: declared_limits_def builtin_server_def demo_tool_def)
  with decision_limit_tightest [OF d] d show ?thesis by blast
qed

subsection \<open>Warnings\<close>

fun decision_warning :: "decision \<Rightarrow> budget_warning option" where
  "decision_warning (Allow _ _ w) = w"
| "decision_warning (Hold _ _ _ w) = w"
| "decision_warning (Refuse _) = None"

fun warning_justified :: "team_sheet \<Rightarrow> budget_spend \<Rightarrow> price_lookup \<Rightarrow> budget_warning \<Rightarrow> bool" where
  "warning_justified sheet spend prices w =
     (js_mul (bw_cap w) (warn_at (sheet_budget sheet)) \<le> bw_spent w \<and>
      (case bw_limit w of
         DailyTokens \<Rightarrow> bw_cap w = of_nat (daily_tokens (sheet_budget sheet)) \<and>
           bw_spent w = billable_tokens sheet spend \<and> bw_spent w < bw_cap w
       | DailyToolCalls \<Rightarrow> bw_cap w = of_nat (daily_tool_calls (sheet_budget sheet)) \<and>
           bw_spent w = of_nat (sp_tool_calls spend) \<and> bw_spent w < bw_cap w
       | DailyUsd \<Rightarrow> daily_usd (sheet_budget sheet) = Some (bw_cap w) \<and>
           (\<exists>m. priced_spend spend prices = Inr m \<and> bw_spent w = js_div (fl (of_nat m)) 1000000 \<and>
              int m < usd_to_micro_usd (bw_cap w))))"

lemma crossed_threshold_justified:
  assumes "within_budget sheet spend prices" "crossed_threshold sheet spend prices = Some w"
  shows "warning_justified sheet spend prices w \<and> warn_at (sheet_budget sheet) \<noteq> 0"
  using assms
  by (auto simp: crossed_threshold_def crossed_counts_def within_budget_def Let_def
      split: if_splits option.splits sum.splits)

text \<open>
  A warning carried by a decision is about a limit the spend has crossed the sheet's fraction of
  and has not yet reached; a channel whose fraction is zero is never warned.
\<close>

theorem decision_warning_justified:
  assumes "decision_warning (decide sheet server tool spend prices) = Some w"
  shows "warning_justified sheet spend prices w \<and> warn_at (sheet_budget sheet) \<noteq> 0"
proof -
  have "decision_warning (decide sheet server tool spend prices) = crossed_threshold sheet spend prices
      \<and> exhausted_limit sheet spend prices = None"
    using assms
    by (auto simp: decide_def decide_builtin_def Let_def split: if_splits option.splits list.splits)
  with assms crossed_threshold_justified [of sheet spend prices w] show ?thesis
    by (simp add: exhausted_limit_None_iff del: warning_justified.simps)
qed

theorem decision_warning_justified_witness:
  "\<exists>w. decision_warning (decide demo_sheet ''github'' ''search'' (demo_spend 3) demo_prices) = Some w
     \<and> bw_limit w = DailyToolCalls \<and> warning_justified demo_sheet (demo_spend 3) demo_prices w"
proof -
  let ?w = "\<lparr>bw_limit = DailyToolCalls, bw_spent = 3, bw_cap = 6\<rparr>"
  have d: "decision_warning (decide demo_sheet ''github'' ''search'' (demo_spend 3) demo_prices) = Some ?w"
    by (simp add: demo_decide_search demo_crossed)
  with decision_warning_justified [OF d] show ?thesis by (intro exI [of _ ?w]) simp
qed

end
