(* ===== verification/Approvals.thy ===== *)
theory Approvals
  imports Tool_Call
begin

text \<open>
  The approval ticket store, \<open>packages/proxy/src/approvals.ts\<close>: held calls, the humans' verdicts
  and single-use redemption. \<open>byChannel\<close> is a map of maps, both insertion ordered. Each operation
  takes the clock readings it makes as arguments, and \<open>mint\<close> the id \<open>randomUUID\<close> drew.

  The laws a caller of the store relies on are the locale \<open>ticket_store\<close>; the histories of
  operations and what holds of every one of them are proved there, once, and the code's maps are
  an interpretation.
\<close>

subsection \<open>Tickets\<close>

definition approval_ttl_ms :: nat where
  "approval_ttl_ms = 15 * 60 * 1000"

definition ticket_retention_ms :: nat where
  "ticket_retention_ms = approval_ttl_ms"

definition max_tickets_per_channel :: nat where
  "max_tickets_per_channel = 64"

datatype approval_verdict = Approve | Deny

record ticket =
  tkt_id :: string
  tkt_channel :: string
  tkt_server :: string
  tkt_tool :: string
  tkt_arguments_sha256 :: string
  tkt_requesting_user :: string
  tkt_task :: string
  tkt_call_id :: string
  tkt_created_at :: nat
  tkt_expires_at :: nat
  tkt_verdict :: "approval_verdict option"
  tkt_approver :: "string option"
  tkt_decided_at :: "nat option"
  tkt_spent_at :: "nat option"
  tkt_expiry_observed :: bool

datatype redeem_result =
    Redeemed ticket
  | RedeemUnknown
  | RedeemPending ticket
  | RedeemDenied ticket
  | RedeemSpent ticket
  | RedeemMismatch ticket
  | RedeemExpired ticket bool

datatype decide_result =
    Recorded ticket
  | AlreadyDecided ticket
  | DecideUnknown
  | DecideExpired ticket bool

definition new_ticket :: "nat \<Rightarrow> string \<Rightarrow> resolved_call \<Rightarrow> string \<Rightarrow> ticket" where
  "new_ticket now uuid call arguments_sha256 =
     \<lparr>tkt_id = uuid, tkt_channel = rc_channel call, tkt_server = tc_server call, tkt_tool = tc_tool call,
      tkt_arguments_sha256 = arguments_sha256, tkt_requesting_user = tc_requesting_user call,
      tkt_task = tc_task call, tkt_call_id = tc_id call, tkt_created_at = now,
      tkt_expires_at = now + approval_ttl_ms, tkt_verdict = None, tkt_approver = None,
      tkt_decided_at = None, tkt_spent_at = None, tkt_expiry_observed = False\<rparr>"

definition is_dead :: "nat \<Rightarrow> ticket \<Rightarrow> bool" where
  "is_dead now t \<longleftrightarrow> tkt_expires_at t \<le> now"

definition observe_expiry :: "ticket \<Rightarrow> bool \<times> ticket" where
  "observe_expiry t =
     (if tkt_expiry_observed t then (False, t) else (True, t\<lparr>tkt_expiry_observed := True\<rparr>))"

text \<open>The part of \<open>redeem\<close> and \<open>decide\<close> after the lookup: the result and the mutated record.\<close>

definition redeem_ticket ::
    "nat \<Rightarrow> nat \<Rightarrow> resolved_call \<Rightarrow> string \<Rightarrow> ticket \<Rightarrow> redeem_result \<times> ticket" where
  "redeem_ticket now now' call arguments_sha256 t =
     (if is_dead now t then (let (first, t') = observe_expiry t in (RedeemExpired t' first, t'))
      else if tkt_spent_at t \<noteq> None then (RedeemSpent t, t)
      else if tkt_verdict t = None then (RedeemPending t, t)
      else if tkt_verdict t = Some Deny then (RedeemDenied t, t)
      else if tc_server call \<noteq> tkt_server t \<or> tc_tool call \<noteq> tkt_tool t
           \<or> arguments_sha256 \<noteq> tkt_arguments_sha256 t then (RedeemMismatch t, t)
      else let t' = t\<lparr>tkt_spent_at := Some now'\<rparr> in (Redeemed t', t'))"

definition decide_ticket ::
    "nat \<Rightarrow> nat \<Rightarrow> approval_verdict \<Rightarrow> string \<Rightarrow> ticket \<Rightarrow> decide_result \<times> ticket" where
  "decide_ticket now now' verdict approver t =
     (if is_dead now t then (let (first, t') = observe_expiry t in (DecideExpired t' first, t'))
      else if tkt_verdict t \<noteq> None then (AlreadyDecided t, t)
      else let t' = t\<lparr>tkt_verdict := Some verdict, tkt_approver := Some approver, tkt_decided_at := Some now'\<rparr>
           in (Recorded t', t'))"

subsection \<open>The store\<close>

type_synonym approval_store = "(string, (string, ticket) jsmap) jsmap"

definition find_ticket :: "approval_store \<Rightarrow> string \<Rightarrow> string \<Rightarrow> ticket option" where
  "find_ticket store channel uuid = Option.bind (js_get store channel) (\<lambda>tickets. js_get tickets uuid)"

definition put_ticket :: "string \<Rightarrow> string \<Rightarrow> ticket \<Rightarrow> approval_store \<Rightarrow> approval_store" where
  "put_ticket channel uuid t store =
     (case js_get store channel of
        None \<Rightarrow> store
      | Some tickets \<Rightarrow> js_set channel (js_set uuid t tickets) store)"

text \<open>The cap: delete the oldest key while the map is full.\<close>

function evict :: "(string, ticket) jsmap \<Rightarrow> (string, ticket) jsmap" where
  "evict tickets =
     (if max_tickets_per_channel \<le> length tickets \<and> tickets \<noteq> []
      then evict (js_delete (fst (hd tickets)) tickets) else tickets)"
  by pat_completeness auto
termination
proof (relation "measure length")
  fix tickets :: "(string, ticket) jsmap"
  assume "max_tickets_per_channel \<le> length tickets \<and> tickets \<noteq> []"
  then obtain e rest where "tickets = e # rest" by (cases tickets) auto
  then show "(js_delete (fst (hd tickets)) tickets, tickets) \<in> measure length"
    using length_delete_le [of "fst e" rest] by (cases e) auto
qed simp

declare evict.simps [simp del]

definition mint :: "nat \<Rightarrow> string \<Rightarrow> resolved_call \<Rightarrow> string \<Rightarrow> approval_store \<Rightarrow> ticket \<times> approval_store" where
  "mint now uuid call arguments_sha256 store =
     (let tickets = (case js_get store (rc_channel call) of None \<Rightarrow> [] | Some tickets \<Rightarrow> tickets);
          kept = filter (\<lambda>(i, held). \<not> tkt_expires_at held + ticket_retention_ms \<le> now) tickets;
          t = new_ticket now uuid call arguments_sha256
      in (t, js_set (rc_channel call) (js_set uuid t (evict kept)) store))"

definition redeem ::
    "nat \<Rightarrow> nat \<Rightarrow> string \<Rightarrow> string \<Rightarrow> resolved_call \<Rightarrow> string \<Rightarrow> approval_store \<Rightarrow> redeem_result \<times> approval_store"
where
  "redeem now now' channel uuid call arguments_sha256 store =
     (case find_ticket store channel uuid of
        None \<Rightarrow> (RedeemUnknown, store)
      | Some t \<Rightarrow> let (result, t') = redeem_ticket now now' call arguments_sha256 t
                  in (result, put_ticket channel uuid t' store))"

definition record_verdict ::
    "nat \<Rightarrow> nat \<Rightarrow> string \<Rightarrow> string \<Rightarrow> approval_verdict \<Rightarrow> string \<Rightarrow> approval_store \<Rightarrow> decide_result \<times> approval_store"
where
  "record_verdict now now' channel uuid verdict approver store =
     (case find_ticket store channel uuid of
        None \<Rightarrow> (DecideUnknown, store)
      | Some t \<Rightarrow> let (result, t') = decide_ticket now now' verdict approver t
                  in (result, put_ticket channel uuid t' store))"

text \<open>One operation of the store and what it answers.\<close>

datatype approval_op =
    OpMint nat string resolved_call string
  | OpRedeem nat nat string string resolved_call string
  | OpDecide nat nat string string approval_verdict string

datatype approval_outcome =
    OutMint ticket
  | OutRedeem redeem_result
  | OutDecide decide_result

fun approval_step :: "approval_op \<Rightarrow> approval_store \<Rightarrow> approval_outcome \<times> approval_store" where
  "approval_step (OpMint now uuid call h) store = apfst OutMint (mint now uuid call h store)"
| "approval_step (OpRedeem now now' channel uuid call h) store =
     apfst OutRedeem (redeem now now' channel uuid call h store)"
| "approval_step (OpDecide now now' channel uuid verdict approver) store =
     apfst OutDecide (record_verdict now now' channel uuid verdict approver store)"

subsection \<open>What happens to one ticket\<close>

text \<open>A ticket's description never changes, and what was decided, spent or observed stays so.\<close>

definition ticket_evolves :: "ticket \<Rightarrow> ticket \<Rightarrow> bool" where
  "ticket_evolves t t' \<longleftrightarrow>
     tkt_id t' = tkt_id t \<and> tkt_channel t' = tkt_channel t \<and> tkt_server t' = tkt_server t \<and>
     tkt_tool t' = tkt_tool t \<and> tkt_arguments_sha256 t' = tkt_arguments_sha256 t \<and>
     tkt_expires_at t' = tkt_expires_at t \<and>
     (tkt_verdict t \<noteq> None \<longrightarrow> tkt_verdict t' = tkt_verdict t \<and> tkt_approver t' = tkt_approver t) \<and>
     (tkt_spent_at t \<noteq> None \<longrightarrow> tkt_spent_at t' \<noteq> None) \<and>
     (tkt_expiry_observed t \<longrightarrow> tkt_expiry_observed t')"

lemma ticket_evolves_refl [simp]: "ticket_evolves t t"
  by (simp add: ticket_evolves_def)

lemmas ticket_op_defs = redeem_ticket_def decide_ticket_def observe_expiry_def is_dead_def

lemma ticket_evolves_redeem: "ticket_evolves t (snd (redeem_ticket now now' call h t))"
  by (simp add: ticket_op_defs ticket_evolves_def Let_def)

lemma ticket_evolves_decide: "ticket_evolves t (snd (decide_ticket now now' verdict approver t))"
  by (auto simp: ticket_op_defs ticket_evolves_def Let_def)

lemma redeem_ticket_spends:
  "redeem_ticket now now' call h t = (Redeemed r, t') \<longleftrightarrow>
     now < tkt_expires_at t \<and> tkt_spent_at t = None \<and> tkt_verdict t = Some Approve \<and>
     tc_server call = tkt_server t \<and> tc_tool call = tkt_tool t \<and> h = tkt_arguments_sha256 t \<and>
     t' = t\<lparr>tkt_spent_at := Some now'\<rparr> \<and> r = t'"
  by (cases "tkt_verdict t"; cases "the (tkt_verdict t)") (auto simp: ticket_op_defs Let_def)

lemma decide_ticket_records:
  "decide_ticket now now' v ap t = (Recorded r, t') \<longleftrightarrow>
     now < tkt_expires_at t \<and> tkt_verdict t = None \<and> r = t' \<and>
     t' = t\<lparr>tkt_verdict := Some v, tkt_approver := Some ap, tkt_decided_at := Some now'\<rparr>"
  by (auto simp: ticket_op_defs Let_def)

lemma redeem_ticket_observes:
  "redeem_ticket now now' call h t = (RedeemExpired r True, t') \<Longrightarrow>
     \<not> tkt_expiry_observed t \<and> tkt_expiry_observed t'"
  by (auto simp: ticket_op_defs Let_def split: if_splits)

lemma decide_ticket_observes:
  "decide_ticket now now' v ap t = (DecideExpired r True, t') \<Longrightarrow>
     \<not> tkt_expiry_observed t \<and> tkt_expiry_observed t'"
  by (auto simp: ticket_op_defs Let_def split: if_splits)

lemma redeem_ticket_frame:
  "redeem_ticket now now' call h t = (r, t') \<Longrightarrow>
     tkt_verdict t' = tkt_verdict t \<and> tkt_approver t' = tkt_approver t \<and>
     (tkt_spent_at t' \<noteq> tkt_spent_at t \<longrightarrow> (\<exists>u. r = Redeemed u))"
  by (auto simp: ticket_op_defs Let_def split: if_splits)

lemma decide_ticket_frame:
  "decide_ticket now now' v ap t = (r, t') \<Longrightarrow>
     tkt_spent_at t' = tkt_spent_at t \<and>
     (tkt_verdict t' \<noteq> tkt_verdict t \<longrightarrow> (\<exists>u. r = Recorded u))"
  by (auto simp: ticket_op_defs Let_def split: if_splits)

subsection \<open>Histories\<close>

fun mints :: "string \<Rightarrow> approval_op \<Rightarrow> bool" where
  "mints uuid (OpMint _ u _ _) \<longleftrightarrow> u = uuid"
| "mints uuid _ \<longleftrightarrow> False"

text \<open>\<open>randomUUID\<close> never draws an id twice: its documented behaviour.\<close>

definition fresh_op :: "approval_op \<Rightarrow> (approval_op \<times> approval_outcome) list \<Rightarrow> bool" where
  "fresh_op op tr \<longleftrightarrow> (\<forall>uuid. mints uuid op \<longrightarrow> (\<forall>(op', out) \<in> set tr. \<not> mints uuid op'))"

inductive history ::
    "(approval_op \<Rightarrow> 's \<Rightarrow> approval_outcome \<times> 's) \<Rightarrow> 's \<Rightarrow> (approval_op \<times> approval_outcome) list \<Rightarrow> 's \<Rightarrow> bool"
  for step :: "approval_op \<Rightarrow> 's \<Rightarrow> approval_outcome \<times> 's" and init :: 's where
  history_init: "history step init [] init"
| history_step: "history step init tr s \<Longrightarrow> fresh_op op tr \<Longrightarrow> step op s = (out, s') \<Longrightarrow>
    history step init (tr @ [(op, out)]) s'"

inductive_simps history_Nil [simp]: "history step init [] s"

inductive_cases history_snocE: "history step init (tr @ [e]) s"

lemma history_append:
  "history step init (tr1 @ tr2) s \<Longrightarrow> \<exists>s1. history step init tr1 s1"
proof (induction tr2 arbitrary: s rule: rev_induct)
  case (snoc e tr2)
  then have "history step init ((tr1 @ tr2) @ [e]) s" by simp
  then show ?case by (rule history_snocE) (use snoc.IH in auto)
qed auto

lemma history_last:
  assumes "history step init (tr @ [(op, out)]) s"
  shows "\<exists>s0. history step init tr s0 \<and> fresh_op op tr \<and> step op s0 = (out, s)"
  using assms by (rule history_snocE) auto

lemma history_split:
  assumes "history step init (tr1 @ (op, out) # tr2) s"
  shows "\<exists>s0 s1. history step init tr1 s0 \<and> fresh_op op tr1 \<and> step op s0 = (out, s1)"
proof -
  have "history step init ((tr1 @ [(op, out)]) @ tr2) s" using assms by simp
  then obtain s1 where "history step init (tr1 @ [(op, out)]) s1" by (blast dest: history_append)
  then show ?thesis by (blast dest: history_last)
qed

text \<open>The events a history is searched for.\<close>

fun redeemed_event :: "string \<Rightarrow> string \<Rightarrow> approval_op \<times> approval_outcome \<Rightarrow> bool" where
  "redeemed_event c i (OpRedeem _ _ c' i' _ _, OutRedeem (Redeemed _)) \<longleftrightarrow> c' = c \<and> i' = i"
| "redeemed_event c i _ \<longleftrightarrow> False"

fun recorded_event :: "string \<Rightarrow> string \<Rightarrow> approval_verdict \<Rightarrow> approval_op \<times> approval_outcome \<Rightarrow> bool" where
  "recorded_event c i v (OpDecide _ _ c' i' v' _, OutDecide (Recorded _)) \<longleftrightarrow> c' = c \<and> i' = i \<and> v' = v"
| "recorded_event c i v _ \<longleftrightarrow> False"

fun expiry_event :: "string \<Rightarrow> string \<Rightarrow> approval_op \<times> approval_outcome \<Rightarrow> bool" where
  "expiry_event c i (OpRedeem _ _ c' i' _ _, OutRedeem (RedeemExpired _ first)) \<longleftrightarrow> c' = c \<and> i' = i \<and> first"
| "expiry_event c i (OpDecide _ _ c' i' _ _, OutDecide (DecideExpired _ first)) \<longleftrightarrow> c' = c \<and> i' = i \<and> first"
| "expiry_event c i _ \<longleftrightarrow> False"

text \<open>What a ticket in the store says about the history that put it there.\<close>

definition minted_as :: "(approval_op \<times> approval_outcome) list \<Rightarrow> string \<Rightarrow> string \<Rightarrow> ticket \<Rightarrow> bool" where
  "minted_as tr c i t \<longleftrightarrow> (\<exists>now call out. (OpMint now i call (tkt_arguments_sha256 t), out) \<in> set tr \<and>
     rc_channel call = c \<and> tkt_server t = tc_server call \<and> tkt_tool t = tc_tool call \<and>
     tkt_expires_at t = now + approval_ttl_ms)"

definition decided_as :: "(approval_op \<times> approval_outcome) list \<Rightarrow> string \<Rightarrow> string \<Rightarrow> ticket \<Rightarrow> bool" where
  "decided_as tr c i t \<longleftrightarrow> (\<forall>v. tkt_verdict t = Some v \<longrightarrow> (\<exists>now now' ap r.
     (OpDecide now now' c i v ap, OutDecide (Recorded r)) \<in> set tr \<and> tkt_approver t = Some ap \<and>
     now < tkt_expires_at t))"

subsection \<open>The contract\<close>

locale ticket_store =
  fixes step :: "approval_op \<Rightarrow> 's \<Rightarrow> approval_outcome \<times> 's"
    and lookup :: "'s \<Rightarrow> string \<Rightarrow> string \<Rightarrow> ticket option"
    and valid :: "'s \<Rightarrow> bool"
    and init :: 's
  assumes init_valid: "valid init"
    and init_lookup: "lookup init c i = None"
    and step_valid: "valid s \<Longrightarrow> valid (snd (step op s))"
    and mint_outcome: "fst (step (OpMint now u call h) s) = OutMint (new_ticket now u call h)"
    and mint_new: "valid s \<Longrightarrow>
        lookup (snd (step (OpMint now u call h) s)) (rc_channel call) u = Some (new_ticket now u call h)"
    and mint_old: "valid s \<Longrightarrow> (c, i) \<noteq> (rc_channel call, u) \<Longrightarrow>
        lookup (snd (step (OpMint now u call h) s)) c i = Some t \<Longrightarrow> lookup s c i = Some t"
    and redeem_outcome: "fst (step (OpRedeem now now' c i call h) s) = OutRedeem
        (case lookup s c i of None \<Rightarrow> RedeemUnknown | Some t \<Rightarrow> fst (redeem_ticket now now' call h t))"
    and redeem_lookup: "lookup (snd (step (OpRedeem now now' c i call h) s)) c' i' =
        (if (c', i') = (c, i) then map_option (\<lambda>t. snd (redeem_ticket now now' call h t)) (lookup s c i)
         else lookup s c' i')"
    and decide_outcome: "fst (step (OpDecide now now' c i v ap) s) = OutDecide
        (case lookup s c i of None \<Rightarrow> DecideUnknown | Some t \<Rightarrow> fst (decide_ticket now now' v ap t))"
    and decide_lookup: "lookup (snd (step (OpDecide now now' c i v ap) s)) c' i' =
        (if (c', i') = (c, i) then map_option (\<lambda>t. snd (decide_ticket now now' v ap t)) (lookup s c i)
         else lookup s c' i')"
begin

lemma history_valid [inv_preserved]: "history step init tr s \<Longrightarrow> valid s"
proof (induction rule: history.induct)
  case (history_step tr s op out s')
  then show ?case using step_valid [of s op] by simp
qed (rule init_valid)

lemma step_evolves:
  assumes "valid s" "step op s = (out, s')" "\<not> mints i op" "lookup s' c i = Some t'"
  shows "\<exists>t. lookup s c i = Some t \<and> ticket_evolves t t'"
proof (cases op)
  case (OpMint now u call h)
  with assms have "lookup s c i = Some t'" using mint_old [of s c i call u now h t'] by simp
  then show ?thesis by simp
next
  case (OpRedeem now now' c0 i0 call h)
  with assms have "s' = snd (step (OpRedeem now now' c0 i0 call h) s)" by simp
  with assms(4) show ?thesis
    by (auto simp: redeem_lookup intro: ticket_evolves_redeem split: if_splits)
next
  case (OpDecide now now' c0 i0 v ap)
  with assms have "s' = snd (step (OpDecide now now' c0 i0 v ap) s)" by simp
  with assms(4) show ?thesis
    by (auto simp: decide_lookup intro: ticket_evolves_decide split: if_splits)
qed

lemma mint_result:
  assumes "valid s" "step (OpMint now u call h) s = (out, s')"
  shows "out = OutMint (new_ticket now u call h)" "lookup s' (rc_channel call) u = Some (new_ticket now u call h)"
  using mint_outcome [of now u call h s] mint_new [OF assms(1), of now u call h] assms(2) by simp_all

lemma redeemed_step:
  assumes "step op s = (out, s')" "redeemed_event c i (op, out)"
  shows "\<exists>now now' call h t t'. op = OpRedeem now now' c i call h \<and> lookup s c i = Some t \<and>
    redeem_ticket now now' call h t = (Redeemed t', t') \<and> out = OutRedeem (Redeemed t') \<and> lookup s' c i = Some t'"
proof -
  obtain now now' call h r where op: "op = OpRedeem now now' c i call h" "out = OutRedeem (Redeemed r)"
    using assms(2) by (cases "(c, i, (op, out))" rule: redeemed_event.cases) auto
  then obtain t where t: "lookup s c i = Some t" "fst (redeem_ticket now now' call h t) = Redeemed r"
    using redeem_outcome [of now now' c i call h s] assms(1) by (auto split: option.splits)
  then have rt: "redeem_ticket now now' call h t = (Redeemed r, r)"
    using redeem_ticket_spends [of now now' call h t r] by (metis prod.collapse)
  then have "lookup s' c i = Some r"
    using redeem_lookup [of now now' c i call h s c i] assms(1) t op by simp
  with op t rt show ?thesis by blast
qed

lemma recorded_step:
  assumes "step op s = (out, s')" "recorded_event c i v (op, out)"
  shows "\<exists>now now' ap t t'. op = OpDecide now now' c i v ap \<and> lookup s c i = Some t \<and>
    decide_ticket now now' v ap t = (Recorded t', t') \<and> out = OutDecide (Recorded t') \<and> lookup s' c i = Some t'"
proof -
  obtain now now' ap r where op: "op = OpDecide now now' c i v ap" "out = OutDecide (Recorded r)"
    using assms(2) by (cases "(c, i, v, (op, out))" rule: recorded_event.cases) auto
  then obtain t where t: "lookup s c i = Some t" "fst (decide_ticket now now' v ap t) = Recorded r"
    using decide_outcome [of now now' c i v ap s] assms(1) by (auto split: option.splits)
  then have rt: "decide_ticket now now' v ap t = (Recorded r, r)"
    using decide_ticket_records [of now now' v ap t r] by (metis prod.collapse)
  then have "lookup s' c i = Some r"
    using decide_lookup [of now now' c i v ap s c i] assms(1) t op by simp
  with op t rt show ?thesis by blast
qed

lemma expiry_step:
  assumes "step op s = (out, s')" "expiry_event c i (op, out)"
  shows "\<exists>t t'. lookup s c i = Some t \<and> \<not> tkt_expiry_observed t \<and> lookup s' c i = Some t' \<and> tkt_expiry_observed t'"
  using assms(2)
proof (cases "(c, i, (op, out))" rule: expiry_event.cases)
  case (1 c0 i0 now now' c' i' call h r first)
  then have op: "op = OpRedeem now now' c i call h" "out = OutRedeem (RedeemExpired r True)" using assms(2) by auto
  then obtain t where t: "lookup s c i = Some t" "fst (redeem_ticket now now' call h t) = RedeemExpired r True"
    using redeem_outcome [of now now' c i call h s] assms(1) by (auto split: option.splits)
  moreover have "lookup s' c i = Some (snd (redeem_ticket now now' call h t))"
    using redeem_lookup [of now now' c i call h s c i] assms(1) t op by simp
  ultimately show ?thesis using redeem_ticket_observes [of now now' call h t r] by (metis prod.collapse)
next
  case (2 c0 i0 now now' c' i' v ap r first)
  then have op: "op = OpDecide now now' c i v ap" "out = OutDecide (DecideExpired r True)" using assms(2) by auto
  then obtain t where t: "lookup s c i = Some t" "fst (decide_ticket now now' v ap t) = DecideExpired r True"
    using decide_outcome [of now now' c i v ap s] assms(1) by (auto split: option.splits)
  moreover have "lookup s' c i = Some (snd (decide_ticket now now' v ap t))"
    using decide_lookup [of now now' c i v ap s c i] assms(1) t op by simp
  ultimately show ?thesis using decide_ticket_observes [of now now' v ap t r] by (metis prod.collapse)
qed auto

text \<open>
  An event that needs the ticket unmarked and marks it happens at most once in a history, when the
  mark never comes off: the shape of redemption, of the first verdict and of the observed expiry.
\<close>

lemma at_most_once:
  assumes "history step init tr s"
    and fire: "\<And>op out s s'. step op s = (out, s') \<Longrightarrow> event (op, out) \<Longrightarrow>
      \<exists>t t'. lookup s c i = Some t \<and> \<not> marked t \<and> lookup s' c i = Some t' \<and> marked t'"
    and keep: "\<And>t t'. ticket_evolves t t' \<Longrightarrow> marked t \<Longrightarrow> marked t'"
  shows "length (filter event tr) \<le> 1
    \<and> (lookup s c i \<noteq> None \<or> filter event tr \<noteq> [] \<longrightarrow> (\<exists>(op, out) \<in> set tr. mints i op))
    \<and> (filter event tr \<noteq> [] \<longrightarrow> (\<forall>t. lookup s c i = Some t \<longrightarrow> marked t))"
  using assms(1)
proof (induction rule: history.induct)
  case history_init
  then show ?case by (simp add: init_lookup)
next
  case (history_step tr s op out s')
  note v = history_valid [OF history_step(1)]
  show ?case
  proof (cases "event (op, out)")
    case True
    then obtain t t' where t: "lookup s c i = Some t" "\<not> marked t" "lookup s' c i = Some t'" "marked t'"
      using fire [OF history_step(3)] by blast
    with history_step.IH have "filter event tr = []" by blast
    with True t history_step.IH show ?thesis by auto
  next
    case False
    have created: "lookup s c i \<noteq> None" if "lookup s' c i \<noteq> None" "\<not> mints i op"
      using that step_evolves [OF v history_step(3)] by blast
    have "marked t'" if "filter event tr \<noteq> []" "lookup s' c i = Some t'" for t'
    proof -
      have "\<not> mints i op"
        using history_step.IH history_step(2) that(1) by (fastforce simp: fresh_op_def)
      from step_evolves [OF v history_step(3) this that(2)] history_step.IH that(1) keep
      show ?thesis by blast
    qed
    with False history_step.IH created show ?thesis by auto
  qed
qed

lemma redeemed_marks:
  "history step init tr s \<Longrightarrow> length (filter (redeemed_event c i) tr) \<le> 1
    \<and> (lookup s c i \<noteq> None \<or> filter (redeemed_event c i) tr \<noteq> [] \<longrightarrow> (\<exists>(op, out) \<in> set tr. mints i op))
    \<and> (filter (redeemed_event c i) tr \<noteq> [] \<longrightarrow> (\<forall>t. lookup s c i = Some t \<longrightarrow> tkt_spent_at t \<noteq> None))"
  by (erule at_most_once) (auto dest!: redeemed_step simp: redeem_ticket_spends ticket_evolves_def)

lemma recorded_marks:
  "history step init tr s \<Longrightarrow> length (filter (recorded_event c i v) tr) \<le> 1
    \<and> (lookup s c i \<noteq> None \<or> filter (recorded_event c i v) tr \<noteq> [] \<longrightarrow> (\<exists>(op, out) \<in> set tr. mints i op))
    \<and> (filter (recorded_event c i v) tr \<noteq> [] \<longrightarrow> (\<forall>t. lookup s c i = Some t \<longrightarrow> tkt_verdict t \<noteq> None))"
  by (erule at_most_once) (auto dest!: recorded_step simp: decide_ticket_records ticket_evolves_def)

lemma redeemed_once: "history step init tr s \<Longrightarrow> length (filter (redeemed_event c i) tr) \<le> 1"
  using redeemed_marks by blast

lemma expired_once: "history step init tr s \<Longrightarrow> length (filter (expiry_event c i) tr) \<le> 1"
  by (rule conjunct1 [OF at_most_once [where c = c and i = i and marked = tkt_expiry_observed]], assumption)
    (auto dest!: expiry_step simp: ticket_evolves_def)

lemma decided_once: "history step init tr s \<Longrightarrow>
    length (filter (\<lambda>e. recorded_event c i Approve e \<or> recorded_event c i Deny e) tr) \<le> 1"
  by (rule conjunct1 [OF at_most_once [where c = c and i = i and marked = "\<lambda>t. tkt_verdict t \<noteq> None"]], assumption)
    (fastforce dest: recorded_step simp: decide_ticket_records, simp add: ticket_evolves_def)

lemma stored_ticket:
  "history step init tr s \<Longrightarrow> lookup s c i = Some t \<Longrightarrow> minted_as tr c i t \<and> decided_as tr c i t"
proof (induction arbitrary: t rule: history.induct)
  case history_init
  then show ?case by (simp add: init_lookup)
next
  case (history_step tr s op out s')
  note v = history_valid [OF history_step(1)]
  show ?case
  proof (cases "\<exists>now call h. op = OpMint now i call h \<and> rc_channel call = c")
    case True
    then obtain now call h where op: "op = OpMint now i call h" "rc_channel call = c" by blast
    with mint_result [OF v, of now i call h out s'] history_step(3) history_step.prems
    have "t = new_ticket now i call h" by simp
    with op show ?thesis by (auto simp: minted_as_def decided_as_def new_ticket_def)
  next
    case False
    obtain t0 where t0: "lookup s c i = Some t0" "ticket_evolves t0 t"
    proof (cases "mints i op")
      case True
      then obtain now call h where op: "op = OpMint now i call h" by (cases op) auto
      with False mint_old [OF v, of c i call i now h t] history_step(3) history_step.prems
      have "lookup s c i = Some t" by simp
      then show ?thesis using that by simp
    qed (use step_evolves [OF v history_step(3) _ history_step.prems] that in blast)
    have minted: "minted_as (tr @ [(op, out)]) c i t"
      using history_step.IH [OF t0(1)] t0(2) by (fastforce simp: minted_as_def ticket_evolves_def)
    have decided: "decided_as (tr @ [(op, out)]) c i t"
    proof (cases "tkt_verdict t0 = tkt_verdict t \<and> tkt_approver t0 = tkt_approver t")
      case True
      then show ?thesis
        using history_step.IH [OF t0(1)] t0(2) by (fastforce simp: decided_as_def ticket_evolves_def)
    next
      case changed: False
      show ?thesis
      proof (cases op)
        case (OpMint now u call h)
        with mint_old [OF v, of c i call u now h t] history_step(3) history_step.prems False t0(1) changed
        show ?thesis by auto
      next
        case (OpRedeem now now' c0 i0 call h)
        with redeem_lookup [of now now' c0 i0 call h s c i] history_step(3) history_step.prems t0(1) changed
          redeem_ticket_frame [of now now' call h t0]
        show ?thesis by (cases "redeem_ticket now now' call h t0") (auto split: if_splits)
      next
        case (OpDecide now now' c0 i0 vd ap)
        have ci: "c0 = c" "i0 = i" and t: "t = snd (decide_ticket now now' vd ap t0)"
          and out: "out = OutDecide (fst (decide_ticket now now' vd ap t0))"
          using decide_lookup [of now now' c0 i0 vd ap s c i] decide_outcome [of now now' c0 i0 vd ap s]
            OpDecide history_step(3) history_step.prems t0(1) changed
          by (auto split: if_splits)
        have "tkt_verdict t0 = None \<and> now < tkt_expires_at t0 \<and>
            decide_ticket now now' vd ap t0 = (Recorded t, t) \<and> tkt_verdict t = Some vd \<and> tkt_approver t = Some ap
            \<and> tkt_expires_at t = tkt_expires_at t0"
          using changed t by (auto simp: ticket_op_defs Let_def split: if_splits)
        with out OpDecide ci show ?thesis by (auto simp: decided_as_def)
      qed
    qed
    from minted decided show ?thesis ..
  qed
qed

text \<open>The store forgets a ticket, but never what a remembered one was.\<close>

lemma remembered_ticket:
  "history step init tr s \<Longrightarrow> lookup s c i = Some t \<Longrightarrow>
     (\<forall>v. Bex (set tr) (recorded_event c i v) \<longrightarrow> tkt_verdict t = Some v) \<and>
     (tkt_spent_at t \<noteq> None \<longrightarrow> Bex (set tr) (redeemed_event c i))"
proof (induction arbitrary: t rule: history.induct)
  case history_init
  then show ?case by (simp add: init_lookup)
next
  case (history_step tr s op out s')
  note v = history_valid [OF history_step(1)]
  show ?case
  proof (cases "mints i op")
    case True
    then obtain now call h where op: "op = OpMint now i call h" by (cases op) auto
    have nothing: "\<not> Bex (set tr) (recorded_event c i vd)" for vd
    proof
      assume "Bex (set tr) (recorded_event c i vd)"
      then have ne: "filter (recorded_event c i vd) tr \<noteq> []" by (auto simp: filter_empty_conv)
      have "\<exists>(op, out) \<in> set tr. mints i op"
        using recorded_marks [OF history_step(1), of c i vd] ne by blast
      with history_step(2) True show False by (auto simp: fresh_op_def)
    qed
    moreover have "lookup s c i = None"
      using redeemed_marks [OF history_step(1), of c i] history_step(2) True
      by (fastforce simp: fresh_op_def)
    moreover from this have "t = new_ticket now i call h" "rc_channel call = c"
      using mint_result [OF v, of now i call h out s'] mint_old [OF v, of c i call i now h t]
        history_step(3) history_step.prems op
      by (cases "rc_channel call = c", auto)+
    ultimately show ?thesis by (simp add: op new_ticket_def)
  next
    case False
    obtain t0 where t0: "lookup s c i = Some t0" "ticket_evolves t0 t"
      using step_evolves [OF v history_step(3) False history_step.prems] by blast
    have "tkt_verdict t = Some vd" if "recorded_event c i vd (op, out)" for vd
      using recorded_step [OF history_step(3) that] history_step.prems
      by (auto simp: decide_ticket_records)
    moreover have "redeemed_event c i (op, out)" if "tkt_spent_at t0 = None" "tkt_spent_at t \<noteq> None"
    proof (cases op)
      case (OpRedeem now now' c0 i0 call h)
      with redeem_lookup [of now now' c0 i0 call h s c i] redeem_outcome [of now now' c0 i0 call h s]
        history_step(3) history_step.prems t0(1) that redeem_ticket_frame [of now now' call h t0]
      show ?thesis by (cases "redeem_ticket now now' call h t0") (auto split: if_splits)
    next
      case (OpDecide now now' c0 i0 vd ap)
      with decide_lookup [of now now' c0 i0 vd ap s c i] history_step(3) history_step.prems t0(1) that
        decide_ticket_frame [of now now' vd ap t0]
      show ?thesis by (cases "decide_ticket now now' vd ap t0") (auto split: if_splits)
    next
      case (OpMint now u call h)
      with False mint_old [OF v, of c i call u now h t] history_step(3) history_step.prems t0(1) that
      show ?thesis by auto
    qed
    ultimately show ?thesis
      using history_step.IH [OF t0(1)] t0(2) by (fastforce simp: ticket_evolves_def)
  qed
qed

end

subsection \<open>The code's maps meet the contract\<close>

definition store_wf :: "approval_store \<Rightarrow> bool" where
  "store_wf store \<longleftrightarrow>
     js_all (\<lambda>c tickets. js_map_wf tickets \<and> length tickets \<le> max_tickets_per_channel) store"

lemma delete_oldest: "js_map_wf (e # rest) \<Longrightarrow> js_delete (fst e) (e # rest) = rest"
proof (cases e)
  case (Pair k v)
  assume "js_map_wf (e # rest)"
  with Pair have "k \<notin> fst ` set rest" by (simp add: js_map_wf_def)
  with Pair show ?thesis by (simp add: delete_id)
qed

lemma evict_drop: "js_map_wf tickets \<Longrightarrow> evict tickets = drop (length tickets - 63) tickets"
proof (induction tickets rule: evict.induct)
  case (1 tickets)
  show ?case
  proof (cases "max_tickets_per_channel \<le> length tickets \<and> tickets \<noteq> []")
    case True
    then obtain e rest where t: "tickets = e # rest" by (cases tickets) auto
    with 1 True delete_oldest [of e rest] have "evict tickets = drop (length rest - 63) rest"
      by (subst evict.simps) (simp add: js_map_wf_def del: delete_simps)
    moreover have "length tickets - 63 = Suc (length rest - 63)"
      using True t by (auto simp: max_tickets_per_channel_def)
    ultimately show ?thesis by (simp add: t)
  qed (subst evict.simps, auto simp: max_tickets_per_channel_def)
qed

lemma store_tickets_wf:
  "store_wf store \<Longrightarrow> js_get store c = Some tickets \<Longrightarrow>
     js_map_wf tickets \<and> length tickets \<le> max_tickets_per_channel"
  unfolding store_wf_def by (drule (1) js_all_get)

definition channel_tickets :: "approval_store \<Rightarrow> string \<Rightarrow> (string, ticket) jsmap" where
  "channel_tickets store c = (case js_get store c of None \<Rightarrow> [] | Some tickets \<Rightarrow> tickets)"

lemma channel_tickets_wf:
  "store_wf store \<Longrightarrow> js_map_wf (channel_tickets store c) \<and> length (channel_tickets store c) \<le> 64"
  by (cases "js_get store c")
    (auto simp: channel_tickets_def max_tickets_per_channel_def dest: store_tickets_wf)

lemma find_ticket_channel: "find_ticket store c i = js_get (channel_tickets store c) i"
  by (cases "js_get store c") (simp_all add: find_ticket_def channel_tickets_def)

text \<open>The tickets of the minting channel that pruning and the cap leave.\<close>

definition kept_tickets :: "nat \<Rightarrow> (string, ticket) jsmap \<Rightarrow> (string, ticket) jsmap" where
  "kept_tickets now tickets =
     (let young = filter (\<lambda>(i, held). \<not> tkt_expires_at held + ticket_retention_ms \<le> now) tickets
      in drop (length young - 63) young)"

lemma kept_tickets_wf:
  "js_map_wf tickets \<Longrightarrow> js_map_wf (kept_tickets now tickets) \<and> length (kept_tickets now tickets) \<le> 63"
  by (simp add: kept_tickets_def Let_def)

lemma kept_tickets_get:
  "js_map_wf tickets \<Longrightarrow> js_get (kept_tickets now tickets) i = Some t \<Longrightarrow> js_get tickets i = Some t"
  by (auto simp: kept_tickets_def Let_def dest!: js_get_dropD [rotated] js_get_filterD [rotated])

lemma mint_eq:
  assumes "store_wf store"
  shows "mint now uuid call h store = (new_ticket now uuid call h,
    js_set (rc_channel call)
      (js_set uuid (new_ticket now uuid call h) (kept_tickets now (channel_tickets store (rc_channel call)))) store)"
  using channel_tickets_wf [OF assms, of "rc_channel call"]
  by (simp add: mint_def Let_def channel_tickets_def [symmetric] kept_tickets_def evict_drop)

lemma channel_tickets_mint [simp]:
  assumes "store_wf store"
  shows "channel_tickets (snd (mint now uuid call h store)) c =
    (if c = rc_channel call
     then js_set uuid (new_ticket now uuid call h) (kept_tickets now (channel_tickets store c))
     else channel_tickets store c)"
  by (simp add: mint_eq [OF assms]) (simp add: channel_tickets_def)

lemma channel_tickets_put:
  "channel_tickets (put_ticket c i t store) c' =
     (if c' = c \<and> js_get store c \<noteq> None then js_set i t (channel_tickets store c) else channel_tickets store c')"
  by (auto simp: put_ticket_def channel_tickets_def split: option.splits)

lemma store_wf_mint [inv_preserved]: "store_wf store \<Longrightarrow> store_wf (snd (mint now uuid call h store))"
proof -
  assume wf: "store_wf store"
  let ?k = "kept_tickets now (channel_tickets store (rc_channel call))"
  have "js_map_wf ?k \<and> length ?k \<le> 63"
    using kept_tickets_wf channel_tickets_wf [OF wf] by blast
  then have "js_map_wf (js_set uuid (new_ticket now uuid call h) ?k) \<and>
      length (js_set uuid (new_ticket now uuid call h) ?k) \<le> max_tickets_per_channel"
    by (auto simp: length_js_set max_tickets_per_channel_def)
  with wf show ?thesis by (simp add: mint_eq [OF wf]) (simp add: store_wf_def js_all_set)
qed

lemma store_wf_put [inv_preserved]:
  "store_wf store \<Longrightarrow> find_ticket store c i = Some t0 \<Longrightarrow> store_wf (put_ticket c i t store)"
  by (auto simp: put_ticket_def find_ticket_def store_wf_def length_js_set_old
      dest: store_tickets_wf [unfolded store_wf_def] intro!: js_all_set split: option.splits)

lemma find_ticket_put:
  "find_ticket store c i = Some t0 \<Longrightarrow>
     find_ticket (put_ticket c i t store) c' i' = (if (c', i') = (c, i) then Some t else find_ticket store c' i')"
  by (auto simp: find_ticket_def put_ticket_def split: option.splits)

lemma store_wf_step [inv_preserved]: "store_wf store \<Longrightarrow> store_wf (snd (approval_step op store))"
  by (cases op) (auto simp: redeem_def record_verdict_def inv_preserved split: option.splits prod.splits)

interpretation tickets: ticket_store approval_step find_ticket store_wf "[]"
proof unfold_locales
  show "store_wf []" by (simp add: store_wf_def)
next
  fix c i :: string
  show "find_ticket [] c i = None" by (simp add: find_ticket_def)
next
  fix s :: approval_store and op
  show "store_wf s \<Longrightarrow> store_wf (snd (approval_step op s))" by (rule store_wf_step)
next
  fix s :: approval_store and now u call h
  show "fst (approval_step (OpMint now u call h) s) = OutMint (new_ticket now u call h)"
    by (simp add: mint_def Let_def)
  show "store_wf s \<Longrightarrow> find_ticket (snd (approval_step (OpMint now u call h) s)) (rc_channel call) u =
      Some (new_ticket now u call h)"
    by (simp add: find_ticket_channel)
  fix c i t
  assume "store_wf s" "(c, i) \<noteq> (rc_channel call, u)"
    "find_ticket (snd (approval_step (OpMint now u call h) s)) c i = Some t"
  then show "find_ticket s c i = Some t"
    by (auto simp: find_ticket_channel channel_tickets_wf dest: kept_tickets_get [rotated] split: if_splits)
next
  fix s :: approval_store and now now' c i call h c' i'
  show "fst (approval_step (OpRedeem now now' c i call h) s) = OutRedeem
      (case find_ticket s c i of None \<Rightarrow> RedeemUnknown | Some t \<Rightarrow> fst (redeem_ticket now now' call h t))"
    by (simp add: redeem_def split: option.splits prod.splits)
  show "find_ticket (snd (approval_step (OpRedeem now now' c i call h) s)) c' i' =
      (if (c', i') = (c, i) then map_option (\<lambda>t. snd (redeem_ticket now now' call h t)) (find_ticket s c i)
       else find_ticket s c' i')"
    by (auto simp: redeem_def find_ticket_put split: option.splits prod.splits)
next
  fix s :: approval_store and now now' c i v ap c' i'
  show "fst (approval_step (OpDecide now now' c i v ap) s) = OutDecide
      (case find_ticket s c i of None \<Rightarrow> DecideUnknown | Some t \<Rightarrow> fst (decide_ticket now now' v ap t))"
    by (simp add: record_verdict_def split: option.splits prod.splits)
  show "find_ticket (snd (approval_step (OpDecide now now' c i v ap) s)) c' i' =
      (if (c', i') = (c, i) then map_option (\<lambda>t. snd (decide_ticket now now' v ap t)) (find_ticket s c i)
       else find_ticket s c' i')"
    by (auto simp: record_verdict_def find_ticket_put split: option.splits prod.splits)
qed

subsection \<open>What the store guarantees\<close>

definition demo_call :: "string \<Rightarrow> string \<Rightarrow> string \<Rightarrow> resolved_call" where
  "demo_call channel server tool = \<lparr>tc_id = ''call-1'', tc_server = server, tc_tool = tool,
     tc_arguments = JObj [], tc_requesting_user = ''ana'', tc_task = ''t1'', tc_thread = None,
     rc_channel = channel\<rparr>"

text \<open>A call held, approved and redeemed.\<close>

definition demo_ticket :: ticket where
  "demo_ticket = new_ticket 10 ''k1'' (demo_call ''ops'' ''gh'' ''delete'') ''h''"

definition demo_approved :: ticket where
  "demo_approved = demo_ticket
     \<lparr>tkt_verdict := Some Approve, tkt_approver := Some ''bob'', tkt_decided_at := Some 21\<rparr>"

definition demo_spent :: ticket where
  "demo_spent = demo_approved\<lparr>tkt_spent_at := Some 31\<rparr>"

definition demo_store :: "ticket \<Rightarrow> approval_store" where
  "demo_store t = [(''ops'', [(''k1'', t)])]"

abbreviation demo_minted where
  "demo_minted \<equiv> (OpMint 10 ''k1'' (demo_call ''ops'' ''gh'' ''delete'') ''h'', OutMint demo_ticket)"

abbreviation demo_decided where
  "demo_decided \<equiv> (OpDecide 20 21 ''ops'' ''k1'' Approve ''bob'', OutDecide (Recorded demo_approved))"

abbreviation demo_redeemed where
  "demo_redeemed \<equiv> (OpRedeem 30 31 ''ops'' ''k1'' (demo_call ''ops'' ''gh'' ''delete'') ''h'',
     OutRedeem (Redeemed demo_spent))"

lemmas demo_ticket_defs = demo_store_def demo_spent_def demo_approved_def demo_ticket_def
  new_ticket_def demo_call_def find_ticket_def put_ticket_def ticket_op_defs approval_ttl_ms_def

lemma demo_history1: "history approval_step [] [demo_minted] (demo_store demo_ticket)"
proof -
  have "approval_step (OpMint 10 ''k1'' (demo_call ''ops'' ''gh'' ''delete'') ''h'') []
      = (OutMint demo_ticket, demo_store demo_ticket)"
    by (simp add: mint_def Let_def demo_ticket_def demo_store_def evict.simps max_tickets_per_channel_def
        demo_call_def)
  from history_step [OF history_init [of approval_step "[]"] _ this] show ?thesis by (simp add: fresh_op_def)
qed

lemma demo_history2: "history approval_step [] [demo_minted, demo_decided] (demo_store demo_approved)"
proof -
  have "approval_step (OpDecide 20 21 ''ops'' ''k1'' Approve ''bob'') (demo_store demo_ticket)
      = (OutDecide (Recorded demo_approved), demo_store demo_approved)"
    by (simp add: record_verdict_def Let_def demo_ticket_defs)
  from history_step [OF demo_history1 _ this] show ?thesis by (simp add: fresh_op_def)
qed

lemma demo_history3:
  "history approval_step [] [demo_minted, demo_decided, demo_redeemed] (demo_store demo_spent)"
proof -
  have "approval_step (OpRedeem 30 31 ''ops'' ''k1'' (demo_call ''ops'' ''gh'' ''delete'') ''h'') (demo_store demo_approved)
      = (OutRedeem (Redeemed demo_spent), demo_store demo_spent)"
    by (simp add: redeem_def Let_def demo_ticket_defs)
  from history_step [OF demo_history2 _ this] show ?thesis by (simp add: fresh_op_def)
qed

lemma redemption_backed:
  assumes "history approval_step [] before s0"
    and "approval_step (OpRedeem now now' c i call h) s0 = (OutRedeem (Redeemed t), s1)"
  shows "\<exists>born held out. (OpMint born i held h, out) \<in> set before \<and> rc_channel held = c \<and>
      tc_server held = tc_server call \<and> tc_tool held = tc_tool call \<and> now < born + approval_ttl_ms \<and>
      (\<exists>d d' approver r. (OpDecide d d' c i Approve approver, OutDecide (Recorded r)) \<in> set before \<and>
         d < born + approval_ttl_ms \<and> tkt_approver t = Some approver)"
proof -
  have "redeemed_event c i (OpRedeem now now' c i call h, OutRedeem (Redeemed t))" by simp
  from tickets.redeemed_step [OF assms(2) this] obtain t0 where
      t0: "find_ticket s0 c i = Some t0" "redeem_ticket now now' call h t0 = (Redeemed t, t)" by auto
  from tickets.stored_ticket [OF assms(1) t0(1)] t0(2) show ?thesis
    unfolding minted_as_def decided_as_def redeem_ticket_spends by fastforce
qed

text \<open>
  A redemption is always backed by a human's approval of that very call: in every history of the
  store, an \<open>OpRedeem\<close> that answers \<open>Redeemed\<close> was preceded by a mint in the same channel for the same
  server, tool and argument hash, and by a recorded approval of that ticket, both the approval and
  the redemption came before the ticket's expiry, and the approver handed back is the one recorded.
\<close>

theorem redemption_justified:
  assumes "history approval_step []
      (before @ (OpRedeem now now' c i call h, OutRedeem (Redeemed t)) # after) store"
  shows "\<exists>born held out. (OpMint born i held h, out) \<in> set before \<and> rc_channel held = c \<and>
      tc_server held = tc_server call \<and> tc_tool held = tc_tool call \<and> now < born + approval_ttl_ms \<and>
      (\<exists>d d' approver r. (OpDecide d d' c i Approve approver, OutDecide (Recorded r)) \<in> set before \<and>
         d < born + approval_ttl_ms \<and> tkt_approver t = Some approver)"
proof -
  obtain s0 s1 where "history approval_step [] before s0"
    "approval_step (OpRedeem now now' c i call h) s0 = (OutRedeem (Redeemed t), s1)"
    using history_split [OF assms] by blast
  then show ?thesis by (rule redemption_backed)
qed

theorem redemption_justified_witness:
  "\<exists>d d' approver r. (OpDecide d d' ''ops'' ''k1'' Approve approver, OutDecide (Recorded r))
     \<in> set [demo_minted, demo_decided] \<and> tkt_approver demo_spent = Some approver"
proof -
  have "history approval_step [] ([demo_minted, demo_decided] @ demo_redeemed # []) (demo_store demo_spent)"
    using demo_history3 by simp
  from redemption_justified [OF this] show ?thesis by blast
qed

text \<open>
  Whatever is asked of the store and in whatever order, a ticket is redeemed at most once, gets at
  most one recorded verdict, and has its expiry reported as first observed at most once.
\<close>

theorem ticket_events_once:
  assumes "history approval_step [] tr store"
  shows "length (filter (redeemed_event c i) tr) \<le> 1
    \<and> length (filter (\<lambda>e. recorded_event c i Approve e \<or> recorded_event c i Deny e) tr) \<le> 1
    \<and> length (filter (expiry_event c i) tr) \<le> 1"
  using tickets.redeemed_once [OF assms] tickets.decided_once [OF assms] tickets.expired_once [OF assms]
  by blast

theorem ticket_events_once_witness:
  "length (filter (redeemed_event ''ops'' ''k1'') [demo_minted, demo_decided, demo_redeemed]) \<le> 1"
  using ticket_events_once [OF demo_history3] by blast

fun op_channel :: "approval_op \<Rightarrow> string" where
  "op_channel (OpMint _ _ call _) = rc_channel call"
| "op_channel (OpRedeem _ _ c _ _ _) = c"
| "op_channel (OpDecide _ _ c _ _ _) = c"

lemma step_frame [frame_facts]:
  "store_wf store \<Longrightarrow> c \<noteq> op_channel op \<Longrightarrow>
     channel_tickets (snd (approval_step op store)) c = channel_tickets store c"
  by (cases op) (auto simp: redeem_def record_verdict_def channel_tickets_put split: option.splits prod.splits)

lemma step_local:
  "channel_tickets a (op_channel op) = channel_tickets b (op_channel op) \<Longrightarrow>
     fst (approval_step op a) = fst (approval_step op b)"
  by (cases op)
    (auto simp: mint_def Let_def redeem_def record_verdict_def find_ticket_channel split: option.splits prod.splits)

text \<open>
  No channel ever holds more than 64 tickets; an operation on one channel leaves every other
  channel's tickets alone; and what an operation answers depends on its own channel's tickets only,
  so a ticket of another channel and a ticket that never existed get the same answer.
\<close>

theorem store_bounded_and_isolated:
  assumes "history approval_step [] tr store"
  shows "length (channel_tickets store c) \<le> max_tickets_per_channel
    \<and> (c \<noteq> op_channel op \<longrightarrow> channel_tickets (snd (approval_step op store)) c = channel_tickets store c)
    \<and> (\<forall>other. channel_tickets other (op_channel op) = channel_tickets store (op_channel op) \<longrightarrow>
         fst (approval_step op other) = fst (approval_step op store))"
proof -
  have wf: "store_wf store" using assms by (rule tickets.history_valid)
  have "length (channel_tickets store c) \<le> max_tickets_per_channel"
    using channel_tickets_wf [OF wf, of c] by (simp add: max_tickets_per_channel_def)
  with step_frame [OF wf, of c op] step_local [of _ op store] show ?thesis by blast
qed

theorem store_bounded_and_isolated_witness:
  "fst (approval_step (OpRedeem 30 31 ''hr'' ''k1'' (demo_call ''hr'' ''gh'' ''delete'') ''h'') [])
     = fst (approval_step (OpRedeem 30 31 ''hr'' ''k1'' (demo_call ''hr'' ''gh'' ''delete'') ''h'')
         (demo_store demo_approved))"
proof -
  let ?op = "OpRedeem 30 31 ''hr'' ''k1'' (demo_call ''hr'' ''gh'' ''delete'') ''h''"
  have "channel_tickets [] (op_channel ?op) = channel_tickets (demo_store demo_approved) (op_channel ?op)"
    by (simp add: channel_tickets_def demo_store_def)
  with store_bounded_and_isolated [OF demo_history2, of "''ops''" ?op] show ?thesis by blast
qed

text \<open>Where a ticket stands in its channel's map: at most \<open>n\<close> younger tickets after it.\<close>

definition younger_at_most :: "nat \<Rightarrow> string \<Rightarrow> (string, ticket) jsmap \<Rightarrow> bool" where
  "younger_at_most n i tickets \<longleftrightarrow> (\<exists>pre suf. map fst tickets = pre @ i # suf \<and> length suf \<le> n)"

lemma younger_set: "younger_at_most n i tickets \<Longrightarrow> younger_at_most (Suc n) i (js_set u t tickets)"
  unfolding younger_at_most_def update_keys
  by (cases "u \<in> set (map fst tickets)") fastforce+

lemma younger_put: "js_get tickets u \<noteq> None \<Longrightarrow> younger_at_most n i tickets \<Longrightarrow> younger_at_most n i (js_set u t tickets)"
  by (auto simp: younger_at_most_def update_keys map_of_eq_None_iff)

lemma younger_get: "younger_at_most n i tickets \<Longrightarrow> js_get tickets i \<noteq> None"
proof -
  assume "younger_at_most n i tickets"
  then have "i \<in> set (map fst tickets)" by (auto simp: younger_at_most_def simp del: set_map)
  then show ?thesis by (auto simp: map_of_eq_None_iff)
qed

lemma younger_kept:
  assumes "younger_at_most n i tickets" "js_map_wf tickets" "js_get tickets i = Some t"
    and "now < tkt_expires_at t + ticket_retention_ms" "n \<le> 62"
  shows "younger_at_most n i (kept_tickets now tickets)"
proof -
  let ?P = "\<lambda>(i, held). \<not> tkt_expires_at held + ticket_retention_ms \<le> now"
  obtain pre suf where k: "map fst tickets = pre @ i # suf" "length suf \<le> n"
    using assms(1) by (auto simp: younger_at_most_def)
  obtain a e b where t: "tickets = a @ e # b" "map fst a = pre" "fst e = i" "map fst b = suf"
    using k(1) by (auto simp: map_eq_append_conv map_eq_Cons_conv)
  have "js_get tickets i = Some (snd e)"
    using assms(2) t js_get_in_set [of tickets i "snd e"] by (cases e) auto
  with assms(3,4) t(3) have "?P e" by (cases e) auto
  then have y: "filter ?P tickets = filter ?P a @ e # filter ?P b" by (simp add: t(1))
  have b: "length (filter ?P b) \<le> n"
    using k(2) t(4) length_filter_le [of ?P b] by (metis length_map order_trans)
  let ?d = "length (filter ?P a @ e # filter ?P b) - 63"
  have "?d \<le> length (filter ?P a)" using b assms(5) by simp
  then have "kept_tickets now tickets = drop ?d (filter ?P a) @ e # filter ?P b"
    by (simp add: kept_tickets_def Let_def y)
  then have "map fst (kept_tickets now tickets)
      = map fst (drop ?d (filter ?P a)) @ i # map fst (filter ?P b)" using t(3) by simp
  moreover have "length (map fst (filter ?P b)) \<le> n" using b by simp
  ultimately show ?thesis unfolding younger_at_most_def by blast
qed

fun channel_mint :: "string \<Rightarrow> approval_op \<times> approval_outcome \<Rightarrow> bool" where
  "channel_mint c (OpMint _ _ call _, out) \<longleftrightarrow> rc_channel call = c"
| "channel_mint c _ \<longleftrightarrow> False"

fun minted_before :: "string \<Rightarrow> nat \<Rightarrow> approval_op \<times> approval_outcome \<Rightarrow> bool" where
  "minted_before c limit (OpMint now _ call _, out) \<longleftrightarrow> (rc_channel call = c \<longrightarrow> now < limit)"
| "minted_before c limit _ \<longleftrightarrow> True"

lemma ticket_survives:
  assumes "history approval_step [] (before @ (OpMint born i held h, out) # after) store"
    and "length (filter (channel_mint (rc_channel held)) after) \<le> 63"
    and "list_all (minted_before (rc_channel held) (born + approval_ttl_ms + ticket_retention_ms)) after"
  shows "younger_at_most (length (filter (channel_mint (rc_channel held)) after)) i
      (channel_tickets store (rc_channel held)) \<and>
    (\<exists>t. find_ticket store (rc_channel held) i = Some t \<and> ticket_evolves (new_ticket born i held h) t)"
  using assms
proof (induction after arbitrary: store rule: rev_induct)
  case Nil
  then have "history approval_step [] (before @ [(OpMint born i held h, out)]) store" by simp
  from history_last [OF this] obtain s0 where s0: "history approval_step [] before s0"
    "approval_step (OpMint born i held h) s0 = (out, store)" by blast
  have wf: "store_wf s0" using s0(1) by (rule tickets.history_valid)
  have st: "store = snd (mint born i held h s0)" using s0(2) by (auto simp: apfst_def map_prod_def split: prod.splits)
  let ?k = "kept_tickets born (channel_tickets s0 (rc_channel held))"
  have "i \<notin> fst ` set (channel_tickets s0 (rc_channel held))"
  proof
    assume "i \<in> fst ` set (channel_tickets s0 (rc_channel held))"
    then have "find_ticket s0 (rc_channel held) i \<noteq> None"
      by (auto simp: find_ticket_channel map_of_eq_None_iff)
    with tickets.redeemed_marks [OF s0(1), of "rc_channel held" i]
    have "\<exists>(op, out) \<in> set before. mints i op" by blast
    with history_last [OF \<open>history approval_step [] (before @ [_]) store\<close>] show False
      by (auto simp: fresh_op_def)
  qed
  moreover have "set ?k \<subseteq> set (channel_tickets s0 (rc_channel held))"
    by (auto simp: kept_tickets_def Let_def dest: in_set_dropD)
  ultimately have "i \<notin> fst ` set ?k" by auto
  then have "younger_at_most 0 i (js_set i (new_ticket born i held h) ?k)"
    by (auto simp: younger_at_most_def js_set_fresh)
  then show ?case by (simp add: st wf find_ticket_channel)
next
  case (snoc e after)
  obtain op o' where e: "e = (op, o')" by (cases e)
  let ?c = "rc_channel held"
  let ?n = "length (filter (channel_mint ?c) after)"
  have "history approval_step [] ((before @ (OpMint born i held h, out) # after) @ [(op, o')]) store"
    using snoc.prems(1) e by simp
  from history_last [OF this] obtain s0 where
    s0: "history approval_step [] (before @ (OpMint born i held h, out) # after) s0"
      "fresh_op op (before @ (OpMint born i held h, out) # after)" "approval_step op s0 = (o', store)" by blast
  have wf: "store_wf s0" using s0(1) by (rule tickets.history_valid)
  have st: "store = snd (approval_step op s0)" using s0(3) by simp
  have "?n \<le> 63" "list_all (minted_before ?c (born + approval_ttl_ms + ticket_retention_ms)) after"
    using snoc.prems(2,3) by auto
  from snoc.IH [OF s0(1) this] obtain t where
    t: "younger_at_most ?n i (channel_tickets s0 ?c)" "find_ticket s0 ?c i = Some t"
      "ticket_evolves (new_ticket born i held h) t" by blast
  have young: "younger_at_most (length (filter (channel_mint ?c) (after @ [e]))) i (channel_tickets store ?c)"
  proof (cases "channel_mint ?c e")
    case True
    then obtain now u call h' where op: "op = OpMint now u call h'" "rc_channel call = ?c"
      using e by (cases op) auto
    have "?n \<le> 62" using snoc.prems(2) True by simp
    moreover have "now < tkt_expires_at t + ticket_retention_ms"
      using snoc.prems(3) e op t(3) by (simp add: ticket_evolves_def new_ticket_def)
    ultimately have "younger_at_most ?n i (kept_tickets now (channel_tickets s0 ?c))"
      using younger_kept [OF t(1)] channel_tickets_wf [OF wf] t(2) by (simp add: find_ticket_channel)
    from younger_set [OF this] True show ?thesis by (simp add: st op wf)
  next
    case False
    have "younger_at_most ?n i (channel_tickets store ?c)"
    proof (cases op)
      case (OpMint now u call h')
      with False e t(1) show ?thesis by (simp add: st wf)
    qed (use t(1) in \<open>auto simp: st redeem_def record_verdict_def channel_tickets_put find_ticket_channel
        intro: younger_put split: option.splits prod.splits\<close>)
    with False show ?thesis by simp
  qed
  then obtain t' where t': "find_ticket store ?c i = Some t'"
    using younger_get by (fastforce simp: find_ticket_channel)
  have "\<not> mints i op" using s0(2) by (auto simp: fresh_op_def)
  from tickets.step_evolves [OF wf s0(3) this t'] t(2) have "ticket_evolves t t'" by simp
  with t(3) have "ticket_evolves (new_ticket born i held h) t'" by (auto simp: ticket_evolves_def)
  with young t' show ?case by blast
qed

text \<open>
  An approval is not lost: when a held call was approved and has not been redeemed, at most 63
  later calls of its channel were held (none of them after the ticket's retention), and the ticket
  has not expired, re-submitting the call with the same server, tool and argument hash redeems it.
\<close>

theorem approved_call_redeems:
  assumes "history approval_step [] (before @ (OpMint born i held h, out) # after) store"
    and "length (filter (channel_mint (rc_channel held)) after) \<le> 63"
    and "list_all (minted_before (rc_channel held) (born + approval_ttl_ms + ticket_retention_ms)) after"
    and "Bex (set after) (recorded_event (rc_channel held) i Approve)"
    and "\<not> Bex (set (before @ (OpMint born i held h, out) # after)) (redeemed_event (rc_channel held) i)"
    and "tc_server call = tc_server held" and "tc_tool call = tc_tool held" and "now < born + approval_ttl_ms"
  shows "\<exists>t. fst (redeem now now' (rc_channel held) i call h store) = Redeemed t"
proof -
  obtain t where t: "find_ticket store (rc_channel held) i = Some t" "ticket_evolves (new_ticket born i held h) t"
    using ticket_survives [OF assms(1-3)] by blast
  have "tkt_verdict t = Some Approve" "tkt_spent_at t = None"
    using tickets.remembered_ticket [OF assms(1) t(1)] assms(4,5) by auto
  with t(2) assms(6-8) have "redeem_ticket now now' call h t
      = (Redeemed (t\<lparr>tkt_spent_at := Some now'\<rparr>), t\<lparr>tkt_spent_at := Some now'\<rparr>)"
    by (simp add: redeem_ticket_spends ticket_evolves_def new_ticket_def)
  then show ?thesis by (simp add: redeem_def t(1))
qed

theorem approved_call_redeems_witness:
  "\<exists>t. fst (redeem 30 31 ''ops'' ''k1'' (demo_call ''ops'' ''gh'' ''delete'') ''h'' (demo_store demo_approved)) = Redeemed t"
proof -
  have "history approval_step [] ([] @ demo_minted # [demo_decided]) (demo_store demo_approved)"
    using demo_history2 by simp
  from approved_call_redeems [OF this] show ?thesis by (simp add: demo_call_def approval_ttl_ms_def)
qed

end
