(* ===== verification/Budget.thy ===== *)
theory Budget
  imports Enforce_Policy "HOL-Library.Char_ord" "HOL-Library.List_Lexorder"
begin

text \<open>
  The daily budget: the SQLite store (\<open>packages/proxy/src/budget-db.ts\<close>) and the meter over it
  (\<open>budget-meter.ts\<close>). Each table is a map from its primary key; the statements are the code's,
  upserts and conflicts included. A day is its number since the epoch, which orders as the
  \<open>YYYY-MM-DD\<close> text does. An explicit transaction either runs its body or, when a statement throws,
  leaves the tables as they were.
\<close>

subsection \<open>Tables\<close>

record budget_db =
  channel_spend :: "(string \<times> nat, nat) jsmap"
  channel_token_spend :: "(string \<times> nat \<times> string, token_counts) jsmap"
  turn_report :: "(string \<times> string, nat \<times> nat) jsmap"
  budget_warnings :: "(string \<times> nat \<times> budget_limit, unit) jsmap"

definition empty_budget_db :: budget_db where
  "empty_budget_db = \<lparr>channel_spend = [], channel_token_spend = [], turn_report = [], budget_warnings = []\<rparr>"

definition no_spend :: budget_spend where
  "no_spend = \<lparr>sp_tool_calls = 0, sp_input = 0, sp_output = 0, sp_cache_read = 0, sp_cache_write = 0,
     sp_by_model = []\<rparr>"

definition day_ms :: nat where
  "day_ms = 24 * 60 * 60 * 1000"

definition utc_day :: "nat \<Rightarrow> nat" where
  "utc_day at_ms = at_ms div day_ms"

definition to_daily_spend :: "nat \<Rightarrow> model_spend list \<Rightarrow> budget_spend" where
  "to_daily_spend tool_calls by_model =
     \<lparr>sp_tool_calls = tool_calls,
      sp_input = fold (\<lambda>b sum. sum + tk_input (ms_tokens b)) by_model 0,
      sp_output = fold (\<lambda>b sum. sum + tk_output (ms_tokens b)) by_model 0,
      sp_cache_read = fold (\<lambda>b sum. sum + tk_cache_read (ms_tokens b)) by_model 0,
      sp_cache_write = fold (\<lambda>b sum. sum + tk_cache_write (ms_tokens b)) by_model 0,
      sp_by_model = by_model\<rparr>"

text \<open>\<open>SELECT \<dots> WHERE channel = ? AND day = ? ORDER BY model\<close>.\<close>

definition token_rows :: "budget_db \<Rightarrow> string \<Rightarrow> nat \<Rightarrow> model_spend list" where
  "token_rows db channel day =
     sort_key ms_model
       (List.map_filter (\<lambda>((c, d, m), t). if c = channel \<and> d = day
            then Some \<lparr>ms_model = m, ms_tokens = t\<rparr> else None) (channel_token_spend db))"

definition read_spend :: "budget_db \<Rightarrow> string \<Rightarrow> nat \<Rightarrow> budget_spend" where
  "read_spend db channel day =
     to_daily_spend (case js_get (channel_spend db) (channel, day) of None \<Rightarrow> 0 | Some n \<Rightarrow> n)
       (token_rows db channel day)"

definition add_tool_call :: "string \<Rightarrow> nat \<Rightarrow> budget_db \<Rightarrow> budget_db" where
  "add_tool_call channel day db = db\<lparr>channel_spend :=
     (case js_get (channel_spend db) (channel, day) of
        None \<Rightarrow> js_set (channel, day) 1 (channel_spend db)
      | Some n \<Rightarrow> js_set (channel, day) (n + 1) (channel_spend db))\<rparr>"

definition add_counts :: "token_counts \<Rightarrow> token_counts \<Rightarrow> token_counts" where
  "add_counts a b = \<lparr>tk_input = tk_input a + tk_input b, tk_output = tk_output a + tk_output b,
     tk_cache_read = tk_cache_read a + tk_cache_read b, tk_cache_write = tk_cache_write a + tk_cache_write b\<rparr>"

text \<open>The two statements of a token report; \<open>claim_turn\<close> gives the number of rows changed.\<close>

definition claim_turn :: "string \<Rightarrow> string \<Rightarrow> nat \<Rightarrow> nat \<Rightarrow> budget_db \<Rightarrow> nat \<times> budget_db" where
  "claim_turn channel turn day at_ms db =
     (case js_get (turn_report db) (channel, turn) of
        Some _ \<Rightarrow> (0, db)
      | None \<Rightarrow> (1, db\<lparr>turn_report := js_set (channel, turn) (day, at_ms) (turn_report db)\<rparr>))"

definition add_tokens :: "string \<Rightarrow> nat \<Rightarrow> string \<Rightarrow> token_counts \<Rightarrow> budget_db \<Rightarrow> budget_db" where
  "add_tokens channel day model usage db = db\<lparr>channel_token_spend :=
     (case js_get (channel_token_spend db) (channel, day, model) of
        None \<Rightarrow> js_set (channel, day, model) usage (channel_token_spend db)
      | Some t \<Rightarrow> js_set (channel, day, model) (add_counts t usage) (channel_token_spend db))\<rparr>"

text \<open>\<open>BEGIN IMMEDIATE \<dots> COMMIT\<close>, or \<open>ROLLBACK\<close> and rethrow (\<open>Inl\<close>) when a statement throws.\<close>

definition transact :: "bool \<Rightarrow> (budget_db \<Rightarrow> 'a \<times> budget_db) \<Rightarrow> budget_db \<Rightarrow> (unit + 'a) \<times> budget_db" where
  "transact throws body db = (if throws then (Inl (), db) else apfst Inr (body db))"

definition add_turn_tokens ::
    "bool \<Rightarrow> string \<Rightarrow> nat \<Rightarrow> string \<Rightarrow> nat \<Rightarrow> string \<Rightarrow> token_counts \<Rightarrow> budget_db \<Rightarrow> (unit + bool) \<times> budget_db"
where
  "add_turn_tokens throws channel day turn at_ms model usage =
     transact throws (\<lambda>db.
       let (changes, claimed) = claim_turn channel turn day at_ms db
       in if changes = 0 then (False, db) else (True, add_tokens channel day model usage claimed))"

definition claim_warning :: "string \<Rightarrow> nat \<Rightarrow> budget_limit \<Rightarrow> budget_db \<Rightarrow> bool \<times> budget_db" where
  "claim_warning channel day limit db =
     (case js_get (budget_warnings db) (channel, day, limit) of
        Some _ \<Rightarrow> (False, db)
      | None \<Rightarrow> (True, db\<lparr>budget_warnings := js_set (channel, day, limit) () (budget_warnings db)\<rparr>))"

definition clear_day :: "bool \<Rightarrow> string \<Rightarrow> nat \<Rightarrow> budget_db \<Rightarrow> (unit + unit) \<times> budget_db" where
  "clear_day throws channel day = transact throws (\<lambda>db. ((),
     \<lparr>channel_spend = filter (\<lambda>((c, d), n). \<not> (c = channel \<and> d = day)) (channel_spend db),
      channel_token_spend = filter (\<lambda>((c, d, m), t). \<not> (c = channel \<and> d = day)) (channel_token_spend db),
      turn_report = filter (\<lambda>((c, turn), (d, at_ms)). \<not> (c = channel \<and> d = day)) (turn_report db),
      budget_warnings = filter (\<lambda>((c, d, l), u). \<not> (c = channel \<and> d = day)) (budget_warnings db)\<rparr>))"

text \<open>\<open>UNION\<close> removes duplicates; \<open>ORDER BY day\<close>.\<close>

definition days_with_spend :: "budget_db \<Rightarrow> string \<Rightarrow> nat list" where
  "days_with_spend db channel =
     sort (remdups
       (List.map_filter (\<lambda>((c, d), n). if c = channel then Some d else None) (channel_spend db) @
        List.map_filter (\<lambda>((c, d, m), t). if c = channel then Some d else None) (channel_token_spend db)))"

definition prune_turn_reports_before :: "nat \<Rightarrow> budget_db \<Rightarrow> nat \<times> budget_db" where
  "prune_turn_reports_before at_ms db =
     (length (filter (\<lambda>(k, (d, a)). a < at_ms) (turn_report db)),
      db\<lparr>turn_report := filter (\<lambda>(k, (d, a)). \<not> a < at_ms) (turn_report db)\<rparr>)"

subsection \<open>The meter\<close>

definition turn_retention_ms :: nat where
  "turn_retention_ms = 48 * 60 * 60 * 1000"

record usage_report =
  ur_input_tokens :: nat
  ur_output_tokens :: nat
  ur_cache_creation_input_tokens :: nat
  ur_cache_read_input_tokens :: nat

record spend_meter =
  mtr_db :: budget_db
  mtr_last_pruned_day :: "nat option"

datatype report_outcome = ReportRecorded | ReportDuplicate

definition meter_read :: "nat \<Rightarrow> string \<Rightarrow> spend_meter \<Rightarrow> budget_spend" where
  "meter_read now channel m = read_spend (mtr_db m) channel (utc_day now)"

definition meter_record_tool_call :: "nat \<Rightarrow> string \<Rightarrow> spend_meter \<Rightarrow> spend_meter" where
  "meter_record_tool_call now channel m = m\<lparr>mtr_db := add_tool_call channel (utc_day now) (mtr_db m)\<rparr>"

definition meter_claim_warning :: "nat \<Rightarrow> string \<Rightarrow> budget_limit \<Rightarrow> spend_meter \<Rightarrow> bool \<times> spend_meter" where
  "meter_claim_warning now channel limit m =
     (let (won, db) = claim_warning channel (utc_day now) limit (mtr_db m) in (won, m\<lparr>mtr_db := db\<rparr>))"

definition meter_prune :: "nat \<Rightarrow> nat \<Rightarrow> spend_meter \<Rightarrow> spend_meter" where
  "meter_prune now' today m =
     (if mtr_last_pruned_day m = Some today then m
      else m\<lparr>mtr_last_pruned_day := Some today,
             mtr_db := snd (prune_turn_reports_before (now' - turn_retention_ms) (mtr_db m))\<rparr>)"

definition usage_counts :: "usage_report \<Rightarrow> token_counts" where
  "usage_counts u = \<lparr>tk_input = ur_input_tokens u, tk_output = ur_output_tokens u,
     tk_cache_read = ur_cache_read_input_tokens u, tk_cache_write = ur_cache_creation_input_tokens u\<rparr>"

definition meter_record_tokens ::
    "bool \<Rightarrow> nat \<Rightarrow> nat \<Rightarrow> string \<Rightarrow> string \<Rightarrow> usage_report \<Rightarrow> string option \<Rightarrow> spend_meter \<Rightarrow>
     (unit + report_outcome \<times> nat) \<times> spend_meter"
where
  "meter_record_tokens throws now now' channel turn usage model m =
     (let today = utc_day now;
          (result, db) = add_turn_tokens throws channel today turn now
            (case model of None \<Rightarrow> unreported_model | Some name \<Rightarrow> name) (usage_counts usage) (mtr_db m)
      in case result of
          Inl e \<Rightarrow> (Inl e, m\<lparr>mtr_db := db\<rparr>)
        | Inr recorded \<Rightarrow>
            (Inr (if recorded then ReportRecorded else ReportDuplicate, today),
             meter_prune now' today (m\<lparr>mtr_db := db\<rparr>)))"

subsection \<open>The file's version, and the one migration\<close>

text \<open>
  A file as it is found on disk. Version 1 kept four token columns on \<open>channel_spend\<close>
  (\<open>bf_carries_tokens\<close>); where the columns are absent the second component is not read.
\<close>

record budget_file =
  bf_version :: "nat option"
  bf_carries_tokens :: bool
  bf_channel_spend :: "(string \<times> nat, nat \<times> token_counts) jsmap"
  bf_token_spend :: "(string \<times> nat \<times> string, token_counts) jsmap"
  bf_turn_report :: "(string \<times> string, nat \<times> nat) jsmap"
  bf_warnings :: "(string \<times> nat \<times> budget_limit, unit) jsmap"

definition budget_schema_version :: nat where
  "budget_schema_version = 2"

definition legacy_rows :: "budget_file \<Rightarrow> (string \<times> nat \<times> string, token_counts) jsmap" where
  "legacy_rows f = List.map_filter (\<lambda>((c, d), (n, t)).
       if tk_input t + tk_output t + tk_cache_read t + tk_cache_write t > 0
       then Some ((c, d, legacy_model), t) else None) (bf_channel_spend f)"

text \<open>A plain \<open>INSERT\<close> throws on a key already there, and the transaction rolls back.\<close>

definition rebuild_budget_tables :: "budget_file \<Rightarrow> unit + budget_file" where
  "rebuild_budget_tables f =
     (let inserted = (if bf_carries_tokens f then legacy_rows f else [])
      in if list_ex (\<lambda>(k, t). js_get (bf_token_spend f) k \<noteq> None) inserted then Inl ()
         else Inr (f\<lparr>bf_version := Some budget_schema_version, bf_carries_tokens := False,
           bf_channel_spend := map (\<lambda>(k, (n, t)). (k, (n, \<lparr>tk_input = 0, tk_output = 0, tk_cache_read = 0,
              tk_cache_write = 0\<rparr>))) (bf_channel_spend f),
           bf_token_spend := bf_token_spend f @ inserted\<rparr>))"

definition migrate_budget :: "budget_file \<Rightarrow> unit + budget_file" where
  "migrate_budget f =
     (if bf_version f = Some budget_schema_version then Inr f
      else if bf_version f = None \<or> bf_version f = Some 1 then rebuild_budget_tables f
      else Inl ())"

definition opened_budget :: "budget_file \<Rightarrow> budget_db" where
  "opened_budget f = \<lparr>channel_spend = map (\<lambda>(k, (n, t)). (k, n)) (bf_channel_spend f),
     channel_token_spend = bf_token_spend f, turn_report = bf_turn_report f, budget_warnings = bf_warnings f\<rparr>"

subsection \<open>The ledger the tables implement\<close>

record ledger =
  lg_calls :: "string \<times> nat \<Rightarrow> nat"
  lg_tokens :: "string \<times> nat \<times> string \<Rightarrow> token_counts option"
  lg_turns :: "string \<times> string \<Rightarrow> (nat \<times> nat) option"
  lg_warned :: "(string \<times> nat \<times> budget_limit) set"

definition ledger_of :: "budget_db \<Rightarrow> ledger" where
  "ledger_of db =
     \<lparr>lg_calls = (\<lambda>k. case js_get (channel_spend db) k of None \<Rightarrow> 0 | Some n \<Rightarrow> n),
      lg_tokens = js_get (channel_token_spend db), lg_turns = js_get (turn_report db),
      lg_warned = dom (js_get (budget_warnings db))\<rparr>"

definition zero_counts :: token_counts where
  "zero_counts = \<lparr>tk_input = 0, tk_output = 0, tk_cache_read = 0, tk_cache_write = 0\<rparr>"

definition ledger_call :: "string \<Rightarrow> nat \<Rightarrow> ledger \<Rightarrow> ledger" where
  "ledger_call c d l = l\<lparr>lg_calls := (lg_calls l)((c, d) := Suc (lg_calls l (c, d)))\<rparr>"

definition ledger_report ::
    "string \<Rightarrow> nat \<Rightarrow> string \<Rightarrow> nat \<Rightarrow> string \<Rightarrow> token_counts \<Rightarrow> ledger \<Rightarrow> bool \<times> ledger" where
  "ledger_report c d turn at_ms model usage l =
     (if lg_turns l (c, turn) \<noteq> None then (False, l)
      else (True, l\<lparr>lg_turns := (lg_turns l)((c, turn) \<mapsto> (d, at_ms)),
        lg_tokens := (lg_tokens l)((c, d, model) \<mapsto>
          add_counts (case lg_tokens l (c, d, model) of None \<Rightarrow> zero_counts | Some t \<Rightarrow> t) usage)\<rparr>))"

definition ledger_warn :: "string \<Rightarrow> nat \<Rightarrow> budget_limit \<Rightarrow> ledger \<Rightarrow> bool \<times> ledger" where
  "ledger_warn c d limit l = ((c, d, limit) \<notin> lg_warned l, l\<lparr>lg_warned := insert (c, d, limit) (lg_warned l)\<rparr>)"

definition ledger_clear :: "string \<Rightarrow> nat \<Rightarrow> ledger \<Rightarrow> ledger" where
  "ledger_clear c d l =
     \<lparr>lg_calls = (lg_calls l)((c, d) := 0),
      lg_tokens = (\<lambda>(c', d', m). if (c', d') = (c, d) then None else lg_tokens l (c', d', m)),
      lg_turns = (\<lambda>(c', turn). case lg_turns l (c', turn) of None \<Rightarrow> None
         | Some (d', a) \<Rightarrow> if (c', d') = (c, d) then None else Some (d', a)),
      lg_warned = {(c', d', limit) \<in> lg_warned l. (c', d') \<noteq> (c, d)}\<rparr>"

definition ledger_prune :: "nat \<Rightarrow> ledger \<Rightarrow> ledger" where
  "ledger_prune at_ms l = l\<lparr>lg_turns := (\<lambda>k. case lg_turns l k of None \<Rightarrow> None
     | Some (d, a) \<Rightarrow> if a < at_ms then None else Some (d, a))\<rparr>"

definition budget_wf :: "budget_db \<Rightarrow> bool" where
  "budget_wf db \<longleftrightarrow> js_map_wf (channel_spend db) \<and> js_map_wf (channel_token_spend db) \<and>
     js_map_wf (turn_report db) \<and> js_map_wf (budget_warnings db)"

lemma budget_wf_ops [inv_preserved]:
  assumes "budget_wf db"
  shows "budget_wf (add_tool_call c d db)"
    and "budget_wf (snd (add_turn_tokens throws c d turn at_ms model usage db))"
    and "budget_wf (snd (claim_warning c d limit db))"
    and "budget_wf (snd (clear_day throws c d db))"
    and "budget_wf (snd (prune_turn_reports_before at_ms db))"
  using assms
  by (auto simp: budget_wf_def add_tool_call_def add_turn_tokens_def transact_def claim_turn_def add_tokens_def
      claim_warning_def clear_day_def prune_turn_reports_before_def Let_def apsnd_def split: option.splits)

lemma ledger_of_call [simp]: "ledger_of (add_tool_call c d db) = ledger_call c d (ledger_of db)"
  by (auto simp: ledger_of_def ledger_call_def add_tool_call_def split: option.splits)

lemma ledger_of_warn:
  "claim_warning c d limit db = (won, db') \<Longrightarrow> (won, ledger_of db') = ledger_warn c d limit (ledger_of db)"
  by (auto simp: ledger_of_def ledger_warn_def claim_warning_def split: option.splits)

lemma add_counts_zero [simp]: "add_counts zero_counts t = t"
  by (simp add: add_counts_def zero_counts_def)

lemma ledger_of_report:
  "add_turn_tokens throws c d turn at_ms model usage db = (r, db') \<Longrightarrow>
     (case r of Inl _ \<Rightarrow> throws \<and> db' = db
      | Inr recorded \<Rightarrow> (recorded, ledger_of db') = ledger_report c d turn at_ms model usage (ledger_of db))"
  by (auto simp: ledger_of_def ledger_report_def add_turn_tokens_def transact_def claim_turn_def add_tokens_def
      Let_def split: option.splits if_splits sum.splits)

lemma ledger_of_prune:
  "budget_wf db \<Longrightarrow> ledger_of (snd (prune_turn_reports_before at_ms db)) = ledger_prune at_ms (ledger_of db)"
  by (auto simp: ledger_of_def ledger_prune_def prune_turn_reports_before_def budget_wf_def js_get_filter
      split: option.splits)

lemma ledger_of_clear:
  assumes "budget_wf db"
  shows "clear_day False c d db = (r, db') \<Longrightarrow> ledger_of db' = ledger_clear c d (ledger_of db)"
  using assms
  by (auto simp: ledger_of_def ledger_clear_def clear_day_def transact_def budget_wf_def js_get_filter fun_eq_iff
      split: option.splits)

text \<open>
  The tables implement the ledger: counting a call, reporting a turn, claiming a warning, clearing a
  day and pruning turn reports each have on the ledger exactly the effect the abstract operation
  states and answer what it answers, and a statement that throws inside a transaction leaves every
  table as it was.
\<close>

theorem budget_refines_ledger:
  assumes "budget_wf db"
  shows "ledger_of (add_tool_call c d db) = ledger_call c d (ledger_of db)
    \<and> map_prod id ledger_of (add_turn_tokens False c d turn at_ms model usage db)
        = apfst Inr (ledger_report c d turn at_ms model usage (ledger_of db))
    \<and> map_prod id ledger_of (claim_warning c d limit db) = ledger_warn c d limit (ledger_of db)
    \<and> ledger_of (snd (clear_day False c d db)) = ledger_clear c d (ledger_of db)
    \<and> ledger_of (snd (prune_turn_reports_before at_ms db)) = ledger_prune at_ms (ledger_of db)
    \<and> snd (add_turn_tokens True c d turn at_ms model usage db) = db
    \<and> snd (clear_day True c d db) = db"
proof -
  have "map_prod id ledger_of (add_turn_tokens False c d turn at_ms model usage db)
      = apfst Inr (ledger_report c d turn at_ms model usage (ledger_of db))"
    using ledger_of_report [of False c d turn at_ms model usage db]
    by (cases "add_turn_tokens False c d turn at_ms model usage db")
      (auto simp: apfst_def map_prod_def split: sum.splits prod.splits)
  moreover have "map_prod id ledger_of (claim_warning c d limit db) = ledger_warn c d limit (ledger_of db)"
    using ledger_of_warn [of c d limit db] by (cases "claim_warning c d limit db") auto
  ultimately show ?thesis
    using ledger_of_prune [OF assms] ledger_of_clear [OF assms, of c d]
    by (cases "clear_day False c d db") (auto simp: add_turn_tokens_def clear_day_def transact_def)
qed

theorem budget_refines_ledger_witness:
  "ledger_of (add_tool_call ''ops'' 3 empty_budget_db) = ledger_call ''ops'' 3 (ledger_of empty_budget_db)"
  using budget_refines_ledger [of empty_budget_db "''ops''" 3]
  by (simp add: budget_wf_def empty_budget_db_def)

end
