(* ===== verification/Budget_Spend.thy ===== *)
theory Budget_Spend
  imports Budget
begin

text \<open>
  What the stored spend guarantees to the gate that reads it: a day's spend only grows, a turn is
  counted once however often it is reported, a warning is claimed once, and a gate that counts
  every call it admits admits no more than the sheet's cap. The gate's argument needs only the
  meter's laws, the locale \<open>spend_meter_laws\<close>.
\<close>

subsection \<open>The buckets of a day\<close>

abbreviation bucket_of :: "string \<Rightarrow> nat \<Rightarrow> (string \<times> nat \<times> string) \<times> token_counts \<Rightarrow> model_spend option" where
  "bucket_of c d \<equiv> \<lambda>((c', d', m), t). if c' = c \<and> d' = d then Some \<lparr>ms_model = m, ms_tokens = t\<rparr> else None"

definition day_buckets :: "budget_db \<Rightarrow> string \<Rightarrow> nat \<Rightarrow> model_spend list" where
  "day_buckets db c d = List.map_filter (bucket_of c d) (channel_token_spend db)"

lemma map_filter_append [simp]: "List.map_filter f (xs @ ys) = List.map_filter f xs @ List.map_filter f ys"
  by (simp add: List.map_filter_def)

lemma mset_token_rows: "mset (token_rows db c d) = mset (day_buckets db c d)"
  by (simp add: token_rows_def day_buckets_def)

lemma set_token_rows:
  "budget_wf db \<Longrightarrow> b \<in> set (token_rows db c d) \<longleftrightarrow>
     js_get (channel_token_spend db) (c, d, ms_model b) = Some (ms_tokens b)"
proof -
  assume wf: "budget_wf db"
  have "b \<in> set (token_rows db c d) \<longleftrightarrow> b \<in> set (day_buckets db c d)"
    by (metis mset_token_rows set_mset_mset)
  also have "\<dots> \<longleftrightarrow> ((c, d, ms_model b), ms_tokens b) \<in> set (channel_token_spend db)"
    by (cases b) (force simp: day_buckets_def List.map_filter_def split: if_splits)
  finally show ?thesis using wf js_get_in_set by (force simp: budget_wf_def)
qed

lemma distinct_buckets:
  "js_map_wf m \<Longrightarrow> distinct (map ms_model (List.map_filter (bucket_of c d) m))"
proof (induction m)
  case (Cons e m)
  obtain c' d' n t where e: "e = ((c', d', n), t)" by (cases e) auto
  from Cons have "js_map_wf m" "(c', d', n) \<notin> fst ` set m" by (simp_all add: js_map_wf_def e)
  with Cons.IH e show ?case by (force simp: List.map_filter_def split: if_splits)
qed (simp add: List.map_filter_def)

lemma distinct_token_rows: "budget_wf db \<Longrightarrow> distinct (map ms_model (token_rows db c d))"
proof -
  assume "budget_wf db"
  then have "distinct (map ms_model (day_buckets db c d))"
    unfolding day_buckets_def budget_wf_def by (intro distinct_buckets) simp
  then show ?thesis by (metis mset_token_rows mset_map mset_eq_imp_distinct_iff)
qed

subsection \<open>Growth\<close>

lemma bucket_le_refl [simp]: "bucket_le b b"
  by (simp add: bucket_le_def)

lemma bucket_le_all [simp]: "list_all2 bucket_le xs xs"
  by (simp add: list.rel_refl)

lemma bucket_le_add: "bucket_le \<lparr>ms_model = m, ms_tokens = t\<rparr> \<lparr>ms_model = m, ms_tokens = add_counts t u\<rparr>"
  by (simp add: bucket_le_def add_counts_def)

lemma buckets_grow:
  assumes "budget_wf db"
  shows "\<exists>old new. mset (day_buckets (add_tokens c d m u db) c' d') = mset (old @ new) \<and>
    list_all2 bucket_le (day_buckets db c' d') old"
proof (cases "js_get (channel_token_spend db) (c, d, m)")
  case None
  then have "(c, d, m) \<notin> fst ` set (channel_token_spend db)" by (simp add: map_of_eq_None_iff)
  then have "day_buckets (add_tokens c d m u db) c' d'
      = day_buckets db c' d' @ List.map_filter (bucket_of c' d') [((c, d, m), u)]"
    using None by (simp add: day_buckets_def add_tokens_def js_set_fresh)
  then show ?thesis by (intro exI conjI) (simp, simp)
next
  case (Some t)
  with assms obtain xs ys where s: "channel_token_spend db = xs @ ((c, d, m), t) # ys"
      "js_set (c, d, m) (add_counts t u) (channel_token_spend db) = xs @ ((c, d, m), add_counts t u) # ys"
    using js_set_split [of "channel_token_spend db" "(c, d, m)" t "add_counts t u"]
    by (auto simp: budget_wf_def)
  let ?new = "day_buckets (add_tokens c d m u db) c' d'"
  have "list_all2 bucket_le (day_buckets db c' d') ?new"
    using Some s by (auto simp: day_buckets_def add_tokens_def bucket_le_add List.map_filter_def
        intro!: list_all2_appendI list.rel_refl)
  then show ?thesis by (intro exI [of _ ?new] exI [of _ "[]"]) simp
qed

lemma fold_plus: "fold (\<lambda>b sum. sum + f b) xs (n::nat) = n + (\<Sum>b\<leftarrow>xs. f b)"
  by (induction xs arbitrary: n) auto

lemma sum_le_buckets:
  fixes f :: "model_spend \<Rightarrow> nat"
  assumes "mset ys = mset (old @ new)" "list_all2 bucket_le xs old" "\<And>a b. bucket_le a b \<Longrightarrow> f a \<le> f b"
  shows "(\<Sum>b\<leftarrow>xs. f b) \<le> (\<Sum>b\<leftarrow>ys. f b)"
proof -
  have "(\<Sum>b\<leftarrow>xs. f b) \<le> (\<Sum>b\<leftarrow>old. f b)"
    using assms(2,3) by (induction rule: list_all2_induct) (auto intro: add_mono)
  also have "\<dots> \<le> (\<Sum>b\<leftarrow>old @ new. f b)" by simp
  also have "\<dots> = (\<Sum>b\<leftarrow>ys. f b)" using assms(1) by (metis mset_map sum_mset_sum_list)
  finally show ?thesis .
qed

lemma to_daily_spend_le:
  assumes "n \<le> n'" "mset rows' = mset (old @ new)" "list_all2 bucket_le rows old"
  shows "spend_le (to_daily_spend n rows) (to_daily_spend n' rows')"
  using assms(1) sum_le_buckets [OF assms(2,3)] assms(2,3)
  unfolding spend_le_def to_daily_spend_def fold_plus by (auto simp: bucket_le_def)

lemma read_spend_le:
  assumes "budget_wf db"
    and "\<And>k. lg_calls (ledger_of db) k \<le> lg_calls (ledger_of db') k"
    and "db' = db'' \<or> channel_token_spend db' = channel_token_spend (add_tokens c d m u db'')"
    and "channel_token_spend db'' = channel_token_spend db"
  shows "spend_le (read_spend db c' d') (read_spend db' c' d')"
proof -
  have "\<exists>old new. mset (day_buckets db' c' d') = mset (old @ new) \<and> list_all2 bucket_le (day_buckets db c' d') old"
  proof (cases "db' = db''")
    case True
    then have "mset (day_buckets db' c' d') = mset (day_buckets db c' d' @ [])"
      using assms(4) by (simp add: day_buckets_def)
    then show ?thesis by (intro exI conjI) (assumption, simp)
  next
    case False
    then have "day_buckets db' c' d' = day_buckets (add_tokens c d m u db) c' d'"
      using assms(3,4) by (simp add: day_buckets_def add_tokens_def split: option.splits)
    with buckets_grow [OF assms(1)] show ?thesis by metis
  qed
  then obtain old new where
    o: "mset (day_buckets db' c' d') = mset (old @ new)" "list_all2 bucket_le (day_buckets db c' d') old" by blast
  obtain old' where "list_all2 bucket_le (token_rows db c' d') old'" "mset old' = mset old"
    using list_all2_reorder_left_invariance [OF o(2) mset_token_rows] by blast
  with o(1) have "mset (token_rows db' c' d') = mset (old' @ new)" "list_all2 bucket_le (token_rows db c' d') old'"
    by (simp_all add: mset_token_rows)
  then show ?thesis
    unfolding read_spend_def using assms(2) [of "(c', d')"]
    by (intro to_daily_spend_le) (auto simp: ledger_of_def)
qed

subsection \<open>The gate over any meter\<close>

text \<open>
  One channel's day at the gate: \<open>None\<close> is a call asking to be served, admitted and counted when no
  limit is reached and refused otherwise; \<open>Some op\<close> is any other use of the meter in between. The
  result is the list of answers.
\<close>

fun gate_run ::
    "('s \<Rightarrow> budget_spend) \<Rightarrow> ('s \<Rightarrow> 's) \<Rightarrow> ('op \<Rightarrow> 's \<Rightarrow> 's) \<Rightarrow> team_sheet \<Rightarrow> price_lookup \<Rightarrow>
     'op option list \<Rightarrow> 's \<Rightarrow> bool list"
where
  "gate_run rd cnt app sheet prices [] s = []"
| "gate_run rd cnt app sheet prices (None # es) s =
     (if exhausted_limit sheet (rd s) prices = None
      then True # gate_run rd cnt app sheet prices es (cnt s)
      else False # gate_run rd cnt app sheet prices es s)"
| "gate_run rd cnt app sheet prices (Some op # es) s = gate_run rd cnt app sheet prices es (app op s)"

locale spend_meter_laws =
  fixes rd :: "'s \<Rightarrow> budget_spend"
    and cnt :: "'s \<Rightarrow> 's"
    and app :: "'op \<Rightarrow> 's \<Rightarrow> 's"
    and valid :: "'s \<Rightarrow> bool"
    and keeps :: "'op \<Rightarrow> bool"
  assumes valid_cnt: "valid s \<Longrightarrow> valid (cnt s)"
    and valid_app: "valid s \<Longrightarrow> valid (app op s)"
    and cnt_calls: "sp_tool_calls (rd (cnt s)) = Suc (sp_tool_calls (rd s))"
    and app_le: "valid s \<Longrightarrow> keeps op \<Longrightarrow> spend_le (rd s) (rd (app op s))"
begin

lemma over_forever:
  "valid s \<Longrightarrow> budget_block_ok (sheet_budget sheet) \<Longrightarrow> \<forall>op. Some op \<in> set es \<longrightarrow> keeps op \<Longrightarrow>
     \<not> within_budget sheet (rd s) prices \<Longrightarrow> \<exists>m. gate_run rd cnt app sheet prices es s = replicate m False"
proof (induction es arbitrary: s)
  case Nil
  then show ?case by (intro exI [of _ 0]) simp
next
  case (Cons e es)
  show ?case
  proof (cases e)
    case None
    with Cons obtain m where "gate_run rd cnt app sheet prices es s = replicate m False" by fastforce
    with None Cons.prems(4) show ?thesis
      by (intro exI [of _ "Suc m"]) (simp add: exhausted_limit_None_iff)
  next
    case (Some op)
    with Cons.prems have "spend_le (rd s) (rd (app op s))" by (simp add: app_le)
    with Cons.prems have "\<not> within_budget sheet (rd (app op s)) prices"
      using within_budget_antimono by blast
    with Some Cons show ?thesis by (simp add: valid_app)
  qed
qed

lemma gate_prefix:
  "valid s \<Longrightarrow> budget_block_ok (sheet_budget sheet) \<Longrightarrow> \<forall>op. Some op \<in> set es \<longrightarrow> keeps op \<Longrightarrow>
     \<exists>k m. gate_run rd cnt app sheet prices es s = replicate k True @ replicate m False \<and>
       k \<le> daily_tool_calls (sheet_budget sheet) - sp_tool_calls (rd s)"
proof (induction es arbitrary: s)
  case Nil
  then show ?case by (intro exI [of _ 0]) simp
next
  case (Cons e es)
  show ?case
  proof (cases e)
    case (Some op)
    with Cons.prems have "spend_le (rd s) (rd (app op s))" by (simp add: app_le)
    then have le: "sp_tool_calls (rd s) \<le> sp_tool_calls (rd (app op s))" by (simp add: spend_le_def)
    from Some Cons.prems Cons.IH [of "app op s"] obtain k m where
      "gate_run rd cnt app sheet prices es (app op s) = replicate k True @ replicate m False"
      "k \<le> daily_tool_calls (sheet_budget sheet) - sp_tool_calls (rd (app op s))"
      by (auto simp: valid_app)
    with Some le show ?thesis by (intro exI [of _ k] exI [of _ m]) auto
  next
    case None
    show ?thesis
    proof (cases "within_budget sheet (rd s) prices")
      case True
      then have lt: "sp_tool_calls (rd s) < daily_tool_calls (sheet_budget sheet)"
        by (simp add: within_budget_def)
      from Cons.prems Cons.IH [of "cnt s"] obtain k m where
        "gate_run rd cnt app sheet prices es (cnt s) = replicate k True @ replicate m False"
        "k \<le> daily_tool_calls (sheet_budget sheet) - Suc (sp_tool_calls (rd s))"
        by (auto simp: valid_cnt cnt_calls)
      with None True lt show ?thesis
        by (intro exI [of _ "Suc k"] exI [of _ m]) (auto simp: exhausted_limit_None_iff)
    next
      case False
      with Cons.prems over_forever [of s sheet es prices] obtain m where
        "gate_run rd cnt app sheet prices es s = replicate m False" by auto
      with None False show ?thesis
        by (intro exI [of _ 0] exI [of _ "Suc m"]) (simp add: exhausted_limit_None_iff)
    qed
  qed
qed

end

subsection \<open>The SQLite store is such a meter\<close>

datatype budget_op =
    CountCall string nat
  | ReportTurn bool string nat string nat string token_counts
  | ClaimWarning string nat budget_limit
  | PruneTurns nat
  | ClearDay bool string nat

fun budget_apply :: "budget_op \<Rightarrow> budget_db \<Rightarrow> budget_db" where
  "budget_apply (CountCall c d) db = add_tool_call c d db"
| "budget_apply (ReportTurn throws c d turn at_ms model usage) db =
     snd (add_turn_tokens throws c d turn at_ms model usage db)"
| "budget_apply (ClaimWarning c d limit) db = snd (claim_warning c d limit db)"
| "budget_apply (PruneTurns at_ms) db = snd (prune_turn_reports_before at_ms db)"
| "budget_apply (ClearDay throws c d) db = snd (clear_day throws c d db)"

fun clears :: "string \<Rightarrow> nat \<Rightarrow> budget_op \<Rightarrow> bool" where
  "clears c d (ClearDay _ c' d') \<longleftrightarrow> c' = c \<and> d' = d"
| "clears c d _ \<longleftrightarrow> False"

lemma budget_wf_apply [inv_preserved]: "budget_wf db \<Longrightarrow> budget_wf (budget_apply op db)"
  by (cases op) (simp_all add: budget_wf_ops)

lemma token_rows_congr: "channel_token_spend a = channel_token_spend b \<Longrightarrow> token_rows a = token_rows b"
  by (intro ext) (simp add: token_rows_def)

lemma read_spend_congr:
  "channel_spend a = channel_spend b \<Longrightarrow> channel_token_spend a = channel_token_spend b \<Longrightarrow>
     read_spend a c d = read_spend b c d"
  using token_rows_congr [of a b] by (simp add: read_spend_def)

lemma spend_le_refl [simp]: "spend_le s s"
proof -
  have "mset (sp_by_model s) = mset (sp_by_model s @ []) \<and> list_all2 bucket_le (sp_by_model s) (sp_by_model s)"
    by simp
  then show ?thesis unfolding spend_le_def by blast
qed

lemma read_spend_clear:
  assumes "budget_wf db"
  shows "read_spend (snd (clear_day False c d db)) c' d'
    = (if (c', d') = (c, d) then no_spend else read_spend db c' d')"
proof -
  let ?db = "snd (clear_day False c d db)"
  have "filter (\<lambda>((c0, d0, m), t). \<not> (c0 = c \<and> d0 = d)) ts = ts'
      \<Longrightarrow> List.map_filter (bucket_of c' d') ts'
        = (if (c', d') = (c, d) then [] else List.map_filter (bucket_of c' d') ts)" for ts ts'
    by (induction ts arbitrary: ts') (auto simp: List.map_filter_def split: if_splits)
  then have "List.map_filter (bucket_of c' d') (channel_token_spend ?db)
      = (if (c', d') = (c, d) then [] else List.map_filter (bucket_of c' d') (channel_token_spend db))"
    by (simp add: clear_day_def transact_def)
  then have rows: "token_rows ?db c' d' = (if (c', d') = (c, d) then [] else token_rows db c' d')"
    by (simp add: token_rows_def)
  have "js_get (channel_spend ?db) (c', d')
      = (if (c', d') = (c, d) then None else js_get (channel_spend db) (c', d'))"
    using assms by (auto simp: clear_day_def transact_def budget_wf_def js_get_filter split: option.splits)
  with rows show ?thesis by (simp add: read_spend_def to_daily_spend_def no_spend_def)
qed

lemma read_spend_mono:
  assumes "budget_wf db" "\<not> clears c d op"
  shows "spend_le (read_spend db c d) (read_spend (budget_apply op db) c d)"
proof (cases op)
  case (CountCall c' d')
  have "lg_calls (ledger_of db) k \<le> lg_calls (ledger_of (add_tool_call c' d' db)) k" for k
    by (simp add: ledger_call_def)
  from read_spend_le [OF assms(1) this, where db'' = "add_tool_call c' d' db"]
  have "spend_le (read_spend db c d) (read_spend (add_tool_call c' d' db) c d)"
    by (simp add: add_tool_call_def)
  with CountCall show ?thesis by simp
next
  case (ReportTurn throws c' d' turn at_ms model usage)
  let ?db = "snd (add_turn_tokens throws c' d' turn at_ms model usage db)"
  have "?db = db \<or> channel_token_spend ?db = channel_token_spend (add_tokens c' d' model usage db)"
    by (auto simp: add_turn_tokens_def transact_def claim_turn_def add_tokens_def Let_def split: option.splits)
  moreover have "channel_spend ?db = channel_spend db"
    by (auto simp: add_turn_tokens_def transact_def claim_turn_def add_tokens_def Let_def split: option.splits)
  ultimately have "spend_le (read_spend db c d) (read_spend ?db c d)"
    by (intro read_spend_le [OF assms(1), where db'' = db]) (auto simp: ledger_of_def)
  with ReportTurn show ?thesis by simp
next
  case (ClaimWarning c' d' limit)
  have "read_spend (snd (claim_warning c' d' limit db)) c d = read_spend db c d"
    by (rule read_spend_congr) (auto simp: claim_warning_def split: option.splits)
  with ClaimWarning show ?thesis by simp
next
  case (PruneTurns at_ms)
  have "read_spend (snd (prune_turn_reports_before at_ms db)) c d = read_spend db c d"
    by (rule read_spend_congr) (auto simp: prune_turn_reports_before_def)
  with PruneTurns show ?thesis by simp
next
  case (ClearDay throws c' d')
  with assms(2) have "(c, d) \<noteq> (c', d')" by auto
  then have "read_spend (snd (clear_day throws c' d' db)) c d = read_spend db c d"
    using read_spend_clear [OF assms(1), of c' d' c d]
    by (cases throws) (auto simp: clear_day_def transact_def)
  with ClearDay show ?thesis by simp
qed

lemma read_spend_count:
  "sp_tool_calls (read_spend (add_tool_call c d db) c d) = Suc (sp_tool_calls (read_spend db c d))"
  by (auto simp: read_spend_def to_daily_spend_def add_tool_call_def split: option.splits)

interpretation sqlite_meter: spend_meter_laws "\<lambda>db. read_spend db c d" "add_tool_call c d" budget_apply
    budget_wf "\<lambda>op. \<not> clears c d op" for c d
  by unfold_locales (auto simp: inv_preserved read_spend_mono read_spend_count)

text \<open>
  A gate that counts every call it admits admits at most \<open>daily_tool_calls\<close> of them in a day,
  whatever token reports, warnings, prunes and other channels' operations come in between, and its
  answers are a run of admissions followed by refusals only: an exhausted budget does not reopen
  until an operator clears that channel's day.
\<close>

theorem daily_calls_bounded:
  assumes "budget_wf db" and "budget_block_ok (sheet_budget sheet)"
    and "\<forall>op. Some op \<in> set es \<longrightarrow> \<not> clears c d op"
  shows "\<exists>k m. gate_run (\<lambda>db. read_spend db c d) (add_tool_call c d) budget_apply sheet prices es db
       = replicate k True @ replicate m False \<and>
     k \<le> daily_tool_calls (sheet_budget sheet) - sp_tool_calls (read_spend db c d)"
  by (rule sqlite_meter.gate_prefix [OF assms])

lemma empty_budget_wf [simp]: "budget_wf empty_budget_db"
  by (simp add: budget_wf_def empty_budget_db_def)

theorem daily_calls_bounded_witness:
  "\<exists>k m. gate_run (\<lambda>db. read_spend db ''ops'' 1) (add_tool_call ''ops'' 1) budget_apply demo_sheet demo_prices
       [None, Some (CountCall ''hr'' 1), None] empty_budget_db = replicate k True @ replicate m False \<and> k \<le> 6"
proof -
  have "\<forall>op. Some op \<in> set [None, Some (CountCall ''hr'' 1), None] \<longrightarrow> \<not> clears ''ops'' 1 op" by simp
  from daily_calls_bounded [OF empty_budget_wf _ this, of demo_sheet demo_prices] demo_budget_ok
  obtain k m where km: "gate_run (\<lambda>db. read_spend db ''ops'' 1) (add_tool_call ''ops'' 1) budget_apply demo_sheet demo_prices
       [None, Some (CountCall ''hr'' 1), None] empty_budget_db = replicate k True @ replicate m False"
    "k \<le> daily_tool_calls demo_budget - sp_tool_calls (read_spend empty_budget_db ''ops'' 1)"
    by (auto simp del: gate_run.simps)
  then have "k \<le> 6" by (simp add: demo_budget_def)
  with km(1) show ?thesis by blast
qed

subsection \<open>The meter: one count per turn, one warning per limit and day\<close>

datatype meter_op =
    RecordTokens bool nat nat string string usage_report "string option"
  | RecordToolCall nat string
  | ClaimOnce nat string budget_limit

text \<open>The Boolean is whether the operation recorded, or won, anything.\<close>

fun meter_step :: "meter_op \<Rightarrow> spend_meter \<Rightarrow> bool \<times> spend_meter" where
  "meter_step (RecordTokens throws now now' c turn usage model) m =
     (case meter_record_tokens throws now now' c turn usage model m of
        (Inl _, m') \<Rightarrow> (False, m')
      | (Inr (outcome, day), m') \<Rightarrow> (outcome = ReportRecorded, m'))"
| "meter_step (RecordToolCall now c) m = (True, meter_record_tool_call now c m)"
| "meter_step (ClaimOnce now c limit) m = meter_claim_warning now c limit m"

fun meter_run :: "meter_op list \<Rightarrow> spend_meter \<Rightarrow> (meter_op \<times> bool) list \<times> spend_meter" where
  "meter_run [] m = ([], m)"
| "meter_run (op # ops) m =
     (let (out, m') = meter_step op m; (outs, m'') = meter_run ops m' in ((op, out) # outs, m''))"

fun prunes_by :: "nat \<Rightarrow> meter_op \<Rightarrow> bool" where
  "prunes_by limit (RecordTokens _ _ now' _ _ _ _) \<longleftrightarrow> now' \<le> limit"
| "prunes_by limit _ \<longleftrightarrow> True"

abbreviation turn_claim :: "spend_meter \<Rightarrow> string \<Rightarrow> string \<Rightarrow> (nat \<times> nat) option" where
  "turn_claim m c turn \<equiv> js_get (turn_report (mtr_db m)) (c, turn)"

abbreviation meter_wf :: "spend_meter \<Rightarrow> bool" where
  "meter_wf m \<equiv> budget_wf (mtr_db m)"

text \<open>The statements one meter operation runs.\<close>

fun meter_statements :: "meter_op \<Rightarrow> spend_meter \<Rightarrow> budget_op list" where
  "meter_statements (RecordTokens throws now now' c turn usage model) m =
     (if throws then []
      else ReportTurn False c (utc_day now) turn now (case model of None \<Rightarrow> unreported_model | Some name \<Rightarrow> name)
             (usage_counts usage)
        # (if mtr_last_pruned_day m = Some (utc_day now) then [] else [PruneTurns (now' - turn_retention_ms)]))"
| "meter_statements (RecordToolCall now c) m = [CountCall c (utc_day now)]"
| "meter_statements (ClaimOnce now c limit) m = [ClaimWarning c (utc_day now) limit]"

lemma meter_step_db: "mtr_db (snd (meter_step op m)) = fold budget_apply (meter_statements op m) (mtr_db m)"
  by (cases op)
    (auto simp: meter_record_tokens_def meter_record_tool_call_def meter_claim_warning_def meter_prune_def
      add_turn_tokens_def transact_def Let_def split: prod.splits sum.splits)

lemma fold_budget_apply:
  assumes "P db" "\<And>op db. op \<in> set ops \<Longrightarrow> P db \<Longrightarrow> P (budget_apply op db)"
  shows "P (fold budget_apply ops db)"
  using assms by (induction ops arbitrary: db) auto

lemma meter_wf_step [inv_preserved]: "meter_wf m \<Longrightarrow> meter_wf (snd (meter_step op m))"
  unfolding meter_step_db by (rule fold_budget_apply) (simp_all add: inv_preserved)

lemma turn_kept_apply:
  assumes "budget_wf db" "js_get (turn_report db) (c, turn) = Some (d, at_ms)"
    and "case op of PruneTurns cutoff \<Rightarrow> cutoff \<le> at_ms | ClearDay _ c' d' \<Rightarrow> (c', d') \<noteq> (c, d) | _ \<Rightarrow> True"
  shows "js_get (turn_report (budget_apply op db)) (c, turn) = Some (d, at_ms)"
  using assms
  by (cases op)
    (auto simp: add_tool_call_def add_turn_tokens_def transact_def claim_turn_def add_tokens_def claim_warning_def
      prune_turn_reports_before_def clear_day_def budget_wf_def js_get_filter Let_def split: option.splits)

lemma turn_kept_step:
  assumes "meter_wf m" "turn_claim m c turn = Some (d, at_ms)" "prunes_by (at_ms + turn_retention_ms) op"
  shows "turn_claim (snd (meter_step op m)) c turn = Some (d, at_ms)"
proof -
  let ?P = "\<lambda>db. budget_wf db \<and> js_get (turn_report db) (c, turn) = Some (d, at_ms)"
  have "?P (fold budget_apply (meter_statements op m) (mtr_db m))"
  proof (rule fold_budget_apply)
    show "?P (mtr_db m)" using assms by simp
    fix bop db
    assume b: "bop \<in> set (meter_statements op m)" and p: "?P db"
    from b assms(3) have "case bop of PruneTurns cutoff \<Rightarrow> cutoff \<le> at_ms
        | ClearDay _ c' d' \<Rightarrow> (c', d') \<noteq> (c, d) | _ \<Rightarrow> True"
      by (cases op) (auto split: if_splits)
    with p turn_kept_apply show "?P (budget_apply bop db)" by (blast intro: inv_preserved)
  qed
  then show ?thesis by (simp add: meter_step_db)
qed

lemma meter_run_Cons [simp]: "snd (meter_run (op # ops) m) = snd (meter_run ops (snd (meter_step op m)))"
  by (simp add: Let_def split: prod.splits)

lemma turn_kept_run:
  "meter_wf m \<Longrightarrow> turn_claim m c turn = Some (d, at_ms) \<Longrightarrow>
     list_all (prunes_by (at_ms + turn_retention_ms)) ops \<Longrightarrow>
     turn_claim (snd (meter_run ops m)) c turn = Some (d, at_ms)"
proof (induction ops arbitrary: m)
  case (Cons op ops)
  then have "turn_claim (snd (meter_step op m)) c turn = Some (d, at_ms)"
    using turn_kept_step by simp
  with Cons show ?case
    using Cons.IH [of "snd (meter_step op m)"]
    by (simp only: meter_run_Cons list.pred_inject meter_wf_step simp_thms)
qed simp

lemma record_tokens_claims:
  "meter_record_tokens throws now now' c turn usage model m = (Inr (ReportRecorded, day), m') \<Longrightarrow>
     day = utc_day now \<and> js_get (turn_report (snd (add_turn_tokens False c day turn now
        (case model of None \<Rightarrow> unreported_model | Some n \<Rightarrow> n) (usage_counts usage) (mtr_db m)))) (c, turn)
       = Some (day, now)"
  by (auto simp: meter_record_tokens_def add_turn_tokens_def transact_def claim_turn_def add_tokens_def Let_def
      split: prod.splits sum.splits if_splits option.splits)

lemma duplicate_report:
  "turn_claim m c turn \<noteq> None \<Longrightarrow>
     fst (meter_record_tokens False now now' c turn usage model m) = Inr (ReportDuplicate, utc_day now)
     \<and> meter_read t ch (snd (meter_record_tokens False now now' c turn usage model m)) = meter_read t ch m"
  by (auto simp: meter_record_tokens_def add_turn_tokens_def transact_def claim_turn_def Let_def meter_read_def
      meter_prune_def prune_turn_reports_before_def intro!: read_spend_congr)

text \<open>
  A turn is charged once. After a report of a turn was recorded, reporting the same turn of the
  channel again answers \<open>duplicate\<close> and changes no channel's spend, whatever the second report claims
  and whatever ran in between, as long as no prune came later than the 48 hour retention.
\<close>

theorem turn_counted_once:
  assumes "meter_wf m"
    and "meter_record_tokens throws now now1 c turn usage model m = (Inr (ReportRecorded, day), m1)"
    and "now1 \<le> now + turn_retention_ms"
    and "list_all (prunes_by (now + turn_retention_ms)) ops"
    and "m2 = snd (meter_run ops m1)"
  shows "fst (meter_record_tokens False later later1 c turn usage' model' m2) = Inr (ReportDuplicate, utc_day later)
    \<and> meter_read t ch (snd (meter_record_tokens False later later1 c turn usage' model' m2)) = meter_read t ch m2"
proof -
  let ?op = "RecordTokens throws now now1 c turn usage model"
  have m1: "m1 = snd (meter_step ?op m)" using assms(2) by simp
  let ?P = "\<lambda>db. budget_wf db \<and> js_get (turn_report db) (c, turn) = Some (day, now)"
  let ?db = "snd (add_turn_tokens False c day turn now
        (case model of None \<Rightarrow> unreported_model | Some n \<Rightarrow> n) (usage_counts usage) (mtr_db m))"
  have day: "day = utc_day now" and "js_get (turn_report ?db) (c, turn) = Some (day, now)"
    using record_tokens_claims [OF assms(2)] by blast+
  then have p: "?P ?db" using budget_wf_ops(2) [OF assms(1)] by blast
  have nt: "\<not> throws"
    using assms(2) by (auto simp: meter_record_tokens_def add_turn_tokens_def transact_def Let_def)
  have "?P (budget_apply (PruneTurns (now1 - turn_retention_ms)) ?db)"
    using turn_kept_apply [of ?db c turn day now] p assms(3) budget_wf_apply by (simp del: budget_apply.simps)
  with p have "?P (mtr_db m1)"
    unfolding m1 meter_step_db using nt day by simp
  then have "turn_claim m2 c turn = Some (day, now)"
    unfolding assms(5) using turn_kept_run [of m1 c turn day now ops] assms(4) by blast
  then show ?thesis by (intro duplicate_report) simp
qed

definition demo_meter :: spend_meter where
  "demo_meter = \<lparr>mtr_db = empty_budget_db, mtr_last_pruned_day = None\<rparr>"

definition demo_usage :: usage_report where
  "demo_usage = \<lparr>ur_input_tokens = 5, ur_output_tokens = 2, ur_cache_creation_input_tokens = 0,
     ur_cache_read_input_tokens = 0\<rparr>"

theorem turn_counted_once_witness:
  "\<exists>m. fst (meter_record_tokens False 9 9 ''ops'' ''t1'' demo_usage (Some ''m'') m) = Inr (ReportDuplicate, utc_day 9)"
proof -
  let ?m1 = "snd (meter_record_tokens False 5 5 ''ops'' ''t1'' demo_usage None demo_meter)"
  have r: "meter_record_tokens False 5 5 ''ops'' ''t1'' demo_usage None demo_meter
      = (Inr (ReportRecorded, utc_day 5), ?m1)"
    by (simp add: meter_record_tokens_def demo_meter_def empty_budget_db_def add_turn_tokens_def transact_def
        claim_turn_def Let_def)
  have "meter_wf demo_meter" by (simp add: demo_meter_def)
  from turn_counted_once [OF this r _ _ refl, of "[RecordToolCall 7 ''ops'']" 9 9 demo_usage "Some ''m''"]
  have "fst (meter_record_tokens False 9 9 ''ops'' ''t1'' demo_usage (Some ''m'')
      (snd (meter_run [RecordToolCall 7 ''ops''] ?m1))) = Inr (ReportDuplicate, utc_day 9)"
    by simp
  then show ?thesis by (rule exI)
qed

fun claims :: "string \<Rightarrow> nat \<Rightarrow> budget_limit \<Rightarrow> meter_op \<times> bool \<Rightarrow> bool" where
  "claims c day limit (ClaimOnce now c' limit', won) \<longleftrightarrow> won \<and> c' = c \<and> utc_day now = day \<and> limit' = limit"
| "claims c day limit _ \<longleftrightarrow> False"

abbreviation warned :: "spend_meter \<Rightarrow> string \<Rightarrow> nat \<Rightarrow> budget_limit \<Rightarrow> bool" where
  "warned m c day limit \<equiv> js_get (budget_warnings (mtr_db m)) (c, day, limit) \<noteq> None"

lemma warned_step:
  "warned m c day limit \<Longrightarrow> warned (snd (meter_step op m)) c day limit
     \<and> \<not> claims c day limit (op, fst (meter_step op m))"
proof (cases op)
  case (ClaimOnce now c' l)
  then show "warned m c day limit \<Longrightarrow> ?thesis"
    by (auto simp: meter_claim_warning_def claim_warning_def Let_def split: prod.splits option.splits if_splits)
next
  case (RecordToolCall now c')
  then show "warned m c day limit \<Longrightarrow> ?thesis" by (simp add: meter_record_tool_call_def add_tool_call_def)
next
  case (RecordTokens throws now now' c' turn usage model)
  then show "warned m c day limit \<Longrightarrow> ?thesis"
    unfolding meter_step_db
    by (simp add: add_turn_tokens_def transact_def claim_turn_def add_tokens_def prune_turn_reports_before_def
        Let_def split: option.splits)
qed

lemma claims_marks: "claims c day limit (op, fst (meter_step op m)) \<Longrightarrow> warned (snd (meter_step op m)) c day limit"
  by (cases op) (auto simp: meter_claim_warning_def claim_warning_def split: option.splits)

lemma warned_run:
  "warned m c day limit \<Longrightarrow> filter (claims c day limit) (fst (meter_run ops m)) = []"
proof (induction ops arbitrary: m)
  case (Cons op ops)
  from warned_step [OF Cons.prems, of op] Cons.IH [of "snd (meter_step op m)"] show ?case
    by (simp add: Let_def split_beta)
qed simp

text \<open>
  However many calls of a channel cross a limit's warning fraction in a day, from whatever state the
  meter is in, exactly one claim at most is won for that channel, day and limit.
\<close>

theorem warning_claimed_once:
  "length (filter (claims c day limit) (fst (meter_run ops m))) \<le> 1"
proof (induction ops arbitrary: m)
  case (Cons op ops)
  show ?case
  proof (cases "claims c day limit (op, fst (meter_step op m))")
    case True
    from warned_run [OF claims_marks [OF True], of ops] True show ?thesis by (simp add: Let_def split_beta)
  next
    case False
    with Cons.IH [of "snd (meter_step op m)"] show ?thesis by (simp add: Let_def split_beta)
  qed
qed simp

subsection \<open>The migration\<close>

lemma js_get_map_fst: "js_get (map (\<lambda>(k, (n, t)). (k, g n t)) m) k = map_option (\<lambda>(n, t). g n t) (js_get m k)"
  by (induction m) auto

lemma legacy_rows_get:
  "js_map_wf (bf_channel_spend f) \<Longrightarrow> js_get (legacy_rows f) (c, d, legacy_model) =
     (case js_get (bf_channel_spend f) (c, d) of None \<Rightarrow> None
      | Some (n, t) \<Rightarrow> if t = zero_counts then None else Some t)"
proof -
  have "js_map_wf m \<Longrightarrow> js_get (List.map_filter (\<lambda>((c, d), (n, t)).
       if tk_input t + tk_output t + tk_cache_read t + tk_cache_write t > 0
       then Some ((c, d, legacy_model), t) else None) m) (c, d, legacy_model) =
     (case js_get m (c, d) of None \<Rightarrow> None | Some (n, t) \<Rightarrow> if t = zero_counts then None else Some t)" for m
  proof (induction m)
    case (Cons e m)
    obtain c' d' n t where e: "e = ((c', d'), (n, t))" by (cases e) auto
    have z: "t = zero_counts \<longleftrightarrow> \<not> (tk_input t + tk_output t + tk_cache_read t + tk_cache_write t > 0)"
      by (cases t) (auto simp: zero_counts_def)
    from Cons have "js_map_wf m" "(c', d') \<notin> fst ` set m" by (simp_all add: js_map_wf_def e)
    moreover from this have "(c', d') = (c, d) \<Longrightarrow> js_get m (c, d) = None" by (auto simp: map_of_eq_None_iff)
    ultimately show ?case using Cons.IH z by (auto simp: e List.map_filter_def split: option.splits if_splits)
  qed (simp add: List.map_filter_def)
  then show "js_map_wf (bf_channel_spend f) \<Longrightarrow> ?thesis" by (simp add: legacy_rows_def)
qed

text \<open>
  Opening a version 1 file keeps what it knew: every channel and day has the tool calls it had, its
  old token counts stand in the legacy bucket (and no bucket when they were all zero), that bucket
  costs nothing under any price table, the turn reports and warnings are untouched, and opening the
  file again changes nothing.
\<close>

theorem migration_keeps_spend:
  assumes "bf_version f = Some 1 \<and> bf_carries_tokens f \<and> bf_token_spend f = []"
    and "js_map_wf (bf_channel_spend f)"
  shows "\<exists>g. migrate_budget f = Inr g \<and> migrate_budget g = Inr g
    \<and> (\<forall>c d. lg_calls (ledger_of (opened_budget g)) (c, d)
          = (case js_get (bf_channel_spend f) (c, d) of None \<Rightarrow> 0 | Some (n, t) \<Rightarrow> n))
    \<and> (\<forall>c d. lg_tokens (ledger_of (opened_budget g)) (c, d, legacy_model)
          = (case js_get (bf_channel_spend f) (c, d) of None \<Rightarrow> None
             | Some (n, t) \<Rightarrow> if t = zero_counts then None else Some t))
    \<and> (\<forall>table t. map_option (\<lambda>p. cost_micro_usd p t) (price_for table legacy_model) = Some 0)
    \<and> bf_turn_report g = bf_turn_report f \<and> bf_warnings g = bf_warnings f"
proof -
  obtain g where g: "migrate_budget f = Inr g"
    "g = f\<lparr>bf_version := Some budget_schema_version, bf_carries_tokens := False,
       bf_channel_spend := map (\<lambda>(k, (n, t)). (k, (n, \<lparr>tk_input = 0, tk_output = 0, tk_cache_read = 0,
          tk_cache_write = 0\<rparr>))) (bf_channel_spend f), bf_token_spend := legacy_rows f\<rparr>"
    using assms(1)
    by (auto simp: migrate_budget_def budget_schema_version_def rebuild_budget_tables_def list_ex_iff)
  have cs: "channel_spend (opened_budget g) = map (\<lambda>(k, (n, t)). (k, n)) (bf_channel_spend f)"
    by (auto simp: g(2) opened_budget_def)
  have "migrate_budget g = Inr g" by (simp add: g(2) migrate_budget_def)
  moreover have "lg_calls (ledger_of (opened_budget g)) (c, d)
      = (case js_get (bf_channel_spend f) (c, d) of None \<Rightarrow> 0 | Some (n, t) \<Rightarrow> n)" for c d
    by (auto simp: ledger_of_def cs js_get_map_fst split: option.splits)
  moreover have "lg_tokens (ledger_of (opened_budget g)) (c, d, legacy_model)
      = (case js_get (bf_channel_spend f) (c, d) of None \<Rightarrow> None
         | Some (n, t) \<Rightarrow> if t = zero_counts then None else Some t)" for c d
    using legacy_rows_get [OF assms(2)] by (simp add: g(2) ledger_of_def opened_budget_def)
  moreover have "map_option (\<lambda>p. cost_micro_usd p t) (price_for table legacy_model) = Some 0" for table t
    by (simp add: price_for_def free_price_def cost_micro_usd_def)
  ultimately show ?thesis using g by (intro exI [of _ g]) simp
qed

theorem migration_keeps_spend_witness:
  "\<exists>g. migrate_budget \<lparr>bf_version = Some 1, bf_carries_tokens = True,
       bf_channel_spend = [((''ops'', 3), (4, add_counts zero_counts (usage_counts demo_usage)))], bf_token_spend = [],
       bf_turn_report = [], bf_warnings = []\<rparr> = Inr g
     \<and> lg_calls (ledger_of (opened_budget g)) (''ops'', 3) = 4"
  using migration_keeps_spend [of "\<lparr>bf_version = Some 1, bf_carries_tokens = True,
       bf_channel_spend = [((''ops'', 3), (4, add_counts zero_counts (usage_counts demo_usage)))], bf_token_spend = [],
       bf_turn_report = [], bf_warnings = []\<rparr>"]
  by (force simp: js_map_wf_def)

end
