(* ===== verification/Audit_Log.thy ===== *)
theory Audit_Log
  imports Tool_Call
begin

text \<open>
  The audit log, \<open>packages/proxy/src/audit-db.ts\<close>: one append-only table whose rows are chained by
  hash, its writer, the operators' reader with its chain walk, and the rebuild that migrates an older
  file. SHA-256 in lowercase hex is a parameter \<open>sha\<close> of every definition that hashes.

  A row's chained values are a list in the order of \<open>CHAINED_COLUMNS\<close>.
\<close>

subsection \<open>Decimal numerals\<close>

definition digit_char :: "nat \<Rightarrow> char" where
  "digit_char d = char_of (48 + d)"

fun dec :: "nat \<Rightarrow> string" where
  "dec n = (if n < 10 then [digit_char n] else dec (n div 10) @ [digit_char (n mod 10)])"

declare dec.simps [simp del]

definition undec :: "string \<Rightarrow> nat" where
  "undec s = fold (\<lambda>c n. n * 10 + (of_char c - 48)) s 0"

lemma of_digit_char: "d < 10 \<Longrightarrow> (of_char (digit_char d) :: nat) = 48 + d"
  by (simp add: digit_char_def)

lemma undec_dec [simp]: "undec (dec n) = n"
proof (induction n rule: dec.induct)
  case (1 n)
  show ?case
  proof (cases "n < 10")
    case True
    then show ?thesis by (subst dec.simps) (simp add: undec_def of_digit_char)
  next
    case False
    with 1 show ?thesis by (subst dec.simps) (simp add: undec_def of_digit_char)
  qed
qed

lemma dec_inj [simp]: "dec m = dec n \<longleftrightarrow> m = n"
  by (metis undec_dec)

lemma digit_char_is_digit: "d < 10 \<Longrightarrow> is_digit (digit_char d)"
proof -
  have "list_all (\<lambda>d. is_digit (digit_char d)) [0, 1, 2, 3, 4, 5, 6, 7, 8, 9]" by code_simp
  moreover assume "d < 10"
  then have "d \<in> set [0, 1, 2, 3, 4, 5, 6, 7, 8, 9]" by auto
  ultimately show ?thesis unfolding list_all_iff by blast
qed

lemma dec_digits: "dec n \<noteq> [] \<and> list_all is_digit (dec n)"
proof (induction n rule: dec.induct)
  case (1 n)
  then show ?case by (subst (1 2) dec.simps) (auto simp: digit_char_is_digit)
qed

subsection \<open>Records\<close>

datatype audit_outcome =
    Ran | Held | Refused | Unavailable | Unanswered | Approved | Denied | Expired

record audit_record =
  ar_at :: nat
  ar_channel :: string
  ar_requesting_user :: string
  ar_task :: string
  ar_request_id :: string
  ar_call_id :: string
  ar_server :: string
  ar_tool :: string
  ar_arguments_sha256 :: string
  ar_outcome :: audit_outcome
  ar_refusal_reason :: "refusal_reason option"
  ar_budget_limit :: "budget_limit option"
  ar_day_spend_micro_usd :: "nat option"
  ar_price_version :: "string option"
  ar_result_bytes :: "nat option"
  ar_result_is_error :: "bool option"
  ar_approver :: "string option"
  ar_ticket :: "string option"
  ar_destination :: "string option"
  ar_result_bytes_by_type :: "(string \<times> nat) list option"

fun outcome_name :: "audit_outcome \<Rightarrow> string" where
  "outcome_name Ran = ''ran''"
| "outcome_name Held = ''held''"
| "outcome_name Refused = ''refused''"
| "outcome_name Unavailable = ''unavailable''"
| "outcome_name Unanswered = ''unanswered''"
| "outcome_name Approved = ''approved''"
| "outcome_name Denied = ''denied''"
| "outcome_name Expired = ''expired''"

fun reason_name :: "refusal_reason \<Rightarrow> string" where
  "reason_name R_no_team_sheet = ''no_team_sheet''"
| "reason_name R_team_sheet_unreadable = ''team_sheet_unreadable''"
| "reason_name R_server_not_allowed = ''server_not_allowed''"
| "reason_name R_tool_not_allowed = ''tool_not_allowed''"
| "reason_name R_server_ambiguous = ''server_ambiguous''"
| "reason_name R_approval_required = ''approval_required''"
| "reason_name R_approval_pending = ''approval_pending''"
| "reason_name R_approval_unknown = ''approval_unknown''"
| "reason_name R_approval_expired = ''approval_expired''"
| "reason_name R_approval_spent = ''approval_spent''"
| "reason_name R_approval_denied = ''approval_denied''"
| "reason_name R_approval_mismatch = ''approval_mismatch''"
| "reason_name R_budget_exhausted = ''budget_exhausted''"
| "reason_name R_model_not_priced = ''model_not_priced''"
| "reason_name R_model_unreported = ''model_unreported''"
| "reason_name R_egress_denied = ''egress_denied''"
| "reason_name R_credential_unresolved = ''credential_unresolved''"
| "reason_name R_schedule_full = ''schedule_full''"
| "reason_name R_schedule_too_soon = ''schedule_too_soon''"
| "reason_name R_schedule_too_far = ''schedule_too_far''"
| "reason_name R_ambient_disabled = ''ambient_disabled''"

fun limit_name :: "budget_limit \<Rightarrow> string" where
  "limit_name DailyTokens = ''daily_tokens''"
| "limit_name DailyToolCalls = ''daily_tool_calls''"
| "limit_name DailyUsd = ''daily_usd''"

definition all_outcomes :: "audit_outcome list" where
  "all_outcomes = [Ran, Held, Refused, Unavailable, Unanswered, Approved, Denied, Expired]"

definition all_reasons :: "refusal_reason list" where
  "all_reasons = [R_no_team_sheet, R_team_sheet_unreadable, R_server_not_allowed, R_tool_not_allowed,
     R_server_ambiguous, R_approval_required, R_approval_pending, R_approval_unknown, R_approval_expired,
     R_approval_spent, R_approval_denied, R_approval_mismatch, R_budget_exhausted, R_model_not_priced,
     R_model_unreported, R_egress_denied, R_credential_unresolved, R_schedule_full, R_schedule_too_soon,
     R_schedule_too_far, R_ambient_disabled]"

definition all_limits :: "budget_limit list" where
  "all_limits = [DailyTokens, DailyToolCalls, DailyUsd]"

subsection \<open>Chained columns\<close>

datatype sql_value = SqlNull | SqlInt nat | SqlText string

definition chained_columns :: "string list" where
  "chained_columns = [''at'', ''channel'', ''requesting_user'', ''task'', ''request_id'', ''call_id'',
     ''server'', ''tool'', ''arguments_sha256'', ''outcome'', ''refusal_reason'', ''budget_limit'',
     ''day_spend_micro_usd'', ''price_version'', ''result_bytes'', ''result_is_error'', ''approver'',
     ''ticket'', ''destination'', ''result_bytes_by_type'']"

definition audit_chain_tag :: string where
  "audit_chain_tag = ''libero/tool_call_audit/chain/1''"

definition genesis_preimage :: string where
  "genesis_preimage = audit_chain_tag @ ''/genesis''"

definition audit_chain_genesis :: "(string \<Rightarrow> string) \<Rightarrow> string" where
  "audit_chain_genesis sha = sha genesis_preimage"

text \<open>\<open>JSON.stringify\<close> of a string or of an integer in the safe range.\<close>

fun sql_json :: "sql_value \<Rightarrow> json" where
  "sql_json SqlNull = JNull"
| "sql_json (SqlInt n) = JNum (dec n)"
| "sql_json (SqlText s) = JStr s"

definition json_field :: "string \<times> json \<Rightarrow> string" where
  "json_field f = (case f of (k, v) \<Rightarrow> json_quote k @ CHR '':'' # canonical_json v)"

text \<open>The columns that are not null, over any list of columns: an older build had fewer.\<close>

definition row_fields :: "string list \<Rightarrow> sql_value list \<Rightarrow> (string \<times> json) list" where
  "row_fields columns values = map (apsnd sql_json) (filter (\<lambda>(c, v). v \<noteq> SqlNull) (zip columns values))"

definition row_preimage :: "string list \<Rightarrow> string \<Rightarrow> sql_value list \<Rightarrow> string" where
  "row_preimage columns prev values =
     audit_chain_tag @ CHR 0x0A # prev @ CHR 0x0A # CHR ''{'' #
     join_comma (map json_field (row_fields columns values)) @ ''}''"

definition audit_row_preimage :: "string \<Rightarrow> sql_value list \<Rightarrow> string" where
  "audit_row_preimage prev values = row_preimage chained_columns prev values"

definition audit_row_hash :: "(string \<Rightarrow> string) \<Rightarrow> string \<Rightarrow> sql_value list \<Rightarrow> string" where
  "audit_row_hash sha prev values = sha (audit_row_preimage prev values)"

definition stable_json :: "(string \<times> nat) list \<Rightarrow> string" where
  "stable_json m = CHR ''{'' # join_comma (map (\<lambda>(k, n). json_field (k, JNum (dec n))) (sort_key fst m)) @ ''}''"

definition text_value :: "string option \<Rightarrow> sql_value" where
  "text_value v = (case v of None \<Rightarrow> SqlNull | Some s \<Rightarrow> SqlText s)"

definition int_value :: "nat option \<Rightarrow> sql_value" where
  "int_value v = (case v of None \<Rightarrow> SqlNull | Some n \<Rightarrow> SqlInt n)"

definition audit_row_values :: "audit_record \<Rightarrow> sql_value list" where
  "audit_row_values r =
     [SqlInt (ar_at r), SqlText (ar_channel r), SqlText (ar_requesting_user r), SqlText (ar_task r),
      SqlText (ar_request_id r), SqlText (ar_call_id r), SqlText (ar_server r), SqlText (ar_tool r),
      SqlText (ar_arguments_sha256 r), SqlText (outcome_name (ar_outcome r)),
      text_value (map_option reason_name (ar_refusal_reason r)),
      text_value (map_option limit_name (ar_budget_limit r)),
      int_value (ar_day_spend_micro_usd r), text_value (ar_price_version r), int_value (ar_result_bytes r),
      int_value (map_option (\<lambda>e. if e then 1 else 0) (ar_result_is_error r)),
      text_value (ar_approver r), text_value (ar_ticket r), text_value (ar_destination r),
      text_value (map_option stable_json (ar_result_bytes_by_type r))]"

subsection \<open>The table and its writer\<close>

record audit_row =
  row_id :: nat
  row_values :: "sql_value list"
  row_prev_hash :: string
  row_hash :: string

record audit_log =
  log_rows :: "audit_row list"
  log_tip :: string

text \<open>
  The one statement: an \<open>INSERT\<close> with the next id. The unique index on \<open>prev_hash\<close> and the length
  checks refuse it, or SQLite throws for a reason of its own; a refused insert leaves the table.
\<close>

definition insert_row :: "bool \<Rightarrow> sql_value list \<Rightarrow> string \<Rightarrow> string \<Rightarrow> audit_row list \<Rightarrow> unit + audit_row list" where
  "insert_row throws values prev hash rows =
     (if throws \<or> list_ex (\<lambda>r. row_prev_hash r = prev) rows \<or> length prev \<noteq> 64 \<or> length hash \<noteq> 64 then Inl ()
      else Inr (rows @ [\<lparr>row_id = Suc (fold (\<lambda>r m. max m (row_id r)) rows 0), row_values = values,
                         row_prev_hash = prev, row_hash = hash\<rparr>]))"

definition open_log :: "(string \<Rightarrow> string) \<Rightarrow> audit_row list \<Rightarrow> audit_log" where
  "open_log sha rows =
     \<lparr>log_rows = rows, log_tip = (if rows = [] then audit_chain_genesis sha else row_hash (last rows))\<rparr>"

text \<open>The tip moves only after the insert went through.\<close>

definition audit_append :: "(string \<Rightarrow> string) \<Rightarrow> bool \<Rightarrow> audit_record \<Rightarrow> audit_log \<Rightarrow> (unit + unit) \<times> audit_log" where
  "audit_append sha throws r lg =
     (let values = audit_row_values r; hash = audit_row_hash sha (log_tip lg) values
      in case insert_row throws values (log_tip lg) hash (log_rows lg) of
          Inl e \<Rightarrow> (Inl e, lg)
        | Inr rows \<Rightarrow> (Inr (), \<lparr>log_rows = rows, log_tip = hash\<rparr>))"

subsection \<open>The walk\<close>

datatype broken_reason = BrokenContent | BrokenLink

datatype chain_verdict =
    ChainOk nat string
  | ChainBroken nat nat broken_reason

fun walk_chain :: "(string \<Rightarrow> string) \<Rightarrow> audit_row list \<Rightarrow> string \<Rightarrow> nat \<Rightarrow> chain_verdict" where
  "walk_chain sha [] prev rows = ChainOk rows prev"
| "walk_chain sha (r # rs) prev rows =
     (if row_prev_hash r \<noteq> prev then ChainBroken rows (row_id r) BrokenLink
      else if audit_row_hash sha prev (row_values r) \<noteq> row_hash r then ChainBroken rows (row_id r) BrokenContent
      else walk_chain sha rs (row_hash r) (Suc rows))"

definition verify_chain :: "(string \<Rightarrow> string) \<Rightarrow> audit_row list \<Rightarrow> chain_verdict" where
  "verify_chain sha rows = walk_chain sha rows (audit_chain_genesis sha) 0"

subsection \<open>The reader\<close>

record audit_query =
  q_channel :: "string option"
  q_server :: "string option"
  q_tool :: "string option"
  q_task :: "string option"
  q_outcomes :: "audit_outcome list option"
  q_since_ms :: "nat option"
  q_until_ms :: "nat option"
  q_after_id :: "nat option"
  q_limit :: "nat option"

definition column_at :: "string \<Rightarrow> audit_row \<Rightarrow> sql_value" where
  "column_at c r = (case js_get (zip chained_columns (row_values r)) c of None \<Rightarrow> SqlNull | Some v \<Rightarrow> v)"

text \<open>Comparing with \<open>NULL\<close> is not true.\<close>

definition sql_eq :: "sql_value \<Rightarrow> string option \<Rightarrow> bool" where
  "sql_eq v s = (case s of None \<Rightarrow> True | Some t \<Rightarrow> v = SqlText t)"

fun sql_int_rel :: "(nat \<Rightarrow> nat \<Rightarrow> bool) \<Rightarrow> sql_value \<Rightarrow> nat option \<Rightarrow> bool" where
  "sql_int_rel rel v None = True"
| "sql_int_rel rel (SqlInt n) (Some m) = rel n m"
| "sql_int_rel rel _ (Some m) = False"

definition where_clause :: "audit_query \<Rightarrow> audit_row \<Rightarrow> bool" where
  "where_clause q r \<longleftrightarrow>
     sql_eq (column_at ''channel'' r) (q_channel q) \<and> sql_eq (column_at ''server'' r) (q_server q) \<and>
     sql_eq (column_at ''tool'' r) (q_tool q) \<and> sql_eq (column_at ''task'' r) (q_task q) \<and>
     sql_int_rel (\<ge>) (column_at ''at'' r) (q_since_ms q) \<and> sql_int_rel (\<le>) (column_at ''at'' r) (q_until_ms q) \<and>
     (case q_after_id q of None \<Rightarrow> True | Some n \<Rightarrow> row_id r > n) \<and>
     (case q_outcomes q of None \<Rightarrow> True | Some os \<Rightarrow>
        os = [] \<or> list_ex (\<lambda>out. column_at ''outcome'' r = SqlText (outcome_name out)) os)"

text \<open>\<open>JSON.parse\<close> of the flat object \<open>stableJson\<close> writes.\<close>

function parse_fields :: "string \<Rightarrow> (string \<times> nat) list" where
  "parse_fields s =
     (let name = takeWhile (\<lambda>c. c \<noteq> CHR 0x22) (tl s);
          rest = drop (length name + 3) s;
          digits = takeWhile is_digit rest;
          after = drop (length digits) rest
      in if s \<noteq> [] \<and> after \<noteq> [] \<and> hd after = CHR '',''
         then (name, undec digits) # parse_fields (tl after) else [(name, undec digits)])"
  by pat_completeness auto
termination by (relation "measure length") (auto simp: Let_def)

declare parse_fields.simps [simp del]

definition parse_by_type :: "string \<Rightarrow> (string \<times> nat) list" where
  "parse_by_type s = (if s = ''{}'' then [] else parse_fields (tl s))"

record audit_entry = audit_record +
  en_id :: nat
  en_prev_hash :: string
  en_row_hash :: string

fun text_of :: "sql_value \<Rightarrow> string" where
  "text_of (SqlText s) = s"
| "text_of _ = []"

fun int_of_value :: "sql_value \<Rightarrow> nat" where
  "int_of_value (SqlInt n) = n"
| "int_of_value _ = 0"

definition unless_null :: "sql_value \<Rightarrow> (sql_value \<Rightarrow> 'a) \<Rightarrow> 'a option" where
  "unless_null v f = (if v = SqlNull then None else Some (f v))"

text \<open>
  \<open>rowToEntry\<close>. The casts of the three enumerated columns are the inverse of their names, and none
  for a name outside the enumeration. There is no line for \<open>destination\<close>.
\<close>

definition named :: "('a \<Rightarrow> string) \<Rightarrow> 'a list \<Rightarrow> sql_value \<Rightarrow> 'a option" where
  "named nm alls v = List.find (\<lambda>x. SqlText (nm x) = v) alls"

definition row_to_entry :: "audit_row \<Rightarrow> audit_entry option" where
  "row_to_entry r =
     map_option (\<lambda>out.
       \<lparr>ar_at = int_of_value (column_at ''at'' r), ar_channel = text_of (column_at ''channel'' r),
        ar_requesting_user = text_of (column_at ''requesting_user'' r), ar_task = text_of (column_at ''task'' r),
        ar_request_id = text_of (column_at ''request_id'' r), ar_call_id = text_of (column_at ''call_id'' r),
        ar_server = text_of (column_at ''server'' r), ar_tool = text_of (column_at ''tool'' r),
        ar_arguments_sha256 = text_of (column_at ''arguments_sha256'' r), ar_outcome = out,
        ar_refusal_reason = named reason_name all_reasons (column_at ''refusal_reason'' r),
        ar_budget_limit = named limit_name all_limits (column_at ''budget_limit'' r),
        ar_day_spend_micro_usd = unless_null (column_at ''day_spend_micro_usd'' r) int_of_value,
        ar_price_version = unless_null (column_at ''price_version'' r) text_of,
        ar_result_bytes = unless_null (column_at ''result_bytes'' r) int_of_value,
        ar_result_is_error = unless_null (column_at ''result_is_error'' r) (\<lambda>v. v = SqlInt 1),
        ar_approver = unless_null (column_at ''approver'' r) text_of,
        ar_ticket = unless_null (column_at ''ticket'' r) text_of,
        ar_destination = None,
        ar_result_bytes_by_type = unless_null (column_at ''result_bytes_by_type'' r) (\<lambda>v. parse_by_type (text_of v)),
        en_id = row_id r, en_prev_hash = row_prev_hash r, en_row_hash = row_hash r\<rparr>)
      (named outcome_name all_outcomes (column_at ''outcome'' r))"

text \<open>Rows are kept in id order, so \<open>ORDER BY id\<close> is the table's order.\<close>

definition page :: "audit_query \<Rightarrow> audit_row list \<Rightarrow> audit_row list" where
  "page q rows =
     (let matching = filter (where_clause q) rows
      in case q_limit q of
          None \<Rightarrow> matching
        | Some n \<Rightarrow> if n = 0 then matching else rev (take n (rev matching)))"

definition count_rows :: "audit_query \<Rightarrow> audit_row list \<Rightarrow> nat" where
  "count_rows q rows = length (filter (where_clause q) rows)"

definition by_id :: "nat \<Rightarrow> audit_row list \<Rightarrow> audit_row option" where
  "by_id n rows = (case filter (\<lambda>r. row_id r = n) rows of [] \<Rightarrow> None | r # _ \<Rightarrow> Some r)"

definition by_ticket :: "string \<Rightarrow> audit_row list \<Rightarrow> audit_row list" where
  "by_ticket ticket rows = filter (\<lambda>r. column_at ''ticket'' r = SqlText ticket) rows"

definition open_approvals :: "string option \<Rightarrow> audit_row list \<Rightarrow> audit_row list" where
  "open_approvals channel rows =
     filter (\<lambda>t. column_at ''ticket'' t \<noteq> SqlNull \<and>
         (column_at ''outcome'' t = SqlText ''held'' \<or> column_at ''outcome'' t = SqlText ''approved'') \<and>
         \<not> list_ex (\<lambda>l. column_at ''ticket'' l = column_at ''ticket'' t \<and> row_id l > row_id t) rows \<and>
         sql_eq (column_at ''channel'' t) channel) rows"

subsection \<open>The rebuild\<close>

text \<open>A file of an older build: the columns its table has, and whether two of them are the chain's.\<close>

record audit_file =
  af_version :: "nat option"
  af_columns :: "string list"
  af_chained :: bool
  af_rows :: "(nat \<times> (string \<Rightarrow> sql_value) \<times> string \<times> string) list"

definition audit_schema_version :: nat where
  "audit_schema_version = 7"

definition source_values :: "audit_file \<Rightarrow> (string \<Rightarrow> sql_value) \<Rightarrow> sql_value list" where
  "source_values f row = map (\<lambda>c. if c \<in> set (af_columns f) then row c else SqlNull) chained_columns"

fun rebuild_rows ::
    "(string \<Rightarrow> string) \<Rightarrow> audit_file \<Rightarrow> (nat \<times> (string \<Rightarrow> sql_value) \<times> string \<times> string) list \<Rightarrow> string \<Rightarrow>
     audit_row list"
where
  "rebuild_rows sha f [] tip = []"
| "rebuild_rows sha f ((i, row, prev, hash) # rest) tip =
     (let values = source_values f row;
          prev_hash = (if af_chained f then prev else tip);
          row_hash = (if af_chained f then hash else audit_row_hash sha tip values)
      in \<lparr>row_id = i, row_values = values, row_prev_hash = prev_hash, row_hash = row_hash\<rparr>
         # rebuild_rows sha f rest row_hash)"

text \<open>A current file is left as it is.\<close>

definition current_rows :: "audit_file \<Rightarrow> audit_row list" where
  "current_rows f = map (\<lambda>(i, row, prev, hash).
     \<lparr>row_id = i, row_values = map row chained_columns, row_prev_hash = prev, row_hash = hash\<rparr>) (af_rows f)"

text \<open>
  The copy fails, and the transaction with it, when a hash has not 64 characters or, as the unique index
  is created, when two rows claim one predecessor.
\<close>

definition migrate_audit :: "(string \<Rightarrow> string) \<Rightarrow> audit_file \<Rightarrow> unit + audit_row list" where
  "migrate_audit sha f =
     (if af_version f = Some audit_schema_version then Inr (current_rows f)
      else if af_version f = None \<or> af_version f \<in> Some ` {1, 2, 3, 4, 5, 6}
      then let rows = rebuild_rows sha f (af_rows f) (audit_chain_genesis sha)
        in if distinct (map row_prev_hash rows)
              \<and> list_all (\<lambda>r. length (row_prev_hash r) = 64 \<and> length (row_hash r) = 64) rows
           then Inr rows else Inl ()
      else Inl ())"

end
