(* ===== verification/Audit_Chain.thy ===== *)
theory Audit_Chain
  imports Audit_Log
begin

text \<open>
  What the chained audit log promises: appends extend a verifying chain and nothing else, the walk
  finds the first row that was edited or whose predecessor is gone, two logs with one tip are one
  log, a fork is refused, a migration leaves a chain that verifies, and what the reader gives back.
\<close>

subsection \<open>A preimage determines its row\<close>

lemma num_token_dec: "num_token (dec n)"
proof -
  have "is_digit c \<Longrightarrow> c \<in> set ''0123456789+-.e''" for c by (auto simp: is_digit_def)
  then show ?thesis using dec_digits [of n] by (auto simp: num_token_def list_all_iff)
qed

definition plain_field :: "string \<times> json \<Rightarrow> bool" where
  "plain_field f \<longleftrightarrow> json_wf (snd f) \<and> sorted_keys (snd f) = snd f"

lemma plain_sql: "plain_field (k, sql_json v)"
  by (cases v) (simp_all add: plain_field_def num_token_dec)

lemma plain_row_fields: "f \<in> set (row_fields columns values) \<Longrightarrow> plain_field f"
  by (auto simp: row_fields_def plain_sql)

lemma row_fields_Cons [simp]: "row_fields (c # cs) (u # us)
    = (if u = SqlNull then [] else [(c, sql_json u)]) @ row_fields cs us"
  by (simp add: row_fields_def)

lemma json_field_unique:
  assumes "plain_field a" "plain_field b" "delimited xs" "delimited ys" "json_field a @ xs = json_field b @ ys"
  shows "a = b \<and> xs = ys"
proof -
  obtain k v k' v' where ab: "a = (k, v)" "b = (k', v')" by (cases a, cases b) auto
  with assms(5) have k: "k = k'" and v: "canonical_json v @ xs = canonical_json v' @ ys"
    using json_quote_unique [of k "CHR '':'' # canonical_json v @ xs" k' "CHR '':'' # canonical_json v' @ ys"]
    by (simp_all add: json_field_def)
  from canonical_json_unique [OF _ _ assms(3,4) v] assms(1,2) ab k show ?thesis by (auto simp: plain_field_def)
qed

lemma fields_unique:
  assumes "\<forall>f \<in> set as. plain_field f" "\<forall>f \<in> set bs. plain_field f"
    and "join_comma (map json_field as) @ ''}'' = join_comma (map json_field bs) @ ''}''"
  shows "as = bs"
proof -
  have "map id as = map id bs \<and> ([] :: string) = []"
  proof (rule join_comma_unique [where f = json_field and c = "CHR ''}''" and P = plain_field])
    show "id a = id b \<and> xs = ys"
      if "a \<in> set as" "plain_field b" "delimited xs" "delimited ys" "json_field a @ xs = json_field b @ ys"
      for a b xs ys
      using json_field_unique [OF _ that(2-5)] assms(1) that(1) by auto
  qed (use assms in \<open>auto simp: json_field_def json_quote_def\<close>)
  then show ?thesis by simp
qed

lemma sql_json_inj: "sql_json a = sql_json b \<longleftrightarrow> a = b"
  by (cases a; cases b) auto

lemma row_fields_columns: "f \<in> set (row_fields columns values) \<Longrightarrow> fst f \<in> set columns"
  by (auto simp: row_fields_def dest: set_zip_leftD)

lemma row_fields_inj:
  "distinct columns \<Longrightarrow> length vs = length columns \<Longrightarrow> length ws = length columns \<Longrightarrow>
     row_fields columns vs = row_fields columns ws \<Longrightarrow> vs = ws"
proof (induction columns arbitrary: vs ws)
  case (Cons c columns)
  obtain v vs' where v: "vs = v # vs'" using Cons.prems(2) by (cases vs) auto
  obtain w ws' where w: "ws = w # ws'" using Cons.prems(3) by (cases ws) auto
  have eq: "(if v = SqlNull then [] else [(c, sql_json v)]) @ row_fields columns vs'
      = (if w = SqlNull then [] else [(c, sql_json w)]) @ row_fields columns ws'"
    using Cons.prems(4) unfolding v w row_fields_Cons .
  have nin: "(c, j) \<notin> set (row_fields columns us)" for j us
    using Cons.prems(1) row_fields_columns [of "(c, j)" columns us] by auto
  consider (both) "v = SqlNull" "w = SqlNull" | (left) "v = SqlNull" "w \<noteq> SqlNull"
    | (right) "v \<noteq> SqlNull" "w = SqlNull" | (none) "v \<noteq> SqlNull" "w \<noteq> SqlNull" by blast
  then have "v = w \<and> row_fields columns vs' = row_fields columns ws'"
  proof cases
    case left
    with eq have "row_fields columns vs' = (c, sql_json w) # row_fields columns ws'" by simp
    with nin [of "sql_json w" vs'] show ?thesis by simp
  next
    case right
    with eq have "row_fields columns ws' = (c, sql_json v) # row_fields columns vs'" by simp
    with nin [of "sql_json v" ws'] show ?thesis by simp
  qed (use eq in \<open>simp_all add: sql_json_inj\<close>)
  with Cons.IH [of vs' ws'] Cons.prems v w show ?case by simp
qed simp

lemma distinct_columns: "distinct chained_columns"
  by (simp add: chained_columns_def)

definition row_shape :: "audit_row \<Rightarrow> bool" where
  "row_shape r \<longleftrightarrow> length (row_values r) = length chained_columns"

lemma audit_row_preimage_inj:
  assumes "length prev = length prev'" "length vs = length chained_columns" "length ws = length chained_columns"
    and "audit_row_preimage prev vs = audit_row_preimage prev' ws"
  shows "prev = prev' \<and> vs = ws"
proof -
  have "prev @ CHR 0x0A # CHR ''{'' # join_comma (map json_field (row_fields chained_columns vs)) @ ''}''
      = prev' @ CHR 0x0A # CHR ''{'' # join_comma (map json_field (row_fields chained_columns ws)) @ ''}''"
    using assms(4) by (simp add: audit_row_preimage_def row_preimage_def)
  with assms(1) have "prev = prev'" and
    j: "join_comma (map json_field (row_fields chained_columns vs)) @ ''}''
      = join_comma (map json_field (row_fields chained_columns ws)) @ ''}''"
    by (simp_all add: append_eq_append_conv)
  from fields_unique [OF _ _ j] plain_row_fields row_fields_inj [OF distinct_columns assms(2,3)] this(1)
  show ?thesis by blast
qed

lemma genesis_not_row: "genesis_preimage \<noteq> audit_row_preimage prev vs"
  by (simp add: genesis_preimage_def audit_row_preimage_def row_preimage_def)

subsection \<open>The walk, as a relation\<close>

fun linked :: "(string \<Rightarrow> string) \<Rightarrow> string \<Rightarrow> audit_row list \<Rightarrow> bool" where
  "linked sha prev [] = True"
| "linked sha prev (r # rs) \<longleftrightarrow>
     row_prev_hash r = prev \<and> audit_row_hash sha prev (row_values r) = row_hash r \<and> linked sha (row_hash r) rs"

fun tip_of :: "string \<Rightarrow> audit_row list \<Rightarrow> string" where
  "tip_of prev [] = prev"
| "tip_of prev (r # rs) = tip_of (row_hash r) rs"

lemma tip_of_append [simp]: "tip_of prev (xs @ ys) = tip_of (tip_of prev xs) ys"
  by (induction xs arbitrary: prev) auto

lemma linked_append [simp]: "linked sha prev (xs @ ys) \<longleftrightarrow> linked sha prev xs \<and> linked sha (tip_of prev xs) ys"
  by (induction xs arbitrary: prev) auto

lemma walk_chain_ok_iff:
  "walk_chain sha rows prev n = ChainOk m tip \<longleftrightarrow> linked sha prev rows \<and> m = n + length rows \<and> tip = tip_of prev rows"
  by (induction rows arbitrary: prev n) auto

lemma verify_chain_ok_iff:
  "verify_chain sha rows = ChainOk m tip \<longleftrightarrow>
     linked sha (audit_chain_genesis sha) rows \<and> m = length rows \<and> tip = tip_of (audit_chain_genesis sha) rows"
  by (simp add: verify_chain_def walk_chain_ok_iff)

lemma walk_chain_append:
  "linked sha prev xs \<Longrightarrow> walk_chain sha (xs @ ys) prev n = walk_chain sha ys (tip_of prev xs) (n + length xs)"
  by (induction xs arbitrary: prev n) auto

lemma open_log_tip: "log_tip (open_log sha rows) = tip_of (audit_chain_genesis sha) rows"
proof (cases rows rule: rev_cases)
  case (snoc ys y)
  then show ?thesis by (simp add: open_log_def)
qed (simp add: open_log_def)

lemma insert_row_Inr:
  "insert_row throws values prev hash rows = Inr rows' \<Longrightarrow>
     \<not> throws \<and> prev \<notin> row_prev_hash ` set rows \<and>
     (\<exists>r. rows' = rows @ [r] \<and> row_values r = values \<and> row_prev_hash r = prev \<and> row_hash r = hash \<and>
        (\<forall>q \<in> set rows. row_id q < row_id r))"
proof -
  have m: "n \<le> fold (\<lambda>r m. max m (row_id r)) rows n \<and>
      (\<forall>q \<in> set rows. row_id q \<le> fold (\<lambda>r m. max m (row_id r)) rows n)" for n
  proof (induction rows arbitrary: n)
    case (Cons r rows)
    from Cons.IH [of "max n (row_id r)"] show ?case by simp
  qed simp
  show "insert_row throws values prev hash rows = Inr rows' \<Longrightarrow> ?thesis"
    using m [of 0] by (auto simp: insert_row_def list_ex_iff less_Suc_eq_le split: if_splits)
qed

subsection \<open>The writer's contract\<close>

text \<open>A list of appends: for each, whether SQLite throws for a reason of its own, and the record.\<close>

fun run_appends ::
    "(bool \<Rightarrow> 'r \<Rightarrow> 's \<Rightarrow> (unit + unit) \<times> 's) \<Rightarrow> (bool \<times> 'r) list \<Rightarrow> 's \<Rightarrow> 'r list \<times> 's"
where
  "run_appends app [] s = ([], s)"
| "run_appends app ((throws, r) # evs) s =
     (case app throws r s of
        (Inl _, s') \<Rightarrow> run_appends app evs s'
      | (Inr _, s') \<Rightarrow> let (written, s'') = run_appends app evs s' in (r # written, s''))"

locale audit_sink =
  fixes app :: "bool \<Rightarrow> 'r \<Rightarrow> 's \<Rightarrow> (unit + unit) \<times> 's"
    and contents :: "'s \<Rightarrow> 'row list"
    and sound :: "'s \<Rightarrow> bool"
    and states :: "'row \<Rightarrow> 'r \<Rightarrow> bool"
  assumes append_sound: "sound s \<Longrightarrow> sound (snd (app throws r s))"
    and append_written: "sound s \<Longrightarrow> app throws r s = (Inr u, s') \<Longrightarrow>
        \<exists>row. contents s' = contents s @ [row] \<and> states row r"
    and append_refused: "app throws r s = (Inl u, s') \<Longrightarrow> s' = s"
begin

lemma appends_extend:
  "sound s \<Longrightarrow> run_appends app evs s = (written, s') \<Longrightarrow>
     sound s' \<and> (\<exists>added. contents s' = contents s @ added \<and> list_all2 states added written)"
proof (induction evs arbitrary: s written)
  case (Cons ev evs)
  obtain throws r where ev: "ev = (throws, r)" by (cases ev)
  obtain out s1 where st: "app throws r s = (out, s1)" by (cases "app throws r s")
  have ok: "sound s1" using append_sound [OF Cons.prems(1), of throws r] st by simp
  show ?case
  proof (cases out)
    case (Inl u)
    with st append_refused have "s1 = s" by blast
    with Cons Inl ev st ok show ?thesis by simp
  next
    case (Inr u)
    obtain w s2 where w: "run_appends app evs s1 = (w, s2)" by (cases "run_appends app evs s1")
    with Inr ev st Cons.prems(2) have e: "written = r # w" "s' = s2" by simp_all
    obtain row where row: "contents s1 = contents s @ [row]" "states row r"
      using append_written [OF Cons.prems(1)] st Inr by blast
    from Cons.IH [OF ok] w e obtain added where
      "sound s'" "contents s' = contents s1 @ added" "list_all2 states added w" by blast
    with row e show ?thesis by (intro conjI exI [of _ "row # added"]) simp_all
  qed
qed auto

end

definition log_sound :: "(string \<Rightarrow> string) \<Rightarrow> audit_log \<Rightarrow> bool" where
  "log_sound sha lg \<longleftrightarrow> verify_chain sha (log_rows lg) = ChainOk (length (log_rows lg)) (log_tip lg)"

definition row_states :: "audit_row \<Rightarrow> audit_record \<Rightarrow> bool" where
  "row_states row r \<longleftrightarrow> row_values row = audit_row_values r"

lemma audit_append_Inr:
  assumes "audit_append sha throws r lg = (Inr u, lg')"
  shows "\<exists>row. log_rows lg' = log_rows lg @ [row] \<and> row_values row = audit_row_values r \<and>
    row_prev_hash row = log_tip lg \<and> row_hash row = audit_row_hash sha (log_tip lg) (audit_row_values r) \<and>
    log_tip lg' = row_hash row"
  using assms
  by (auto simp: audit_append_def Let_def dest!: insert_row_Inr split: sum.splits)

lemma audit_append_Inl: "audit_append sha throws r lg = (Inl u, lg') \<Longrightarrow> lg' = lg"
  by (auto simp: audit_append_def Let_def split: sum.splits)

lemma log_sound_append [inv_preserved]:
  assumes "log_sound sha lg"
  shows "log_sound sha (snd (audit_append sha throws r lg))"
proof (cases "audit_append sha throws r lg")
  case (Pair out lg')
  show ?thesis
  proof (cases out)
    case (Inl u)
    with Pair audit_append_Inl [of sha throws r lg u lg'] assms show ?thesis by simp
  next
    case (Inr u)
    with Pair obtain row where "log_rows lg' = log_rows lg @ [row]" "row_values row = audit_row_values r"
      "row_prev_hash row = log_tip lg" "row_hash row = audit_row_hash sha (log_tip lg) (audit_row_values r)"
      "log_tip lg' = row_hash row" by (blast dest: audit_append_Inr)
    with Pair assms show ?thesis by (simp add: log_sound_def verify_chain_ok_iff)
  qed
qed

interpretation chained_log: audit_sink "audit_append sha" log_rows "log_sound sha" row_states for sha
proof
  fix s throws r u s'
  show "log_sound sha s \<Longrightarrow> log_sound sha (snd (audit_append sha throws r s))" by (rule log_sound_append)
  show "log_sound sha s \<Longrightarrow> audit_append sha throws r s = (Inr u, s') \<Longrightarrow>
      \<exists>row. log_rows s' = log_rows s @ [row] \<and> row_states row r"
    unfolding row_states_def by (blast dest: audit_append_Inr)
  show "audit_append sha throws r s = (Inl u, s') \<Longrightarrow> s' = s" by (rule audit_append_Inl)
qed

text \<open>
  Opening a log whose chain verifies and appending to it, whatever SQLite refuses in between, leaves
  a log whose chain verifies up to the writer's tip; it starts with every row that was there, and
  continues with exactly the records whose append succeeded, in their order.
\<close>

theorem appends_keep_chain:
  assumes "verify_chain sha rows = ChainOk n tip"
    and "run_appends (audit_append sha) evs (open_log sha rows) = (written, lg)"
  shows "verify_chain sha (log_rows lg) = ChainOk (length (log_rows lg)) (log_tip lg)
    \<and> (\<exists>added. log_rows lg = rows @ added \<and> map row_values added = map audit_row_values written)"
proof -
  have "log_sound sha (open_log sha rows)"
    using assms(1) open_log_tip [of sha rows] by (simp add: log_sound_def verify_chain_ok_iff open_log_def)
  from chained_log.appends_extend [OF this assms(2)] obtain added where
    "log_sound sha lg" "log_rows lg = rows @ added" "list_all2 row_states added written"
    by (auto simp: open_log_def)
  moreover from this(3) have "map row_values added = map audit_row_values written"
    by (induction rule: list_all2_induct) (auto simp: row_states_def)
  ultimately show ?thesis by (auto simp: log_sound_def)
qed

text \<open>A two-valued stand-in for the digest, and a row, for the witnesses.\<close>

definition demo_sha :: "string \<Rightarrow> string" where
  "demo_sha x = (if x = genesis_preimage then replicate 64 CHR ''a'' else replicate 64 CHR ''b'')"

definition demo_record :: audit_record where
  "demo_record = \<lparr>ar_at = 5, ar_channel = ''ops'', ar_requesting_user = ''ana'', ar_task = ''t1'',
     ar_request_id = ''r1'', ar_call_id = ''c1'', ar_server = ''gh'', ar_tool = ''run_code'',
     ar_arguments_sha256 = ''h'', ar_outcome = Refused, ar_refusal_reason = Some R_egress_denied,
     ar_budget_limit = None, ar_day_spend_micro_usd = Some 7, ar_price_version = Some ''v1'',
     ar_result_bytes = None, ar_result_is_error = None, ar_approver = None, ar_ticket = None,
     ar_destination = Some ''evil.example'', ar_result_bytes_by_type = None\<rparr>"

definition demo_row :: audit_row where
  "demo_row = \<lparr>row_id = 1, row_values = audit_row_values demo_record, row_prev_hash = replicate 64 CHR ''a'',
     row_hash = replicate 64 CHR ''b''\<rparr>"

lemma demo_sha_simps [simp]:
  "audit_chain_genesis demo_sha = replicate 64 CHR ''a''"
  "audit_row_hash demo_sha prev vs = replicate 64 CHR ''b''"
  using genesis_not_row [of prev vs]
  by (auto simp: demo_sha_def audit_chain_genesis_def audit_row_hash_def)

lemma row_shape_values [simp]: "length (audit_row_values r) = length chained_columns"
  by (simp add: audit_row_values_def chained_columns_def)

lemma demo_row_simps [simp]:
  "row_prev_hash demo_row = replicate 64 CHR ''a''" "row_hash demo_row = replicate 64 CHR ''b''"
  "row_values demo_row = audit_row_values demo_record" "row_id demo_row = 1"
  by (simp_all add: demo_row_def)

lemma demo_verifies: "verify_chain demo_sha [demo_row] = ChainOk 1 (replicate 64 CHR ''b'')"
  by (simp add: verify_chain_ok_iff)

theorem appends_keep_chain_witness:
  "\<exists>added. log_rows (snd (run_appends (audit_append demo_sha) [(True, demo_record)] (open_log demo_sha [demo_row])))
     = [demo_row] @ added \<and> map row_values added = []"
proof -
  obtain written lg where r: "run_appends (audit_append demo_sha) [(True, demo_record)] (open_log demo_sha [demo_row])
      = (written, lg)" by (cases "run_appends (audit_append demo_sha) [(True, demo_record)] (open_log demo_sha [demo_row])")
  moreover from this have "written = []"
    by (simp add: audit_append_def insert_row_def Let_def del: demo_sha_simps)
  ultimately show ?thesis using appends_keep_chain [OF demo_verifies r] by simp
qed

subsection \<open>Tampering\<close>

definition chain_preimages :: "audit_row list \<Rightarrow> string set" where
  "chain_preimages rows =
     insert genesis_preimage ((\<lambda>r. audit_row_preimage (row_prev_hash r) (row_values r)) ` set rows)"

definition log_shape :: "audit_row list \<Rightarrow> bool" where
  "log_shape rows \<longleftrightarrow> list_all (\<lambda>r. row_shape r \<and> length (row_prev_hash r) = 64) rows"

lemma linked_same_tip:
  assumes "linked sha (audit_chain_genesis sha) xs" "linked sha (audit_chain_genesis sha) ys"
    and "log_shape xs" "log_shape ys" "inj_on sha (chain_preimages xs \<union> chain_preimages ys)"
    and "tip_of (audit_chain_genesis sha) xs = tip_of (audit_chain_genesis sha) ys"
  shows "map (\<lambda>r. (row_values r, row_prev_hash r, row_hash r)) xs
       = map (\<lambda>r. (row_values r, row_prev_hash r, row_hash r)) ys"
  using assms
proof (induction xs arbitrary: ys rule: rev_induct)
  case Nil
  show ?case
  proof (cases ys rule: rev_cases)
    case (snoc bs b)
    with Nil.prems have "sha genesis_preimage = sha (audit_row_preimage (row_prev_hash b) (row_values b))"
      by (simp add: audit_chain_genesis_def audit_row_hash_def)
    then have "genesis_preimage = audit_row_preimage (row_prev_hash b) (row_values b)"
      by (rule inj_onD [OF Nil.prems(5)]) (simp_all add: chain_preimages_def snoc)
    with genesis_not_row show ?thesis by blast
  qed simp
next
  case (snoc a as)
  show ?case
  proof (cases ys rule: rev_cases)
    case Nil
    with snoc.prems have "sha genesis_preimage = sha (audit_row_preimage (row_prev_hash a) (row_values a))"
      by (simp add: audit_chain_genesis_def audit_row_hash_def)
    then have "genesis_preimage = audit_row_preimage (row_prev_hash a) (row_values a)"
      by (rule inj_onD [OF snoc.prems(5)]) (simp_all add: chain_preimages_def)
    with genesis_not_row show ?thesis by blast
  next
    case bs: (snoc bs b)
    let ?g = "audit_chain_genesis sha"
    have h: "sha (audit_row_preimage (row_prev_hash a) (row_values a))
        = sha (audit_row_preimage (row_prev_hash b) (row_values b))"
      using snoc.prems bs by (simp add: audit_row_hash_def)
    have "audit_row_preimage (row_prev_hash a) (row_values a) = audit_row_preimage (row_prev_hash b) (row_values b)"
      by (rule inj_onD [OF snoc.prems(5) h]) (simp_all add: chain_preimages_def bs)
    then have ab: "row_prev_hash a = row_prev_hash b" "row_values a = row_values b"
      using audit_row_preimage_inj [of "row_prev_hash a" "row_prev_hash b"] snoc.prems(3,4) bs
      by (auto simp: log_shape_def row_shape_def)
    have "inj_on sha (chain_preimages as \<union> chain_preimages bs)"
      by (rule inj_on_subset [OF snoc.prems(5)]) (auto simp: chain_preimages_def bs)
    moreover have "tip_of ?g as = tip_of ?g bs" using snoc.prems(1,2) ab(1) bs by simp
    ultimately have "map (\<lambda>r. (row_values r, row_prev_hash r, row_hash r)) as
        = map (\<lambda>r. (row_values r, row_prev_hash r, row_hash r)) bs"
      using snoc.IH [of bs] snoc.prems bs by (simp add: log_shape_def)
    with ab bs snoc.prems(6) show ?thesis by simp
  qed
qed

text \<open>
  The tip fixes the log. Two tables that both verify and end in the same tip hold the same rows, in the
  same order, with the same values in every chained column, unless the digest collides on two of the
  very texts hashed for their rows. So whoever noted the tip the proxy logged can tell any rewriting,
  reordering or truncation of the rows before it.
\<close>

theorem same_tip_same_log:
  assumes "verify_chain sha rows = ChainOk n tip" and "verify_chain sha rows' = ChainOk n' tip"
    and "log_shape rows" and "log_shape rows'"
    and "inj_on sha (chain_preimages rows \<union> chain_preimages rows')"
  shows "n = n' \<and> map (\<lambda>r. (row_values r, row_prev_hash r, row_hash r)) rows
       = map (\<lambda>r. (row_values r, row_prev_hash r, row_hash r)) rows'"
proof -
  have "map (\<lambda>r. (row_values r, row_prev_hash r, row_hash r)) rows
       = map (\<lambda>r. (row_values r, row_prev_hash r, row_hash r)) rows'"
    using assms by (intro linked_same_tip [of sha]) (auto simp: verify_chain_ok_iff)
  moreover from arg_cong [OF this, of length] have "length rows = length rows'" by simp
  ultimately show ?thesis using assms(1,2) by (simp add: verify_chain_ok_iff)
qed

lemma demo_shape: "log_shape [demo_row]"
  by (simp add: log_shape_def row_shape_def)

lemma demo_sha_inj: "inj_on demo_sha (insert genesis_preimage {audit_row_preimage p vs})"
  using genesis_not_row [of p vs] by (auto simp: inj_on_def demo_sha_def)

theorem same_tip_same_log_witness:
  "map row_values [demo_row] = map row_values [demo_row\<lparr>row_id := 9\<rparr>]"
proof -
  let ?row = "demo_row\<lparr>row_id := 9\<rparr>"
  have v: "verify_chain demo_sha [?row] = ChainOk 1 (replicate 64 CHR ''b'')"
    by (simp add: verify_chain_ok_iff)
  have "inj_on demo_sha (chain_preimages [demo_row] \<union> chain_preimages [?row])"
    using demo_sha_inj [of "row_prev_hash demo_row" "row_values demo_row"]
    by (simp add: chain_preimages_def insert_absorb2)
  from same_tip_same_log [OF demo_verifies v demo_shape _ this] show ?thesis
    using demo_shape by (simp add: log_shape_def row_shape_def)
qed

text \<open>
  The walk points at the damage. In a log that verified, an edit of one row's values is reported at that
  row as a content break, whatever it changed, and the deletion of a row is reported at its successor
  as a broken link, each with the number of rows before it that still verify.
\<close>

theorem tampering_located:
  assumes "verify_chain sha (xs @ r # y # ys) = ChainOk n tip"
    and "log_shape (xs @ r # y # ys)" and "length vs = length chained_columns" and "vs \<noteq> row_values r"
    and "inj_on sha {audit_row_preimage (row_prev_hash r) vs, audit_row_preimage (row_prev_hash r) (row_values r)}"
    and "row_hash r \<noteq> row_prev_hash r"
  shows "verify_chain sha (xs @ r\<lparr>row_values := vs\<rparr> # y # ys) = ChainBroken (length xs) (row_id r) BrokenContent
    \<and> verify_chain sha (xs @ y # ys) = ChainBroken (length xs) (row_id y) BrokenLink"
proof -
  let ?g = "audit_chain_genesis sha"
  have l: "linked sha ?g xs" "row_prev_hash r = tip_of ?g xs"
    "audit_row_hash sha (tip_of ?g xs) (row_values r) = row_hash r" "row_prev_hash y = row_hash r"
    using assms(1) by (simp_all add: verify_chain_ok_iff)
  have "audit_row_preimage (row_prev_hash r) vs \<noteq> audit_row_preimage (row_prev_hash r) (row_values r)"
    using audit_row_preimage_inj [OF refl assms(3)] assms(2,4) by (auto simp: log_shape_def row_shape_def)
  with assms(5) have "audit_row_hash sha (tip_of ?g xs) vs \<noteq> row_hash r"
    unfolding l(3) [symmetric] audit_row_hash_def l(2) [symmetric] by (auto dest: inj_onD)
  with l assms(6) show ?thesis by (simp add: verify_chain_def walk_chain_append)
qed

definition edited_record :: audit_record where
  "edited_record = demo_record\<lparr>ar_outcome := Ran\<rparr>"

definition edited_sha :: "string \<Rightarrow> string" where
  "edited_sha x =
     (if x = audit_row_preimage (replicate 64 CHR ''a'') (audit_row_values edited_record)
      then replicate 64 CHR ''c'' else demo_sha x)"

lemma edited_values: "audit_row_values edited_record \<noteq> audit_row_values demo_record"
  by (simp add: audit_row_values_def edited_record_def demo_record_def)

lemma edited_sha_simps:
  "audit_chain_genesis edited_sha = replicate 64 CHR ''a''"
  "length prev = 64 \<Longrightarrow> audit_row_hash edited_sha prev (audit_row_values demo_record) = replicate 64 CHR ''b''"
proof -
  show "audit_chain_genesis edited_sha = replicate 64 CHR ''a''"
    using genesis_not_row by (simp add: audit_chain_genesis_def edited_sha_def demo_sha_def)
  assume "length prev = 64"
  then have "audit_row_preimage prev (audit_row_values demo_record)
      \<noteq> audit_row_preimage (replicate 64 CHR ''a'') (audit_row_values edited_record)"
    using audit_row_preimage_inj [of prev "replicate 64 CHR ''a''" "audit_row_values demo_record"
        "audit_row_values edited_record"] edited_values by auto
  then show "audit_row_hash edited_sha prev (audit_row_values demo_record) = replicate 64 CHR ''b''"
    using demo_sha_simps(2) [of prev "audit_row_values demo_record"]
    by (simp add: audit_row_hash_def edited_sha_def)
qed

theorem tampering_located_witness:
  "verify_chain edited_sha [demo_row\<lparr>row_values := audit_row_values edited_record\<rparr>,
      demo_row\<lparr>row_id := 2, row_prev_hash := replicate 64 CHR ''b''\<rparr>] = ChainBroken 0 1 BrokenContent"
proof -
  let ?y = "demo_row\<lparr>row_id := 2, row_prev_hash := replicate 64 CHR ''b''\<rparr>"
  have v: "verify_chain edited_sha ([] @ demo_row # ?y # []) = ChainOk 2 (replicate 64 CHR ''b'')"
    by (simp add: verify_chain_ok_iff edited_sha_simps)
  have s: "log_shape ([] @ demo_row # ?y # [])" by (simp add: log_shape_def row_shape_def)
  have "audit_row_preimage (row_prev_hash demo_row) (audit_row_values edited_record)
      \<noteq> audit_row_preimage (row_prev_hash demo_row) (row_values demo_row)"
    using audit_row_preimage_inj [OF refl, of "audit_row_values edited_record" "row_values demo_row"]
      edited_values by auto
  moreover have "replicate 64 CHR ''c'' \<noteq> replicate 64 CHR ''a''" "replicate 64 CHR ''c'' \<noteq> replicate 64 CHR ''b''"
    by simp_all
  ultimately have i: "inj_on edited_sha {audit_row_preimage (row_prev_hash demo_row) (audit_row_values edited_record),
      audit_row_preimage (row_prev_hash demo_row) (row_values demo_row)}"
    by (auto simp: inj_on_def edited_sha_def demo_sha_def)
  have "row_hash demo_row \<noteq> row_prev_hash demo_row" by simp
  from tampering_located [OF v s row_shape_values _ i this] edited_values show ?thesis by simp
qed

text \<open>
  A fork is refused. Once a row claiming the writer's tip as its predecessor is in the table, by whatever
  hand, the writer's appends fail and leave the table as it is; and an append that succeeds never
  leaves two rows with one predecessor where there were none.
\<close>

theorem fork_refused:
  assumes "distinct (map row_prev_hash (log_rows lg))"
  shows "(log_tip lg \<in> row_prev_hash ` set (log_rows lg) \<longrightarrow> audit_append sha throws r lg = (Inl (), lg))
    \<and> distinct (map row_prev_hash (log_rows (snd (audit_append sha throws r lg))))"
proof (cases "insert_row throws (audit_row_values r) (log_tip lg)
    (audit_row_hash sha (log_tip lg) (audit_row_values r)) (log_rows lg)")
  case (Inl u)
  then show ?thesis using assms by (simp add: audit_append_def Let_def)
next
  case (Inr rows)
  from insert_row_Inr [OF this] Inr assms show ?thesis by (auto simp: audit_append_def Let_def)
qed

theorem fork_refused_witness:
  "audit_append demo_sha False demo_record \<lparr>log_rows = [demo_row], log_tip = replicate 64 CHR ''a''\<rparr>
     = (Inl (), \<lparr>log_rows = [demo_row], log_tip = replicate 64 CHR ''a''\<rparr>)"
  using fork_refused [of "\<lparr>log_rows = [demo_row], log_tip = replicate 64 CHR ''a''\<rparr>" demo_sha False demo_record]
  by simp

subsection \<open>The migration\<close>

lemma row_fields_source:
  "row_fields columns (map (\<lambda>c. if c \<in> present then row c else SqlNull) columns)
     = row_fields (filter (\<lambda>c. c \<in> present) columns) (map row (filter (\<lambda>c. c \<in> present) columns))"
  by (induction columns) (simp_all add: row_fields_def)

text \<open>The columns an older build chained: those of today's that it had, in today's order.\<close>

definition old_columns :: "audit_file \<Rightarrow> string list" where
  "old_columns f = filter (\<lambda>c. c \<in> set (af_columns f)) chained_columns"

text \<open>The walk an older build would make over its own file.\<close>

fun old_linked ::
    "(string \<Rightarrow> string) \<Rightarrow> string list \<Rightarrow> (nat \<times> (string \<Rightarrow> sql_value) \<times> string \<times> string) list \<Rightarrow> string \<Rightarrow> bool"
where
  "old_linked sha columns [] tip = True"
| "old_linked sha columns ((i, row, prev, hash) # rest) tip \<longleftrightarrow>
     prev = tip \<and> sha (row_preimage columns tip (map row columns)) = hash \<and> old_linked sha columns rest hash"

lemma rebuilt_chained:
  "af_chained f \<Longrightarrow> old_linked sha (old_columns f) rows tip \<Longrightarrow> linked sha tip (rebuild_rows sha f rows tip)"
proof (induction sha f rows tip rule: rebuild_rows.induct)
  case (2 sha f i row prev hash rest tip)
  then show ?case
    by (simp add: Let_def audit_row_hash_def audit_row_preimage_def row_preimage_def source_values_def
        old_columns_def row_fields_source)
qed simp

lemma rebuilt_fresh: "\<not> af_chained f \<Longrightarrow> linked sha tip (rebuild_rows sha f rows tip)"
  by (induction sha f rows tip rule: rebuild_rows.induct) (simp_all add: Let_def)

lemma rebuilt_values:
  "map row_values (rebuild_rows sha f rows tip) = map (\<lambda>(i, row, prev, hash). source_values f row) rows
   \<and> map row_id (rebuild_rows sha f rows tip) = map fst rows"
  by (induction sha f rows tip rule: rebuild_rows.induct) (simp_all add: Let_def)

text \<open>
  A migration leaves a log that verifies: a file with no chain gets one over its rows, and a file whose
  chain verified under the fewer columns of its build still verifies under today's, with the same
  hashes, because a column it lacked is null in every row and a null column is not hashed. Ids and
  recorded values are kept.
\<close>

theorem migration_verifies:
  assumes "af_version f \<noteq> Some audit_schema_version" and "migrate_audit sha f = Inr rows"
    and "af_chained f \<longrightarrow> old_linked sha (old_columns f) (af_rows f) (audit_chain_genesis sha)"
  shows "(\<exists>tip. verify_chain sha rows = ChainOk (length (af_rows f)) tip)
    \<and> map row_id rows = map fst (af_rows f)
    \<and> map row_values rows = map (\<lambda>(i, row, prev, hash). source_values f row) (af_rows f)"
proof -
  have r: "rows = rebuild_rows sha f (af_rows f) (audit_chain_genesis sha)"
    using assms(1,2) by (auto simp: migrate_audit_def Let_def split: if_splits)
  then have "linked sha (audit_chain_genesis sha) rows"
    using rebuilt_chained rebuilt_fresh assms(3) by (cases "af_chained f") auto
  moreover have "map row_id rows = map fst (af_rows f)"
    "map row_values rows = map (\<lambda>(i, row, prev, hash). source_values f row) (af_rows f)"
    using rebuilt_values by (simp_all add: r)
  moreover from this(1) have "length rows = length (af_rows f)" by (metis length_map)
  ultimately show ?thesis by (simp add: verify_chain_ok_iff)
qed

definition demo_file :: audit_file where
  "demo_file = \<lparr>af_version = Some 4, af_columns = [''at'', ''channel''], af_chained = False,
     af_rows = [(3, (\<lambda>c. SqlText c), [], [])]\<rparr>"

theorem migration_verifies_witness:
  "\<exists>rows tip. migrate_audit demo_sha demo_file = Inr rows \<and> verify_chain demo_sha rows = ChainOk 1 tip"
proof -
  have m: "migrate_audit demo_sha demo_file = Inr (rebuild_rows demo_sha demo_file (af_rows demo_file) (audit_chain_genesis demo_sha))"
    by (simp add: migrate_audit_def audit_schema_version_def demo_file_def Let_def)
  have "af_version demo_file \<noteq> Some audit_schema_version" by (simp add: demo_file_def audit_schema_version_def)
  from migration_verifies [OF this m] show ?thesis using m by (auto simp: demo_file_def)
qed

end
