(* ===== verification/Audit_Reader.thy ===== *)
theory Audit_Reader
  imports Audit_Chain
begin

text \<open>
  What comes back from the audit log: \<open>rowToEntry\<close> after \<open>auditRowValues\<close>, the pages of a query, and the
  attempts store beside the log (\<open>packages/proxy/src/attempts-db.ts\<close>), which keeps the arguments a row
  carries the hash of.
\<close>

subsection \<open>The result breakdown, written and parsed\<close>

definition plain_name :: "string \<Rightarrow> bool" where
  "plain_name k \<longleftrightarrow> list_all (\<lambda>c. json_escape c = [c] \<and> c \<noteq> CHR 0x22) k"

definition count_field :: "string \<times> nat \<Rightarrow> string" where
  "count_field f = CHR 0x22 # fst f @ CHR 0x22 # CHR '':'' # dec (snd f)"

lemma json_quote_plain: "plain_name k \<Longrightarrow> json_quote k = CHR 0x22 # k @ [CHR 0x22]"
proof -
  assume "plain_name k"
  then have "concat (map json_escape k) = k"
    by (induction k) (simp_all add: plain_name_def)
  then show ?thesis by (simp add: json_quote_def)
qed

lemma json_field_count: "plain_name k \<Longrightarrow> json_field (k, JNum (dec n)) = count_field (k, n)"
  by (simp add: json_field_def count_field_def json_quote_plain)

lemma takeWhile_dec: "\<not> is_digit c \<Longrightarrow> takeWhile is_digit (dec n @ c # t) = dec n"
proof -
  assume "\<not> is_digit c"
  moreover have "\<forall>d \<in> set (dec n). is_digit d" using dec_digits [of n] by (simp add: list_all_iff)
  ultimately show ?thesis by (simp add: takeWhile_append2)
qed

lemma takeWhile_name: "plain_name k \<Longrightarrow> takeWhile (\<lambda>c. c \<noteq> CHR 0x22) (k @ CHR 0x22 # t) = k"
proof -
  assume "plain_name k"
  then have "\<forall>c \<in> set k. c \<noteq> CHR 0x22" by (simp add: plain_name_def list_all_iff)
  then show ?thesis by (simp add: takeWhile_append2)
qed

lemma drop_field: "drop (length k + 3) (a # k @ b # e # r) = r"
  by (simp add: numeral_3_eq_3)

lemma parse_fields_step:
  assumes "takeWhile (\<lambda>c. c \<noteq> CHR 0x22) (tl s) = k" "drop (length k + 3) s = r"
    and "takeWhile is_digit r = d" "drop (length d) r = c # t" "s \<noteq> []"
  shows "parse_fields s = (k, undec d) # (if c = CHR '','' then parse_fields t else [])"
  using assms(5) by (subst parse_fields.simps) (simp only: Let_def assms list.sel, simp)

lemma parse_fields_count:
  "fs \<noteq> [] \<Longrightarrow> \<forall>f \<in> set fs. plain_name (fst f) \<Longrightarrow>
     parse_fields (join_comma (map count_field fs) @ ''}'') = fs"
proof (induction fs)
  case (Cons f fs)
  obtain k n where f: "f = (k, n)" by (cases f)
  have k: "plain_name k" using Cons.prems f by simp
  have nd: "\<not> is_digit CHR ''}''" "\<not> is_digit CHR '',''" by (simp_all add: is_digit_def)
  have one: "parse_fields (count_field (k, n) @ c # t)
      = (k, n) # (if c = CHR '','' then parse_fields t else [])" if "\<not> is_digit c" for c t
  proof -
    have "parse_fields (count_field (k, n) @ c # t)
        = (k, undec (dec n)) # (if c = CHR '','' then parse_fields t else [])"
    proof (rule parse_fields_step)
      show "drop (length k + 3) (count_field (k, n) @ c # t) = dec n @ c # t"
        by (simp add: count_field_def drop_field)
      show "takeWhile (\<lambda>c. c \<noteq> CHR 0x22) (tl (count_field (k, n) @ c # t)) = k"
        by (simp add: count_field_def takeWhile_name [OF k])
    qed (simp_all add: takeWhile_dec [OF that])
    then show ?thesis by simp
  qed
  show ?case
  proof (cases fs)
    case Nil
    with one [OF nd(1), of "[]"] f show ?thesis by simp
  next
    case (Cons g gs)
    with one [OF nd(2), of "join_comma (map count_field fs) @ ''}''"] Cons.IH Cons.prems f
    show ?thesis by simp
  qed
qed simp

lemma parse_stable_json:
  assumes "\<forall>(k, n) \<in> set m. plain_name k"
  shows "parse_by_type (stable_json m) = sort_key fst m"
proof (cases "m = []")
  case False
  let ?s = "sort_key fst m"
  have p: "\<forall>f \<in> set ?s. plain_name (fst f)" using assms by auto
  have ne: "?s \<noteq> []" using False by (metis length_sort length_0_conv)
  have "map (\<lambda>(k, n). json_field (k, JNum (dec n))) ?s = map count_field ?s"
    by (rule map_cong [OF refl]) (use p in \<open>auto simp: json_field_count\<close>)
  then have j: "stable_json m = CHR ''{'' # join_comma (map count_field ?s) @ ''}''"
    unfolding stable_json_def by (rule arg_cong)
  have "join_comma (map count_field ?s) @ ''}'' \<noteq> ''}''"
    using ne by (cases ?s; cases "tl ?s") (auto simp: count_field_def)
  with j parse_fields_count [OF ne p] show ?thesis by (simp add: parse_by_type_def)
qed (simp add: parse_by_type_def stable_json_def)

subsection \<open>Reading a row\<close>

lemma find_inverse:
  "inj_on nm (set alls) \<Longrightarrow> x \<in> set alls \<Longrightarrow> List.find (\<lambda>y. SqlText (nm y) = SqlText (nm x)) alls = Some x"
  by (induction alls) (auto simp: inj_on_def)

lemma named_reason: "named reason_name all_reasons (text_value (map_option reason_name r)) = r"
proof (cases r)
  case (Some x)
  then show ?thesis by (cases x) (simp_all add: named_def all_reasons_def text_value_def)
qed (simp add: named_def text_value_def find_None_iff)

lemma named_limit: "named limit_name all_limits (text_value (map_option limit_name r)) = r"
proof (cases r)
  case (Some x)
  then show ?thesis by (cases x) (simp_all add: named_def all_limits_def text_value_def)
qed (simp add: named_def text_value_def find_None_iff)

lemma named_outcome: "named outcome_name all_outcomes (SqlText (outcome_name out)) = Some out"
  by (cases out) (simp_all add: named_def all_outcomes_def)

lemma unless_null_text: "unless_null (text_value v) (\<lambda>v. f (text_of v)) = map_option f v"
  by (cases v) (simp_all add: unless_null_def text_value_def)

lemma unless_null_text_of: "unless_null (text_value v) text_of = v"
  by (cases v) (simp_all add: unless_null_def text_value_def)

lemma unless_null_int: "unless_null (int_value v) int_of_value = v"
  by (cases v) (simp_all add: unless_null_def int_value_def)

lemma unless_null_flag:
  "unless_null (int_value (map_option (\<lambda>e. if e then 1 else 0) v)) (\<lambda>v. v = SqlInt 1) = v"
  by (cases v) (simp_all add: unless_null_def int_value_def)

lemma columns_of_record:
  assumes "row_values row = audit_row_values r"
  shows "column_at ''at'' row = SqlInt (ar_at r)" "column_at ''channel'' row = SqlText (ar_channel r)"
    "column_at ''requesting_user'' row = SqlText (ar_requesting_user r)" "column_at ''task'' row = SqlText (ar_task r)"
    "column_at ''request_id'' row = SqlText (ar_request_id r)" "column_at ''call_id'' row = SqlText (ar_call_id r)"
    "column_at ''server'' row = SqlText (ar_server r)" "column_at ''tool'' row = SqlText (ar_tool r)"
    "column_at ''arguments_sha256'' row = SqlText (ar_arguments_sha256 r)"
    "column_at ''outcome'' row = SqlText (outcome_name (ar_outcome r))"
    "column_at ''refusal_reason'' row = text_value (map_option reason_name (ar_refusal_reason r))"
    "column_at ''budget_limit'' row = text_value (map_option limit_name (ar_budget_limit r))"
    "column_at ''day_spend_micro_usd'' row = int_value (ar_day_spend_micro_usd r)"
    "column_at ''price_version'' row = text_value (ar_price_version r)"
    "column_at ''result_bytes'' row = int_value (ar_result_bytes r)"
    "column_at ''result_is_error'' row = int_value (map_option (\<lambda>e. if e then 1 else 0) (ar_result_is_error r))"
    "column_at ''approver'' row = text_value (ar_approver r)" "column_at ''ticket'' row = text_value (ar_ticket r)"
    "column_at ''result_bytes_by_type'' row = text_value (map_option stable_json (ar_result_bytes_by_type r))"
  using assms by (simp_all add: column_at_def chained_columns_def audit_row_values_def)

text \<open>
  What the reader returns is what was recorded, column for column, with the breakdown's keys sorted,
  except that it never returns a destination: the row holds one and no entry does.
\<close>

theorem entry_is_record_without_destination:
  assumes "row_values row = audit_row_values r"
    and "\<forall>m. ar_result_bytes_by_type r = Some m \<longrightarrow> (\<forall>(k, n) \<in> set m. plain_name k)"
  shows "\<exists>e. row_to_entry row = Some e \<and>
    audit_record.truncate e = r\<lparr>ar_destination := None,
      ar_result_bytes_by_type := map_option (sort_key fst) (ar_result_bytes_by_type r)\<rparr> \<and>
    en_id e = row_id row \<and> en_prev_hash e = row_prev_hash row \<and> en_row_hash e = row_hash row"
proof -
  have b: "unless_null (text_value (map_option stable_json (ar_result_bytes_by_type r))) (\<lambda>v. parse_by_type (text_of v))
      = map_option (sort_key fst) (ar_result_bytes_by_type r)"
    using assms(2) parse_stable_json
    by (cases "ar_result_bytes_by_type r") (auto simp: unless_null_def text_value_def)
  show ?thesis
    unfolding row_to_entry_def columns_of_record [OF assms(1)] named_outcome named_reason named_limit b
      unless_null_text_of unless_null_int unless_null_flag
    by (simp add: audit_record.truncate_def)
qed

theorem entry_is_record_without_destination_witness:
  "\<exists>e. row_to_entry demo_row = Some e \<and> ar_destination e = None \<and> ar_destination demo_record = Some ''evil.example''"
proof -
  have "row_values demo_row = audit_row_values demo_record" by simp
  from entry_is_record_without_destination [OF this] obtain e where
    e: "row_to_entry demo_row = Some e" "audit_record.truncate e = demo_record\<lparr>ar_destination := None,
      ar_result_bytes_by_type := map_option (sort_key fst) (ar_result_bytes_by_type demo_record)\<rparr>"
    by (auto simp: demo_record_def)
  from arg_cong [OF e(2), of ar_destination] have "ar_destination e = None"
    by (simp add: audit_record.truncate_def)
  with e(1) show ?thesis by (simp add: demo_record_def)
qed

subsection \<open>The attempts store\<close>

definition max_attempt_bytes :: nat where
  "max_attempt_bytes = 1048576"

type_synonym attempt_store = "(string, string \<times> nat) jsmap"

record stored_attempt =
  sa_arguments_sha256 :: string
  sa_arguments_json :: string
  sa_first_seen_at :: nat
  sa_verified :: bool

definition attempt_record ::
    "(string \<Rightarrow> string) \<Rightarrow> json \<Rightarrow> nat \<Rightarrow> attempt_store \<Rightarrow> (unit + string) \<times> attempt_store" where
  "attempt_record sha args now store =
     (let text = canonical_json args
      in if length text > max_attempt_bytes then (Inl (), store)
         else let digest = sha text
           in (Inr digest, if js_get store digest = None then js_set digest (text, now) store else store))"

definition attempt_read :: "(string \<Rightarrow> string) \<Rightarrow> string \<Rightarrow> attempt_store \<Rightarrow> stored_attempt option" where
  "attempt_read sha digest store =
     map_option (\<lambda>(text, first_seen). \<lparr>sa_arguments_sha256 = digest, sa_arguments_json = text,
        sa_first_seen_at = first_seen, sa_verified = (sha text = digest)\<rparr>) (js_get store digest)"

definition attempt_delete :: "string \<Rightarrow> attempt_store \<Rightarrow> bool \<times> attempt_store" where
  "attempt_delete digest store = (js_get store digest \<noteq> None, js_delete digest store)"

definition attempts_ok :: "(string \<Rightarrow> string) \<Rightarrow> attempt_store \<Rightarrow> bool" where
  "attempts_ok sha store \<longleftrightarrow> (\<forall>d text t. js_get store d = Some (text, t) \<longrightarrow> sha text = d)"

lemma attempts_ok_record [inv_preserved]:
  "attempts_ok sha store \<Longrightarrow> attempts_ok sha (snd (attempt_record sha args now store))"
  by (auto simp: attempts_ok_def attempt_record_def Let_def)

lemma attempts_ok_delete [inv_preserved]:
  "attempts_ok sha store \<Longrightarrow> attempts_ok sha (snd (attempt_delete d store))"
  by (auto simp: attempts_ok_def attempt_delete_def delete_conv' split: if_splits)

text \<open>
  The stored attempt is the text the audit row's hash covers: after arguments within the cap were
  recorded, the hash reads back a verified entry, the first one stays when the same arguments come
  again in any key order, and the entry of arguments not seen before is their canonical JSON.
\<close>

theorem attempt_read_back:
  assumes "attempts_ok sha store" and "json_wf args"
    and "length (canonical_json args) \<le> max_attempt_bytes"
    and "attempt_record sha args now store = (r, store')"
  shows "r = Inr (sha (canonical_json args))
    \<and> (\<exists>a. attempt_read sha (sha (canonical_json args)) store' = Some a \<and> sa_verified a \<and>
        sha (sa_arguments_json a) = sha (canonical_json args) \<and>
        (js_get store (sha (canonical_json args)) = None \<longrightarrow>
           sa_arguments_json a = canonical_json args \<and> sa_first_seen_at a = now))
    \<and> (\<forall>again later. json_wf again \<and> sorted_keys again = sorted_keys args \<longrightarrow>
        attempt_record sha again later store' = (r, store'))"
proof -
  let ?t = "canonical_json args"
  have r: "r = Inr (sha ?t)" and s: "store' = (if js_get store (sha ?t) = None
      then js_set (sha ?t) (?t, now) store else store)"
    using assms(3,4) by (auto simp: attempt_record_def Let_def)
  have ok: "attempts_ok sha store'" using attempts_ok_record [OF assms(1), of args now] assms(4) by simp
  obtain body t where g: "js_get store' (sha ?t) = Some (body, t)"
    by (cases "js_get store (sha ?t)") (auto simp: s)
  then have v: "sha body = sha ?t" using ok by (simp add: attempts_ok_def)
  have "attempt_record sha again later store' = (r, store')"
    if "json_wf again" "sorted_keys again = sorted_keys args" for again later
  proof -
    have "canonical_json again = ?t" using that assms(2) canonical_json_eq_iff by blast
    with g r assms(3) show ?thesis by (simp add: attempt_record_def Let_def)
  qed
  moreover have "js_get store (sha ?t) = None \<Longrightarrow> body = ?t \<and> t = now" using g by (simp add: s)
  ultimately show ?thesis using r g v by (simp add: attempt_read_def)
qed

theorem attempt_read_back_witness:
  "\<exists>a. attempt_read demo_sha (demo_sha (canonical_json (JObj []))) (snd (attempt_record demo_sha (JObj []) 7 [])) = Some a
     \<and> sa_verified a"
proof -
  have "attempts_ok demo_sha []" "json_wf (JObj [])" by (simp_all add: attempts_ok_def)
  moreover have "length (canonical_json (JObj [])) \<le> max_attempt_bytes" by (simp add: max_attempt_bytes_def)
  moreover obtain r store' where r: "attempt_record demo_sha (JObj []) 7 [] = (r, store')"
    by (cases "attempt_record demo_sha (JObj []) 7 []")
  ultimately show ?thesis using attempt_read_back [of demo_sha "[]" "JObj []" 7 r store'] by fastforce
qed

end
