(* ===== verification/Drift.thy ===== *)
theory Drift
  imports Budget
begin

text \<open>
  The price-drift record (\<open>packages/proxy/src/drift-db.ts\<close>): what each turn was reported to cost,
  summed per day, channel and model. One upsert adds a report to its cell; a write that throws is
  logged and swallowed, so the table is a sum of the reports that were written. The lemmas give
  that reading: a cell holds the number, the tokens and the cost of exactly those reports.
\<close>

subsection \<open>The table\<close>

record reported_cost =
  rep_model :: string
  rep_usage :: token_counts
  rep_cost_nano_usd :: nat

record drift_cell =
  dc_turns :: nat
  dc_usage :: token_counts
  dc_reported_nano_usd :: nat

record drift_row =
  dr_day :: nat
  dr_channel :: string
  dr_model :: string
  dr_turns :: nat
  dr_usage :: token_counts
  dr_reported_nano_usd :: nat

type_synonym drift_table = "(nat \<times> string \<times> string, drift_cell) jsmap"

definition drift_schema_version :: nat where
  "drift_schema_version = 1"

definition add_cost :: "reported_cost \<Rightarrow> drift_cell \<Rightarrow> drift_cell" where
  "add_cost cost cell = \<lparr>dc_turns = dc_turns cell + 1, dc_usage = add_counts (dc_usage cell) (rep_usage cost),
     dc_reported_nano_usd = dc_reported_nano_usd cell + rep_cost_nano_usd cost\<rparr>"

text \<open>The upsert, and the catch around it.\<close>

definition record_reported :: "bool \<Rightarrow> string \<Rightarrow> nat \<Rightarrow> reported_cost \<Rightarrow> drift_table \<Rightarrow> drift_table" where
  "record_reported throws channel day cost table =
     (if throws then table
      else case js_get table (day, channel, rep_model cost) of
          None \<Rightarrow> js_set (day, channel, rep_model cost)
              \<lparr>dc_turns = 1, dc_usage = rep_usage cost, dc_reported_nano_usd = rep_cost_nano_usd cost\<rparr> table
        | Some cell \<Rightarrow> js_set (day, channel, rep_model cost) (add_cost cost cell) table)"

text \<open>\<open>ORDER BY day, model, channel\<close>; every count but the cost goes through \<open>Number(bigint)\<close>.\<close>

definition drift_read_all :: "drift_table \<Rightarrow> drift_row list" where
  "drift_read_all table =
     map (\<lambda>((day, channel, model), cell). \<lparr>dr_day = day, dr_channel = channel, dr_model = model,
         dr_turns = js_number_nat (dc_turns cell),
         dr_usage = \<lparr>tk_input = js_number_nat (tk_input (dc_usage cell)),
           tk_output = js_number_nat (tk_output (dc_usage cell)),
           tk_cache_read = js_number_nat (tk_cache_read (dc_usage cell)),
           tk_cache_write = js_number_nat (tk_cache_write (dc_usage cell))\<rparr>,
         dr_reported_nano_usd = dc_reported_nano_usd cell\<rparr>)
       (sort_key (\<lambda>((day, channel, model), cell). day)
         (sort_key (\<lambda>((day, channel, model), cell). model)
           (sort_key (\<lambda>((day, channel, model), cell). channel) table)))"

text \<open>Opening: the version row a new file gets, and the refusal of any other version.\<close>

definition migrate_drift :: "nat option \<Rightarrow> unit + nat" where
  "migrate_drift version =
     (case version of
        None \<Rightarrow> Inr drift_schema_version
      | Some v \<Rightarrow> if v = drift_schema_version then Inr v else Inl ())"

subsection \<open>A cell is the sum of its reports\<close>

record drift_report =
  drp_throws :: bool
  drp_channel :: string
  drp_day :: nat
  drp_cost :: reported_cost

definition record_report :: "drift_report \<Rightarrow> drift_table \<Rightarrow> drift_table" where
  "record_report r = record_reported (drp_throws r) (drp_channel r) (drp_day r) (drp_cost r)"

definition reports_of :: "nat \<times> string \<times> string \<Rightarrow> drift_report list \<Rightarrow> reported_cost list" where
  "reports_of key rs = map drp_cost (filter (\<lambda>r. \<not> drp_throws r
     \<and> (drp_day r, drp_channel r, rep_model (drp_cost r)) = key) rs)"

definition cell_of_reports :: "reported_cost list \<Rightarrow> drift_cell option" where
  "cell_of_reports cs =
     (if cs = [] then None
      else Some \<lparr>dc_turns = length cs,
        dc_usage = \<lparr>tk_input = (\<Sum>c\<leftarrow>cs. tk_input (rep_usage c)), tk_output = (\<Sum>c\<leftarrow>cs. tk_output (rep_usage c)),
          tk_cache_read = (\<Sum>c\<leftarrow>cs. tk_cache_read (rep_usage c)),
          tk_cache_write = (\<Sum>c\<leftarrow>cs. tk_cache_write (rep_usage c))\<rparr>,
        dc_reported_nano_usd = (\<Sum>c\<leftarrow>cs. rep_cost_nano_usd c)\<rparr>)"

lemma reports_of_snoc:
  "reports_of key (rs @ [r]) = reports_of key rs @ (if \<not> drp_throws r
     \<and> (drp_day r, drp_channel r, rep_model (drp_cost r)) = key then [drp_cost r] else [])"
  by (simp add: reports_of_def)

lemma cell_of_reports_snoc:
  "cell_of_reports (cs @ [c]) = Some (case cell_of_reports cs of
       None \<Rightarrow> \<lparr>dc_turns = 1, dc_usage = rep_usage c, dc_reported_nano_usd = rep_cost_nano_usd c\<rparr>
     | Some cell \<Rightarrow> add_cost c cell)"
  by (auto simp: cell_of_reports_def add_cost_def add_counts_def)

lemma js_map_wf_record_report [inv_preserved]: "js_map_wf table \<Longrightarrow> js_map_wf (record_report r table)"
  by (auto simp: record_report_def record_reported_def split: option.splits)

text \<open>
  After any sequence of reports, some of whose writes throw, a cell of the drift table holds the
  count, the token sums and the cost sum of exactly the reports of its day, channel and model whose
  write did not throw, and a key no such report has is absent; the table has one row per key.
\<close>

theorem drift_cells_are_sums:
  "js_get (fold record_report rs []) key = cell_of_reports (reports_of key rs)
   \<and> js_map_wf (fold record_report rs [])"
proof (induction rs rule: rev_induct)
  case Nil
  show ?case by (simp add: reports_of_def cell_of_reports_def)
next
  case (snoc r rs)
  then show ?case
    by (auto simp: reports_of_snoc cell_of_reports_snoc record_report_def record_reported_def
        js_map_wf_record_report [unfolded record_report_def] split: option.splits)
qed

end
