(* ===== verification/Server_Call.thy ===== *)
theory Server_Call
  imports Enforce_Listing Approvals Budget_Spend Audit_Reader Drift
begin

text \<open>
  The tool-call route, \<open>callTool\<close> of \<open>packages/proxy/src/server.ts\<close>, split where the code awaits
  something another request can run during: \<open>begin_call\<close> up to the resolved sheet and the read
  spend, \<open>admit\<close> from the decision to the dispatch, \<open>finish\<close> from the dispatcher's answer to the
  response. Each is one synchronous stretch of the handler, so each is one step of the system.

  What the code cannot control is an argument: the clock readings (\<open>readings\<close>), which write throws
  (\<open>io_faults\<close>), the id a mint draws, what the sheet source and the dispatcher answer.
\<close>

subsection \<open>Responses\<close>

datatype error_code =
    Unauthenticated | BadRequest | PayloadTooLarge | NotFound | MethodNotAllowed | NotImplemented | Internal

fun error_status :: "error_code \<Rightarrow> nat" where
  "error_status Unauthenticated = 401"
| "error_status BadRequest = 400"
| "error_status PayloadTooLarge = 413"
| "error_status NotFound = 404"
| "error_status MethodNotAllowed = 405"
| "error_status NotImplemented = 501"
| "error_status Internal = 500"

record proxy_error =
  pe_code :: error_code
  pe_message :: string
  pe_request_id :: string
  pe_channel :: "string option"

datatype approval_reply =
    ReplyRecorded string approval_verdict
  | ReplyAlreadyDecided string approval_verdict
  | ReplyExpired string
  | ReplyUnknown string

record listed_tool =
  lt_tool :: permitted_tool
  lt_description :: "string option"
  lt_input_schema :: "json option"

datatype reply_body =
    CallRefused string tool_refusal
  | CallHeld string tool_refusal string nat
  | CallRan string tool_result "budget_warning option"
  | HealthReply nat
  | WhoamiReply string
  | ListingReply "listed_tool list"
  | SpendReply report_outcome
  | BudgetReply "tool_refusal option"
  | ApprovalReply approval_reply

datatype http_reply = HttpOk reply_body | HttpError proxy_error

definition make_error :: "error_code \<Rightarrow> string \<Rightarrow> string \<Rightarrow> string option \<Rightarrow> http_reply" where
  "make_error code message request_id channel =
     HttpError \<lparr>pe_code = code, pe_message = message, pe_request_id = request_id, pe_channel = channel\<rparr>"

datatype unavailable_reason =
    NoGrant | GrantDead | MintFailed | RunnerUnreachable | RunnerError | RunnerBusy

fun unavailable_text :: "unavailable_reason option \<Rightarrow> string" where
  "unavailable_text None = ''the call is permitted, and this proxy has no upstream to serve it''"
| "unavailable_text (Some NoGrant) =
     ''the call is permitted, and this proxy holds no grant for its upstream; run the grant flow''"
| "unavailable_text (Some GrantDead) =
     ''the call is permitted, and the grant for its upstream is dead; re-run the grant flow''"
| "unavailable_text (Some MintFailed) =
     ''the call is permitted, and no live access token could be minted for its upstream''"
| "unavailable_text (Some RunnerUnreachable) =
     ''the call is permitted, and this proxy could not reach the sandbox runner''"
| "unavailable_text (Some RunnerError) =
     ''the call is permitted, and the sandbox runner could not serve it''"
| "unavailable_text (Some RunnerBusy) =
     ''the call is permitted, and this deployment is already running as many sandboxes as it allows at once''"

fun approval_refusal :: "redeem_result \<Rightarrow> resolved_call \<Rightarrow> tool_refusal" where
  "approval_refusal RedeemUnknown call = ApprovalUnknown (tc_server call) (tc_tool call)"
| "approval_refusal (RedeemPending _) call = ApprovalPending (tc_server call) (tc_tool call)"
| "approval_refusal (RedeemDenied _) call = ApprovalDenied (tc_server call) (tc_tool call)"
| "approval_refusal (RedeemSpent _) call = ApprovalSpent (tc_server call) (tc_tool call)"
| "approval_refusal (RedeemMismatch _) call = ApprovalMismatch (tc_server call) (tc_tool call)"
| "approval_refusal (RedeemExpired _ _) call = ApprovalExpired (tc_server call) (tc_tool call)"
| "approval_refusal (Redeemed _) call = ApprovalUnknown (tc_server call) (tc_tool call)"

subsection \<open>The dispatcher\<close>

datatype dispatched =
    DispatchRan tool_result
  | DispatchRefused tool_refusal
  | DispatchUnavailable "unavailable_reason option"

text \<open>
  \<open>createToolDispatcher\<close>: three arms, and a stand-in that answers \<open>unavailable\<close> for a missing one.
  The arms themselves are arguments.
\<close>

definition tool_dispatch ::
    "(resolved_call \<Rightarrow> mcp_server \<Rightarrow> nat \<Rightarrow> dispatched) \<Rightarrow>
     (resolved_call \<Rightarrow> builtin_name \<Rightarrow> nat \<Rightarrow> dispatched) option \<Rightarrow>
     (resolved_call \<Rightarrow> sandbox_caps \<Rightarrow> string list \<Rightarrow> nat \<Rightarrow> dispatched) option \<Rightarrow>
     resolved_call \<Rightarrow> target \<Rightarrow> nat \<Rightarrow> dispatched"
where
  "tool_dispatch mcp builtin sandbox call tgt limits =
     (case tgt of
        McpTarget upstream \<Rightarrow> mcp call upstream limits
      | SandboxTarget caps egress \<Rightarrow>
          (case sandbox of None \<Rightarrow> DispatchUnavailable None | Some run \<Rightarrow> run call caps egress limits)
      | StoreTarget n \<Rightarrow>
          (case builtin of None \<Rightarrow> DispatchUnavailable None | Some run \<Rightarrow> run call n limits))"

text \<open>The composed dispatcher is provisional only when every arm is; a real one needs a real meter.\<close>

definition dispatcher_provisional :: "bool \<Rightarrow> bool \<Rightarrow> bool \<Rightarrow> bool" where
  "dispatcher_provisional mcp builtin sandbox \<longleftrightarrow> mcp \<and> builtin \<and> sandbox"

definition assert_servable_composition :: "bool \<Rightarrow> bool \<Rightarrow> unit + unit" where
  "assert_servable_composition spend_provisional dispatch_provisional =
     (if spend_provisional \<and> \<not> dispatch_provisional then Inl () else Inr ())"

subsection \<open>State\<close>

record proxy_state =
  px_approvals :: approval_store
  px_meter :: spend_meter
  px_log :: audit_log
  px_attempts :: "attempt_store option"
  px_drift :: "drift_table option"

record readings =
  rd_mint :: nat
  rd_redeem :: nat
  rd_redeem' :: nat
  rd_attempt :: nat
  rd_row :: nat
  rd_meter :: nat
  rd_claim :: nat

record io_faults =
  f_attempt :: bool
  f_append :: bool
  f_meter :: bool
  f_claim :: bool

record pending_call =
  pc_request_id :: string
  pc_channel :: string
  pc_call :: resolved_call
  pc_ticket :: "string option"
  pc_hash :: string
  pc_sheet :: sheet_state
  pc_spend :: budget_spend
  pc_decision :: decision
  pc_day_spend :: "(nat \<times> string) option"

record serving_call =
  sv_pending :: pending_call
  sv_approver :: "string option"

subsection \<open>Up to the decision\<close>

text \<open>
  \<open>body\<close> is what \<open>ToolCall.safeParse\<close> made of the request, none for a malformed one. \<open>Inl\<close> is a
  response, \<open>Inr\<close> the call with its decision. A sheet source or a meter that throws, and a
  channel that is not a channel id, end in the handler's catch: nothing was written.
\<close>

definition internal_error :: "string \<Rightarrow> string \<Rightarrow> http_reply" where
  "internal_error request_id channel =
     make_error Internal ''the proxy failed to handle the request'' request_id (Some channel)"

definition begin_call ::
    "(string \<Rightarrow> string) \<Rightarrow> string \<Rightarrow> string \<Rightarrow> (tool_call \<times> string option) option \<Rightarrow> (unit + sheet_state) \<Rightarrow>
     bool \<Rightarrow> nat \<Rightarrow> price_lookup \<Rightarrow> proxy_state \<Rightarrow> http_reply + pending_call"
where
  "begin_call sha request_id channel body sheets read_throws now prices st =
     (case body of
        None \<Rightarrow> Inl (make_error BadRequest ''the request body is not a valid tool call'' request_id (Some channel))
      | Some (bare, ticket) \<Rightarrow>
          (case resolve_tool_call bare channel of
             Inl _ \<Rightarrow> Inl (internal_error request_id channel)
           | Inr call \<Rightarrow>
               (case sheets of
                  Inl _ \<Rightarrow> Inl (internal_error request_id channel)
                | Inr state \<Rightarrow>
                    if read_throws then Inl (internal_error request_id channel)
                    else let spend = meter_read now channel (px_meter st)
                      in Inr \<lparr>pc_request_id = request_id, pc_channel = channel, pc_call = call,
                           pc_ticket = ticket, pc_hash = sha (canonical_json (tc_arguments call)),
                           pc_sheet = state, pc_spend = spend,
                           pc_decision = decide_from_state state (tc_server call) (tc_tool call) spend prices,
                           pc_day_spend = price_day_spend_from_state state spend prices\<rparr>)))"

subsection \<open>The audit closure\<close>

record audit_event =
  ev_outcome :: audit_outcome
  ev_reason :: "refusal_reason option"
  ev_result :: "tool_result option"
  ev_approver :: "string option"
  ev_ticket :: "string option"
  ev_destination :: "string option"

fun block_type_name :: "block_type \<Rightarrow> string" where
  "block_type_name TText = ''text''"
| "block_type_name TImage = ''image''"
| "block_type_name TAudio = ''audio''"
| "block_type_name TResource = ''resource''"

definition decision_budget_limit :: "decision \<Rightarrow> budget_limit option" where
  "decision_budget_limit d = (case d of Refuse (BudgetExhausted l) \<Rightarrow> Some l | _ \<Rightarrow> None)"

definition call_audit_record :: "readings \<Rightarrow> pending_call \<Rightarrow> audit_event \<Rightarrow> audit_record" where
  "call_audit_record rd pc ev =
     \<lparr>ar_at = rd_row rd, ar_channel = pc_channel pc, ar_requesting_user = tc_requesting_user (pc_call pc),
      ar_task = tc_task (pc_call pc), ar_request_id = pc_request_id pc, ar_call_id = tc_id (pc_call pc),
      ar_server = tc_server (pc_call pc), ar_tool = tc_tool (pc_call pc), ar_arguments_sha256 = pc_hash pc,
      ar_outcome = ev_outcome ev, ar_refusal_reason = ev_reason ev,
      ar_budget_limit = decision_budget_limit (pc_decision pc),
      ar_day_spend_micro_usd = map_option (js_number_nat \<circ> fst) (pc_day_spend pc),
      ar_price_version = map_option snd (pc_day_spend pc),
      ar_result_bytes = map_option (\<lambda>r. result_bytes (res_content r)) (ev_result ev),
      ar_result_is_error = map_option res_is_error (ev_result ev),
      ar_approver = ev_approver ev, ar_ticket = ev_ticket ev, ar_destination = ev_destination ev,
      ar_result_bytes_by_type =
        map_option (\<lambda>r. map (apfst block_type_name) (result_bytes_by_type (res_content r))) (ev_result ev)\<rparr>"

definition keeps_attempt :: "audit_outcome \<Rightarrow> bool" where
  "keeps_attempt out \<longleftrightarrow> out = Refused \<or> out = Held \<or> out = Expired"

definition record_attempt ::
    "(string \<Rightarrow> string) \<Rightarrow> readings \<Rightarrow> io_faults \<Rightarrow> pending_call \<Rightarrow> audit_event \<Rightarrow> proxy_state \<Rightarrow>
     (unit + unit) \<times> proxy_state"
where
  "record_attempt sha rd f pc ev st =
     (case px_attempts st of
        None \<Rightarrow> (Inr (), st)
      | Some store \<Rightarrow>
          if \<not> keeps_attempt (ev_outcome ev) then (Inr (), st)
          else if f_attempt f then (Inl (), st)
          else (case attempt_record sha (tc_arguments (pc_call pc)) (rd_attempt rd) store of
                  (Inl _, store') \<Rightarrow> (Inl (), st\<lparr>px_attempts := Some store'\<rparr>)
                | (Inr _, store') \<Rightarrow> (Inr (), st\<lparr>px_attempts := Some store'\<rparr>)))"

definition audit_call ::
    "(string \<Rightarrow> string) \<Rightarrow> readings \<Rightarrow> io_faults \<Rightarrow> pending_call \<Rightarrow> audit_event \<Rightarrow> proxy_state \<Rightarrow>
     (unit + unit) \<times> proxy_state"
where
  "audit_call sha rd f pc ev st =
     (case record_attempt sha rd f pc ev st of
        (Inl _, st') \<Rightarrow> (Inl (), st')
      | (Inr _, st') \<Rightarrow>
          (case audit_append sha (f_append f) (call_audit_record rd pc ev) (px_log st') of
             (r, lg) \<Rightarrow> (r, st'\<lparr>px_log := lg\<rparr>)))"

text \<open>A response that waits on its row: the row's failure reaches the handler's catch, which answers 500.\<close>

definition reply_after_row ::
    "(string \<Rightarrow> string) \<Rightarrow> readings \<Rightarrow> io_faults \<Rightarrow> pending_call \<Rightarrow> audit_event \<Rightarrow> http_reply \<Rightarrow> proxy_state \<Rightarrow>
     http_reply \<times> proxy_state"
where
  "reply_after_row sha rd f pc ev reply st =
     (case audit_call sha rd f pc ev st of
        (Inl _, st') \<Rightarrow> (internal_error (pc_request_id pc) (pc_channel pc), st')
      | (Inr _, st') \<Rightarrow> (reply, st'))"

definition plain_event :: "audit_outcome \<Rightarrow> audit_event" where
  "plain_event out = \<lparr>ev_outcome = out, ev_reason = None, ev_result = None, ev_approver = None, ev_ticket = None,
     ev_destination = None\<rparr>"

text \<open>The catch of a call no row was attempted for: an \<open>unanswered\<close> row, its own failure swallowed.\<close>

definition rethrow_unanswered ::
    "(string \<Rightarrow> string) \<Rightarrow> readings \<Rightarrow> io_faults \<Rightarrow> pending_call \<Rightarrow> string option \<Rightarrow> proxy_state \<Rightarrow>
     http_reply \<times> proxy_state"
where
  "rethrow_unanswered sha rd f pc approver st =
     (internal_error (pc_request_id pc) (pc_channel pc),
      snd (audit_call sha rd f pc ((plain_event Unanswered)\<lparr>ev_approver := approver, ev_ticket := pc_ticket pc\<rparr>) st))"

subsection \<open>From the decision to the dispatch\<close>

datatype admitted = Answer http_reply | Serving serving_call

definition serve ::
    "(string \<Rightarrow> string) \<Rightarrow> readings \<Rightarrow> io_faults \<Rightarrow> pending_call \<Rightarrow> string option \<Rightarrow> proxy_state \<Rightarrow>
     admitted \<times> proxy_state"
where
  "serve sha rd f pc approver st =
     (if f_meter f then apfst Answer (rethrow_unanswered sha rd f pc approver st)
      else (Serving \<lparr>sv_pending = pc, sv_approver = approver\<rparr>,
            st\<lparr>px_meter := meter_record_tool_call (rd_meter rd) (pc_channel pc) (px_meter st)\<rparr>))"

definition admit ::
    "(string \<Rightarrow> string) \<Rightarrow> readings \<Rightarrow> io_faults \<Rightarrow> string \<Rightarrow> pending_call \<Rightarrow> proxy_state \<Rightarrow> admitted \<times> proxy_state"
where
  "admit sha rd f uuid pc st =
     (case pc_decision pc of
        Refuse refusal \<Rightarrow>
          apfst Answer (reply_after_row sha rd f pc
            ((plain_event Refused)\<lparr>ev_reason := Some (reason_of refusal), ev_ticket := pc_ticket pc\<rparr>)
            (HttpOk (CallRefused (tc_id (pc_call pc)) refusal)) st)
      | d \<Rightarrow>
          (case pc_ticket pc of
             None \<Rightarrow>
               (case d of
                  Hold _ refusal _ _ \<Rightarrow>
                    let (minted, store) = mint (rd_mint rd) uuid (pc_call pc) (pc_hash pc) (px_approvals st)
                    in apfst Answer (reply_after_row sha rd f pc
                        ((plain_event Held)\<lparr>ev_reason := Some (reason_of refusal), ev_ticket := Some (tkt_id minted)\<rparr>)
                        (HttpOk (CallHeld (tc_id (pc_call pc)) refusal (tkt_id minted) (tkt_expires_at minted)))
                        (st\<lparr>px_approvals := store\<rparr>))
                | _ \<Rightarrow> serve sha rd f pc None st)
           | Some ticket \<Rightarrow>
               let (redeemed, store) = redeem (rd_redeem rd) (rd_redeem' rd) (pc_channel pc) ticket (pc_call pc)
                     (pc_hash pc) (px_approvals st);
                   st' = st\<lparr>px_approvals := store\<rparr>
               in case redeemed of
                   Redeemed t \<Rightarrow> serve sha rd f pc (tkt_approver t) st'
                 | _ \<Rightarrow>
                     let refusal = approval_refusal redeemed (pc_call pc);
                         outcome = (case redeemed of RedeemExpired _ True \<Rightarrow> Expired | _ \<Rightarrow> Refused)
                     in apfst Answer (reply_after_row sha rd f pc
                         ((plain_event outcome)\<lparr>ev_reason := Some (reason_of refusal), ev_ticket := Some ticket\<rparr>)
                         (HttpOk (CallRefused (tc_id (pc_call pc)) refusal)) st')))"

subsection \<open>From the dispatcher's answer to the response\<close>

fun decision_warning_of :: "decision \<Rightarrow> budget_warning option" where
  "decision_warning_of (Allow _ _ w) = w"
| "decision_warning_of (Hold _ _ _ w) = w"
| "decision_warning_of (Refuse _) = None"

text \<open>After the \<open>ran\<close> row: claim the warning, if the decision carries one; a claim that throws is a 500.\<close>

definition ran_reply :: "readings \<Rightarrow> io_faults \<Rightarrow> pending_call \<Rightarrow> tool_result \<Rightarrow> proxy_state \<Rightarrow> http_reply \<times> proxy_state" where
  "ran_reply rd f pc result st =
     (case decision_warning_of (pc_decision pc) of
        None \<Rightarrow> (HttpOk (CallRan (tc_id (pc_call pc)) result None), st)
      | Some w \<Rightarrow>
          if f_claim f then (internal_error (pc_request_id pc) (pc_channel pc), st)
          else let (won, m) = meter_claim_warning (rd_claim rd) (pc_channel pc) (bw_limit w) (px_meter st)
            in (HttpOk (CallRan (tc_id (pc_call pc)) result (if won then Some w else None)), st\<lparr>px_meter := m\<rparr>))"

text \<open>
  Up to the row; after a \<open>ran\<close> row the handler goes on to \<open>ran_reply\<close> (\<open>RanRow\<close>). \<open>None\<close> is a
  dispatcher that threw.
\<close>

datatype settled = Replied http_reply | RanRow tool_result

definition finish ::
    "(string \<Rightarrow> string) \<Rightarrow> readings \<Rightarrow> io_faults \<Rightarrow> serving_call \<Rightarrow> dispatched option \<Rightarrow> proxy_state \<Rightarrow>
     settled \<times> proxy_state"
where
  "finish sha rd f sv answer st =
     (let pc = sv_pending sv; approver = sv_approver sv
      in case answer of
          None \<Rightarrow> apfst Replied (rethrow_unanswered sha rd f pc approver st)
        | Some (DispatchRan result) \<Rightarrow>
            (case audit_call sha rd f pc ((plain_event Ran)\<lparr>ev_result := Some result, ev_approver := approver,
                    ev_ticket := pc_ticket pc\<rparr>) st of
               (Inl _, st') \<Rightarrow> (Replied (internal_error (pc_request_id pc) (pc_channel pc)), st')
             | (Inr _, st') \<Rightarrow> (RanRow result, st'))
        | Some (DispatchRefused refusal) \<Rightarrow>
            apfst Replied (reply_after_row sha rd f pc
              ((plain_event Refused)\<lparr>ev_reason := Some (reason_of refusal), ev_ticket := pc_ticket pc,
                 ev_destination := (case refusal of EgressDenied d \<Rightarrow> Some d | _ \<Rightarrow> None)\<rparr>)
              (HttpOk (CallRefused (tc_id (pc_call pc)) refusal)) st)
        | Some (DispatchUnavailable reason) \<Rightarrow>
            apfst Replied (reply_after_row sha rd f pc ((plain_event Unavailable)\<lparr>ev_ticket := pc_ticket pc\<rparr>)
              (make_error NotImplemented (unavailable_text reason) (pc_request_id pc) (Some (pc_channel pc))) st))"

end
