(* ===== verification/Server_Routes.thy ===== *)
theory Server_Routes
  imports Server_Call
begin

text \<open>
  The rest of the proxy's HTTP surface: who a connection is (\<open>identity.ts\<close>), the request body reader
  and the request handler of \<open>server.ts\<close> up to the route, and the other routes
  (\<open>approvals-route.ts\<close>, \<open>spend-route.ts\<close>, \<open>budget-route.ts\<close>, \<open>listing-route.ts\<close>). URL parsing, JSON
  parsing and the body schemas are arguments; a body that its schema rejects is \<open>None\<close>.
\<close>

subsection \<open>Identity\<close>

datatype identity_rejection =
    NoClientCertificate
  | NoCommonName
  | AmbiguousCommonName
  | NotAChannelPrincipal
  | MalformedChannelId
  | NoCertificateFingerprint

definition channel_cn_prefix :: string where
  "channel_cn_prefix = ''channel:''"

text \<open>The rejection, with the common name it quotes.\<close>

definition channel_from_common_name :: "string option \<Rightarrow> (identity_rejection \<times> string option) + string" where
  "channel_from_common_name cn =
     (case cn of
        None \<Rightarrow> Inl (NoCommonName, None)
      | Some name \<Rightarrow>
          if name = [] then Inl (NoCommonName, None)
          else if take (length channel_cn_prefix) name \<noteq> channel_cn_prefix then Inl (NotAChannelPrincipal, Some name)
          else let channel = drop (length channel_cn_prefix) name
            in if \<not> channel_id_pattern channel then Inl (MalformedChannelId, Some name) else Inr channel)"

text \<open>\<open>subject.CN\<close> of a peer certificate: absent, one name, or an array of them.\<close>

datatype common_name = CnAbsent | CnOne string | CnMany "string list"

record peer_certificate =
  peer_cn :: common_name
  peer_fingerprint256 :: "string option"

record channel_identity =
  id_channel :: string
  id_fingerprint :: string

definition resolve_channel :: "peer_certificate option \<Rightarrow> (identity_rejection \<times> string option) + channel_identity" where
  "resolve_channel peer =
     (case peer of
        None \<Rightarrow> Inl (NoClientCertificate, None)
      | Some cert \<Rightarrow>
          (let resolved = (\<lambda>cn.
                 case channel_from_common_name cn of
                   Inl e \<Rightarrow> Inl e
                 | Inr channel \<Rightarrow>
                     (case peer_fingerprint256 cert of
                        None \<Rightarrow> Inl (NoCertificateFingerprint, cn)
                      | Some fp \<Rightarrow> if fp = [] then Inl (NoCertificateFingerprint, cn)
                                   else Inr \<lparr>id_channel = channel, id_fingerprint = fp\<rparr>))
           in case peer_cn cert of
               CnMany _ \<Rightarrow> Inl (AmbiguousCommonName, None)
             | CnAbsent \<Rightarrow> resolved None
             | CnOne name \<Rightarrow> resolved (Some name)))"

definition matches_pin :: "string \<Rightarrow> string list \<Rightarrow> bool" where
  "matches_pin fingerprint pins =
     (let presented = normalize_certificate_sha256 fingerprint
      in list_ex (\<lambda>pin. normalize_certificate_sha256 pin = presented) pins)"

definition pin_rejection :: "sheet_state \<Rightarrow> string \<Rightarrow> string \<Rightarrow> http_reply option" where
  "pin_rejection state fingerprint request_id =
     (case state of
        Active sheet _ \<Rightarrow>
          if matches_pin fingerprint (ch_certificate_sha256 (sheet_channel sheet)) then None
          else Some (make_error Unauthenticated
            ''the client certificate is not one this channel's team sheet pins'' request_id None)
      | _ \<Rightarrow> None)"

subsection \<open>The body\<close>

definition max_body_bytes :: nat where
  "max_body_bytes = 1048576"

datatype body_rejection = BodyTooLarge | BodyMalformed

datatype body_event = BodyData "8 word list" | BodyEnd | BodyError

text \<open>The reader's variables: what is buffered, the running total, and the settled answer.\<close>

record 'v body_reader =
  br_chunks :: "8 word list list"
  br_total :: nat
  br_settled :: "(body_rejection + 'v) option"

definition settle :: "body_rejection + 'v \<Rightarrow> 'v body_reader \<Rightarrow> 'v body_reader" where
  "settle read br = (if br_settled br \<noteq> None then br else br\<lparr>br_settled := Some read\<rparr>)"

definition too_large :: "'v body_reader \<Rightarrow> 'v body_reader" where
  "too_large br = settle (Inl BodyTooLarge) (br\<lparr>br_chunks := []\<rparr>)"

text \<open>\<open>Number(content-length)\<close>, \<open>None\<close> when it is not finite.\<close>

definition begin_body :: "nat \<Rightarrow> rat option \<Rightarrow> 'v body_reader" where
  "begin_body limit declared =
     (let br = \<lparr>br_chunks = [], br_total = 0, br_settled = None\<rparr>
      in case declared of None \<Rightarrow> br | Some n \<Rightarrow> if n > of_nat limit then too_large br else br)"

fun body_step :: "nat \<Rightarrow> (8 word list \<Rightarrow> 'v option) \<Rightarrow> body_event \<Rightarrow> 'v body_reader \<Rightarrow> 'v body_reader" where
  "body_step limit parse (BodyData chunk) br =
     (if br_settled br \<noteq> None then br
      else let br' = br\<lparr>br_total := br_total br + length chunk\<rparr>
        in if br_total br' > limit then too_large br' else br'\<lparr>br_chunks := br_chunks br' @ [chunk]\<rparr>)"
| "body_step limit parse BodyEnd br =
     settle (case parse (concat (br_chunks br)) of None \<Rightarrow> Inl BodyMalformed | Some v \<Rightarrow> Inr v) br"
| "body_step limit parse BodyError br = settle (Inl BodyMalformed) br"

text \<open>The promise: unresolved (\<open>None\<close>) until an event settles it.\<close>

definition read_json_body ::
    "nat \<Rightarrow> (8 word list \<Rightarrow> 'v option) \<Rightarrow> rat option \<Rightarrow> body_event list \<Rightarrow> (body_rejection + 'v) option"
where
  "read_json_body limit parse declared events =
     br_settled (fold (body_step limit parse) events (begin_body limit declared))"

subsection \<open>The request handler, up to the route\<close>

datatype route_name =
    RouteHealth | RouteWhoami | RouteTools | RouteCall | RouteSpend | RouteBudget | RouteApprovals

text \<open>The path, then the method, then the handler and whether it takes a JSON body.\<close>

definition routes :: "(string \<times> (string \<times> route_name \<times> bool) list) list" where
  "routes =
     [(''/health'', [(''GET'', RouteHealth, False)]),
      (''/v1/whoami'', [(''GET'', RouteWhoami, False)]),
      (''/v1/tools'', [(''GET'', RouteTools, False)]),
      (''/v1/tools/call'', [(''POST'', RouteCall, True)]),
      (''/v1/spend'', [(''POST'', RouteSpend, True)]),
      (''/v1/budget'', [(''GET'', RouteBudget, False)]),
      (''/v1/approvals'', [(''POST'', RouteApprovals, True)])]"

record 'v http_request =
  rq_id :: string
  rq_pathname :: "string option"
  rq_method :: string
  rq_peer :: "peer_certificate option"
  rq_body :: "body_rejection + 'v"

record 'v request_context =
  ctx_channel :: string
  ctx_request_id :: string
  ctx_body :: "'v option"

text \<open>What happens to a request: an answer, with the \<open>allow\<close> header it may set, or a handler to run.\<close>

datatype 'v routed = Rejected http_reply "string list" | Routed route_name "'v request_context"

definition refuse_request :: "http_reply \<Rightarrow> 'v routed" where
  "refuse_request reply = Rejected reply []"

definition body_refusal :: "body_rejection \<Rightarrow> string \<Rightarrow> string \<Rightarrow> http_reply" where
  "body_refusal reason request_id channel =
     (case reason of
        BodyTooLarge \<Rightarrow> make_error PayloadTooLarge (''the request body exceeds '' @ dec max_body_bytes @ '' bytes'')
          request_id (Some channel)
      | BodyMalformed \<Rightarrow> make_error BadRequest ''the request body is not valid JSON'' request_id (Some channel))"

text \<open>\<open>sheets\<close> is what the sheet source answers for the channel, \<open>Inl\<close> when it throws.\<close>

definition route_request :: "(string \<Rightarrow> unit + sheet_state) \<Rightarrow> 'v http_request \<Rightarrow> 'v routed" where
  "route_request sheets rq =
     (case rq_pathname rq of
        None \<Rightarrow> refuse_request (make_error BadRequest ''the request line is not a valid URL'' (rq_id rq) None)
      | Some pathname \<Rightarrow>
     (case resolve_channel (rq_peer rq) of
        Inl _ \<Rightarrow> refuse_request
          (make_error Unauthenticated ''the client certificate does not identify a channel'' (rq_id rq) None)
      | Inr who \<Rightarrow>
     (let channel = id_channel who in
     (case sheets channel of
        Inl _ \<Rightarrow> refuse_request (internal_error (rq_id rq) channel)
      | Inr state \<Rightarrow>
     (case pin_rejection state (id_fingerprint who) (rq_id rq) of
        Some rejected \<Rightarrow> refuse_request rejected
      | None \<Rightarrow>
     (case map_of routes pathname of
        None \<Rightarrow> refuse_request (make_error NotFound (''no route for '' @ pathname) (rq_id rq) (Some channel))
      | Some handlers \<Rightarrow>
     (case map_of handlers (rq_method rq) of
        None \<Rightarrow> Rejected (make_error MethodNotAllowed (rq_method rq @ '' is not allowed on '' @ pathname)
          (rq_id rq) (Some channel)) (map fst handlers)
      | Some (route, wants_body) \<Rightarrow>
          if \<not> wants_body
          then Routed route \<lparr>ctx_channel = channel, ctx_request_id = rq_id rq, ctx_body = None\<rparr>
          else (case rq_body rq of
              Inl reason \<Rightarrow> refuse_request (body_refusal reason (rq_id rq) channel)
            | Inr v \<Rightarrow> Routed route \<lparr>ctx_channel = channel, ctx_request_id = rq_id rq, ctx_body = Some v\<rparr>))))))))"

subsection \<open>The approvals route\<close>

record approval_decision =
  ad_ticket :: string
  ad_decision :: approval_verdict
  ad_approver :: string

text \<open>The row of a decision: it describes the held call, off the ticket, under this request's own id.\<close>

definition decision_audit_record ::
    "nat \<Rightarrow> string \<Rightarrow> string \<Rightarrow> ticket \<Rightarrow> audit_outcome \<Rightarrow> string \<Rightarrow> audit_record"
where
  "decision_audit_record row_at request_id channel held out approver =
     \<lparr>ar_at = row_at, ar_channel = channel, ar_requesting_user = tkt_requesting_user held,
      ar_task = tkt_task held, ar_request_id = request_id, ar_call_id = tkt_call_id held,
      ar_server = tkt_server held, ar_tool = tkt_tool held, ar_arguments_sha256 = tkt_arguments_sha256 held,
      ar_outcome = out, ar_refusal_reason = (if out = Denied then Some R_approval_denied else None),
      ar_budget_limit = None, ar_day_spend_micro_usd = None, ar_price_version = None,
      ar_result_bytes = None, ar_result_is_error = None,
      ar_approver = (if out = Expired then None else Some approver), ar_ticket = Some (tkt_id held),
      ar_destination = None, ar_result_bytes_by_type = None\<rparr>"

definition record_decision ::
    "(string \<Rightarrow> string) \<Rightarrow> readings \<Rightarrow> io_faults \<Rightarrow> string \<Rightarrow> string \<Rightarrow> ticket \<Rightarrow> audit_outcome \<Rightarrow> string \<Rightarrow>
     http_reply \<Rightarrow> proxy_state \<Rightarrow> http_reply \<times> proxy_state"
where
  "record_decision sha rd f request_id channel held out approver reply st =
     (case audit_append sha (f_append f) (decision_audit_record (rd_row rd) request_id channel held out approver)
             (px_log st) of
        (Inl _, lg) \<Rightarrow> (internal_error request_id channel, st\<lparr>px_log := lg\<rparr>)
      | (Inr _, lg) \<Rightarrow> (reply, st\<lparr>px_log := lg\<rparr>))"

definition decide_approval ::
    "(string \<Rightarrow> string) \<Rightarrow> readings \<Rightarrow> io_faults \<Rightarrow> string \<Rightarrow> string \<Rightarrow> approval_decision option \<Rightarrow> proxy_state \<Rightarrow>
     http_reply \<times> proxy_state"
where
  "decide_approval sha rd f request_id channel body st =
     (case body of
        None \<Rightarrow> (make_error BadRequest ''the request body is not a valid approval decision'' request_id (Some channel), st)
      | Some ad \<Rightarrow>
          let ticket = ad_ticket ad; decision = ad_decision ad;
              (recorded, store) = record_verdict (rd_redeem rd) (rd_redeem' rd) channel ticket decision (ad_approver ad)
                (px_approvals st);
              st' = st\<lparr>px_approvals := store\<rparr>
          in case recorded of
              Recorded held \<Rightarrow>
                record_decision sha rd f request_id channel held (if decision = Approve then Approved else Denied)
                  (ad_approver ad) (HttpOk (ApprovalReply (ReplyRecorded ticket decision))) st'
            | DecideExpired held first \<Rightarrow>
                if first then record_decision sha rd f request_id channel held Expired (ad_approver ad)
                    (HttpOk (ApprovalReply (ReplyExpired ticket))) st'
                else (HttpOk (ApprovalReply (ReplyExpired ticket)), st')
            | AlreadyDecided held \<Rightarrow>
                (HttpOk (ApprovalReply (ReplyAlreadyDecided ticket
                   (case tkt_verdict held of None \<Rightarrow> decision | Some v \<Rightarrow> v))), st')
            | DecideUnknown \<Rightarrow> (HttpOk (ApprovalReply (ReplyUnknown ticket)), st'))"

subsection \<open>The spend route\<close>

record spend_report =
  sr_turn :: string
  sr_model :: "string option"
  sr_usage :: usage_report
  sr_cost_nano_usd :: "nat option"

text \<open>
  \<open>f_meter\<close> is the meter's transaction throwing, \<open>f_claim\<close> the drift write throwing. The clock is
  read twice by the meter: for the day, and for the prune.
\<close>

definition record_spend ::
    "readings \<Rightarrow> io_faults \<Rightarrow> string \<Rightarrow> string \<Rightarrow> spend_report option \<Rightarrow> proxy_state \<Rightarrow> http_reply \<times> proxy_state"
where
  "record_spend rd f request_id channel body st =
     (case body of
        None \<Rightarrow> (make_error BadRequest ''the request body is not a valid spend report'' request_id (Some channel), st)
      | Some sr \<Rightarrow>
          let (result, m) = meter_record_tokens (f_meter f) (rd_meter rd) (rd_claim rd) channel (sr_turn sr)
                (sr_usage sr) (sr_model sr) (px_meter st);
              st' = st\<lparr>px_meter := m\<rparr>
          in case result of
              Inl _ \<Rightarrow> (internal_error request_id channel, st')
            | Inr (outcome, day) \<Rightarrow>
                (HttpOk (SpendReply outcome),
                 (case (px_drift st', sr_model sr, sr_cost_nano_usd sr) of
                    (Some drift, Some model, Some cost) \<Rightarrow>
                      if outcome = ReportRecorded
                      then st'\<lparr>px_drift := Some (record_reported (f_claim f) channel day
                             \<lparr>rep_model = model, rep_usage = usage_counts (sr_usage sr), rep_cost_nano_usd = cost\<rparr> drift)\<rparr>
                      else st'
                  | _ \<Rightarrow> st')))"

subsection \<open>The routes that only read\<close>

definition read_budget ::
    "string \<Rightarrow> string \<Rightarrow> (unit + sheet_state) \<Rightarrow> bool \<Rightarrow> nat \<Rightarrow> price_lookup \<Rightarrow> proxy_state \<Rightarrow> http_reply"
where
  "read_budget request_id channel sheets read_throws now prices st =
     (case sheets of
        Inl _ \<Rightarrow> internal_error request_id channel
      | Inr state \<Rightarrow>
          if read_throws then internal_error request_id channel
          else HttpOk (BudgetReply (exhausted_limit_from_state state (meter_read now channel (px_meter st)) prices)))"

record upstream_description =
  ud_description :: "string option"
  ud_input_schema :: "json option"

record catalog_answer =
  cat_described :: "(string, upstream_description) jsmap"
  cat_excluded :: "string list"

definition no_catalog_answer :: catalog_answer where
  "no_catalog_answer = \<lparr>cat_described = [], cat_excluded = []\<rparr>"

text \<open>The upstreams to ask and the tools to ask each about, in the listing's order.\<close>

definition want_source :: "permitted_source \<Rightarrow> (string, mcp_server \<times> string list) jsmap \<Rightarrow>
     (string, mcp_server \<times> string list) jsmap" where
  "want_source src wanted =
     (case ps_target src of
        Some (McpTarget upstream) \<Rightarrow>
          (let key = upstream_key upstream
           in case js_get wanted key of
               None \<Rightarrow> js_set key (upstream, [pt_tool (ps_tool src)]) wanted
             | Some (u, tools) \<Rightarrow> js_set key (u, tools @ [pt_tool (ps_tool src)]) wanted)
      | _ \<Rightarrow> wanted)"

definition wanted_by :: "permitted_source list \<Rightarrow> (string, mcp_server \<times> string list) jsmap" where
  "wanted_by sources = fold want_source sources []"

definition catalog_answers ::
    "(mcp_server \<Rightarrow> string list \<Rightarrow> catalog_answer) \<Rightarrow> permitted_source list \<Rightarrow> (string, catalog_answer) jsmap"
where
  "catalog_answers describe sources =
     map (\<lambda>(key, upstream, tools). (key, describe upstream tools)) (wanted_by sources)"

text \<open>One source of the listing: a built-in carries its own definition, an upstream's tool what was answered.\<close>

definition list_source ::
    "(builtin_name \<Rightarrow> string \<times> json) \<Rightarrow> (string, catalog_answer) jsmap \<Rightarrow> permitted_source \<Rightarrow> listed_tool list"
where
  "list_source builtin_tools answers src =
     (case ps_target src of
        Some (StoreTarget n) \<Rightarrow>
          [\<lparr>lt_tool = ps_tool src, lt_description = Some (fst (builtin_tools n)),
            lt_input_schema = Some (snd (builtin_tools n))\<rparr>]
      | Some (SandboxTarget _ _) \<Rightarrow>
          [\<lparr>lt_tool = ps_tool src, lt_description = Some (fst (builtin_tools RunCode)),
            lt_input_schema = Some (snd (builtin_tools RunCode))\<rparr>]
      | tgt \<Rightarrow>
          (let upstream = (case tgt of
                 Some (McpTarget u) \<Rightarrow>
                   (case js_get answers (upstream_key u) of None \<Rightarrow> no_catalog_answer | Some a \<Rightarrow> a)
               | _ \<Rightarrow> no_catalog_answer);
               tool = pt_tool (ps_tool src)
           in if tool \<in> set (cat_excluded upstream) then []
              else let found = js_get (cat_described upstream) tool
                in [\<lparr>lt_tool = ps_tool src, lt_description = Option.bind found ud_description,
                     lt_input_schema = Option.bind found ud_input_schema\<rparr>]))"

text \<open>\<open>describe\<close> throwing (\<open>catalog_throws\<close>) is a 500, when there is an upstream to ask.\<close>

definition list_tools ::
    "(builtin_name \<Rightarrow> string \<times> json) \<Rightarrow> (mcp_server \<Rightarrow> string list \<Rightarrow> catalog_answer) \<Rightarrow> bool \<Rightarrow>
     string \<Rightarrow> string \<Rightarrow> (unit + sheet_state) \<Rightarrow> http_reply"
where
  "list_tools builtin_tools describe catalog_throws request_id channel sheets =
     (case sheets of
        Inl _ \<Rightarrow> internal_error request_id channel
      | Inr state \<Rightarrow>
          (let sources = permitted_tool_sources_from_state state
           in if catalog_throws \<and> wanted_by sources \<noteq> [] then internal_error request_id channel
              else HttpOk (ListingReply
                (concat (map (list_source builtin_tools (catalog_answers describe sources)) sources)))))"

end
