(* ===== verification/Server_System.thy ===== *)
theory Server_System
  imports Server_Routes
begin

text \<open>
  The proxy as a system of concurrent requests. The requests share one process state; a tool call
  goes through the phases the handler's awaits cut it into, and between two of them any other
  request may run. A step is one synchronous stretch of one handler, a run is any sequence of steps.

  The lemmas say what each stretch does to each part of the state; the run's properties are proved
  from them in the theories that follow.
\<close>

subsection \<open>Calls, events, steps\<close>

record 'v proxy_env =
  env_sha :: "string \<Rightarrow> string"
  env_parse_call :: "'v \<Rightarrow> (tool_call \<times> string option) option"
  env_parse_decision :: "'v \<Rightarrow> approval_decision option"
  env_parse_spend :: "'v \<Rightarrow> spend_report option"

datatype call_phase =
    Decided pending_call
  | Underway serving_call
  | RowWritten pending_call tool_result
  | Answered pending_call http_reply

fun phase_call :: "call_phase \<Rightarrow> pending_call" where
  "phase_call (Decided pc) = pc"
| "phase_call (Underway sv) = sv_pending sv"
| "phase_call (RowWritten pc _) = pc"
| "phase_call (Answered pc _) = pc"

definition phase_admitted :: "pending_call \<Rightarrow> admitted \<Rightarrow> call_phase" where
  "phase_admitted pc out = (case out of Answer reply \<Rightarrow> Answered pc reply | Serving sv \<Rightarrow> Underway sv)"

definition phase_finished :: "pending_call \<Rightarrow> settled \<Rightarrow> call_phase" where
  "phase_finished pc out = (case out of Replied reply \<Rightarrow> Answered pc reply | RanRow result \<Rightarrow> RowWritten pc result)"

record proxy_system =
  sys_state :: proxy_state
  sys_calls :: "call_phase list"

datatype sys_event =
    EvReplied string http_reply
  | EvDecided nat pending_call
  | EvAdmitted nat readings io_faults string pending_call admitted
  | EvFinished nat readings io_faults serving_call "dispatched option" settled
  | EvSettled nat readings io_faults pending_call tool_result http_reply
  | EvVerdict readings io_faults string string "approval_decision option" http_reply
  | EvSpend readings io_faults string string "spend_report option" http_reply

fun event_request :: "sys_event \<Rightarrow> string option" where
  "event_request (EvReplied i _) = Some i"
| "event_request (EvDecided _ pc) = Some (pc_request_id pc)"
| "event_request (EvVerdict _ _ i _ _ _) = Some i"
| "event_request (EvSpend _ _ i _ _ _) = Some i"
| "event_request _ = None"

fun event_uuid :: "sys_event \<Rightarrow> string option" where
  "event_uuid (EvAdmitted _ _ _ uuid _ _) = Some uuid"
| "event_uuid _ = None"

text \<open>\<open>randomUUID\<close> draws no request id and no ticket id twice: its documented behaviour.\<close>

definition fresh_event :: "sys_event \<Rightarrow> sys_event list \<Rightarrow> bool" where
  "fresh_event ev tr \<longleftrightarrow>
     (\<forall>e \<in> set tr. (event_request ev = None \<or> event_request e \<noteq> event_request ev) \<and>
                   (event_uuid ev = None \<or> event_uuid e \<noteq> event_uuid ev))"

text \<open>The routes that only read.\<close>

definition read_reply ::
    "(builtin_name \<Rightarrow> string \<times> json) \<Rightarrow> (mcp_server \<Rightarrow> string list \<Rightarrow> catalog_answer) \<Rightarrow> bool \<Rightarrow> nat \<Rightarrow>
     (unit + sheet_state) \<Rightarrow> bool \<Rightarrow> nat \<Rightarrow> price_lookup \<Rightarrow> route_name \<Rightarrow> 'v request_context \<Rightarrow> proxy_state \<Rightarrow>
     http_reply option"
where
  "read_reply builtin_tools describe catalog_throws uptime sheets read_throws now prices route ctx st =
     (case route of
        RouteHealth \<Rightarrow> Some (HttpOk (HealthReply uptime))
      | RouteWhoami \<Rightarrow> Some (HttpOk (WhoamiReply (ctx_channel ctx)))
      | RouteTools \<Rightarrow> Some (list_tools builtin_tools describe catalog_throws (ctx_request_id ctx) (ctx_channel ctx) sheets)
      | RouteBudget \<Rightarrow> Some (read_budget (ctx_request_id ctx) (ctx_channel ctx) sheets read_throws now prices st)
      | _ \<Rightarrow> None)"

inductive proxy_step :: "'v proxy_env \<Rightarrow> proxy_system \<Rightarrow> sys_event \<Rightarrow> proxy_system \<Rightarrow> bool" for env :: "'v proxy_env" where
  step_rejected:
    "route_request sheets (rq :: 'v http_request) = Rejected reply allow \<Longrightarrow> proxy_step env sys (EvReplied (rq_id rq) reply) sys"
| step_read:
    "route_request sheets (rq :: 'v http_request) = Routed route ctx \<Longrightarrow>
     read_reply bt describe ct uptime sheets' rt now prices route ctx (sys_state sys) = Some reply \<Longrightarrow>
     proxy_step env sys (EvReplied (rq_id rq) reply) sys"
| step_undecided:
    "route_request sheets rq = Routed RouteCall ctx \<Longrightarrow>
     begin_call (env_sha env) (ctx_request_id ctx) (ctx_channel ctx) (Option.bind (ctx_body ctx) (env_parse_call env))
       sheets' rt now prices (sys_state sys) = Inl reply \<Longrightarrow>
     proxy_step env sys (EvReplied (rq_id rq) reply) sys"
| step_decided:
    "route_request sheets rq = Routed RouteCall ctx \<Longrightarrow>
     begin_call (env_sha env) (ctx_request_id ctx) (ctx_channel ctx) (Option.bind (ctx_body ctx) (env_parse_call env))
       sheets' rt now prices (sys_state sys) = Inr pc \<Longrightarrow>
     proxy_step env sys (EvDecided now pc) (sys\<lparr>sys_calls := sys_calls sys @ [Decided pc]\<rparr>)"
| step_admitted:
    "i < length (sys_calls sys) \<Longrightarrow> sys_calls sys ! i = Decided pc \<Longrightarrow>
     admit (env_sha env) rd f uuid pc (sys_state sys) = (out, st) \<Longrightarrow>
     proxy_step env sys (EvAdmitted i rd f uuid pc out)
       \<lparr>sys_state = st, sys_calls = (sys_calls sys)[i := phase_admitted pc out]\<rparr>"
| step_finished:
    "i < length (sys_calls sys) \<Longrightarrow> sys_calls sys ! i = Underway sv \<Longrightarrow>
     finish (env_sha env) rd f sv answer (sys_state sys) = (out, st) \<Longrightarrow>
     proxy_step env sys (EvFinished i rd f sv answer out)
       \<lparr>sys_state = st, sys_calls = (sys_calls sys)[i := phase_finished (sv_pending sv) out]\<rparr>"
| step_settled:
    "i < length (sys_calls sys) \<Longrightarrow> sys_calls sys ! i = RowWritten pc result \<Longrightarrow>
     ran_reply rd f pc result (sys_state sys) = (reply, st) \<Longrightarrow>
     proxy_step env sys (EvSettled i rd f pc result reply)
       \<lparr>sys_state = st, sys_calls = (sys_calls sys)[i := Answered pc reply]\<rparr>"
| step_verdict:
    "route_request sheets rq = Routed RouteApprovals ctx \<Longrightarrow>
     body = Option.bind (ctx_body ctx) (env_parse_decision env) \<Longrightarrow>
     decide_approval (env_sha env) rd f (ctx_request_id ctx) (ctx_channel ctx) body (sys_state sys) = (reply, st) \<Longrightarrow>
     proxy_step env sys (EvVerdict rd f (ctx_request_id ctx) (ctx_channel ctx) body reply) (sys\<lparr>sys_state := st\<rparr>)"
| step_spend:
    "route_request sheets rq = Routed RouteSpend ctx \<Longrightarrow>
     body = Option.bind (ctx_body ctx) (env_parse_spend env) \<Longrightarrow>
     record_spend rd f (ctx_request_id ctx) (ctx_channel ctx) body (sys_state sys) = (reply, st) \<Longrightarrow>
     proxy_step env sys (EvSpend rd f (ctx_request_id ctx) (ctx_channel ctx) body reply) (sys\<lparr>sys_state := st\<rparr>)"

inductive_cases proxy_stepE: "proxy_step env sys ev sys'"

inductive proxy_run :: "'v proxy_env \<Rightarrow> proxy_state \<Rightarrow> sys_event list \<Rightarrow> proxy_system \<Rightarrow> bool"
  for env :: "'v proxy_env" and st0 :: proxy_state where
  run_init: "proxy_run env st0 [] \<lparr>sys_state = st0, sys_calls = []\<rparr>"
| run_step: "proxy_run env st0 tr sys \<Longrightarrow> fresh_event ev tr \<Longrightarrow> proxy_step env sys ev sys' \<Longrightarrow>
    proxy_run env st0 (tr @ [ev]) sys'"

inductive_simps proxy_run_Nil [simp]: "proxy_run env st0 [] sys"

inductive_cases proxy_run_snocE: "proxy_run env st0 (tr @ [ev]) sys"

lemma proxy_run_prefix: "proxy_run env st0 (tr1 @ tr2) sys \<Longrightarrow> \<exists>sys1. proxy_run env st0 tr1 sys1"
proof (induction tr2 arbitrary: sys rule: rev_induct)
  case (snoc e tr2)
  then have "proxy_run env st0 ((tr1 @ tr2) @ [e]) sys" by simp
  then show ?case by (rule proxy_run_snocE) (use snoc.IH in auto)
qed auto

lemma proxy_run_event:
  assumes "proxy_run env st0 tr sys" and "ev \<in> set tr"
  shows "\<exists>before sys1 sys2. (\<exists>after. tr = before @ ev # after) \<and> proxy_run env st0 before sys1 \<and>
    fresh_event ev before \<and> proxy_step env sys1 ev sys2"
proof -
  obtain before after where tr: "tr = before @ ev # after" using assms(2) by (meson split_list)
  then have "proxy_run env st0 ((before @ [ev]) @ after) sys" using assms(1) by simp
  then obtain s2 where "proxy_run env st0 (before @ [ev]) s2" by (blast dest: proxy_run_prefix)
  then show ?thesis using tr by (elim proxy_run_snocE) auto
qed

subsection \<open>What each stretch does to each part of the state\<close>

lemma record_attempt_frame [frame_facts]:
  "record_attempt sha rd f pc ev st = (r, st') \<Longrightarrow> px_approvals st' = px_approvals st \<and> px_meter st' = px_meter st
    \<and> px_drift st' = px_drift st \<and> px_log st' = px_log st"
  by (auto simp: record_attempt_def split: option.splits if_splits prod.splits sum.splits)

text \<open>The log grew by rows that state the given records.\<close>

definition states_rows :: "audit_log \<Rightarrow> audit_log \<Rightarrow> audit_record list \<Rightarrow> bool" where
  "states_rows lg lg' rs \<longleftrightarrow> (\<exists>rows. log_rows lg' = log_rows lg @ rows \<and> list_all2 row_states rows rs)"

lemma states_rows_Nil [simp, intro]: "states_rows lg lg []"
  by (simp add: states_rows_def)

lemma states_rows_append: "states_rows lg lg1 rs \<Longrightarrow> states_rows lg1 lg2 rs' \<Longrightarrow> states_rows lg lg2 (rs @ rs')"
  unfolding states_rows_def by (metis append.assoc list_all2_appendI)

lemma append_states: "audit_append sha throws r lg = (Inr u, lg') \<Longrightarrow> states_rows lg lg' [r]"
  unfolding states_rows_def row_states_def by (force dest: audit_append_Inr)

lemma audit_call_frame [frame_facts]:
  "audit_call sha rd f pc ev st = (out, st') \<Longrightarrow> px_approvals st' = px_approvals st \<and> px_meter st' = px_meter st
    \<and> px_drift st' = px_drift st"
  by (auto simp: audit_call_def dest!: record_attempt_frame split: prod.splits sum.splits)

lemma audit_call_rows:
  "audit_call sha rd f pc ev st = (out, st') \<Longrightarrow>
     (case out of Inl _ \<Rightarrow> px_log st' = px_log st
      | Inr _ \<Rightarrow> states_rows (px_log st) (px_log st') [call_audit_record rd pc ev])"
  by (auto simp: audit_call_def dest!: record_attempt_frame audit_append_Inl append_states
      split: prod.splits sum.splits)

lemma audit_call_sound [inv_preserved]:
  "log_sound sha (px_log st) \<Longrightarrow> audit_call sha rd f pc ev st = (out, st') \<Longrightarrow> log_sound sha (px_log st')"
  by (auto simp: audit_call_def dest!: record_attempt_frame split: prod.splits sum.splits)
    (metis log_sound_append snd_conv)+

lemma reply_after_row_frame [frame_facts]:
  "reply_after_row sha rd f pc ev reply st = (out, st') \<Longrightarrow> px_approvals st' = px_approvals st
    \<and> px_meter st' = px_meter st \<and> px_drift st' = px_drift st"
  by (auto simp: reply_after_row_def dest!: audit_call_frame split: prod.splits sum.splits)

lemma rethrow_unanswered_frame [frame_facts]:
  "rethrow_unanswered sha rd f pc approver st = (out, st') \<Longrightarrow> px_approvals st' = px_approvals st
    \<and> px_meter st' = px_meter st \<and> px_drift st' = px_drift st"
  by (cases "audit_call sha rd f pc ((plain_event Unanswered)\<lparr>ev_approver := approver, ev_ticket := pc_ticket pc\<rparr>) st")
    (auto simp: rethrow_unanswered_def dest!: audit_call_frame)

text \<open>The record of a call, as far as the call determines it, and how its answer constrains the rest.\<close>

definition call_row :: "pending_call \<Rightarrow> audit_record \<Rightarrow> bool" where
  "call_row pc r \<longleftrightarrow> ar_request_id r = pc_request_id pc \<and> ar_channel r = pc_channel pc
     \<and> ar_call_id r = tc_id (pc_call pc) \<and> ar_server r = tc_server (pc_call pc) \<and> ar_tool r = tc_tool (pc_call pc)
     \<and> ar_arguments_sha256 r = pc_hash pc"

fun reply_row :: "http_reply \<Rightarrow> audit_record \<Rightarrow> bool" where
  "reply_row (HttpOk (CallRefused _ refusal)) r \<longleftrightarrow>
     ar_outcome r \<in> {Refused, Expired} \<and> ar_refusal_reason r = Some (reason_of refusal)"
| "reply_row (HttpOk (CallHeld _ refusal ticket _)) r \<longleftrightarrow>
     ar_outcome r = Held \<and> ar_refusal_reason r = Some (reason_of refusal) \<and> ar_ticket r = Some ticket"
| "reply_row (HttpOk (CallRan _ result _)) r \<longleftrightarrow>
     ar_outcome r = Ran \<and> ar_result_bytes r = Some (result_bytes (res_content result))
       \<and> ar_result_is_error r = Some (res_is_error result)"
| "reply_row (HttpOk _) r \<longleftrightarrow> False"
| "reply_row (HttpError e) r \<longleftrightarrow>
     pe_code e = NotImplemented \<and> ar_outcome r = Unavailable \<or> pe_code e = Internal \<and> ar_outcome r \<in> {Unanswered, Ran}"

text \<open>The rows behind an answer: exactly one, or none and then the answer is a 500.\<close>

definition answer_rows :: "pending_call \<Rightarrow> http_reply \<Rightarrow> audit_record list \<Rightarrow> bool" where
  "answer_rows pc reply rs \<longleftrightarrow>
     rs = [] \<and> reply = internal_error (pc_request_id pc) (pc_channel pc) \<or>
     (\<exists>r. rs = [r] \<and> call_row pc r \<and> reply_row reply r)"

definition ran_rows :: "pending_call \<Rightarrow> tool_result \<Rightarrow> audit_record list \<Rightarrow> bool" where
  "ran_rows pc result rs \<longleftrightarrow>
     (\<exists>r. rs = [r] \<and> call_row pc r \<and> reply_row (HttpOk (CallRan (tc_id (pc_call pc)) result None)) r)"

lemma call_row_record [simp]: "call_row pc (call_audit_record rd pc ev)"
  by (simp add: call_row_def call_audit_record_def)

lemma call_audit_record_simps [simp]:
  "ar_outcome (call_audit_record rd pc ev) = ev_outcome ev"
  "ar_refusal_reason (call_audit_record rd pc ev) = ev_reason ev"
  "ar_ticket (call_audit_record rd pc ev) = ev_ticket ev"
  "ar_result_bytes (call_audit_record rd pc ev) = map_option (\<lambda>r. result_bytes (res_content r)) (ev_result ev)"
  "ar_result_is_error (call_audit_record rd pc ev) = map_option res_is_error (ev_result ev)"
  by (simp_all add: call_audit_record_def)

lemma reply_row_internal [simp]: "reply_row (internal_error i c) r \<longleftrightarrow> ar_outcome r \<in> {Unanswered, Ran}"
  by (simp add: internal_error_def make_error_def)

lemma plain_event_simps [simp]:
  "ev_outcome (plain_event out) = out" "ev_reason (plain_event out) = None" "ev_result (plain_event out) = None"
  by (simp_all add: plain_event_def)

lemma reply_after_row_rows:
  assumes "reply_after_row sha rd f pc ev reply st = (out, st')" and "reply_row reply (call_audit_record rd pc ev)"
  shows "\<exists>rs. states_rows (px_log st) (px_log st') rs \<and> answer_rows pc out rs"
proof -
  obtain r where a: "audit_call sha rd f pc ev st = (r, st')"
    using assms(1) by (auto simp: reply_after_row_def split: prod.splits sum.splits)
  show ?thesis
  proof (cases r)
    case (Inl u)
    with audit_call_rows [OF a] assms(1) a show ?thesis
      by (intro exI [of _ "[]"]) (simp add: reply_after_row_def answer_rows_def)
  next
    case (Inr u)
    with audit_call_rows [OF a] assms a show ?thesis
      by (intro exI [of _ "[call_audit_record rd pc ev]"]) (simp add: reply_after_row_def answer_rows_def)
  qed
qed

lemma rethrow_unanswered_rows:
  assumes "rethrow_unanswered sha rd f pc approver st = (out, st')"
  shows "\<exists>rs. states_rows (px_log st) (px_log st') rs \<and> answer_rows pc out rs"
proof -
  let ?ev = "(plain_event Unanswered)\<lparr>ev_approver := approver, ev_ticket := pc_ticket pc\<rparr>"
  obtain r where a: "audit_call sha rd f pc ?ev st = (r, st')" "out = internal_error (pc_request_id pc) (pc_channel pc)"
    using assms by (cases "audit_call sha rd f pc ?ev st") (auto simp: rethrow_unanswered_def)
  show ?thesis
  proof (cases r)
    case (Inl u)
    with audit_call_rows [OF a(1)] a(2) show ?thesis
      by (intro exI [of _ "[]"]) (simp add: answer_rows_def)
  next
    case (Inr u)
    with audit_call_rows [OF a(1)] a(2) show ?thesis
      by (intro exI [of _ "[call_audit_record rd pc ?ev]"])
        (simp add: answer_rows_def)
  qed
qed

lemma answer_sound [inv_preserved]:
  "log_sound sha (px_log st) \<Longrightarrow> reply_after_row sha rd f pc ev reply st = (out, st') \<Longrightarrow> log_sound sha (px_log st')"
  "log_sound sha (px_log st) \<Longrightarrow> rethrow_unanswered sha rd f pc approver st = (out, st') \<Longrightarrow> log_sound sha (px_log st')"
  by (auto simp: reply_after_row_def rethrow_unanswered_def dest: audit_call_sound split: prod.splits sum.splits)
    (metis audit_call_sound prod.collapse)

subsection \<open>The stretches of a call\<close>

lemma begin_call_Inr:
  assumes "begin_call sha i c body sheets rt now prices st = Inr pc"
  shows "pc_request_id pc = i" "pc_channel pc = c" "rc_channel (pc_call pc) = c" "sheets = Inr (pc_sheet pc)"
    "pc_spend pc = meter_read now c (px_meter st)" "pc_hash pc = sha (canonical_json (tc_arguments (pc_call pc)))"
    "pc_decision pc = decide_from_state (pc_sheet pc) (tc_server (pc_call pc)) (tc_tool (pc_call pc)) (pc_spend pc) prices"
    "channel_id_pattern c"
  using assms by (auto simp: begin_call_def resolve_tool_call_def Let_def tool_call.defs resolved_call.defs
      split: option.splits sum.splits if_splits)

text \<open>What \<open>admit\<close> asks of the approval store, and when it goes on to serve.\<close>

definition admit_op :: "readings \<Rightarrow> string \<Rightarrow> pending_call \<Rightarrow> approval_op option" where
  "admit_op rd uuid pc =
     (case pc_decision pc of
        Refuse _ \<Rightarrow> None
      | d \<Rightarrow>
          (case pc_ticket pc of
             Some i \<Rightarrow> Some (OpRedeem (rd_redeem rd) (rd_redeem' rd) (pc_channel pc) i (pc_call pc) (pc_hash pc))
           | None \<Rightarrow>
               (case d of Hold _ _ _ _ \<Rightarrow> Some (OpMint (rd_mint rd) uuid (pc_call pc) (pc_hash pc)) | _ \<Rightarrow> None)))"

definition may_serve :: "readings \<Rightarrow> pending_call \<Rightarrow> string option \<Rightarrow> approval_store \<Rightarrow> bool" where
  "may_serve rd pc approver store \<longleftrightarrow>
     (case pc_ticket pc of
        None \<Rightarrow> approver = None \<and> (\<exists>tgt limits w. pc_decision pc = Allow tgt limits w)
      | Some i \<Rightarrow> (\<forall>r. pc_decision pc \<noteq> Refuse r) \<and>
          (\<exists>t. fst (redeem (rd_redeem rd) (rd_redeem' rd) (pc_channel pc) i (pc_call pc) (pc_hash pc) store) = Redeemed t
             \<and> approver = tkt_approver t))"

definition after_admit_op :: "readings \<Rightarrow> string \<Rightarrow> pending_call \<Rightarrow> approval_store \<Rightarrow> approval_store" where
  "after_admit_op rd uuid pc store =
     (case admit_op rd uuid pc of None \<Rightarrow> store | Some op \<Rightarrow> snd (approval_step op store))"

lemma serve_result:
  "serve sha rd f pc approver st =
     (if f_meter f then apfst Answer (rethrow_unanswered sha rd f pc approver st)
      else (Serving \<lparr>sv_pending = pc, sv_approver = approver\<rparr>,
            st\<lparr>px_meter := meter_record_tool_call (rd_meter rd) (pc_channel pc) (px_meter st)\<rparr>))"
  by (simp add: serve_def)

text \<open>Every way through \<open>admit\<close>: an answer after a row, or on to \<open>serve\<close>.\<close>

definition ticket_refused :: "pending_call \<Rightarrow> string \<Rightarrow> redeem_result \<Rightarrow> audit_event" where
  "ticket_refused pc ticket redeemed =
     (plain_event (case redeemed of RedeemExpired _ True \<Rightarrow> Expired | _ \<Rightarrow> Refused))
       \<lparr>ev_reason := Some (reason_of (approval_refusal redeemed (pc_call pc))), ev_ticket := Some ticket\<rparr>"

lemma admit_ticket:
  assumes "\<And>r. pc_decision pc \<noteq> Refuse r" and "pc_ticket pc = Some ticket"
    and "redeem (rd_redeem rd) (rd_redeem' rd) (pc_channel pc) ticket (pc_call pc) (pc_hash pc) (px_approvals st)
      = (redeemed, store)"
  shows "admit sha rd f uuid pc st =
      (case redeemed of
         Redeemed t \<Rightarrow> serve sha rd f pc (tkt_approver t) (st\<lparr>px_approvals := store\<rparr>)
       | _ \<Rightarrow> apfst Answer (reply_after_row sha rd f pc (ticket_refused pc ticket redeemed)
           (HttpOk (CallRefused (tc_id (pc_call pc)) (approval_refusal redeemed (pc_call pc))))
           (st\<lparr>px_approvals := store\<rparr>)))"
    and "after_admit_op rd uuid pc (px_approvals st) = store"
  using assms by (cases "pc_decision pc"; cases redeemed;
    simp add: admit_def after_admit_op_def admit_op_def ticket_refused_def)+

lemma admit_paths:
  obtains
    (row) ev reply where "admit sha rd f uuid pc st = apfst Answer (reply_after_row sha rd f pc ev reply
        (st\<lparr>px_approvals := after_admit_op rd uuid pc (px_approvals st)\<rparr>))"
      "reply_row reply (call_audit_record rd pc ev)"
  | (serve) approver where "admit sha rd f uuid pc st = serve sha rd f pc approver
        (st\<lparr>px_approvals := after_admit_op rd uuid pc (px_approvals st)\<rparr>)"
      "may_serve rd pc approver (px_approvals st)"
proof -
  consider (refuse) refusal where "pc_decision pc = Refuse refusal"
    | (allow) tgt limits w where "pc_decision pc = Allow tgt limits w" "pc_ticket pc = None"
    | (hold) tgt refusal limits w where "pc_decision pc = Hold tgt refusal limits w" "pc_ticket pc = None"
    | (ticket) ticket where "\<And>r. pc_decision pc \<noteq> Refuse r" "pc_ticket pc = Some ticket"
    by (cases "pc_decision pc"; cases "pc_ticket pc") auto
  then show ?thesis
  proof cases
    case refuse
    then show ?thesis
      by (intro row [of "(plain_event Refused)\<lparr>ev_reason := Some (reason_of refusal), ev_ticket := pc_ticket pc\<rparr>"
            "HttpOk (CallRefused (tc_id (pc_call pc)) refusal)"])
        (simp_all add: admit_def after_admit_op_def admit_op_def)
  next
    case allow
    then show ?thesis
      by (intro serve [of None]) (simp_all add: admit_def after_admit_op_def admit_op_def may_serve_def)
  next
    case hold
    obtain minted store where m: "mint (rd_mint rd) uuid (pc_call pc) (pc_hash pc) (px_approvals st) = (minted, store)"
      by fastforce
    with hold show ?thesis
      by (intro row [of "(plain_event Held)\<lparr>ev_reason := Some (reason_of refusal), ev_ticket := Some (tkt_id minted)\<rparr>"
            "HttpOk (CallHeld (tc_id (pc_call pc)) refusal (tkt_id minted) (tkt_expires_at minted))"])
        (simp_all add: admit_def after_admit_op_def admit_op_def)
  next
    case ticket
    obtain redeemed store where r: "redeem (rd_redeem rd) (rd_redeem' rd) (pc_channel pc) ticket (pc_call pc)
        (pc_hash pc) (px_approvals st) = (redeemed, store)" by fastforce
    note a = admit_ticket [OF ticket r]
    show ?thesis
    proof (cases "\<exists>t. redeemed = Redeemed t")
      case True
      then obtain t where t: "redeemed = Redeemed t" by blast
      with a r ticket show ?thesis by (intro serve [of "tkt_approver t"]) (simp_all add: may_serve_def)
    next
      case False
      with a have "admit sha rd f uuid pc st = apfst Answer (reply_after_row sha rd f pc (ticket_refused pc ticket redeemed)
           (HttpOk (CallRefused (tc_id (pc_call pc)) (approval_refusal redeemed (pc_call pc))))
           (st\<lparr>px_approvals := after_admit_op rd uuid pc (px_approvals st)\<rparr>))"
        by (cases redeemed) simp_all
      then show ?thesis by (rule row) (simp add: ticket_refused_def split: redeem_result.split bool.split)
    qed
  qed
qed

text \<open>What the answer of \<open>admit\<close> says of the state it leaves.\<close>

lemma admit_Answer:
  assumes "admit sha rd f uuid pc st = (Answer reply, st')"
  shows "px_approvals st' = after_admit_op rd uuid pc (px_approvals st)" "px_meter st' = px_meter st"
    "px_drift st' = px_drift st" "\<exists>rs. states_rows (px_log st) (px_log st') rs \<and> answer_rows pc reply rs"
    "log_sound sha (px_log st) \<Longrightarrow> log_sound sha (px_log st')"
proof -
  let ?st = "st\<lparr>px_approvals := after_admit_op rd uuid pc (px_approvals st)\<rparr>"
  consider (row) ev reply' where "reply_after_row sha rd f pc ev reply' ?st = (reply, st')"
      "reply_row reply' (call_audit_record rd pc ev)"
    | (caught) approver where "rethrow_unanswered sha rd f pc approver ?st = (reply, st')"
    using assms by (cases rule: admit_paths [of sha rd f uuid pc st])
      (auto simp: serve_def apfst_def map_prod_def split: prod.splits if_splits)
  then have "px_approvals st' = px_approvals ?st \<and> px_meter st' = px_meter ?st \<and> px_drift st' = px_drift ?st \<and>
      (\<exists>rs. states_rows (px_log ?st) (px_log st') rs \<and> answer_rows pc reply rs) \<and>
      (log_sound sha (px_log ?st) \<longrightarrow> log_sound sha (px_log st'))"
  proof cases
    case row
    then show ?thesis
      using reply_after_row_frame [OF row(1)] reply_after_row_rows [OF row] answer_sound(1) [OF _ row(1)] by blast
  next
    case caught
    then show ?thesis
      using rethrow_unanswered_frame [OF caught] rethrow_unanswered_rows [OF caught] answer_sound(2) [OF _ caught] by blast
  qed
  then show "px_approvals st' = after_admit_op rd uuid pc (px_approvals st)" "px_meter st' = px_meter st"
    "px_drift st' = px_drift st" "\<exists>rs. states_rows (px_log st) (px_log st') rs \<and> answer_rows pc reply rs"
    "log_sound sha (px_log st) \<Longrightarrow> log_sound sha (px_log st')" by simp_all
qed

lemma admit_Serving:
  assumes "admit sha rd f uuid pc st = (Serving sv, st')"
  shows "sv_pending sv = pc" "may_serve rd pc (sv_approver sv) (px_approvals st)"
    "px_approvals st' = after_admit_op rd uuid pc (px_approvals st)"
    "px_meter st' = meter_record_tool_call (rd_meter rd) (pc_channel pc) (px_meter st)"
    "px_log st' = px_log st" "px_drift st' = px_drift st"
  using assms by (cases rule: admit_paths [of sha rd f uuid pc st];
    auto simp: serve_def apfst_def map_prod_def split: prod.splits if_splits)+

lemma finish_Replied:
  assumes "finish sha rd f sv answer st = (Replied reply, st')"
  shows "px_approvals st' = px_approvals st" "px_meter st' = px_meter st" "px_drift st' = px_drift st"
    "\<exists>rs. states_rows (px_log st) (px_log st') rs \<and> answer_rows (sv_pending sv) reply rs"
    "log_sound sha (px_log st) \<Longrightarrow> log_sound sha (px_log st')"
proof -
  let ?ran = "\<lambda>result. (plain_event Ran)\<lparr>ev_result := Some result, ev_approver := sv_approver sv,
      ev_ticket := pc_ticket (sv_pending sv)\<rparr>"
  consider (caught) "rethrow_unanswered sha rd f (sv_pending sv) (sv_approver sv) st = (reply, st')"
    | (unwritten) result u where "audit_call sha rd f (sv_pending sv) (?ran result) st = (Inl u, st')"
        "reply = internal_error (pc_request_id (sv_pending sv)) (pc_channel (sv_pending sv))"
    | (row) ev reply' where "reply_after_row sha rd f (sv_pending sv) ev reply' st = (reply, st')"
        "reply_row reply' (call_audit_record rd (sv_pending sv) ev)"
    using assms
    by (fastforce simp: finish_def Let_def apfst_def map_prod_def make_error_def
        split: option.splits dispatched.splits prod.splits sum.splits)
  then have "px_approvals st' = px_approvals st \<and> px_meter st' = px_meter st \<and> px_drift st' = px_drift st \<and>
      (\<exists>rs. states_rows (px_log st) (px_log st') rs \<and> answer_rows (sv_pending sv) reply rs) \<and>
      (log_sound sha (px_log st) \<longrightarrow> log_sound sha (px_log st'))"
  proof cases
    case caught
    then show ?thesis
      using rethrow_unanswered_frame [OF caught] rethrow_unanswered_rows [OF caught] answer_sound(2) [OF _ caught] by blast
  next
    case unwritten
    then show ?thesis
      using audit_call_frame [OF unwritten(1)] audit_call_rows [OF unwritten(1)]
      by (intro conjI exI [of _ "[]"]) (simp_all add: answer_rows_def)
  next
    case row
    then show ?thesis
      using reply_after_row_frame [OF row(1)] reply_after_row_rows [OF row] answer_sound(1) [OF _ row(1)] by blast
  qed
  then show "px_approvals st' = px_approvals st" "px_meter st' = px_meter st" "px_drift st' = px_drift st"
    "\<exists>rs. states_rows (px_log st) (px_log st') rs \<and> answer_rows (sv_pending sv) reply rs"
    "log_sound sha (px_log st) \<Longrightarrow> log_sound sha (px_log st')" by simp_all
qed

lemma finish_RanRow:
  assumes "finish sha rd f sv answer st = (RanRow result, st')"
  shows "px_approvals st' = px_approvals st" "px_meter st' = px_meter st" "px_drift st' = px_drift st"
    "\<exists>rs. states_rows (px_log st) (px_log st') rs \<and> ran_rows (sv_pending sv) result rs"
    "log_sound sha (px_log st) \<Longrightarrow> log_sound sha (px_log st')" "answer = Some (DispatchRan result)"
proof -
  let ?ran = "(plain_event Ran)\<lparr>ev_result := Some result, ev_approver := sv_approver sv,
      ev_ticket := pc_ticket (sv_pending sv)\<rparr>"
  obtain u where a: "audit_call sha rd f (sv_pending sv) ?ran st = (Inr u, st')" and
    ans: "answer = Some (DispatchRan result)"
    using assms by (auto simp: finish_def Let_def apfst_def map_prod_def
        split: option.splits dispatched.splits prod.splits sum.splits)
  have "states_rows (px_log st) (px_log st') [call_audit_record rd (sv_pending sv) ?ran]"
    using audit_call_rows [OF a] by simp
  then show "\<exists>rs. states_rows (px_log st) (px_log st') rs \<and> ran_rows (sv_pending sv) result rs"
    by (intro exI [of _ "[call_audit_record rd (sv_pending sv) ?ran]"]) (simp add: ran_rows_def)
  show "px_approvals st' = px_approvals st" "px_meter st' = px_meter st" "px_drift st' = px_drift st"
    "log_sound sha (px_log st) \<Longrightarrow> log_sound sha (px_log st')" "answer = Some (DispatchRan result)"
    using audit_call_frame [OF a] audit_call_sound [OF _ a] ans by simp_all
qed

text \<open>What the meter is asked once a row is written, and by a report.\<close>

definition ran_claim :: "readings \<Rightarrow> io_faults \<Rightarrow> pending_call \<Rightarrow> meter_op option" where
  "ran_claim rd f pc =
     (if f_claim f then None
      else map_option (\<lambda>w. ClaimOnce (rd_claim rd) (pc_channel pc) (bw_limit w)) (decision_warning_of (pc_decision pc)))"

lemma ran_reply_state:
  assumes "ran_reply rd f pc result st = (reply, st')"
  shows "px_approvals st' = px_approvals st" "px_log st' = px_log st" "px_drift st' = px_drift st"
    "px_meter st' = (case ran_claim rd f pc of None \<Rightarrow> px_meter st | Some op \<Rightarrow> snd (meter_step op (px_meter st)))"
    "reply = internal_error (pc_request_id pc) (pc_channel pc) \<or>
     (\<exists>w. reply = HttpOk (CallRan (tc_id (pc_call pc)) result w) \<and>
        (\<forall>v. w = Some v \<longrightarrow> decision_warning_of (pc_decision pc) = Some v \<and>
           fst (meter_step (ClaimOnce (rd_claim rd) (pc_channel pc) (bw_limit v)) (px_meter st))))"
  using assms by (auto simp: ran_reply_def ran_claim_def Let_def split: option.splits if_splits prod.splits)

definition spend_op :: "readings \<Rightarrow> io_faults \<Rightarrow> string \<Rightarrow> spend_report \<Rightarrow> meter_op" where
  "spend_op rd f channel sr =
     RecordTokens (f_meter f) (rd_meter rd) (rd_claim rd) channel (sr_turn sr) (sr_usage sr) (sr_model sr)"

lemma record_spend_state:
  assumes "record_spend rd f i c body st = (reply, st')"
  shows "px_approvals st' = px_approvals st" "px_log st' = px_log st"
    "px_meter st' = (case body of None \<Rightarrow> px_meter st | Some sr \<Rightarrow> snd (meter_step (spend_op rd f c sr) (px_meter st)))"
  using assms by (auto simp: record_spend_def spend_op_def Let_def split: option.splits if_splits prod.splits sum.splits)

subsection \<open>The stretch of a verdict\<close>

definition verdict_op :: "readings \<Rightarrow> string \<Rightarrow> approval_decision \<Rightarrow> approval_op" where
  "verdict_op rd channel ad =
     OpDecide (rd_redeem rd) (rd_redeem' rd) channel (ad_ticket ad) (ad_decision ad) (ad_approver ad)"

definition verdict_row :: "string \<Rightarrow> string \<Rightarrow> approval_decision \<Rightarrow> http_reply \<Rightarrow> audit_record \<Rightarrow> bool" where
  "verdict_row request_id channel ad reply r \<longleftrightarrow> ar_request_id r = request_id \<and> ar_channel r = channel \<and>
     ((ar_outcome r = Approved \<and> ad_decision ad = Approve \<or> ar_outcome r = Denied \<and> ad_decision ad = Deny) \<and>
        ar_approver r = Some (ad_approver ad) \<and> reply = HttpOk (ApprovalReply (ReplyRecorded (ad_ticket ad) (ad_decision ad)))
      \<or> ar_outcome r = Expired \<and> ar_approver r = None \<and> reply = HttpOk (ApprovalReply (ReplyExpired (ad_ticket ad))))"

lemma record_decision_frame [frame_facts]:
  "record_decision sha rd f i c held out ap reply st = (reply', st') \<Longrightarrow> px_approvals st' = px_approvals st \<and>
     px_meter st' = px_meter st \<and> px_drift st' = px_drift st"
  by (auto simp: record_decision_def split: prod.splits sum.splits)

lemma record_decision_rows:
  assumes "record_decision sha rd f i c held out ap reply st = (reply', st')"
  shows "(px_log st' = px_log st \<and> reply' = internal_error i c) \<or>
    (states_rows (px_log st) (px_log st') [decision_audit_record (rd_row rd) i c held out ap] \<and> reply' = reply)"
  using assms by (auto simp: record_decision_def dest!: audit_append_Inl append_states split: prod.splits sum.splits)

lemma record_decision_sound [inv_preserved]:
  "log_sound sha (px_log st) \<Longrightarrow> record_decision sha rd f i c held out ap reply st = (reply', st') \<Longrightarrow>
     log_sound sha (px_log st')"
  by (auto simp: record_decision_def split: prod.splits sum.splits) (metis log_sound_append snd_conv)+

definition verdict_rows :: "string \<Rightarrow> string \<Rightarrow> approval_decision option \<Rightarrow> http_reply \<Rightarrow> audit_record list \<Rightarrow> bool" where
  "verdict_rows request_id channel body reply rs \<longleftrightarrow>
     rs = [] \<and> (\<forall>ticket v. reply \<noteq> HttpOk (ApprovalReply (ReplyRecorded ticket v))) \<or>
     (\<exists>ad r. body = Some ad \<and> rs = [r] \<and> verdict_row request_id channel ad reply r)"

lemma record_decision_verdict:
  assumes "record_decision sha rd f i c held out (ad_approver ad) reply st = (reply', st')"
    and "verdict_row i c ad reply (decision_audit_record (rd_row rd) i c held out (ad_approver ad))"
  shows "\<exists>rs. states_rows (px_log st) (px_log st') rs \<and> verdict_rows i c (Some ad) reply' rs"
  using record_decision_rows [OF assms(1)]
proof
  assume "px_log st' = px_log st \<and> reply' = internal_error i c"
  then show ?thesis
    by (intro exI [of _ "[]"]) (simp add: verdict_rows_def internal_error_def make_error_def)
next
  assume "states_rows (px_log st) (px_log st') [decision_audit_record (rd_row rd) i c held out (ad_approver ad)]
      \<and> reply' = reply"
  with assms(2) show ?thesis
    by (intro exI [of _ "[decision_audit_record (rd_row rd) i c held out (ad_approver ad)]"]) (simp add: verdict_rows_def)
qed

lemma decide_approval_state:
  assumes "decide_approval sha rd f i c body st = (reply, st')"
  shows "px_approvals st' = (case body of None \<Rightarrow> px_approvals st
      | Some ad \<Rightarrow> snd (approval_step (verdict_op rd c ad) (px_approvals st)))"
    "px_meter st' = px_meter st" "px_drift st' = px_drift st"
    "\<exists>rs. states_rows (px_log st) (px_log st') rs \<and> verdict_rows i c body reply rs"
    "log_sound sha (px_log st) \<Longrightarrow> log_sound sha (px_log st')"
proof -
  have "px_approvals st' = (case body of None \<Rightarrow> px_approvals st
      | Some ad \<Rightarrow> snd (approval_step (verdict_op rd c ad) (px_approvals st)))
    \<and> px_meter st' = px_meter st \<and> px_drift st' = px_drift st
    \<and> (\<exists>rs. states_rows (px_log st) (px_log st') rs \<and> verdict_rows i c body reply rs)
    \<and> (log_sound sha (px_log st) \<longrightarrow> log_sound sha (px_log st'))"
  proof (cases body)
    case None
    with assms show ?thesis
      by (auto simp: decide_approval_def make_error_def verdict_rows_def intro: exI [of _ "[]"])
  next
    case (Some ad)
    obtain recorded store where v: "record_verdict (rd_redeem rd) (rd_redeem' rd) c (ad_ticket ad) (ad_decision ad)
        (ad_approver ad) (px_approvals st) = (recorded, store)" by fastforce
    let ?st = "st\<lparr>px_approvals := store\<rparr>"
    consider (silent) "st' = ?st" "\<forall>ticket w. reply \<noteq> HttpOk (ApprovalReply (ReplyRecorded ticket w))"
      | (row) held out reply' where "record_decision sha rd f i c held out (ad_approver ad) reply' ?st = (reply, st')"
          "verdict_row i c ad reply' (decision_audit_record (rd_row rd) i c held out (ad_approver ad))"
      using assms Some v
      by (cases recorded; cases "ad_decision ad")
        (auto simp: decide_approval_def verdict_row_def decision_audit_record_def Let_def split: if_splits)
    then show ?thesis
    proof cases
      case silent
      with Some v show ?thesis by (auto simp: verdict_op_def verdict_rows_def intro: exI [of _ "[]"])
    next
      case row
      from record_decision_verdict [OF row] record_decision_frame [OF row(1)] record_decision_sound [OF _ row(1)]
        Some v show ?thesis by (auto simp: verdict_op_def)
    qed
  qed
  then show "px_approvals st' = (case body of None \<Rightarrow> px_approvals st
      | Some ad \<Rightarrow> snd (approval_step (verdict_op rd c ad) (px_approvals st)))"
    "px_meter st' = px_meter st" "px_drift st' = px_drift st"
    "\<exists>rs. states_rows (px_log st) (px_log st') rs \<and> verdict_rows i c body reply rs"
    "log_sound sha (px_log st) \<Longrightarrow> log_sound sha (px_log st')" by blast+
qed

end
