(* ===== verification/Demo_Run.thy ===== *)
theory Demo_Run
  imports Server_System
begin

text \<open>
  One concrete run of the proxy for the witnesses, over the sheet of \<open>Demo_Sheet\<close>: a destructive
  call is held, a human approves its ticket, the call is submitted again with the ticket and
  dispatched.
\<close>

definition demo_env :: "((tool_call \<times> string option) + approval_decision) proxy_env" where
  "demo_env = \<lparr>env_sha = demo_sha,
     env_parse_call = (\<lambda>v. case v of Inl c \<Rightarrow> Some c | Inr _ \<Rightarrow> None),
     env_parse_decision = (\<lambda>v. case v of Inr d \<Rightarrow> Some d | Inl _ \<Rightarrow> None),
     env_parse_spend = (\<lambda>_. None)\<rparr>"

definition demo_state :: proxy_state where
  "demo_state = \<lparr>px_approvals = [], px_meter = demo_meter, px_log = open_log demo_sha [], px_attempts = None,
     px_drift = None\<rparr>"

definition demo_peer :: peer_certificate where
  "demo_peer = \<lparr>peer_cn = CnOne ''channel:ops'', peer_fingerprint256 = Some (replicate 64 CHR ''A'')\<rparr>"

definition demo_request :: "string \<Rightarrow> string \<Rightarrow> 'v \<Rightarrow> 'v http_request" where
  "demo_request i path v = \<lparr>rq_id = i, rq_pathname = Some path, rq_method = ''POST'', rq_peer = Some demo_peer,
     rq_body = Inr v\<rparr>"

definition demo_sheets :: "string \<Rightarrow> unit + sheet_state" where
  "demo_sheets c = Inr (Active demo_sheet False)"

definition demo_bare :: tool_call where
  "demo_bare = \<lparr>tc_id = ''call-1'', tc_server = ''github'', tc_tool = ''delete_repo'', tc_arguments = JObj [],
     tc_requesting_user = ''ana'', tc_task = ''t1'', tc_thread = None\<rparr>"

definition demo_pending :: "string \<Rightarrow> string option \<Rightarrow> pending_call" where
  "demo_pending i ticket =
     \<lparr>pc_request_id = i, pc_channel = ''ops'', pc_call = demo_call ''ops'' ''github'' ''delete_repo'',
      pc_ticket = ticket, pc_hash = demo_sha (canonical_json (JObj [])), pc_sheet = Active demo_sheet False,
      pc_spend = no_spend,
      pc_decision = Hold (McpTarget demo_server_a) (NeedsApproval ''github'' ''delete_repo'')
        (llm_max_result_chars default_llm) None,
      pc_day_spend = price_day_spend_from_state (Active demo_sheet False) no_spend demo_prices\<rparr>"

definition demo_readings :: "nat \<Rightarrow> readings" where
  "demo_readings n = \<lparr>rd_mint = n, rd_redeem = n, rd_redeem' = n, rd_attempt = n, rd_row = n, rd_meter = n,
     rd_claim = n\<rparr>"

definition no_faults :: io_faults where
  "no_faults = \<lparr>f_attempt = False, f_append = False, f_meter = False, f_claim = False\<rparr>"

definition demo_verdict :: approval_decision where
  "demo_verdict = \<lparr>ad_ticket = ''k1'', ad_decision = Approve, ad_approver = ''bob''\<rparr>"

lemma demo_selectors [simp]:
  "env_sha demo_env = demo_sha" "px_approvals demo_state = []" "px_meter demo_state = demo_meter"
  "px_log demo_state = open_log demo_sha []"
  "pc_channel (demo_pending i t) = ''ops''" "pc_request_id (demo_pending i t) = i" "pc_ticket (demo_pending i t) = t"
  "pc_call (demo_pending i t) = demo_call ''ops'' ''github'' ''delete_repo''"
  "pc_hash (demo_pending i t) = demo_sha (canonical_json (JObj []))"
  "pc_decision (demo_pending i t) = Hold (McpTarget demo_server_a) (NeedsApproval ''github'' ''delete_repo'')
        (llm_max_result_chars default_llm) None"
  "pc_sheet (demo_pending i t) = Active demo_sheet False"
  "rd_mint (demo_readings n) = n" "rd_redeem (demo_readings n) = n" "rd_redeem' (demo_readings n) = n"
  "rd_row (demo_readings n) = n" "rd_meter (demo_readings n) = n" "rd_claim (demo_readings n) = n"
  "f_meter no_faults = False" "f_append no_faults = False"
  by (simp_all add: demo_env_def demo_state_def demo_pending_def demo_readings_def no_faults_def)

lemma demo_pin: "matches_pin (replicate 64 CHR ''A'') [replicate 64 CHR ''a'']"
proof -
  have "to_upper CHR ''a'' = CHR ''A''" "to_upper CHR ''A'' = CHR ''A''" by code_simp+
  then show ?thesis by (simp add: matches_pin_def normalize_certificate_sha256_def filter_replicate)
qed

lemma demo_channel: "channel_id_pattern ''ops''"
  by code_simp

lemma demo_routes [simp]:
  "map_of routes ''/v1/tools/call'' = Some [(''POST'', RouteCall, True)]"
  "map_of routes ''/v1/approvals'' = Some [(''POST'', RouteApprovals, True)]"
  by (simp_all add: routes_def)

lemma demo_routed:
  assumes "map_of routes path = Some [(''POST'', route, True)]"
  shows "route_request demo_sheets (demo_request i path v) =
    Routed route \<lparr>ctx_channel = ''ops'', ctx_request_id = i, ctx_body = Some v\<rparr>"
proof -
  have "resolve_channel (Some demo_peer) = Inr \<lparr>id_channel = ''ops'', id_fingerprint = replicate 64 CHR ''A''\<rparr>"
    using demo_channel by (simp add: resolve_channel_def demo_peer_def channel_from_common_name_def channel_cn_prefix_def Let_def)
  moreover have "pin_rejection (Active demo_sheet False) (replicate 64 CHR ''A'') i = None"
    using demo_pin by (simp add: pin_rejection_def demo_sheet_def)
  ultimately show ?thesis
    using assms by (simp add: route_request_def demo_request_def demo_sheets_def Let_def)
qed

lemma demo_decide_unspent: "decide demo_sheet ''github'' ''delete_repo'' no_spend demo_prices =
    Hold (McpTarget demo_server_a) (NeedsApproval ''github'' ''delete_repo'') (llm_max_result_chars default_llm) None"
proof -
  have "is_destructive_name ''delete_repo''" by code_simp
  moreover have "exhausted_limit demo_sheet no_spend demo_prices = None" "crossed_threshold demo_sheet no_spend demo_prices = None"
    by (simp_all add: exhausted_limit_def exhausted_counts_def crossed_threshold_def crossed_counts_def demo_budget_def
        no_spend_def billable_tokens_def js_add_def js_mul_def fl_numeral Let_def)
  ultimately show ?thesis
    by (simp add: decide_def builtin_server_def servers_named_def tools_named_def servers_carrying_def
        demo_server_a_def demo_server_b_def demo_server_def demo_tool_def select_upstream_def
        same_upstream_def resolve_approval_def resolve_limits_def upstream_key_def)
qed

lemma demo_unspent: "meter_read now ''ops'' demo_meter = no_spend"
  by (simp add: meter_read_def demo_meter_def empty_budget_db_def read_spend_def token_rows_def to_daily_spend_def
      no_spend_def List.map_filter_def)

lemma demo_begin:
  "px_meter st = demo_meter \<Longrightarrow>
     begin_call demo_sha i ''ops'' (Some (demo_bare, ticket)) (Inr (Active demo_sheet False)) False now demo_prices st
       = Inr (demo_pending i ticket)"
  using demo_channel
  by (simp add: begin_call_def demo_bare_def resolve_tool_call_def demo_pending_def demo_call_def Let_def demo_unspent
      decide_from_state_def demo_decide_unspent tool_call.defs resolved_call.defs)

lemma demo_decided_step:
  assumes "px_meter (sys_state sys) = demo_meter"
  shows "proxy_step demo_env sys (EvDecided now (demo_pending i ticket))
    (sys\<lparr>sys_calls := sys_calls sys @ [Decided (demo_pending i ticket)]\<rparr>)"
proof (rule step_decided [where rq = "demo_request i ''/v1/tools/call'' (Inl (demo_bare, ticket))"
      and sheets' = "Inr (Active demo_sheet False)" and rt = False and prices = demo_prices and sheets = demo_sheets])
  show "route_request demo_sheets (demo_request i ''/v1/tools/call'' (Inl (demo_bare, ticket))) =
      Routed RouteCall \<lparr>ctx_channel = ''ops'', ctx_request_id = i, ctx_body = Some (Inl (demo_bare, ticket))\<rparr>"
    by (rule demo_routed) simp
qed (use demo_begin [OF assms] in \<open>simp add: demo_env_def\<close>)

text \<open>The held call's ticket, and the run up to each event.\<close>

definition demo_held :: ticket where
  "demo_held = new_ticket 10 ''k1'' (demo_call ''ops'' ''github'' ''delete_repo'') (demo_sha (canonical_json (JObj [])))"

abbreviation demo_granted :: ticket where
  "demo_granted \<equiv> demo_held\<lparr>tkt_verdict := Some Approve, tkt_approver := Some ''bob'', tkt_decided_at := Some 20\<rparr>"

lemma demo_held_channel [simp]: "rc_channel (demo_call c s t) = c"
  by (simp add: demo_call_def)

lemma demo_hold:
  "\<exists>reply st. admit demo_sha (demo_readings 10) no_faults ''k1'' (demo_pending ''r1'' None) demo_state = (Answer reply, st)
     \<and> px_approvals st = [(''ops'', [(''k1'', demo_held)])] \<and> px_meter st = demo_meter"
proof -
  obtain out st where a: "admit demo_sha (demo_readings 10) no_faults ''k1'' (demo_pending ''r1'' None) demo_state = (out, st)"
    by fastforce
  then obtain reply where out: "out = Answer reply"
    by (cases out) (auto dest!: admit_Serving(2) simp: may_serve_def)
  have "after_admit_op (demo_readings 10) ''k1'' (demo_pending ''r1'' None) [] = [(''ops'', [(''k1'', demo_held)])]"
    by (simp add: after_admit_op_def admit_op_def mint_def Let_def evict.simps max_tickets_per_channel_def demo_held_def)
  with admit_Answer(1,2) [OF a [unfolded out]] a out show ?thesis by auto
qed

lemma demo_approve:
  assumes "px_approvals st = [(''ops'', [(''k1'', demo_held)])]"
  shows "\<exists>reply st'. decide_approval demo_sha (demo_readings 20) no_faults ''r2'' ''ops'' (Some demo_verdict) st = (reply, st')
     \<and> px_approvals st' = [(''ops'', [(''k1'', demo_granted)])] \<and> px_meter st' = px_meter st"
proof -
  obtain reply st' where d: "decide_approval demo_sha (demo_readings 20) no_faults ''r2'' ''ops'' (Some demo_verdict) st = (reply, st')"
    by fastforce
  have "snd (approval_step (verdict_op (demo_readings 20) ''ops'' demo_verdict) (px_approvals st))
      = [(''ops'', [(''k1'', demo_granted)])]"
    by (simp add: assms verdict_op_def demo_verdict_def record_verdict_def find_ticket_def put_ticket_def decide_ticket_def
        is_dead_def demo_held_def new_ticket_def approval_ttl_ms_def Let_def)
  with decide_approval_state(1,2) [OF d] d show ?thesis by auto
qed

lemma demo_serve:
  assumes "px_approvals st = [(''ops'', [(''k1'', demo_granted)])]"
  shows "\<exists>st'. admit demo_sha (demo_readings 30) no_faults ''k2'' (demo_pending ''r3'' (Some ''k1'')) st
    = (Serving \<lparr>sv_pending = demo_pending ''r3'' (Some ''k1''), sv_approver = Some ''bob''\<rparr>, st')"
proof -
  have r: "redeem (rd_redeem (demo_readings 30)) (rd_redeem' (demo_readings 30)) (pc_channel (demo_pending ''r3'' (Some ''k1'')))
      ''k1'' (pc_call (demo_pending ''r3'' (Some ''k1''))) (pc_hash (demo_pending ''r3'' (Some ''k1''))) (px_approvals st)
      = (Redeemed (demo_granted\<lparr>tkt_spent_at := Some 30\<rparr>), [(''ops'', [(''k1'', demo_granted\<lparr>tkt_spent_at := Some 30\<rparr>)])])"
    by (simp add: assms redeem_def find_ticket_def put_ticket_def redeem_ticket_def is_dead_def demo_held_def
        new_ticket_def approval_ttl_ms_def Let_def demo_call_def)
  have "admit demo_sha (demo_readings 30) no_faults ''k2'' (demo_pending ''r3'' (Some ''k1'')) st =
      serve demo_sha (demo_readings 30) no_faults (demo_pending ''r3'' (Some ''k1'')) (Some ''bob'')
        (st\<lparr>px_approvals := [(''ops'', [(''k1'', demo_granted\<lparr>tkt_spent_at := Some 30\<rparr>)])]\<rparr>)"
    by (subst admit_ticket(1) [OF _ _ r]) simp_all
  then show ?thesis by (simp add: serve_def)
qed

abbreviation demo_dispatch :: sys_event where
  "demo_dispatch \<equiv> EvAdmitted 1 (demo_readings 30) no_faults ''k2'' (demo_pending ''r3'' (Some ''k1''))
     (Serving \<lparr>sv_pending = demo_pending ''r3'' (Some ''k1''), sv_approver = Some ''bob''\<rparr>)"

definition demo_events :: "http_reply \<Rightarrow> http_reply \<Rightarrow> sys_event list" where
  "demo_events reply reply' =
     [EvDecided 10 (demo_pending ''r1'' None),
      EvAdmitted 0 (demo_readings 10) no_faults ''k1'' (demo_pending ''r1'' None) (Answer reply),
      EvVerdict (demo_readings 20) no_faults ''r2'' ''ops'' (Some demo_verdict) reply',
      EvDecided 30 (demo_pending ''r3'' (Some ''k1'')),
      demo_dispatch]"

lemma demo_run: "\<exists>reply reply' sys. proxy_run demo_env demo_state (demo_events reply reply') sys"
proof -
  let ?s0 = "\<lparr>sys_state = demo_state, sys_calls = []\<rparr>"
  let ?p1 = "demo_pending ''r1'' None" and ?p2 = "demo_pending ''r3'' (Some ''k1'')"
  obtain reply st1 where a: "admit demo_sha (demo_readings 10) no_faults ''k1'' ?p1 demo_state = (Answer reply, st1)"
    "px_approvals st1 = [(''ops'', [(''k1'', demo_held)])]" "px_meter st1 = demo_meter" using demo_hold by blast
  obtain reply' st2 where v: "decide_approval demo_sha (demo_readings 20) no_faults ''r2'' ''ops'' (Some demo_verdict) st1 = (reply', st2)"
    "px_approvals st2 = [(''ops'', [(''k1'', demo_granted)])]" "px_meter st2 = demo_meter"
    using demo_approve [OF a(2)] a(3) by auto
  obtain st3 where s: "admit demo_sha (demo_readings 30) no_faults ''k2'' ?p2 st2
      = (Serving \<lparr>sv_pending = ?p2, sv_approver = Some ''bob''\<rparr>, st3)" using demo_serve [OF v(2)] by blast
  let ?s1 = "\<lparr>sys_state = demo_state, sys_calls = [Decided ?p1]\<rparr>"
  let ?s2 = "\<lparr>sys_state = st1, sys_calls = [Answered ?p1 reply]\<rparr>"
  let ?s3 = "\<lparr>sys_state = st2, sys_calls = [Answered ?p1 reply]\<rparr>"
  let ?s4 = "\<lparr>sys_state = st2, sys_calls = [Answered ?p1 reply, Decided ?p2]\<rparr>"
  have 1: "proxy_step demo_env ?s0 (EvDecided 10 ?p1) ?s1"
    using demo_decided_step [of ?s0] by simp
  have 2: "proxy_step demo_env ?s1 (EvAdmitted 0 (demo_readings 10) no_faults ''k1'' ?p1 (Answer reply)) ?s2"
    using step_admitted [of 0 ?s1 ?p1 demo_env "demo_readings 10" no_faults "''k1''" "Answer reply" st1] a(1) by (simp add: phase_admitted_def)
  have 3: "proxy_step demo_env ?s2 (EvVerdict (demo_readings 20) no_faults ''r2'' ''ops'' (Some demo_verdict) reply') ?s3"
    using step_verdict [OF demo_routed [of "''/v1/approvals''" RouteApprovals "''r2''" "Inr demo_verdict"],
        where body = "Some demo_verdict" and env = demo_env and rd = "demo_readings 20" and f = no_faults and sys = ?s2
        and reply = reply' and st = st2] v(1) by (simp add: demo_env_def)
  have 4: "proxy_step demo_env ?s3 (EvDecided 30 ?p2) ?s4"
    using demo_decided_step [of ?s3] v(3) by simp
  have 5: "proxy_step demo_env ?s4 demo_dispatch \<lparr>sys_state = st3, sys_calls = [Answered ?p1 reply,
      phase_admitted ?p2 (Serving \<lparr>sv_pending = ?p2, sv_approver = Some ''bob''\<rparr>)]\<rparr>"
    using step_admitted [of 1 ?s4 ?p2 demo_env "demo_readings 30" no_faults "''k2''" _ st3] s by simp
  note run = run_step [OF run_step [OF run_step [OF run_step [OF run_step [OF run_init _ 1] _ 2] _ 3] _ 4] _ 5]
  from run show ?thesis unfolding demo_events_def by (simp add: fresh_event_def) blast
qed

lemma demo_events_set: "demo_dispatch \<in> set (demo_events reply reply')"
  by (simp add: demo_events_def)

lemma demo_log_sound: "log_sound demo_sha (px_log demo_state)"
  by (simp add: log_sound_def open_log_def verify_chain_def)

end
