(* ===== verification/Server_Safety.thy ===== *)
theory Server_Safety
  imports Demo_Run
begin

text \<open>
  What holds in every run of the proxy, however its requests interleave: a dispatch is authorised by
  the sheet and, for a held call, by one human approval that no other dispatch used; each decided
  call is dispatched at most once and leaves at most one audit row, exactly one behind an answer
  that is not a 500; the meter counts exactly the dispatches; the daily cap can be overshot by no
  more than the calls in flight; and a step of one channel touches nothing of another's.
\<close>

subsection \<open>What an event asks of each component\<close>

fun event_approval :: "sys_event \<Rightarrow> approval_op option" where
  "event_approval (EvAdmitted _ rd _ uuid pc _) = admit_op rd uuid pc"
| "event_approval (EvVerdict rd _ _ c (Some ad) _) = Some (verdict_op rd c ad)"
| "event_approval _ = None"

fun event_meter :: "sys_event \<Rightarrow> meter_op option" where
  "event_meter (EvAdmitted _ rd _ _ pc (Serving _)) = Some (RecordToolCall (rd_meter rd) (pc_channel pc))"
| "event_meter (EvSettled _ rd f pc _ _) = ran_claim rd f pc"
| "event_meter (EvSpend rd f _ c (Some sr) _) = Some (spend_op rd f c sr)"
| "event_meter _ = None"

fun event_rows :: "sys_event \<Rightarrow> audit_record list \<Rightarrow> bool" where
  "event_rows (EvAdmitted _ _ _ _ pc (Answer reply)) rs \<longleftrightarrow> answer_rows pc reply rs"
| "event_rows (EvFinished _ _ _ sv _ (Replied reply)) rs \<longleftrightarrow> answer_rows (sv_pending sv) reply rs"
| "event_rows (EvFinished _ _ _ sv _ (RanRow result)) rs \<longleftrightarrow> ran_rows (sv_pending sv) result rs"
| "event_rows (EvVerdict _ _ i c body reply) rs \<longleftrightarrow> verdict_rows i c body reply rs"
| "event_rows _ rs \<longleftrightarrow> rs = []"

fun event_channel :: "sys_event \<Rightarrow> string option" where
  "event_channel (EvReplied _ _) = None"
| "event_channel (EvDecided _ pc) = Some (pc_channel pc)"
| "event_channel (EvAdmitted _ _ _ _ pc _) = Some (pc_channel pc)"
| "event_channel (EvFinished _ _ _ sv _ _) = Some (pc_channel (sv_pending sv))"
| "event_channel (EvSettled _ _ _ pc _ _) = Some (pc_channel pc)"
| "event_channel (EvVerdict _ _ _ c _ _) = Some c"
| "event_channel (EvSpend _ _ _ c _ _) = Some c"

lemma step_approvals:
  assumes "proxy_step env sys ev sys'"
  shows "px_approvals (sys_state sys') = (case event_approval ev of None \<Rightarrow> px_approvals (sys_state sys)
      | Some op \<Rightarrow> snd (approval_step op (px_approvals (sys_state sys))))"
  using assms
proof (cases rule: proxy_step.cases)
  case (step_admitted i pc rd f uuid out st)
  then show ?thesis
    by (cases out) (simp_all add: admit_Answer(1) admit_Serving(3) after_admit_op_def)
next
  case (step_finished i sv rd f answer out st)
  then show ?thesis by (cases out) (simp_all add: finish_Replied(1) finish_RanRow(1))
qed (auto simp: ran_reply_state(1) record_spend_state(1) decide_approval_state(1) split: option.splits)

lemma step_meter:
  assumes "proxy_step env sys ev sys'"
  shows "px_meter (sys_state sys') = (case event_meter ev of None \<Rightarrow> px_meter (sys_state sys)
      | Some op \<Rightarrow> snd (meter_step op (px_meter (sys_state sys))))"
  using assms
proof (cases rule: proxy_step.cases)
  case (step_admitted i pc rd f uuid out st)
  then show ?thesis by (cases out) (simp_all add: admit_Answer(2) admit_Serving(4))
next
  case (step_finished i sv rd f answer out st)
  then show ?thesis by (cases out) (simp_all add: finish_Replied(2) finish_RanRow(2))
next
  case (step_spend sheets rq ctx body rd f reply st)
  then show ?thesis by (simp add: record_spend_state(3) split: option.splits)
qed (simp_all add: ran_reply_state(4) decide_approval_state(2))

lemma step_log:
  assumes "proxy_step env sys ev sys'"
  shows "\<exists>rs. states_rows (px_log (sys_state sys)) (px_log (sys_state sys')) rs \<and> event_rows ev rs"
  using assms
proof (cases rule: proxy_step.cases)
  case (step_admitted i pc rd f uuid out st)
  then show ?thesis
    using admit_Answer(4) [of "env_sha env" rd f uuid pc "sys_state sys"] by (cases out) (auto simp: admit_Serving(5))
next
  case (step_finished i sv rd f answer out st)
  then show ?thesis
    using finish_Replied(4) [of "env_sha env" rd f sv answer "sys_state sys"]
      finish_RanRow(4) [of "env_sha env" rd f sv answer "sys_state sys"] by (cases out) auto
next
  case (step_verdict sheets rq ctx body rd f reply st)
  then show ?thesis using decide_approval_state(4) [of "env_sha env" rd f] by auto
qed (simp_all add: ran_reply_state(2) record_spend_state(2))

lemma step_sound [inv_preserved]:
  assumes "proxy_step env sys ev sys'" and "log_sound (env_sha env) (px_log (sys_state sys))"
  shows "log_sound (env_sha env) (px_log (sys_state sys'))"
  using assms(1)
proof (cases rule: proxy_step.cases)
  case (step_admitted i pc rd f uuid out st)
  with assms(2) show ?thesis by (cases out) (simp_all add: admit_Answer(5) admit_Serving(5))
next
  case (step_finished i sv rd f answer out st)
  with assms(2) show ?thesis by (cases out) (simp_all add: finish_Replied(5) finish_RanRow(5))
qed (use assms(2) in \<open>simp_all add: ran_reply_state(2) record_spend_state(2) decide_approval_state(5)\<close>)

text \<open>The invariant of the shared state, from the components' own invariants.\<close>

definition proxy_ok :: "(string \<Rightarrow> string) \<Rightarrow> proxy_state \<Rightarrow> bool" where
  "proxy_ok sha st \<longleftrightarrow> store_wf (px_approvals st) \<and> meter_wf (px_meter st) \<and> log_sound sha (px_log st)"

lemma step_ok [inv_preserved]:
  assumes "proxy_step env sys ev sys'" and "proxy_ok (env_sha env) (sys_state sys)"
  shows "proxy_ok (env_sha env) (sys_state sys')"
  using assms(2) step_sound [OF assms(1)]
  by (auto simp: proxy_ok_def step_approvals [OF assms(1)] step_meter [OF assms(1)] store_wf_step meter_wf_step
      split: option.splits)

subsection \<open>Calls and their decisions\<close>

text \<open>A decision in flight is the one \<open>begin_call\<close> made.\<close>

definition decided_call :: "(string \<Rightarrow> string) \<Rightarrow> pending_call \<Rightarrow> bool" where
  "decided_call sha pc \<longleftrightarrow> rc_channel (pc_call pc) = pc_channel pc \<and> channel_id_pattern (pc_channel pc) \<and>
     pc_hash pc = sha (canonical_json (tc_arguments (pc_call pc))) \<and>
     (\<exists>prices. pc_decision pc =
        decide_from_state (pc_sheet pc) (tc_server (pc_call pc)) (tc_tool (pc_call pc)) (pc_spend pc) prices)"

lemma begin_call_decided: "begin_call sha i c body sheets rt now prices st = Inr pc \<Longrightarrow> decided_call sha pc"
  using begin_call_Inr(2,3,6,7,8) [of sha i c body sheets rt now prices st pc] by (auto simp: decided_call_def)

text \<open>Not refused is: granted, unambiguous, within the budget that was read.\<close>

lemma decided_call_policy:
  assumes "decided_call sha pc" and "\<And>r. pc_decision pc \<noteq> Refuse r"
  shows "\<exists>sheet stale prices. pc_sheet pc = Active sheet stale \<and>
      may_call sheet (tc_server (pc_call pc)) (tc_tool (pc_call pc)) \<and> within_budget sheet (pc_spend pc) prices \<and>
      ((\<exists>tgt limits w. pc_decision pc = Allow tgt limits w) \<longleftrightarrow>
        \<not> needs_human sheet (tc_server (pc_call pc)) (tc_tool (pc_call pc)))"
proof -
  obtain prices where d: "pc_decision pc =
      decide_from_state (pc_sheet pc) (tc_server (pc_call pc)) (tc_tool (pc_call pc)) (pc_spend pc) prices"
    using assms(1) by (auto simp: decided_call_def)
  with assms(2) obtain sheet stale where s: "pc_sheet pc = Active sheet stale"
    by (cases "pc_sheet pc") (auto simp: decide_from_state_def)
  with d have "verdict_of (pc_decision pc) = policy sheet (tc_server (pc_call pc)) (tc_tool (pc_call pc)) (pc_spend pc) prices"
    by (simp add: decide_from_state_def decide_verdict)
  with assms(2) s show ?thesis
    by (cases "pc_decision pc") (auto simp: policy_def split: if_splits)
qed

lemma calls_decided:
  assumes "proxy_run env st0 tr sys"
  shows "\<forall>p \<in> set (sys_calls sys). \<exists>now. EvDecided now (phase_call p) \<in> set tr"
  using assms
proof (induction rule: proxy_run.induct)
  case (run_step tr sys ev sys')
  from run_step(3) run_step.IH show ?case
    by (cases rule: proxy_step.cases)
      (auto simp: phase_admitted_def phase_finished_def dest!: set_update_subset_insert [THEN subsetD]
        split: admitted.splits settled.splits dest: admit_Serving(1)
        | metis nth_mem phase_call.simps admit_Serving(1))+
qed simp

lemma decided_events:
  assumes "proxy_run env st0 tr sys" and "EvDecided now pc \<in> set tr"
  shows "decided_call (env_sha env) pc"
proof -
  obtain before s1 s2 where "proxy_step env s1 (EvDecided now pc) s2" using proxy_run_event [OF assms] by blast
  then show ?thesis
    by (cases rule: proxy_step.cases) (auto intro: begin_call_decided)
qed

lemma admitted_events:
  assumes "proxy_run env st0 before s1" and "proxy_step env s1 (EvAdmitted k rd f uuid pc out) s2"
  shows "\<exists>now. EvDecided now pc \<in> set before" "decided_call (env_sha env) pc"
    "\<exists>st. admit (env_sha env) rd f uuid pc (sys_state s1) = (out, st)"
proof -
  from assms(2) have "k < length (sys_calls s1)" "sys_calls s1 ! k = Decided pc"
    and a: "\<exists>st. admit (env_sha env) rd f uuid pc (sys_state s1) = (out, st)"
    by (cases rule: proxy_step.cases; auto)+
  with calls_decided [OF assms(1)] show d: "\<exists>now. EvDecided now pc \<in> set before"
    by (metis nth_mem phase_call.simps(1))
  with decided_events [OF assms(1)] show "decided_call (env_sha env) pc" by blast
  show "\<exists>st. admit (env_sha env) rd f uuid pc (sys_state s1) = (out, st)" by (rule a)
qed

subsection \<open>A run, as the approval store sees it\<close>

lemma admit_op_mint:
  "admit_op rd uuid pc = Some (OpMint born i call h) \<longleftrightarrow>
     i = uuid \<and> born = rd_mint rd \<and> call = pc_call pc \<and> h = pc_hash pc \<and> pc_ticket pc = None \<and>
     (\<exists>tgt refusal limits w. pc_decision pc = Hold tgt refusal limits w)"
  by (auto simp: admit_op_def split: decision.splits option.splits)

lemma admit_op_not_decide: "admit_op rd uuid pc \<noteq> Some (OpDecide d d' c i v ap)"
  by (simp add: admit_op_def split: decision.split option.split)

lemma mint_event:
  "event_approval ev = Some (OpMint born i call h) \<Longrightarrow> \<exists>k rd f pc out. ev = EvAdmitted k rd f i pc out \<and>
     rd_mint rd = born \<and> call = pc_call pc \<and> h = pc_hash pc \<and> pc_ticket pc = None \<and>
     (\<exists>tgt refusal limits w. pc_decision pc = Hold tgt refusal limits w)"
  by (cases ev rule: event_approval.cases) (auto simp: admit_op_mint verdict_op_def)

lemma verdict_event:
  "event_approval ev = Some (OpDecide d d' c i v ap) \<Longrightarrow> \<exists>rd f rid ad reply. ev = EvVerdict rd f rid c (Some ad) reply \<and>
     ad_ticket ad = i \<and> ad_decision ad = v \<and> ad_approver ad = ap"
  by (cases ev rule: event_approval.cases) (auto simp: verdict_op_def admit_op_not_decide)

lemma mints_event: "event_approval ev = Some op \<Longrightarrow> mints i op \<Longrightarrow> event_uuid ev = Some i"
  by (cases op) (auto dest: mint_event)

text \<open>A dispatch that spends ticket \<open>i\<close> of channel \<open>c\<close>.\<close>

fun spends :: "string \<Rightarrow> string \<Rightarrow> sys_event \<Rightarrow> bool" where
  "spends c i (EvAdmitted _ _ _ _ pc (Serving _)) \<longleftrightarrow> pc_channel pc = c \<and> pc_ticket pc = Some i"
| "spends c i _ \<longleftrightarrow> False"

lemma spends_redeems:
  assumes "proxy_step env sys ev sys'" and "spends c i ev" and "event_approval ev = Some op"
    and "approval_step op (px_approvals (sys_state sys)) = (out, store)"
  shows "redeemed_event c i (op, out)"
proof -
  from assms(2) obtain k rd f uuid pc sv where ev: "ev = EvAdmitted k rd f uuid pc (Serving sv)"
    "pc_channel pc = c" "pc_ticket pc = Some i" by (cases "(c, i, ev)" rule: spends.cases) auto
  with assms(1) obtain st where "admit (env_sha env) rd f uuid pc (sys_state sys) = (Serving sv, st)"
    by (auto elim: proxy_step.cases)
  from admit_Serving(2) [OF this] ev assms(3,4) show ?thesis
    by (auto simp: may_serve_def admit_op_def apfst_def map_prod_def split: decision.splits prod.splits)
qed

lemma run_history:
  assumes "proxy_run env st0 tr sys" and "px_approvals st0 = []"
  shows "\<exists>h. history approval_step [] h (px_approvals (sys_state sys)) \<and>
    map fst h = List.map_filter event_approval tr \<and>
    (\<forall>c i. length (filter (spends c i) tr) \<le> length (filter (redeemed_event c i) h))"
  using assms(1)
proof (induction rule: proxy_run.induct)
  case run_init
  show ?case
    by (intro exI [of _ "[]"]) (simp add: assms(2) List.map_filter_def)
next
  case (run_step tr sys ev sys')
  then obtain h where h: "history approval_step [] h (px_approvals (sys_state sys))"
    "map fst h = List.map_filter event_approval tr"
    "\<And>c i. length (filter (spends c i) tr) \<le> length (filter (redeemed_event c i) h)" by blast
  note ap = step_approvals [OF run_step(3)]
  show ?case
  proof (cases "event_approval ev")
    case None
    have "\<not> spends c i ev" for c i
    proof
      assume "spends c i ev"
      then obtain k rd f uuid pc sv where ev: "ev = EvAdmitted k rd f uuid pc (Serving sv)" "pc_ticket pc = Some i"
        by (cases "(c, i, ev)" rule: spends.cases) auto
      with run_step(3) obtain st where "admit (env_sha env) rd f uuid pc (sys_state sys) = (Serving sv, st)"
        by (auto elim: proxy_step.cases)
      from admit_Serving(2) [OF this] ev None show False
        by (auto simp: may_serve_def admit_op_def split: decision.splits)
    qed
    with h None ap show ?thesis by (intro exI [of _ h]) (simp add: List.map_filter_def)
  next
    case (Some op)
    obtain out store where o: "approval_step op (px_approvals (sys_state sys)) = (out, store)" by fastforce
    have "fresh_op op h"
      unfolding fresh_op_def
    proof (intro allI impI ballI, clarify)
      fix i op' out'
      assume m: "mints i op" "(op', out') \<in> set h" "mints i op'"
      then have "op' \<in> set (List.map_filter event_approval tr)" by (metis h(2) fst_conv image_eqI list.set_map)
      then obtain e where "e \<in> set tr" "event_approval e = Some op'" by (auto simp: List.map_filter_def)
      with run_step(2) m mints_event [OF Some m(1)] mints_event [OF _ m(3)] show False
        by (auto simp: fresh_event_def)
    qed
    from history_step [OF h(1) this o] have "history approval_step [] (h @ [(op, out)]) (px_approvals (sys_state sys'))"
      using ap Some o by simp
    moreover have "length (filter (spends c i) (tr @ [ev])) \<le> length (filter (redeemed_event c i) (h @ [(op, out)]))" for c i
      using h(3) [of c i] spends_redeems [OF run_step(3) _ Some o, of c i] by auto
    ultimately show ?thesis
      using h(2) Some by (intro exI [of _ "h @ [(op, out)]"]) (simp add: List.map_filter_def)
  qed
qed

subsection \<open>A dispatch is authorised\<close>

lemma run_redemption:
  assumes "proxy_run env st0 before s1" and "px_approvals st0 = []"
    and "proxy_step env s1 (EvAdmitted k rd f uuid pc (Serving sv)) s2" and "pc_ticket pc = Some i"
  shows "\<exists>k' rd' f' pc' out'. EvAdmitted k' rd' f' i pc' out' \<in> set before \<and> verdict_of (pc_decision pc') = AskHuman \<and>
      pc_ticket pc' = None \<and> pc_channel pc' = pc_channel pc \<and> tc_server (pc_call pc') = tc_server (pc_call pc) \<and>
      tc_tool (pc_call pc') = tc_tool (pc_call pc) \<and> pc_hash pc' = pc_hash pc \<and>
      rd_redeem rd < rd_mint rd' + approval_ttl_ms \<and>
      (\<exists>rd'' f'' rid ad reply. EvVerdict rd'' f'' rid (pc_channel pc) (Some ad) reply \<in> set before \<and>
        ad_ticket ad = i \<and> ad_decision ad = Approve \<and> sv_approver sv = Some (ad_approver ad))"
proof -
  obtain h where h: "history approval_step [] h (px_approvals (sys_state s1))"
    "map fst h = List.map_filter event_approval before" using run_history [OF assms(1,2)] by blast
  have in_run: "\<exists>e \<in> set before. event_approval e = Some op" if "(op, out) \<in> set h" for op out
  proof -
    from that have "op \<in> set (List.map_filter event_approval before)" by (metis h(2) fst_conv image_eqI list.set_map)
    then show ?thesis by (auto simp: List.map_filter_def)
  qed
  let ?op = "OpRedeem (rd_redeem rd) (rd_redeem' rd) (pc_channel pc) i (pc_call pc) (pc_hash pc)"
  obtain st where ad: "admit (env_sha env) rd f uuid pc (sys_state s1) = (Serving sv, st)"
    using admitted_events(3) [OF assms(1,3)] by blast
  from admit_Serving(2) [OF ad] assms(4) obtain t where
    "fst (redeem (rd_redeem rd) (rd_redeem' rd) (pc_channel pc) i (pc_call pc) (pc_hash pc) (px_approvals (sys_state s1)))
      = Redeemed t" "sv_approver sv = tkt_approver t" by (auto simp: may_serve_def)
  then obtain s' where
    t: "approval_step ?op (px_approvals (sys_state s1)) = (OutRedeem (Redeemed t), s')" "sv_approver sv = tkt_approver t"
    by (cases "redeem (rd_redeem rd) (rd_redeem' rd) (pc_channel pc) i (pc_call pc) (pc_hash pc)
      (px_approvals (sys_state s1))") auto
  from redemption_backed [OF h(1) t(1)] obtain born held out d d' ap r where
    m: "(OpMint born i held (pc_hash pc), out) \<in> set h" "rc_channel held = pc_channel pc"
      "tc_server held = tc_server (pc_call pc)" "tc_tool held = tc_tool (pc_call pc)"
      "rd_redeem rd < born + approval_ttl_ms"
    and v: "(OpDecide d d' (pc_channel pc) i Approve ap, OutDecide (Recorded r)) \<in> set h" "tkt_approver t = Some ap"
    by blast
  obtain k' rd' f' pc' out' where e1: "EvAdmitted k' rd' f' i pc' out' \<in> set before" "rd_mint rd' = born"
      "held = pc_call pc'" "pc_hash pc = pc_hash pc'" "pc_ticket pc' = None" "verdict_of (pc_decision pc') = AskHuman"
    using in_run [OF m(1)] mint_event by (metis verdict_of.simps(2))
  obtain b1 u1 u2 where "proxy_run env st0 b1 u1" "proxy_step env u1 (EvAdmitted k' rd' f' i pc' out') u2"
    using proxy_run_event [OF assms(1) e1(1)] by blast
  from admitted_events(2) [OF this] have "rc_channel (pc_call pc') = pc_channel pc'" by (simp add: decided_call_def)
  moreover obtain rd'' f'' rid ad reply where e2: "EvVerdict rd'' f'' rid (pc_channel pc) (Some ad) reply \<in> set before"
      "ad_ticket ad = i" "ad_decision ad = Approve" "ad_approver ad = ap"
    using in_run [OF v(1)] verdict_event by metis
  ultimately show ?thesis using e1 m t(2) v(2) by metis
qed

text \<open>
  C1. In every run of the proxy from a fresh approval store, a call reaches the dispatcher only if its
  channel's sheet granted the tool through one upstream and the spend read for it was within every
  limit; and if a human is needed, or the call carried a ticket at all, only on a ticket minted in
  the same channel for the same server, tool and argument hash by an earlier held call, younger than
  its life, which an approval posted to the same channel before it approved, the approver being the
  one the served call is recorded with.
\<close>

theorem dispatch_authorised:
  assumes "proxy_run env st0 tr sys" and "px_approvals st0 = []"
    and "tr = before @ EvAdmitted k rd f uuid pc (Serving sv) # after"
  shows "(\<exists>sheet stale prices. pc_sheet pc = Active sheet stale \<and>
      may_call sheet (tc_server (pc_call pc)) (tc_tool (pc_call pc)) \<and> within_budget sheet (pc_spend pc) prices \<and>
      (needs_human sheet (tc_server (pc_call pc)) (tc_tool (pc_call pc)) \<longrightarrow> pc_ticket pc \<noteq> None)) \<and>
    (\<forall>i. pc_ticket pc = Some i \<longrightarrow> (\<exists>k' rd' f' pc' out'. EvAdmitted k' rd' f' i pc' out' \<in> set before \<and>
      verdict_of (pc_decision pc') = AskHuman \<and> pc_ticket pc' = None \<and> pc_channel pc' = pc_channel pc \<and>
      tc_server (pc_call pc') = tc_server (pc_call pc) \<and> tc_tool (pc_call pc') = tc_tool (pc_call pc) \<and>
      pc_hash pc' = pc_hash pc \<and> rd_redeem rd < rd_mint rd' + approval_ttl_ms \<and>
      (\<exists>rd'' f'' rid ad reply. EvVerdict rd'' f'' rid (pc_channel pc) (Some ad) reply \<in> set before \<and>
        ad_ticket ad = i \<and> ad_decision ad = Approve \<and> sv_approver sv = Some (ad_approver ad))))"
proof -
  obtain s1 s2 where r: "proxy_run env st0 before s1"
    "proxy_step env s1 (EvAdmitted k rd f uuid pc (Serving sv)) s2"
  proof -
    have "proxy_run env st0 ((before @ [EvAdmitted k rd f uuid pc (Serving sv)]) @ after) sys"
      using assms(1,3) by simp
    then show ?thesis by (blast dest: proxy_run_prefix elim: proxy_run_snocE intro: that)
  qed
  obtain st where "admit (env_sha env) rd f uuid pc (sys_state s1) = (Serving sv, st)"
    using admitted_events(3) [OF r] by blast
  then have m: "may_serve rd pc (sv_approver sv) (px_approvals (sys_state s1))" by (rule admit_Serving(2))
  then have "\<And>r. pc_decision pc \<noteq> Refuse r" by (auto simp: may_serve_def split: option.splits)
  from decided_call_policy [OF admitted_events(2) [OF r] this] m run_redemption [OF r(1) assms(2) r(2)]
  show ?thesis by (auto simp: may_serve_def split: option.splits)
qed

theorem dispatch_authorised_witness:
  "may_call demo_sheet ''github'' ''delete_repo'' \<and>
   (\<exists>reply reply'. \<exists>e \<in> set (demo_events reply reply'). \<exists>rd f rid ad r.
      e = EvVerdict rd f rid ''ops'' (Some ad) r \<and> ad_decision ad = Approve \<and> ad_approver ad = ''bob'')"
proof -
  obtain reply reply' sys where r: "proxy_run demo_env demo_state (demo_events reply reply') sys" using demo_run by blast
  have e: "demo_events reply reply' = butlast (demo_events reply reply') @ demo_dispatch # []" by (simp add: demo_events_def)
  have b: "set (butlast (demo_events reply reply')) \<subseteq> set (demo_events reply reply')" by (auto dest: in_set_butlastD)
  from dispatch_authorised [OF r _ e] have "may_call demo_sheet ''github'' ''delete_repo''"
    by (simp add: demo_call_def)
  moreover from dispatch_authorised [OF r _ e] obtain rd f rid ad reply'' where
    "EvVerdict rd f rid ''ops'' (Some ad) reply'' \<in> set (butlast (demo_events reply reply'))"
    "ad_decision ad = Approve" "ad_approver ad = ''bob''" by auto
  ultimately show ?thesis using b by (intro conjI) (assumption, blast)
qed

end
