(* ===== verification/Server_Rows.thy ===== *)
theory Server_Rows
  imports Server_Safety
begin

text \<open>
  The accounts a run of the proxy keeps: a ticket and a call dispatched at most once, the audit rows
  of each call, the chain over all of them, the count of dispatches the meter holds and the bound
  the daily cap puts on them with calls in flight.
\<close>

subsection \<open>Dispatched at most once\<close>

fun admits_call :: "nat \<Rightarrow> sys_event \<Rightarrow> bool" where
  "admits_call k (EvAdmitted k' _ _ _ _ _) \<longleftrightarrow> k' = k"
| "admits_call k _ \<longleftrightarrow> False"

fun dispatches_call :: "nat \<Rightarrow> sys_event \<Rightarrow> bool" where
  "dispatches_call k (EvAdmitted k' _ _ _ _ (Serving _)) \<longleftrightarrow> k' = k"
| "dispatches_call k _ \<longleftrightarrow> False"

fun answers_call :: "nat \<Rightarrow> sys_event \<Rightarrow> bool" where
  "answers_call k (EvFinished k' _ _ _ _ _) \<longleftrightarrow> k' = k"
| "answers_call k _ \<longleftrightarrow> False"

fun phase_counts :: "call_phase \<Rightarrow> nat \<times> nat \<times> nat \<Rightarrow> bool" where
  "phase_counts (Decided _) n \<longleftrightarrow> n = (0, 0, 0)"
| "phase_counts (Underway _) n \<longleftrightarrow> n = (1, 1, 0)"
| "phase_counts (RowWritten _ _) n \<longleftrightarrow> n = (1, 1, 1)"
| "phase_counts (Answered _ _) n \<longleftrightarrow> n = (1, 1, 1) \<or> n = (1, 0, 0)"

definition call_counts :: "nat \<Rightarrow> sys_event list \<Rightarrow> nat \<times> nat \<times> nat" where
  "call_counts k tr = (length (filter (admits_call k) tr), length (filter (dispatches_call k) tr),
     length (filter (answers_call k) tr))"

lemma call_counts_snoc:
  "call_counts k (tr @ [ev]) = (case call_counts k tr of (a, d, n) \<Rightarrow>
     (a + of_bool (admits_call k ev), d + of_bool (dispatches_call k ev), n + of_bool (answers_call k ev)))"
  by (simp add: call_counts_def)

lemma run_counts:
  assumes "proxy_run env st0 tr sys"
  shows "if k < length (sys_calls sys) then phase_counts (sys_calls sys ! k) (call_counts k tr)
    else call_counts k tr = (0, 0, 0)"
  using assms
proof (induction rule: proxy_run.induct)
  case run_init
  show ?case by (simp add: call_counts_def)
next
  case (run_step tr sys ev sys')
  from run_step(3) show ?case
  proof (cases rule: proxy_step.cases)
    case (step_admitted i pc rd f uuid out st)
    with run_step.IH show ?thesis
      by (cases out) (auto simp: call_counts_snoc phase_admitted_def nth_list_update split: if_splits prod.splits)
  next
    case (step_finished i sv rd f answer out st)
    with run_step.IH show ?thesis
      by (cases out) (auto simp: call_counts_snoc phase_finished_def nth_list_update split: if_splits prod.splits)
  next
    case (step_settled i pc result rd f reply st)
    with run_step.IH show ?thesis
      by (auto simp: call_counts_snoc nth_list_update split: if_splits prod.splits)
  next
    case (step_decided sheets rq ctx sheets' rt now prices pc)
    with run_step.IH show ?thesis
      by (auto simp: call_counts_snoc nth_append split: if_splits prod.splits)
  qed (use run_step.IH in \<open>auto simp: call_counts_snoc split: if_splits prod.splits\<close>)
qed

text \<open>
  C3. In every run from a fresh approval store a ticket is spent by at most one dispatch, a call is
  dispatched at most once, and the dispatcher's answer is taken at most once and only for a call
  that was dispatched.
\<close>

theorem dispatched_at_most_once:
  assumes "proxy_run env st0 tr sys" and "px_approvals st0 = []"
  shows "length (filter (spends c i) tr) \<le> 1 \<and> length (filter (dispatches_call k) tr) \<le> 1 \<and>
    length (filter (answers_call k) tr) \<le> length (filter (dispatches_call k) tr)"
proof -
  obtain h where h: "history approval_step [] h (px_approvals (sys_state sys))"
    "length (filter (spends c i) tr) \<le> length (filter (redeemed_event c i) h)"
    using run_history [OF assms] by blast
  have "length (filter (redeemed_event c i) h) \<le> 1" by (rule tickets.redeemed_once [OF h(1)])
  with h(2) have "length (filter (spends c i) tr) \<le> 1" by simp
  moreover have "length (filter (dispatches_call k) tr) \<le> 1 \<and>
      length (filter (answers_call k) tr) \<le> length (filter (dispatches_call k) tr)"
    using run_counts [OF assms(1), of k]
    by (cases "sys_calls sys ! k") (auto simp: call_counts_def split: if_splits)
  ultimately show ?thesis by blast
qed

theorem dispatched_at_most_once_witness:
  "\<exists>reply reply'. demo_dispatch \<in> set (demo_events reply reply') \<and>
     length (filter (spends ''ops'' ''k1'') (demo_events reply reply')) \<le> 1"
proof -
  obtain reply reply' sys where "proxy_run demo_env demo_state (demo_events reply reply') sys" using demo_run by blast
  from dispatched_at_most_once [OF this, of "''ops''" "''k1''"]
  have "length (filter (spends ''ops'' ''k1'') (demo_events reply reply')) \<le> 1" by simp
  with demo_events_set show ?thesis by blast
qed

subsection \<open>The audit rows of a call\<close>

definition rows_of :: "pending_call \<Rightarrow> audit_record list \<Rightarrow> audit_record list" where
  "rows_of pc rs = filter (\<lambda>r. ar_request_id r = pc_request_id pc) rs"

fun phase_rows :: "call_phase \<Rightarrow> audit_record list \<Rightarrow> bool" where
  "phase_rows (Decided _) rs \<longleftrightarrow> rs = []"
| "phase_rows (Underway _) rs \<longleftrightarrow> rs = []"
| "phase_rows (RowWritten pc result) rs \<longleftrightarrow> ran_rows pc result rs"
| "phase_rows (Answered pc reply) rs \<longleftrightarrow> answer_rows pc reply rs"

abbreviation phase_id :: "call_phase \<Rightarrow> string" where
  "phase_id p \<equiv> pc_request_id (phase_call p)"

definition accounted :: "call_phase list \<Rightarrow> audit_record list \<Rightarrow> bool" where
  "accounted calls rs \<longleftrightarrow> distinct (map phase_id calls) \<and> (\<forall>p \<in> set calls. phase_rows p (rows_of (phase_call p) rs))"

lemma rows_of_append [simp]: "rows_of pc (rs @ rs') = rows_of pc rs @ rows_of pc rs'"
  by (simp add: rows_of_def)

lemma rows_of_own: "\<forall>r \<in> set rs. ar_request_id r = pc_request_id pc \<Longrightarrow> rows_of pc rs = rs"
  by (simp add: rows_of_def)

lemma rows_of_other: "pc_request_id pc \<notin> ar_request_id ` set rs \<Longrightarrow> rows_of pc rs = []"
  by (auto simp: rows_of_def filter_empty_conv image_iff)

lemma accounted_new:
  "accounted calls rs \<Longrightarrow> pc_request_id pc \<notin> phase_id ` set calls \<Longrightarrow> pc_request_id pc \<notin> ar_request_id ` set rs \<Longrightarrow>
     accounted (calls @ [Decided pc]) rs"
  using rows_of_other [of pc rs] by (auto simp: accounted_def)

lemma accounted_other:
  assumes "accounted calls rs" and "\<forall>r \<in> set rs'. ar_request_id r \<notin> phase_id ` set calls"
  shows "accounted calls (rs @ rs')"
proof -
  have "rows_of (phase_call p) rs' = []" if "p \<in> set calls" for p
    using assms(2) that by (intro rows_of_other) (auto, metis imageI)
  with assms(1) show ?thesis by (simp add: accounted_def)
qed

lemma accounted_update:
  assumes "accounted calls rs" "i < length calls" "phase_call p = phase_call (calls ! i)"
    and "\<forall>r \<in> set rs'. ar_request_id r = phase_id p" "phase_rows p (rows_of (phase_call p) rs @ rs')"
  shows "accounted (calls[i := p]) (rs @ rs')"
  unfolding accounted_def
proof (intro conjI ballI)
  have ids: "map phase_id (calls[i := p]) = map phase_id calls"
    using assms(2,3) by (simp add: map_update list_update_same_conv)
  with assms(1) show "distinct (map phase_id (calls[i := p]))" unfolding accounted_def by simp
  fix q
  assume "q \<in> set (calls[i := p])"
  then obtain j where j: "j < length calls" "q = (calls[i := p]) ! j" by (auto simp: in_set_conv_nth)
  show "phase_rows q (rows_of (phase_call q) (rs @ rs'))"
  proof (cases "j = i")
    case True
    with j assms(2,4,5) show ?thesis by (simp add: rows_of_own)
  next
    case False
    with j have q: "q = calls ! j" by simp
    have "phase_id (calls ! j) \<noteq> phase_id (calls ! i)"
      using assms(1,2) j(1) False by (auto simp: accounted_def distinct_conv_nth)
    with assms(3,4) q have "rows_of (phase_call q) rs' = []" by (intro rows_of_other) auto
    with assms(1) q j(1) show ?thesis by (auto simp: accounted_def)
  qed
qed

lemma answer_rows_id: "answer_rows pc reply rs \<Longrightarrow> \<forall>r \<in> set rs. ar_request_id r = pc_request_id pc"
  by (auto simp: answer_rows_def call_row_def)

lemma ran_rows_id: "ran_rows pc result rs \<Longrightarrow> \<forall>r \<in> set rs. ar_request_id r = pc_request_id pc"
  by (auto simp: ran_rows_def call_row_def)

lemma ran_rows_answer:
  "ran_rows pc result rs \<Longrightarrow> reply = internal_error (pc_request_id pc) (pc_channel pc) \<or>
     (\<exists>w. reply = HttpOk (CallRan (tc_id (pc_call pc)) result w)) \<Longrightarrow> answer_rows pc reply rs"
  by (auto simp: ran_rows_def answer_rows_def)

lemma step_accounted:
  assumes "proxy_step env sys ev sys'" and "event_rows ev rs'" and "accounted (sys_calls sys) rs"
    and "\<forall>p \<in> set (sys_calls sys). event_request ev \<noteq> Some (phase_id p)"
    and "\<forall>r \<in> set rs. event_request ev \<noteq> Some (ar_request_id r)"
  shows "accounted (sys_calls sys') (rs @ rs')"
  using assms(1)
proof (cases rule: proxy_step.cases)
  case (step_decided sheets rq ctx sheets' rt now prices pc)
  with assms(2-) show ?thesis by (auto intro: accounted_new)
next
  case (step_admitted i pc rd f uuid out st)
  then have none: "rows_of pc rs = []" using assms(3) nth_mem by (fastforce simp: accounted_def)
  show ?thesis
  proof (cases out)
    case (Answer reply)
    with step_admitted assms(2) have "answer_rows pc reply rs'" by simp
    with step_admitted Answer assms(3) none show ?thesis
      by (auto simp: phase_admitted_def intro!: accounted_update answer_rows_id)
  next
    case (Serving sv)
    with step_admitted assms(2) have "rs' = []" by simp
    with step_admitted Serving assms(3) none admit_Serving(1) [of "env_sha env" rd f uuid pc "sys_state sys" sv st]
      accounted_update [of "sys_calls sys" rs i "Underway sv" "[]"] show ?thesis
      by (simp add: phase_admitted_def)
  qed
next
  case (step_finished i sv rd f answer out st)
  then have none: "rows_of (sv_pending sv) rs = []" using assms(3) nth_mem by (fastforce simp: accounted_def)
  show ?thesis
  proof (cases out)
    case (Replied reply)
    with step_finished assms(2) have "answer_rows (sv_pending sv) reply rs'" by simp
    with step_finished Replied assms(3) none show ?thesis
      by (auto simp: phase_finished_def intro!: accounted_update answer_rows_id)
  next
    case (RanRow result)
    with step_finished assms(2) have "ran_rows (sv_pending sv) result rs'" by simp
    with step_finished RanRow assms(3) none show ?thesis
      by (auto simp: phase_finished_def intro!: accounted_update ran_rows_id)
  qed
next
  case (step_settled i pc result rd f reply st)
  then have "ran_rows pc result (rows_of pc rs)" using assms(3) nth_mem by (fastforce simp: accounted_def)
  then have "answer_rows pc reply (rows_of pc rs)"
    by (rule ran_rows_answer) (use ran_reply_state(5) [OF step_settled(5)] in blast)
  with step_settled assms(2,3) accounted_update [of "sys_calls sys" rs i "Answered pc reply" "[]"] show ?thesis
    by simp
next
  case (step_verdict sheets rq ctx body rd f reply st)
  with assms(2-4) show ?thesis by (auto simp: verdict_rows_def verdict_row_def intro!: accounted_other)
qed (use assms(2,3) in auto)

text \<open>What a row of a run records: a decided call, or a posted verdict.\<close>

fun originates :: "sys_event \<Rightarrow> audit_record \<Rightarrow> bool" where
  "originates (EvDecided _ pc) r \<longleftrightarrow> call_row pc r"
| "originates (EvVerdict _ _ i c (Some ad) reply) r \<longleftrightarrow> verdict_row i c ad reply r"
| "originates _ r \<longleftrightarrow> False"

definition row_origin :: "sys_event list \<Rightarrow> audit_record \<Rightarrow> bool" where
  "row_origin tr r \<longleftrightarrow> (\<exists>ev \<in> set tr. originates ev r)"

lemma row_origin_mono: "row_origin tr r \<Longrightarrow> row_origin (tr @ [ev]) r"
  by (auto simp: row_origin_def)

lemma originates_request: "originates ev r \<Longrightarrow> event_request ev = Some (ar_request_id r)"
  by (cases "(ev, r)" rule: originates.cases) (auto simp: call_row_def verdict_row_def)

lemma row_origin_request: "row_origin tr r \<Longrightarrow> Some (ar_request_id r) \<in> event_request ` set tr"
  unfolding row_origin_def by (force dest: originates_request)

lemma step_row_origin:
  assumes "proxy_run env st0 tr sys" and "proxy_step env sys ev sys'" and "event_rows ev rs" and "r \<in> set rs"
  shows "row_origin (tr @ [ev]) r"
  using assms(2)
proof (cases rule: proxy_step.cases)
  case (step_admitted i pc rd f uuid out st)
  with calls_decided [OF assms(1)] obtain now where "EvDecided now pc \<in> set tr"
    by (metis nth_mem phase_call.simps(1))
  moreover have "originates (EvDecided now pc) r"
    using step_admitted assms(3,4) by (cases out) (auto simp: answer_rows_def)
  ultimately show ?thesis unfolding row_origin_def by (metis Un_iff set_append)
next
  case (step_finished i sv rd f answer out st)
  with calls_decided [OF assms(1)] obtain now where "EvDecided now (sv_pending sv) \<in> set tr"
    by (metis nth_mem phase_call.simps(2))
  moreover have "originates (EvDecided now (sv_pending sv)) r"
    using step_finished assms(3,4) by (cases out) (auto simp: answer_rows_def ran_rows_def)
  ultimately show ?thesis unfolding row_origin_def by (metis Un_iff set_append)
next
  case (step_verdict sheets rq ctx body rd f reply st)
  with assms(3,4) have "originates ev r" by (auto simp: verdict_rows_def)
  then show ?thesis by (auto simp: row_origin_def)
qed (use assms(3,4) in auto)

lemma run_accounted:
  assumes "proxy_run env st0 tr sys"
  shows "\<exists>written. states_rows (px_log st0) (px_log (sys_state sys)) written \<and> accounted (sys_calls sys) written \<and>
    (\<forall>r \<in> set written. row_origin tr r)"
  using assms
proof (induction rule: proxy_run.induct)
  case run_init
  show ?case by (intro exI [of _ "[]"]) (simp add: accounted_def)
next
  case (run_step tr sys ev sys')
  then obtain written where w: "states_rows (px_log st0) (px_log (sys_state sys)) written"
    "accounted (sys_calls sys) written" "\<forall>r \<in> set written. row_origin tr r" by blast
  obtain rs where rs: "states_rows (px_log (sys_state sys)) (px_log (sys_state sys')) rs" "event_rows ev rs"
    using step_log [OF run_step(3)] by blast
  have fresh: "event_request ev \<noteq> Some i" if "Some i \<in> event_request ` set tr" for i
    using run_step(2) that by (force simp: fresh_event_def)
  have "\<forall>p \<in> set (sys_calls sys). event_request ev \<noteq> Some (phase_id p)"
  proof
    fix p assume "p \<in> set (sys_calls sys)"
    with calls_decided [OF run_step(1)] obtain now where "EvDecided now (phase_call p) \<in> set tr" by blast
    then have "Some (phase_id p) \<in> event_request ` set tr" by force
    then show "event_request ev \<noteq> Some (phase_id p)" by (rule fresh)
  qed
  moreover have "\<forall>r \<in> set written. event_request ev \<noteq> Some (ar_request_id r)"
    using w(3) row_origin_request fresh by blast
  ultimately have "accounted (sys_calls sys') (written @ rs)"
    using step_accounted [OF run_step(3) rs(2) w(2)] by blast
  moreover have "\<forall>r \<in> set (written @ rs). row_origin (tr @ [ev]) r"
    using w(3) step_row_origin [OF run_step(1,3) rs(2)] by (auto intro: row_origin_mono)
  ultimately show ?case using states_rows_append [OF w(1) rs(1)] by blast
qed

lemma run_ok:
  "proxy_run env st0 tr sys \<Longrightarrow> proxy_ok (env_sha env) st0 \<Longrightarrow> proxy_ok (env_sha env) (sys_state sys)"
  by (induction rule: proxy_run.induct) (auto intro: step_ok)

text \<open>
  C2. In every run from a verifying log, the log verifies at every point and has grown exactly by rows
  that state the decided calls and the posted verdicts: none for a call not yet answered, exactly one
  for a call whose row the handler got past or whose answer is not the 500 of the catch, and at most
  one for a call answered with that 500; and the row states the answer: its outcome, its reason or
  its ticket, the result's size and error flag.
\<close>

theorem one_row_per_call:
  assumes "proxy_run env st0 tr sys" and "log_sound (env_sha env) (px_log st0)"
  shows "log_sound (env_sha env) (px_log (sys_state sys)) \<and>
    (\<exists>written. states_rows (px_log st0) (px_log (sys_state sys)) written \<and> (\<forall>r \<in> set written. row_origin tr r) \<and>
      (\<forall>p \<in> set (sys_calls sys). let rs = rows_of (phase_call p) written in
         case p of Decided _ \<Rightarrow> rs = [] | Underway _ \<Rightarrow> rs = []
         | RowWritten pc result \<Rightarrow> ran_rows pc result rs
         | Answered pc reply \<Rightarrow> (rs = [] \<and> reply = internal_error (pc_request_id pc) (pc_channel pc)) \<or>
             (\<exists>r. rs = [r] \<and> call_row pc r \<and> reply_row reply r)))"
proof -
  have "log_sound (env_sha env) (px_log (sys_state sys))"
    using assms by (induction rule: proxy_run.induct) (auto intro: step_sound)
  moreover obtain written where w: "states_rows (px_log st0) (px_log (sys_state sys)) written"
    "accounted (sys_calls sys) written" "\<forall>r \<in> set written. row_origin tr r" using run_accounted [OF assms(1)] by blast
  have "let rs = rows_of (phase_call p) written in
         case p of Decided _ \<Rightarrow> rs = [] | Underway _ \<Rightarrow> rs = []
         | RowWritten pc result \<Rightarrow> ran_rows pc result rs
         | Answered pc reply \<Rightarrow> (rs = [] \<and> reply = internal_error (pc_request_id pc) (pc_channel pc)) \<or>
             (\<exists>r. rs = [r] \<and> call_row pc r \<and> reply_row reply r)" if "p \<in> set (sys_calls sys)" for p
    using w(2) that unfolding accounted_def by (cases p) (force simp: answer_rows_def)+
  with w(1,3) calculation show ?thesis by blast
qed

theorem one_row_per_call_witness:
  "\<exists>reply reply' sys written. proxy_run demo_env demo_state (demo_events reply reply') sys \<and>
     states_rows (open_log demo_sha []) (px_log (sys_state sys)) written"
proof -
  obtain reply reply' sys where r: "proxy_run demo_env demo_state (demo_events reply reply') sys" using demo_run by blast
  with one_row_per_call [OF r] demo_log_sound show ?thesis by auto
qed

subsection \<open>The meter counts the dispatches\<close>

fun counts_for :: "string \<Rightarrow> nat \<Rightarrow> sys_event \<Rightarrow> bool" where
  "counts_for c d (EvAdmitted _ rd _ _ pc (Serving _)) \<longleftrightarrow> pc_channel pc = c \<and> utc_day (rd_meter rd) = d"
| "counts_for c d _ \<longleftrightarrow> False"

definition day_calls :: "string \<Rightarrow> nat \<Rightarrow> spend_meter \<Rightarrow> nat" where
  "day_calls c d m = sp_tool_calls (read_spend (mtr_db m) c d)"

lemma day_calls_step:
  "day_calls c d (snd (meter_step op m)) = day_calls c d m +
     (case op of RecordToolCall now c' \<Rightarrow> of_bool (c' = c \<and> utc_day now = d) | _ \<Rightarrow> 0)"
proof (cases op)
  case (RecordToolCall now c')
  then show ?thesis
    by (auto simp: day_calls_def meter_record_tool_call_def read_spend_def to_daily_spend_def add_tool_call_def
        split: option.splits)
qed (auto simp: day_calls_def meter_record_tokens_def meter_claim_warning_def meter_prune_def add_turn_tokens_def
    transact_def claim_turn_def add_tokens_def claim_warning_def prune_turn_reports_before_def read_spend_def
    to_daily_spend_def Let_def split: prod.splits sum.splits option.splits if_splits)

lemma day_calls_event:
  assumes "proxy_step env sys ev sys'"
  shows "day_calls c d (px_meter (sys_state sys')) = day_calls c d (px_meter (sys_state sys)) + of_bool (counts_for c d ev)"
  unfolding step_meter [OF assms]
  by (cases ev rule: event_meter.cases)
    (auto simp: day_calls_step ran_claim_def spend_op_def simp del: meter_step.simps split: option.splits)

text \<open>
  C4. At every point of every run, the tool calls the meter holds for a channel and a day are those it
  held at the start plus the dispatches of that channel whose count was taken on that day: every
  dispatch is counted before it happens and nothing else is, whatever is reported, warned of, pruned
  or decided in between.
\<close>

theorem meter_counts_dispatches:
  assumes "proxy_run env st0 tr sys"
  shows "sp_tool_calls (read_spend (mtr_db (px_meter (sys_state sys))) c d) =
    sp_tool_calls (read_spend (mtr_db (px_meter st0)) c d) + length (filter (counts_for c d) tr)"
  using assms
proof (induction rule: proxy_run.induct)
  case (run_step tr sys ev sys')
  from day_calls_event [OF run_step(3), of c d] run_step.IH show ?case by (simp add: day_calls_def)
qed simp

theorem meter_counts_dispatches_witness:
  "\<exists>reply reply' sys. proxy_run demo_env demo_state (demo_events reply reply') sys \<and>
     sp_tool_calls (read_spend (mtr_db (px_meter (sys_state sys))) ''ops'' 0) = 1"
proof -
  obtain reply reply' sys where r: "proxy_run demo_env demo_state (demo_events reply reply') sys" using demo_run by blast
  have "sp_tool_calls (read_spend (mtr_db demo_meter) ''ops'' 0) = 0"
    by (simp add: demo_meter_def empty_budget_db_def read_spend_def to_daily_spend_def)
  with meter_counts_dispatches [OF r, of "''ops''" 0]
  have "sp_tool_calls (read_spend (mtr_db (px_meter (sys_state sys))) ''ops'' 0) = 1"
    by (simp add: demo_events_def utc_day_def day_ms_def)
  with r show ?thesis by blast
qed

end
