(* ===== verification/Server_Load.thy ===== *)
theory Server_Load
  imports Server_Rows
begin

text \<open>
  What interleaving costs and what it does not. The spend a decision reads and the count its dispatch
  adds are two steps, so calls already decided when a limit is reached still run: the bound on how
  many. A warning is claimed in one statement, so it is shown once whatever runs beside it. A step of
  one channel changes no ticket, no spend and no row of another.
\<close>

subsection \<open>The daily cap with calls in flight\<close>

fun decided_in :: "string \<Rightarrow> sys_event \<Rightarrow> bool" where
  "decided_in c (EvDecided _ pc) \<longleftrightarrow> pc_channel pc = c"
| "decided_in c _ \<longleftrightarrow> False"

fun admitted_in :: "string \<Rightarrow> sys_event \<Rightarrow> bool" where
  "admitted_in c (EvAdmitted _ _ _ _ pc _) \<longleftrightarrow> pc_channel pc = c"
| "admitted_in c _ \<longleftrightarrow> False"

fun waiting :: "string \<Rightarrow> call_phase \<Rightarrow> bool" where
  "waiting c (Decided pc) \<longleftrightarrow> pc_channel pc = c"
| "waiting c _ \<longleftrightarrow> False"

fun waiting_permitted :: "string \<Rightarrow> call_phase \<Rightarrow> bool" where
  "waiting_permitted c (Decided pc) \<longleftrightarrow> pc_channel pc = c \<and> (\<forall>r. pc_decision pc \<noteq> Refuse r)"
| "waiting_permitted c _ \<longleftrightarrow> False"

abbreviation tally :: "('a \<Rightarrow> bool) \<Rightarrow> 'a list \<Rightarrow> nat" where
  "tally P xs \<equiv> length (filter P xs)"

lemma count_update:
  "i < length xs \<Longrightarrow> tally P (xs[i := x]) + of_bool (P (xs ! i)) = tally P xs + of_bool (P x)"
proof (induction xs arbitrary: i)
  case (Cons y xs)
  show ?case
  proof (cases i)
    case (Suc j)
    with Cons.IH [of j] Cons.prems show ?thesis by (cases "P y") simp_all
  qed simp
qed simp

lemma count_mono: "(\<And>x. P x \<Longrightarrow> Q x) \<Longrightarrow> tally P xs \<le> tally Q xs"
  by (induction xs) auto

lemma waiting_permitted_le: "tally (waiting_permitted c) xs \<le> tally (waiting c) xs"
proof (rule count_mono)
  fix p show "waiting_permitted c p \<Longrightarrow> waiting c p" by (cases p) auto
qed

text \<open>The calls of a channel between their decision and their admission, at most \<open>K\<close> at any point.\<close>

definition in_flight_within :: "nat \<Rightarrow> string \<Rightarrow> sys_event list \<Rightarrow> bool" where
  "in_flight_within K c tr \<longleftrightarrow>
     (\<forall>n. tally (decided_in c) (take n tr) \<le> K + tally (admitted_in c) (take n tr))"

lemma in_flight_within_snoc:
  "in_flight_within K c (tr @ [ev]) \<Longrightarrow> in_flight_within K c tr"
  unfolding in_flight_within_def
proof (intro allI)
  fix n
  assume "\<forall>n. tally (decided_in c) (take n (tr @ [ev])) \<le> K + tally (admitted_in c) (take n (tr @ [ev]))"
  from spec [OF this, of "min n (length tr)"]
  show "tally (decided_in c) (take n tr) \<le> K + tally (admitted_in c) (take n tr)" by (simp add: min_def split: if_splits)
qed

lemma phase_not_waiting [simp]:
  "\<not> waiting c (phase_admitted pc out)" "\<not> waiting c (phase_finished pc out')"
  "\<not> waiting_permitted c (phase_admitted pc out)" "\<not> waiting_permitted c (phase_finished pc out')"
  by (simp_all add: phase_admitted_def phase_finished_def split: admitted.split settled.split)

lemma step_waiting:
  assumes "proxy_step env sys ev sys'"
  shows "tally (waiting c) (sys_calls sys') + of_bool (admitted_in c ev)
    = tally (waiting c) (sys_calls sys) + of_bool (decided_in c ev)"
  using assms
proof (cases rule: proxy_step.cases)
  case (step_admitted i pc rd f uuid out st)
  then show ?thesis using count_update [of i "sys_calls sys" "waiting c" "phase_admitted pc out"] by simp
next
  case (step_finished i sv rd f answer out st)
  then show ?thesis using count_update [of i "sys_calls sys" "waiting c" "phase_finished (sv_pending sv) out"] by simp
next
  case (step_settled i pc result rd f reply st)
  then show ?thesis using count_update [of i "sys_calls sys" "waiting c" "Answered pc reply"] by simp
qed auto

lemma run_waiting:
  assumes "proxy_run env st0 tr sys"
  shows "tally (waiting c) (sys_calls sys) + tally (admitted_in c) tr = tally (decided_in c) tr"
  using assms
proof (induction rule: proxy_run.induct)
  case (run_step tr sys ev sys')
  from step_waiting [OF run_step(3), of c] run_step.IH show ?case
    by (cases "admitted_in c ev"; cases "decided_in c ev") simp_all
qed simp

text \<open>Of one step: what it adds to the day's calls and takes from the permitted calls waiting.\<close>

lemma step_permitted:
  assumes "proxy_step env sys ev sys'"
  shows "tally (waiting_permitted c) (sys_calls sys') + of_bool (counts_for c d ev)
    \<le> tally (waiting_permitted c) (sys_calls sys)
      + of_bool (\<exists>now pc. ev = EvDecided now pc \<and> pc_channel pc = c \<and> (\<forall>r. pc_decision pc \<noteq> Refuse r))"
  using assms
proof (cases rule: proxy_step.cases)
  case (step_admitted i pc rd f uuid out st)
  have "counts_for c d ev \<longrightarrow> waiting_permitted c (sys_calls sys ! i)"
  proof (cases out)
    case (Serving sv)
    with step_admitted have "may_serve rd pc (sv_approver sv) (px_approvals (sys_state sys))"
      by (auto intro: admit_Serving(2))
    with step_admitted Serving show ?thesis by (auto simp: may_serve_def split: option.splits)
  qed (use step_admitted in simp)
  with step_admitted count_update [of i "sys_calls sys" "waiting_permitted c" "phase_admitted pc out"]
  show ?thesis by (auto split: if_splits)
next
  case (step_finished i sv rd f answer out st)
  then show ?thesis
    using count_update [of i "sys_calls sys" "waiting_permitted c" "phase_finished (sv_pending sv) out"] by simp
next
  case (step_settled i pc result rd f reply st)
  then show ?thesis using count_update [of i "sys_calls sys" "waiting_permitted c" "Answered pc reply"] by simp
qed auto

text \<open>A decision that permits was made below the cap.\<close>

lemma step_below_cap:
  assumes "proxy_step env sys (EvDecided now pc) sys'" and "\<And>r. pc_decision pc \<noteq> Refuse r"
    and "\<And>sheet stale. pc_sheet pc = Active sheet stale \<Longrightarrow> daily_tool_calls (sheet_budget sheet) \<le> cap"
  shows "day_calls (pc_channel pc) (utc_day now) (px_meter (sys_state sys)) < cap"
proof -
  obtain i c body sheets rt prices where b: "begin_call (env_sha env) i c body sheets rt now prices (sys_state sys) = Inr pc"
    using assms(1) by (auto elim: proxy_step.cases)
  from decided_call_policy [OF begin_call_decided [OF b] assms(2)] obtain sheet stale prices' where
    s: "pc_sheet pc = Active sheet stale" "within_budget sheet (pc_spend pc) prices'" by blast
  from s(2) have "sp_tool_calls (pc_spend pc) < daily_tool_calls (sheet_budget sheet)" by (simp add: within_budget_def)
  with assms(3) [OF s(1)] begin_call_Inr(2,5) [OF b] show ?thesis by (simp add: day_calls_def meter_read_def)
qed

text \<open>The channel's decisions of a run: all on day \<open>d\<close>, under sheets whose cap is at most \<open>cap\<close>.\<close>

definition capped_decisions :: "string \<Rightarrow> nat \<Rightarrow> nat \<Rightarrow> sys_event list \<Rightarrow> bool" where
  "capped_decisions c d cap tr \<longleftrightarrow> (\<forall>now pc. EvDecided now pc \<in> set tr \<and> pc_channel pc = c \<longrightarrow> utc_day now = d \<and>
     (\<forall>sheet stale. pc_sheet pc = Active sheet stale \<longrightarrow> daily_tool_calls (sheet_budget sheet) \<le> cap))"

lemma capped_decisions_snoc: "capped_decisions c d cap (tr @ [ev]) \<Longrightarrow> capped_decisions c d cap tr"
  unfolding capped_decisions_def by (metis Un_iff set_append)

lemma run_cap:
  assumes "proxy_run env st0 tr sys" and "capped_decisions c d cap tr" and "in_flight_within K c tr"
  defines "n0 \<equiv> day_calls c d (px_meter st0)"
  shows "cap \<le> day_calls c d (px_meter (sys_state sys)) \<longrightarrow>
    day_calls c d (px_meter (sys_state sys)) + tally (waiting_permitted c) (sys_calls sys) \<le> max (cap + K - 1) n0"
  using assms(1-3)
proof (induction rule: proxy_run.induct)
  case run_init
  show ?case by (simp add: n0_def)
next
  case (run_step tr sys ev sys')
  let ?n = "day_calls c d (px_meter (sys_state sys))" and ?n' = "day_calls c d (px_meter (sys_state sys'))"
  let ?w = "tally (waiting_permitted c) (sys_calls sys)" and ?w' = "tally (waiting_permitted c) (sys_calls sys')"
  have caps: "capped_decisions c d cap tr" "in_flight_within K c tr"
    using capped_decisions_snoc [OF run_step.prems(1)] in_flight_within_snoc [OF run_step.prems(2)] .
  have "tally (waiting c) (sys_calls sys) + tally (admitted_in c) tr \<le> K + tally (admitted_in c) tr"
    using run_waiting [OF run_step(1), of c] spec [OF caps(2) [unfolded in_flight_within_def], of "length tr"] by simp
  then have K: "?w \<le> K" using waiting_permitted_le [of c "sys_calls sys"] by simp
  have n': "?n' = ?n + of_bool (counts_for c d ev)" by (rule day_calls_event [OF run_step(3)])
  show ?case
  proof (cases "\<exists>now pc. ev = EvDecided now pc \<and> pc_channel pc = c \<and> (\<forall>r. pc_decision pc \<noteq> Refuse r)")
    case True
    then obtain now pc where ev: "ev = EvDecided now pc" "pc_channel pc = c" "\<And>r. pc_decision pc \<noteq> Refuse r" by blast
    from ev(1) have "EvDecided now pc \<in> set (tr @ [ev])" by simp
    with run_step.prems(1) ev(2) have "utc_day now = d"
      "\<And>sheet stale. pc_sheet pc = Active sheet stale \<Longrightarrow> daily_tool_calls (sheet_budget sheet) \<le> cap"
      unfolding capped_decisions_def by blast+
    with step_below_cap [OF run_step(3) [unfolded ev(1)] ev(3), of cap] ev(2) have "?n < cap" by simp
    with ev(1) n' show ?thesis by simp
  next
    case False
    with step_permitted [OF run_step(3), of c d] have w: "?w' + of_bool (counts_for c d ev) \<le> ?w" by simp
    show ?thesis
    proof (cases "cap \<le> ?n")
      case True
      with run_step.IH [OF caps] w n' show ?thesis by simp
    next
      case below: False
      show ?thesis
      proof
        assume "cap \<le> ?n'"
        with below n' have "counts_for c d ev" "?n' = cap" by (cases "counts_for c d ev"; simp)+
        with w K show "?n' + ?w' \<le> max (cap + K - 1) n0" by simp
      qed
    qed
  qed
qed

text \<open>
  C5. When all of a channel's decisions in a run are made on one day, under sheets that allow at most
  \<open>cap\<close> calls a day, and never more than \<open>K\<close> of its calls are between their decision and their
  dispatch at once, then that day's dispatches end at most \<open>K - 1\<close> above the cap (or where they
  started, if that was higher): decisions made one at a time (\<open>K = 1\<close>) never pass the cap.
\<close>

theorem daily_cap_overshoot:
  assumes "proxy_run env st0 tr sys" and "capped_decisions c d cap tr" and "in_flight_within K c tr"
  shows "sp_tool_calls (read_spend (mtr_db (px_meter st0)) c d) + length (filter (counts_for c d) tr)
    \<le> max (cap + K - 1) (sp_tool_calls (read_spend (mtr_db (px_meter st0)) c d))"
proof -
  have "day_calls c d (px_meter (sys_state sys)) \<le> max (cap + K - 1) (day_calls c d (px_meter st0))"
    using run_cap [OF assms] by (cases "cap \<le> day_calls c d (px_meter (sys_state sys))") auto
  moreover have "day_calls c d (px_meter (sys_state sys)) = day_calls c d (px_meter st0) + tally (counts_for c d) tr"
    using assms(1)
  proof (induction rule: proxy_run.induct)
    case (run_step tr sys ev sys')
    from day_calls_event [OF run_step(3), of c d] run_step.IH show ?case by simp
  qed simp
  ultimately show ?thesis by (simp add: day_calls_def)
qed

theorem daily_cap_overshoot_witness:
  "\<exists>reply reply'. length (filter (counts_for ''ops'' 0) (demo_events reply reply')) \<le> 6"
proof -
  obtain reply reply' sys where r: "proxy_run demo_env demo_state (demo_events reply reply') sys" using demo_run by blast
  have "capped_decisions ''ops'' 0 6 (demo_events reply reply')"
    by (auto simp: capped_decisions_def demo_events_def utc_day_def day_ms_def demo_budget_def)
  moreover have "in_flight_within 1 ''ops'' (demo_events reply reply')"
    by (auto simp: in_flight_within_def demo_events_def take_Cons split: nat.split)
  moreover have "sp_tool_calls (read_spend (mtr_db demo_meter) ''ops'' 0) = 0"
    by (simp add: demo_meter_def empty_budget_db_def read_spend_def to_daily_spend_def)
  ultimately have "length (filter (counts_for ''ops'' 0) (demo_events reply reply')) \<le> 6"
    using daily_cap_overshoot [OF r, of "''ops''" 0 6 1] by simp
  then show ?thesis by blast
qed

subsection \<open>Warnings\<close>

text \<open>An answer that shows the warning of a limit.\<close>

fun shows_warning :: "string \<Rightarrow> nat \<Rightarrow> budget_limit \<Rightarrow> sys_event \<Rightarrow> bool" where
  "shows_warning c d limit (EvSettled _ rd _ pc _ (HttpOk (CallRan _ _ (Some w)))) \<longleftrightarrow>
     pc_channel pc = c \<and> utc_day (rd_claim rd) = d \<and> bw_limit w = limit"
| "shows_warning c d limit _ \<longleftrightarrow> False"

lemma step_keeps_warned:
  assumes "proxy_step env sys ev sys'" and "warned (px_meter (sys_state sys)) c d limit"
  shows "warned (px_meter (sys_state sys')) c d limit"
proof (cases "event_meter ev")
  case None
  with assms(2) step_meter [OF assms(1)] show ?thesis by simp
next
  case (Some op)
  with warned_step [OF assms(2), of op] step_meter [OF assms(1)] show ?thesis by simp
qed

lemma step_shows_warning:
  assumes "proxy_step env sys ev sys'" and "shows_warning c d limit ev"
  shows "\<not> warned (px_meter (sys_state sys)) c d limit" "warned (px_meter (sys_state sys')) c d limit"
proof -
  from assms(2) obtain k rd f pc result i r w where ev: "ev = EvSettled k rd f pc result (HttpOk (CallRan i r (Some w)))"
    "pc_channel pc = c" "utc_day (rd_claim rd) = d" "bw_limit w = limit"
    by (cases "(c, d, limit, ev)" rule: shows_warning.cases) auto
  let ?op = "ClaimOnce (rd_claim rd) c limit"
  obtain st where "ran_reply rd f pc result (sys_state sys) = (HttpOk (CallRan i r (Some w)), st)"
    using assms(1) ev(1) by (auto elim: proxy_step.cases)
  then have m: "event_meter ev = Some ?op" "fst (meter_step ?op (px_meter (sys_state sys)))"
    using ev by (auto simp: ran_reply_def ran_claim_def internal_error_def make_error_def Let_def split: option.splits if_splits prod.splits)
  then have cl: "claims c d limit (?op, fst (meter_step ?op (px_meter (sys_state sys))))" using ev(3) by simp
  then show "\<not> warned (px_meter (sys_state sys)) c d limit" using warned_step by blast
  show "warned (px_meter (sys_state sys')) c d limit"
    using claims_marks [OF cl] step_meter [OF assms(1)] m(1) by simp
qed

text \<open>
  C9. In every run, at most one answer shows a channel the warning of a given limit on a given day, and
  none does if it had been claimed before: calls that cross the threshold at the same moment, and
  read the same spend, do not both say so.
\<close>

theorem warning_shown_once:
  assumes "proxy_run env st0 tr sys"
  shows "length (filter (shows_warning c d limit) tr) \<le> (if warned (px_meter st0) c d limit then 0 else 1)"
proof -
  have "length (filter (shows_warning c d limit) tr) + of_bool (warned (px_meter st0) c d limit)
      \<le> of_bool (warned (px_meter (sys_state sys)) c d limit)"
    using assms
  proof (induction rule: proxy_run.induct)
    case (run_step tr sys ev sys')
    show ?case
    proof (cases "shows_warning c d limit ev")
      case True
      with step_shows_warning [OF run_step(3) True] run_step.IH show ?thesis by simp
    next
      case False
      with step_keeps_warned [OF run_step(3), of c d limit] run_step.IH show ?thesis
        by (cases "warned (px_meter (sys_state sys)) c d limit") (auto simp del: not_None_eq)
    qed
  qed simp
  also have "\<dots> \<le> 1" by simp
  finally show ?thesis by (auto split: if_splits)
qed

theorem warning_shown_once_witness:
  "\<exists>reply reply'. length (filter (shows_warning ''ops'' 0 DailyToolCalls) (demo_events reply reply')) \<le> 1"
proof -
  obtain reply reply' sys where "proxy_run demo_env demo_state (demo_events reply reply') sys" using demo_run by blast
  from warning_shown_once [OF this, of "''ops''" 0 DailyToolCalls]
  have "length (filter (shows_warning ''ops'' 0 DailyToolCalls) (demo_events reply reply')) \<le> 1"
    by (simp split: if_splits)
  then show ?thesis by blast
qed

subsection \<open>Channels do not touch each other\<close>

lemma map_filter_js_set:
  "(\<And>v. f (k, v) = None) \<Longrightarrow> List.map_filter f (js_set k v m) = List.map_filter f m"
  by (induction m) (auto simp: List.map_filter_def)

lemma token_rows_other: "c' \<noteq> c \<Longrightarrow> token_rows (add_tokens c' d' model usage db) c d = token_rows db c d"
  by (auto simp: token_rows_def add_tokens_def map_filter_js_set split: option.splits)

fun meter_op_channel :: "meter_op \<Rightarrow> string" where
  "meter_op_channel (RecordTokens _ _ _ c _ _ _) = c"
| "meter_op_channel (RecordToolCall _ c) = c"
| "meter_op_channel (ClaimOnce _ c _) = c"

lemma read_spend_tokens_other: "c' \<noteq> c \<Longrightarrow> read_spend (add_tokens c' d' model usage db) c d = read_spend db c d"
  by (simp add: read_spend_def token_rows_other) (simp add: add_tokens_def)

lemma read_spend_call_other: "c' \<noteq> c \<Longrightarrow> read_spend (add_tool_call c' d' db) c d = read_spend db c d"
  using token_rows_congr [of "add_tool_call c' d' db" db]
  by (simp add: read_spend_def) (simp add: add_tool_call_def split: option.split)

lemma report_turn_tokens:
  "budget_apply (ReportTurn th c d turn at_ms model usage) db = db \<or>
   (\<exists>db1. budget_apply (ReportTurn th c d turn at_ms model usage) db = add_tokens c d model usage db1 \<and>
      channel_spend db1 = channel_spend db \<and> channel_token_spend db1 = channel_token_spend db)"
  by (auto simp: add_turn_tokens_def transact_def claim_turn_def Let_def split: option.splits)

lemma budget_apply_other [frame_facts]:
  assumes "c' \<noteq> c"
  shows "read_spend (budget_apply (CountCall c' d') db) c d = read_spend db c d"
    "read_spend (budget_apply (ReportTurn th c' d' turn at_ms model usage) db) c d = read_spend db c d"
    "read_spend (budget_apply (ClaimWarning c' d' limit) db) c d = read_spend db c d"
    "read_spend (budget_apply (PruneTurns at_ms) db) c d = read_spend db c d"
proof -
  show "read_spend (budget_apply (CountCall c' d') db) c d = read_spend db c d"
    using read_spend_call_other [OF assms] by simp
  show "read_spend (budget_apply (ReportTurn th c' d' turn at_ms model usage) db) c d = read_spend db c d"
    using report_turn_tokens [of th c' d' turn at_ms model usage db] read_spend_tokens_other [OF assms]
      read_spend_congr [of _ db c d] by metis
  show "read_spend (budget_apply (ClaimWarning c' d' limit) db) c d = read_spend db c d"
    by (rule read_spend_congr) (simp_all add: claim_warning_def split: option.split)
  show "read_spend (budget_apply (PruneTurns at_ms) db) c d = read_spend db c d"
    by (rule read_spend_congr) (simp_all add: prune_turn_reports_before_def)
qed

lemma meter_step_other [frame_facts]:
  assumes "meter_op_channel op \<noteq> c"
  shows "read_spend (mtr_db (snd (meter_step op m))) c d = read_spend (mtr_db m) c d"
  unfolding meter_step_db
proof (rule fold_budget_apply [where P = "\<lambda>db. read_spend db c d = read_spend (mtr_db m) c d"])
  fix st db
  assume st: "st \<in> set (meter_statements op m)" and eq: "read_spend db c d = read_spend (mtr_db m) c d"
  have "read_spend (budget_apply st db) c d = read_spend db c d"
    using st assms by (cases op) (auto simp del: budget_apply.simps simp: budget_apply_other split: if_splits)
  with eq show "read_spend (budget_apply st db) c d = read_spend (mtr_db m) c d" by simp
qed simp

lemma event_rows_channel:
  "event_rows ev rs \<Longrightarrow> r \<in> set rs \<Longrightarrow> event_channel ev = Some (ar_channel r)"
  by (cases "(ev, rs)" rule: event_rows.cases)
    (auto simp: answer_rows_def ran_rows_def call_row_def verdict_rows_def verdict_row_def)

lemma event_meter_channel: "event_meter ev = Some op \<Longrightarrow> event_channel ev = Some (meter_op_channel op)"
  by (cases ev rule: event_meter.cases) (auto simp: ran_claim_def spend_op_def split: if_splits)

lemma event_approval_channel:
  assumes "proxy_run env st0 tr sys" and "proxy_step env sys ev sys'" and "event_approval ev = Some op"
  shows "event_channel ev = Some (op_channel op)"
proof (cases ev rule: event_approval.cases)
  case (1 k rd f uuid pc out)
  with admitted_events(2) [OF assms(1)] assms(2) have "rc_channel (pc_call pc) = pc_channel pc"
    by (auto simp: decided_call_def)
  with 1 assms(3) show ?thesis by (auto simp: admit_op_def split: decision.splits option.splits)
qed (use assms(3) in \<open>auto simp: verdict_op_def\<close>)

lemma filter_update_other:
  "i < length xs \<Longrightarrow> \<not> P (xs ! i) \<Longrightarrow> \<not> P x \<Longrightarrow> filter P (xs[i := x]) = filter P xs"
  by (induction xs arbitrary: i) (auto split: nat.splits)

lemma phase_call_after:
  "admit sha rd f uuid pc st = (out, st') \<Longrightarrow> phase_call (phase_admitted pc out) = pc"
  "phase_call (phase_finished pc out') = pc"
  by (auto simp: phase_admitted_def phase_finished_def admit_Serving(1) split: admitted.splits settled.splits)

text \<open>
  C6. A step of one channel's request leaves every other channel's tickets, spend and calls as they
  were, writes no row of another channel, and a step that only reads or rejects changes nothing at
  all.
\<close>

theorem channels_isolated:
  assumes "proxy_run env st0 tr sys" and "proxy_ok (env_sha env) st0" and "proxy_step env sys ev sys'"
    and "event_channel ev \<noteq> Some c"
  shows "channel_tickets (px_approvals (sys_state sys')) c = channel_tickets (px_approvals (sys_state sys)) c \<and>
    (\<forall>d. read_spend (mtr_db (px_meter (sys_state sys'))) c d = read_spend (mtr_db (px_meter (sys_state sys))) c d) \<and>
    (\<exists>rs. states_rows (px_log (sys_state sys)) (px_log (sys_state sys')) rs \<and> (\<forall>r \<in> set rs. ar_channel r \<noteq> c)) \<and>
    filter (\<lambda>p. pc_channel (phase_call p) = c) (sys_calls sys') = filter (\<lambda>p. pc_channel (phase_call p) = c) (sys_calls sys) \<and>
    (event_channel ev = None \<longrightarrow> sys' = sys)"
proof -
  have ok: "store_wf (px_approvals (sys_state sys))" using run_ok [OF assms(1,2)] by (simp add: proxy_ok_def)
  have "channel_tickets (px_approvals (sys_state sys')) c = channel_tickets (px_approvals (sys_state sys)) c"
    using step_approvals [OF assms(3)] event_approval_channel [OF assms(1,3)] assms(4) step_frame [OF ok]
    by (cases "event_approval ev") auto
  moreover have "read_spend (mtr_db (px_meter (sys_state sys'))) c d = read_spend (mtr_db (px_meter (sys_state sys))) c d" for d
    using step_meter [OF assms(3)] event_meter_channel assms(4) meter_step_other
    by (cases "event_meter ev") auto
  moreover have "\<exists>rs. states_rows (px_log (sys_state sys)) (px_log (sys_state sys')) rs \<and> (\<forall>r \<in> set rs. ar_channel r \<noteq> c)"
    using step_log [OF assms(3)] event_rows_channel assms(4) by metis
  moreover have "filter (\<lambda>p. pc_channel (phase_call p) = c) (sys_calls sys')
      = filter (\<lambda>p. pc_channel (phase_call p) = c) (sys_calls sys)"
    using assms(3,4) by (cases rule: proxy_step.cases) (auto simp: filter_update_other phase_call_after)
  moreover have "event_channel ev = None \<longrightarrow> sys' = sys"
    using assms(3) by (cases rule: proxy_step.cases) auto
  ultimately show ?thesis by blast
qed

theorem channels_isolated_witness:
  "\<exists>sys'. proxy_step demo_env \<lparr>sys_state = demo_state, sys_calls = []\<rparr> (EvDecided 10 (demo_pending ''r1'' None)) sys' \<and>
     filter (\<lambda>p. pc_channel (phase_call p) = ''hr'') (sys_calls sys') = []"
proof -
  let ?s0 = "\<lparr>sys_state = demo_state, sys_calls = []\<rparr>"
  have s: "proxy_step demo_env ?s0 (EvDecided 10 (demo_pending ''r1'' None))
      (?s0\<lparr>sys_calls := sys_calls ?s0 @ [Decided (demo_pending ''r1'' None)]\<rparr>)"
    by (rule demo_decided_step) simp
  have ok: "proxy_ok (env_sha demo_env) demo_state"
    using demo_log_sound by (simp add: proxy_ok_def store_wf_def demo_meter_def)
  from channels_isolated [OF run_init ok s, of "''hr''"] s show ?thesis by auto
qed

end
