(* ===== verification/Server_Edge.thy ===== *)
theory Server_Edge
  imports Demo_Run
begin

text \<open>
  What the proxy's edge guarantees before any handler runs: a request's channel is the one its
  certificate names, an unauthenticated peer learns nothing from the answer, the body reader holds no
  more than its limit and computes what reading the whole body would, and the listing route only
  leaves tools out.
\<close>

subsection \<open>Identity\<close>

lemma channel_from_common_name_Inr:
  "channel_from_common_name cn = Inr channel \<longleftrightarrow> cn = Some (channel_cn_prefix @ channel) \<and> channel_id_pattern channel"
proof
  assume "channel_from_common_name cn = Inr channel"
  then show "cn = Some (channel_cn_prefix @ channel) \<and> channel_id_pattern channel"
    by (auto simp: channel_from_common_name_def Let_def split: option.splits if_splits)
      (metis append_take_drop_id)
qed (simp add: channel_from_common_name_def channel_cn_prefix_def Let_def)

lemma resolve_channel_Inr:
  "resolve_channel peer = Inr who \<longleftrightarrow> (\<exists>cert. peer = Some cert \<and>
     peer_cn cert = CnOne (channel_cn_prefix @ id_channel who) \<and> channel_id_pattern (id_channel who) \<and>
     peer_fingerprint256 cert = Some (id_fingerprint who) \<and> id_fingerprint who \<noteq> [])"
proof (cases peer)
  case (Some cert)
  show ?thesis
  proof (cases "peer_cn cert")
    case (CnOne name)
    have "resolve_channel peer = Inr who \<longleftrightarrow> channel_from_common_name (Some name) = Inr (id_channel who) \<and>
        peer_fingerprint256 cert = Some (id_fingerprint who) \<and> id_fingerprint who \<noteq> []"
      using Some CnOne by (auto simp: resolve_channel_def split: sum.splits option.splits if_splits)
    then show ?thesis using Some CnOne by (auto simp: channel_from_common_name_Inr)
  qed (use Some in \<open>auto simp: resolve_channel_def channel_from_common_name_def split: option.splits if_splits\<close>)
qed (simp add: resolve_channel_def)

text \<open>
  C7. A request reaches a handler only with a channel its client certificate names: the certificate has
  one common name, \<open>channel:\<close> and then that channel's id, and a fingerprint, which, when the channel
  has an active sheet, is one the sheet pins up to letter case and colons. The path and the method
  are the ones the route is registered under, and a body is passed on only where the route takes one.
\<close>

theorem routed_from_certificate:
  assumes "route_request sheets rq = Routed route ctx"
  shows "\<exists>cert fp state path handlers. rq_peer rq = Some cert \<and>
    peer_cn cert = CnOne (''channel:'' @ ctx_channel ctx) \<and> channel_id_pattern (ctx_channel ctx) \<and>
    peer_fingerprint256 cert = Some fp \<and> sheets (ctx_channel ctx) = Inr state \<and>
    (\<forall>sheet stale. state = Active sheet stale \<longrightarrow>
       (\<exists>pin \<in> set (ch_certificate_sha256 (sheet_channel sheet)).
          normalize_certificate_sha256 pin = normalize_certificate_sha256 fp)) \<and>
    ctx_request_id ctx = rq_id rq \<and> rq_pathname rq = Some path \<and> map_of routes path = Some handlers \<and>
    (map_of handlers (rq_method rq) = Some (route, True) \<and> (\<exists>v. rq_body rq = Inr v \<and> ctx_body ctx = Some v) \<or>
     map_of handlers (rq_method rq) = Some (route, False) \<and> ctx_body ctx = None)"
proof -
  obtain path who state handlers wants where r: "rq_pathname rq = Some path" "resolve_channel (rq_peer rq) = Inr who"
    "sheets (id_channel who) = Inr state" "pin_rejection state (id_fingerprint who) (rq_id rq) = None"
    "map_of routes path = Some handlers" "map_of handlers (rq_method rq) = Some (route, wants)"
    and c: "ctx_channel ctx = id_channel who" "ctx_request_id ctx = rq_id rq"
    "wants \<and> (\<exists>v. rq_body rq = Inr v \<and> ctx_body ctx = Some v) \<or> \<not> wants \<and> ctx_body ctx = None"
    using assms
    by (auto simp: route_request_def refuse_request_def Let_def split: option.splits sum.splits if_splits prod.splits)
  have "\<exists>pin \<in> set (ch_certificate_sha256 (sheet_channel sheet)).
      normalize_certificate_sha256 pin = normalize_certificate_sha256 (id_fingerprint who)" if "state = Active sheet stale" for sheet stale
    using r(4) that by (auto simp: pin_rejection_def matches_pin_def Let_def list_ex_iff split: if_splits)
  with r c show ?thesis by (auto simp: resolve_channel_Inr channel_cn_prefix_def)
qed

theorem routed_from_certificate_witness:
  "channel_id_pattern (ctx_channel \<lparr>ctx_channel = ''ops'', ctx_request_id = ''r1'', ctx_body = Some (7::nat)\<rparr>)"
proof -
  have "route_request demo_sheets (demo_request ''r1'' ''/v1/tools/call'' (7::nat)) =
      Routed RouteCall \<lparr>ctx_channel = ''ops'', ctx_request_id = ''r1'', ctx_body = Some 7\<rparr>"
    by (rule demo_routed) simp
  from routed_from_certificate [OF this] show ?thesis by blast
qed

text \<open>The peer is not one the proxy answers: no channel in its certificate, or a fingerprint not pinned.\<close>

definition unauthenticated_peer :: "(string \<Rightarrow> unit + sheet_state) \<Rightarrow> peer_certificate option \<Rightarrow> bool" where
  "unauthenticated_peer sheets peer \<longleftrightarrow>
     (case resolve_channel peer of
        Inl _ \<Rightarrow> True
      | Inr who \<Rightarrow>
          (case sheets (id_channel who) of
             Inr (Active sheet _) \<Rightarrow> \<not> matches_pin (id_fingerprint who) (ch_certificate_sha256 (sheet_channel sheet))
           | _ \<Rightarrow> False))"

text \<open>
  C8. An unauthenticated peer gets a 401 that names no channel, and the same one whatever path, method and body it
  sends: the answer tells it nothing of which routes exist. A request line that is no URL is answered before the peer is
  looked at, by a 400 that names no channel and is the same whoever sends it.
\<close>

theorem unauthenticated_learns_nothing:
  assumes "unauthenticated_peer sheets (rq_peer rq)"
  shows "\<exists>e bad. error_status (pe_code e) = 401 \<and> pe_channel e = None \<and> error_status (pe_code bad) = 400 \<and> pe_channel bad = None \<and>
    (\<forall>pathname meth body. route_request sheets (rq\<lparr>rq_pathname := pathname, rq_method := meth, rq_body := body\<rparr>)
       = Rejected (HttpError (if pathname = None then bad else e)) []) \<and>
    (\<forall>peer meth body. route_request sheets (rq\<lparr>rq_peer := peer, rq_pathname := None, rq_method := meth, rq_body := body\<rparr>)
       = Rejected (HttpError bad) [])"
proof -
  let ?refused = "\<lambda>code message. \<lparr>pe_code = code, pe_message = message, pe_request_id = rq_id rq, pe_channel = None\<rparr>"
  let ?bad = "?refused BadRequest ''the request line is not a valid URL''"
  have bad: "error_status (pe_code ?bad) = 400" "pe_channel ?bad = None"
    "\<And>peer meth body. route_request sheets (rq\<lparr>rq_peer := peer, rq_pathname := None, rq_method := meth, rq_body := body\<rparr>)
       = Rejected (HttpError ?bad) []"
    by (simp_all add: route_request_def refuse_request_def make_error_def)
  obtain e where e: "error_status (pe_code e) = 401" "pe_channel e = None"
    "\<And>path meth body. route_request sheets (rq\<lparr>rq_pathname := Some path, rq_method := meth, rq_body := body\<rparr>) = Rejected (HttpError e) []"
  proof (cases "resolve_channel (rq_peer rq)")
    case (Inl x)
    then show thesis
      by (intro that[of "?refused Unauthenticated ''the client certificate does not identify a channel''"])
        (simp_all add: route_request_def refuse_request_def make_error_def)
  next
    case (Inr who)
    with assms obtain sheet stale where "sheets (id_channel who) = Inr (Active sheet stale)"
      "\<not> matches_pin (id_fingerprint who) (ch_certificate_sha256 (sheet_channel sheet))"
      by (auto simp: unauthenticated_peer_def split: sum.splits sheet_state.splits)
    with Inr show thesis
      by (intro that[of "?refused Unauthenticated ''the client certificate is not one this channel's team sheet pins''"])
        (simp_all add: route_request_def refuse_request_def make_error_def pin_rejection_def)
  qed
  have "route_request sheets (rq\<lparr>rq_pathname := None, rq_method := meth, rq_body := body\<rparr>) = Rejected (HttpError ?bad) []" for meth body
    using bad(3)[where peer = "rq_peer rq" and meth = meth and body = body] by simp
  then have "route_request sheets (rq\<lparr>rq_pathname := pathname, rq_method := meth, rq_body := body\<rparr>)
      = Rejected (HttpError (if pathname = None then ?bad else e)) []" for pathname meth body
    using e(3) by (cases pathname) simp_all
  with bad e(1,2) show ?thesis by blast
qed

theorem unauthenticated_learns_nothing_witness:
  "route_request demo_sheets ((demo_request ''r1'' ''/health'' ())\<lparr>rq_peer := None\<rparr>)
     = route_request demo_sheets ((demo_request ''r1'' ''/nowhere'' ())\<lparr>rq_peer := None\<rparr>)"
proof -
  let ?rq = "(demo_request ''r1'' ''/health'' ())\<lparr>rq_peer := None\<rparr>"
  have "unauthenticated_peer demo_sheets (rq_peer ?rq)" by (simp add: unauthenticated_peer_def resolve_channel_def)
  from unauthenticated_learns_nothing [OF this] obtain e bad where
    e: "\<And>pathname meth body. route_request demo_sheets (?rq\<lparr>rq_pathname := pathname, rq_method := meth, rq_body := body\<rparr>)
       = Rejected (HttpError (if pathname = None then bad else e)) []" by blast
  note e [where pathname = "Some ''/nowhere''" and meth = "''POST''" and body = "Inr ()"]
    e [where pathname = "rq_pathname ?rq" and meth = "rq_method ?rq" and body = "rq_body ?rq"]
  then show ?thesis by (simp add: demo_request_def)
qed

subsection \<open>The body reader\<close>

definition declared_over :: "nat \<Rightarrow> rat option \<Rightarrow> bool" where
  "declared_over limit declared \<longleftrightarrow> (\<exists>n. declared = Some n \<and> n > of_nat limit)"

lemma body_settled_stays:
  "br_settled br = Some r \<Longrightarrow> br_settled (fold (body_step limit parse) events br) = Some r"
proof (induction events arbitrary: br)
  case (Cons ev events)
  then have "br_settled (body_step limit parse ev br) = Some r" by (cases ev) (auto simp: settle_def)
  then show ?case using Cons.IH by simp
qed simp

text \<open>The reader's invariant: the buffer is the data read so far, and no more than the limit.\<close>

definition body_ok :: "nat \<Rightarrow> 'v body_reader \<Rightarrow> bool" where
  "body_ok limit br \<longleftrightarrow> length (concat (br_chunks br)) \<le> limit \<and>
     (br_settled br = None \<longrightarrow> br_total br = length (concat (br_chunks br)))"

lemma body_ok_begin [inv_preserved]: "body_ok limit (begin_body limit declared)"
  by (auto simp: body_ok_def begin_body_def too_large_def settle_def Let_def split: option.splits)

lemma body_ok_step [inv_preserved]: "body_ok limit br \<Longrightarrow> body_ok limit (body_step limit parse ev br)"
  by (cases ev) (auto simp: body_ok_def too_large_def settle_def Let_def)

lemma body_ok_fold [inv_preserved]: "body_ok limit br \<Longrightarrow> body_ok limit (fold (body_step limit parse) events br)"
  by (induction events arbitrary: br) (auto simp: body_ok_step)

lemma body_data:
  assumes "br_settled br = None" and "br_total br = length (concat (br_chunks br))" and "br_total br \<le> limit"
  shows "if br_total br + length (concat chunks) \<le> limit
     then br_settled (fold (body_step limit parse) (map BodyData chunks) br) = None \<and>
       br_chunks (fold (body_step limit parse) (map BodyData chunks) br) = br_chunks br @ chunks
     else br_settled (fold (body_step limit parse) (map BodyData chunks) br) = Some (Inl BodyTooLarge)"
  using assms
proof (induction chunks arbitrary: br)
  case (Cons chunk chunks)
  let ?br = "body_step limit parse (BodyData chunk) br"
  show ?case
  proof (cases "br_total br + length chunk \<le> limit")
    case True
    then have "br_settled ?br = None" "br_total ?br = length (concat (br_chunks ?br))" "br_total ?br \<le> limit"
      "br_chunks ?br = br_chunks br @ [chunk]" "br_total ?br = br_total br + length chunk"
      using Cons.prems by (auto simp: Let_def)
    with Cons.IH [of ?br] show ?thesis by (simp del: body_step.simps add: add.assoc)
  next
    case False
    then have "br_settled ?br = Some (Inl BodyTooLarge)"
      using Cons.prems by (simp add: too_large_def settle_def Let_def)
    from body_settled_stays [OF this] False show ?thesis by (simp del: body_step.simps)
  qed
qed simp

text \<open>
  C10. However a body arrives in chunks, the reader answers what reading it whole would: too large when
  the declared length or the length of the data passes the limit, else malformed or the parsed value;
  nothing after the end changes the answer; and at no point of any sequence of events, ended, failed
  or neither, does it buffer more than the limit.
\<close>

theorem body_reader_spec:
  "read_json_body limit parse declared (map BodyData chunks @ BodyEnd # rest) =
     Some (if declared_over limit declared \<or> length (concat chunks) > limit then Inl BodyTooLarge
       else case parse (concat chunks) of None \<Rightarrow> Inl BodyMalformed | Some v \<Rightarrow> Inr v) \<and>
   length (concat (br_chunks (fold (body_step limit parse) events (begin_body limit declared)))) \<le> limit"
proof -
  let ?br = "begin_body limit declared :: 'a body_reader"
  let ?after = "fold (body_step limit parse) (map BodyData chunks) ?br"
  have "br_settled (fold (body_step limit parse) rest (body_step limit parse BodyEnd ?after)) =
     Some (if declared_over limit declared \<or> length (concat chunks) > limit then Inl BodyTooLarge
       else case parse (concat chunks) of None \<Rightarrow> Inl BodyMalformed | Some v \<Rightarrow> Inr v)"
  proof (cases "declared_over limit declared")
    case True
    then have "br_settled ?br = Some (Inl BodyTooLarge)"
      by (auto simp: declared_over_def begin_body_def too_large_def settle_def)
    with body_settled_stays [OF this, where limit = limit and parse = parse and events = "map BodyData chunks @ BodyEnd # rest"] True
    show ?thesis by simp
  next
    case False
    then have br: "?br = \<lparr>br_chunks = [], br_total = 0, br_settled = None\<rparr>"
      by (auto simp: declared_over_def begin_body_def Let_def split: option.splits)
    show ?thesis
    proof (cases "length (concat chunks) \<le> limit")
      case True
      with body_data [where br = ?br and limit = limit and parse = parse and chunks = chunks] br
      have "br_settled ?after = None" "br_chunks ?after = chunks" by auto
      then have "br_settled (body_step limit parse BodyEnd ?after)
          = Some (case parse (concat chunks) of None \<Rightarrow> Inl BodyMalformed | Some v \<Rightarrow> Inr v)"
        by (simp add: settle_def)
      from body_settled_stays [OF this] True False show ?thesis by simp
    next
      case over: False
      with body_data [where br = ?br and limit = limit and parse = parse and chunks = chunks] br
      have "br_settled ?after = Some (Inl BodyTooLarge)" by auto
      then have "br_settled (body_step limit parse BodyEnd ?after) = Some (Inl BodyTooLarge)" by (simp add: settle_def)
      from body_settled_stays [OF this] over False show ?thesis by simp
    qed
  qed
  moreover have "body_ok limit (fold (body_step limit parse) events ?br)" by (intro inv_preserved)
  ultimately show ?thesis by (simp add: read_json_body_def body_ok_def)
qed

subsection \<open>The listing route\<close>

definition asks :: "string \<Rightarrow> permitted_source \<Rightarrow> bool" where
  "asks key src \<longleftrightarrow> (case ps_target src of Some (McpTarget u) \<Rightarrow> upstream_key u = key | _ \<Rightarrow> False)"

definition source_upstream :: "permitted_source \<Rightarrow> mcp_server" where
  "source_upstream src = (case ps_target src of Some (McpTarget u) \<Rightarrow> u)"

abbreviation source_name :: "permitted_source \<Rightarrow> string" where
  "source_name src \<equiv> pt_tool (ps_tool src)"

text \<open>Each upstream is asked once, about the tools listed through it, in the listing's order.\<close>

lemma wanted_by_get:
  "js_get (wanted_by sources) key =
     (case filter (asks key) sources of [] \<Rightarrow> None
      | src # rest \<Rightarrow> Some (source_upstream src, map source_name (src # rest)))"
proof (induction sources rule: rev_induct)
  case Nil
  show ?case by (simp add: wanted_by_def)
next
  case (snoc src sources)
  have w: "wanted_by (sources @ [src]) = want_source src (wanted_by sources)" by (simp add: wanted_by_def)
  consider (mcp) u where "ps_target src = Some (McpTarget u)"
    | (other) "\<forall>u. ps_target src \<noteq> Some (McpTarget u)" by blast
  then show ?case
  proof cases
    case mcp
    with snoc.IH w show ?thesis
      by (cases "filter (asks (upstream_key u)) sources"; cases "upstream_key u = key")
        (auto simp: want_source_def asks_def source_upstream_def Let_def split: list.splits option.splits)
  next
    case other
    then have "\<not> asks key src" "want_source src (wanted_by sources) = wanted_by sources"
      by (auto simp: asks_def want_source_def split: option.split target.split)
    with snoc.IH w show ?thesis by simp
  qed
qed

lemma js_get_map_key: "js_get (map (\<lambda>(k, a, b). (k, f a b)) m) key = map_option (\<lambda>(a, b). f a b) (js_get m key)"
  by (induction m) auto

lemma list_source_cases:
  "list_source bt answers src = [] \<and> (\<exists>u a. ps_target src = Some (McpTarget u) \<and> js_get answers (upstream_key u) = Some a \<and>
      source_name src \<in> set (cat_excluded a)) \<or>
   (\<exists>t. list_source bt answers src = [t] \<and> lt_tool t = ps_tool src)"
  by (auto simp: list_source_def no_catalog_answer_def Let_def split: option.splits target.splits)

lemma concat_optional:
  "(\<And>x. x \<in> set xs \<Longrightarrow> f x = [] \<and> P x \<or> (\<exists>t. f x = [t] \<and> g t = h x)) \<Longrightarrow>
     \<exists>keep. map g (concat (map f xs)) = map h (filter keep xs) \<and> (\<forall>x \<in> set xs. \<not> keep x \<longrightarrow> P x)"
proof (intro exI conjI ballI impI)
  assume a: "\<And>x. x \<in> set xs \<Longrightarrow> f x = [] \<and> P x \<or> (\<exists>t. f x = [t] \<and> g t = h x)"
  show "map g (concat (map f xs)) = map h (filter (\<lambda>x. f x \<noteq> []) xs)"
    using a by (induction xs) fastforce+
  show "P x" if "x \<in> set xs" "\<not> f x \<noteq> []" for x using a [OF that(1)] that(2) by auto
qed

text \<open>
  The listing is the permitted sources of the channel's sheet, in their order and with their approval
  modes, less the tools withheld; and a tool is withheld only when its own upstream, asked about
  exactly the tools listed through it, excluded that tool. The catalog can neither add a tool nor
  change what the policy says of one.
\<close>

theorem listing_only_withholds:
  assumes "list_tools builtin_tools describe throws request_id c (Inr state) = HttpOk (ListingReply tools)"
  shows "\<exists>keep. map lt_tool tools = map ps_tool (filter keep (permitted_tool_sources_from_state state)) \<and>
    (\<forall>src \<in> set (permitted_tool_sources_from_state state). \<not> keep src \<longrightarrow>
      (\<exists>u u0. ps_target src = Some (McpTarget u) \<and> upstream_key u0 = upstream_key u \<and>
        source_name src \<in> set (cat_excluded (describe u0
          (map source_name (filter (asks (upstream_key u)) (permitted_tool_sources_from_state state)))))))"
proof -
  let ?ss = "permitted_tool_sources_from_state state"
  let ?ans = "catalog_answers describe ?ss"
  have tools: "tools = concat (map (list_source builtin_tools ?ans) ?ss)"
    using assms by (simp add: list_tools_def Let_def internal_error_def make_error_def split: if_splits)
  have "list_source builtin_tools ?ans src = [] \<and> (\<exists>u u0. ps_target src = Some (McpTarget u) \<and>
        upstream_key u0 = upstream_key u \<and>
        source_name src \<in> set (cat_excluded (describe u0 (map source_name (filter (asks (upstream_key u)) ?ss))))) \<or>
      (\<exists>t. list_source builtin_tools ?ans src = [t] \<and> lt_tool t = ps_tool src)" for src
  proof -
    have "\<exists>u0. upstream_key u0 = key \<and> a = describe u0 (map source_name (filter (asks key) ?ss))"
      if "js_get ?ans key = Some a" for key a
    proof -
      from that obtain src rest where f: "filter (asks key) ?ss = src # rest"
        and a: "a = describe (source_upstream src) (map source_name (src # rest))"
        by (auto simp: catalog_answers_def js_get_map_key wanted_by_get split: list.splits)
      have "src \<in> set (filter (asks key) ?ss)" using f by simp
      then have "upstream_key (source_upstream src) = key"
        by (auto simp: asks_def source_upstream_def split: option.splits target.splits)
      with f a show ?thesis by metis
    qed
    with list_source_cases [of builtin_tools ?ans src] show ?thesis by metis
  qed
  then show ?thesis unfolding tools by (rule concat_optional)
qed

theorem listing_only_withholds_witness:
  "\<exists>tools keep. list_tools (\<lambda>_. (''d'', JNull)) (\<lambda>_ _. \<lparr>cat_described = [], cat_excluded = [''search'']\<rparr>) False ''r1'' ''ops''
       (Inr (Active demo_sheet False)) = HttpOk (ListingReply tools) \<and>
     map lt_tool tools = map ps_tool (filter keep (permitted_tool_sources demo_sheet))"
proof -
  obtain tools where t: "list_tools (\<lambda>_. (''d'', JNull)) (\<lambda>_ _. \<lparr>cat_described = [], cat_excluded = [''search'']\<rparr>) False ''r1'' ''ops''
       (Inr (Active demo_sheet False)) = HttpOk (ListingReply tools)" by (simp add: list_tools_def Let_def)
  from listing_only_withholds [OF t] t show ?thesis by (auto simp: permitted_tool_sources_from_state_def)
qed

end
