(* ===== verification/Redact_Encode.thy ===== *)
theory Redact_Encode
  imports Redact
begin

text \<open>
  The spellings of a secret the redaction searches for (\<open>encodingsOf\<close> of
  \<open>packages/proxy/src/redact.ts\<close>) and the passes built from the secrets (\<open>redactionPasses\<close>,
  \<open>redactSecrets\<close>). A value is a sequence of UTF-16 code units; \<open>encodeURIComponent\<close> throws on a
  lone surrogate, which is the \<open>None\<close> of \<open>percent\<close>.
\<close>

subsection \<open>UTF-8 and base64\<close>

definition surrogate_pair :: "unit16 \<Rightarrow> unit16 \<Rightarrow> nat" where
  "surrogate_pair hi lo = 0x10000 + (unat hi - 0xD800) * 0x400 + (unat lo - 0xDC00)"

definition utf8_of :: "nat \<Rightarrow> nat list" where
  "utf8_of c =
     (if c < 0x80 then [c]
      else if c < 0x800 then [0xC0 + c div 0x40, 0x80 + c mod 0x40]
      else if c < 0x10000 then [0xE0 + c div 0x1000, 0x80 + c div 0x40 mod 0x40, 0x80 + c mod 0x40]
      else [0xF0 + c div 0x40000, 0x80 + c div 0x1000 mod 0x40, 0x80 + c div 0x40 mod 0x40, 0x80 + c mod 0x40])"

text \<open>The code points of a text; a lone surrogate is \<open>None\<close>.\<close>

fun code_points :: "js_text \<Rightarrow> nat option list" where
  "code_points [] = []"
| "code_points (u # us) =
     (if high_surrogate u then
        (case us of
           w # ws \<Rightarrow> if low_surrogate w then Some (surrogate_pair u w) # code_points ws else None # code_points us
         | [] \<Rightarrow> [None])
      else if low_surrogate u then None # code_points us
      else Some (unat u) # code_points us)"

text \<open>\<open>Buffer.from(value, "utf8")\<close>: a lone surrogate becomes U+FFFD.\<close>

definition utf8_bytes :: "js_text \<Rightarrow> nat list" where
  "utf8_bytes us = concat (map (\<lambda>c. utf8_of (case c of None \<Rightarrow> 0xFFFD | Some n \<Rightarrow> n)) (code_points us))"

definition base64_alphabet :: string where
  "base64_alphabet = ''ABCDEFGHIJKLMNOPQRSTUVWXYZabcdefghijklmnopqrstuvwxyz0123456789+/''"

definition base64url_alphabet :: string where
  "base64url_alphabet = ''ABCDEFGHIJKLMNOPQRSTUVWXYZabcdefghijklmnopqrstuvwxyz0123456789-_''"

text \<open>\<open>toString("base64")\<close>; the url alphabet is written without padding.\<close>

fun base64_with :: "string \<Rightarrow> string \<Rightarrow> nat list \<Rightarrow> string" where
  "base64_with abc pad (a # b # c # bs) =
     [abc ! (a div 4), abc ! (a mod 4 * 16 + b div 16), abc ! (b mod 16 * 4 + c div 64), abc ! (c mod 64)]
       @ base64_with abc pad bs"
| "base64_with abc pad [a, b] = [abc ! (a div 4), abc ! (a mod 4 * 16 + b div 16), abc ! (b mod 16 * 4)] @ pad"
| "base64_with abc pad [a] = [abc ! (a div 4), abc ! (a mod 4 * 16)] @ pad @ pad"
| "base64_with abc pad [] = []"

definition base64 :: "js_text \<Rightarrow> js_text" where
  "base64 us = js (base64_with base64_alphabet ''='' (utf8_bytes us))"

definition base64url :: "js_text \<Rightarrow> js_text" where
  "base64url us = js (base64_with base64url_alphabet [] (utf8_bytes us))"

abbreviation unit_of :: "char \<Rightarrow> unit16" where
  "unit_of c \<equiv> of_char c"

text \<open>\<open>replace(/={1,2}$/, "")\<close>: the last one or two equals signs.\<close>

definition strip_padding :: "js_text \<Rightarrow> js_text" where
  "strip_padding us =
     (if suffix [unit_of CHR ''='', unit_of CHR ''=''] us then butlast (butlast us)
      else if suffix [unit_of CHR ''=''] us then butlast us else us)"

subsection \<open>Percent encoding\<close>

definition hex_upper :: string where
  "hex_upper = ''0123456789ABCDEF''"

definition unreserved :: "nat \<Rightarrow> bool" where
  "unreserved c \<longleftrightarrow> 48 \<le> c \<and> c \<le> 57 \<or> 65 \<le> c \<and> c \<le> 90 \<or> 97 \<le> c \<and> c \<le> 122 \<or>
     c \<in> {45, 95, 46, 33, 126, 42, 39, 40, 41}"

definition percent_byte :: "nat \<Rightarrow> string" where
  "percent_byte b = [CHR ''%'', hex_upper ! (b div 16), hex_upper ! (b mod 16)]"

definition percent_point :: "nat \<Rightarrow> string" where
  "percent_point c = (if unreserved c then [char_of c] else concat (map percent_byte (utf8_of c)))"

text \<open>\<open>encodeURIComponent\<close>.\<close>

definition percent :: "js_text \<Rightarrow> js_text option" where
  "percent us =
     (if None \<in> set (code_points us) then None
      else Some (js (concat (map (\<lambda>c. percent_point (the c)) (code_points us)))))"

text \<open>\<open>replace(/%[0-9A-F]{2}/g, lower case)\<close>.\<close>

definition unit_lower :: "unit16 \<Rightarrow> unit16" where
  "unit_lower u = (if 65 \<le> u \<and> u \<le> 90 then u + 32 else u)"

definition unit_upper :: "unit16 \<Rightarrow> unit16" where
  "unit_upper u = (if 97 \<le> u \<and> u \<le> 122 then u - 32 else u)"

definition hex_upper_unit :: "unit16 \<Rightarrow> bool" where
  "hex_upper_unit u \<longleftrightarrow> u \<in> set (js hex_upper)"

definition hex_lower_unit :: "unit16 \<Rightarrow> bool" where
  "hex_lower_unit u \<longleftrightarrow> u \<in> set (js ''0123456789abcdef'')"

fun lower_percents :: "js_text \<Rightarrow> js_text" where
  "lower_percents (p # a # b # us) =
     (if p = unit_of CHR ''%'' \<and> hex_upper_unit a \<and> hex_upper_unit b
      then p # unit_lower a # unit_lower b # lower_percents us
      else p # lower_percents (a # b # us))"
| "lower_percents us = us"

subsection \<open>JSON spellings\<close>

definition hex4 :: "unit16 \<Rightarrow> js_text" where
  "hex4 u = (let n = unat u; d = (\<lambda>i. unit_of (''0123456789abcdef'' ! i))
     in [d (n div 4096), d (n div 256 mod 16), d (n div 16 mod 16), d (n mod 16)])"

definition backslash :: unit16 where
  "backslash = 0x5C"

definition unicode_escape :: "unit16 \<Rightarrow> js_text" where
  "unicode_escape u = backslash # unit_of CHR ''u'' # hex4 u"

text \<open>\<open>JSON.stringify(value).slice(1, -1)\<close>: a surrogate is escaped unless it is one of a pair.\<close>

definition json_unit :: "unit16 \<Rightarrow> js_text" where
  "json_unit u =
     (if u = 0x22 then [backslash, 0x22]
      else if u = backslash then [backslash, backslash]
      else if u = 0x08 then [backslash, unit_of CHR ''b'']
      else if u = 0x0C then [backslash, unit_of CHR ''f'']
      else if u = 0x0A then [backslash, unit_of CHR ''n'']
      else if u = 0x0D then [backslash, unit_of CHR ''r'']
      else if u = 0x09 then [backslash, unit_of CHR ''t'']
      else if u < 0x20 then unicode_escape u
      else [u])"

fun json_escaped :: "js_text \<Rightarrow> js_text" where
  "json_escaped [] = []"
| "json_escaped (u # us) =
     (if high_surrogate u then
        (case us of
           w # ws \<Rightarrow> if low_surrogate w then u # w # json_escaped ws else unicode_escape u @ json_escaped us
         | [] \<Rightarrow> unicode_escape u)
      else if low_surrogate u then unicode_escape u @ json_escaped us
      else json_unit u @ json_escaped us)"

text \<open>\<open>replace(/\\u[0-9a-f]{4}/g, upper case)\<close>.\<close>

fun upper_hex_escapes :: "js_text \<Rightarrow> js_text" where
  "upper_hex_escapes (s # u # a # b # c # d # us) =
     (if s = backslash \<and> u = unit_of CHR ''u'' \<and> hex_lower_unit a \<and> hex_lower_unit b \<and> hex_lower_unit c \<and> hex_lower_unit d
      then [s, u, unit_upper a, unit_upper b, unit_upper c, unit_upper d] @ upper_hex_escapes us
      else s # upper_hex_escapes (u # a # b # c # d # us))"
| "upper_hex_escapes us = us"

definition html_safe_escapes :: "js_text \<Rightarrow> js_text" where
  "html_safe_escapes us =
     replace_all [0x2029] (backslash # js ''u2029'')
    (replace_all [0x2028] (backslash # js ''u2028'')
    (replace_all (js ''>'') (backslash # js ''u003e'')
    (replace_all (js ''<'') (backslash # js ''u003c'')
    (replace_all (js ''&'') (backslash # js ''u0026'') us))))"

subsection \<open>The passes\<close>

definition candidates :: "js_text \<Rightarrow> js_text \<Rightarrow> js_text list" where
  "candidates us pct =
     (let json = json_escaped us; html = html_safe_escapes json;
          slash = replace_all (js ''/'') [backslash, unit_of CHR ''/''] json;
          full = concat (map unicode_escape us)
      in [us, base64 us, strip_padding (base64 us), base64url us, strip_padding (base64url us), pct, lower_percents pct,
          json, upper_hex_escapes json, html, upper_hex_escapes html, slash, upper_hex_escapes slash,
          full, upper_hex_escapes full])"

text \<open>\<open>new Set\<close> keeps first occurrences in order; the sort is stable, longest first.\<close>

fun first_occurrences :: "'a list \<Rightarrow> 'a list" where
  "first_occurrences [] = []"
| "first_occurrences (x # xs) = x # filter (\<lambda>y. y \<noteq> x) (first_occurrences xs)"

definition encodings_of :: "js_text \<Rightarrow> js_text list option" where
  "encodings_of us =
     map_option (\<lambda>pct. sort_key (\<lambda>c. - int (length c)) (first_occurrences (candidates us pct))) (percent us)"

record secret_value =
  sec_name :: string
  sec_value :: js_text

datatype redaction_failure = EmptyValue | MalformedValue

definition redaction_marker :: "string \<Rightarrow> js_text" where
  "redaction_marker name = js (''[redacted:'' @ name @ '']'')"

definition redaction_pass_of :: "secret_value \<Rightarrow> redaction_failure + unit16 redaction_pass" where
  "redaction_pass_of secret =
     (if sec_value secret = [] then Inl EmptyValue
      else case encodings_of (sec_value secret) of
          None \<Rightarrow> Inl MalformedValue
        | Some ns \<Rightarrow> Inr \<lparr>rp_marker = redaction_marker (sec_name secret), rp_needles = ns\<rparr>)"

fun redaction_passes :: "secret_value list \<Rightarrow> redaction_failure + unit16 redaction_pass list" where
  "redaction_passes [] = Inr []"
| "redaction_passes (secret # secrets) =
     (case redaction_pass_of secret of
        Inl e \<Rightarrow> Inl e
      | Inr pass \<Rightarrow> (case redaction_passes secrets of Inl e \<Rightarrow> Inl e | Inr passes \<Rightarrow> Inr (pass # passes)))"

definition redact_secrets :: "js_text \<Rightarrow> secret_value list \<Rightarrow> redaction_failure + js_text" where
  "redact_secrets body secrets =
     (case redaction_passes secrets of Inl e \<Rightarrow> Inl e | Inr passes \<Rightarrow> Inr (apply_passes body passes))"

end
