(* ===== verification/Redact_Stream.thy ===== *)
theory Redact_Stream
  imports Redact_Encode
begin

text \<open>
  The streaming guarantee of \<open>Redact\<close>: no needle straddles the edge a push releases up to, so no
  needle is released in two pieces; and, for needles without the marker's brackets, redaction of a
  text is the redaction of its pieces, leaves no needle, and streaming is redacting the whole.
\<close>

subsection \<open>The two guards\<close>

definition needles :: "'a redaction_pass list \<Rightarrow> 'a list list" where
  "needles passes = concat (map rp_needles passes)"

lemma match_len_full: "match_len xs n = length xs \<longleftrightarrow> prefix xs n"
  by (induction xs n rule: match_len.induct) auto

lemma find_upt_Some: "find P [a ..< b] = Some p \<longleftrightarrow> a \<le> p \<and> p < b \<and> P p \<and> (\<forall>q. a \<le> q \<and> q < p \<longrightarrow> \<not> P q)"
proof (induction "b - a" arbitrary: a)
  case 0
  then show ?case by auto
next
  case (Suc d)
  then have s: "[a ..< b] = a # [Suc a ..< b]" "d = b - Suc a" by (simp_all add: upt_conv_Cons)
  show ?case
  proof (cases "P a")
    case True
    with s Suc(2) show ?thesis by (auto simp: not_less le_less)
  next
    case False
    with s Suc(1) [OF s(2)] Suc_le_eq show ?thesis by (auto simp: le_less)
  qed
qed

lemma find_upt_None: "find P [a ..< b] = None \<longleftrightarrow> (\<forall>q. a \<le> q \<and> q < b \<longrightarrow> \<not> P q)"
  by (auto simp: find_None_iff)

text \<open>A proper prefix of a needle that ends the text is held back.\<close>

definition grows_from :: "'a list \<Rightarrow> 'a list \<Rightarrow> 'a list \<Rightarrow> bool" where
  "grows_from pending n q \<longleftrightarrow> q \<noteq> [] \<and> suffix q pending \<and> strict_prefix q n"

lemma grows_from_found:
  assumes "grows_from pending n q"
  shows "pending ! (length pending - length q) = hd n"
    "length pending - length q + match_len (drop (length pending - length q) pending) n = length pending"
    "length pending - (length n - 1) \<le> length pending - length q"
proof -
  have q: "q \<noteq> []" "prefix q n" "length q < length n"
    using assms by (auto simp: grows_from_def strict_prefix_def prefix_length_less)
  obtain z where z: "pending = z @ q" using assms by (auto simp: grows_from_def suffix_def)
  then show "pending ! (length pending - length q) = hd n"
    using q by (cases q; cases n) (auto simp: nth_append)
  show "length pending - length q + match_len (drop (length pending - length q) pending) n = length pending"
    using q(2) z match_len_full [of q n] by simp
  show "length pending - (length n - 1) \<le> length pending - length q" using q(3) by simp
qed

lemma scan_needle_spec:
  "hold \<le> scan_needle pending n hold \<and> (\<forall>q. grows_from pending n q \<longrightarrow> length q \<le> scan_needle pending n hold)"
proof -
  let ?P = "\<lambda>p. pending ! p = hd n \<and> p + match_len (drop p pending) n = length pending"
  let ?from = "length pending - (length n - 1)"
  show ?thesis
  proof (cases "find ?P [?from ..< length pending - hold]")
    case None
    have "length q \<le> hold" if "grows_from pending n q" for q
    proof (rule ccontr)
      assume "\<not> length q \<le> hold"
      moreover have "length q \<le> length pending" "q \<noteq> []" using that by (auto simp: grows_from_def dest: suffix_length_le)
      ultimately have "length pending - length q < length pending - hold" by simp
      with None grows_from_found [OF that] show False unfolding find_upt_None by blast
    qed
    with None show ?thesis by (simp add: scan_needle_def)
  next
    case (Some p)
    then have p: "p < length pending - hold" "\<And>q. ?from \<le> q \<Longrightarrow> q < p \<Longrightarrow> \<not> ?P q" unfolding find_upt_Some by auto
    have "length q \<le> length pending - p" if "grows_from pending n q" for q
      using p(2) [of "length pending - length q"] grows_from_found [OF that] that
      by (cases "length pending - length q < p") (auto simp: grows_from_def dest: suffix_length_le)
    with Some p(1) show ?thesis by (simp add: scan_needle_def)
  qed
qed

lemma fold_scan_needle:
  "hold \<le> fold (scan_needle pending) ns hold \<and>
   (\<forall>n \<in> set ns. \<forall>q. grows_from pending n q \<longrightarrow> length q \<le> fold (scan_needle pending) ns hold)"
proof (induction ns arbitrary: hold)
  case (Cons n ns)
  from scan_needle_spec [of hold pending n] Cons.IH [of "scan_needle pending n hold"] show ?case
    by (auto intro: order_trans)
qed simp

lemma partial_tail_holds:
  "n \<in> set (needles passes) \<Longrightarrow> grows_from pending n q \<Longrightarrow> length q \<le> partial_tail passes pending"
  using fold_scan_needle [of 0 pending "needles passes"]
  unfolding partial_tail_def needles_def fold_fold by blast

lemma fold_step_back_still:
  "fold (step_back pending) ns (e, False) = (e', False) \<Longrightarrow>
     e' = e \<and> (\<forall>n \<in> set ns. step_back pending n (e, False) = (e, False))"
proof (induction ns)
  case (Cons n ns)
  obtain c m where s: "step_back pending n (e, False) = (c, m)" by fastforce
  from fold_step_back_le [of pending ns c m e' False] Cons.prems s have m: "\<not> m" by simp
  with step_back_le [OF s] have "c = e" by blast
  with Cons s m show ?case by simp
qed simp

text \<open>Where the walk stops, no whole needle of the pending text straddles.\<close>

lemma walk_back_stops:
  "walk_back passes pending e \<le> e \<and>
   (\<forall>n \<in> set (needles passes). \<forall>q < walk_back passes pending e. prefix n (drop q pending) \<longrightarrow>
      q + length n \<le> walk_back passes pending e)"
proof (induction passes pending e rule: walk_back.induct)
  case (1 passes pending e)
  show ?case
  proof (cases "e = 0")
    case True
    then show ?thesis by (simp add: walk_back.simps)
  next
    case False
    obtain e' moved where s: "sweep_back passes pending e = (e', moved)" by fastforce
    show ?thesis
    proof (cases moved)
      case True
      with False s have "walk_back passes pending e = walk_back passes pending e'" by (simp add: walk_back.simps [of _ _ e])
      with 1 [OF False s [symmetric] True] sweep_back_le [OF s] show ?thesis by simp
    next
      case still: False
      with False s have w: "walk_back passes pending e = e'" by (simp add: walk_back.simps [of _ _ e])
      from s still have f: "fold (step_back pending) (needles passes) (e, False) = (e', False)"
        by (simp add: sweep_back_def needles_def fold_fold)
      have "q + length n \<le> e" if n: "n \<in> set (needles passes)" "q < e" "prefix n (drop q pending)" for n q
      proof -
        have st: "step_back pending n (e, False) = (e, False)" using fold_step_back_still [OF f] n(1) by blast
        have q: "q \<le> e - 1" using n(2) by simp
        then obtain p where p: "last_index pending n (e - 1) = Some p"
          using last_index_None n(3) by (cases "last_index pending n (e - 1)") blast+
        with last_index_Some [OF p] q n(3) have "q \<le> p" by (meson not_le_imp_less)
        with st p show ?thesis by (auto simp: step_back_def split: if_splits)
      qed
      with w fold_step_back_still [OF f] show ?thesis by simp
    qed
  qed
qed

subsection \<open>No needle straddles a released edge\<close>

definition straddles :: "'a list \<Rightarrow> 'a list \<Rightarrow> 'a list \<Rightarrow> bool" where
  "straddles n u v \<longleftrightarrow> (\<exists>p s. p \<noteq> [] \<and> s \<noteq> [] \<and> n = p @ s \<and> suffix p u \<and> prefix s v)"

text \<open>Whatever arrives later.\<close>

definition settled_edge :: "'a redaction_pass list \<Rightarrow> 'a list \<Rightarrow> 'a list \<Rightarrow> bool" where
  "settled_edge passes u v \<longleftrightarrow> (\<forall>n \<in> set (needles passes). \<forall>w. \<not> straddles n u (v @ w))"

lemma walk_back_edge:
  fixes pending :: "'a list" and passes :: "'a redaction_pass list"
  defines "e \<equiv> walk_back passes pending (length pending - partial_tail passes pending)"
  shows "settled_edge passes (take e pending) (drop e pending)"
  unfolding settled_edge_def
proof (intro ballI allI notI)
  fix n w
  assume n: "n \<in> set (needles passes)" and "straddles n (take e pending) (drop e pending @ w)"
  then obtain p s where ps: "p \<noteq> []" "s \<noteq> []" "n = p @ s" "suffix p (take e pending)" "prefix s (drop e pending @ w)"
    by (auto simp: straddles_def)
  obtain z where z: "take e pending = z @ p" using ps(4) by (auto simp: suffix_def)
  have le: "e \<le> length pending - partial_tail passes pending"
    unfolding e_def using walk_back_stops by blast
  then have len: "length z + length p = e" using arg_cong [OF z, of length] by simp
  have d: "drop (length z) pending = p @ drop e pending"
    using z len by (metis append_take_drop_id append.assoc append_eq_conv_conj)
  show False
  proof (cases "length s \<le> length (drop e pending)")
    case True
    then have "prefix s (drop e pending)" by (intro prefix_length_prefix [OF ps(5)]) simp_all
    with d ps(3) have "prefix n (drop (length z) pending)" by (simp add: same_prefix_prefix)
    moreover have "length z < e" using len ps(1) by (cases p) auto
    ultimately have "length z + length n \<le> e" unfolding e_def using walk_back_stops n by blast
    with len ps(2,3) show False by (cases s) auto
  next
    case False
    then have "strict_prefix (drop e pending) s"
      using ps(5) by (metis nat_le_linear prefix_length_prefix prefixI prefix_length_le prefix_order.less_le)
    then have "strict_prefix (p @ drop e pending) n" using ps(3) by (simp add: strict_prefix_def)
    moreover have "suffix (p @ drop e pending) pending" using d by (metis suffix_drop)
    ultimately have "grows_from pending n (p @ drop e pending)" using ps(1) by (simp add: grows_from_def)
    from partial_tail_holds [OF n this] have "length p + (length pending - e) \<le> partial_tail passes pending" by simp
    with le len ps(1) show False by (cases p) auto
  qed
qed

lemma straddles_Nil [simp]: "\<not> straddles n [] v" "\<not> straddles n u []"
  by (auto simp: straddles_def)

lemma settled_edge_future: "settled_edge passes u v \<Longrightarrow> settled_edge passes u (v @ w)"
  by (auto simp: settled_edge_def)

text \<open>The edge between all that was released and the carry, pushed on.\<close>

lemma settled_edge_append:
  assumes "settled_edge passes sent (u @ v)" and "settled_edge passes u v"
  shows "settled_edge passes (sent @ u) v"
  unfolding settled_edge_def
proof (intro ballI allI notI)
  fix n w
  assume n: "n \<in> set (needles passes)" "straddles n (sent @ u) (v @ w)"
  then obtain p s where ps: "p \<noteq> []" "s \<noteq> []" "n = p @ s" "suffix p (sent @ u)" "prefix s (v @ w)"
    by (auto simp: straddles_def)
  show False
  proof (cases "suffix p u")
    case True
    with ps assms(2) n(1) show False by (auto simp: settled_edge_def straddles_def)
  next
    case False
    with ps(4) obtain p' where p': "p = p' @ u" "suffix p' sent"
      by (auto simp: suffix_append)
    with False have "p' \<noteq> []" by auto
    with ps p' have "straddles n sent (u @ v @ w)" by (auto simp: straddles_def)
    with assms(1) n(1) show False by (auto simp: settled_edge_def)
  qed
qed

text \<open>What a push does: releases the redaction of a piece whose edge is settled, and carries the rest.\<close>

lemma push_pieces:
  assumes "push passes carry body = (out, carry')" and "passes \<noteq> []"
  shows "\<exists>u. carry @ body = u @ carry' \<and> out = (if u = [] then [] else apply_passes u passes) \<and> settled_edge passes u carry'"
proof -
  obtain pending where p: "carry @ body = pending" by blast
  let ?e = "walk_back passes pending (length pending - partial_tail passes pending)"
  have push: "push passes carry body =
      (if ?e = 0 then ([], pending) else (apply_passes (take ?e pending) passes, drop ?e pending))"
    using assms(2) by (simp add: push_def p Let_def)
  have e: "settled_edge passes (take ?e pending) (drop ?e pending)" by (rule walk_back_edge)
  have "?e \<le> length pending" by (rule order_trans [OF conjunct1 [OF walk_back_stops]]) simp
  then have "take ?e pending = [] \<Longrightarrow> ?e = 0" by (cases pending) auto
  with push assms(1) e p show ?thesis
    by (intro exI [of _ "take ?e pending"]) (auto split: if_splits)
qed

text \<open>The pieces of a streamed body, no needle across two of them.\<close>

definition redact_piece :: "'a redaction_pass list \<Rightarrow> 'a list \<Rightarrow> 'a list" where
  "redact_piece passes u = (if u = [] then [] else apply_passes u passes)"

fun pieces_whole :: "'a redaction_pass list \<Rightarrow> 'a list \<Rightarrow> 'a list list \<Rightarrow> bool" where
  "pieces_whole passes sent [] \<longleftrightarrow> True"
| "pieces_whole passes sent (u # us) \<longleftrightarrow>
     (\<forall>n \<in> set (needles passes). \<not> straddles n sent (concat (u # us))) \<and> pieces_whole passes (sent @ u) us"

lemma stream_pieces:
  assumes "passes \<noteq> []" and "settled_edge passes sent carry"
  shows "\<exists>us. concat us = carry @ concat chunks \<and> stream passes carry chunks = concat (map (redact_piece passes) us) \<and>
    pieces_whole passes sent us"
  using assms(2)
proof (induction chunks arbitrary: sent carry)
  case Nil
  then have "pieces_whole passes sent [carry]"
    using settled_edge_def [of passes sent carry] by (metis append_Nil2 concat.simps pieces_whole.simps)
  then show ?case by (intro exI [of _ "[carry]"]) (simp add: flush_def redact_piece_def)
next
  case (Cons chunk chunks)
  obtain out carry' where p: "push passes carry chunk = (out, carry')" by fastforce
  from push_pieces [OF p assms(1)] obtain u where
    u: "carry @ chunk = u @ carry'" "out = redact_piece passes u" "settled_edge passes u carry'"
    by (auto simp: redact_piece_def)
  have "settled_edge passes sent (u @ carry')" using settled_edge_future [OF Cons.prems, of chunk] u(1) by simp
  from Cons.IH [OF settled_edge_append [OF this u(3)]] obtain us where
    us: "concat us = carry' @ concat chunks" "stream passes carry' chunks = concat (map (redact_piece passes) us)"
      "pieces_whole passes (sent @ u) us" by blast
  have "concat (u # us) = carry @ chunk @ concat chunks" using u(1) us(1) by simp
  moreover from this have "\<not> straddles n sent (concat (u # us))" if "n \<in> set (needles passes)" for n
    using Cons.prems that by (simp add: settled_edge_def)
  ultimately show ?case using us u(2) p by (intro exI [of _ "u # us"]) simp
qed

lemma pieces_whole_split:
  "pieces_whole passes sent (us1 @ us2) \<Longrightarrow> n \<in> set (needles passes) \<Longrightarrow> \<not> straddles n (sent @ concat us1) (concat us2)"
proof (induction us1 arbitrary: sent)
  case Nil
  then show ?case by (cases us2) auto
next
  case (Cons u us1)
  then show ?case using Cons.IH [of "sent @ u"] by simp
qed

text \<open>
  For any way a body is chopped into chunks, what is released is the redaction of pieces that make
  up the body, and no needle of the body lies across two pieces: every occurrence of every spelling
  of every secret is inside one piece, whole, when the piece is redacted.
\<close>

theorem streaming_splits_no_needle:
  "\<exists>us. concat us = concat chunks \<and>
     stream passes [] chunks = concat (map (\<lambda>u. if u = [] then [] else apply_passes u passes) us) \<and>
     (\<forall>us1 us2. us = us1 @ us2 \<longrightarrow> (\<forall>n \<in> set (needles passes). \<not> straddles n (concat us1) (concat us2)))"
proof (cases "passes = []")
  case True
  have "stream [] [] chunks = concat chunks"
    by (induction chunks) (simp_all add: flush_def push_def)
  with True show ?thesis
    by (intro exI [of _ "[concat chunks]"]) (auto simp: apply_passes_def needles_def)
next
  case False
  have "settled_edge passes [] []" by (simp add: settled_edge_def)
  from stream_pieces [OF False this, of chunks] obtain us where
    us: "concat us = concat chunks" "stream passes [] chunks = concat (map (redact_piece passes) us)"
      "pieces_whole passes [] us" by auto
  moreover have "redact_piece passes = (\<lambda>u. if u = [] then [] else apply_passes u passes)"
    by (simp add: redact_piece_def fun_eq_iff)
  ultimately show ?thesis
    using pieces_whole_split [of passes "[]"] by (intro exI [of _ us]) auto
qed

subsection \<open>Redaction in pieces\<close>

lemma replace_from_Nil [simp]: "replace_from n m [] = []"
  by (simp add: replace_from.simps)

lemma replace_from_hit: "n \<noteq> [] \<Longrightarrow> replace_from n m (n @ xs) = m @ replace_from n m xs"
  by (cases n; simp; subst replace_from.simps; simp)

lemma replace_from_miss: "n \<noteq> [] \<Longrightarrow> \<not> prefix n (x # xs) \<Longrightarrow> replace_from n m (x # xs) = x # replace_from n m xs"
  by (simp add: replace_from.simps [of n m "x # xs"])

lemma replace_from_cases [case_names Nil hit miss]:
  assumes "n \<noteq> []" and "P []" and "\<And>xs. P xs \<Longrightarrow> P (n @ xs)"
    and "\<And>x xs. \<not> prefix n (x # xs) \<Longrightarrow> P xs \<Longrightarrow> P (x # xs)"
  shows "P body"
proof (induction "length body" arbitrary: body rule: less_induct)
  case less
  show ?case
  proof (cases "prefix n body")
    case True
    then obtain xs where "body = n @ xs" by (auto elim: prefixE)
    with less assms(1,3) show ?thesis by simp
  next
    case False
    with less assms(2,4) show ?thesis by (cases body) auto
  qed
qed

lemma straddles_suffix: "straddles n u v \<Longrightarrow> straddles n (z @ u) v"
  by (auto simp: straddles_def suffix_appendI)

lemma replace_from_append:
  assumes "n \<noteq> []"
  shows "\<not> straddles n u v \<Longrightarrow> replace_from n m (u @ v) = replace_from n m u @ replace_from n m v"
proof (induction u rule: replace_from_cases [OF assms])
  case (2 xs)
  then have "\<not> straddles n xs v" using straddles_suffix by blast
  with 2(1) show ?case by (simp add: replace_from_hit [OF assms])
next
  case (3 x xs)
  have "\<not> prefix n ((x # xs) @ v)"
  proof
    assume p: "prefix n ((x # xs) @ v)"
    with 3(1) have "strict_prefix (x # xs) n" by (metis prefix_append prefix_order.less_le prefixI)
    then obtain s where "n = (x # xs) @ s" "s \<noteq> []" by (auto elim: strict_prefixE')
    with p have "straddles n (x # xs) v" unfolding straddles_def by (intro exI [of _ "x # xs"] exI [of _ s]) simp
    with 3(3) show False by simp
  qed
  moreover have "\<not> straddles n xs v" using 3(3) straddles_suffix [of n xs v "[x]"] by auto
  ultimately show ?case using 3(1,2) by (simp add: replace_from_miss [OF assms])
qed simp

subsection \<open>Markers in brackets\<close>

text \<open>
  A marker opens with \<open>lb\<close> and closes with \<open>rb\<close>; the needles hold neither. Then what a replacement
  writes can neither complete a needle nor break one.
\<close>

definition bracketed :: "'a \<Rightarrow> 'a \<Rightarrow> 'a list \<Rightarrow> bool" where
  "bracketed lb rb m \<longleftrightarrow> prefix [lb] m \<and> suffix [rb] m"

definition bracket_free :: "'a \<Rightarrow> 'a \<Rightarrow> 'a list \<Rightarrow> bool" where
  "bracket_free lb rb n \<longleftrightarrow> lb \<notin> set n \<and> rb \<notin> set n"

lemma replace_from_unclosed:
  assumes "n \<noteq> []" and "suffix [rb] m"
  shows "rb \<notin> set (replace_from n m u) \<Longrightarrow> replace_from n m u = u"
proof (induction u rule: replace_from_cases [OF assms(1)])
  case (2 xs)
  have "rb \<in> set m" using assms(2) by (auto simp: suffix_def)
  with 2(2) show ?case by (simp add: replace_from_hit [OF assms(1)])
qed (auto simp: replace_from_miss [OF assms(1)])

lemma suffix_last: "suffix p m \<Longrightarrow> p \<noteq> [] \<Longrightarrow> suffix [b] m \<Longrightarrow> b \<in> set p"
  by (auto simp: suffix_def append_eq_append_conv2 Cons_eq_append_conv append_eq_Cons_conv)

lemma suffix_append_cut: "suffix p (u @ v) \<Longrightarrow> suffix p v \<or> (\<exists>q. q \<noteq> [] \<and> p = q @ v \<and> suffix q u)"
  by (auto simp: suffix_append)

lemma replace_from_suffix:
  assumes "n \<noteq> []" and "suffix [rb] m" and "rb \<notin> set p"
  shows "suffix p (replace_from n m u) \<Longrightarrow> suffix p u"
proof (induction u rule: replace_from_cases [OF assms(1)])
  case (2 xs)
  have "suffix p (m @ replace_from n m xs)" using 2(2) by (simp add: replace_from_hit [OF assms(1)])
  from suffix_append_cut [OF this] show ?case
  proof
    assume "suffix p (replace_from n m xs)"
    with 2(1) show ?thesis by (simp add: suffix_appendI)
  next
    assume "\<exists>q. q \<noteq> [] \<and> p = q @ replace_from n m xs \<and> suffix q m"
    then obtain q where q: "q \<noteq> []" "p = q @ replace_from n m xs" "suffix q m" by blast
    from suffix_last [OF q(3,1) assms(2)] q(2) assms(3) show ?thesis by simp
  qed
next
  case (3 x xs)
  have r: "replace_from n m (x # xs) = x # replace_from n m xs" by (rule replace_from_miss [OF assms(1) 3(1)])
  from 3(3) consider "p = x # replace_from n m xs" | "suffix p (replace_from n m xs)"
    unfolding r suffix_Cons by blast
  then show ?case
  proof cases
    case 1
    with assms(3) have "rb \<notin> set (replace_from n m xs)" by simp
    from replace_from_unclosed [OF assms(1,2) this] 1 show ?thesis by simp
  next
    case 2
    with 3(2) show ?thesis by (simp add: suffix_ConsI)
  qed
qed simp

lemma replace_from_prefix:
  assumes "n \<noteq> []" and "prefix [lb] m"
  shows "lb \<notin> set s \<Longrightarrow> prefix s (replace_from n m v) \<Longrightarrow> prefix s v"
proof (induction v arbitrary: s rule: replace_from_cases [OF assms(1)])
  case (2 xs)
  obtain m' where "m = lb # m'" using assms(2) by (auto simp: prefix_def)
  with 2(2,3) show ?case by (cases s) (auto simp: replace_from_hit [OF assms(1)])
next
  case (3 x xs)
  from 3(2-4) show ?case
    by (cases s) (auto simp: replace_from_miss [OF assms(1) 3(1)])
qed simp

lemma straddles_replace_from:
  assumes "n' \<noteq> []" and "bracketed lb rb m" and "bracket_free lb rb n"
    and "straddles n (replace_from n' m u) (replace_from n' m v)"
  shows "straddles n u v"
proof -
  from assms(4) obtain p s where ps: "p \<noteq> []" "s \<noteq> []" "n = p @ s"
      "suffix p (replace_from n' m u)" "prefix s (replace_from n' m v)"
    by (auto simp: straddles_def)
  with assms(3) have "rb \<notin> set p" "lb \<notin> set s" by (auto simp: bracket_free_def)
  with ps assms(1,2) have "suffix p u" "prefix s v"
    by (auto simp: bracketed_def intro: replace_from_suffix replace_from_prefix)
  with ps(1-3) show ?thesis by (auto simp: straddles_def)
qed

lemma not_straddles_marker: "bracketed lb rb m \<Longrightarrow> bracket_free lb rb n \<Longrightarrow> \<not> straddles n m v"
  unfolding straddles_def bracketed_def bracket_free_def using suffix_last [of _ m rb] by auto

text \<open>A needle in the result lies in the marker or was there before.\<close>

lemma sublist_append_cut: "sublist n (u @ v) \<Longrightarrow> sublist n u \<or> sublist n v \<or> straddles n u v"
  unfolding sublist_append straddles_def by (metis append_Nil append_Nil2 prefix_imp_sublist suffix_imp_sublist)

lemma replace_from_sublist:
  assumes "n' \<noteq> []" and "bracketed lb rb m" and "bracket_free lb rb n" and "\<not> sublist n m"
  shows "sublist n (replace_from n' m u) \<Longrightarrow> sublist n u"
proof (induction u rule: replace_from_cases [OF assms(1)])
  case (2 xs)
  have "sublist n (m @ replace_from n' m xs)" using 2(2) by (simp add: replace_from_hit [OF assms(1)])
  then have "sublist n (replace_from n' m xs)"
    using sublist_append_cut not_straddles_marker [OF assms(2,3)] assms(4) by blast
  with 2(1) show ?case by (auto simp: sublist_append)
next
  case (3 x xs)
  have r: "replace_from n' m (x # xs) = x # replace_from n' m xs" by (rule replace_from_miss [OF assms(1) 3(1)])
  from 3(3) consider "prefix n (replace_from n' m (x # xs))" | "sublist n (replace_from n' m xs)"
    unfolding r sublist_Cons_right by blast
  then show ?case
  proof cases
    case 1
    have "prefix [lb] m" "lb \<notin> set n" using assms(2,3) by (simp_all add: bracketed_def bracket_free_def)
    from replace_from_prefix [OF assms(1) this 1] show ?thesis by (rule prefix_imp_sublist)
  next
    case 2
    with 3(2) show ?thesis by (simp add: sublist_Cons_right)
  qed
qed simp

text \<open>And the replaced needle itself is gone.\<close>

lemma replace_from_gone:
  assumes "n \<noteq> []" and "bracketed lb rb m" and "bracket_free lb rb n" and "\<not> sublist n m"
  shows "\<not> sublist n (replace_from n m u)"
proof (induction u rule: replace_from_cases [OF assms(1)])
  case 1
  with assms(1) show ?case by simp
next
  case (2 xs)
  with assms(4) sublist_append_cut not_straddles_marker [OF assms(2,3)]
  show ?case by (auto simp: replace_from_hit [OF assms(1)])
next
  case (3 x xs)
  have "\<not> prefix n (x # replace_from n m xs)"
    using 3(1) replace_from_prefix [of n lb m n "x # xs"] assms
    by (auto simp: replace_from_miss [OF assms(1) 3(1)] bracketed_def bracket_free_def)
  with 3(2) show ?case by (simp add: replace_from_miss [OF assms(1) 3(1)] sublist_Cons_right)
qed

subsection \<open>All the passes\<close>

text \<open>Passes whose needles are non-empty and hold no bracket, whose markers hold none of the needles.\<close>

definition well_marked :: "'a \<Rightarrow> 'a \<Rightarrow> 'a redaction_pass list \<Rightarrow> bool" where
  "well_marked lb rb passes \<longleftrightarrow>
     (\<forall>pass \<in> set passes. bracketed lb rb (rp_marker pass)) \<and>
     (\<forall>n \<in> set (needles passes). n \<noteq> [] \<and> bracket_free lb rb n)"

definition rewrite_list :: "'a redaction_pass list \<Rightarrow> ('a list \<times> 'a list) list" where
  "rewrite_list passes = concat (map (\<lambda>pass. map (\<lambda>n. (n, rp_marker pass)) (rp_needles pass)) passes)"

definition rewrite_text :: "'a list \<times> 'a list \<Rightarrow> 'a list \<Rightarrow> 'a list" where
  "rewrite_text = (\<lambda>(n, m) u. replace_all n m u)"

lemma apply_passes_rewrite: "apply_passes body passes = fold rewrite_text (rewrite_list passes) body"
proof -
  have "apply_pass pass u = fold rewrite_text (map (\<lambda>n. (n, rp_marker pass)) (rp_needles pass)) u" for pass u
    by (simp add: apply_pass_def rewrite_text_def fold_map comp_def)
  then have "apply_passes body passes = fold (\<lambda>pass. fold rewrite_text (map (\<lambda>n. (n, rp_marker pass)) (rp_needles pass))) passes body"
    unfolding apply_passes_def by (metis (no_types, lifting) ext)
  then show ?thesis by (simp add: fold_fold rewrite_list_def)
qed

lemma rewrite_list_needles: "map fst (rewrite_list passes) = needles passes"
  by (simp add: rewrite_list_def needles_def map_concat comp_def)

definition neat_rewrites :: "'a \<Rightarrow> 'a \<Rightarrow> ('a list \<times> 'a list) list \<Rightarrow> bool" where
  "neat_rewrites lb rb rs \<longleftrightarrow> (\<forall>(n, m) \<in> set rs. n \<noteq> [] \<and> bracket_free lb rb n \<and> bracketed lb rb m)"

lemma neat_rewrites_Cons [simp]: "neat_rewrites lb rb ((n, m) # rs) \<longleftrightarrow>
    n \<noteq> [] \<and> bracket_free lb rb n \<and> bracketed lb rb m \<and> neat_rewrites lb rb rs"
  by (simp add: neat_rewrites_def)

lemma well_marked_rewrite: "well_marked lb rb passes \<Longrightarrow> neat_rewrites lb rb (rewrite_list passes)"
  by (auto simp: well_marked_def neat_rewrites_def rewrite_list_def needles_def)

lemma rewrite_text_eq: "n \<noteq> [] \<Longrightarrow> rewrite_text (n, m) u = replace_from n m u"
  by (simp add: rewrite_text_def replace_all_def)

lemma fold_rewrite_append:
  "neat_rewrites lb rb rs \<Longrightarrow> \<forall>n \<in> fst ` set rs. \<not> straddles n u v \<Longrightarrow>
     fold rewrite_text rs (u @ v) = fold rewrite_text rs u @ fold rewrite_text rs v"
proof (induction rs arbitrary: u v)
  case (Cons r rs)
  obtain n m where r: "r = (n, m)" by fastforce
  with Cons.prems have nm: "n \<noteq> []" "bracketed lb rb m" and rs: "neat_rewrites lb rb rs" and n: "\<not> straddles n u v"
    by simp_all
  have "\<not> straddles n' (replace_from n m u) (replace_from n m v)" if "n' \<in> fst ` set rs" for n'
  proof -
    from that rs have "bracket_free lb rb n'" by (auto simp: neat_rewrites_def)
    with straddles_replace_from [OF nm this] Cons.prems(2) that show ?thesis by auto
  qed
  with Cons.IH [OF rs, of "replace_from n m u" "replace_from n m v"]
  show ?case by (simp add: r rewrite_text_eq [OF nm(1)] replace_from_append [OF nm(1) n])
qed simp

lemma apply_passes_append:
  assumes "well_marked lb rb passes" and "\<And>n. n \<in> set (needles passes) \<Longrightarrow> \<not> straddles n u v"
  shows "apply_passes (u @ v) passes = apply_passes u passes @ apply_passes v passes"
  unfolding apply_passes_rewrite using assms
  by (intro fold_rewrite_append [OF well_marked_rewrite]) (simp_all flip: rewrite_list_needles)

lemma fold_rewrite_Nil: "neat_rewrites lb rb rs \<Longrightarrow> fold rewrite_text rs [] = []"
  by (induction rs) (auto simp: rewrite_text_eq)

lemma apply_passes_Nil: "well_marked lb rb passes \<Longrightarrow> apply_passes [] passes = []"
  unfolding apply_passes_rewrite using well_marked_rewrite by (rule fold_rewrite_Nil)

lemma pieces_redacted:
  assumes "well_marked lb rb passes"
  shows "pieces_whole passes sent us \<Longrightarrow> concat (map (redact_piece passes) us) = apply_passes (concat us) passes"
proof (induction us arbitrary: sent)
  case Nil
  then show ?case using apply_passes_Nil [OF assms] by simp
next
  case (Cons u us)
  have "\<not> straddles n u (concat us)" if "n \<in> set (needles passes)" for n
    using Cons.prems that straddles_suffix [of n u "concat us" sent] by (cases us) auto
  then have "apply_passes (u @ concat us) passes = apply_passes u passes @ apply_passes (concat us) passes"
    by (rule apply_passes_append [OF assms])
  with Cons.IH [of "sent @ u"] Cons.prems show ?case
    by (auto simp: redact_piece_def apply_passes_Nil [OF assms])
qed

text \<open>Streaming is redacting the whole.\<close>

lemma stream_whole:
  assumes "well_marked lb rb passes"
  shows "stream passes [] chunks = apply_passes (concat chunks) passes"
proof (cases "passes = []")
  case True
  have "stream [] [] chunks = concat chunks"
    by (induction chunks) (simp_all add: flush_def push_def)
  with True show ?thesis by (simp add: apply_passes_def)
next
  case False
  have "settled_edge passes [] []" by (simp add: settled_edge_def)
  from stream_pieces [OF False this, of chunks] pieces_redacted [OF assms] show ?thesis by auto
qed

lemma fold_rewrite_gone:
  assumes "bracket_free lb rb k"
  shows "neat_rewrites lb rb rs \<Longrightarrow> \<forall>m \<in> snd ` set rs. \<not> sublist k m \<Longrightarrow> k \<in> fst ` set rs \<or> \<not> sublist k u \<Longrightarrow>
    \<not> sublist k (fold rewrite_text rs u)"
proof (induction rs arbitrary: u)
  case (Cons r rs)
  obtain n m where r: "r = (n, m)" by fastforce
  with Cons.prems have nm: "n \<noteq> []" "bracketed lb rb m" and rs: "neat_rewrites lb rb rs" and k: "\<not> sublist k m"
    by simp_all
  have "k = n \<or> \<not> sublist k u \<Longrightarrow> \<not> sublist k (replace_from n m u)"
    using replace_from_gone [OF nm] replace_from_sublist [OF nm assms k] assms k by blast
  with Cons.IH [OF rs, of "replace_from n m u"] Cons.prems(2,3)
  show ?case by (auto simp: r rewrite_text_eq [OF nm(1)])
qed simp

text \<open>No needle that no marker holds survives.\<close>

lemma apply_passes_gone:
  assumes "well_marked lb rb passes" and "n \<in> set (needles passes)"
    and "\<And>pass. pass \<in> set passes \<Longrightarrow> \<not> sublist n (rp_marker pass)"
  shows "\<not> sublist n (apply_passes body passes)"
  unfolding apply_passes_rewrite
proof (rule fold_rewrite_gone [OF _ well_marked_rewrite [OF assms(1)]])
  show "bracket_free lb rb n" using assms(1,2) by (simp add: well_marked_def)
  show "\<forall>m \<in> snd ` set (rewrite_list passes). \<not> sublist n m" using assms(3) by (auto simp: rewrite_list_def)
  show "n \<in> fst ` set (rewrite_list passes) \<or> \<not> sublist n body"
    using assms(2) by (simp flip: rewrite_list_needles)
qed

lemma find_secret_None:
  "find_secret body passes = None \<longleftrightarrow> (\<forall>n \<in> set (needles passes). \<not> sublist n body)"
  by (auto simp: find_secret_def find_None_iff needles_def list_ex_iff)

end
