(* ===== verification/Redact_Secrets.thy ===== *)
theory Redact_Secrets
  imports Redact_Stream Json
begin

text \<open>
  The guarantees of redaction for the spellings the code generates. The markers' brackets are U+005B
  and U+005D. Every spelling of a value that is not empty and holds no bracket is itself not empty
  and holds no bracket, so the passes built from such values are \<open>well_marked\<close>: streaming a body in
  any chunks is redacting it whole, and no spelling is left that no marker spells.
\<close>

subsection \<open>No spelling brings a bracket\<close>

abbreviation plain :: "js_text \<Rightarrow> bool" where
  "plain \<equiv> bracket_free 0x5B 0x5D"

lemma plain_simps [simp]:
  "plain []"
  "plain (u # us) \<longleftrightarrow> u \<noteq> 0x5B \<and> u \<noteq> 0x5D \<and> plain us"
  "plain (us @ vs) \<longleftrightarrow> plain us \<and> plain vs"
  by (auto simp: bracket_free_def)

lemma plain_concat: "plain (concat uss) \<longleftrightarrow> (\<forall>us \<in> set uss. plain us)"
  by (induction uss) auto

lemma plain_subset: "plain us \<Longrightarrow> set vs \<subseteq> set us \<Longrightarrow> plain vs"
  by (auto simp: bracket_free_def)

lemma set_js: "set (js s) = of_char ` set s"
  by (simp add: js_def)

lemma unat_unit_of: "unat (unit_of c) = of_char c"
proof -
  have "unit_of c = of_nat (of_char c)" by (simp only: of_nat_of_char)
  moreover have "(of_char c :: nat) < 2 ^ LENGTH(16)" by (rule less_trans [OF of_char_lt_256]) simp
  ultimately show ?thesis by (simp only: unat_of_nat mod_less)
qed

lemma unit_of_eq_iff: "unit_of c = unit_of d \<longleftrightarrow> c = d"
proof
  assume "unit_of c = unit_of d"
  then have "unat (unit_of c) = unat (unit_of d)" by (rule arg_cong)
  then show "c = d" by (simp add: unat_unit_of)
qed simp

lemma plain_js: "plain (js s) \<longleftrightarrow> CHR ''['' \<notin> set s \<and> CHR '']'' \<notin> set s"
proof -
  have inj: "inj (of_char :: char \<Rightarrow> unit16)" by (intro injI) (simp add: unit_of_eq_iff)
  show ?thesis
    using inj_image_mem_iff [OF inj, of "CHR ''[''" "set s"] inj_image_mem_iff [OF inj, of "CHR '']''" "set s"]
    by (simp add: bracket_free_def set_js)
qed

lemma set_replace_from:
  assumes "n \<noteq> []"
  shows "set (replace_from n m us) \<subseteq> set m \<union> set us"
proof (induction us rule: replace_from_cases [OF assms])
  case (2 xs)
  then show ?case by (auto simp: replace_from_hit [OF assms])
next
  case (3 x xs)
  then show ?case by (auto simp: replace_from_miss [OF assms])
qed simp

lemma plain_replace_all: "n \<noteq> [] \<Longrightarrow> plain m \<Longrightarrow> plain us \<Longrightarrow> plain (replace_all n m us)"
  using set_replace_from [of n m us] by (auto simp: replace_all_def bracket_free_def)

lemma replace_all_nonempty: "n \<noteq> [] \<Longrightarrow> m \<noteq> [] \<Longrightarrow> us \<noteq> [] \<Longrightarrow> replace_all n m us \<noteq> []"
  by (cases us; cases "prefix n us")
    (auto simp: replace_all_def replace_from_miss replace_from_hit elim!: prefixE)

subsubsection \<open>Base64\<close>

lemma high_surrogate_bounds: "high_surrogate u \<Longrightarrow> 0xD800 \<le> unat u \<and> unat u \<le> 0xDBFF"
  by (simp add: high_surrogate_def word_le_nat_alt)

lemma low_surrogate_bounds: "low_surrogate u \<Longrightarrow> 0xDC00 \<le> unat u \<and> unat u \<le> 0xDFFF"
  by (simp add: low_surrogate_def word_le_nat_alt)

lemma surrogate_pair_less: "high_surrogate u \<Longrightarrow> low_surrogate w \<Longrightarrow> surrogate_pair u w < 0x110000"
proof -
  assume a: "high_surrogate u" "low_surrogate w"
  have "unat u - 0xD800 \<le> 0x3FF" using high_surrogate_bounds [OF a(1)] by linarith
  then have "(unat u - 0xD800) * 0x400 \<le> 0x3FF * 0x400" by (rule mult_le_mono1)
  with low_surrogate_bounds [OF a(2)] show ?thesis by (simp add: surrogate_pair_def)
qed

lemma code_points_bound: "Some c \<in> set (code_points us) \<Longrightarrow> c < 0x110000"
proof (induction us rule: code_points.induct)
  case (2 u us)
  have u: "unat u < 0x110000" using unsigned_less [of u, where ?'a = nat] by simp
  show ?case
  proof (cases "high_surrogate u")
    case True
    with 2 surrogate_pair_less [OF True] show ?thesis by (cases us) (auto split: if_splits)
  next
    case False
    with 2 u show ?thesis by (auto split: if_splits)
  qed
qed simp

lemma utf8_of_bytes: "c < 0x110000 \<Longrightarrow> b \<in> set (utf8_of c) \<Longrightarrow> b < 256"
  by (auto simp: utf8_of_def split: if_splits)

lemma utf8_of_nonempty [simp]: "utf8_of c \<noteq> []"
  by (simp add: utf8_of_def)

lemma utf8_bytes_bound: "b \<in> set (utf8_bytes us) \<Longrightarrow> b < 256"
proof -
  assume "b \<in> set (utf8_bytes us)"
  then obtain c where c: "c \<in> set (code_points us)" "b \<in> set (utf8_of (case c of None \<Rightarrow> 0xFFFD | Some n \<Rightarrow> n))"
    by (auto simp: utf8_bytes_def)
  moreover have "(case c of None \<Rightarrow> 0xFFFD | Some n \<Rightarrow> n) < 0x110000"
    using c(1) code_points_bound by (auto split: option.splits)
  ultimately show "b < 256" using utf8_of_bytes by blast
qed

lemma code_points_nonempty: "us \<noteq> [] \<Longrightarrow> code_points us \<noteq> []"
  by (cases us) (auto split: list.splits)

lemma utf8_bytes_nonempty: "us \<noteq> [] \<Longrightarrow> utf8_bytes us \<noteq> []"
  using code_points_nonempty [of us] by (cases "code_points us") (auto simp: utf8_bytes_def)

lemma set_base64_with:
  "length abc = 64 \<Longrightarrow> \<forall>b \<in> set bs. b < 256 \<Longrightarrow> set (base64_with abc pad bs) \<subseteq> set abc \<union> set pad"
proof (induction abc pad bs rule: base64_with.induct)
  case (1 abc pad a b c bs)
  have i: "a mod 4 * 16 + b div 16 < 64" "b mod 16 * 4 + c div 64 < 64" "a div 4 < 64" "c mod 64 < 64"
    using 1(3) mod_less_divisor [of 4 a] mod_less_divisor [of 16 b] by simp_all linarith+
  with 1(2) have "{abc ! (a div 4), abc ! (a mod 4 * 16 + b div 16), abc ! (b mod 16 * 4 + c div 64), abc ! (c mod 64)} \<subseteq> set abc"
    by simp
  with 1 show ?case by auto
next
  case (2 abc pad a b)
  have "a mod 4 * 16 + b div 16 < 64" "b mod 16 * 4 < 64" "a div 4 < 64"
    using 2(2) mod_less_divisor [of 4 a] mod_less_divisor [of 16 b] by simp_all linarith+
  with 2 show ?case by auto
next
  case (3 abc pad a)
  have "a mod 4 * 16 < 64" "a div 4 < 64" using 3(2) mod_less_divisor [of 4 a] by simp_all
  with 3 show ?case by auto
qed simp

lemma base64_with_hd: "length abc = 64 \<Longrightarrow> \<forall>b \<in> set bs. b < 256 \<Longrightarrow> bs \<noteq> [] \<Longrightarrow>
    base64_with abc pad bs \<noteq> [] \<and> hd (base64_with abc pad bs) \<in> set abc"
  by (induction abc pad bs rule: base64_with.induct) auto

lemma plain_base64: "plain (base64 us)" "plain (base64url us)"
proof -
  have "set (base64_with base64_alphabet ''='' (utf8_bytes us)) \<subseteq> set base64_alphabet \<union> set ''=''"
    using utf8_bytes_bound by (intro set_base64_with) (auto simp: base64_alphabet_def)
  moreover have "CHR ''['' \<notin> set base64_alphabet" "CHR '']'' \<notin> set base64_alphabet"
    by (simp_all add: base64_alphabet_def)
  ultimately show "plain (base64 us)" by (auto simp: base64_def plain_js)
  have "set (base64_with base64url_alphabet [] (utf8_bytes us)) \<subseteq> set base64url_alphabet \<union> set []"
    using utf8_bytes_bound by (intro set_base64_with) (auto simp: base64url_alphabet_def)
  moreover have "CHR ''['' \<notin> set base64url_alphabet" "CHR '']'' \<notin> set base64url_alphabet"
    by (simp_all add: base64url_alphabet_def)
  ultimately show "plain (base64url us)" by (auto simp: base64url_def plain_js)
qed

text \<open>The first character is a letter of the alphabet, so stripping the padding leaves it.\<close>

definition padded :: "js_text \<Rightarrow> bool" where
  "padded us \<longleftrightarrow> us \<noteq> [] \<and> hd us \<noteq> unit_of CHR ''=''"

lemma padded_base64: "us \<noteq> [] \<Longrightarrow> padded (base64 us)" "us \<noteq> [] \<Longrightarrow> padded (base64url us)"
proof -
  assume us: "us \<noteq> []"
  have js: "padded (js s)" if "s \<noteq> [] \<and> hd s \<in> set abc" "CHR ''='' \<notin> set abc" for s abc
    using that unit_of_eq_iff [of _ "CHR ''=''"] by (cases s) (auto simp: padded_def js_def)
  have "length base64_alphabet = 64" "CHR ''='' \<notin> set base64_alphabet" by (simp_all add: base64_alphabet_def)
  with base64_with_hd [OF this(1), of "utf8_bytes us" "''=''"] show "padded (base64 us)"
    using utf8_bytes_bound utf8_bytes_nonempty [OF us] by (auto simp: base64_def intro!: js)
  have "length base64url_alphabet = 64" "CHR ''='' \<notin> set base64url_alphabet" by (simp_all add: base64url_alphabet_def)
  with base64_with_hd [OF this(1), of "utf8_bytes us" "[]"] show "padded (base64url us)"
    using utf8_bytes_bound utf8_bytes_nonempty [OF us] by (auto simp: base64url_def intro!: js)
qed

lemma strip_padding_nonempty: "padded us \<Longrightarrow> strip_padding us \<noteq> []"
  by (cases us rule: rev_cases; cases "butlast us" rule: rev_cases)
    (auto simp: strip_padding_def padded_def suffix_def butlast_append append_eq_Cons_conv)

lemma plain_strip_padding: "plain us \<Longrightarrow> plain (strip_padding us)"
  by (erule plain_subset) (auto simp: strip_padding_def dest: in_set_butlastD)

subsubsection \<open>Percent encoding\<close>

lemma hex_upper_plain: "i < 16 \<Longrightarrow> hex_upper ! i \<in> set hex_upper"
  by (rule nth_mem) (simp add: hex_upper_def)

lemma plain_percent_byte: "b < 256 \<Longrightarrow> plain (js (percent_byte b))"
proof -
  assume "b < 256"
  then have "hex_upper ! (b div 16) \<in> set hex_upper" "hex_upper ! (b mod 16) \<in> set hex_upper"
    by (auto intro: hex_upper_plain)
  moreover have "CHR ''['' \<notin> set hex_upper" "CHR '']'' \<notin> set hex_upper" by (simp_all add: hex_upper_def)
  ultimately show ?thesis unfolding plain_js percent_byte_def by auto
qed

lemma js_concat: "js (concat ss) = concat (map js ss)"
  by (induction ss) simp_all

lemma char_of_eq: "(c :: nat) < 256 \<Longrightarrow> char_of c = d \<Longrightarrow> c = of_char d"
  by auto

lemma plain_percent_point: "c < 0x110000 \<Longrightarrow> plain (js (percent_point c))"
proof (cases "unreserved c")
  case True
  then have "c < 256" "c \<noteq> 91" "c \<noteq> 93" by (auto simp: unreserved_def)
  with char_of_eq [of c "CHR ''[''"] char_of_eq [of c "CHR '']''"]
  have "char_of c \<noteq> CHR ''[''" "char_of c \<noteq> CHR '']''" by auto
  with True show ?thesis unfolding plain_js by (auto simp: percent_point_def)
next
  case False
  assume "c < 0x110000"
  with utf8_of_bytes [OF this] plain_percent_byte False show ?thesis
    by (auto simp: percent_point_def js_concat plain_concat)
qed

lemma plain_percent: "percent us = Some pct \<Longrightarrow> plain pct"
proof -
  assume p: "percent us = Some pct"
  then have pct: "None \<notin> set (code_points us)" "pct = js (concat (map (\<lambda>c. percent_point (the c)) (code_points us)))"
    by (auto simp: percent_def split: if_splits)
  have "plain (js (percent_point (the c)))" if "c \<in> set (code_points us)" for c
    using that pct(1) code_points_bound by (intro plain_percent_point) (cases c; auto)
  then show ?thesis by (auto simp: pct(2) js_concat plain_concat)
qed

lemma percent_nonempty: "percent us = Some pct \<Longrightarrow> us \<noteq> [] \<Longrightarrow> pct \<noteq> []"
proof -
  assume "percent us = Some pct" "us \<noteq> []"
  moreover have "percent_point c \<noteq> []" for c
    by (cases "utf8_of c") (auto simp: percent_point_def percent_byte_def dest: arg_cong [of _ _ "\<lambda>x. x = []"])
  moreover obtain c cs where "code_points us = c # cs" using code_points_nonempty [OF \<open>us \<noteq> []\<close>] by (cases "code_points us") auto
  ultimately show ?thesis by (auto simp: percent_def js_concat js_def split: if_splits)
qed

lemma unit_lower_plain: "plain [u] \<Longrightarrow> plain [unit_lower u]"
proof -
  assume "plain [u]"
  moreover have "u + 32 \<noteq> 0x5B" "u + 32 \<noteq> 0x5D" if "65 \<le> u" "u \<le> 90"
    using that by (auto simp: word_le_nat_alt add_eq_0_iff eq_diff_eq [symmetric])
  ultimately show ?thesis by (auto simp: unit_lower_def)
qed

lemma plain_lower_percents: "plain us \<Longrightarrow> plain (lower_percents us)"
  using unit_lower_plain by (induction us rule: lower_percents.induct) auto

lemma length_lower_percents [simp]: "length (lower_percents us) = length us"
  by (induction us rule: lower_percents.induct) auto

subsubsection \<open>JSON escapes\<close>

lemma hex_lower_digit: "i < 16 \<Longrightarrow> plain [unit_of (''0123456789abcdef'' ! i)]"
proof -
  assume "i < 16"
  then have "''0123456789abcdef'' ! i \<in> set ''0123456789abcdef''" by (intro nth_mem) simp
  then have "plain (js [''0123456789abcdef'' ! i])" unfolding plain_js by auto
  then show ?thesis by (simp add: js_def)
qed

lemma plain_unicode_escape [simp]: "plain (unicode_escape u)"
proof -
  have "unat u < 65536" using unsigned_less [of u, where ?'a = nat] by simp
  then have "unat u div 4096 < 16" by simp
  with hex_lower_digit show ?thesis by (simp add: unicode_escape_def hex4_def backslash_def Let_def)
qed

lemma plain_json_unit: "plain [u] \<Longrightarrow> plain (json_unit u)"
  by (simp add: json_unit_def backslash_def)

lemma plain_json_escaped: "plain us \<Longrightarrow> plain (json_escaped us)"
proof (induction us rule: json_escaped.induct)
  case (2 u us)
  then show ?case using plain_json_unit [of u] by (cases us) auto
qed simp

lemma unicode_escape_nonempty [simp]: "unicode_escape u \<noteq> []"
  by (simp add: unicode_escape_def)

lemma json_escaped_nonempty: "us \<noteq> [] \<Longrightarrow> json_escaped us \<noteq> []"
proof (induction us rule: json_escaped.induct)
  case (2 u us)
  have "json_unit u \<noteq> []" by (simp add: json_unit_def)
  then show ?case by (cases us) simp_all
qed simp

lemma unit_upper_plain: "plain [u] \<Longrightarrow> plain [unit_upper u]"
proof -
  assume "plain [u]"
  moreover have "u - 32 \<noteq> 0x5B" "u - 32 \<noteq> 0x5D" if "97 \<le> u" "u \<le> 122"
    using that by (auto simp: word_le_nat_alt diff_eq_eq)
  ultimately show ?thesis by (auto simp: unit_upper_def)
qed

lemma plain_upper_hex: "plain us \<Longrightarrow> plain (upper_hex_escapes us)"
  using unit_upper_plain by (induction us rule: upper_hex_escapes.induct) auto

lemma length_upper_hex [simp]: "length (upper_hex_escapes us) = length us"
  by (induction us rule: upper_hex_escapes.induct) auto

lemma html_safe_spelling:
  "plain us \<Longrightarrow> plain (html_safe_escapes us)" "us \<noteq> [] \<Longrightarrow> html_safe_escapes us \<noteq> []"
  unfolding html_safe_escapes_def
  by (intro plain_replace_all replace_all_nonempty; simp add: js_def backslash_def)+

subsection \<open>The passes are well marked\<close>

lemma set_first_occurrences [simp]: "set (first_occurrences xs) = set xs"
  by (induction xs) auto

lemma set_encodings: "encodings_of us = Some ns \<Longrightarrow> \<exists>pct. percent us = Some pct \<and> set ns = set (candidates us pct)"
  by (auto simp: encodings_of_def)

lemma spelling_well:
  assumes "encodings_of us = Some ns" and "n \<in> set ns" and "us \<noteq> []" and "plain us"
  shows "n \<noteq> [] \<and> plain n"
proof -
  obtain pct where pct: "percent us = Some pct" "n \<in> set (candidates us pct)"
    using set_encodings [OF assms(1)] assms(2) by auto
  have full: "plain (concat (map unicode_escape us))" "concat (map unicode_escape us) \<noteq> []"
    using assms(3) by (auto simp: plain_concat)
  have slash: "plain (replace_all (js ''/'') [backslash, unit_of CHR ''/''] v)"
      "v \<noteq> [] \<Longrightarrow> replace_all (js ''/'') [backslash, unit_of CHR ''/''] v \<noteq> []" if "plain v" for v
    using that by (intro plain_replace_all replace_all_nonempty; simp add: js_def backslash_def)+
  have up: "upper_hex_escapes v \<noteq> [] \<and> plain (upper_hex_escapes v)" if "v \<noteq> [] \<and> plain v" for v
    using that length_upper_hex [of v] plain_upper_hex [of v] by fastforce
  have pct': "pct \<noteq> [] \<and> plain pct" using percent_nonempty [OF pct(1) assms(3)] plain_percent [OF pct(1)] by simp
  then have low: "lower_percents pct \<noteq> [] \<and> plain (lower_percents pct)"
    using length_lower_percents [of pct] plain_lower_percents [of pct] by fastforce
  have json: "json_escaped us \<noteq> [] \<and> plain (json_escaped us)"
    using json_escaped_nonempty [OF assms(3)] plain_json_escaped [OF assms(4)] by simp
  have html: "html_safe_escapes (json_escaped us) \<noteq> [] \<and> plain (html_safe_escapes (json_escaped us))"
    using json html_safe_spelling by blast
  have b: "base64 us \<noteq> []" "base64url us \<noteq> []" using padded_base64 [OF assms(3)] by (simp_all add: padded_def)
  have strip: "strip_padding (base64 us) \<noteq> []" "strip_padding (base64url us) \<noteq> []"
    using padded_base64 [OF assms(3)] strip_padding_nonempty by blast+
  have "list_all (\<lambda>v. v \<noteq> [] \<and> plain v) (candidates us pct)"
    unfolding candidates_def Let_def
    using assms(3,4) b strip plain_base64 [of us] plain_strip_padding [OF plain_base64(1)]
      plain_strip_padding [OF plain_base64(2)] pct' low json html slash [of "json_escaped us"] full
      up [OF json] up [OF html] up [of "replace_all (js ''/'') [backslash, unit_of CHR ''/''] (json_escaped us)"]
      up [of "concat (map unicode_escape us)"]
    by (simp only: list.pred_inject simp_thms)
  with pct(2) show ?thesis by (simp add: list_all_iff)
qed

lemma redaction_passes_sound:
  "redaction_passes secrets = Inr passes \<Longrightarrow>
     (\<forall>pass \<in> set passes. \<exists>secret \<in> set secrets. redaction_pass_of secret = Inr pass) \<and>
     (\<forall>secret \<in> set secrets. \<exists>pass \<in> set passes. redaction_pass_of secret = Inr pass)"
  by (induction secrets arbitrary: passes) (auto split: sum.splits)

lemma redaction_pass_of_Inr:
  "redaction_pass_of secret = Inr pass \<Longrightarrow>
     sec_value secret \<noteq> [] \<and> rp_marker pass = redaction_marker (sec_name secret) \<and> encodings_of (sec_value secret) = Some (rp_needles pass)"
  by (auto simp: redaction_pass_of_def split: if_splits option.splits)

lemma bracketed_marker: "bracketed 0x5B 0x5D (redaction_marker name)"
proof -
  have "redaction_marker name = 0x5B # js (''redacted:'' @ name) @ [0x5D]"
    by (simp add: redaction_marker_def js_def)
  then show ?thesis by (simp add: bracketed_def suffix_def)
qed

lemma redaction_passes_well_marked:
  assumes "redaction_passes secrets = Inr passes" and "\<forall>secret \<in> set secrets. plain (sec_value secret)"
  shows "well_marked 0x5B 0x5D passes"
  unfolding well_marked_def
proof (intro conjI ballI)
  fix pass assume "pass \<in> set passes"
  then show "bracketed 0x5B 0x5D (rp_marker pass)"
    using redaction_passes_sound [OF assms(1)] redaction_pass_of_Inr bracketed_marker by metis
next
  fix n assume "n \<in> set (needles passes)"
  then obtain pass where pass: "pass \<in> set passes" "n \<in> set (rp_needles pass)" by (auto simp: needles_def)
  with redaction_passes_sound [OF assms(1)] obtain secret
    where s: "secret \<in> set secrets" "redaction_pass_of secret = Inr pass" by blast
  with redaction_pass_of_Inr [OF s(2)] spelling_well [OF _ pass(2)] assms(2)
  show "n \<noteq> []" "plain n" by blast+
qed

subsection \<open>What redaction guarantees\<close>

text \<open>Redaction answers unless a value is empty or has no percent encoding; then no byte is released.\<close>

lemma redact_secrets_answers:
  "(\<exists>out. redact_secrets body secrets = Inr out) \<longleftrightarrow>
     (\<forall>secret \<in> set secrets. sec_value secret \<noteq> [] \<and> percent (sec_value secret) \<noteq> None)"
proof -
  have "(\<exists>pass. redaction_pass_of secret = Inr pass) \<longleftrightarrow> sec_value secret \<noteq> [] \<and> percent (sec_value secret) \<noteq> None" for secret
    by (auto simp: redaction_pass_of_def encodings_of_def split: option.splits)
  moreover have "(\<exists>passes. redaction_passes secrets = Inr passes) \<longleftrightarrow>
      (\<forall>secret \<in> set secrets. \<exists>pass. redaction_pass_of secret = Inr pass)"
    by (induction secrets) (auto split: sum.splits)
  ultimately show ?thesis by (auto simp: redact_secrets_def split: sum.splits)
qed

text \<open>
  C37. For values without brackets, streaming is redaction: for any way a body is chopped into chunks,
  what \<open>push\<close> and \<open>flush\<close> release, put together, is the redaction of the whole body.
\<close>

theorem streaming_is_redaction:
  assumes "redaction_passes secrets = Inr passes"
    and "\<forall>secret \<in> set secrets. bracket_free 0x5B 0x5D (sec_value secret)"
  shows "redact_secrets (concat chunks) secrets = Inr (stream passes [] chunks)"
  using stream_whole [OF redaction_passes_well_marked [OF assms]] assms(1) by (simp add: redact_secrets_def)

definition demo_secret :: secret_value where
  "demo_secret = \<lparr>sec_name = ''gh'', sec_value = js ''ab''\<rparr>"

lemma demo_secret_redacted: "redact_secrets (js ''xaby'') [demo_secret] = Inr (js ''x[redacted:gh]y'')"
  by code_simp

lemma demo_secret_plain: "bracket_free 0x5B 0x5D (sec_value demo_secret)"
  by code_simp

theorem streaming_is_redaction_witness:
  "\<exists>passes. redaction_passes [demo_secret] = Inr passes \<and>
     stream passes [] [js ''xa'', js ''by''] = js ''x[redacted:gh]y''"
proof -
  obtain passes where p: "redaction_passes [demo_secret] = Inr passes"
    using demo_secret_redacted by (auto simp: redact_secrets_def split: sum.splits)
  have "concat [js ''xa'', js ''by''] = js ''xaby''" by (simp add: js_def)
  with streaming_is_redaction [OF p, of "[js ''xa'', js ''by'']"] demo_secret_plain demo_secret_redacted p
  show ?thesis by simp
qed

text \<open>The spellings the comment on \<open>encodingsOf\<close> promises to search for.\<close>

definition promised_spellings :: "js_text \<Rightarrow> js_text set" where
  "promised_spellings us =
     {us, base64 us, strip_padding (base64 us), base64url us, json_escaped us, upper_hex_escapes (json_escaped us),
      html_safe_escapes (json_escaped us), replace_all (js ''/'') [backslash, unit_of CHR ''/''] (json_escaped us),
      concat (map unicode_escape us), upper_hex_escapes (concat (map unicode_escape us))} \<union>
     set_option (percent us) \<union> lower_percents ` set_option (percent us)"

lemma promised_are_searched: "encodings_of us = Some ns \<Longrightarrow> promised_spellings us \<subseteq> set ns"
proof -
  assume "encodings_of us = Some ns"
  then obtain pct where pct: "percent us = Some pct" "set ns = set (candidates us pct)"
    using set_encodings [of us ns] by blast
  show ?thesis
    unfolding promised_spellings_def pct candidates_def Let_def option.set image_insert image_empty list.set
    by (simp only: insert_subset Un_subset_iff insert_iff empty_subsetI simp_thms)
qed

text \<open>
  C38. After redaction no spelling of any secret is left, for values without brackets and spellings that
  no marker holds: not the value, its base64 forms, its percent encodings or its JSON escapes.
\<close>

theorem no_spelling_survives:
  assumes "redact_secrets body secrets = Inr out"
    and "\<forall>secret \<in> set secrets. bracket_free 0x5B 0x5D (sec_value secret)"
    and "secret \<in> set secrets" and "spelling \<in> promised_spellings (sec_value secret)"
    and "\<forall>other \<in> set secrets. \<not> sublist spelling (redaction_marker (sec_name other))"
  shows "\<not> sublist spelling out"
proof -
  from assms(1) obtain passes where p: "redaction_passes secrets = Inr passes" "out = apply_passes body passes"
    by (auto simp: redact_secrets_def split: sum.splits)
  note sound = redaction_passes_sound [OF p(1)]
  from sound assms(3) obtain pass where "pass \<in> set passes" "redaction_pass_of secret = Inr pass" by blast
  with redaction_pass_of_Inr [of secret pass] assms(4) have n: "spelling \<in> set (needles passes)"
    using promised_are_searched [of "sec_value secret" "rp_needles pass"] by (auto simp: needles_def)
  have "\<not> sublist spelling (rp_marker pass)" if "pass \<in> set passes" for pass
    using sound that redaction_pass_of_Inr assms(5) by metis
  from apply_passes_gone [OF redaction_passes_well_marked [OF p(1) assms(2)] n this] p(2) show ?thesis by simp
qed

theorem no_spelling_survives_witness: "\<not> sublist (js ''ab'') (js ''x[redacted:gh]y'')"
proof -
  have "\<not> sublist (js ''ab'') (redaction_marker ''gh'')" by code_simp
  moreover have "js ''ab'' \<in> promised_spellings (sec_value demo_secret)"
    by (simp add: promised_spellings_def demo_secret_def)
  ultimately show ?thesis
    using no_spelling_survives [OF demo_secret_redacted, of demo_secret "js ''ab''"] demo_secret_plain
    by (simp add: demo_secret_def)
qed

subsection \<open>Where streaming and redaction part\<close>

text \<open>
  With a bracket the two differ: a needle that begins with the bracket a marker ends with matches
  across the marker's end when the whole is redacted, and not when the marker was released before
  the rest arrived. The needle is not part of the marker.
\<close>

definition bracket_passes :: "char redaction_pass list" where
  "bracket_passes =
     [\<lparr>rp_marker = ''[redacted:a]'', rp_needles = [''SECRET1'']\<rparr>,
      \<lparr>rp_marker = ''[redacted:b]'', rp_needles = ['']abc'']\<rparr>]"

lemma streaming_parts_at_marker_end:
  "apply_passes ''SECRET1abc'' bracket_passes = ''[redacted:a[redacted:b]''"
  "stream bracket_passes [] [''SECRET1'', ''abc''] = ''[redacted:a]abc''"
  "\<not> sublist '']abc'' ''[redacted:a]''"
  by code_simp+

theorem streaming_splits_no_needle_witness:
  "\<exists>us. concat us = ''SECRET1'' \<and> \<not> straddles ''SECRET1'' (concat (take 1 us)) (concat (drop 1 us))"
proof -
  have "''SECRET1'' \<in> set (needles bracket_passes)" by (simp add: needles_def bracket_passes_def)
  moreover have "concat [''SEC'', ''RET1''] = ''SECRET1''" by simp
  ultimately show ?thesis
    using streaming_splits_no_needle [where chunks = "[''SEC'', ''RET1'']" and passes = bracket_passes]
    by (metis append_take_drop_id)
qed

end
