(* ===== verification/Semaphore.thy ===== *)
theory Semaphore
  imports Prelude "HOL-Library.Sublist"
begin

text \<open>
  The counting semaphore that limits the calls in flight to one upstream
  (\<open>packages/proxy/src/semaphore.ts\<close>). A permit is inert or carries the number \<open>issue\<close> gave it, and
  the set of released numbers stands for the flag each permit closes over. A waiter is the promise
  a queued \<open>acquire\<close> returned; \<open>sm_answers\<close> is what the promises were resolved with, in order.
\<close>

datatype permit = Inert | Issued nat

record semaphore =
  sm_held :: nat
  sm_opened :: bool
  sm_queue :: "nat list"
  sm_issued :: nat
  sm_released :: "nat set"
  sm_answers :: "(nat \<times> permit option) list"

datatype acquired = Granted permit | Queued

definition new_semaphore :: semaphore where
  "new_semaphore = \<lparr>sm_held = 0, sm_opened = False, sm_queue = [], sm_issued = 0, sm_released = {}, sm_answers = []\<rparr>"

definition issue :: "semaphore \<Rightarrow> permit \<times> semaphore" where
  "issue s = (Issued (sm_issued s), s\<lparr>sm_issued := Suc (sm_issued s)\<rparr>)"

text \<open>\<open>settle\<close> and \<open>expire\<close> of a waiter: the first answer stays.\<close>

definition settled_waiter :: "nat \<Rightarrow> semaphore \<Rightarrow> bool" where
  "settled_waiter w s \<longleftrightarrow> w \<in> fst ` set (sm_answers s)"

definition settle_waiter :: "nat \<Rightarrow> permit option \<Rightarrow> semaphore \<Rightarrow> semaphore" where
  "settle_waiter w answer s =
     (if settled_waiter w s then s else s\<lparr>sm_answers := sm_answers s @ [(w, answer)]\<rparr>)"

definition release :: "permit \<Rightarrow> semaphore \<Rightarrow> semaphore" where
  "release p s =
     (case p of
        Inert \<Rightarrow> s
      | Issued i \<Rightarrow>
          if i \<in> sm_released s then s
          else let s = s\<lparr>sm_released := insert i (sm_released s)\<rparr>
            in case sm_queue s of
                next # rest \<Rightarrow>
                  let (p', s) = issue (s\<lparr>sm_queue := rest\<rparr>) in settle_waiter next (Some p') s
              | [] \<Rightarrow> s\<lparr>sm_held := sm_held s - 1\<rparr>)"

text \<open>A waiter is named by the number of its \<open>acquire\<close>.\<close>

definition acquire :: "nat \<Rightarrow> nat \<Rightarrow> semaphore \<Rightarrow> acquired \<times> semaphore" where
  "acquire limit w s =
     (if sm_opened s then (Granted Inert, s)
      else if sm_held s < limit then
        let (p, s) = issue (s\<lparr>sm_held := Suc (sm_held s)\<rparr>) in (Granted p, s)
      else (Queued, s\<lparr>sm_queue := sm_queue s @ [w]\<rparr>))"

text \<open>The waiter's timer fires: out of the queue before answering.\<close>

definition wait_over :: "nat \<Rightarrow> semaphore \<Rightarrow> semaphore" where
  "wait_over w s = settle_waiter w None (s\<lparr>sm_queue := remove1 w (sm_queue s)\<rparr>)"

definition open_all :: "semaphore \<Rightarrow> semaphore" where
  "open_all s =
     (if sm_opened s then s
      else fold (\<lambda>w. settle_waiter w (Some Inert)) (sm_queue s) (s\<lparr>sm_opened := True, sm_queue := []\<rparr>))"

subsection \<open>Histories\<close>

text \<open>
  A caller may release any permit it was given, at any time and again; a timer may fire for any
  waiter that was queued, at any time. \<open>sm_trace\<close> keeps the waiters in order of arrival.
\<close>

datatype sem_event = Acquire nat | Release permit | WaitOver nat | OpenAll

fun sem_apply :: "nat \<Rightarrow> sem_event \<Rightarrow> semaphore \<Rightarrow> semaphore" where
  "sem_apply limit (Acquire w) s = snd (acquire limit w s)"
| "sem_apply limit (Release p) s = release p s"
| "sem_apply limit (WaitOver w) s = wait_over w s"
| "sem_apply limit OpenAll s = open_all s"

text \<open>The permits out: issued and not yet released.\<close>

definition outstanding :: "semaphore \<Rightarrow> nat set" where
  "outstanding s = {i. i < sm_issued s} - sm_released s"

fun sem_allowed :: "nat \<Rightarrow> sem_event \<Rightarrow> nat list \<Rightarrow> semaphore \<Rightarrow> bool" where
  "sem_allowed limit (Acquire w) arrived s \<longleftrightarrow> w \<notin> set arrived"
| "sem_allowed limit (Release Inert) arrived s \<longleftrightarrow> True"
| "sem_allowed limit (Release (Issued i)) arrived s \<longleftrightarrow> i < sm_issued s"
| "sem_allowed limit (WaitOver w) arrived s \<longleftrightarrow> w \<in> set arrived"
| "sem_allowed limit OpenAll arrived s \<longleftrightarrow> True"

definition arrives :: "nat \<Rightarrow> sem_event \<Rightarrow> semaphore \<Rightarrow> nat list" where
  "arrives limit e s = (case e of Acquire w \<Rightarrow> if fst (acquire limit w s) = Queued then [w] else [] | _ \<Rightarrow> [])"

inductive sem_history :: "nat \<Rightarrow> nat list \<Rightarrow> semaphore \<Rightarrow> bool" for limit :: nat where
  start: "sem_history limit [] new_semaphore"
| step: "sem_history limit arrived s \<Longrightarrow> sem_allowed limit e arrived s \<Longrightarrow>
    sem_history limit (arrived @ arrives limit e s) (sem_apply limit e s)"

subsection \<open>The invariant\<close>

definition answered :: "semaphore \<Rightarrow> nat set" where
  "answered s = fst ` set (sm_answers s)"

definition handed :: "semaphore \<Rightarrow> nat list" where
  "handed s = map fst (filter (\<lambda>(w, a). a \<noteq> None) (sm_answers s))"

text \<open>Permits: as many are out as \<open>held\<close> counts, and callers queue only while all are out.\<close>

definition permits_ok :: "nat \<Rightarrow> semaphore \<Rightarrow> bool" where
  "permits_ok limit s \<longleftrightarrow>
     sm_released s \<subseteq> {i. i < sm_issued s} \<and> card (outstanding s) = sm_held s \<and> sm_held s \<le> limit \<and>
     (sm_queue s \<noteq> [] \<longrightarrow> sm_held s = limit \<and> \<not> sm_opened s)"

text \<open>Waiters: the queue is the unanswered ones in order of arrival, and a permit handed to a waiter
  means everyone before it has an answer.\<close>

definition waiters_ok :: "nat list \<Rightarrow> semaphore \<Rightarrow> bool" where
  "waiters_ok arrived s \<longleftrightarrow>
     distinct arrived \<and> distinct (map fst (sm_answers s)) \<and> answered s \<subseteq> set arrived \<and>
     sm_queue s = filter (\<lambda>w. w \<notin> answered s) arrived \<and>
     (\<forall>xs w ys. arrived = xs @ w # ys \<and> w \<in> set (handed s) \<longrightarrow> set xs \<subseteq> answered s)"

lemma settle_waiter_simps [simp]:
  "sm_held (settle_waiter w a s) = sm_held s" "sm_opened (settle_waiter w a s) = sm_opened s"
  "sm_queue (settle_waiter w a s) = sm_queue s" "sm_issued (settle_waiter w a s) = sm_issued s"
  "sm_released (settle_waiter w a s) = sm_released s"
  "answered (settle_waiter w a s) = insert w (answered s)"
  "outstanding (settle_waiter w a s) = outstanding s"
  by (auto simp: settle_waiter_def settled_waiter_def answered_def outstanding_def)

lemma settle_waiter_distinct:
  "distinct (map fst (sm_answers s)) \<Longrightarrow> distinct (map fst (sm_answers (settle_waiter w a s)))"
  by (auto simp: settle_waiter_def settled_waiter_def)

lemma settle_waiter_handed:
  "set (handed (settle_waiter w a s)) \<subseteq> (if a = None then {} else {w}) \<union> set (handed s)"
  by (auto simp: settle_waiter_def handed_def)

lemma handed_answered: "set (handed s) \<subseteq> answered s"
  by (auto simp: handed_def answered_def image_iff)

lemma fold_settle:
  "sm_queue (fold (\<lambda>w. settle_waiter w a) ws s) = sm_queue s"
  "sm_held (fold (\<lambda>w. settle_waiter w a) ws s) = sm_held s"
  "outstanding (fold (\<lambda>w. settle_waiter w a) ws s) = outstanding s"
  "sm_issued (fold (\<lambda>w. settle_waiter w a) ws s) = sm_issued s"
  "sm_released (fold (\<lambda>w. settle_waiter w a) ws s) = sm_released s"
  "answered (fold (\<lambda>w. settle_waiter w a) ws s) = set ws \<union> answered s"
  "distinct (map fst (sm_answers s)) \<Longrightarrow> distinct (map fst (sm_answers (fold (\<lambda>w. settle_waiter w a) ws s)))"
  by (induction ws arbitrary: s) (auto simp: settle_waiter_distinct)

lemma finite_outstanding [simp]: "finite (outstanding s)"
  by (rule finite_subset [of _ "{i. i < sm_issued s}"]) (auto simp: outstanding_def)

lemma outstanding_issue: "sm_released s \<subseteq> {i. i < sm_issued s} \<Longrightarrow>
    outstanding (s\<lparr>sm_issued := Suc (sm_issued s)\<rparr>) = insert (sm_issued s) (outstanding s) \<and> sm_issued s \<notin> outstanding s"
  by (auto simp: outstanding_def less_Suc_eq)

lemma outstanding_fields [simp]:
  "outstanding (s\<lparr>sm_held := h\<rparr>) = outstanding s" "outstanding (s\<lparr>sm_queue := q\<rparr>) = outstanding s"
  "outstanding (s\<lparr>sm_opened := b\<rparr>) = outstanding s"
  "outstanding (s\<lparr>sm_released := insert i (sm_released s)\<rparr>) = outstanding s - {i}"
  by (auto simp: outstanding_def)

lemma acquire_permits: "permits_ok limit s \<Longrightarrow> permits_ok limit (snd (acquire limit w s))"
  using outstanding_issue [of "s\<lparr>sm_held := Suc (sm_held s)\<rparr>"]
  by (auto simp: permits_ok_def acquire_def issue_def)

lemma release_permits:
  assumes "permits_ok limit s" and "\<And>i. p = Issued i \<Longrightarrow> i < sm_issued s"
  shows "permits_ok limit (release p s)"
proof (cases p)
  case (Issued i)
  let ?s = "s\<lparr>sm_released := insert i (sm_released s)\<rparr>"
  show ?thesis
  proof (cases "i \<in> sm_released s")
    case False
    with assms(2) [OF Issued] have i: "i \<in> outstanding s" "i < sm_issued s" by (simp_all add: outstanding_def)
    then have c: "0 < card (outstanding s)" "card (outstanding s - {i}) = card (outstanding s) - 1"
      using finite_outstanding [of s] card_Diff_singleton [OF i(1)] by (auto simp only: card_gt_0_iff)
    show ?thesis
    proof (cases "sm_queue s")
      case Nil
      with Issued False assms(1) i c show ?thesis by (auto simp: release_def permits_ok_def)
    next
      case (Cons w ws)
      with assms(1) i outstanding_issue [of "?s\<lparr>sm_queue := ws\<rparr>"]
      have "outstanding (?s\<lparr>sm_queue := ws, sm_issued := Suc (sm_issued s)\<rparr>) = insert (sm_issued s) (outstanding s - {i})"
        "sm_issued s \<notin> outstanding s - {i}" by (auto simp: permits_ok_def)
      with Issued False assms(1) i c Cons show ?thesis
        by (auto simp: release_def permits_ok_def issue_def)
    qed
  qed (use Issued assms(1) in \<open>simp add: release_def\<close>)
qed (use assms(1) in \<open>simp add: release_def\<close>)

lemma wait_over_permits: "permits_ok limit s \<Longrightarrow> permits_ok limit (wait_over w s)"
  by (auto simp: permits_ok_def wait_over_def)

lemma open_permits: "permits_ok limit s \<Longrightarrow> permits_ok limit (open_all s)"
  by (auto simp: permits_ok_def open_all_def fold_settle)

lemma acquire_waiters:
  assumes "waiters_ok arrived s" and "w \<notin> set arrived"
  shows "waiters_ok (arrived @ arrives limit (Acquire w) s) (snd (acquire limit w s))"
proof (cases "fst (acquire limit w s) = Queued")
  case True
  then have s: "snd (acquire limit w s) = s\<lparr>sm_queue := sm_queue s @ [w]\<rparr>"
    by (auto simp: acquire_def issue_def split: if_splits)
  have "w \<notin> answered s" using assms by (auto simp: waiters_ok_def)
  moreover have "set xs \<subseteq> answered s" if "arrived @ [w] = xs @ h # ys" "h \<in> set (handed s)" for xs h ys
  proof -
    have "h \<noteq> w" using that(2) handed_answered [of s] assms by (auto simp: waiters_ok_def)
    with that(1) obtain ys' where "arrived = xs @ h # ys'" by (cases ys rule: rev_cases) auto
    with assms(1) that(2) show ?thesis by (auto simp: waiters_ok_def)
  qed
  ultimately show ?thesis
    using assms True unfolding s by (auto simp: waiters_ok_def arrives_def answered_def handed_def)
next
  case False
  then have "answered (snd (acquire limit w s)) = answered s" "handed (snd (acquire limit w s)) = handed s"
    "sm_queue (snd (acquire limit w s)) = sm_queue s" "sm_answers (snd (acquire limit w s)) = sm_answers s"
    by (auto simp: acquire_def issue_def answered_def handed_def split: if_splits)
  with False assms(1) show ?thesis by (simp add: waiters_ok_def arrives_def)
qed

lemma filter_first:
  assumes "filter P (us @ n # vs) = n # rest" and "n \<notin> set us"
  shows "\<forall>u \<in> set us. \<not> P u"
proof (cases "filter P us")
  case Nil
  then show ?thesis by (simp add: filter_empty_conv)
next
  case (Cons u xs)
  with assms(1) have "n \<in> set (filter P us)" by simp
  with assms(2) show ?thesis by simp
qed

lemma waiters_fifo:
  "waiters_ok arrived s \<Longrightarrow> arrived = xs @ w # ys \<Longrightarrow> w \<in> set (handed s) \<Longrightarrow> set xs \<subseteq> answered s"
  unfolding waiters_ok_def by blast

lemma remove1_filter: "distinct xs \<Longrightarrow> remove1 w xs = filter (\<lambda>v. v \<noteq> w) xs"
  by (induction xs) (auto intro!: filter_True [symmetric])

lemma settle_head_waiters:
  assumes "waiters_ok arrived s" and "sm_queue s = n # rest"
  shows "waiters_ok arrived (settle_waiter n a (s\<lparr>sm_queue := rest\<rparr>))"
proof -
  let ?s = "settle_waiter n a (s\<lparr>sm_queue := rest\<rparr>)"
  have same: "answered (s\<lparr>sm_queue := rest\<rparr>) = answered s" "handed (s\<lparr>sm_queue := rest\<rparr>) = handed s"
    by (simp_all add: answered_def handed_def)
  from assms have q: "n # rest = filter (\<lambda>w. w \<notin> answered s) arrived" "distinct arrived" by (simp_all add: waiters_ok_def)
  then have "n \<in> set (filter (\<lambda>w. w \<notin> answered s) arrived)" "distinct (n # rest)"
    by (metis list.set_intros(1), metis distinct_filter)
  then have n: "n \<in> set arrived" "n \<notin> answered s" "distinct (n # rest)" by simp_all
  have "rest = filter (\<lambda>w. w \<noteq> n) (n # rest)" using n(3) remove1_filter [of "n # rest" n] by simp
  also have "\<dots> = filter (\<lambda>w. w \<notin> insert n (answered s)) arrived" unfolding q(1) by (auto intro: filter_cong)
  finally have rest: "rest = filter (\<lambda>w. w \<notin> insert n (answered s)) arrived" .
  have "set xs \<subseteq> insert n (answered s)" if "arrived = xs @ w # ys" "w \<in> set (handed ?s)" for xs w ys
  proof (cases "w = n")
    case True
    have "n \<notin> set xs" using q(2) that(1) True by simp
    from filter_first [OF q(1) [symmetric, unfolded that(1) True] this] show ?thesis by auto
  next
    case False
    with that(2) settle_waiter_handed [of n a "s\<lparr>sm_queue := rest\<rparr>"] have "w \<in> set (handed s)"
      unfolding same by (auto split: if_splits)
    from waiters_fifo [OF assms(1) that(1) this] show ?thesis by blast
  qed
  moreover have "distinct (map fst (sm_answers ?s))"
    using assms(1) by (intro settle_waiter_distinct) (simp add: waiters_ok_def)
  ultimately show ?thesis
    using assms(1) n(1) rest unfolding waiters_ok_def settle_waiter_simps same
    by (intro conjI) (blast | simp)+
qed

lemma release_waiters: "waiters_ok arrived s \<Longrightarrow> waiters_ok arrived (release p s)"
proof -
  assume ok: "waiters_ok arrived s"
  have upd: "waiters_ok arrived (s\<lparr>sm_released := r, sm_held := h, sm_issued := i\<rparr>)" for r h i
    using ok by (simp add: waiters_ok_def answered_def handed_def)
  show ?thesis
  proof (cases p)
    case (Issued i)
    show ?thesis
    proof (cases "i \<in> sm_released s")
      case False
      show ?thesis
      proof (cases "sm_queue s")
        case Nil
        with Issued False upd [where r = "insert i (sm_released s)" and h = "sm_held s - 1" and i = "sm_issued s"]
        show ?thesis by (simp add: release_def)
      next
        case (Cons w ws)
        have "s\<lparr>sm_released := R, sm_queue := ws, sm_issued := N\<rparr> = s\<lparr>sm_released := R, sm_issued := N, sm_queue := ws\<rparr>" for R N
          by (cases s) simp
        note swap = this
        with Cons Issued False settle_head_waiters [OF upd [where r = "insert i (sm_released s)" and h = "sm_held s" and i = "Suc (sm_issued s)"], of w ws]
        show ?thesis by (simp add: release_def issue_def swap)
      qed
    qed (use Issued ok in \<open>simp add: release_def\<close>)
  qed (use ok in \<open>simp add: release_def\<close>)
qed

lemma wait_over_waiters:
  assumes "waiters_ok arrived s" and "w \<in> set arrived"
  shows "waiters_ok arrived (wait_over w s)"
proof -
  let ?s = "s\<lparr>sm_queue := remove1 w (sm_queue s)\<rparr>"
  have same: "answered ?s = answered s" "handed ?s = handed s" by (simp_all add: answered_def handed_def)
  have "distinct (sm_queue s)" using assms(1) by (auto simp: waiters_ok_def)
  then have "remove1 w (sm_queue s) = filter (\<lambda>v. v \<noteq> w) (sm_queue s)" by (rule remove1_filter)
  also have "\<dots> = filter (\<lambda>v. v \<notin> insert w (answered s)) arrived"
    using assms(1) by (auto simp: waiters_ok_def intro: filter_cong)
  finally have q: "remove1 w (sm_queue s) = filter (\<lambda>v. v \<notin> insert w (answered s)) arrived" .
  have "distinct (map fst (sm_answers (settle_waiter w None ?s)))"
    using assms(1) by (intro settle_waiter_distinct) (simp add: waiters_ok_def)
  moreover have "set xs \<subseteq> answered s" if "arrived = xs @ h # ys" "h \<in> set (handed (settle_waiter w None ?s))" for xs h ys
    using that(2) settle_waiter_handed [of w None ?s] waiters_fifo [OF assms(1) that(1)] by (auto simp: same)
  ultimately show ?thesis
    using assms q unfolding wait_over_def waiters_ok_def settle_waiter_simps same
    by (intro conjI) (blast | simp)+
qed

lemma open_waiters: "waiters_ok arrived s \<Longrightarrow> waiters_ok arrived (open_all s)"
proof (cases "sm_opened s")
  case False
  assume ok: "waiters_ok arrived s"
  let ?s = "s\<lparr>sm_opened := True, sm_queue := []\<rparr>"
  have "answered ?s = answered s" by (simp add: answered_def)
  then have a: "answered (open_all s) = set arrived"
    using ok False by (auto simp: open_all_def fold_settle waiters_ok_def)
  moreover have "distinct (map fst (sm_answers (open_all s)))" "sm_queue (open_all s) = []"
    using ok False by (simp_all add: open_all_def fold_settle waiters_ok_def)
  ultimately show ?thesis using ok by (auto simp: waiters_ok_def)
qed (simp add: open_all_def)

lemma sem_history_ok: "sem_history limit arrived s \<Longrightarrow> permits_ok limit s \<and> waiters_ok arrived s"
proof (induction rule: sem_history.induct)
  case start
  then show ?case by (simp add: permits_ok_def waiters_ok_def new_semaphore_def outstanding_def answered_def handed_def)
next
  case (step arrived s e)
  then have ok: "permits_ok limit s" "waiters_ok arrived s" by simp_all
  show ?case
  proof (cases e)
    case (Acquire w)
    with step(2) ok acquire_permits acquire_waiters show ?thesis by simp
  next
    case (Release p)
    with step(2) have "i < sm_issued s" if "p = Issued i" for i using that by simp
    with ok Release release_permits release_waiters show ?thesis by (simp add: arrives_def)
  next
    case (WaitOver w)
    with step(2) ok wait_over_permits wait_over_waiters show ?thesis by (simp add: arrives_def)
  next
    case OpenAll
    with ok open_permits open_waiters show ?thesis by (simp add: arrives_def)
  qed
qed

text \<open>
  In every history of a semaphore, with permits released any number of times and timers firing at
  any moment: the permits out never exceed the limit and are exactly what \<open>held\<close> counts, callers queue
  only while every permit is out, each waiter is answered at most once, and a waiter is handed a
  permit only after everyone who arrived before it was handed one or gave up.
\<close>

theorem semaphore_limits_and_fifo:
  assumes "sem_history limit arrived s"
  shows "card (outstanding s) = sm_held s \<and> sm_held s \<le> limit \<and>
    (sm_queue s \<noteq> [] \<longrightarrow> sm_held s = limit) \<and> distinct (map fst (sm_answers s)) \<and>
    (\<forall>xs w ys p. arrived = xs @ w # ys \<and> (w, Some p) \<in> set (sm_answers s) \<longrightarrow>
       (\<forall>v \<in> set xs. \<exists>a. (v, a) \<in> set (sm_answers s)))"
proof -
  have "w \<in> set (handed s)" if "(w, Some p) \<in> set (sm_answers s)" for w p
    using that by (force simp: handed_def)
  moreover have "v \<in> answered s \<longleftrightarrow> (\<exists>a. (v, a) \<in> set (sm_answers s))" for v
    by (force simp: answered_def)
  ultimately show ?thesis using sem_history_ok [OF assms] by (fastforce simp: permits_ok_def waiters_ok_def)
qed

definition demo_semaphore :: semaphore where
  "demo_semaphore =
     fold (sem_apply 1) [Acquire 0, Acquire 1, Acquire 2, WaitOver 1, Release (Issued 0), Release (Issued 0)] new_semaphore"

lemma demo_semaphore_history: "sem_history 1 [1, 2] demo_semaphore"
proof -
  note step = sem_history.step [of 1]
  have "sem_history 1 [] (sem_apply 1 (Acquire 0) new_semaphore)"
    using step [OF sem_history.start, of "Acquire 0"] by (simp add: arrives_def acquire_def issue_def new_semaphore_def)
  from step [OF this, of "Acquire 1"]
  have "sem_history 1 [1] (fold (sem_apply 1) [Acquire 0, Acquire 1] new_semaphore)"
    by (simp add: arrives_def acquire_def issue_def new_semaphore_def)
  from step [OF this, of "Acquire 2"]
  have "sem_history 1 [1, 2] (fold (sem_apply 1) [Acquire 0, Acquire 1, Acquire 2] new_semaphore)"
    by (simp add: arrives_def acquire_def issue_def new_semaphore_def)
  from step [OF this, of "WaitOver 1"]
  have "sem_history 1 [1, 2] (fold (sem_apply 1) [Acquire 0, Acquire 1, Acquire 2, WaitOver 1] new_semaphore)"
    by (simp add: arrives_def)
  from step [OF this, of "Release (Issued 0)"]
  have r: "sem_history 1 [1, 2] (fold (sem_apply 1) [Acquire 0, Acquire 1, Acquire 2, WaitOver 1, Release (Issued 0)] new_semaphore)"
    by (simp add: arrives_def acquire_def issue_def new_semaphore_def wait_over_def)
  have "0 < sm_issued (fold (sem_apply 1) [Acquire 0, Acquire 1, Acquire 2, WaitOver 1, Release (Issued 0)] new_semaphore)"
    by code_simp
  with step [OF r, of "Release (Issued 0)"] show ?thesis by (simp add: arrives_def demo_semaphore_def)
qed

theorem semaphore_limits_and_fifo_witness:
  "sm_held demo_semaphore \<le> 1 \<and> sm_answers demo_semaphore = [(1, None), (2, Some (Issued 1))]"
proof -
  have "sm_answers demo_semaphore = [(1, None), (2, Some (Issued 1))]" by code_simp
  with semaphore_limits_and_fifo [OF demo_semaphore_history] show ?thesis by blast
qed

end
