(* ===== verification/Token_Exchange.thy ===== *)
theory Token_Exchange
  imports Team_Sheet Js_Number
begin

text \<open>
  The refresh-token exchange of \<open>packages/proxy/src/outbound.ts\<close>: discovery of the authorization
  server's metadata, the decision about a proof of possession, the post with its one nonce retry, and
  the reading of the answer.

  The network is a parameter: what a fetch came back with, per attempt. A body is given as the code
  reads it after \<open>JSON.parse\<close>, field by field (\<open>js_field\<close>); a number is \<open>None\<close> when it is not finite.
  \<open>origin_of\<close> is \<open>new URL(url).origin\<close>, \<open>None\<close> where it throws.
\<close>

subsection \<open>What a fetch comes back with\<close>

datatype exchange_failure =
    TxTimedOut | TxUnreachable | TxRedirected | TxTooLarge | TxDiscoveryFailed | TxIssuerMismatch
  | TxInvalidGrant | TxExchangeFailed | TxMalformedTokenResponse | TxRotationUnpersisted
  | TxDpopUnsupported | TxDpopKeyMismatch | TxDpopNonceUnsatisfied

datatype js_field = FUndefined | FString string | FNumber "rat option" | FStrings "string list" | FOther

datatype 'b json_reply = NotJson | NotObject | JsonObject 'b

datatype 'b body_read = ReadThrew bool | ReadTooLarge | ReadText "'b json_reply"

datatype 'b fetched = FetchThrew bool | Fetched nat "string option" "'b body_read"

definition redirect_statuses :: "nat list" where
  "redirect_statuses = [301, 302, 303, 307, 308]"

definition response_ok :: "nat \<Rightarrow> bool" where
  "response_ok status \<longleftrightarrow> 200 \<le> status \<and> status \<le> 299"

definition threw :: "bool \<Rightarrow> exchange_failure" where
  "threw timeout = (if timeout then TxTimedOut else TxUnreachable)"

text \<open>The status, the nonce header and the body; the body is read whatever the status, redirects apart.\<close>

definition read_response :: "'b fetched \<Rightarrow> exchange_failure + nat \<times> string option \<times> 'b json_reply" where
  "read_response answer =
     (case answer of
        FetchThrew timeout \<Rightarrow> Inl (threw timeout)
      | Fetched status nonce body \<Rightarrow>
          if status \<in> set redirect_statuses then Inl TxRedirected
          else case body of
              ReadThrew timeout \<Rightarrow> Inl (threw timeout)
            | ReadTooLarge \<Rightarrow> Inl TxTooLarge
            | ReadText text \<Rightarrow> Inr (status, nonce, text))"

subsection \<open>Discovery\<close>

record metadata_fields =
  mf_issuer :: js_field
  mf_token_endpoint :: js_field
  mf_authorization_endpoint :: js_field
  mf_code_challenge_methods :: js_field
  mf_dpop_algs :: js_field

record issuer_metadata =
  im_token_endpoint :: string
  im_authorization_endpoint :: "string option"
  im_code_challenge_methods :: "string list option"
  im_dpop_algs :: "string list option"

definition strings_of :: "js_field \<Rightarrow> string list option" where
  "strings_of f = (case f of FStrings ss \<Rightarrow> Some ss | _ \<Rightarrow> None)"

definition string_field :: "js_field \<Rightarrow> string option" where
  "string_field f = (case f of FString s \<Rightarrow> Some s | _ \<Rightarrow> None)"

definition read_metadata :: "(string \<Rightarrow> string option) \<Rightarrow> string \<Rightarrow> string \<Rightarrow> metadata_fields fetched
    \<Rightarrow> exchange_failure + issuer_metadata" where
  "read_metadata origin_of issuer issuer_origin answer =
     (case read_response answer of
        Inl e \<Rightarrow> Inl e
      | Inr (status, _, text) \<Rightarrow>
          if \<not> response_ok status then Inl TxDiscoveryFailed
          else case text of
              NotJson \<Rightarrow> Inl TxDiscoveryFailed
            | NotObject \<Rightarrow> Inl TxDiscoveryFailed
            | JsonObject flds \<Rightarrow>
                if mf_issuer flds \<noteq> FString issuer then Inl TxIssuerMismatch
                else case mf_token_endpoint flds of
                    FString endpoint \<Rightarrow>
                      if origin_of endpoint \<noteq> Some issuer_origin then Inl TxIssuerMismatch
                      else Inr \<lparr>im_token_endpoint = endpoint,
                                im_authorization_endpoint = string_field (mf_authorization_endpoint flds),
                                im_code_challenge_methods = strings_of (mf_code_challenge_methods flds),
                                im_dpop_algs = strings_of (mf_dpop_algs flds)\<rparr>
                  | _ \<Rightarrow> Inl TxDiscoveryFailed)"

text \<open>A key is its thumbprint.\<close>

definition dpop_plan :: "dpop_mode \<Rightarrow> string option \<Rightarrow> issuer_metadata \<Rightarrow> exchange_failure + string option" where
  "dpop_plan mode key metadata =
     (if mode = DpopOff then Inr None
      else let advertised = (case im_dpop_algs metadata of None \<Rightarrow> False | Some algs \<Rightarrow> ''ES256'' \<in> set algs)
        in if advertised \<and> key \<noteq> None then Inr key
           else if mode = DpopRequire then Inl TxDpopUnsupported
           else Inr None)"

subsection \<open>The post\<close>

record reply_fields =
  rf_access_token :: js_field
  rf_token_type :: js_field
  rf_expires_in :: js_field
  rf_refresh_token :: js_field
  rf_error :: js_field

definition oauth_error_of :: "reply_fields json_reply \<Rightarrow> string option" where
  "oauth_error_of text = (case text of JsonObject flds \<Rightarrow> string_field (rf_error flds) | _ \<Rightarrow> None)"

text \<open>What is sent: where, the refresh token in the form, and the proof with its nonce.\<close>

record token_post =
  tp_url :: string
  tp_refresh_token :: string
  tp_proof :: "(string \<times> string option) option"

definition use_dpop_nonce :: string where
  "use_dpop_nonce = ''use_dpop_nonce''"

definition post_token_request :: "(nat \<Rightarrow> reply_fields fetched) \<Rightarrow> string \<Rightarrow> string \<Rightarrow> string option
    \<Rightarrow> (exchange_failure + nat \<times> reply_fields json_reply) \<times> token_post list" where
  "post_token_request net url refresh key =
     (let post = (\<lambda>nonce. \<lparr>tp_url = url, tp_refresh_token = refresh, tp_proof = map_option (\<lambda>k. (k, nonce)) key\<rparr>)
      in case read_response (net 0) of
          Inl e \<Rightarrow> (Inl e, [post None])
        | Inr (status, nonce, text) \<Rightarrow>
            if key = None \<or> response_ok status then (Inr (status, text), [post None])
            else if oauth_error_of text \<noteq> Some use_dpop_nonce then (Inr (status, text), [post None])
            else case nonce of
                None \<Rightarrow> (Inl TxDpopNonceUnsatisfied, [post None])
              | Some n \<Rightarrow>
                  if n = [] then (Inl TxDpopNonceUnsatisfied, [post None])
                  else (case read_response (net 1) of
                          Inl e \<Rightarrow> Inl e
                        | Inr (status', _, text') \<Rightarrow>
                            if \<not> response_ok status' \<and> oauth_error_of text' = Some use_dpop_nonce
                            then Inl TxDpopNonceUnsatisfied
                            else Inr (status', text'),
                        [post None, post (Some n)]))"

datatype token_type = Bearer | Dpop

definition token_type_of :: "string \<Rightarrow> bool \<Rightarrow> dpop_mode \<Rightarrow> exchange_failure + token_type" where
  "token_type_of declared proved mode =
     (let type = map to_lower declared
      in if type = ''dpop'' then (if proved then Inr Dpop else Inl TxMalformedTokenResponse)
         else if type \<noteq> ''bearer'' then Inl TxMalformedTokenResponse
         else if proved \<and> mode = DpopRequire then Inl TxDpopUnsupported
         else Inr Bearer)"

subsection \<open>Reading the answer\<close>

record token_answer =
  ta_access_token :: string
  ta_expires_in :: "rat option"
  ta_rotated :: "string option"
  ta_type :: token_type

text \<open>From the response to the point where a rotated refresh token is persisted.\<close>

definition read_token_answer :: "string \<Rightarrow> bool \<Rightarrow> dpop_mode \<Rightarrow> nat \<Rightarrow> reply_fields json_reply
    \<Rightarrow> exchange_failure + token_answer" where
  "read_token_answer refresh proved mode status text =
     (if \<not> response_ok status
      then Inl (if oauth_error_of text = Some ''invalid_grant'' then TxInvalidGrant else TxExchangeFailed)
      else case text of
          JsonObject flds \<Rightarrow>
            (case (rf_access_token flds, rf_token_type flds) of
               (FString access, FString declared) \<Rightarrow>
                 if access = [] then Inl TxMalformedTokenResponse
                 else (case token_type_of declared proved mode of
                     Inl e \<Rightarrow> Inl e
                   | Inr type \<Rightarrow>
                       (case (rf_expires_in flds, rf_refresh_token flds) of
                          (FUndefined, FUndefined) \<Rightarrow> Inr \<lparr>ta_access_token = access, ta_expires_in = None, ta_rotated = None, ta_type = type\<rparr>
                        | (FUndefined, FString r) \<Rightarrow> Inr \<lparr>ta_access_token = access, ta_expires_in = None,
                              ta_rotated = (if r \<noteq> refresh then Some r else None), ta_type = type\<rparr>
                        | (FNumber (Some x), FUndefined) \<Rightarrow> Inr \<lparr>ta_access_token = access, ta_expires_in = Some x, ta_rotated = None, ta_type = type\<rparr>
                        | (FNumber (Some x), FString r) \<Rightarrow> Inr \<lparr>ta_access_token = access, ta_expires_in = Some x,
                              ta_rotated = (if r \<noteq> refresh then Some r else None), ta_type = type\<rparr>
                        | _ \<Rightarrow> Inl TxMalformedTokenResponse))
             | _ \<Rightarrow> Inl TxMalformedTokenResponse)
        | _ \<Rightarrow> Inl TxMalformedTokenResponse)"

text \<open>The exchange up to that point, with what it sent.\<close>

definition exchange_refresh_token :: "(string \<Rightarrow> string option) \<Rightarrow> metadata_fields fetched \<Rightarrow> (nat \<Rightarrow> reply_fields fetched)
    \<Rightarrow> string \<Rightarrow> string \<Rightarrow> dpop_mode \<Rightarrow> string option \<Rightarrow> (exchange_failure + token_answer) \<times> token_post list" where
  "exchange_refresh_token origin_of discovery net issuer refresh mode key =
     (case origin_of issuer of
        None \<Rightarrow> (Inl TxDiscoveryFailed, [])
      | Some origin \<Rightarrow>
          case read_metadata origin_of issuer origin discovery of
            Inl e \<Rightarrow> (Inl e, [])
          | Inr metadata \<Rightarrow>
              case dpop_plan mode key metadata of
                Inl e \<Rightarrow> (Inl e, [])
              | Inr proving \<Rightarrow>
                  case post_token_request net (im_token_endpoint metadata) refresh proving of
                    (Inl e, posts) \<Rightarrow> (Inl e, posts)
                  | (Inr (status, text), posts) \<Rightarrow> (read_token_answer refresh (proving \<noteq> None) mode status text, posts))"

subsection \<open>What the exchange guarantees\<close>

lemma read_metadata_pinned:
  "read_metadata origin_of issuer origin discovery = Inr metadata \<Longrightarrow> origin_of (im_token_endpoint metadata) = Some origin"
  by (auto simp: read_metadata_def split: sum.splits prod.splits json_reply.splits js_field.splits if_splits)

lemma post_token_request_posts:
  "post_token_request net url refresh key = (result, posts) \<Longrightarrow> p \<in> set posts \<Longrightarrow>
     tp_url p = url \<and> tp_refresh_token p = refresh \<and> (tp_proof p = None \<longleftrightarrow> key = None) \<and> length posts \<le> 2"
  by (auto simp: post_token_request_def Let_def split: sum.splits prod.splits option.splits if_splits)

lemma dpop_plan_key: "dpop_plan mode key metadata = Inr proving \<Longrightarrow>
    (mode = DpopRequire \<longrightarrow> proving \<noteq> None) \<and> (mode = DpopOff \<longrightarrow> proving = None) \<and> (proving \<noteq> None \<longrightarrow> proving = key)"
  by (auto simp: dpop_plan_def Let_def split: if_splits)

lemma read_token_answer_type: "read_token_answer refresh proved mode status text = Inr answer \<Longrightarrow>
    (ta_type answer = Dpop \<longrightarrow> proved) \<and> (mode = DpopRequire \<and> proved \<longrightarrow> ta_type answer = Dpop) \<and>
    ta_access_token answer \<noteq> [] \<and> ta_rotated answer \<noteq> Some refresh"
  by (auto simp: read_token_answer_def token_type_of_def Let_def
      split: if_splits json_reply.splits js_field.splits option.splits sum.splits)

lemma exchange_pinned:
  assumes "exchange_refresh_token origin_of discovery net issuer refresh mode key = (result, posts)"
  shows "length posts \<le> 2 \<and>
    (\<forall>p \<in> set posts. origin_of (tp_url p) = origin_of issuer \<and> tp_refresh_token p = refresh \<and>
       (mode = DpopRequire \<longrightarrow> tp_proof p \<noteq> None) \<and> (mode = DpopOff \<longrightarrow> tp_proof p = None)) \<and>
    (\<forall>answer. result = Inr answer \<longrightarrow>
       posts \<noteq> [] \<and> (mode = DpopRequire \<longrightarrow> ta_type answer = Dpop) \<and>
       (ta_type answer = Dpop \<longrightarrow> (\<forall>p \<in> set posts. tp_proof p \<noteq> None)))"
proof (cases "origin_of issuer")
  case None
  with assms show ?thesis by (auto simp: exchange_refresh_token_def)
next
  case (Some origin)
  show ?thesis
  proof (cases "read_metadata origin_of issuer origin discovery")
    case (Inl e)
    with Some assms show ?thesis by (auto simp: exchange_refresh_token_def)
  next
    case metadata: (Inr metadata)
    show ?thesis
    proof (cases "dpop_plan mode key metadata")
      case (Inl e)
      with Some metadata assms show ?thesis by (auto simp: exchange_refresh_token_def)
    next
      case plan: (Inr proving)
      obtain r ps where post: "post_token_request net (im_token_endpoint metadata) refresh proving = (r, ps)" by fastforce
      have "posts = ps"
        using assms Some metadata plan post by (auto simp: exchange_refresh_token_def split: sum.splits)
      moreover have "length ps \<le> 2" "ps \<noteq> []"
        using post by (auto simp: post_token_request_def Let_def split: sum.splits prod.splits option.splits if_splits)
      moreover have "ta_type answer = Dpop \<longrightarrow> proving \<noteq> None" "mode = DpopRequire \<and> proving \<noteq> None \<longrightarrow> ta_type answer = Dpop"
        if "result = Inr answer" for answer
      proof -
        from that assms Some metadata plan post obtain status body
          where "read_token_answer refresh (proving \<noteq> None) mode status body = Inr answer"
          by (auto simp: exchange_refresh_token_def split: sum.splits prod.splits)
        from read_token_answer_type [OF this]
        show "ta_type answer = Dpop \<longrightarrow> proving \<noteq> None" "mode = DpopRequire \<and> proving \<noteq> None \<longrightarrow> ta_type answer = Dpop"
          by blast+
      qed
      moreover have "\<forall>p \<in> set ps. origin_of (tp_url p) = origin_of issuer \<and> tp_refresh_token p = refresh \<and>
          (tp_proof p = None \<longleftrightarrow> proving = None)"
        using post_token_request_posts [OF post] read_metadata_pinned [OF metadata] Some by metis
      ultimately show ?thesis using dpop_plan_key [OF plan] by metis
    qed
  qed
qed

lemma exchange_posts:
  "exchange_refresh_token origin_of discovery net issuer refresh mode key = (result, posts) \<Longrightarrow> p \<in> set posts \<Longrightarrow>
     origin_of (tp_url p) = origin_of issuer \<and> tp_refresh_token p = refresh"
  using exchange_pinned by blast

text \<open>
  A refresh token is posted at most twice, always to an endpoint of the issuer's own origin; under
  \<open>require\<close> every post carries a proof and only a bound token is accepted; under \<open>off\<close> none does; a
  bound token is accepted only when a proof was sent.
\<close>

theorem exchange_pinned_and_proved:
  assumes "exchange_refresh_token origin_of discovery net issuer refresh mode key = (result, posts)"
  shows "length posts \<le> 2 \<and>
    (\<forall>p \<in> set posts. origin_of (tp_url p) = origin_of issuer \<and> tp_refresh_token p = refresh \<and>
       (mode = DpopRequire \<longrightarrow> tp_proof p \<noteq> None) \<and> (mode = DpopOff \<longrightarrow> tp_proof p = None)) \<and>
    (\<forall>answer. result = Inr answer \<longrightarrow>
       posts \<noteq> [] \<and> (mode = DpopRequire \<longrightarrow> ta_type answer = Dpop) \<and>
       (ta_type answer = Dpop \<longrightarrow> (\<forall>p \<in> set posts. tp_proof p \<noteq> None)))"
  using exchange_pinned [OF assms] .

definition demo_origin :: "string \<Rightarrow> string option" where
  "demo_origin url = (if take 8 url = ''https://'' then Some (''https://'' @ takeWhile (\<lambda>c. c \<noteq> CHR ''/'') (drop 8 url)) else None)"

definition demo_discovery :: "metadata_fields fetched" where
  "demo_discovery = Fetched 200 None (ReadText (JsonObject
     \<lparr>mf_issuer = FString ''https://as'', mf_token_endpoint = FString ''https://as/token'',
      mf_authorization_endpoint = FUndefined, mf_code_challenge_methods = FUndefined,
      mf_dpop_algs = FStrings [''ES256'']\<rparr>))"

definition demo_net :: "nat \<Rightarrow> reply_fields fetched" where
  "demo_net attempt =
     (if attempt = 0
      then Fetched 400 (Some ''n1'') (ReadText (JsonObject
        \<lparr>rf_access_token = FUndefined, rf_token_type = FUndefined, rf_expires_in = FUndefined,
         rf_refresh_token = FUndefined, rf_error = FString ''use_dpop_nonce''\<rparr>))
      else Fetched 200 None (ReadText (JsonObject
        \<lparr>rf_access_token = FString ''at1'', rf_token_type = FString ''DPoP'', rf_expires_in = FNumber (Some 3600),
         rf_refresh_token = FString ''rt2'', rf_error = FUndefined\<rparr>)))"

lemma demo_exchange:
  "exchange_refresh_token demo_origin demo_discovery demo_net ''https://as'' ''rt1'' DpopRequire (Some ''jkt'') =
     (Inr \<lparr>ta_access_token = ''at1'', ta_expires_in = Some 3600, ta_rotated = Some ''rt2'', ta_type = Dpop\<rparr>,
      [\<lparr>tp_url = ''https://as/token'', tp_refresh_token = ''rt1'', tp_proof = Some (''jkt'', None)\<rparr>,
       \<lparr>tp_url = ''https://as/token'', tp_refresh_token = ''rt1'', tp_proof = Some (''jkt'', Some ''n1'')\<rparr>])"
  by code_simp

theorem exchange_pinned_and_proved_witness:
  "list_all (\<lambda>p. demo_origin (tp_url p) = demo_origin ''https://as'' \<and> tp_proof p \<noteq> None)
     (snd (exchange_refresh_token demo_origin demo_discovery demo_net ''https://as'' ''rt1'' DpopRequire (Some ''jkt'')))"
  using exchange_pinned_and_proved [OF demo_exchange] by (auto simp: demo_exchange)

end
