(* ===== verification/Token_Engine.thy ===== *)
theory Token_Engine
  imports Token_Exchange Js_Text
begin

text \<open>
  The grants of \<open>packages/proxy/src/custody.ts\<close> and \<open>token-store.ts\<close>, and the token engine
  (\<open>token-engine.ts\<close>) that turns them into access tokens.

  A mint is a flight, cut where the code awaits: the store read, the signing key, the exchange, the
  persisting of a rotated refresh token, and the \<open>finally\<close> that clears the single flight. Between
  two of these anything else may happen, another caller's request or a new grant. The steps are
  functions of the engine and of what the awaited call answered; \<open>en_flights\<close> and \<open>en_posts\<close> are a
  record of what was started and sent. Times are milliseconds.
\<close>

subsection \<open>Grants\<close>

record grant_record =
  gr_issuer :: string
  gr_client :: string
  gr_refresh :: string
  gr_scopes :: "string list"
  gr_obtained_at :: "rat option"
  gr_rotated_at :: "rat option option"
  gr_jkt :: "string option"

record grant_binding =
  gb_issuer :: string
  gb_scopes :: "string list"

datatype grant_missing = GrantAbsent | GrantIssuerMismatch | GrantScopesExceeded

datatype grant_read = GrantFound string string "string option" | GrantMissing grant_missing

definition grant_binding_holds :: "grant_record \<Rightarrow> grant_binding \<Rightarrow> bool" where
  "grant_binding_holds g b \<longleftrightarrow> gr_issuer g = gb_issuer b \<and> list_all (\<lambda>scope. scope \<in> set (gr_scopes g)) (gb_scopes b)"

definition read_grant :: "grant_record option \<Rightarrow> grant_binding \<Rightarrow> grant_read" where
  "read_grant stored b =
     (case stored of
        None \<Rightarrow> GrantMissing GrantAbsent
      | Some g \<Rightarrow>
          if gr_issuer g \<noteq> gb_issuer b then GrantMissing GrantIssuerMismatch
          else if \<not> list_all (\<lambda>scope. scope \<in> set (gr_scopes g)) (gb_scopes b) then GrantMissing GrantScopesExceeded
          else GrantFound (gr_refresh g) (gr_client g) (gr_jkt g))"

datatype entry_rejection = InvalidName | EmptyEntry | EntryTooLarge | EntryHasNul

definition max_secret_bytes :: nat where
  "max_secret_bytes = 8192"

definition credential_name_rejection :: "string \<Rightarrow> entry_rejection option" where
  "credential_name_rejection name = (if identifier_ok name then None else Some InvalidName)"

definition credential_value_rejection :: "string \<Rightarrow> entry_rejection option" where
  "credential_value_rejection v =
     (if v = [] then Some EmptyEntry
      else if utf8_length (js v) > max_secret_bytes then Some EntryTooLarge
      else if CHR 0x00 \<in> set v then Some EntryHasNul
      else None)"

text \<open>A stored grant, field by field; a field of another type is \<open>FOther\<close> or \<open>FNumber\<close>.\<close>

record grant_fields =
  gf_issuer :: js_field
  gf_client :: js_field
  gf_refresh :: js_field
  gf_scopes :: js_field
  gf_obtained_at :: js_field
  gf_rotated_at :: js_field
  gf_jkt :: js_field

definition number_field :: "js_field \<Rightarrow> rat option option" where
  "number_field f = (case f of FNumber x \<Rightarrow> Some x | _ \<Rightarrow> None)"

definition parse_grant_record :: "grant_fields \<Rightarrow> grant_record option" where
  "parse_grant_record body =
     do {
       issuer \<leftarrow> string_field (gf_issuer body);
       (if issuer = [] then None else Some ());
       client \<leftarrow> string_field (gf_client body);
       refresh \<leftarrow> string_field (gf_refresh body);
       (if refresh = [] then None else Some ());
       scopes \<leftarrow> strings_of (gf_scopes body);
       obtained \<leftarrow> number_field (gf_obtained_at body);
       rotated \<leftarrow> (if gf_rotated_at body = FUndefined then Some None else map_option Some (number_field (gf_rotated_at body)));
       jkt \<leftarrow> (if gf_jkt body = FUndefined then Some None else map_option Some (string_field (gf_jkt body)));
       (if jkt = Some [] then None else Some ());
       Some \<lparr>gr_issuer = issuer, gr_client = client, gr_refresh = refresh, gr_scopes = scopes,
             gr_obtained_at = obtained, gr_rotated_at = rotated, gr_jkt = jkt\<rparr>
     }"

text \<open>\<open>read\<close>, \<open>rotate\<close> and \<open>putGrant\<close> of the store, on the grants of the file as the mutex finds them.\<close>

type_synonym grants = "string \<rightharpoonup> grant_record"

definition store_read :: "grants \<Rightarrow> string \<Rightarrow> grant_binding \<Rightarrow> grant_read" where
  "store_read grants name b =
     (if credential_name_rejection name \<noteq> None then GrantMissing GrantAbsent else read_grant (grants name) b)"

definition store_rotate :: "rat \<Rightarrow> string \<Rightarrow> grant_binding \<Rightarrow> string \<Rightarrow> grants \<Rightarrow> entry_rejection + grants" where
  "store_rotate now' name b rotated grants =
     (case credential_value_rejection rotated of
        Some e \<Rightarrow> Inl e
      | None \<Rightarrow>
          (case grants name of
             None \<Rightarrow> Inr grants
           | Some g \<Rightarrow>
               if \<not> grant_binding_holds g b then Inr grants
               else Inr (grants(name \<mapsto> g\<lparr>gr_refresh := rotated, gr_rotated_at := Some (Some now')\<rparr>))))"

definition store_put :: "string \<Rightarrow> grant_record \<Rightarrow> grants \<Rightarrow> entry_rejection + grants" where
  "store_put name g grants =
     (case credential_name_rejection name of
        Some e \<Rightarrow> Inl e
      | None \<Rightarrow>
          (case credential_value_rejection (gr_refresh g) of
             Some e \<Rightarrow> Inl e
           | None \<Rightarrow> Inr (grants(name \<mapsto> g))))"

subsection \<open>The engine\<close>

record oauth_binding =
  ob_credential :: string
  ob_issuer :: string
  ob_scopes :: "string list"
  ob_dpop :: dpop_mode

definition grant_of :: "oauth_binding \<Rightarrow> grant_binding" where
  "grant_of b = \<lparr>gb_issuer = ob_issuer b, gb_scopes = ob_scopes b\<rparr>"

record token_entry =
  te_access_token :: string
  te_expires_at :: "rat option"
  te_generation :: nat
  te_type :: token_type
  te_key :: "string option"

datatype mint_failure = MintNoGrant grant_missing | MintExchange exchange_failure | MintFault

text \<open>A grant in hand is the refresh token, and what the flight proves with.\<close>

datatype flight_stage =
    FlReading
  | FlSigning string "string option"
  | FlExchanging string "string option"
  | FlRotating token_answer "string option"
  | FlSettling "mint_failure + token_entry"
  | FlOver "mint_failure + token_entry"

record flight =
  fl_binding :: oauth_binding
  fl_stage :: flight_stage
  fl_grant :: "grant_record option"

record engine =
  en_tokens :: "string \<rightharpoonup> token_entry"
  en_minting :: "string \<rightharpoonup> nat"
  en_flights :: "flight list"
  en_grants :: grants
  en_posts :: "(nat \<times> token_post) list"

definition new_engine :: "grants \<Rightarrow> engine" where
  "new_engine grants = \<lparr>en_tokens = Map.empty, en_minting = Map.empty, en_flights = [], en_grants = grants, en_posts = []\<rparr>"

definition token_expiry_margin_ms :: rat where
  "token_expiry_margin_ms = 30000"

definition live :: "rat \<Rightarrow> token_entry \<Rightarrow> bool" where
  "live now' entry \<longleftrightarrow> (case te_expires_at entry of None \<Rightarrow> True | Some e \<Rightarrow> now' < fl (e - token_expiry_margin_ms))"

text \<open>\<open>mint\<close>: join the flight in the air, or start one.\<close>

definition mint_token :: "oauth_binding \<Rightarrow> engine \<Rightarrow> nat \<times> engine" where
  "mint_token b en =
     (case en_minting en (ob_credential b) of
        Some f \<Rightarrow> (f, en)
      | None \<Rightarrow>
          let f = length (en_flights en)
          in (f, en\<lparr>en_flights := en_flights en @ [\<lparr>fl_binding = b, fl_stage = FlReading, fl_grant = None\<rparr>],
                    en_minting := (en_minting en)(ob_credential b \<mapsto> f)\<rparr>))"

definition at_stage :: "engine \<Rightarrow> nat \<Rightarrow> flight_stage \<Rightarrow> bool" where
  "at_stage en f stage \<longleftrightarrow> f < length (en_flights en) \<and> fl_stage (en_flights en ! f) = stage"

definition set_stage :: "nat \<Rightarrow> flight_stage \<Rightarrow> engine \<Rightarrow> engine" where
  "set_stage f stage en = en\<lparr>en_flights := (en_flights en)[f := (en_flights en ! f)\<lparr>fl_stage := stage\<rparr>]\<rparr>"

definition binding_of :: "engine \<Rightarrow> nat \<Rightarrow> oauth_binding" where
  "binding_of en f = fl_binding (en_flights en ! f)"

text \<open>The key in hand against the one the grant is bound to.\<close>

definition check_key :: "string \<Rightarrow> string option \<Rightarrow> string option \<Rightarrow> flight_stage" where
  "check_key refresh jkt key =
     (if jkt \<noteq> None \<and> jkt \<noteq> key then FlSettling (Inl (MintExchange TxDpopKeyMismatch)) else FlExchanging refresh key)"

definition flight_read :: "nat \<Rightarrow> engine \<Rightarrow> engine" where
  "flight_read f en =
     (let b = binding_of en f
      in case store_read (en_grants en) (ob_credential b) (grant_of b) of
          GrantMissing reason \<Rightarrow> set_stage f (FlSettling (Inl (MintNoGrant reason))) en
        | GrantFound refresh client jkt \<Rightarrow>
            let en = en\<lparr>en_flights := (en_flights en)[f := (en_flights en ! f)\<lparr>fl_grant := en_grants en (ob_credential b)\<rparr>]\<rparr>
            in set_stage f (if ob_dpop b = DpopOff then check_key refresh jkt None else FlSigning refresh jkt) en)"

definition flight_signed :: "nat \<Rightarrow> string option \<Rightarrow> engine \<Rightarrow> engine" where
  "flight_signed f key en =
     (case fl_stage (en_flights en ! f) of
        FlSigning refresh jkt \<Rightarrow> set_stage f (check_key refresh jkt key) en
      | _ \<Rightarrow> en)"

text \<open>The store or the signing key store throws.\<close>

definition flight_fault :: "nat \<Rightarrow> engine \<Rightarrow> engine" where
  "flight_fault f en = set_stage f (FlSettling (Inl MintFault)) en"

definition token_minted :: "nat \<Rightarrow> rat \<Rightarrow> token_answer \<Rightarrow> string option \<Rightarrow> engine \<Rightarrow> engine" where
  "token_minted f now' answer key en =
     (let name = ob_credential (binding_of en f);
          entry = \<lparr>te_access_token = ta_access_token answer,
                   te_expires_at = map_option (\<lambda>x. fl (now' + fl (x * 1000))) (ta_expires_in answer),
                   te_generation = (case en_tokens en name of None \<Rightarrow> 0 | Some old \<Rightarrow> te_generation old) + 1,
                   te_type = ta_type answer,
                   te_key = (if ta_type answer = Dpop then key else None)\<rparr>
      in set_stage f (FlSettling (Inr entry)) (en\<lparr>en_tokens := (en_tokens en)(name \<mapsto> entry)\<rparr>))"

definition mint_failed :: "nat \<Rightarrow> exchange_failure \<Rightarrow> engine \<Rightarrow> engine" where
  "mint_failed f e en =
     (let name = ob_credential (binding_of en f);
          en = (if e = TxInvalidGrant then en\<lparr>en_tokens := (en_tokens en)(name := None)\<rparr> else en)
      in set_stage f (FlSettling (Inl (MintExchange e))) en)"

definition flight_exchanged :: "(string \<Rightarrow> string option) \<Rightarrow> nat \<Rightarrow> rat \<Rightarrow> metadata_fields fetched
    \<Rightarrow> (nat \<Rightarrow> reply_fields fetched) \<Rightarrow> engine \<Rightarrow> engine" where
  "flight_exchanged origin_of f now' discovery net en =
     (case fl_stage (en_flights en ! f) of
        FlExchanging refresh key \<Rightarrow>
          let b = binding_of en f;
              (result, posts) = exchange_refresh_token origin_of discovery net (ob_issuer b) refresh (ob_dpop b) key;
              en = en\<lparr>en_posts := en_posts en @ map (Pair f) posts\<rparr>
          in (case result of
                Inl e \<Rightarrow> mint_failed f e en
              | Inr answer \<Rightarrow>
                  if ta_rotated answer \<noteq> None then set_stage f (FlRotating answer key) en
                  else token_minted f now' answer key en)
      | _ \<Rightarrow> en)"

text \<open>The rotation is persisted or fails; the access token is held back until it is.\<close>

definition flight_rotated :: "nat \<Rightarrow> rat \<Rightarrow> bool \<Rightarrow> engine \<Rightarrow> engine" where
  "flight_rotated f now' written en =
     (case fl_stage (en_flights en ! f) of
        FlRotating answer key \<Rightarrow>
          let b = binding_of en f
          in (case store_rotate now' (ob_credential b) (grant_of b) (the (ta_rotated answer)) (en_grants en) of
                Inr grants \<Rightarrow>
                  if written then token_minted f now' answer key (en\<lparr>en_grants := grants\<rparr>)
                  else mint_failed f TxRotationUnpersisted en
              | Inl _ \<Rightarrow> mint_failed f TxRotationUnpersisted en)
      | _ \<Rightarrow> en)"

text \<open>The \<open>finally\<close>.\<close>

definition flight_settled :: "nat \<Rightarrow> engine \<Rightarrow> engine" where
  "flight_settled f en =
     (case fl_stage (en_flights en ! f) of
        FlSettling result \<Rightarrow>
          set_stage f (FlOver result) (en\<lparr>en_minting := (en_minting en)(ob_credential (binding_of en f) := None)\<rparr>)
      | _ \<Rightarrow> en)"

definition engine_close :: "engine \<Rightarrow> engine" where
  "engine_close en = en\<lparr>en_tokens := Map.empty, en_minting := Map.empty\<rparr>"

subsection \<open>Requests\<close>

text \<open>What a request holds: an answer, or a flight to await.\<close>

datatype 'a engine_answer = Now 'a | Await nat

record acquired_token =
  aq_secret :: string
  aq_generation :: nat
  aq_proof_key :: "string option"

definition acquired_of :: "token_entry \<Rightarrow> acquired_token" where
  "acquired_of entry = \<lparr>aq_secret = te_access_token entry, aq_generation = te_generation entry, aq_proof_key = te_key entry\<rparr>"

definition source_acquire :: "rat \<Rightarrow> oauth_binding \<Rightarrow> engine \<Rightarrow> acquired_token engine_answer \<times> engine" where
  "source_acquire now' b en =
     (case en_tokens en (ob_credential b) of
        Some entry \<Rightarrow>
          if live now' entry then (Now (acquired_of entry), en)
          else (let (f, en') = mint_token b en in (Await f, en'))
      | None \<Rightarrow> (let (f, en') = mint_token b en in (Await f, en')))"

definition source_refresh :: "oauth_binding \<Rightarrow> nat \<Rightarrow> engine \<Rightarrow> acquired_token engine_answer \<times> engine" where
  "source_refresh b rejected en =
     (case en_tokens en (ob_credential b) of
        Some entry \<Rightarrow>
          if te_generation entry > rejected then (Now (acquired_of entry), en)
          else (let (f, en') = mint_token b en in (Await f, en'))
      | None \<Rightarrow> (let (f, en') = mint_token b en in (Await f, en')))"

datatype token_lease = LeaseOk | LeaseNoGrant grant_missing | LeaseGrantDead | LeaseMintFailed exchange_failure

definition engine_lease :: "rat \<Rightarrow> oauth_binding \<Rightarrow> engine \<Rightarrow> token_lease engine_answer \<times> engine" where
  "engine_lease now' b en =
     (case en_tokens en (ob_credential b) of
        Some entry \<Rightarrow>
          if live now' entry then (Now LeaseOk, en)
          else (let (f, en') = mint_token b en in (Await f, en'))
      | None \<Rightarrow> (let (f, en') = mint_token b en in (Await f, en')))"

text \<open>What the request answers when the flight is over; \<open>None\<close> is the fault that is rethrown.\<close>

definition lease_after :: "mint_failure + token_entry \<Rightarrow> token_lease option" where
  "lease_after result =
     (case result of
        Inr _ \<Rightarrow> Some LeaseOk
      | Inl (MintNoGrant reason) \<Rightarrow> Some (LeaseNoGrant reason)
      | Inl (MintExchange e) \<Rightarrow> Some (if e = TxInvalidGrant then LeaseGrantDead else LeaseMintFailed e)
      | Inl MintFault \<Rightarrow> None)"

definition refresh_after :: "mint_failure + token_entry \<Rightarrow> acquired_token option" where
  "refresh_after result = (case result of Inr entry \<Rightarrow> Some (acquired_of entry) | Inl _ \<Rightarrow> None)"

end
