(* ===== verification/Token_Safety.thy ===== *)
theory Token_Safety
  imports Token_Engine
begin

text \<open>
  Runs of the token engine: requests, flight steps, new grants and the shutdown in any order. The
  invariants say which flight a name points to, what a flight in hand of a refresh token has read,
  and which flight minted the token in memory.
\<close>

subsection \<open>Runs\<close>

datatype engine_event =
    EvAcquire rat oauth_binding
  | EvRefresh oauth_binding nat
  | EvLease rat oauth_binding
  | EvRead nat
  | EvSigned nat "string option"
  | EvFault nat
  | EvExchanged nat rat "metadata_fields fetched" "nat \<Rightarrow> reply_fields fetched"
  | EvRotated nat rat bool
  | EvSettled nat
  | EvPut string grant_record
  | EvClose

definition stage_of :: "engine \<Rightarrow> nat \<Rightarrow> flight_stage" where
  "stage_of en f = fl_stage (en_flights en ! f)"

fun enabled :: "engine_event \<Rightarrow> engine \<Rightarrow> bool" where
  "enabled (EvRead f) en \<longleftrightarrow> f < length (en_flights en) \<and> stage_of en f = FlReading"
| "enabled (EvSigned f key) en \<longleftrightarrow> f < length (en_flights en) \<and> (\<exists>r j. stage_of en f = FlSigning r j)"
| "enabled (EvFault f) en \<longleftrightarrow> f < length (en_flights en) \<and> (stage_of en f = FlReading \<or> (\<exists>r j. stage_of en f = FlSigning r j))"
| "enabled (EvExchanged f t d n) en \<longleftrightarrow> f < length (en_flights en) \<and> (\<exists>r k. stage_of en f = FlExchanging r k)"
| "enabled (EvRotated f t w) en \<longleftrightarrow> f < length (en_flights en) \<and> (\<exists>a k. stage_of en f = FlRotating a k)"
| "enabled (EvSettled f) en \<longleftrightarrow> f < length (en_flights en) \<and> (\<exists>r. stage_of en f = FlSettling r)"
| "enabled _ en \<longleftrightarrow> True"

fun engine_step :: "(string \<Rightarrow> string option) \<Rightarrow> engine_event \<Rightarrow> engine \<Rightarrow> engine" where
  "engine_step origin_of (EvAcquire t b) en = snd (source_acquire t b en)"
| "engine_step origin_of (EvRefresh b rejected) en = snd (source_refresh b rejected en)"
| "engine_step origin_of (EvLease t b) en = snd (engine_lease t b en)"
| "engine_step origin_of (EvRead f) en = flight_read f en"
| "engine_step origin_of (EvSigned f key) en = flight_signed f key en"
| "engine_step origin_of (EvFault f) en = flight_fault f en"
| "engine_step origin_of (EvExchanged f t d n) en = flight_exchanged origin_of f t d n en"
| "engine_step origin_of (EvRotated f t w) en = flight_rotated f t w en"
| "engine_step origin_of (EvSettled f) en = flight_settled f en"
| "engine_step origin_of (EvPut name g) en = (case store_put name g (en_grants en) of Inl _ \<Rightarrow> en | Inr grants \<Rightarrow> en\<lparr>en_grants := grants\<rparr>)"
| "engine_step origin_of EvClose en = engine_close en"

inductive engine_run :: "(string \<Rightarrow> string option) \<Rightarrow> grants \<Rightarrow> engine_event list \<Rightarrow> engine \<Rightarrow> bool"
  for origin_of :: "string \<Rightarrow> string option" and grants :: grants where
  start: "engine_run origin_of grants [] (new_engine grants)"
| step: "engine_run origin_of grants evs en \<Longrightarrow> enabled ev en \<Longrightarrow> engine_run origin_of grants (evs @ [ev]) (engine_step origin_of ev en)"

subsection \<open>What a step does to the flights\<close>

text \<open>Every step adds at most one new flight, or moves one flight on.\<close>

lemma set_stage_simps [simp]:
  "en_tokens (set_stage f st en) = en_tokens en" "en_minting (set_stage f st en) = en_minting en"
  "en_grants (set_stage f st en) = en_grants en" "en_posts (set_stage f st en) = en_posts en"
  "length (en_flights (set_stage f st en)) = length (en_flights en)"
  by (simp_all add: set_stage_def)

lemma set_stage_flights:
  "f < length (en_flights en) \<Longrightarrow>
     en_flights (set_stage f st en) ! g = (if g = f then (en_flights en ! f)\<lparr>fl_stage := st\<rparr> else en_flights en ! g)"
  by (simp add: set_stage_def)

definition in_air :: "engine \<Rightarrow> string \<Rightarrow> nat \<Rightarrow> bool" where
  "in_air en name f \<longleftrightarrow> f < length (en_flights en) \<and> ob_credential (binding_of en f) = name \<and> (\<forall>r. stage_of en f \<noteq> FlOver r)"

definition minting_ok :: "engine \<Rightarrow> bool" where
  "minting_ok en \<longleftrightarrow> (\<forall>name f. en_minting en name = Some f \<longleftrightarrow> in_air en name f)"

text \<open>What a flight holds.\<close>

definition holds_grant :: "flight \<Rightarrow> string \<Rightarrow> bool" where
  "holds_grant flt refresh \<longleftrightarrow>
     (\<exists>g. fl_grant flt = Some g \<and> gr_refresh g = refresh \<and> grant_binding_holds g (grant_of (fl_binding flt)))"

definition flight_ok :: "flight \<Rightarrow> bool" where
  "flight_ok flt \<longleftrightarrow>
     (case fl_stage flt of
        FlReading \<Rightarrow> True
      | FlSigning r _ \<Rightarrow> holds_grant flt r
      | FlExchanging r _ \<Rightarrow> holds_grant flt r
      | FlRotating _ _ \<Rightarrow> (\<exists>r. holds_grant flt r)
      | FlSettling (Inr _) \<Rightarrow> (\<exists>r. holds_grant flt r)
      | FlOver (Inr _) \<Rightarrow> (\<exists>r. holds_grant flt r)
      | _ \<Rightarrow> True)"

text \<open>A post is of a flight past its read.\<close>

definition post_ok :: "(string \<Rightarrow> string option) \<Rightarrow> engine \<Rightarrow> nat \<times> token_post \<Rightarrow> bool" where
  "post_ok origin_of en = (\<lambda>(f, p). f < length (en_flights en) \<and> stage_of en f \<noteq> FlReading \<and>
     holds_grant (en_flights en ! f) (tp_refresh_token p) \<and>
     origin_of (tp_url p) = origin_of (ob_issuer (binding_of en f)))"

text \<open>The token in memory was minted by a flight of its name.\<close>

definition token_ok :: "engine \<Rightarrow> bool" where
  "token_ok en \<longleftrightarrow>
     (\<forall>name entry. en_tokens en name = Some entry \<longrightarrow>
        (\<exists>f < length (en_flights en). ob_credential (binding_of en f) = name \<and>
           stage_of en f \<in> {FlSettling (Inr entry), FlOver (Inr entry)}))"

definition engine_ok :: "(string \<Rightarrow> string option) \<Rightarrow> engine \<Rightarrow> bool" where
  "engine_ok origin_of en \<longleftrightarrow>
     (\<forall>flt \<in> set (en_flights en). flight_ok flt) \<and> (\<forall>q \<in> set (en_posts en). post_ok origin_of en q) \<and> token_ok en"

subsection \<open>The invariant\<close>

lemma holds_grant_stage [simp]: "holds_grant (flt\<lparr>fl_stage := st\<rparr>) r = holds_grant flt r"
  by (simp add: holds_grant_def)

lemma set_stage_lookup:
  "f < length (en_flights en) \<Longrightarrow> stage_of (set_stage f st en) g = (if g = f then st else stage_of en g)"
  "f < length (en_flights en) \<Longrightarrow> binding_of (set_stage f st en) g = binding_of en g"
  "f < length (en_flights en) \<Longrightarrow> holds_grant (en_flights (set_stage f st en) ! g) r = holds_grant (en_flights en ! g) r"
  by (simp_all add: stage_of_def binding_of_def set_stage_flights)

lemma flights_okI: "(\<And>g. g < length (en_flights en) \<Longrightarrow> flight_ok (en_flights en ! g)) \<Longrightarrow> \<forall>flt \<in> set (en_flights en). flight_ok flt"
  by (metis in_set_conv_nth)

lemma token_okD: "token_ok en \<Longrightarrow> en_tokens en name = Some entry \<Longrightarrow>
    \<exists>f < length (en_flights en). ob_credential (binding_of en f) = name \<and>
      stage_of en f \<in> {FlSettling (Inr entry), FlOver (Inr entry)}"
  by (simp add: token_ok_def)

lemma token_ok_cong: "en_tokens en' = en_tokens en \<Longrightarrow> length (en_flights en') = length (en_flights en) \<Longrightarrow>
    stage_of en' = stage_of en \<Longrightarrow> binding_of en' = binding_of en \<Longrightarrow> token_ok en' = token_ok en"
  by (simp add: token_ok_def)

lemma set_stage_ok:
  assumes "engine_ok origin_of en" and "f < length (en_flights en)"
    and "flight_ok ((en_flights en ! f)\<lparr>fl_stage := st\<rparr>)" and "st \<noteq> FlReading"
    and "\<And>e. stage_of en f = FlSettling (Inr e) \<Longrightarrow> st = FlOver (Inr e)" and "\<And>r. stage_of en f \<noteq> FlOver r"
  shows "engine_ok origin_of (set_stage f st en)"
proof -
  have "\<forall>flt \<in> set (en_flights (set_stage f st en)). flight_ok flt"
    using assms(1-3) by (intro flights_okI) (auto simp: engine_ok_def set_stage_flights)
  moreover have "post_ok origin_of (set_stage f st en) q" if "q \<in> set (en_posts en)" for q
  proof -
    from that assms(1) have "post_ok origin_of en q" by (simp add: engine_ok_def)
    with assms(2,4) show ?thesis by (cases q) (simp add: post_ok_def set_stage_lookup)
  qed
  moreover have "token_ok (set_stage f st en)"
    unfolding token_ok_def
  proof (intro allI impI)
    fix name entry assume "en_tokens (set_stage f st en) name = Some entry"
    with token_okD [of en name entry] assms(1) obtain g where g: "g < length (en_flights en)" "ob_credential (binding_of en g) = name"
        "stage_of en g \<in> {FlSettling (Inr entry), FlOver (Inr entry)}"
      by (auto simp: engine_ok_def)
    with assms(2,5,6)
    show "\<exists>g < length (en_flights (set_stage f st en)). ob_credential (binding_of (set_stage f st en) g) = name \<and>
        stage_of (set_stage f st en) g \<in> {FlSettling (Inr entry), FlOver (Inr entry)}"
      by (intro exI [of _ g]) (auto simp: set_stage_lookup)
  qed
  ultimately show ?thesis by (simp add: engine_ok_def)
qed

lemma engine_ok_frame:
  assumes "engine_ok origin_of en" and "en_flights en' = en_flights en" and "en_posts en' = en_posts en"
    and "\<And>name entry. en_tokens en' name = Some entry \<Longrightarrow> en_tokens en name = Some entry"
  shows "engine_ok origin_of en'"
proof -
  have "stage_of en' = stage_of en" "binding_of en' = binding_of en"
    using assms(2) by (simp_all add: stage_of_def binding_of_def fun_eq_iff)
  with assms show ?thesis by (auto simp: engine_ok_def post_ok_def token_ok_def)
qed

lemma mint_token_ok:
  assumes "engine_ok origin_of en"
  shows "engine_ok origin_of (snd (mint_token b en))"
proof (cases "en_minting en (ob_credential b)")
  case None
  let ?en = "en\<lparr>en_flights := en_flights en @ [\<lparr>fl_binding = b, fl_stage = FlReading, fl_grant = None\<rparr>],
                en_minting := (en_minting en)(ob_credential b \<mapsto> length (en_flights en))\<rparr>"
  have old: "stage_of ?en f = stage_of en f" "binding_of ?en f = binding_of en f" if "f < length (en_flights en)" for f
    using that by (simp_all add: stage_of_def binding_of_def nth_append)
  have "\<forall>q \<in> set (en_posts en). post_ok origin_of ?en q"
    using assms old by (auto simp: engine_ok_def post_ok_def nth_append)
  moreover have "token_ok ?en"
    unfolding token_ok_def
  proof (intro allI impI)
    fix name entry assume "en_tokens ?en name = Some entry"
    with token_okD [of en name entry] assms obtain g where "g < length (en_flights en)" "ob_credential (binding_of en g) = name"
        "stage_of en g \<in> {FlSettling (Inr entry), FlOver (Inr entry)}"
      by (auto simp: engine_ok_def)
    with old show "\<exists>g < length (en_flights ?en). ob_credential (binding_of ?en g) = name \<and>
        stage_of ?en g \<in> {FlSettling (Inr entry), FlOver (Inr entry)}"
      by (intro exI [of _ g]) auto
  qed
  moreover have "\<forall>flt \<in> set (en_flights ?en). flight_ok flt"
    using assms by (simp add: engine_ok_def flight_ok_def)
  ultimately show ?thesis using None by (simp add: mint_token_def Let_def engine_ok_def)
qed (use assms in \<open>simp add: mint_token_def\<close>)

lemma requests_mint:
  "snd (source_acquire t b en) \<in> {en, snd (mint_token b en)}"
  "snd (source_refresh b rejected en) \<in> {en, snd (mint_token b en)}"
  "snd (engine_lease t b en) \<in> {en, snd (mint_token b en)}"
  by (auto simp: source_acquire_def source_refresh_def engine_lease_def split: option.splits prod.splits)

lemma check_key_ok:
  "holds_grant flt refresh \<Longrightarrow> flight_ok (flt\<lparr>fl_stage := check_key refresh jkt key\<rparr>) \<and> check_key refresh jkt key \<noteq> FlReading"
  by (simp add: check_key_def flight_ok_def)

lemma store_read_found:
  "store_read grants name b = GrantFound refresh client jkt \<Longrightarrow>
     \<exists>g. grants name = Some g \<and> gr_refresh g = refresh \<and> gr_jkt g = jkt \<and> grant_binding_holds g b"
  by (auto simp: store_read_def read_grant_def grant_binding_holds_def split: if_splits option.splits)

lemma flight_read_ok:
  assumes "engine_ok origin_of en" and "f < length (en_flights en)" and "stage_of en f = FlReading"
  shows "engine_ok origin_of (flight_read f en)"
proof (cases "store_read (en_grants en) (ob_credential (binding_of en f)) (grant_of (binding_of en f))")
  case (GrantMissing reason)
  with assms set_stage_ok [OF assms(1,2), of "FlSettling (Inl (MintNoGrant reason))"]
  show ?thesis by (simp add: flight_read_def flight_ok_def)
next
  case (GrantFound refresh client jkt)
  let ?b = "binding_of en f"
  let ?flt = "(en_flights en ! f)\<lparr>fl_grant := en_grants en (ob_credential ?b)\<rparr>"
  define en' where "en' = en\<lparr>en_flights := (en_flights en)[f := ?flt]\<rparr>"
  have en': "en_tokens en' = en_tokens en" "en_posts en' = en_posts en" "en_flights en' = (en_flights en)[f := ?flt]"
    by (simp_all add: en'_def)
  from store_read_found [OF GrantFound] have h: "holds_grant (en_flights en' ! f) refresh"
    using assms(2) by (auto simp: en'_def holds_grant_def binding_of_def)
  have flt: "en_flights en' ! g = (if g = f then ?flt else en_flights en ! g)" for g
    using assms(2) by (simp add: en')
  then have same: "stage_of en' = stage_of en" "binding_of en' = binding_of en"
    by (auto simp: stage_of_def binding_of_def fun_eq_iff)
  have "flight_ok (en_flights en' ! g)" if "g < length (en_flights en)" for g
    using assms(1,3) that by (cases "g = f") (auto simp: flt engine_ok_def flight_ok_def stage_of_def)
  then have "\<forall>flt \<in> set (en_flights en'). flight_ok flt" by (intro flights_okI) (simp add: en')
  moreover have "post_ok origin_of en' q" if "q \<in> set (en_posts en)" for q
  proof -
    from that assms(1) have q: "post_ok origin_of en q" by (simp add: engine_ok_def)
    obtain g p where gp: "q = (g, p)" by fastforce
    with q assms(3) have "g \<noteq> f" by (auto simp: post_ok_def)
    with q gp same show ?thesis by (simp add: post_ok_def en')
  qed
  moreover have "token_ok en'"
    using assms(1) token_ok_cong [of en' en] same by (simp add: en' engine_ok_def)
  ultimately have ok: "engine_ok origin_of en'" by (simp add: engine_ok_def en')
  let ?st = "if ob_dpop ?b = DpopOff then check_key refresh jkt None else FlSigning refresh jkt"
  have "flight_ok ((en_flights en' ! f)\<lparr>fl_stage := ?st\<rparr>)" "?st \<noteq> FlReading"
    using check_key_ok [OF h, of jkt None] h by (auto simp: flight_ok_def)
  with set_stage_ok [OF ok _ this] same assms(2,3) have "engine_ok origin_of (set_stage f ?st en')" by (simp add: en')
  with GrantFound show ?thesis by (simp add: flight_read_def Let_def en'_def)
qed

lemma engine_ok_token:
  assumes "engine_ok origin_of en" and "f < length (en_flights en)" and "stage_of en f = FlSettling (Inr entry)"
  shows "engine_ok origin_of (en\<lparr>en_tokens := (en_tokens en)(ob_credential (binding_of en f) \<mapsto> entry)\<rparr>)"
proof -
  define en' where "en' = en\<lparr>en_tokens := (en_tokens en)(ob_credential (binding_of en f) \<mapsto> entry)\<rparr>"
  have same: "stage_of en' = stage_of en" "binding_of en' = binding_of en" "en_flights en' = en_flights en" "en_posts en' = en_posts en"
    by (simp_all add: en'_def stage_of_def binding_of_def fun_eq_iff)
  have "token_ok en'"
    unfolding token_ok_def
  proof (intro allI impI)
    fix name e assume "en_tokens en' name = Some e"
    moreover have "en_tokens en' = (en_tokens en)(ob_credential (binding_of en f) \<mapsto> entry)" by (simp add: en'_def)
    ultimately consider "name = ob_credential (binding_of en f)" "e = entry" | "en_tokens en name = Some e"
      by (metis fun_upd_apply option.inject)
    then show "\<exists>g < length (en_flights en'). ob_credential (binding_of en' g) = name \<and> stage_of en' g \<in> {FlSettling (Inr e), FlOver (Inr e)}"
    proof cases
      case 1
      with assms(2,3) same show ?thesis by (intro exI [of _ f]) simp
    next
      case 2
      with token_okD assms(1) same show ?thesis by (simp add: engine_ok_def)
    qed
  qed
  moreover have "post_ok origin_of en' q = post_ok origin_of en q" for q
    using same by (cases q) (simp add: post_ok_def)
  ultimately have "engine_ok origin_of en'" using assms(1) same by (simp add: engine_ok_def)
  then show ?thesis by (simp add: en'_def)
qed

definition unsettled :: "flight_stage \<Rightarrow> bool" where
  "unsettled st \<longleftrightarrow> (\<forall>r. st \<noteq> FlSettling r \<and> st \<noteq> FlOver r)"

lemma set_stage_tokens: "set_stage f st (en\<lparr>en_tokens := ts\<rparr>) = (set_stage f st en)\<lparr>en_tokens := ts\<rparr>"
  by (simp add: set_stage_def)

lemma token_minted_ok:
  assumes "engine_ok origin_of en" and "f < length (en_flights en)" and "unsettled (stage_of en f)"
    and "holds_grant (en_flights en ! f) r"
  shows "engine_ok origin_of (token_minted f t answer key en)"
proof -
  define entry where "entry = \<lparr>te_access_token = ta_access_token answer,
                   te_expires_at = map_option (\<lambda>x. fl (t + fl (x * 1000))) (ta_expires_in answer),
                   te_generation = (case en_tokens en (ob_credential (binding_of en f)) of None \<Rightarrow> 0 | Some old \<Rightarrow> te_generation old) + 1,
                   te_type = ta_type answer,
                   te_key = (if ta_type answer = Dpop then key else None)\<rparr>"
  let ?en = "set_stage f (FlSettling (Inr entry)) en"
  have "engine_ok origin_of ?en"
    using assms by (intro set_stage_ok) (auto simp: flight_ok_def unsettled_def)
  from engine_ok_token [OF this, of f entry] assms(2)
  have "engine_ok origin_of (?en\<lparr>en_tokens := (en_tokens en)(ob_credential (binding_of en f) \<mapsto> entry)\<rparr>)"
    by (simp add: set_stage_lookup)
  moreover have "token_minted f t answer key en = ?en\<lparr>en_tokens := (en_tokens en)(ob_credential (binding_of en f) \<mapsto> entry)\<rparr>"
    unfolding token_minted_def Let_def set_stage_tokens entry_def ..
  ultimately show ?thesis by simp
qed

lemma mint_failed_ok:
  assumes "engine_ok origin_of en" and "f < length (en_flights en)" and "unsettled (stage_of en f)"
  shows "engine_ok origin_of (mint_failed f e en)"
proof -
  define en' where "en' = (if e = TxInvalidGrant then en\<lparr>en_tokens := (en_tokens en)(ob_credential (binding_of en f) := None)\<rparr> else en)"
  have same: "en_flights en' = en_flights en" "stage_of en' f = stage_of en f" by (simp_all add: en'_def stage_of_def)
  have "engine_ok origin_of en'"
    by (rule engine_ok_frame [OF assms(1)]) (auto simp: en'_def split: if_splits)
  moreover have "stage_of en' f \<noteq> FlSettling x" "stage_of en' f \<noteq> FlOver x" for x
    using assms(3) same by (simp_all add: unsettled_def)
  ultimately have "engine_ok origin_of (set_stage f (FlSettling (Inl (MintExchange e))) en')"
    using assms(2) same by (intro set_stage_ok) (simp add: flight_ok_def | metis)+
  then show ?thesis by (simp add: mint_failed_def Let_def en'_def)
qed

lemma flight_signed_ok:
  assumes "engine_ok origin_of en" and "f < length (en_flights en)" and "stage_of en f = FlSigning r j"
  shows "engine_ok origin_of (flight_signed f key en)"
proof -
  have "flight_ok (en_flights en ! f)" using assms(1,2) by (auto simp: engine_ok_def)
  with assms(3) have "holds_grant (en_flights en ! f) r" by (simp add: flight_ok_def stage_of_def)
  from check_key_ok [OF this, of j key] set_stage_ok [OF assms(1,2)] assms(3)
  show ?thesis by (simp add: flight_signed_def stage_of_def)
qed

lemma flight_exchanged_ok:
  assumes "engine_ok origin_of en" and "f < length (en_flights en)" and "stage_of en f = FlExchanging r k"
  shows "engine_ok origin_of (flight_exchanged origin_of f t d n en)"
proof -
  let ?b = "binding_of en f"
  obtain result posts where x: "exchange_refresh_token origin_of d n (ob_issuer ?b) r (ob_dpop ?b) k = (result, posts)"
    by fastforce
  have h: "holds_grant (en_flights en ! f) r"
    using assms by (auto simp: engine_ok_def flight_ok_def stage_of_def dest!: bspec [OF _ nth_mem])
  define en' where "en' = en\<lparr>en_posts := en_posts en @ map (Pair f) posts\<rparr>"
  have same: "en_flights en' = en_flights en" "stage_of en' = stage_of en" "binding_of en' = binding_of en" "en_tokens en' = en_tokens en"
    by (simp_all add: en'_def stage_of_def binding_of_def fun_eq_iff)
  have "post_ok origin_of en' q" if "q \<in> set (en_posts en')" for q
  proof (cases "q \<in> set (en_posts en)")
    case True
    with assms(1) same show ?thesis by (simp add: engine_ok_def post_ok_def)
  next
    case False
    with that obtain p where p: "q = (f, p)" "p \<in> set posts" by (auto simp: en'_def)
    from exchange_posts [OF x p(2)] p(1) h assms(2,3) same show ?thesis by (simp add: post_ok_def)
  qed
  with assms(1) same token_ok_cong [of en' en] have ok: "engine_ok origin_of en'" by (simp add: engine_ok_def)
  have st: "unsettled (stage_of en' f)" "f < length (en_flights en')" "holds_grant (en_flights en' ! f) r"
    using assms(2,3) h same by (simp_all add: unsettled_def)
  have step: "flight_exchanged origin_of f t d n en =
      (case result of Inl e \<Rightarrow> mint_failed f e en'
       | Inr answer \<Rightarrow> if ta_rotated answer \<noteq> None then set_stage f (FlRotating answer k) en' else token_minted f t answer k en')"
    using assms(3) x by (simp add: flight_exchanged_def stage_of_def en'_def Let_def split: sum.split)
  have "engine_ok origin_of (set_stage f (FlRotating answer k) en')" for answer
    using ok st assms(3) same by (intro set_stage_ok) (auto simp: flight_ok_def)
  with mint_failed_ok [OF ok st(2,1)] token_minted_ok [OF ok st(2,1,3)] step show ?thesis
    by (simp split: sum.splits)
qed

lemma flight_rotated_ok:
  assumes "engine_ok origin_of en" and "f < length (en_flights en)" and "stage_of en f = FlRotating a k"
  shows "engine_ok origin_of (flight_rotated f t w en)"
proof -
  have "flight_ok (en_flights en ! f)" using assms(1,2) by (auto simp: engine_ok_def)
  with assms(3) obtain r where h: "holds_grant (en_flights en ! f) r" by (auto simp: flight_ok_def stage_of_def)
  have un: "unsettled (stage_of en f)" using assms(3) by (simp add: unsettled_def)
  have "engine_ok origin_of (token_minted f t a k (en\<lparr>en_grants := grants\<rparr>))" for grants
  proof (rule token_minted_ok)
    show "engine_ok origin_of (en\<lparr>en_grants := grants\<rparr>)" by (rule engine_ok_frame [OF assms(1)]) auto
  qed (use assms(2) un h in \<open>simp_all add: stage_of_def\<close>)
  with mint_failed_ok [OF assms(1,2) un] assms(3) show ?thesis
    by (simp add: flight_rotated_def stage_of_def Let_def split: sum.splits)
qed

lemma flight_settled_ok:
  assumes "engine_ok origin_of en" and "f < length (en_flights en)" and "stage_of en f = FlSettling r"
  shows "engine_ok origin_of (flight_settled f en)"
proof -
  let ?en = "en\<lparr>en_minting := (en_minting en)(ob_credential (binding_of en f) := None)\<rparr>"
  have "engine_ok origin_of ?en" by (rule engine_ok_frame [OF assms(1)]) auto
  moreover have "flight_ok (en_flights en ! f)" using assms(1,2) by (auto simp: engine_ok_def)
  ultimately have "engine_ok origin_of (set_stage f (FlOver r) ?en)"
    using assms(2,3) by (intro set_stage_ok) (auto simp: flight_ok_def stage_of_def split: sum.splits)
  with assms(3) show ?thesis by (simp add: flight_settled_def stage_of_def)
qed

lemma engine_step_ok:
  assumes "engine_ok origin_of en" and "enabled ev en"
  shows "engine_ok origin_of (engine_step origin_of ev en)"
proof (cases ev)
  case (EvAcquire t b)
  then show ?thesis using requests_mint(1) [of t b en] assms(1) mint_token_ok [OF assms(1), of b] by auto
next
  case (EvRefresh b n)
  then show ?thesis using requests_mint(2) [of b n en] assms(1) mint_token_ok [OF assms(1), of b] by auto
next
  case (EvLease t b)
  then show ?thesis using requests_mint(3) [of t b en] assms(1) mint_token_ok [OF assms(1), of b] by auto
next
  case (EvFault f)
  with assms show ?thesis by (auto simp: flight_fault_def flight_ok_def intro!: set_stage_ok)
next
  case (EvPut name g)
  have "engine_ok origin_of (en\<lparr>en_grants := grants\<rparr>)" for grants by (rule engine_ok_frame [OF assms(1)]) auto
  with EvPut assms(1) show ?thesis by (auto split: sum.splits)
next
  case EvClose
  have "engine_ok origin_of (engine_close en)" by (rule engine_ok_frame [OF assms(1)]) (auto simp: engine_close_def)
  with EvClose show ?thesis by simp
qed (use assms flight_read_ok flight_signed_ok flight_exchanged_ok flight_rotated_ok flight_settled_ok in auto)

lemma engine_run_ok: "engine_run origin_of grants evs en \<Longrightarrow> engine_ok origin_of en"
proof (induction rule: engine_run.induct)
  case start
  then show ?case by (simp add: engine_ok_def new_engine_def token_ok_def)
qed (rule engine_step_ok)

subsection \<open>One flight per name\<close>

lemma minting_ok_cong:
  "minting_ok en \<Longrightarrow> en_minting en' = en_minting en \<Longrightarrow> length (en_flights en') = length (en_flights en) \<Longrightarrow>
     binding_of en' = binding_of en \<Longrightarrow> stage_of en' = stage_of en \<Longrightarrow> minting_ok en'"
  by (simp add: minting_ok_def in_air_def)

lemma minting_ok_frame:
  "minting_ok en \<Longrightarrow> en_minting en' = en_minting en \<Longrightarrow> en_flights en' = en_flights en \<Longrightarrow> minting_ok en'"
  by (rule minting_ok_cong) (simp_all add: binding_of_def [abs_def] stage_of_def [abs_def])

lemma minting_ok_stage:
  assumes "minting_ok en" and "f < length (en_flights en)" and "\<And>r. stage_of en f \<noteq> FlOver r" and "\<And>r. st \<noteq> FlOver r"
  shows "minting_ok (set_stage f st en)"
proof -
  have "in_air (set_stage f st en) name g = in_air en name g" for name g
    using assms(2-4) by (auto simp: in_air_def set_stage_lookup)
  with assms(1) show ?thesis by (simp add: minting_ok_def)
qed

lemma mint_token_minting:
  assumes "minting_ok en"
  shows "minting_ok (snd (mint_token b en))"
proof (cases "en_minting en (ob_credential b)")
  case None
  define en' where "en' = snd (mint_token b en)"
  have en': "en_flights en' = en_flights en @ [\<lparr>fl_binding = b, fl_stage = FlReading, fl_grant = None\<rparr>]"
    "en_minting en' = (en_minting en)(ob_credential b \<mapsto> length (en_flights en))"
    using None by (simp_all add: en'_def mint_token_def Let_def)
  have air: "in_air en' name f \<longleftrightarrow> in_air en name f \<or> f = length (en_flights en) \<and> name = ob_credential b" for name f
    by (auto simp: in_air_def en' stage_of_def binding_of_def nth_append less_Suc_eq)
  have "\<not> in_air en (ob_credential b) f" for f
    using assms None unfolding minting_ok_def by (metis option.distinct(1))
  moreover have "\<not> in_air en name (length (en_flights en))" for name by (simp add: in_air_def)
  ultimately have "minting_ok en'"
    using assms by (auto simp: minting_ok_def air en')
  then show ?thesis by (simp add: en'_def)
qed (use assms in \<open>simp add: mint_token_def\<close>)

lemma settled_minting:
  assumes "minting_ok en" and "f < length (en_flights en)" and "stage_of en f = FlSettling r"
  shows "minting_ok (flight_settled f en)"
proof -
  let ?name = "ob_credential (binding_of en f)"
  define en' where "en' = flight_settled f en"
  have m: "en_minting en' = (en_minting en)(?name := None)"
    using assms(3) by (simp add: en'_def flight_settled_def stage_of_def)
  have air: "in_air en' name g \<longleftrightarrow> in_air en name g \<and> g \<noteq> f" for name g
    using assms(2,3) by (auto simp: en'_def flight_settled_def stage_of_def in_air_def set_stage_def binding_of_def nth_list_update)
  have "in_air en ?name f" using assms(2,3) by (simp add: in_air_def)
  then have only: "in_air en ?name g \<longleftrightarrow> g = f" for g using assms(1) by (metis minting_ok_def option.inject)
  have "\<not> in_air en name f" if "name \<noteq> ?name" for name using that by (simp add: in_air_def)
  with assms(1) only have "minting_ok en'" by (auto simp: minting_ok_def m air)
  then show ?thesis by (simp add: en'_def)
qed

lemma token_minted_minting:
  assumes "minting_ok en" and "f < length (en_flights en)" and "unsettled (stage_of en f)"
  shows "minting_ok (token_minted f t a k en)"
proof -
  have over: "stage_of en f \<noteq> FlOver r" for r using assms(3) by (simp add: unsettled_def)
  show ?thesis
    unfolding token_minted_def Let_def set_stage_tokens
    by (rule minting_ok_frame [OF minting_ok_stage [OF assms(1,2) over]]) simp_all
qed

lemma mint_failed_minting:
  assumes "minting_ok en" and "f < length (en_flights en)" and "unsettled (stage_of en f)"
  shows "minting_ok (mint_failed f e en)"
proof -
  have over: "stage_of en f \<noteq> FlOver r" for r using assms(3) by (simp add: unsettled_def)
  have "mint_failed f e en = (set_stage f (FlSettling (Inl (MintExchange e))) en)
      \<lparr>en_tokens := (if e = TxInvalidGrant then (en_tokens en)(ob_credential (binding_of en f) := None) else en_tokens en)\<rparr>"
    by (simp add: mint_failed_def Let_def set_stage_def)
  then show ?thesis
    by (simp add: minting_ok_frame [OF minting_ok_stage [OF assms(1,2) over, of "FlSettling (Inl (MintExchange e))"]])
qed

lemma exchanged_minting:
  assumes "minting_ok en" and "f < length (en_flights en)" and "stage_of en f = FlExchanging r k"
  shows "minting_ok (flight_exchanged origin_of f t d n en)"
proof -
  obtain result posts where x: "exchange_refresh_token origin_of d n (ob_issuer (binding_of en f)) r (ob_dpop (binding_of en f)) k = (result, posts)"
    by fastforce
  define en' where "en' = en\<lparr>en_posts := en_posts en @ map (Pair f) posts\<rparr>"
  have ok: "minting_ok en'" by (rule minting_ok_frame [OF assms(1)]) (simp_all add: en'_def)
  have st: "f < length (en_flights en')" "stage_of en' f = FlExchanging r k"
    using assms(2,3) by (simp_all add: en'_def stage_of_def)
  have un: "unsettled (stage_of en' f)" by (simp add: st(2) unsettled_def)
  have "flight_exchanged origin_of f t d n en =
      (case result of Inl e \<Rightarrow> mint_failed f e en'
       | Inr answer \<Rightarrow> if ta_rotated answer \<noteq> None then set_stage f (FlRotating answer k) en' else token_minted f t answer k en')"
    using assms(3) x by (simp add: flight_exchanged_def stage_of_def en'_def Let_def split: sum.split)
  with mint_failed_minting [OF ok st(1) un] token_minted_minting [OF ok st(1) un] minting_ok_stage [OF ok st(1)] st(2)
  show ?thesis by (simp split: sum.split)
qed

lemma rotated_minting:
  assumes "minting_ok en" and "f < length (en_flights en)" and "stage_of en f = FlRotating a k"
  shows "minting_ok (flight_rotated f t w en)"
proof -
  have un: "unsettled (stage_of en f)" by (simp add: assms(3) unsettled_def)
  have "minting_ok (token_minted f t a k (en\<lparr>en_grants := g\<rparr>))" for g
    by (rule token_minted_minting [OF minting_ok_frame [OF assms(1)]]) (use assms(2) un in \<open>simp_all add: stage_of_def\<close>)
  with mint_failed_minting [OF assms(1,2) un] assms(3) show ?thesis
    by (simp add: flight_rotated_def stage_of_def Let_def split: sum.splits)
qed

lemma read_minting:
  assumes "minting_ok en" and "f < length (en_flights en)" and "stage_of en f = FlReading"
  shows "minting_ok (flight_read f en)"
proof -
  define en' where "en' = en\<lparr>en_flights := (en_flights en)[f := (en_flights en ! f)\<lparr>fl_grant := en_grants en (ob_credential (binding_of en f))\<rparr>]\<rparr>"
  have flt: "en_flights en' ! g = (if g = f then (en_flights en ! f)\<lparr>fl_grant := en_grants en (ob_credential (binding_of en f))\<rparr> else en_flights en ! g)" for g
    using assms(2) by (simp add: en'_def)
  then have same: "stage_of en' = stage_of en" "binding_of en' = binding_of en"
    by (auto simp: stage_of_def binding_of_def fun_eq_iff)
  have ok: "minting_ok en'" by (rule minting_ok_cong [OF assms(1)]) (use same in \<open>simp_all add: en'_def\<close>)
  have "check_key r j k \<noteq> FlOver x" for r j k x by (simp add: check_key_def)
  with minting_ok_stage [OF assms(1,2)] minting_ok_stage [OF ok, of f] assms(2,3) same
  show ?thesis
    by (simp add: flight_read_def Let_def en'_def [symmetric] split: grant_read.split) (simp add: en'_def)
qed

lemma engine_step_minting:
  assumes "minting_ok en" and "enabled ev en" and "ev \<noteq> EvClose"
  shows "minting_ok (engine_step origin_of ev en)"
proof (cases ev)
  case (EvAcquire t b)
  then show ?thesis using requests_mint(1) [of t b en] assms(1) mint_token_minting [OF assms(1), of b] by auto
next
  case (EvRefresh b n)
  then show ?thesis using requests_mint(2) [of b n en] assms(1) mint_token_minting [OF assms(1), of b] by auto
next
  case (EvLease t b)
  then show ?thesis using requests_mint(3) [of t b en] assms(1) mint_token_minting [OF assms(1), of b] by auto
next
  case (EvFault f)
  with assms show ?thesis by (auto simp: flight_fault_def intro!: minting_ok_stage)
next
  case (EvSigned f key)
  have "check_key r j k \<noteq> FlOver x" for r j k x by (simp add: check_key_def)
  with EvSigned assms show ?thesis by (auto simp: flight_signed_def stage_of_def intro!: minting_ok_stage)
next
  case (EvPut name g)
  have "minting_ok (en\<lparr>en_grants := grants\<rparr>)" for grants by (rule minting_ok_frame [OF assms(1)]) auto
  with EvPut assms(1) show ?thesis by (auto split: sum.splits)
qed (use assms read_minting exchanged_minting rotated_minting settled_minting in auto)

lemma engine_run_minting: "engine_run origin_of grants evs en \<Longrightarrow> EvClose \<notin> set evs \<Longrightarrow> minting_ok en"
proof (induction rule: engine_run.induct)
  case start
  then show ?case by (simp add: minting_ok_def in_air_def new_engine_def)
qed (auto intro!: engine_step_minting)

subsection \<open>What the engine guarantees\<close>

text \<open>
  C39. In every run, each refresh token sent was read, by the flight that sent it, from a grant made for
  exactly the issuer that flight was asked for and covering its scopes, and it was sent to an endpoint
  of that issuer's origin. And in every run in which the engine has not been closed, no two flights for one
  credential are in the air; closing forgets the flights there are (lemma \<open>close_forgets_flights\<close>).
\<close>

theorem refresh_tokens_stay_home:
  assumes "engine_run origin_of grants evs en"
  shows "(\<forall>(f, p) \<in> set (en_posts en). \<exists>g. fl_grant (en_flights en ! f) = Some g \<and> tp_refresh_token p = gr_refresh g \<and>
       gr_issuer g = ob_issuer (binding_of en f) \<and> set (ob_scopes (binding_of en f)) \<subseteq> set (gr_scopes g) \<and>
       origin_of (tp_url p) = origin_of (ob_issuer (binding_of en f))) \<and>
    (EvClose \<notin> set evs \<longrightarrow> (\<forall>name f f'. in_air en name f \<and> in_air en name f' \<longrightarrow> f = f'))"
proof (intro conjI impI allI)
  have "\<forall>q \<in> set (en_posts en). post_ok origin_of en q" using engine_run_ok [OF assms] by (simp add: engine_ok_def)
  then show "\<forall>(f, p) \<in> set (en_posts en). \<exists>g. fl_grant (en_flights en ! f) = Some g \<and> tp_refresh_token p = gr_refresh g \<and>
       gr_issuer g = ob_issuer (binding_of en f) \<and> set (ob_scopes (binding_of en f)) \<subseteq> set (gr_scopes g) \<and>
       origin_of (tp_url p) = origin_of (ob_issuer (binding_of en f))"
    by (fastforce simp: post_ok_def holds_grant_def grant_binding_holds_def grant_of_def binding_of_def list_all_iff)
next
  fix name f f' assume "EvClose \<notin> set evs" "in_air en name f \<and> in_air en name f'"
  with engine_run_minting [OF assms] show "f = f'" by (metis minting_ok_def option.inject)
qed

text \<open>
  Where every flight of a credential was asked with one issuer and one list of scopes, a lease or a
  source answers at once only with a token that is not within thirty seconds of its expiry and that
  was minted under a grant for that issuer and those scopes.
\<close>

theorem served_token_was_granted:
  assumes "engine_run origin_of grants evs en"
    and "\<forall>f < length (en_flights en). ob_credential (binding_of en f) = ob_credential b \<longrightarrow> grant_of (binding_of en f) = grant_of b"
    and "source_acquire now' b en = (Now token, en')"
  shows "\<exists>f entry g. en_tokens en (ob_credential b) = Some entry \<and> token = acquired_of entry \<and> live now' entry \<and>
    stage_of en f \<in> {FlSettling (Inr entry), FlOver (Inr entry)} \<and>
    fl_grant (en_flights en ! f) = Some g \<and> gr_issuer g = ob_issuer b \<and> set (ob_scopes b) \<subseteq> set (gr_scopes g) \<and>
    fst (engine_lease now' b en) = Now LeaseOk"
proof -
  from assms(3) obtain entry where e: "en_tokens en (ob_credential b) = Some entry" "live now' entry" "token = acquired_of entry"
    by (auto simp: source_acquire_def split: option.splits if_splits prod.splits)
  note ok = engine_run_ok [OF assms(1)]
  from ok e(1) token_okD obtain f where f: "f < length (en_flights en)" "ob_credential (binding_of en f) = ob_credential b"
      "stage_of en f \<in> {FlSettling (Inr entry), FlOver (Inr entry)}"
    by (metis engine_ok_def)
  from ok f(1) have "flight_ok (en_flights en ! f)" by (auto simp: engine_ok_def)
  with f(3) obtain r where "holds_grant (en_flights en ! f) r" by (auto simp: flight_ok_def stage_of_def)
  then obtain g where g: "fl_grant (en_flights en ! f) = Some g" "grant_binding_holds g (grant_of (binding_of en f))"
    by (auto simp: holds_grant_def binding_of_def)
  have "grant_of (binding_of en f) = grant_of b" using assms(2) f by blast
  with g(2) have "gr_issuer g = ob_issuer b" "set (ob_scopes b) \<subseteq> set (gr_scopes g)"
    by (auto simp: grant_binding_holds_def grant_of_def list_all_iff)
  moreover have "fst (engine_lease now' b en) = Now LeaseOk" using e by (simp add: engine_lease_def)
  ultimately show ?thesis using e f(3) g(1) by blast
qed

subsection \<open>A run\<close>

lemma enabled_code [code]:
  "enabled (EvRead f) en = (f < length (en_flights en) \<and> (case stage_of en f of FlReading \<Rightarrow> True | _ \<Rightarrow> False))"
  "enabled (EvSigned f key) en = (f < length (en_flights en) \<and> (case stage_of en f of FlSigning _ _ \<Rightarrow> True | _ \<Rightarrow> False))"
  "enabled (EvFault f) en = (f < length (en_flights en) \<and> (case stage_of en f of FlReading \<Rightarrow> True | FlSigning _ _ \<Rightarrow> True | _ \<Rightarrow> False))"
  "enabled (EvExchanged f t d n) en = (f < length (en_flights en) \<and> (case stage_of en f of FlExchanging _ _ \<Rightarrow> True | _ \<Rightarrow> False))"
  "enabled (EvRotated f t w) en = (f < length (en_flights en) \<and> (case stage_of en f of FlRotating _ _ \<Rightarrow> True | _ \<Rightarrow> False))"
  "enabled (EvSettled f) en = (f < length (en_flights en) \<and> (case stage_of en f of FlSettling _ \<Rightarrow> True | _ \<Rightarrow> False))"
  "enabled (EvAcquire t b) en = True" "enabled (EvRefresh b rejected) en = True" "enabled (EvLease t b) en = True"
  "enabled (EvPut name g) en = True" "enabled EvClose en = True"
  by (auto split: flight_stage.splits)

fun run_enabled :: "(string \<Rightarrow> string option) \<Rightarrow> engine_event list \<Rightarrow> engine \<Rightarrow> bool" where
  "run_enabled origin_of [] en \<longleftrightarrow> True"
| "run_enabled origin_of (ev # evs) en \<longleftrightarrow> enabled ev en \<and> run_enabled origin_of evs (engine_step origin_of ev en)"

lemma run_enabled_run:
  "engine_run origin_of grants evs0 en \<Longrightarrow> run_enabled origin_of evs en \<Longrightarrow>
     engine_run origin_of grants (evs0 @ evs) (fold (engine_step origin_of) evs en)"
proof (induction evs arbitrary: evs0 en)
  case (Cons ev evs)
  then show ?case using Cons.IH [OF engine_run.step [OF Cons.prems(1), of ev]] by simp
qed simp

definition demo_grant :: grant_record where
  "demo_grant = \<lparr>gr_issuer = ''https://as'', gr_client = ''c'', gr_refresh = ''rt1'', gr_scopes = [''mcp.read''],
     gr_obtained_at = Some 0, gr_rotated_at = None, gr_jkt = Some ''jkt''\<rparr>"

definition demo_grants :: grants where
  "demo_grants = [''gh'' \<mapsto> demo_grant]"

definition demo_binding :: oauth_binding where
  "demo_binding = \<lparr>ob_credential = ''gh'', ob_issuer = ''https://as'', ob_scopes = [''mcp.read''], ob_dpop = DpopRequire\<rparr>"

definition demo_mint :: "engine_event list" where
  "demo_mint = [EvLease 0 demo_binding, EvRead 0, EvSigned 0 (Some ''jkt''), EvExchanged 0 5 demo_discovery demo_net]"

definition demo_minted :: engine where
  "demo_minted = fold (engine_step demo_origin) (demo_mint @ [EvRotated 0 5 True, EvSettled 0]) (new_engine demo_grants)"

lemma demo_minted_run: "engine_run demo_origin demo_grants (demo_mint @ [EvRotated 0 5 True, EvSettled 0]) demo_minted"
proof -
  have "run_enabled demo_origin (demo_mint @ [EvRotated 0 5 True, EvSettled 0]) (new_engine demo_grants)" by code_simp
  from run_enabled_run [OF engine_run.start this] show ?thesis by (simp add: demo_minted_def)
qed

lemma demo_minted_facts:
  "en_posts demo_minted \<noteq> []" "length (en_flights demo_minted) = 1" "binding_of demo_minted 0 = demo_binding"
  "fst (source_acquire 10 demo_binding demo_minted) = Now \<lparr>aq_secret = ''at1'', aq_generation = 1, aq_proof_key = Some ''jkt''\<rparr>"
  by code_simp+

theorem refresh_tokens_stay_home_witness:
  "en_posts demo_minted \<noteq> [] \<and>
   list_all (\<lambda>(f, p). demo_origin (tp_url p) = demo_origin (ob_issuer (binding_of demo_minted f))) (en_posts demo_minted)"
  using refresh_tokens_stay_home [OF demo_minted_run] demo_minted_facts(1) unfolding list_all_iff by blast

theorem served_token_was_granted_witness:
  "\<exists>entry. en_tokens demo_minted ''gh'' = Some entry \<and> live 10 entry \<and> te_access_token entry = ''at1''"
proof -
  obtain en' where "source_acquire 10 demo_binding demo_minted =
      (Now \<lparr>aq_secret = ''at1'', aq_generation = 1, aq_proof_key = Some ''jkt''\<rparr>, en')"
    using demo_minted_facts(4) by (cases "source_acquire 10 demo_binding demo_minted") simp
  from served_token_was_granted [OF demo_minted_run _ this] demo_minted_facts(2,3)
  show ?thesis by (auto simp: demo_binding_def acquired_of_def)
qed

text \<open>After \<open>close\<close> a request does not join the flight that is still in the air.\<close>

definition demo_closed :: engine where
  "demo_closed = fold (engine_step demo_origin) [EvLease 0 demo_binding, EvClose, EvLease 0 demo_binding] (new_engine demo_grants)"

lemma close_forgets_flights:
  "engine_run demo_origin demo_grants [EvLease 0 demo_binding, EvClose, EvLease 0 demo_binding] demo_closed"
  "in_air demo_closed ''gh'' 0 \<and> in_air demo_closed ''gh'' 1"
proof -
  have "run_enabled demo_origin [EvLease 0 demo_binding, EvClose, EvLease 0 demo_binding] (new_engine demo_grants)" by code_simp
  from run_enabled_run [OF engine_run.start this]
  show "engine_run demo_origin demo_grants [EvLease 0 demo_binding, EvClose, EvLease 0 demo_binding] demo_closed"
    by (simp add: demo_closed_def)
  have "length (en_flights demo_closed) = 2" "map fl_stage (en_flights demo_closed) = [FlReading, FlReading]"
    "map (\<lambda>fl. ob_credential (fl_binding fl)) (en_flights demo_closed) = [''gh'', ''gh'']" by code_simp+
  then show "in_air demo_closed ''gh'' 0 \<and> in_air demo_closed ''gh'' 1"
    by (auto simp: in_air_def stage_of_def binding_of_def length_Suc_conv numeral_2_eq_2)
qed

subsection \<open>Where the grant's binding is not asked\<close>

text \<open>
  While a token is in memory the binding is not compared: a lease for the same credential under
  another issuer is answered at once, though the store would answer \<open>issuer_mismatch\<close>.
\<close>

definition other_binding :: oauth_binding where
  "other_binding = demo_binding\<lparr>ob_issuer := ''https://other''\<rparr>"

lemma lease_ignores_issuer:
  "engine_run demo_origin demo_grants (demo_mint @ [EvRotated 0 5 True, EvSettled 0]) demo_minted"
  "fst (engine_lease 10 other_binding demo_minted) = Now LeaseOk"
  "store_read (en_grants demo_minted) ''gh'' (grant_of other_binding) = GrantMissing GrantIssuerMismatch"
  by (rule demo_minted_run) code_simp+

text \<open>
  A grant replaced during an exchange, for the same issuer and scopes: the rotation is not dropped,
  and the new grant's refresh token is lost.
\<close>

definition replaced_grant :: grant_record where
  "replaced_grant = demo_grant\<lparr>gr_refresh := ''new''\<rparr>"

definition demo_replaced :: engine where
  "demo_replaced = fold (engine_step demo_origin) (demo_mint @ [EvPut ''gh'' replaced_grant, EvRotated 0 5 True]) (new_engine demo_grants)"

lemma rotation_overwrites_new_grant:
  "engine_run demo_origin demo_grants (demo_mint @ [EvPut ''gh'' replaced_grant, EvRotated 0 5 True]) demo_replaced"
  "map_option gr_refresh (en_grants demo_replaced ''gh'') = Some ''rt2''"
proof -
  have "run_enabled demo_origin (demo_mint @ [EvPut ''gh'' replaced_grant, EvRotated 0 5 True]) (new_engine demo_grants)" by code_simp
  from run_enabled_run [OF engine_run.start this]
  show "engine_run demo_origin demo_grants (demo_mint @ [EvPut ''gh'' replaced_grant, EvRotated 0 5 True]) demo_replaced"
    by (simp add: demo_replaced_def)
  show "map_option gr_refresh (en_grants demo_replaced ''gh'') = Some ''rt2''" by code_simp
qed

end
