(* ===== verification/Mcp_Bounds.thy ===== *)
theory Mcp_Bounds
  imports Tool_Call "HOL-Library.Sublist"
begin

text \<open>
  The bounds on what an upstream may say (\<open>packages/proxy/src/mcp-bounds.ts\<close>): the reading of a
  \<open>CallToolResult\<close> into blocks, the walk that charges each block to the channel's cap, and the bounds
  on tool listings.

  A parsed JSON value is a \<open>js_value\<close>; a record's keys are distinct, as \<open>JSON.parse\<close> leaves them.
  \<open>z.base64()\<close> is the parameter \<open>base64_ok\<close>, and \<open>scan\<close> is the search of a decoded payload for a
  credential, given the payload.
\<close>

datatype js_value = VUndefined | VString js_text | VRecord "(string \<times> js_value) list" | VList "js_value list" | VOther

definition member :: "(string \<times> js_value) list \<Rightarrow> string \<Rightarrow> js_value" where
  "member flds name = (case map_of flds name of None \<Rightarrow> VUndefined | Some v \<Rightarrow> v)"

definition max_relayed_message :: nat where "max_relayed_message = 300"
definition max_label :: nat where "max_label = 64"
definition max_result_mime_type :: nat where "max_result_mime_type = 64"
definition max_result_uri :: nat where "max_result_uri = 200"

subsection \<open>Cutting\<close>

definition cut_at :: "js_text \<Rightarrow> nat \<Rightarrow> js_text" where
  "cut_at us limit =
     (let kept = take limit us in if kept \<noteq> [] \<and> high_surrogate (last kept) then butlast kept else kept)"

definition ellipsis :: js_text where
  "ellipsis = [0x2026]"

text \<open>The limit is positive at every call.\<close>

definition truncate_text :: "js_text \<Rightarrow> nat \<Rightarrow> js_text" where
  "truncate_text us limit = (if length us \<le> limit then us else cut_at us (limit - 1) @ ellipsis)"

definition relayed_detail :: "js_text \<Rightarrow> js_text" where
  "relayed_detail us = truncate_text us max_relayed_message"

lemma length_cut_at: "length (cut_at us limit) \<le> limit"
  by (auto simp: cut_at_def Let_def)

lemma prefix_cut_at: "prefix (cut_at us limit) us"
  using prefix_order.trans [OF prefixeq_butlast take_is_prefix] by (auto simp: cut_at_def Let_def take_is_prefix)

text \<open>A cut never leaves the first half of a pair at the end.\<close>

lemma cut_at_whole: "cut_at us limit \<noteq> [] \<Longrightarrow> high_surrogate (last (cut_at us limit)) \<Longrightarrow>
    high_surrogate (us ! length (cut_at us limit))"
proof -
  assume c: "cut_at us limit \<noteq> []" "high_surrogate (last (cut_at us limit))"
  let ?kept = "take limit us"
  from c have k: "cut_at us limit = butlast ?kept" "?kept \<noteq> []" "high_surrogate (last ?kept)"
    by (auto simp: cut_at_def Let_def split: if_splits)
  from k(2) have "last ?kept = us ! (length ?kept - 1)" by (cases us; cases limit) (auto simp: last_conv_nth min_def)
  with k show ?thesis by simp
qed

lemma length_truncate: "0 < limit \<Longrightarrow> length (truncate_text us limit) \<le> limit"
  using length_cut_at [of us "limit - 1"] by (auto simp: truncate_text_def ellipsis_def)

subsection \<open>Blocks\<close>

definition label :: "js_value \<Rightarrow> nat \<Rightarrow> js_text option" where
  "label v limit = (case v of VString s \<Rightarrow> Some (truncate_text s limit) | _ \<Rightarrow> None)"

text \<open>A base64 text is ASCII; as HOL characters.\<close>

definition ascii_of :: "js_text \<Rightarrow> string" where
  "ascii_of us = map (\<lambda>u. char_of (unat u)) us"

definition payload_size :: "js_value \<Rightarrow> js_text" where
  "payload_size payload =
     (case payload of VString d \<Rightarrow> describe_bytes (base64_bytes (ascii_of d)) | _ \<Rightarrow> js ''unknown size'')"

text \<open>\<open>relayed\<close>: the block where the schema accepts it, else its placeholder.\<close>

definition relay_media :: "(js_text \<Rightarrow> bool) \<Rightarrow> (string \<Rightarrow> js_text \<Rightarrow> result_block) \<Rightarrow> string \<Rightarrow> js_text option \<Rightarrow> js_value \<Rightarrow> result_block" where
  "relay_media base64_ok mk kind mime payload =
     (case (payload, mime) of
        (VString d, Some m) \<Rightarrow>
          if base64_ok d \<and> m \<noteq> [] then mk (ascii_of d) m
          else TextBlock (omitted_text (js kind) mime (payload_size payload))
      | _ \<Rightarrow> TextBlock (omitted_text (js kind) mime (payload_size payload)))"

definition relay_resource :: "(js_text \<Rightarrow> bool) \<Rightarrow> js_text option \<Rightarrow> js_text option \<Rightarrow> js_value \<Rightarrow> result_block" where
  "relay_resource base64_ok uri mime payload =
     (case (payload, uri) of
        (VString d, Some u) \<Rightarrow>
          if base64_ok d \<and> u \<noteq> [] \<and> mime \<noteq> Some [] then ResourceBlock u mime (ascii_of d)
          else TextBlock (omitted_text (js ''resource'') mime (payload_size payload))
      | _ \<Rightarrow> TextBlock (omitted_text (js ''resource'') mime (payload_size payload)))"

definition to_result_block :: "(js_text \<Rightarrow> bool) \<Rightarrow> js_value \<Rightarrow> result_block option" where
  "to_result_block base64_ok block =
     (case block of
        VRecord flds \<Rightarrow>
          (let type = member flds ''type''
           in if type = VString (js ''text'') then
                (case member flds ''text'' of VString s \<Rightarrow> Some (TextBlock s) | _ \<Rightarrow> None)
              else if type = VString (js ''image'') then
                Some (relay_media base64_ok ImageBlock ''image'' (label (member flds ''mimeType'') max_result_mime_type) (member flds ''data''))
              else if type = VString (js ''audio'') then
                Some (relay_media base64_ok AudioBlock ''audio'' (label (member flds ''mimeType'') max_result_mime_type) (member flds ''data''))
              else if type = VString (js ''resource'') then
                (case member flds ''resource'' of
                   VRecord resource \<Rightarrow>
                     (case member resource ''text'' of
                        VString s \<Rightarrow> Some (TextBlock s)
                      | _ \<Rightarrow> Some (relay_resource base64_ok (label (member resource ''uri'') max_result_uri)
                               (label (member resource ''mimeType'') max_result_mime_type) (member resource ''blob'')))
                 | _ \<Rightarrow> None)
              else if type = VString (js ''resource_link'') then
                Some (TextBlock (js ''[resource: '' @ case_option (js ''unknown'') id (label (member flds ''uri'') max_result_uri) @ js '']''))
              else Some (TextBlock (js ''[unsupported content block: '' @ case_option (js ''unnamed'') id (label type max_label) @ js '']'')))
      | _ \<Rightarrow> None)"

subsection \<open>The walk\<close>

definition cut_notice :: "nat \<Rightarrow> nat \<Rightarrow> js_text" where
  "cut_notice kept whole = js (CHR 0x0A # ''[result truncated: '') @ js_nat kept @ js '' of '' @ js_nat whole @ js '' characters]''"

definition tail_notice :: "nat \<Rightarrow> nat \<Rightarrow> js_text" where
  "tail_notice emitted whole = js ''[result truncated: '' @ js_nat emitted @ js '' of '' @ js_nat whole @ js '' content blocks]''"

text \<open>The text and what was kept of the upstream's.\<close>

definition bounded_text :: "js_text \<Rightarrow> nat \<Rightarrow> js_text \<times> nat" where
  "bounded_text us limit =
     (if length us \<le> limit then (us, length us)
      else let kept = cut_at us limit in (kept @ cut_notice (length kept) (length us), length kept))"

datatype binary_payload = BinaryPayload

fun payload_of :: "result_block \<Rightarrow> string" where
  "payload_of (TextBlock _) = []"
| "payload_of (ImageBlock d _) = d"
| "payload_of (AudioBlock d _) = d"
| "payload_of (ResourceBlock _ _ b) = b"

text \<open>The loop: what is emitted and how many blocks, given what is left of the budget.\<close>

fun bounded_walk :: "(string \<Rightarrow> bool) \<Rightarrow> nat \<Rightarrow> result_block list \<Rightarrow> binary_payload + result_block list" where
  "bounded_walk scan remaining [] = Inr []"
| "bounded_walk scan remaining (block # blocks) =
     (if remaining = 0 then Inr []
      else case block of
          TextBlock us \<Rightarrow>
            (case bounded_text us remaining of
               (out, spent) \<Rightarrow>
                 if spent < length us then Inr [TextBlock out]
                 else map_sum id ((#) (TextBlock out)) (bounded_walk scan (remaining - spent) blocks))
        | _ \<Rightarrow>
            if result_cost [block] \<le> remaining then
              (if scan (payload_of block) then Inl BinaryPayload
               else map_sum id ((#) block) (bounded_walk scan (remaining - result_cost [block]) blocks))
            else let placeholder = result_text [block]
              in if length placeholder > remaining then Inr []
                 else map_sum id ((#) (TextBlock placeholder)) (bounded_walk scan (remaining - length placeholder) blocks))"

record call_tool_result =
  ct_content :: "js_value list option"
  ct_structured :: "js_text option"
  ct_is_error :: bool

definition says_text :: "result_block \<Rightarrow> bool" where
  "says_text block = (case block of TextBlock us \<Rightarrow> us \<noteq> [] | _ \<Rightarrow> False)"

text \<open>All blocks, or nothing when one is malformed; the structured content where no block has text.\<close>

definition promoted_blocks :: "(js_text \<Rightarrow> bool) \<Rightarrow> call_tool_result \<Rightarrow> result_block list option" where
  "promoted_blocks base64_ok result =
     (case ct_content result of
        None \<Rightarrow> None
      | Some values \<Rightarrow>
          map_option (\<lambda>blocks.
              case ct_structured result of
                Some json \<Rightarrow> if \<not> list_ex says_text blocks then blocks @ [TextBlock json] else blocks
              | None \<Rightarrow> blocks)
            (those (map (to_result_block base64_ok) values)))"

definition bounded_tool_result :: "(js_text \<Rightarrow> bool) \<Rightarrow> (string \<Rightarrow> bool) \<Rightarrow> call_tool_result \<Rightarrow> nat
    \<Rightarrow> binary_payload + tool_result option" where
  "bounded_tool_result base64_ok scan result max_chars =
     (case promoted_blocks base64_ok result of
        None \<Rightarrow> Inr None
      | Some promoted \<Rightarrow>
          map_sum id (\<lambda>content. Some \<lparr>res_content =
                content @ (if length content < length promoted then [TextBlock (tail_notice (length content) (length promoted))] else []),
              res_is_error = ct_is_error result\<rparr>)
            (bounded_walk scan max_chars promoted))"

subsection \<open>Tool listings\<close>

record upstream_tool_entry =
  ut_name :: js_text
  ut_description :: js_value
  ut_input_schema :: js_value

definition tool_entry_of :: "js_value \<Rightarrow> upstream_tool_entry option" where
  "tool_entry_of entry =
     (case entry of
        VRecord flds \<Rightarrow>
          (case member flds ''name'' of
             VString name \<Rightarrow>
               if name = [] then None
               else Some \<lparr>ut_name = name, ut_description = member flds ''description'', ut_input_schema = member flds ''inputSchema''\<rparr>
           | _ \<Rightarrow> None)
      | _ \<Rightarrow> None)"

definition parse_tools_list :: "js_value \<Rightarrow> js_value \<Rightarrow> (upstream_tool_entry list \<times> js_text option) option" where
  "parse_tools_list tools cursor =
     (case tools of
        VList entries \<Rightarrow>
          Some (List.map_filter tool_entry_of entries,
                case cursor of VString c \<Rightarrow> if c = [] then None else Some c | _ \<Rightarrow> None)
      | _ \<Rightarrow> None)"

definition max_tool_description :: nat where "max_tool_description = 1024"
definition max_tool_schema_bytes :: nat where "max_tool_schema_bytes = 8192"

text \<open>\<open>trim\<close> is the language's.\<close>

definition bounded_tool_description :: "(js_text \<Rightarrow> js_text) \<Rightarrow> js_value \<Rightarrow> js_text option" where
  "bounded_tool_description trim v =
     (case v of
        VString s \<Rightarrow> if trim s = [] then None else Some (truncate_text (trim s) max_tool_description)
      | _ \<Rightarrow> None)"

datatype schema_rejection = NotAnObject | NotTypeObject | SchemaTooLarge

text \<open>\<open>stringify\<close> is \<open>JSON.stringify\<close>, \<open>None\<close> where it throws; \<open>schema_ok\<close> is the listing's own shape.\<close>

definition bounded_tool_input_schema :: "(js_value \<Rightarrow> bool) \<Rightarrow> (js_value \<Rightarrow> js_text option) \<Rightarrow> js_value \<Rightarrow> schema_rejection + js_value" where
  "bounded_tool_input_schema schema_ok stringify v =
     (case v of
        VRecord _ \<Rightarrow>
          if \<not> schema_ok v then Inl NotTypeObject
          else (case stringify v of
              None \<Rightarrow> Inl SchemaTooLarge
            | Some text \<Rightarrow> if utf8_length text > max_tool_schema_bytes then Inl SchemaTooLarge else Inr v)
      | _ \<Rightarrow> Inl NotAnObject)"

subsection \<open>What the walk guarantees\<close>

lemma length_cut_notice: "kept < 10 ^ 12 \<Longrightarrow> whole < 10 ^ 12 \<Longrightarrow> length (cut_notice kept whole) \<le> 60"
  using length_js_nat_le [of kept 12] length_js_nat_le [of whole 12] by (simp add: cut_notice_def)

lemma length_tail_notice: "emitted < 10 ^ 12 \<Longrightarrow> whole < 10 ^ 12 \<Longrightarrow> length (tail_notice emitted whole) \<le> 63"
  using length_js_nat_le [of emitted 12] length_js_nat_le [of whole 12] by (simp add: tail_notice_def)

definition texts_below :: "nat \<Rightarrow> result_block list \<Rightarrow> bool" where
  "texts_below n blocks \<longleftrightarrow> (\<forall>us. TextBlock us \<in> set blocks \<longrightarrow> length us < n)"

lemma texts_below_Cons: "texts_below n (b # bs) \<longleftrightarrow> (\<forall>us. b = TextBlock us \<longrightarrow> length us < n) \<and> texts_below n bs"
  by (auto simp: texts_below_def)

lemma map_sum_Inr: "map_sum id f x = Inr y \<longleftrightarrow> (\<exists>z. x = Inr z \<and> y = f z)"
  by (cases x) auto

text \<open>A binary block met by the walk: carried as it is, replaced by its placeholder, or the end.\<close>

lemma bounded_walk_binary:
  assumes "block_type_of b \<noteq> TText" and "bounded_walk scan r (b # bs) = Inr out"
  shows "out = [] \<or>
    (result_cost [b] \<le> r \<and> \<not> scan (payload_of b) \<and> (\<exists>rest. out = b # rest \<and> bounded_walk scan (r - result_cost [b]) bs = Inr rest)) \<or>
    (\<exists>p rest. length p \<le> r \<and> r < result_cost [b] \<and> out = TextBlock p # rest \<and> bounded_walk scan (r - length p) bs = Inr rest)"
  using assms by (cases b) (auto simp: map_sum_Inr Let_def not_less split: if_splits simp del: result_cost_sum)

lemma bounded_text_cases:
  assumes "bounded_text us r = (out, spent)"
  shows "length us \<le> r \<and> out = us \<and> spent = length us \<or>
    r < length us \<and> spent \<le> r \<and> out = cut_at us r @ cut_notice spent (length us) \<and> length out = spent + length (cut_notice spent (length us))"
  using assms length_cut_at [of us r] by (auto simp: bounded_text_def Let_def split: if_splits)

lemma bounded_walk_cost:
  "bounded_walk scan r bs = Inr out \<Longrightarrow> texts_below (10 ^ 12) bs \<Longrightarrow> result_cost out \<le> r + 60 \<and> length out \<le> length bs"
proof (induction bs arbitrary: r out)
  case (Cons b bs)
  show ?case
  proof (cases b)
    case (TextBlock us)
    obtain cut spent where t: "bounded_text us r = (cut, spent)" by fastforce
    show ?thesis
    proof (cases "r = 0 \<or> spent < length us")
      case True
      with t bounded_text_cases [OF t] Cons.prems TextBlock length_cut_notice [of spent "length us"]
      show ?thesis by (auto simp: texts_below_Cons split: if_splits)
    next
      case False
      with Cons.prems TextBlock t obtain rest where rest: "out = TextBlock cut # rest" "bounded_walk scan (r - spent) bs = Inr rest"
        by (auto simp: map_sum_Inr split: if_splits)
      with bounded_text_cases [OF t] False Cons.IH [OF rest(2)] Cons.prems(2) TextBlock show ?thesis
        by (auto simp: texts_below_Cons)
    qed
  next
    case (ImageBlock d m)
    with bounded_walk_binary [of b scan r bs out] Cons.prems Cons.IH show ?thesis
      by (auto simp: texts_below_Cons) fastforce+
  next
    case (AudioBlock d m)
    with bounded_walk_binary [of b scan r bs out] Cons.prems Cons.IH show ?thesis
      by (auto simp: texts_below_Cons) fastforce+
  next
    case (ResourceBlock u m d)
    with bounded_walk_binary [of b scan r bs out] Cons.prems Cons.IH show ?thesis
      by (auto simp: texts_below_Cons) fastforce+
  qed
qed simp

text \<open>The first block out, and the rest of the walk.\<close>

lemma bounded_walk_first:
  assumes "bounded_walk scan r (b # bs) = Inr out" and "out \<noteq> []"
  shows "\<exists>x rest r'. out = x # rest \<and> (rest = [] \<or> bounded_walk scan r' bs = Inr rest) \<and>
    (block_type_of x = TText \<or> x = b \<and> \<not> scan (payload_of b))"
proof (cases "block_type_of b = TText")
  case True
  then obtain us where "b = TextBlock us" by (cases b) auto
  with assms show ?thesis by (auto simp: map_sum_Inr split: if_splits prod.splits)
next
  case False
  from bounded_walk_binary [OF False assms(1)] assms(2) show ?thesis by (auto simp del: result_cost_sum)
qed

lemma bounded_walk_scanned:
  "bounded_walk scan r bs = Inr out \<Longrightarrow> block \<in> set out \<Longrightarrow> block_type_of block \<noteq> TText \<Longrightarrow>
     block \<in> set bs \<and> \<not> scan (payload_of block)"
proof (induction bs arbitrary: r out)
  case (Cons b bs)
  from Cons.prems(2) have "out \<noteq> []" by auto
  from bounded_walk_first [OF Cons.prems(1) this] obtain x rest r' where
    x: "out = x # rest" "rest = [] \<or> bounded_walk scan r' bs = Inr rest"
      "block_type_of x = TText \<or> x = b \<and> \<not> scan (payload_of b)" by blast
  show ?case
  proof (cases "block \<in> set rest")
    case True
    with x(2) Cons.IH [of r' rest] Cons.prems(3) show ?thesis by auto
  next
    case False
    with x(1,3) Cons.prems(2,3) show ?thesis by auto
  qed
qed simp

lemma bounded_walk_fits:
  "bounded_walk scan r bs = Inr out \<Longrightarrow> result_cost bs \<le> r \<Longrightarrow> \<forall>b \<in> set bs. 0 < block_cost b \<Longrightarrow> out = bs"
proof (induction bs arbitrary: r out)
  case (Cons b bs)
  then have "r \<noteq> 0" by auto
  show ?case
  proof (cases "block_type_of b = TText")
    case True
    then obtain us where "b = TextBlock us" by (cases b) auto
    with Cons \<open>r \<noteq> 0\<close> show ?thesis by (auto simp: map_sum_Inr bounded_text_def)
  next
    case False
    with Cons.prems(2) have "result_cost [b] \<le> r" by simp
    with bounded_walk_binary [OF False Cons.prems(1)] False \<open>r \<noteq> 0\<close> Cons.prems(1)
    obtain rest where "out = b # rest" "bounded_walk scan (r - result_cost [b]) bs = Inr rest"
      by (cases b) (auto simp: map_sum_Inr split: if_splits)
    with Cons.IH Cons.prems(2,3) show ?thesis by auto
  qed
qed simp

text \<open>
  What a tool's result costs the model is at most the channel's cap and the two notices; a binary
  block crosses whole, from the upstream's own blocks, and only after its payload was searched; and a
  result of non-empty blocks that fits the cap crosses unchanged.
\<close>

theorem bounded_result_within:
  assumes "bounded_tool_result base64_ok scan result max_chars = Inr (Some out)"
    and "promoted_blocks base64_ok result = Some promoted"
    and "texts_below (10 ^ 12) promoted" and "length promoted < 10 ^ 12"
  shows "result_cost (res_content out) \<le> max_chars + 123 \<and>
    (\<forall>block \<in> set (res_content out). block_type_of block \<noteq> TText \<longrightarrow> block \<in> set promoted \<and> \<not> scan (payload_of block)) \<and>
    (result_cost promoted \<le> max_chars \<and> (\<forall>block \<in> set promoted. 0 < block_cost block) \<longrightarrow> res_content out = promoted)"
proof -
  from assms(1,2) obtain walked where w: "bounded_walk scan max_chars promoted = Inr walked"
    and out: "res_content out =
      walked @ (if length walked < length promoted then [TextBlock (tail_notice (length walked) (length promoted))] else [])"
    by (auto simp: bounded_tool_result_def map_sum_Inr)
  note cost = bounded_walk_cost [OF w assms(3)]
  have "length (tail_notice (length walked) (length promoted)) \<le> 63" if "length walked < length promoted"
    using that assms(4) by (intro length_tail_notice) simp_all
  with cost out have "result_cost (res_content out) \<le> max_chars + 123" by auto
  moreover have "block \<in> set promoted \<and> \<not> scan (payload_of block)"
    if "block \<in> set (res_content out)" "block_type_of block \<noteq> TText" for block
  proof -
    have "block \<in> set walked" using that out by (auto split: if_splits)
    from bounded_walk_scanned [OF w this that(2)] show ?thesis .
  qed
  moreover have "res_content out = promoted"
    if "result_cost promoted \<le> max_chars" "\<forall>block \<in> set promoted. 0 < block_cost block"
    using bounded_walk_fits [OF w that] out by simp
  ultimately show ?thesis by blast
qed

definition demo_result :: call_tool_result where
  "demo_result =
     \<lparr>ct_content = Some
        [VRecord [(''type'', VString (js ''text'')), (''text'', VString (js ''hello''))],
         VRecord [(''type'', VString (js ''image'')), (''mimeType'', VString (js ''image/png'')), (''data'', VString (js ''aGVsbG8=''))],
         VRecord [(''type'', VString (js ''text'')), (''text'', VString (js ''a longer closing remark''))]],
      ct_structured = None, ct_is_error = False\<rparr>"

definition demo_promoted :: "result_block list" where
  "demo_promoted = [TextBlock (js ''hello''), ImageBlock ''aGVsbG8='' (js ''image/png''), TextBlock (js ''a longer closing remark'')]"

lemma demo_result_blocks: "promoted_blocks (\<lambda>d. True) demo_result = Some demo_promoted"
  by code_simp

lemma demo_result_bounded:
  "bounded_tool_result (\<lambda>d. True) (\<lambda>p. False) demo_result 14 = Inr (Some
     \<lparr>res_content = [TextBlock (js ''hello''), ImageBlock ''aGVsbG8='' (js ''image/png''),
        TextBlock (js ''a lo'' @ cut_notice 4 23)], res_is_error = False\<rparr>)"
  by code_simp

theorem bounded_result_within_witness:
  "result_cost [TextBlock (js ''hello''), ImageBlock ''aGVsbG8='' (js ''image/png''), TextBlock (js ''a lo'' @ cut_notice 4 23)] \<le> 14 + 123"
proof -
  have "texts_below (10 ^ 12) demo_promoted" by (auto simp: texts_below_def demo_promoted_def)
  moreover have "length demo_promoted < 10 ^ 12" by (simp add: demo_promoted_def)
  ultimately show ?thesis
    using bounded_result_within [OF demo_result_bounded demo_result_blocks] by (simp del: result_cost_sum)
qed

end
