(* ===== verification/Sheet_Store.thy ===== *)
theory Sheet_Store
  imports Enforce Demo_Sheet
begin

text \<open>
  The cache of one channel's team sheet (\<open>packages/proxy/src/team-sheet-store.ts\<close>): a refresh is a job
  cut at its awaits (the wait for the running refresh, the stat, the read, the \<open>finally\<close>), and callers
  share a job that has not looked at the file yet.

  Parsing a file's text (TOML and the schema) is the parameter \<open>parse\<close>. The file may change between
  any two steps: what a stat or a read finds is an argument of the step. \<open>se_seen\<close> records what the
  refreshes found, in order. The watcher only calls \<open>resolve\<close>.
\<close>

record fingerprint =
  fp_mtime :: nat
  fp_size :: nat
  fp_ino :: nat

datatype 'text sheet_look = Gone | Unchanged | ReadText 'text

datatype job_stage = JobWaiting nat | JobStatting | JobReading fingerprint | JobDone sheet_state | JobOver sheet_state

record 'text sheet_entry =
  se_state :: sheet_state
  se_fingerprint :: "fingerprint option"
  se_in_flight :: "nat option"
  se_stated :: bool
  se_jobs :: "job_stage list"
  se_seen :: "'text sheet_look list"

definition new_entry :: "'text sheet_entry" where
  "new_entry = \<lparr>se_state = Absent, se_fingerprint = None, se_in_flight = None, se_stated = False, se_jobs = [], se_seen = []\<rparr>"

definition same_file :: "fingerprint option \<Rightarrow> fingerprint option \<Rightarrow> bool" where
  "same_file a b \<longleftrightarrow>
     (case (a, b) of
        (Some x, Some y) \<Rightarrow> fp_mtime x = fp_mtime y \<and> fp_size x = fp_size y \<and> fp_ino x = fp_ino y
      | _ \<Rightarrow> a = b)"

text \<open>The sheet in force after a text was read.\<close>

definition after_read :: "('text \<Rightarrow> team_sheet option) \<Rightarrow> 'text \<Rightarrow> sheet_state \<Rightarrow> sheet_state" where
  "after_read parse body state =
     (case parse body of
        Some sheet \<Rightarrow> Active sheet False
      | None \<Rightarrow> (case state of Active sheet _ \<Rightarrow> Active sheet True | _ \<Rightarrow> Unusable))"

text \<open>\<open>resolve\<close>: the job that answers.\<close>

definition sheet_resolve :: "'text sheet_entry \<Rightarrow> nat \<times> 'text sheet_entry" where
  "sheet_resolve en =
     (case se_in_flight en of
        Some j \<Rightarrow>
          if \<not> se_stated en then (j, en)
          else (length (se_jobs en),
                en\<lparr>se_jobs := se_jobs en @ [JobWaiting j], se_in_flight := Some (length (se_jobs en)), se_stated := False\<rparr>)
      | None \<Rightarrow>
          (length (se_jobs en),
           en\<lparr>se_jobs := se_jobs en @ [JobStatting], se_in_flight := Some (length (se_jobs en)), se_stated := False\<rparr>))"

definition set_job :: "nat \<Rightarrow> job_stage \<Rightarrow> 'text sheet_entry \<Rightarrow> 'text sheet_entry" where
  "set_job j stage en = en\<lparr>se_jobs := (se_jobs en)[j := stage]\<rparr>"

text \<open>\<open>#queued\<close>: the running refresh is over.\<close>

definition job_start :: "nat \<Rightarrow> 'text sheet_entry \<Rightarrow> 'text sheet_entry" where
  "job_start j en = set_job j JobStatting en"

text \<open>\<open>#refresh\<close> up to its read, given what the stat found.\<close>

definition job_stat :: "nat \<Rightarrow> fingerprint option \<Rightarrow> 'text sheet_entry \<Rightarrow> 'text sheet_entry" where
  "job_stat j found en =
     (let en = en\<lparr>se_stated := True\<rparr>
      in case found of
          None \<Rightarrow> set_job j (JobDone Absent) (en\<lparr>se_state := Absent, se_fingerprint := None, se_seen := se_seen en @ [Gone]\<rparr>)
        | Some fp \<Rightarrow>
            if same_file found (se_fingerprint en) \<and> se_state en \<noteq> Absent
            then set_job j (JobDone (se_state en)) (en\<lparr>se_seen := se_seen en @ [Unchanged]\<rparr>)
            else set_job j (JobReading fp) en)"

text \<open>The rest of it, given what the read found.\<close>

definition job_read :: "('text \<Rightarrow> team_sheet option) \<Rightarrow> nat \<Rightarrow> fingerprint \<Rightarrow> 'text option \<Rightarrow> 'text sheet_entry \<Rightarrow> 'text sheet_entry" where
  "job_read parse j fp found en =
     (case found of
        None \<Rightarrow> set_job j (JobDone Absent) (en\<lparr>se_state := Absent, se_fingerprint := None, se_seen := se_seen en @ [Gone]\<rparr>)
      | Some body \<Rightarrow>
          let state = after_read parse body (se_state en)
          in set_job j (JobDone state)
               (en\<lparr>se_state := state, se_fingerprint := Some fp, se_seen := se_seen en @ [ReadText body]\<rparr>))"

text \<open>The \<open>finally\<close>.\<close>

definition job_over :: "nat \<Rightarrow> sheet_state \<Rightarrow> 'text sheet_entry \<Rightarrow> 'text sheet_entry" where
  "job_over j state en =
     (let en = set_job j (JobOver state) en
      in if se_in_flight en = Some j then en\<lparr>se_in_flight := None, se_stated := False\<rparr> else en)"

subsection \<open>The store\<close>

text \<open>One entry per channel. A channel that is not a channel id is the error \<open>None\<close>.\<close>

record 'text sheet_store =
  sst_entries :: "string \<Rightarrow> 'text sheet_entry option"
  sst_closed :: bool

definition sheet_filename :: string where
  "sheet_filename = ''channel.toml''"

definition sheet_path_of :: "string \<Rightarrow> string list option" where
  "sheet_path_of channel = (if channel_id_pattern channel then Some [channel, sheet_filename] else None)"

definition sheet_entry_of :: "string \<Rightarrow> 'text sheet_store \<Rightarrow> 'text sheet_entry" where
  "sheet_entry_of channel s = (case sst_entries s channel of Some en \<Rightarrow> en | None \<Rightarrow> new_entry)"

definition store_resolve :: "string \<Rightarrow> 'text sheet_store \<Rightarrow> (nat \<times> 'text sheet_store) option" where
  "store_resolve channel s =
     (case sheet_path_of channel of
        None \<Rightarrow> None
      | Some _ \<Rightarrow>
          let (j, en) = sheet_resolve (sheet_entry_of channel s)
          in Some (j, s\<lparr>sst_entries := (sst_entries s)(channel \<mapsto> en)\<rparr>))"

definition sheet_close :: "'text sheet_store \<Rightarrow> 'text sheet_store" where
  "sheet_close s = s\<lparr>sst_closed := True, sst_entries := Map.empty\<rparr>"

lemma store_resolve_isolated:
  assumes "store_resolve channel s = Some (j, s')" "other \<noteq> channel"
  shows "sst_entries s' other = sst_entries s other"
  using assms by (auto simp: store_resolve_def split: option.splits prod.splits)

subsection \<open>Runs\<close>

datatype 'text sheet_event = EvResolve | EvStart nat | EvStat nat "fingerprint option" | EvReadFile nat "'text option" | EvOver nat

inductive sheet_step :: "('text \<Rightarrow> team_sheet option) \<Rightarrow> 'text sheet_event \<Rightarrow> 'text sheet_entry \<Rightarrow> 'text sheet_entry \<Rightarrow> bool"
  for parse :: "'text \<Rightarrow> team_sheet option" where
  resolve: "sheet_step parse EvResolve en (snd (sheet_resolve en))"
| start: "j < length (se_jobs en) \<Longrightarrow> se_jobs en ! j = JobWaiting i \<Longrightarrow> se_jobs en ! i = JobOver st \<Longrightarrow>
    sheet_step parse (EvStart j) en (job_start j en)"
| stat: "j < length (se_jobs en) \<Longrightarrow> se_jobs en ! j = JobStatting \<Longrightarrow> sheet_step parse (EvStat j found) en (job_stat j found en)"
| read: "j < length (se_jobs en) \<Longrightarrow> se_jobs en ! j = JobReading fp \<Longrightarrow> sheet_step parse (EvReadFile j body) en (job_read parse j fp body en)"
| over: "j < length (se_jobs en) \<Longrightarrow> se_jobs en ! j = JobDone st \<Longrightarrow> sheet_step parse (EvOver j) en (job_over j st en)"

inductive sheet_run :: "('text \<Rightarrow> team_sheet option) \<Rightarrow> 'text sheet_entry \<Rightarrow> bool" for parse :: "'text \<Rightarrow> team_sheet option" where
  fresh: "sheet_run parse new_entry"
| run: "sheet_run parse en \<Longrightarrow> sheet_step parse ev en en' \<Longrightarrow> sheet_run parse en'"

subsection \<open>The jobs\<close>

text \<open>
  At most two jobs are not over: the last one, and the one it waits for. The one in flight is the last,
  and \<open>se_stated\<close> says whether it has looked.
\<close>

definition looked :: "job_stage \<Rightarrow> bool" where
  "looked stage \<longleftrightarrow> (case stage of JobWaiting _ \<Rightarrow> False | JobStatting \<Rightarrow> False | _ \<Rightarrow> True)"

definition is_over :: "job_stage \<Rightarrow> bool" where
  "is_over stage \<longleftrightarrow> (case stage of JobOver _ \<Rightarrow> True | _ \<Rightarrow> False)"

definition jobs_ok :: "'text sheet_entry \<Rightarrow> bool" where
  "jobs_ok en \<longleftrightarrow>
     (case se_in_flight en of
        None \<Rightarrow> list_all is_over (se_jobs en) \<and> \<not> se_stated en
      | Some j \<Rightarrow>
          Suc j = length (se_jobs en) \<and> \<not> is_over (se_jobs en ! j) \<and>
          (case se_jobs en ! j of
             JobWaiting i \<Rightarrow> i < j \<and> (\<forall>k < j. k \<noteq> i \<longrightarrow> is_over (se_jobs en ! k)) \<and> looked (se_jobs en ! i) \<and> \<not> se_stated en
           | stage \<Rightarrow> (\<forall>k < j. is_over (se_jobs en ! k)) \<and> (se_stated en \<longleftrightarrow> looked stage)))"

lemma is_over_looked: "is_over stage \<Longrightarrow> looked stage"
  by (simp add: is_over_def looked_def split: job_stage.splits)

lemma set_job_jobs[simp]: "se_jobs (set_job j stage en) = (se_jobs en)[j := stage]"
  and set_job_state[simp]: "se_state (set_job j stage en) = se_state en"
  and set_job_in_flight[simp]: "se_in_flight (set_job j stage en) = se_in_flight en"
  and set_job_stated[simp]: "se_stated (set_job j stage en) = se_stated en"
  and set_job_seen[simp]: "se_seen (set_job j stage en) = se_seen en"
  by (simp_all add: set_job_def)

lemma jobs_ok_advance:
  assumes ok: "jobs_ok en" and j: "j < length (se_jobs en)"
    and at: "(\<exists>fp. se_jobs en ! j = JobReading fp) \<or> se_jobs en ! j = JobStatting"
    and stage: "looked stage" "\<not> is_over stage"
    and en': "se_jobs en' = (se_jobs en)[j := stage]" "se_in_flight en' = se_in_flight en"
      "se_stated en' = (se_stated en \<or> se_jobs en ! j = JobStatting)"
  shows "jobs_ok en'"
proof (cases "se_in_flight en")
  case None
  then show ?thesis using ok j at by (auto simp: jobs_ok_def list_all_length is_over_def)
next
  case (Some f)
  have st: "stage \<noteq> JobStatting" "\<And>i. stage \<noteq> JobWaiting i" using stage by (auto simp: looked_def)
  show ?thesis
  proof (cases "f = j")
    case True
    then show ?thesis using Some ok j at stage st en'
      by (auto simp: jobs_ok_def looked_def split: job_stage.splits)
  next
    case False
    then have lt: "j < f" using Some ok j by (auto simp: jobs_ok_def)
    have no: "\<not> is_over (se_jobs en ! j)" using at by (auto simp: is_over_def)
    obtain i where w: "se_jobs en ! f = JobWaiting i" and i: "i = j"
      using Some ok lt no by (auto simp: jobs_ok_def split: job_stage.splits)
    have reading: "se_jobs en ! j \<noteq> JobStatting" using Some ok w i by (auto simp: jobs_ok_def looked_def)
    show ?thesis using Some ok lt w i reading stage en' False
      by (auto simp: jobs_ok_def)
  qed
qed


lemma jobs_ok_resolve:
  assumes ok: "jobs_ok en"
  shows "jobs_ok (snd (sheet_resolve en))"
proof (cases "se_in_flight en")
  case None
  then show ?thesis using ok
    by (auto simp: jobs_ok_def sheet_resolve_def is_over_def looked_def nth_append list_all_length)
next
  case (Some f)
  show ?thesis
  proof (cases "se_stated en")
    case True
    then have "looked (se_jobs en ! f)" "\<forall>k < f. is_over (se_jobs en ! k)" "Suc f = length (se_jobs en)"
      using Some ok by (auto simp: jobs_ok_def looked_def split: job_stage.splits)
    then show ?thesis using Some True
      by (auto simp: jobs_ok_def sheet_resolve_def is_over_def nth_append less_Suc_eq split: job_stage.splits)
  next
    case False
    then show ?thesis using Some ok by (simp add: sheet_resolve_def)
  qed
qed

lemma jobs_ok_before:
  assumes "jobs_ok en" "se_in_flight en = Some f" "k < f"
  shows "looked (se_jobs en ! k)"
proof (cases "\<exists>i. se_jobs en ! f = JobWaiting i")
  case True
  then show ?thesis using assms by (cases "se_jobs en ! f = JobWaiting k") (auto simp: jobs_ok_def is_over_looked)
next
  case False
  then show ?thesis using assms by (auto simp: jobs_ok_def is_over_looked split: job_stage.splits)
qed

lemma jobs_ok_start:
  assumes ok: "jobs_ok en" and j: "j < length (se_jobs en)" "se_jobs en ! j = JobWaiting i" "se_jobs en ! i = JobOver st"
  shows "jobs_ok (job_start j en)"
proof -
  have no: "\<not> is_over (se_jobs en ! j)" "\<not> looked (se_jobs en ! j)" using j by (simp_all add: is_over_def looked_def)
  then obtain f where f: "se_in_flight en = Some f"
    using ok j(1) by (cases "se_in_flight en") (auto simp: jobs_ok_def list_all_length)
  have "Suc f = length (se_jobs en)" using f ok by (simp add: jobs_ok_def)
  then have "f = j" using jobs_ok_before[OF ok f, of j] j(1) no(2) by (cases "j < f") auto
  then show ?thesis using f ok j
    by (auto simp: jobs_ok_def job_start_def looked_def is_over_def)
qed

lemma jobs_ok_over:
  assumes ok: "jobs_ok en" and j: "j < length (se_jobs en)" "se_jobs en ! j = JobDone st"
  shows "jobs_ok (job_over j st en)"
proof -
  have no: "\<not> is_over (se_jobs en ! j)" "looked (se_jobs en ! j)" using j by (simp_all add: is_over_def looked_def)
  then obtain f where f: "se_in_flight en = Some f"
    using ok j(1) by (cases "se_in_flight en") (auto simp: jobs_ok_def list_all_length)
  have over: "is_over (JobOver st)" by (simp add: is_over_def)
  show ?thesis
  proof (cases "f = j")
    case True
    then have "\<forall>k < j. is_over (se_jobs en ! k)" "Suc j = length (se_jobs en)" using f ok j by (auto simp: jobs_ok_def)
    then show ?thesis using True f over
      by (auto simp: jobs_ok_def job_over_def list_all_length nth_list_update less_Suc_eq)
  next
    case False
    then have "j < f" using f ok j by (auto simp: jobs_ok_def)
    moreover obtain i where "se_jobs en ! f = JobWaiting i" "i = j"
      using f ok \<open>j < f\<close> no by (auto simp: jobs_ok_def split: job_stage.splits)
    ultimately show ?thesis using f ok over False
      by (auto simp: jobs_ok_def job_over_def nth_list_update is_over_looked)
  qed
qed

inductive_cases sheet_stepE: "sheet_step parse ev en en'"

lemma jobs_ok_step:
  assumes "sheet_step parse ev en en'" "jobs_ok en"
  shows "jobs_ok en'"
  using assms(1)
proof cases
  case resolve
  then show ?thesis using jobs_ok_resolve[OF assms(2)] by simp
next
  case (start j i st)
  then show ?thesis using jobs_ok_start[OF assms(2)] by simp
next
  case (stat j found)
  then show ?thesis
    by (intro jobs_ok_advance[OF assms(2), where j = j and stage = "se_jobs en' ! j"])
      (auto simp: job_stat_def looked_def is_over_def Let_def split: option.splits)
next
  case (read j fp body)
  then show ?thesis
    by (intro jobs_ok_advance[OF assms(2), where j = j and stage = "se_jobs en' ! j"])
      (auto simp: job_read_def looked_def is_over_def Let_def split: option.splits)
next
  case (over j st)
  then show ?thesis using jobs_ok_over[OF assms(2)] by simp
qed

lemma jobs_ok_run: "sheet_run parse en \<Longrightarrow> jobs_ok en"
proof (induction rule: sheet_run.induct)
  case fresh
  then show ?case by (simp add: jobs_ok_def new_entry_def)
next
  case (run en ev en')
  then show ?case using jobs_ok_step by blast
qed

subsection \<open>What the observations make of the sheet\<close>

definition observe :: "('text \<Rightarrow> team_sheet option) \<Rightarrow> sheet_state \<Rightarrow> 'text sheet_look \<Rightarrow> sheet_state" where
  "observe parse state seen = (case seen of Gone \<Rightarrow> Absent | Unchanged \<Rightarrow> state | ReadText body \<Rightarrow> after_read parse body state)"

definition sheet_after :: "('text \<Rightarrow> team_sheet option) \<Rightarrow> 'text sheet_look list \<Rightarrow> sheet_state" where
  "sheet_after parse = foldl (observe parse) Absent"

lemma sheet_after_simps[simp]:
  "sheet_after parse [] = Absent"
  "sheet_after parse (seen @ [Gone]) = Absent"
  "sheet_after parse (seen @ [Unchanged]) = sheet_after parse seen"
  "sheet_after parse (seen @ [ReadText body]) = after_read parse body (sheet_after parse seen)"
  by (simp_all add: sheet_after_def observe_def)

lemma state_after_step:
  assumes "sheet_step parse ev en en'" "se_state en = sheet_after parse (se_seen en)"
  shows "se_state en' = sheet_after parse (se_seen en')"
  using assms
  by (cases rule: sheet_stepE)
    (auto simp: sheet_resolve_def job_start_def job_stat_def job_read_def job_over_def Let_def split: option.splits)

lemma state_after_run: "sheet_run parse en \<Longrightarrow> se_state en = sheet_after parse (se_seen en)"
proof (induction rule: sheet_run.induct)
  case fresh
  then show ?case by (simp add: new_entry_def)
next
  case (run en ev en')
  then show ?case using state_after_step by blast
qed

text \<open>An invalid text retains the sheet in force; a file that is gone does not.\<close>

lemma sheet_after_active:
  "sheet_after parse seen = Active sheet stale \<longleftrightarrow>
     (\<exists>before body since. seen = before @ ReadText body # since \<and> parse body = Some sheet \<and> Gone \<notin> set since \<and>
        (\<forall>b. ReadText b \<in> set since \<longrightarrow> parse b = None) \<and> (stale \<longleftrightarrow> (\<exists>b. ReadText b \<in> set since)))"
  (is "_ \<longleftrightarrow> ?in_force seen sheet stale")
proof (induction seen arbitrary: stale rule: rev_induct)
  case Nil
  then show ?case by simp
next
  case (snoc look seen)
  have last: "?in_force (seen @ [look]) sheet stale \<longleftrightarrow>
     (\<exists>body. look = ReadText body \<and> parse body = Some sheet \<and> \<not> stale) \<or>
     (\<exists>old. ?in_force seen sheet old \<and>
        (look = Unchanged \<and> stale = old \<or> (\<exists>body. look = ReadText body \<and> parse body = None \<and> stale)))"
    (is "?L \<longleftrightarrow> ?R")
  proof
    assume ?L
    then obtain before body since where w: "seen @ [look] = before @ ReadText body # since" "parse body = Some sheet"
      "Gone \<notin> set since" "\<forall>b. ReadText b \<in> set since \<longrightarrow> parse b = None" "stale \<longleftrightarrow> (\<exists>b. ReadText b \<in> set since)"
      by blast
    show ?R
    proof (cases since rule: rev_cases)
      case Nil
      then show ?thesis using w by auto
    next
      case (snoc since' x)
      then have x: "x = look" "seen = before @ ReadText body # since'" using w(1) by auto
      have "?in_force seen sheet (\<exists>b. ReadText b \<in> set since')" using w(2-4) x snoc by auto
      then show ?thesis using w(3-5) x(1) snoc by (cases look) auto
    qed
  next
    assume ?R
    then show ?L
    proof (elim disjE exE conjE)
      fix body assume "look = ReadText body" "parse body = Some sheet" "\<not> stale"
      then show ?L by (intro exI[of _ seen] exI[of _ body] exI[of _ "[]"]) simp
    next
      fix old before body since assume "look = Unchanged" "stale = old" "seen = before @ ReadText body # since"
        "parse body = Some sheet" "Gone \<notin> set since" "\<forall>b. ReadText b \<in> set since \<longrightarrow> parse b = None"
        "old \<longleftrightarrow> (\<exists>b. ReadText b \<in> set since)"
      then show ?L by (intro exI[of _ before] exI[of _ body] exI[of _ "since @ [look]"]) auto
    next
      fix old before body since b assume "look = ReadText b" "parse b = None" stale "seen = before @ ReadText body # since"
        "parse body = Some sheet" "Gone \<notin> set since" "\<forall>b. ReadText b \<in> set since \<longrightarrow> parse b = None"
      then show ?L by (intro exI[of _ before] exI[of _ body] exI[of _ "since @ [look]"]) auto
    qed
  qed
  show ?case unfolding last snoc.IH[symmetric]
    by (cases look) (auto simp: after_read_def split: option.splits sheet_state.splits)
qed

subsection \<open>Callers\<close>

lemma resolve_not_looked:
  assumes "jobs_ok en" "sheet_resolve en = (j, en')"
  shows "j < length (se_jobs en') \<and> \<not> looked (se_jobs en' ! j) \<and> se_seen en' = se_seen en"
  using assms
  by (auto simp: sheet_resolve_def looked_def jobs_ok_def nth_append split: option.splits if_splits job_stage.splits)

text \<open>What later steps make of a job: its answer is the sheet after a look taken after the job was asked for.\<close>

inductive sheet_path :: "('text \<Rightarrow> team_sheet option) \<Rightarrow> 'text sheet_entry \<Rightarrow> 'text sheet_entry \<Rightarrow> bool"
  for parse :: "'text \<Rightarrow> team_sheet option" where
  refl: "sheet_path parse en en"
| later: "sheet_path parse en en' \<Longrightarrow> sheet_step parse ev en' en'' \<Longrightarrow> sheet_path parse en en''"

lemma sheet_run_path: "sheet_path parse en en' \<Longrightarrow> sheet_run parse en \<Longrightarrow> sheet_run parse en'"
  by (induction rule: sheet_path.induct) (auto intro: sheet_run.run)

definition answer_fresh :: "('text \<Rightarrow> team_sheet option) \<Rightarrow> nat \<Rightarrow> job_stage \<Rightarrow> 'text sheet_look list \<Rightarrow> bool" where
  "answer_fresh parse asked stage seen \<longleftrightarrow>
     (case stage of
        JobDone st \<Rightarrow> \<exists>n. asked < n \<and> n \<le> length seen \<and> st = sheet_after parse (take n seen)
      | JobOver st \<Rightarrow> \<exists>n. asked < n \<and> n \<le> length seen \<and> st = sheet_after parse (take n seen)
      | _ \<Rightarrow> True)"

lemma answer_fresh_more: "answer_fresh parse asked stage seen \<Longrightarrow> answer_fresh parse asked stage (seen @ newer)"
proof -
  assume fresh: "answer_fresh parse asked stage seen"
  have "\<exists>n. asked < n \<and> n \<le> length (seen @ newer) \<and> st = sheet_after parse (take n (seen @ newer))"
    if "asked < n" "n \<le> length seen" "st = sheet_after parse (take n seen)" for n st
    using that by (intro exI[of _ n]) simp
  then show ?thesis using fresh by (auto simp: answer_fresh_def split: job_stage.splits)
qed

lemma answer_fresh_step:
  assumes step: "sheet_step parse ev en en'" and state: "se_state en = sheet_after parse (se_seen en)"
    and j: "j < length (se_jobs en)" "answer_fresh parse asked (se_jobs en ! j) (se_seen en)" "asked \<le> length (se_seen en)"
  shows "j < length (se_jobs en') \<and> answer_fresh parse asked (se_jobs en' ! j) (se_seen en') \<and> asked \<le> length (se_seen en')"
proof -
  have state': "se_state en' = sheet_after parse (se_seen en')" using step state by (rule state_after_step)
  obtain newer where newer: "se_seen en' = se_seen en @ newer" and n: "length (se_jobs en) \<le> length (se_jobs en')"
    using step
    by cases (auto simp: sheet_resolve_def job_start_def job_stat_def job_read_def job_over_def Let_def split: option.splits if_splits)
  have "se_jobs en' ! j = se_jobs en ! j \<or> \<not> looked (se_jobs en' ! j) \<or> (\<exists>fp. se_jobs en' ! j = JobReading fp) \<or>
      (\<exists>st. se_jobs en ! j = JobDone st \<and> se_jobs en' ! j = JobOver st) \<or>
      (newer \<noteq> [] \<and> se_jobs en' ! j = JobDone (se_state en'))"
    using step j(1) newer
    by cases (auto simp: sheet_resolve_def job_start_def job_stat_def job_read_def job_over_def Let_def looked_def nth_append
        nth_list_update split: option.splits if_splits)
  then have "answer_fresh parse asked (se_jobs en' ! j) (se_seen en')"
  proof (elim disjE exE conjE)
    assume "se_jobs en' ! j = se_jobs en ! j"
    then show ?thesis using j(2) newer by (simp add: answer_fresh_more)
  next
    assume "\<not> looked (se_jobs en' ! j)"
    then show ?thesis by (auto simp: answer_fresh_def looked_def split: job_stage.splits)
  next
    fix fp assume "se_jobs en' ! j = JobReading fp"
    then show ?thesis by (simp add: answer_fresh_def)
  next
    fix st assume st: "se_jobs en ! j = JobDone st" "se_jobs en' ! j = JobOver st"
    have "answer_fresh parse asked (JobDone st) (se_seen en')"
      using answer_fresh_more[OF j(2)] st(1) newer by simp
    then show ?thesis using st(2) by (simp add: answer_fresh_def)
  next
    assume "newer \<noteq> []" "se_jobs en' ! j = JobDone (se_state en')"
    then have "length (se_seen en) < length (se_seen en')" "se_jobs en' ! j = JobDone (se_state en')" using newer by simp_all
    then show ?thesis using state' j(3)
      by (auto simp: answer_fresh_def intro!: exI[of _ "length (se_seen en')"])
  qed
  then show ?thesis using j n newer by simp
qed

lemma answer_fresh_path:
  assumes "sheet_path parse en en'" "sheet_run parse en" "j < length (se_jobs en)" "\<not> looked (se_jobs en ! j)"
  shows "j < length (se_jobs en') \<and> answer_fresh parse (length (se_seen en)) (se_jobs en' ! j) (se_seen en') \<and>
    length (se_seen en) \<le> length (se_seen en')"
  using assms
proof (induction rule: sheet_path.induct)
  case (refl en)
  then show ?case by (auto simp: answer_fresh_def looked_def split: job_stage.splits)
next
  case (later en en' ev en'')
  then have "sheet_run parse en'" using sheet_run_path by blast
  then show ?case using answer_fresh_step[OF later.hyps(2) state_after_run] later by blast
qed

definition at_file :: "job_stage \<Rightarrow> bool" where
  "at_file stage \<longleftrightarrow> (case stage of JobStatting \<Rightarrow> True | JobReading _ \<Rightarrow> True | JobDone _ \<Rightarrow> True | _ \<Rightarrow> False)"

lemma one_refresh_at_once:
  assumes ok: "jobs_ok en" and k: "i < k" "k < length (se_jobs en)" and at: "at_file (se_jobs en ! i)" "at_file (se_jobs en ! k)"
  shows False
proof -
  have no: "\<not> is_over (se_jobs en ! i)" "\<not> is_over (se_jobs en ! k)" "\<forall>w. se_jobs en ! k \<noteq> JobWaiting w"
    using at by (auto simp: at_file_def is_over_def split: job_stage.splits)
  then obtain f where f: "se_in_flight en = Some f"
    using ok k by (cases "se_in_flight en") (auto simp: jobs_ok_def list_all_length)
  show False
  proof (cases "\<exists>w. se_jobs en ! f = JobWaiting w")
    case True
    then obtain w where w: "se_jobs en ! f = JobWaiting w" by blast
    have "k \<noteq> f" "i < f" "k < f" using w no(3) k f ok by (auto simp: jobs_ok_def) (metis Suc_lessI less_Suc_eq_le less_irrefl order_le_less)+
    then have "i = w" "k = w" using f ok w no(1,2) by (auto simp: jobs_ok_def)
    then show False using k(1) by simp
  next
    case False
    then have "\<forall>m < f. is_over (se_jobs en ! m)" "Suc f = length (se_jobs en)"
      using f ok by (auto simp: jobs_ok_def split: job_stage.splits)
    then show False using no(1) k by auto
  qed
qed

text \<open>
  Whoever asks for the sheet is answered with the sheet as it stood after a look at the file taken
  after the question, never with an older look; and no two refreshes of one channel run at once.
\<close>

theorem sheet_answer_is_fresh:
  assumes "sheet_run parse en" "sheet_resolve en = (j, asked)" "sheet_path parse asked later"
  shows "(\<forall>st. se_jobs later ! j \<in> {JobDone st, JobOver st} \<longrightarrow>
      (\<exists>n. length (se_seen en) < n \<and> n \<le> length (se_seen later) \<and> st = sheet_after parse (take n (se_seen later))))
    \<and> (\<forall>i k. i < k \<and> k < length (se_jobs later) \<longrightarrow> \<not> (at_file (se_jobs later ! i) \<and> at_file (se_jobs later ! k)))"
proof -
  have "sheet_step parse EvResolve en asked" using sheet_step.resolve[of parse en] assms(2) by simp
  then have run: "sheet_run parse asked" using assms(1) by (blast intro: sheet_run.run)
  have j: "j < length (se_jobs asked)" "\<not> looked (se_jobs asked ! j)" "se_seen asked = se_seen en"
    using resolve_not_looked[OF jobs_ok_run[OF assms(1)] assms(2)] by auto
  have "answer_fresh parse (length (se_seen en)) (se_jobs later ! j) (se_seen later)"
    using answer_fresh_path[OF assms(3) run j(1,2)] j(3) by simp
  moreover have "jobs_ok later" using sheet_run_path[OF assms(3) run] by (rule jobs_ok_run)
  ultimately show ?thesis using one_refresh_at_once by (auto simp: answer_fresh_def)
qed

text \<open>
  In every run the sheet in force is the last text that parsed since the file was last gone, and
  stale exactly when a later text did not parse; a channel whose sheet never parsed has none in force.
\<close>

theorem sheet_in_force:
  assumes "sheet_run parse en"
  shows "se_state en = Active sheet stale \<longleftrightarrow>
     (\<exists>before body since. se_seen en = before @ ReadText body # since \<and> parse body = Some sheet \<and> Gone \<notin> set since \<and>
        (\<forall>b. ReadText b \<in> set since \<longrightarrow> parse b = None) \<and> (stale \<longleftrightarrow> (\<exists>b. ReadText b \<in> set since)))"
  using sheet_after_active[of parse "se_seen en" sheet stale] state_after_run[OF assms] by simp

subsection \<open>An example\<close>

text \<open>A sheet is read; during the read two callers ask again and share one waiting job, which then finds an invalid text.\<close>

definition first_print :: fingerprint where
  "first_print = \<lparr>fp_mtime = 1, fp_size = 10, fp_ino = 7\<rparr>"

definition second_print :: fingerprint where
  "second_print = \<lparr>fp_mtime = 2, fp_size = 12, fp_ino = 7\<rparr>"

fun example_parse :: "nat \<Rightarrow> team_sheet option" where
  "example_parse n = (if n = 0 then Some demo_sheet else None)"

definition example_reading :: "nat sheet_entry" where
  "example_reading = job_stat 0 (Some first_print) (snd (sheet_resolve new_entry))"

definition example_asked :: "nat sheet_entry" where
  "example_asked = snd (sheet_resolve example_reading)"

definition example_later :: "nat sheet_entry" where
  "example_later = job_read example_parse 1 second_print (Some 1) (job_stat 1 (Some second_print)
     (job_start 1 (job_over 0 (Active demo_sheet False) (job_read example_parse 0 first_print (Some 0) example_asked))))"

lemmas example_defs = first_print_def second_print_def example_reading_def example_asked_def example_later_def
  sheet_resolve_def new_entry_def job_stat_def job_start_def job_read_def job_over_def set_job_def same_file_def after_read_def

lemma example_reading_run: "sheet_run example_parse example_reading"
proof -
  have "sheet_run example_parse (snd (sheet_resolve new_entry))"
    by (rule sheet_run.run[OF sheet_run.fresh sheet_step.resolve])
  moreover have "sheet_step example_parse (EvStat 0 (Some first_print)) (snd (sheet_resolve new_entry)) example_reading"
    unfolding example_reading_def by (rule sheet_step.stat) (simp_all add: example_defs)
  ultimately show ?thesis by (rule sheet_run.run)
qed

lemma example_path: "sheet_path example_parse example_asked example_later"
proof -
  let ?read = "job_read example_parse 0 first_print (Some 0) example_asked"
  let ?over = "job_over 0 (Active demo_sheet False) ?read"
  let ?start = "job_start 1 ?over"
  let ?stat = "job_stat 1 (Some second_print) ?start"
  have "sheet_step example_parse (EvReadFile 0 (Some 0)) example_asked ?read"
    by (rule sheet_step.read) (simp_all add: example_defs)
  moreover have "sheet_step example_parse (EvOver 0) ?read ?over"
    by (rule sheet_step.over) (simp_all add: example_defs Let_def)
  moreover have "sheet_step example_parse (EvStart 1) ?over ?start"
    by (rule sheet_step.start[where i = 0 and st = "Active demo_sheet False"]) (simp_all add: example_defs Let_def)
  moreover have "sheet_step example_parse (EvStat 1 (Some second_print)) ?start ?stat"
    by (rule sheet_step.stat) (simp_all add: example_defs Let_def)
  moreover have "sheet_step example_parse (EvReadFile 1 (Some 1)) ?stat example_later"
    unfolding example_later_def by (rule sheet_step.read) (simp_all add: example_defs Let_def)
  ultimately show ?thesis by (meson sheet_path.intros)
qed

theorem sheet_answer_is_fresh_witness:
  "snd (sheet_resolve example_reading) = example_asked \<and>
   (\<exists>n. length (se_seen example_reading) < n \<and> n \<le> length (se_seen example_later) \<and>
      Active demo_sheet True = sheet_after example_parse (take n (se_seen example_later)))"
proof -
  have asked: "sheet_resolve example_reading = (1, example_asked)"
    by (simp add: example_defs Let_def)
  have "se_jobs example_later ! 1 = JobDone (Active demo_sheet True)"
    by (simp add: example_defs Let_def)
  then show ?thesis
    using sheet_answer_is_fresh[OF example_reading_run asked example_path] asked by simp
qed

theorem sheet_in_force_witness: "se_state example_later = Active demo_sheet True \<and> se_seen example_later = [ReadText 0, ReadText 1]"
proof -
  have "sheet_run example_parse example_asked"
    using sheet_run.run[OF example_reading_run sheet_step.resolve] by (simp add: example_asked_def)
  then have run: "sheet_run example_parse example_later" using example_path sheet_run_path by blast
  have seen: "se_seen example_later = [ReadText 0, ReadText 1]" by (simp add: example_defs Let_def)
  then have "\<exists>before body since. se_seen example_later = before @ ReadText body # since \<and> example_parse body = Some demo_sheet \<and>
      Gone \<notin> set since \<and> (\<forall>b. ReadText b \<in> set since \<longrightarrow> example_parse b = None) \<and> (True \<longleftrightarrow> (\<exists>b. ReadText b \<in> set since))"
    by (intro exI[of _ "[]"] exI[of _ 0] exI[of _ "[ReadText 1]"]) simp
  then show ?thesis using seen by (simp only: sheet_in_force[OF run, of demo_sheet True] simp_thms)
qed

end
