(* ===== verification/Price_Store.thy ===== *)
theory Price_Store
  imports Enforce Demo_Sheet
begin

text \<open>
  The price table on disk (\<open>packages/proxy/src/price-table-store.ts\<close>): \<open>reload\<close> given what the stat and
  the read find, \<open>current\<close>, the watcher's callback and \<open>close\<close>. Parsing the TOML and the digest of its
  text are parameters. Log lines are left out.
\<close>

definition no_prices :: price_lookup where
  "no_prices = \<lparr>pl_price_for = (\<lambda>_. None), pl_version = ''''\<rparr>"

definition lookup_over :: "model_price list \<Rightarrow> string \<Rightarrow> price_lookup" where
  "lookup_over table version = \<lparr>pl_price_for = price_for table, pl_version = version\<rparr>"

definition version_of :: "(string \<Rightarrow> string) \<Rightarrow> string \<Rightarrow> string" where
  "version_of sha256_hex body = take 16 (sha256_hex body)"

text \<open>\<open>stampOf\<close>: modification time, size and inode of the file, when it can be looked at.\<close>

type_synonym stamp = "nat \<times> nat \<times> nat"

record price_store =
  pst_stamp :: "stamp option"
  pst_lookup :: price_lookup
  pst_closed :: bool
  pst_touched :: bool

definition price_store_init :: price_store where
  "price_store_init = \<lparr>pst_stamp = None, pst_lookup = no_prices, pst_closed = False, pst_touched = False\<rparr>"

text \<open>What is on disk: the stamp of a file that is there, and its text when it can be read.\<close>

type_synonym disk = "(stamp \<times> string option) option"

definition stamp_of :: "disk \<Rightarrow> stamp option" where
  "stamp_of = map_option fst"

definition price_reload ::
    "(string \<Rightarrow> model_price list option) \<Rightarrow> (string \<Rightarrow> string) \<Rightarrow> disk \<Rightarrow> price_store \<Rightarrow> price_store" where
  "price_reload parse sha256_hex disk s =
     (if stamp_of disk = pst_stamp s \<and> \<not> pst_touched s then s
      else let s = s\<lparr>pst_touched := False, pst_stamp := stamp_of disk\<rparr>
           in case disk of
                None \<Rightarrow> s\<lparr>pst_lookup := no_prices\<rparr>
              | Some (_, None) \<Rightarrow> s\<lparr>pst_lookup := no_prices\<rparr>
              | Some (_, Some body) \<Rightarrow>
                  (case parse body of
                     None \<Rightarrow> s
                   | Some table \<Rightarrow> s\<lparr>pst_lookup := lookup_over table (version_of sha256_hex body)\<rparr>))"

text \<open>\<open>openPriceTableStore\<close>, without a file and with one.\<close>

definition open_price_store ::
    "(string \<Rightarrow> model_price list option) \<Rightarrow> (string \<Rightarrow> string) \<Rightarrow> disk option \<Rightarrow> price_store" where
  "open_price_store parse sha256_hex file =
     (case file of
        None \<Rightarrow> price_store_init\<lparr>pst_closed := True\<rparr>
      | Some disk \<Rightarrow> price_reload parse sha256_hex disk price_store_init)"

definition price_changed :: "string option \<Rightarrow> string \<Rightarrow> price_store \<Rightarrow> price_store" where
  "price_changed name basename s = (if name = None \<or> name = Some basename then s\<lparr>pst_touched := True\<rparr> else s)"

definition price_current ::
    "(string \<Rightarrow> model_price list option) \<Rightarrow> (string \<Rightarrow> string) \<Rightarrow> disk \<Rightarrow> price_store \<Rightarrow> price_lookup \<times> price_store" where
  "price_current parse sha256_hex disk s =
     (let s = (if pst_closed s then s else price_reload parse sha256_hex disk s) in (pst_lookup s, s))"

definition price_close :: "price_store \<Rightarrow> price_store" where
  "price_close s = s\<lparr>pst_closed := True\<rparr>"

subsection \<open>Edits and lookups\<close>

text \<open>The store beside the disk; \<open>Edited\<close> says whether the watcher announced the edit.\<close>

datatype price_event =
  Edited disk bool
| OtherChange string
| Asked
| Shut

fun price_play ::
    "(string \<Rightarrow> model_price list option) \<Rightarrow> (string \<Rightarrow> string) \<Rightarrow> string \<Rightarrow> price_event list \<Rightarrow> disk \<Rightarrow> price_store \<Rightarrow>
     disk \<times> price_store" where
  "price_play parse sha256_hex name [] disk s = (disk, s)"
| "price_play parse sha256_hex name (Edited new announced # evs) disk s =
     price_play parse sha256_hex name evs new (if announced then price_changed (Some name) name s else s)"
| "price_play parse sha256_hex name (OtherChange other # evs) disk s =
     price_play parse sha256_hex name evs disk (price_changed (Some other) name s)"
| "price_play parse sha256_hex name (Asked # evs) disk s =
     price_play parse sha256_hex name evs disk (snd (price_current parse sha256_hex disk s))"
| "price_play parse sha256_hex name (Shut # evs) disk s =
     price_play parse sha256_hex name evs disk (price_close s)"

text \<open>
  Every edit is noticed: the watcher announces it before anything asks again, or its stamp is one that no
  other file of the history had.
\<close>

fun edits_noticed :: "disk list \<Rightarrow> price_event list \<Rightarrow> bool" where
  "edits_noticed seen [] \<longleftrightarrow> True"
| "edits_noticed seen (Edited new announced # evs) \<longleftrightarrow>
     (announced \<or> list_all (\<lambda>old. stamp_of old = stamp_of new \<longrightarrow> old = new) seen) \<and> edits_noticed (new # seen) evs"
| "edits_noticed seen (_ # evs) \<longleftrightarrow> edits_noticed seen evs"

text \<open>The prices a file should put in force after \<open>old\<close>.\<close>

definition prices_of ::
    "(string \<Rightarrow> model_price list option) \<Rightarrow> (string \<Rightarrow> string) \<Rightarrow> disk \<Rightarrow> price_lookup \<Rightarrow> price_lookup" where
  "prices_of parse sha256_hex disk old =
     (case disk of
        Some (_, Some body) \<Rightarrow>
          (case parse body of Some table \<Rightarrow> lookup_over table (version_of sha256_hex body) | None \<Rightarrow> old)
      | _ \<Rightarrow> no_prices)"

lemma prices_of_idem[simp]: "prices_of parse h disk (prices_of parse h disk old) = prices_of parse h disk old"
  by (auto simp: prices_of_def split: option.splits)

lemma price_reload_alt:
  "price_reload parse h disk s =
     (if stamp_of disk = pst_stamp s \<and> \<not> pst_touched s then s
      else s\<lparr>pst_touched := False, pst_stamp := stamp_of disk, pst_lookup := prices_of parse h disk (pst_lookup s)\<rparr>)"
  by (auto simp: price_reload_def prices_of_def Let_def split: option.splits)

text \<open>What the store knows: untouched, it has the prices of a file it read whose stamp tells it from the present one.\<close>

definition knows ::
    "(string \<Rightarrow> model_price list option) \<Rightarrow> (string \<Rightarrow> string) \<Rightarrow> disk list \<Rightarrow> disk \<Rightarrow> price_store \<Rightarrow> bool" where
  "knows parse h seen disk s \<longleftrightarrow>
     disk \<in> set seen \<and>
     (pst_touched s \<or>
      (\<exists>was \<in> set seen. pst_stamp s = stamp_of was \<and> pst_lookup s = prices_of parse h was (pst_lookup s) \<and>
         (stamp_of disk = stamp_of was \<longrightarrow> disk = was)))"

lemma knows_read:
  assumes "knows parse h seen disk s"
  shows "pst_lookup (price_reload parse h disk s) = prices_of parse h disk (pst_lookup s)"
    and "knows parse h seen disk (price_reload parse h disk s)"
proof -
  show "pst_lookup (price_reload parse h disk s) = prices_of parse h disk (pst_lookup s)"
    using assms by (auto simp: price_reload_alt knows_def)
  show "knows parse h seen disk (price_reload parse h disk s)"
    using assms by (auto simp: price_reload_alt knows_def intro!: bexI[of _ disk])
qed

lemma knows_opened: "knows parse h [disk] disk (open_price_store parse h (Some disk))"
proof (cases disk)
  case None
  then show ?thesis
    by (simp add: open_price_store_def price_store_init_def price_reload_alt knows_def stamp_of_def prices_of_def)
next
  case (Some d)
  then have "open_price_store parse h (Some disk) =
      price_store_init\<lparr>pst_touched := False, pst_stamp := stamp_of disk, pst_lookup := prices_of parse h disk no_prices\<rparr>"
    by (simp add: open_price_store_def price_store_init_def price_reload_alt stamp_of_def)
  then show ?thesis by (simp add: knows_def)
qed

lemma knows_play:
  assumes "knows parse h seen disk s" "edits_noticed seen evs" "price_play parse h name evs disk s = (disk', s')"
  shows "\<exists>seen'. knows parse h seen' disk' s'"
  using assms
proof (induction evs arbitrary: seen disk s)
  case Nil
  then show ?case by auto
next
  case (Cons ev evs)
  show ?case
  proof (cases ev)
    case (Edited new announced)
    have "knows parse h (new # seen) new (if announced then price_changed (Some name) name s else s)"
      using Cons.prems(1,2) Edited by (auto simp: knows_def price_changed_def list_all_iff)
    then show ?thesis
      using Cons.IH[of "new # seen" new] Cons.prems(2,3) Edited by simp
  next
    case (OtherChange other)
    have "knows parse h seen disk (price_changed (Some other) name s)"
      using Cons.prems(1) by (auto simp: knows_def price_changed_def)
    then show ?thesis using Cons.IH[of seen disk] Cons.prems(2,3) OtherChange by simp
  next
    case Asked
    have "knows parse h seen disk (snd (price_current parse h disk s))"
      using knows_read(2)[OF Cons.prems(1)] Cons.prems(1) by (simp add: price_current_def Let_def)
    then show ?thesis using Cons.IH[of seen disk] Cons.prems(2,3) Asked by simp
  next
    case Shut
    have "knows parse h seen disk (price_close s)"
      using Cons.prems(1) by (auto simp: knows_def price_close_def)
    then show ?thesis using Cons.IH[of seen disk] Cons.prems(2,3) Shut by simp
  qed
qed

text \<open>
  As long as every edit is noticed by its stamp or by the watcher, an open store answers with the
  prices of the file as it is now: none when it is gone or cannot be read, the ones in force before when
  it does not parse.
\<close>

theorem prices_are_current:
  assumes "edits_noticed [disk0] evs"
    and "price_play parse h name evs disk0 (open_price_store parse h (Some disk0)) = (disk, s)"
    and "\<not> pst_closed s"
  shows "fst (price_current parse h disk s) = prices_of parse h disk (pst_lookup s)"
proof -
  obtain seen where "knows parse h seen disk s" using knows_play[OF knows_opened assms(1,2)] by blast
  then show ?thesis using knows_read(1) assms(3) by (simp add: price_current_def Let_def)
qed

text \<open>A table edited in place within a clock tick, and announced by the watcher.\<close>

definition tick :: stamp where
  "tick = (5, 100, 9)"

definition free_parse :: "string \<Rightarrow> model_price list option" where
  "free_parse body = (if body = ''free'' then Some [] else None)"

theorem prices_are_current_witness:
  "let evs = [Asked, Edited (Some (tick, Some ''free'')) True];
       (disk, s) = price_play free_parse (\<lambda>x. x) ''prices.toml'' evs (Some (tick, None))
         (open_price_store free_parse (\<lambda>x. x) (Some (Some (tick, None))))
   in fst (price_current free_parse (\<lambda>x. x) disk s) = lookup_over [] ''free''"
  using prices_are_current[of "Some (tick, None)" "[Asked, Edited (Some (tick, Some ''free'')) True]" free_parse "\<lambda>x. x" "''prices.toml''"]
  by (simp add: price_current_def price_changed_def Let_def price_reload_alt open_price_store_def price_store_init_def
      prices_of_def stamp_of_def free_parse_def version_of_def)

text \<open>
  A file that could not be read and then can be, with its stamp unchanged (its permissions were repaired,
  say), and no watcher to announce it: the store goes on pricing nothing. The team sheet store forgets its
  fingerprint in this case and reads again.
\<close>

lemma unreadable_stays_unpriced:
  assumes "pst_stamp s = Some st" "\<not> pst_touched s" "pst_lookup s = no_prices"
  shows "fst (price_current parse h (Some (st, Some body)) s) = no_prices"
  using assms by (simp add: price_current_def price_reload_alt stamp_of_def Let_def)

end
