(* ===== verification/Agent_Loop.thy ===== *)
theory Agent_Loop
  imports Tool_Call
begin

text \<open>
  The agent's task loop (\<open>packages/agent/src/loop\<close>, with the types of \<open>completion/types.ts\<close>): caps.ts,
  and loop.ts's model turn, batch of tool calls and their repetition.

  Everything the loop awaits or calls is a parameter, over a state \<open>'w\<close> of the outside: the listing, the
  provider, the tools, the two hooks, the clock. \<open>env_cancelled\<close> and \<open>env_deadline\<close> are the two abort
  signals; they change only while the loop waits, that is, when a parameter moves \<open>'w\<close>. \<open>Inl\<close> is a throw,
  carrying the error's message. Names and arguments written by the model are UTF-8 bytes.

  \<open>ar_requests\<close>, \<open>ar_executed\<close>, \<open>ar_reported\<close> and \<open>ar_steps\<close> record what the loop asked, ran and reported. Token counts are
  natural numbers; JavaScript's stay exact below \<open>2 ^ 53\<close>.
\<close>

subsection \<open>Types\<close>

record token_usage =
  us_input :: nat
  us_output :: nat
  us_cache_read :: "nat option"
  us_cache_creation :: "nat option"

record model_call =
  mc_id :: string
  mc_name :: string
  mc_arguments :: json

datatype message =
  UserMessage js_text
| AssistantMessage js_text "model_call list" "string option"
| ToolMessage string "result_block list" bool

record tool_definition =
  td_name :: string
  td_description :: string
  td_input_schema :: json

datatype stop_reason = EndTurn | ToolUse | MaxTokensReason | RefusalReason | OtherReason

record completion_response =
  cr_text :: js_text
  cr_calls :: "model_call list"
  cr_stop :: stop_reason
  cr_usage :: token_usage
  cr_model :: "string option"
  cr_cost_nano_usd :: "nat option"
  cr_provider_state :: "string option"

record completion_request =
  rq_model :: string
  rq_messages :: "message list"
  rq_max_tokens :: int
  rq_system :: "js_text option"
  rq_tools :: "tool_definition list"

record attribution =
  at_requesting_user :: string
  at_task :: string
  at_thread :: "string option"

datatype tool_call_state = StepRunning | StepOk | StepError | StepSkipped

record tool_call_step =
  st_ordinal :: nat
  st_name :: string
  st_state :: tool_call_state

record completed_turn =
  ct_usage :: token_usage
  ct_turn :: nat
  ct_model :: "string option"
  ct_cost_nano_usd :: "nat option"

record loop_caps =
  cap_tool_calls :: nat
  cap_wall_time_ms :: nat
  cap_tokens :: nat
  cap_output_per_turn :: nat

definition default_loop_caps :: loop_caps where
  "default_loop_caps = \<lparr>cap_tool_calls = 25, cap_wall_time_ms = 300000, cap_tokens = 200000, cap_output_per_turn = 8192\<rparr>"

datatype agent_stop =
  TaskCompleted | TaskRefusal | TaskMaxTokens | TaskStoppedOther
| TaskToolCallCap | TaskWallTimeCap | TaskTokenCap | TaskCancelled

record 'w agent_env =
  env_cancelled :: "'w \<Rightarrow> bool"
  env_deadline :: "'w \<Rightarrow> bool"
  env_now :: "'w \<Rightarrow> int"
  env_list :: "'w \<Rightarrow> (js_text + tool_definition list) \<times> 'w"
  env_complete :: "completion_request \<Rightarrow> 'w \<Rightarrow> (js_text + completion_response) \<times> 'w"
  env_execute :: "model_call \<Rightarrow> attribution \<Rightarrow> 'w \<Rightarrow> (js_text + tool_result) \<times> 'w"
  env_on_turn :: "completed_turn \<Rightarrow> 'w \<Rightarrow> js_text option \<times> 'w"
  env_on_tool_call :: "tool_call_step \<Rightarrow> 'w \<Rightarrow> 'w"

subsection \<open>The cap tracker\<close>

definition total_tokens :: "token_usage \<Rightarrow> nat" where
  "total_tokens u = us_input u + us_output u + (case us_cache_read u of Some n \<Rightarrow> n | None \<Rightarrow> 0) +
     (case us_cache_creation u of Some n \<Rightarrow> n | None \<Rightarrow> 0)"

record cap_tracker =
  tr_usage :: token_usage
  tr_consumed :: nat
  tr_tool_calls :: nat

definition new_tracker :: cap_tracker where
  "new_tracker = \<lparr>tr_usage = \<lparr>us_input = 0, us_output = 0, us_cache_read = None, us_cache_creation = None\<rparr>,
     tr_consumed = 0, tr_tool_calls = 0\<rparr>"

text \<open>An explicit cancel is never reported as a timeout.\<close>

datatype abort_reason = AbortCancelled | AbortWallTime

definition abort_stop :: "'w agent_env \<Rightarrow> 'w \<Rightarrow> abort_reason option" where
  "abort_stop env w =
     (if env_cancelled env w then Some AbortCancelled
      else if env_deadline env w then Some AbortWallTime
      else None)"

definition tokens_exhausted :: "loop_caps \<Rightarrow> cap_tracker \<Rightarrow> bool" where
  "tokens_exhausted caps t \<longleftrightarrow> cap_tokens caps \<le> tr_consumed t"

definition tool_calls_exhausted :: "loop_caps \<Rightarrow> cap_tracker \<Rightarrow> bool" where
  "tool_calls_exhausted caps t \<longleftrightarrow> cap_tool_calls caps \<le> tr_tool_calls t"

definition output_ceiling :: "loop_caps \<Rightarrow> cap_tracker \<Rightarrow> int" where
  "output_ceiling caps t = max 1 (min (int (cap_output_per_turn caps)) (int (cap_tokens caps) - int (tr_consumed t)))"

definition add_reported :: "nat option \<Rightarrow> nat option \<Rightarrow> nat option" where
  "add_reported so_far reported =
     (case reported of None \<Rightarrow> so_far | Some n \<Rightarrow> Some ((case so_far of Some m \<Rightarrow> m | None \<Rightarrow> 0) + n))"

definition record_turn :: "token_usage \<Rightarrow> cap_tracker \<Rightarrow> cap_tracker" where
  "record_turn u t = t\<lparr>tr_usage := \<lparr>us_input = us_input (tr_usage t) + us_input u,
       us_output = us_output (tr_usage t) + us_output u,
       us_cache_read = add_reported (us_cache_read (tr_usage t)) (us_cache_read u),
       us_cache_creation = add_reported (us_cache_creation (tr_usage t)) (us_cache_creation u)\<rparr>,
     tr_consumed := tr_consumed t + total_tokens u\<rparr>"

definition record_tool_call :: "cap_tracker \<Rightarrow> cap_tracker" where
  "record_tool_call t = t\<lparr>tr_tool_calls := Suc (tr_tool_calls t)\<rparr>"

subsection \<open>One batch of tool calls\<close>

datatype dispatch_stop = StopAbort abort_reason | StopToolCallCap

fun stop_note :: "dispatch_stop \<Rightarrow> js_text" where
  "stop_note (StopAbort AbortCancelled) = js ''task cancelled''"
| "stop_note (StopAbort AbortWallTime) = js ''task wall-time cap reached''"
| "stop_note StopToolCallCap = js ''tool call cap reached''"

record agent_run =
  ar_messages :: "message list"
  ar_text :: js_text
  ar_turns :: nat
  ar_ordinal :: nat
  ar_tracker :: cap_tracker
  ar_requests :: "completion_request list"
  ar_executed :: "model_call list"
  ar_reported :: "completed_turn list"
  ar_steps :: "tool_call_step list"

definition max_tool_error_chars :: nat where
  "max_tool_error_chars = 2048"

definition tool_error_content :: "js_text \<Rightarrow> js_text" where
  "tool_error_content msg =
     take max_tool_error_chars (js ''tool error: '' @ (if msg = [] then js ''tool execution failed'' else msg))"

definition call_note :: "model_call \<Rightarrow> js_text \<Rightarrow> message" where
  "call_note call content = ToolMessage (mc_id call) [TextBlock content] True"

definition add_message :: "message \<Rightarrow> agent_run \<Rightarrow> agent_run" where
  "add_message m r = r\<lparr>ar_messages := ar_messages r @ [m]\<rparr>"

text \<open>The report of a step: the hook is called, and the log keeps it.\<close>

definition report_step ::
    "'w agent_env \<Rightarrow> nat \<Rightarrow> model_call \<Rightarrow> tool_call_state \<Rightarrow> agent_run \<times> 'w \<Rightarrow> agent_run \<times> 'w" where
  "report_step env ordinal call state = (\<lambda>(r, w).
     let step = \<lparr>st_ordinal = ordinal, st_name = mc_name call, st_state = state\<rparr>
     in (r\<lparr>ar_steps := ar_steps r @ [step]\<rparr>, env_on_tool_call env step w))"

definition run_call ::
    "'w agent_env \<Rightarrow> attribution \<Rightarrow> nat \<Rightarrow> model_call \<Rightarrow> agent_run \<times> 'w \<Rightarrow> dispatch_stop option \<times> agent_run \<times> 'w" where
  "run_call env attr ordinal call rw =
     (let (r, w) = rw;
          r = r\<lparr>ar_tracker := record_tool_call (ar_tracker r), ar_executed := ar_executed r @ [call]\<rparr>;
          (r, w) = report_step env ordinal call StepRunning (r, w);
          (answer, w) = env_execute env call attr w
      in case (answer, abort_stop env w) of
           (Inl _, Some aborted) \<Rightarrow>
             let (r, w) = report_step env ordinal call StepSkipped (r, w)
             in (Some (StopAbort aborted),
                 add_message (call_note call (js ''not completed: '' @ stop_note (StopAbort aborted))) r, w)
         | _ \<Rightarrow>
             let res = (case answer of
                 Inl msg \<Rightarrow> \<lparr>res_content = [TextBlock (tool_error_content msg)], res_is_error = True\<rparr>
               | Inr res \<Rightarrow> res);
                 (r, w) = report_step env ordinal call (if res_is_error res then StepError else StepOk) (r, w)
             in (None, add_message (ToolMessage (mc_id call) (res_content res) (res_is_error res)) r, w))"

fun dispatch_calls ::
    "'w agent_env \<Rightarrow> loop_caps \<Rightarrow> attribution \<Rightarrow> model_call list \<Rightarrow> dispatch_stop option \<Rightarrow> agent_run \<times> 'w \<Rightarrow>
     dispatch_stop option \<times> agent_run \<times> 'w" where
  "dispatch_calls env caps attr [] stopped rw = (stopped, rw)"
| "dispatch_calls env caps attr (call # calls) stopped (r, w) =
     (let stopped = (case stopped of
            Some s \<Rightarrow> Some s
          | None \<Rightarrow> (case abort_stop env w of
                Some a \<Rightarrow> Some (StopAbort a)
              | None \<Rightarrow> if tool_calls_exhausted caps (ar_tracker r) then Some StopToolCallCap else None));
          ordinal = Suc (ar_ordinal r);
          r = r\<lparr>ar_ordinal := ordinal\<rparr>
      in case stopped of
           Some s \<Rightarrow>
             let (r, w) = report_step env ordinal call StepSkipped (r, w)
             in dispatch_calls env caps attr calls stopped
                  (add_message (call_note call (js ''not executed: '' @ stop_note s)) r, w)
         | None \<Rightarrow>
             let (stopped, rw) = run_call env attr ordinal call (r, w)
             in dispatch_calls env caps attr calls stopped rw)"

subsection \<open>One model turn\<close>

record agent_task =
  tk_model :: string
  tk_requesting_user :: string
  tk_task_id :: string
  tk_thread :: "string option"
  tk_system :: "js_text option"
  tk_messages :: "message list"
  tk_caps :: loop_caps

record agent_result =
  rs_stop :: agent_stop
  rs_task_id :: string
  rs_text :: js_text
  rs_messages :: "message list"
  rs_usage :: token_usage
  rs_total_tokens :: nat
  rs_tool_calls :: nat
  rs_turns :: nat
  rs_elapsed_ms :: int

definition attribution_of :: "agent_task \<Rightarrow> attribution" where
  "attribution_of task = \<lparr>at_requesting_user = tk_requesting_user task, at_task = tk_task_id task, at_thread = tk_thread task\<rparr>"

definition abort_result :: "abort_reason \<Rightarrow> agent_stop" where
  "abort_result a = (case a of AbortCancelled \<Rightarrow> TaskCancelled | AbortWallTime \<Rightarrow> TaskWallTimeCap)"

definition dispatch_result :: "dispatch_stop \<Rightarrow> agent_stop" where
  "dispatch_result s = (case s of StopAbort a \<Rightarrow> abort_result a | StopToolCallCap \<Rightarrow> TaskToolCallCap)"

text \<open>\<open>fromStopReason\<close>; its caller has excluded \<open>tool_use\<close>.\<close>

definition from_stop_reason :: "stop_reason \<Rightarrow> agent_stop" where
  "from_stop_reason reason =
     (case reason of EndTurn \<Rightarrow> TaskCompleted | RefusalReason \<Rightarrow> TaskRefusal | MaxTokensReason \<Rightarrow> TaskMaxTokens
      | _ \<Rightarrow> TaskStoppedOther)"

definition agent_request :: "agent_task \<Rightarrow> tool_definition list \<Rightarrow> agent_run \<Rightarrow> completion_request" where
  "agent_request task tools r =
     \<lparr>rq_model = tk_model task, rq_messages = ar_messages r, rq_max_tokens = output_ceiling (tk_caps task) (ar_tracker r),
      rq_system = tk_system task, rq_tools = tools\<rparr>"

definition ask :: "agent_task \<Rightarrow> tool_definition list \<Rightarrow> agent_run \<Rightarrow> agent_run" where
  "ask task tools r = r\<lparr>ar_requests := ar_requests r @ [agent_request task tools r]\<rparr>"

text \<open>What a turn's answer does to the run: before the hook, and after it.\<close>

definition count_answer :: "completion_response \<Rightarrow> agent_run \<Rightarrow> agent_run" where
  "count_answer response r = r\<lparr>ar_turns := Suc (ar_turns r), ar_tracker := record_turn (cr_usage response) (ar_tracker r)\<rparr>"

definition report_turn :: "completion_response \<Rightarrow> agent_run \<Rightarrow> completed_turn \<times> agent_run" where
  "report_turn response r =
     (let turn = \<lparr>ct_usage = cr_usage response, ct_turn = ar_turns r, ct_model = cr_model response,
                  ct_cost_nano_usd = cr_cost_nano_usd response\<rparr>
      in (turn, r\<lparr>ar_reported := ar_reported r @ [turn]\<rparr>))"

definition keep_answer :: "completion_response \<Rightarrow> agent_run \<Rightarrow> agent_run" where
  "keep_answer response r =
     add_message (AssistantMessage (cr_text response) (cr_calls response) (cr_provider_state response))
       (if cr_text response \<noteq> [] then r\<lparr>ar_text := cr_text response\<rparr> else r)"

text \<open>The loop's body: the task ends (or the loop throws), or another turn follows.\<close>

datatype 'w turn_end = TurnThrew js_text agent_run 'w | TurnEnded agent_stop agent_run 'w | TurnAgain agent_run 'w

definition agent_turn ::
    "'w agent_env \<Rightarrow> agent_task \<Rightarrow> tool_definition list \<Rightarrow> agent_run \<times> 'w \<Rightarrow> 'w turn_end" where
  "agent_turn env task tools rw =
     (let (r, w) = rw
      in case abort_stop env w of
          Some a \<Rightarrow> TurnEnded (abort_result a) r w
        | None \<Rightarrow>
          if tokens_exhausted (tk_caps task) (ar_tracker r) then TurnEnded TaskTokenCap r w
          else
            let (answer, w) = env_complete env (agent_request task tools r) w;
                r = ask task tools r
            in case answer of
                Inl msg \<Rightarrow>
                  (case abort_stop env w of
                     Some a \<Rightarrow> TurnEnded (abort_result a) r w
                   | None \<Rightarrow> TurnThrew msg r w)
              | Inr response \<Rightarrow>
                  let (turn, r) = report_turn response (count_answer response r);
                      (threw, w) = env_on_turn env turn w
                  in case threw of
                      Some msg \<Rightarrow> TurnThrew msg r w
                    | None \<Rightarrow>
                      let r = keep_answer response r
                      in if cr_stop response \<noteq> ToolUse then TurnEnded (from_stop_reason (cr_stop response)) r w
                         else if cr_calls response = [] then TurnEnded TaskStoppedOther r w
                         else
                           let (stopped, r, w) =
                             dispatch_calls env (tk_caps task) (attribution_of task) (cr_calls response) None (r, w)
                           in case stopped of Some s \<Rightarrow> TurnEnded (dispatch_result s) r w | None \<Rightarrow> TurnAgain r w)"

subsection \<open>The batch, in steps\<close>

lemma report_step_simps [simp]:
  "fst (report_step env n call st rw) = (fst rw)\<lparr>ar_steps := ar_steps (fst rw) @ [\<lparr>st_ordinal = n, st_name = mc_name call, st_state = st\<rparr>]\<rparr>"
  by (cases rw) (simp add: report_step_def Let_def)

text \<open>A call that runs: it is counted, reported twice and answered once.\<close>

lemma run_call_effect:
  assumes "run_call env attr n call (r, w) = (stopped, r', w')"
  obtains final content failed where "final \<in> {StepOk, StepError, StepSkipped}"
    "r' = r\<lparr>ar_tracker := record_tool_call (ar_tracker r), ar_executed := ar_executed r @ [call],
       ar_steps := ar_steps r @ [\<lparr>st_ordinal = n, st_name = mc_name call, st_state = StepRunning\<rparr>,
         \<lparr>st_ordinal = n, st_name = mc_name call, st_state = final\<rparr>],
       ar_messages := ar_messages r @ [ToolMessage (mc_id call) content failed]\<rparr>"
proof -
  obtain answer w1 where ex: "env_execute env call attr (snd (report_step env n call StepRunning (r, w))) = (answer, w1)"
    by (cases "env_execute env call attr (snd (report_step env n call StepRunning (r, w)))") auto
  show ?thesis
  proof (cases "\<exists>msg a. answer = Inl msg \<and> abort_stop env w1 = Some a")
    case True
    then obtain msg a where "answer = Inl msg" "abort_stop env w1 = Some a" by blast
    then show ?thesis using assms ex
      by (intro that[of StepSkipped "[TextBlock (js ''not completed: '' @ stop_note (StopAbort a))]" True]) (auto simp: run_call_def report_step_def add_message_def call_note_def Let_def)
  next
    case False
    let ?res = "case answer of Inl msg \<Rightarrow> \<lparr>res_content = [TextBlock (tool_error_content msg)], res_is_error = True\<rparr> | Inr res \<Rightarrow> res"
    show ?thesis using assms ex False
      by (intro that[of "if res_is_error ?res then StepError else StepOk" "res_content ?res" "res_is_error ?res"])
        (auto simp: run_call_def report_step_def add_message_def Let_def split: sum.splits option.splits)
  qed
qed

lemma run_call_tracker:
  assumes "run_call env attr n call (r, w) = (stopped, r', w')"
  shows "ar_tracker r' = record_tool_call (ar_tracker r) \<and> ar_executed r' = ar_executed r @ [call] \<and>
     ar_ordinal r' = ar_ordinal r \<and> ar_text r' = ar_text r \<and> ar_turns r' = ar_turns r \<and> ar_requests r' = ar_requests r \<and>
     ar_reported r' = ar_reported r"
  by (rule run_call_effect[OF assms]) simp

lemma dispatch_calls_stopped:
  "dispatch_calls env caps attr calls (Some s) (r, w) = (stopped, r', w') \<Longrightarrow>
     stopped = Some s \<and> ar_tracker r' = ar_tracker r \<and> ar_executed r' = ar_executed r"
  by (induction calls arbitrary: r w) (auto simp: report_step_def add_message_def Let_def)

text \<open>A batch that lets the loop go on ran every call, within the cap.\<close>

lemma dispatch_calls_all:
  "dispatch_calls env caps attr calls None (r, w) = (None, r', w') \<Longrightarrow>
     tr_tool_calls (ar_tracker r') = tr_tool_calls (ar_tracker r) + length calls \<and>
     (calls \<noteq> [] \<longrightarrow> tr_tool_calls (ar_tracker r') \<le> cap_tool_calls caps)"
proof (induction calls arbitrary: r w)
  case Nil
  then show ?case by simp
next
  case (Cons call calls)
  let ?r = "r\<lparr>ar_ordinal := Suc (ar_ordinal r)\<rparr>"
  have go: "abort_stop env w = None" "\<not> tool_calls_exhausted caps (ar_tracker r)"
    using Cons.prems dispatch_calls_stopped by (fastforce simp: Let_def split: option.splits if_splits prod.splits)+
  obtain st r1 w1 where run: "run_call env attr (Suc (ar_ordinal r)) call (?r, w) = (st, r1, w1)"
    by (cases "run_call env attr (Suc (ar_ordinal r)) call (?r, w)") auto
  have rest: "dispatch_calls env caps attr calls st (r1, w1) = (None, r', w')"
    using Cons.prems go run by (simp add: Let_def)
  then have "st = None" using dispatch_calls_stopped[of env caps attr calls _ r1 w1 None r' w'] by (cases st) auto
  then have "tr_tool_calls (ar_tracker r') = tr_tool_calls (ar_tracker r1) + length calls \<and>
      (calls \<noteq> [] \<longrightarrow> tr_tool_calls (ar_tracker r') \<le> cap_tool_calls caps)"
    using Cons.IH rest by blast
  moreover have "tr_tool_calls (ar_tracker r1) = Suc (tr_tool_calls (ar_tracker r))"
    using run_call_tracker[OF run] by (simp add: record_tool_call_def)
  ultimately show ?case using go(2) by (cases calls) (auto simp: tool_calls_exhausted_def)
qed

text \<open>The five ways a turn goes.\<close>

definition answered_run :: "agent_task \<Rightarrow> tool_definition list \<Rightarrow> completion_response \<Rightarrow> agent_run \<Rightarrow> agent_run" where
  "answered_run task tools response r = snd (report_turn response (count_answer response (ask task tools r)))"

lemma agent_turn_cases:
  obtains
    (before) stop where "agent_turn env task tools (r, w) = TurnEnded stop r w" "stop \<noteq> TaskStoppedOther"
  | (failed) msg stop w' where "\<not> tokens_exhausted (tk_caps task) (ar_tracker r)"
      "agent_turn env task tools (r, w) \<in> {TurnThrew msg (ask task tools r) w', TurnEnded stop (ask task tools r) w'}"
  | (hook_threw) msg response w' where "\<not> tokens_exhausted (tk_caps task) (ar_tracker r)"
      "agent_turn env task tools (r, w) = TurnThrew msg (answered_run task tools response r) w'"
  | (model_stopped) stop response w' where "\<not> tokens_exhausted (tk_caps task) (ar_tracker r)"
      "agent_turn env task tools (r, w) = TurnEnded stop (keep_answer response (answered_run task tools response r)) w'"
      "cr_stop response \<noteq> ToolUse \<and> stop = from_stop_reason (cr_stop response) \<or> cr_calls response = []"
  | (called) stopped response r' w1 w' where "\<not> tokens_exhausted (tk_caps task) (ar_tracker r)" "cr_calls response \<noteq> []"
      "dispatch_calls env (tk_caps task) (attribution_of task) (cr_calls response) None
         (keep_answer response (answered_run task tools response r), w1) = (stopped, r', w')"
      "agent_turn env task tools (r, w) =
         (case stopped of Some s \<Rightarrow> TurnEnded (dispatch_result s) r' w' | None \<Rightarrow> TurnAgain r' w')"
proof (cases "abort_stop env w \<noteq> None \<or> tokens_exhausted (tk_caps task) (ar_tracker r)")
  case True
  show ?thesis
  proof (cases "abort_stop env w")
    case None
    then show ?thesis using True before[of TaskTokenCap] by (simp add: agent_turn_def)
  next
    case (Some a)
    then show ?thesis using before[of "abort_result a"] by (simp add: agent_turn_def abort_result_def split: abort_reason.splits)
  qed
next
  case False
  then have abort: "abort_stop env w = None" and tokens: "\<not> tokens_exhausted (tk_caps task) (ar_tracker r)" by auto
  obtain answer w1 where complete: "env_complete env (agent_request task tools r) w = (answer, w1)"
    by (cases "env_complete env (agent_request task tools r) w") auto
  show ?thesis
  proof (cases answer)
    case (Inl msg)
    then show ?thesis using failed[OF tokens] abort tokens complete
      by (cases "abort_stop env w1") (auto simp: agent_turn_def Let_def)
  next
    case (Inr response)
    obtain turn where report: "report_turn response (count_answer response (ask task tools r)) = (turn, answered_run task tools response r)"
      by (simp add: answered_run_def) (metis prod.collapse)
    obtain threw w2 where hook: "env_on_turn env turn w1 = (threw, w2)"
      by (cases "env_on_turn env turn w1") auto
    note turn_simps = agent_turn_def Let_def abort tokens complete Inr report hook
    show ?thesis
    proof (cases threw)
      case (Some msg)
      then show ?thesis using hook_threw[OF tokens] by (simp add: turn_simps)
    next
      case None
      show ?thesis
      proof (cases "cr_stop response \<noteq> ToolUse \<or> cr_calls response = []")
        case True
        then show ?thesis using model_stopped[OF tokens, of _ response w2] None
          by (cases "cr_stop response = ToolUse") (auto simp: turn_simps)
      next
        case False
        obtain stopped r' w' where run: "dispatch_calls env (tk_caps task) (attribution_of task) (cr_calls response) None
            (keep_answer response (answered_run task tools response r), w2) = (stopped, r', w')"
          by (cases "dispatch_calls env (tk_caps task) (attribution_of task) (cr_calls response) None
            (keep_answer response (answered_run task tools response r), w2)") auto
        show ?thesis using called[OF tokens _ run] False None run by (simp add: turn_simps)
      qed
    qed
  qed
qed

lemma answered_run_tracker [simp]:
  "ar_tracker (answered_run task tools response r) = record_turn (cr_usage response) (ar_tracker r)"
  by (simp add: answered_run_def report_turn_def count_answer_def ask_def Let_def)

lemma keep_answer_simps [simp]:
  "ar_tracker (keep_answer response r) = ar_tracker r"
  "ar_messages (keep_answer response r) =
     ar_messages r @ [AssistantMessage (cr_text response) (cr_calls response) (cr_provider_state response)]"
  "ar_turns (keep_answer response r) = ar_turns r"
  "ar_reported (keep_answer response r) = ar_reported r"
  "ar_requests (keep_answer response r) = ar_requests r"
  "ar_executed (keep_answer response r) = ar_executed r"
  "ar_steps (keep_answer response r) = ar_steps r"
  "ar_ordinal (keep_answer response r) = ar_ordinal r"
  by (simp_all add: keep_answer_def add_message_def)

lemma agent_turn_again:
  assumes "agent_turn env task tools (r, w) = TurnAgain r' w'"
  shows "tr_tool_calls (ar_tracker r) < tr_tool_calls (ar_tracker r') \<and>
    tr_tool_calls (ar_tracker r') \<le> cap_tool_calls (tk_caps task)"
proof (cases rule: agent_turn_cases[of env task tools r w])
  case (called stopped response r1 w1 w2)
  then have "stopped = None" "r1 = r'" using assms by (auto split: option.splits)
  then show ?thesis using dispatch_calls_all called(2,3) by (fastforce simp: record_turn_def)
qed (use assms in auto)

subsection \<open>The task\<close>

function agent_loop ::
    "'w agent_env \<Rightarrow> agent_task \<Rightarrow> tool_definition list \<Rightarrow> agent_run \<times> 'w \<Rightarrow> (js_text + agent_stop) \<times> agent_run \<times> 'w" where
  "agent_loop env task tools rw =
     (case agent_turn env task tools rw of
        TurnThrew msg r w \<Rightarrow> (Inl msg, r, w)
      | TurnEnded stop r w \<Rightarrow> (Inr stop, r, w)
      | TurnAgain r w \<Rightarrow> agent_loop env task tools (r, w))"
  by pat_completeness auto
termination
  by (relation "measure (\<lambda>(env, task, tools, r, w). cap_tool_calls (tk_caps task) - tr_tool_calls (ar_tracker r))")
    (auto dest: agent_turn_again simp: diff_less_mono2)

definition agent_start :: "agent_task \<Rightarrow> agent_run" where
  "agent_start task =
     \<lparr>ar_messages = tk_messages task, ar_text = [], ar_turns = 0, ar_ordinal = 0, ar_tracker = new_tracker,
      ar_requests = [], ar_executed = [], ar_reported = [], ar_steps = []\<rparr>"

definition agent_finish :: "'w agent_env \<Rightarrow> agent_task \<Rightarrow> int \<Rightarrow> agent_stop \<Rightarrow> agent_run \<Rightarrow> 'w \<Rightarrow> agent_result" where
  "agent_finish env task started stop r w =
     \<lparr>rs_stop = stop, rs_task_id = tk_task_id task, rs_text = ar_text r, rs_messages = ar_messages r,
      rs_usage = tr_usage (ar_tracker r), rs_total_tokens = tr_consumed (ar_tracker r),
      rs_tool_calls = tr_tool_calls (ar_tracker r), rs_turns = ar_turns r, rs_elapsed_ms = env_now env w - started\<rparr>"

text \<open>\<open>runAgentTask\<close>: the result or what it rejects with, and the log.\<close>

definition run_agent_task :: "'w agent_env \<Rightarrow> agent_task \<Rightarrow> 'w \<Rightarrow> (js_text + agent_result) \<times> agent_run \<times> 'w" where
  "run_agent_task env task w =
     (let started = env_now env w; r = agent_start task
      in case abort_stop env w of
          Some a \<Rightarrow> (Inr (agent_finish env task started (abort_result a) r w), r, w)
        | None \<Rightarrow>
            (case env_list env w of
               (Inl msg, w) \<Rightarrow> (Inl msg, r, w)
             | (Inr tools, w) \<Rightarrow>
                 (case agent_loop env task tools (r, w) of
                    (Inl msg, r, w) \<Rightarrow> (Inl msg, r, w)
                  | (Inr stop, r, w) \<Rightarrow> (Inr (agent_finish env task started stop r w), r, w))))"

subsection \<open>What every run keeps\<close>

text \<open>
  The calls a transcript leaves open: \<open>None\<close> where a result answers no open call, or a message interrupts
  them. A provider takes a transcript that leaves none.
\<close>

fun open_after :: "message \<Rightarrow> string list \<Rightarrow> string list option" where
  "open_after (ToolMessage i _ _) (j # ids) = (if i = j then Some ids else None)"
| "open_after (ToolMessage _ _ _) [] = None"
| "open_after (AssistantMessage _ calls _) [] = Some (map mc_id calls)"
| "open_after (UserMessage _) [] = Some []"
| "open_after _ (_ # _) = None"

definition open_calls :: "message list \<Rightarrow> string list option" where
  "open_calls ms = foldl (\<lambda>ids m. Option.bind ids (open_after m)) (Some []) ms"

lemma open_calls_simps [simp]:
  "open_calls [] = Some []"
  "open_calls (ms @ [m]) = Option.bind (open_calls ms) (open_after m)"
  by (simp_all add: open_calls_def)

text \<open>The report: each call has its ordinal, and was skipped, or ran and came to one end.\<close>

definition step_group :: "nat \<Rightarrow> tool_call_step list \<Rightarrow> bool" where
  "step_group n steps \<longleftrightarrow>
     (\<exists>name. steps = [\<lparr>st_ordinal = n, st_name = name, st_state = StepSkipped\<rparr>] \<or>
        (\<exists>final \<in> {StepOk, StepError, StepSkipped}.
           steps = [\<lparr>st_ordinal = n, st_name = name, st_state = StepRunning\<rparr>, \<lparr>st_ordinal = n, st_name = name, st_state = final\<rparr>]))"

inductive steps_ok :: "nat \<Rightarrow> tool_call_step list \<Rightarrow> bool" where
  none: "steps_ok 0 []"
| group: "steps_ok n steps \<Longrightarrow> step_group (Suc n) grp \<Longrightarrow> steps_ok (Suc n) (steps @ grp)"

definition run_inv :: "agent_task \<Rightarrow> string list \<Rightarrow> agent_run \<Rightarrow> bool" where
  "run_inv task ids r \<longleftrightarrow>
     open_calls (ar_messages r) = Some ids \<and>
     length (ar_executed r) = tr_tool_calls (ar_tracker r) \<and>
     tr_tool_calls (ar_tracker r) \<le> cap_tool_calls (tk_caps task) \<and>
     steps_ok (ar_ordinal r) (ar_steps r)"

lemma run_call_inv:
  assumes inv: "run_inv task (mc_id call # ids) r"
    and room: "\<not> tool_calls_exhausted (tk_caps task) (ar_tracker r)"
    and run: "run_call env attr (Suc (ar_ordinal r)) call (r\<lparr>ar_ordinal := Suc (ar_ordinal r)\<rparr>, w) = (stopped, r', w')"
  shows "run_inv task ids r'"
proof (rule run_call_effect[OF run])
  fix final content failed
  assume final: "final \<in> {StepOk, StepError, StepSkipped}"
    and r': "r' = r\<lparr>ar_ordinal := Suc (ar_ordinal r)\<rparr>
       \<lparr>ar_tracker := record_tool_call (ar_tracker (r\<lparr>ar_ordinal := Suc (ar_ordinal r)\<rparr>)),
        ar_executed := ar_executed (r\<lparr>ar_ordinal := Suc (ar_ordinal r)\<rparr>) @ [call],
        ar_steps := ar_steps (r\<lparr>ar_ordinal := Suc (ar_ordinal r)\<rparr>) @
          [\<lparr>st_ordinal = Suc (ar_ordinal r), st_name = mc_name call, st_state = StepRunning\<rparr>,
           \<lparr>st_ordinal = Suc (ar_ordinal r), st_name = mc_name call, st_state = final\<rparr>],
        ar_messages := ar_messages (r\<lparr>ar_ordinal := Suc (ar_ordinal r)\<rparr>) @ [ToolMessage (mc_id call) content failed]\<rparr>"
  have "steps_ok (Suc (ar_ordinal r)) (ar_steps r @ [\<lparr>st_ordinal = Suc (ar_ordinal r), st_name = mc_name call, st_state = StepRunning\<rparr>,
      \<lparr>st_ordinal = Suc (ar_ordinal r), st_name = mc_name call, st_state = final\<rparr>])"
    using inv final by (intro steps_ok.group) (auto simp: run_inv_def step_group_def)
  then show ?thesis
    using inv room by (simp add: r' run_inv_def record_tool_call_def tool_calls_exhausted_def)
qed

lemma skip_call_inv:
  assumes "run_inv task (mc_id call # ids) r" "report_step env (Suc (ar_ordinal r)) call StepSkipped (r\<lparr>ar_ordinal := Suc (ar_ordinal r)\<rparr>, w) = (r1, w1)"
  shows "run_inv task ids (add_message (call_note call content) r1)"
proof -
  have "steps_ok (Suc (ar_ordinal r)) (ar_steps r @ [\<lparr>st_ordinal = Suc (ar_ordinal r), st_name = mc_name call, st_state = StepSkipped\<rparr>])"
    using assms(1) by (intro steps_ok.group) (auto simp: run_inv_def step_group_def)
  then show ?thesis
    using assms by (auto simp: run_inv_def report_step_def add_message_def call_note_def Let_def)
qed

lemma dispatch_calls_inv:
  assumes "run_inv task (map mc_id calls) r" "dispatch_calls env (tk_caps task) attr calls st (r, w) = (st', r', w')"
  shows "run_inv task [] r' \<and> ar_requests r' = ar_requests r \<and> ar_reported r' = ar_reported r \<and> ar_turns r' = ar_turns r \<and>
    tr_usage (ar_tracker r') = tr_usage (ar_tracker r) \<and> tr_consumed (ar_tracker r') = tr_consumed (ar_tracker r)"
  using assms
proof (induction calls arbitrary: st r w)
  case Nil
  then show ?case by simp
next
  case (Cons call calls)
  let ?r = "r\<lparr>ar_ordinal := Suc (ar_ordinal r)\<rparr>"
  have ids: "run_inv task (mc_id call # map mc_id calls) r" using Cons.prems(1) by simp
  define go where "go = (case st of Some s \<Rightarrow> Some s | None \<Rightarrow> (case abort_stop env w of Some a \<Rightarrow> Some (StopAbort a)
      | None \<Rightarrow> if tool_calls_exhausted (tk_caps task) (ar_tracker r) then Some StopToolCallCap else None))"
  show ?case
  proof (cases go)
    case (Some s)
    obtain r1 w1 where skip: "report_step env (Suc (ar_ordinal r)) call StepSkipped (?r, w) = (r1, w1)"
      by (cases "report_step env (Suc (ar_ordinal r)) call StepSkipped (?r, w)") auto
    let ?r2 = "add_message (call_note call (js ''not executed: '' @ stop_note s)) r1"
    have "dispatch_calls env (tk_caps task) attr calls (Some s) (?r2, w1) = (st', r', w')"
      using Cons.prems(2) Some skip by (simp add: go_def[symmetric] Let_def)
    moreover have "run_inv task (map mc_id calls) ?r2" using skip_call_inv[OF ids skip] .
    moreover have "ar_requests ?r2 = ar_requests r" "ar_reported ?r2 = ar_reported r" "ar_turns ?r2 = ar_turns r" "ar_tracker ?r2 = ar_tracker r"
      using skip by (auto simp: report_step_def add_message_def Let_def)
    ultimately show ?thesis using Cons.IH by metis
  next
    case None
    have room: "\<not> tool_calls_exhausted (tk_caps task) (ar_tracker r)" using None by (auto simp: go_def split: option.splits if_splits)
    obtain s r1 w1 where run: "run_call env attr (Suc (ar_ordinal r)) call (?r, w) = (s, r1, w1)"
      by (cases "run_call env attr (Suc (ar_ordinal r)) call (?r, w)") auto
    have "dispatch_calls env (tk_caps task) attr calls s (r1, w1) = (st', r', w')"
      using Cons.prems(2) None run by (simp add: go_def[symmetric] Let_def)
    moreover have "run_inv task (map mc_id calls) r1"
      using run_call_inv[OF ids room run] .
    moreover have "ar_requests r1 = ar_requests r" "ar_reported r1 = ar_reported r" "ar_turns r1 = ar_turns r"
        "tr_usage (ar_tracker r1) = tr_usage (ar_tracker r)" "tr_consumed (ar_tracker r1) = tr_consumed (ar_tracker r)"
      using run_call_tracker[OF run] by (simp_all add: record_tool_call_def)
    ultimately show ?thesis using Cons.IH by metis
  qed
qed

text \<open>The turns: each was asked with nothing open, and reported with its number; the cap was not spent before the last.\<close>

definition spent :: "completed_turn list \<Rightarrow> nat" where
  "spent turns = sum_list (map (total_tokens \<circ> ct_usage) turns)"

definition turns_inv :: "agent_task \<Rightarrow> agent_run \<Rightarrow> bool" where
  "turns_inv task r \<longleftrightarrow>
     tr_consumed (ar_tracker r) = spent (ar_reported r) \<and>
     map ct_turn (ar_reported r) = [1..<Suc (ar_turns r)] \<and>
     (ar_reported r \<noteq> [] \<longrightarrow> spent (butlast (ar_reported r)) < cap_tokens (tk_caps task)) \<and>
     length (ar_requests r) \<le> Suc (ar_turns r) \<and>
     list_all (\<lambda>rq. open_calls (rq_messages rq) = Some [] \<and> 1 \<le> rq_max_tokens rq \<and>
        rq_max_tokens rq \<le> max 1 (int (cap_output_per_turn (tk_caps task)))) (ar_requests r)"

lemma spent_snoc [simp]: "spent (turns @ [t]) = spent turns + total_tokens (ct_usage t)"
  by (simp add: spent_def)

lemma ask_simps [simp]:
  "ar_messages (ask task tools r) = ar_messages r" "ar_tracker (ask task tools r) = ar_tracker r"
  "ar_turns (ask task tools r) = ar_turns r" "ar_reported (ask task tools r) = ar_reported r"
  "ar_executed (ask task tools r) = ar_executed r" "ar_steps (ask task tools r) = ar_steps r"
  "ar_ordinal (ask task tools r) = ar_ordinal r"
  "ar_requests (ask task tools r) = ar_requests r @ [agent_request task tools r]"
  by (simp_all add: ask_def)

lemma answered_run_simps [simp]:
  "ar_messages (answered_run task tools response r) = ar_messages r"
  "ar_turns (answered_run task tools response r) = Suc (ar_turns r)"
  "ar_executed (answered_run task tools response r) = ar_executed r"
  "ar_steps (answered_run task tools response r) = ar_steps r"
  "ar_ordinal (answered_run task tools response r) = ar_ordinal r"
  "ar_requests (answered_run task tools response r) = ar_requests r @ [agent_request task tools r]"
  "ar_reported (answered_run task tools response r) =
     ar_reported r @ [\<lparr>ct_usage = cr_usage response, ct_turn = Suc (ar_turns r), ct_model = cr_model response,
       ct_cost_nano_usd = cr_cost_nano_usd response\<rparr>]"
  by (simp_all add: answered_run_def report_turn_def count_answer_def Let_def)

lemma record_turn_simps [simp]:
  "tr_tool_calls (record_turn u t) = tr_tool_calls t"
  "tr_consumed (record_turn u t) = tr_consumed t + total_tokens u"
  by (simp_all add: record_turn_def)

lemma turns_inv_ask:
  assumes "turns_inv task r" "open_calls (ar_messages r) = Some []" "length (ar_requests r) = ar_turns r"
  shows "turns_inv task (ask task tools r)"
  using assms by (auto simp: turns_inv_def agent_request_def output_ceiling_def)

lemma turns_inv_answered:
  assumes "turns_inv task r" "open_calls (ar_messages r) = Some []" "length (ar_requests r) = ar_turns r"
    and "\<not> tokens_exhausted (tk_caps task) (ar_tracker r)"
  shows "turns_inv task (answered_run task tools response r)"
  using assms
  by (auto simp: turns_inv_def agent_request_def output_ceiling_def tokens_exhausted_def record_turn_def butlast_append)

lemma run_inv_same:
  assumes "run_inv task ids r" "ar_messages r' = ar_messages r" "ar_executed r' = ar_executed r" "ar_steps r' = ar_steps r"
    "ar_ordinal r' = ar_ordinal r" "tr_tool_calls (ar_tracker r') = tr_tool_calls (ar_tracker r)"
  shows "run_inv task ids r'"
  using assms by (simp add: run_inv_def)

lemma run_inv_keep:
  assumes "run_inv task [] r"
  shows "run_inv task (map mc_id (cr_calls response)) (keep_answer response r)"
  using assms by (simp add: run_inv_def)

text \<open>Between turns.\<close>

definition between_turns :: "agent_task \<Rightarrow> agent_run \<Rightarrow> bool" where
  "between_turns task r \<longleftrightarrow> run_inv task [] r \<and> turns_inv task r \<and> length (ar_requests r) = ar_turns r \<and>
     ar_turns r \<le> tr_tool_calls (ar_tracker r)"

text \<open>At the end: the calls of the last answer are open only where the provider stopped for another reason.\<close>

definition at_end :: "agent_task \<Rightarrow> agent_stop option \<Rightarrow> agent_run \<Rightarrow> bool" where
  "at_end task stop r \<longleftrightarrow> (\<exists>ids. run_inv task ids r \<and>
      (ids \<noteq> [] \<longrightarrow> stop \<in> {Some TaskCompleted, Some TaskRefusal, Some TaskMaxTokens, Some TaskStoppedOther} \<and>
         (\<exists>text calls state before. ar_messages r = before @ [AssistantMessage text calls state] \<and> ids = map mc_id calls \<and>
            open_calls before = Some []))) \<and>
    turns_inv task r \<and> ar_turns r \<le> Suc (cap_tool_calls (tk_caps task)) \<and>
    length (ar_requests r) \<le> Suc (cap_tool_calls (tk_caps task))"

lemma from_stop_reason_cases: "from_stop_reason s \<in> {TaskCompleted, TaskRefusal, TaskMaxTokens, TaskStoppedOther}"
  by (cases s) (auto simp: from_stop_reason_def)

lemma at_end_closed:
  assumes "run_inv task [] r" "turns_inv task r" "ar_turns r \<le> Suc (cap_tool_calls (tk_caps task))"
    "length (ar_requests r) \<le> Suc (cap_tool_calls (tk_caps task))"
  shows "at_end task stop r"
  using assms by (auto simp: at_end_def)

lemma agent_turn_inv:
  assumes inv: "between_turns task r"
  shows "case agent_turn env task tools (r, w) of
      TurnThrew msg r' w' \<Rightarrow> at_end task None r'
    | TurnEnded stop r' w' \<Rightarrow> at_end task (Some stop) r'
    | TurnAgain r' w' \<Rightarrow> between_turns task r'"
proof -
  have run: "run_inv task [] r" and turns: "turns_inv task r" "length (ar_requests r) = ar_turns r"
    and calls: "ar_turns r \<le> cap_tool_calls (tk_caps task)" "ar_turns r \<le> tr_tool_calls (ar_tracker r)"
    using inv by (auto simp: between_turns_def run_inv_def)
  have closed: "open_calls (ar_messages r) = Some []" using run by (simp add: run_inv_def)
  have asked: "at_end task stop (ask task tools r)" for stop
    using run_inv_same[OF run, of "ask task tools r"] turns_inv_ask[OF turns(1) closed turns(2)] turns(2) calls by (intro at_end_closed) auto
  have answered: "run_inv task [] (answered_run task tools response r)"
     "\<not> tokens_exhausted (tk_caps task) (ar_tracker r) \<Longrightarrow> turns_inv task (answered_run task tools response r)" for response
    using run_inv_same[OF run, of "answered_run task tools response r"] turns_inv_answered[OF turns(1) closed turns(2)] by auto
  have kept: "turns_inv task (keep_answer response q) = turns_inv task q" for response q by (simp add: turns_inv_def)
  show ?thesis
  proof (cases rule: agent_turn_cases[of env task tools r w])
    case (before stop)
    then show ?thesis using at_end_closed[OF run turns(1)] turns(2) calls by simp
  next
    case (failed msg stop w')
    then show ?thesis using asked by auto
  next
    case (hook_threw msg response w')
    then show ?thesis using answered[of response] turns(2) calls by (simp add: at_end_closed)
  next
    case (model_stopped stop response w')
    let ?q = "keep_answer response (answered_run task tools response r)"
    have "run_inv task (map mc_id (cr_calls response)) ?q" using run_inv_keep[OF answered(1)] .
    moreover have "turns_inv task ?q" using answered(2) model_stopped(1) kept by simp
    ultimately show ?thesis
      using model_stopped closed turns(2) calls from_stop_reason_cases[of "cr_stop response"] by (auto simp: at_end_def)
  next
    case (called stopped response r' w1 w')
    let ?q = "keep_answer response (answered_run task tools response r)"
    have q: "run_inv task (map mc_id (cr_calls response)) ?q" using run_inv_keep[OF answered(1)] .
    have r': "run_inv task [] r'" "ar_requests r' = ar_requests ?q" "ar_reported r' = ar_reported ?q" "ar_turns r' = ar_turns ?q"
        "tr_consumed (ar_tracker r') = tr_consumed (ar_tracker ?q)"
      using dispatch_calls_inv[OF q called(3)] by auto
    have t': "turns_inv task r'" using answered(2)[OF called(1), of response] r' by (simp add: turns_inv_def)
    show ?thesis
    proof (cases stopped)
      case None
      then have "tr_tool_calls (ar_tracker r') = tr_tool_calls (ar_tracker r) + length (cr_calls response)"
        using dispatch_calls_all called(3) by fastforce
      then show ?thesis using None called(2,4) r' t' turns(2) calls by (simp add: between_turns_def) (cases "cr_calls response"; simp)
    next
      case (Some s)
      then show ?thesis using called(4) r' t' turns(2) calls by (simp add: at_end_closed)
    qed
  qed
qed

lemma agent_loop_inv:
  assumes "between_turns task r" "agent_loop env task tools (r, w) = (res, r', w')"
  shows "at_end task (case res of Inl _ \<Rightarrow> None | Inr stop \<Rightarrow> Some stop) r'"
  using assms
proof (induction env task tools "(r, w)" arbitrary: r w rule: agent_loop.induct)
  case (1 env task tools r w)
  show ?case
  proof (cases "agent_turn env task tools (r, w)")
    case (TurnAgain r1 w1)
    then show ?thesis using 1 agent_turn_inv[OF 1(2), of env tools w] by simp
  qed (use 1 agent_turn_inv[OF 1(2), of env tools w] in auto)
qed

lemma between_turns_start:
  "open_calls (tk_messages task) = Some [] \<Longrightarrow> between_turns task (agent_start task)"
  by (simp add: between_turns_def run_inv_def turns_inv_def agent_start_def new_tracker_def spent_def steps_ok.none)

lemma between_turns_end: "between_turns task r \<Longrightarrow> at_end task stop r"
  by (intro at_end_closed) (auto simp: between_turns_def run_inv_def)

lemma run_agent_task_end:
  assumes "open_calls (tk_messages task) = Some []" "run_agent_task env task w = (res, r, w')"
  shows "at_end task (case res of Inl _ \<Rightarrow> None | Inr result \<Rightarrow> Some (rs_stop result)) r \<and>
    (\<forall>result. res = Inr result \<longrightarrow> rs_messages result = ar_messages r \<and> rs_turns result = ar_turns r \<and>
       rs_tool_calls result = tr_tool_calls (ar_tracker r) \<and> rs_total_tokens result = tr_consumed (ar_tracker r))"
proof -
  note start = between_turns_start[OF assms(1)]
  show ?thesis
  proof (cases "abort_stop env w")
    case (Some a)
    then show ?thesis using assms(2) between_turns_end[OF start] by (auto simp: run_agent_task_def Let_def agent_finish_def)
  next
    case None
    obtain listing w1 where listing: "env_list env w = (listing, w1)" by (cases "env_list env w") auto
    show ?thesis
    proof (cases listing)
      case (Inl msg)
      then show ?thesis using assms(2) None listing between_turns_end[OF start] by (auto simp: run_agent_task_def Let_def)
    next
      case (Inr tools)
      obtain stop r1 w2 where loop: "agent_loop env task tools (agent_start task, w1) = (stop, r1, w2)"
        by (cases "agent_loop env task tools (agent_start task, w1)") auto
      have "run_agent_task env task w = (case stop of Inl msg \<Rightarrow> (Inl msg, r1, w2)
          | Inr st \<Rightarrow> (Inr (agent_finish env task (env_now env w) st r1 w2), r1, w2))"
        using None listing Inr loop by (simp add: run_agent_task_def Let_def del: agent_loop.simps split: sum.split)
      then show ?thesis using agent_loop_inv[OF start loop] assms(2) by (auto simp: agent_finish_def split: sum.splits)
    qed
  qed
qed

text \<open>
  C11. A task always ends: whatever the provider and the tools do, it asks for at most one turn more than
  its cap on tool calls, dispatches at most that cap, and starts no turn once its tokens are spent, so that
  only the last turn passes \<open>maxTokens\<close>. Its result counts exactly the calls it dispatched and the turns it
  reported.
\<close>

theorem agent_task_bounded:
  assumes "open_calls (tk_messages task) = Some []" "run_agent_task env task w = (res, r, w')"
  shows "length (ar_requests r) \<le> Suc (cap_tool_calls (tk_caps task)) \<and>
    length (ar_executed r) \<le> cap_tool_calls (tk_caps task) \<and>
    (ar_reported r \<noteq> [] \<longrightarrow> spent (butlast (ar_reported r)) < cap_tokens (tk_caps task)) \<and>
    list_all (\<lambda>rq. 1 \<le> rq_max_tokens rq \<and> rq_max_tokens rq \<le> max 1 (int (cap_output_per_turn (tk_caps task)))) (ar_requests r) \<and>
    (\<forall>result. res = Inr result \<longrightarrow> rs_tool_calls result = length (ar_executed r) \<and> rs_turns result = length (ar_reported r) \<and>
       rs_total_tokens result = spent (ar_reported r))"
proof -
  have e: "at_end task (case res of Inl _ \<Rightarrow> None | Inr result \<Rightarrow> Some (rs_stop result)) r"
    and res: "\<forall>result. res = Inr result \<longrightarrow> rs_messages result = ar_messages r \<and> rs_turns result = ar_turns r \<and>
       rs_tool_calls result = tr_tool_calls (ar_tracker r) \<and> rs_total_tokens result = tr_consumed (ar_tracker r)"
    using run_agent_task_end[OF assms] by blast+
  from e obtain ids where run: "run_inv task ids r" and turns: "turns_inv task r"
      and n: "length (ar_requests r) \<le> Suc (cap_tool_calls (tk_caps task))"
    by (auto simp: at_end_def)
  have "length (map ct_turn (ar_reported r)) = length [1..<Suc (ar_turns r)]" using turns by (simp only: turns_inv_def)
  then have "length (ar_reported r) = ar_turns r" by simp
  then show ?thesis using run turns n res by (simp add: run_inv_def turns_inv_def list_all_iff)
qed

text \<open>
  C12. Every transcript sent to the provider answers each tool call once, in order, and so does the one a
  task ends with, cap or cancel included; the one exception is an answer that asks for tools and stops for
  another reason, whose calls stay open.
\<close>

theorem agent_transcript_answered:
  assumes "open_calls (tk_messages task) = Some []" "run_agent_task env task w = (res, r, w')"
  shows "list_all (\<lambda>rq. open_calls (rq_messages rq) = Some []) (ar_requests r) \<and>
    (\<forall>result. res = Inr result \<longrightarrow> open_calls (rs_messages result) = Some [] \<or>
       rs_stop result \<in> {TaskCompleted, TaskRefusal, TaskMaxTokens, TaskStoppedOther} \<and>
       (\<exists>before text calls state. rs_messages result = before @ [AssistantMessage text calls state] \<and>
          calls \<noteq> [] \<and> open_calls before = Some []))"
proof -
  have e: "at_end task (case res of Inl _ \<Rightarrow> None | Inr result \<Rightarrow> Some (rs_stop result)) r"
    and res: "\<forall>result. res = Inr result \<longrightarrow> rs_messages result = ar_messages r"
    using run_agent_task_end[OF assms] by blast+
  from e obtain ids where run: "run_inv task ids r" and turns: "turns_inv task r"
      and ids: "ids \<noteq> [] \<longrightarrow> (case res of Inl _ \<Rightarrow> None | Inr result \<Rightarrow> Some (rs_stop result))
           \<in> {Some TaskCompleted, Some TaskRefusal, Some TaskMaxTokens, Some TaskStoppedOther} \<and>
         (\<exists>text calls state before. ar_messages r = before @ [AssistantMessage text calls state] \<and> ids = map mc_id calls \<and>
            open_calls before = Some [])"
    by (auto simp: at_end_def)
  have closed: "ids = [] \<Longrightarrow> open_calls (ar_messages r) = Some []" using run by (simp add: run_inv_def)
  show ?thesis
  proof (intro conjI allI impI)
    show "list_all (\<lambda>rq. open_calls (rq_messages rq) = Some []) (ar_requests r)"
      using turns by (auto simp: turns_inv_def list_all_iff)
  next
    fix result assume "res = Inr result"
    then show "open_calls (rs_messages result) = Some [] \<or>
       rs_stop result \<in> {TaskCompleted, TaskRefusal, TaskMaxTokens, TaskStoppedOther} \<and>
       (\<exists>before text calls state. rs_messages result = before @ [AssistantMessage text calls state] \<and>
          calls \<noteq> [] \<and> open_calls before = Some [])"
      using ids res closed by (cases "ids = []") auto
  qed
qed

text \<open>
  Every tool call the model asks for gets the next ordinal, and is reported either as skipped or as
  running and then with exactly one end; every turn is reported once, with its number.
\<close>

theorem agent_steps_reported:
  assumes "open_calls (tk_messages task) = Some []" "run_agent_task env task w = (res, r, w')"
  shows "steps_ok (ar_ordinal r) (ar_steps r) \<and> map ct_turn (ar_reported r) = [1..<Suc (ar_turns r)]"
  using run_agent_task_end[OF assms] by (auto simp: at_end_def run_inv_def turns_inv_def)

subsection \<open>An example\<close>

text \<open>
  A provider that asks for two calls and would then answer, under a cap of one call. The state of the
  outside counts the completions.
\<close>

definition example_call :: "string \<Rightarrow> model_call" where
  "example_call i = \<lparr>mc_id = i, mc_name = ''search'', mc_arguments = JObj []\<rparr>"

definition example_response :: "model_call list \<Rightarrow> stop_reason \<Rightarrow> completion_response" where
  "example_response calls stop = \<lparr>cr_text = [], cr_calls = calls, cr_stop = stop,
     cr_usage = \<lparr>us_input = 10, us_output = 5, us_cache_read = None, us_cache_creation = Some 2\<rparr>,
     cr_model = None, cr_cost_nano_usd = None, cr_provider_state = None\<rparr>"

definition example_env :: "completion_response \<Rightarrow> nat agent_env" where
  "example_env first = \<lparr>env_cancelled = (\<lambda>_. False), env_deadline = (\<lambda>_. False), env_now = int,
     env_list = (\<lambda>w. (Inr [], w)),
     env_complete = (\<lambda>_ w. (Inr (if w = 0 then first else example_response [] EndTurn), Suc w)),
     env_execute = (\<lambda>_ _ w. (Inr \<lparr>res_content = [], res_is_error = False\<rparr>, w)),
     env_on_turn = (\<lambda>_ w. (None, w)), env_on_tool_call = (\<lambda>_ w. w)\<rparr>"

definition example_task :: "nat \<Rightarrow> agent_task" where
  "example_task cap = \<lparr>tk_model = ''m'', tk_requesting_user = ''U1'', tk_task_id = ''t'', tk_thread = None, tk_system = None,
     tk_messages = [UserMessage []], tk_caps = \<lparr>cap_tool_calls = cap, cap_wall_time_ms = 10, cap_tokens = 60, cap_output_per_turn = 8\<rparr>\<rparr>"

definition example_run :: "nat \<Rightarrow> (js_text + agent_result) \<times> agent_run \<times> nat" where
  "example_run cap = run_agent_task (example_env (example_response [example_call ''a'', example_call ''b''] ToolUse)) (example_task cap) 0"

lemma example_seed: "open_calls (tk_messages (example_task cap)) = Some []"
  by (simp add: example_task_def open_calls_def)

lemma example_capped:
  "case example_run 1 of (res, r, w) \<Rightarrow> (case res of Inr result \<Rightarrow> rs_stop result = TaskToolCallCap \<and> rs_turns result = 1 | Inl _ \<Rightarrow> False) \<and>
     map st_state (ar_steps r) = [StepRunning, StepOk, StepSkipped]"
  by code_simp

lemma example_completes:
  "case example_run 2 of (res, r, w) \<Rightarrow> (case res of Inr result \<Rightarrow> rs_stop result = TaskCompleted \<and> rs_turns result = 2 | Inl _ \<Rightarrow> False) \<and>
     length (ar_requests r) = 2 \<and> spent (ar_reported r) = 34"
  by code_simp

theorem agent_task_bounded_witness: "length (ar_requests (fst (snd (example_run 1)))) \<le> 2 \<and> length (ar_executed (fst (snd (example_run 1)))) \<le> 1"
  using agent_task_bounded[OF example_seed[of 1],
      of "example_env (example_response [example_call ''a'', example_call ''b''] ToolUse)" 0
         "fst (example_run 1)" "fst (snd (example_run 1))" "snd (snd (example_run 1))"]
  by (simp add: example_run_def example_task_def)

theorem agent_transcript_answered_witness: "list_all (\<lambda>rq. open_calls (rq_messages rq) = Some []) (ar_requests (fst (snd (example_run 2))))"
  using agent_transcript_answered[OF example_seed[of 2],
      of "example_env (example_response [example_call ''a'', example_call ''b''] ToolUse)" 0
         "fst (example_run 2)" "fst (snd (example_run 2))" "snd (snd (example_run 2))"]
  by (simp add: example_run_def)

theorem agent_steps_reported_witness: "steps_ok 2 (ar_steps (fst (snd (example_run 1))))"
proof -
  have "ar_ordinal (fst (snd (example_run 1))) = 2" by code_simp
  then show ?thesis
    using agent_steps_reported[OF example_seed[of 1],
      of "example_env (example_response [example_call ''a'', example_call ''b''] ToolUse)" 0
         "fst (example_run 1)" "fst (snd (example_run 1))" "snd (snd (example_run 1))"]
    by (simp add: example_run_def)
qed

text \<open>
  The exception is real: an answer truncated by its output ceiling while it asks for a tool ends the task
  with a call no result answers, in a transcript \<open>types.ts\<close> says to be well-formed.
\<close>

lemma truncated_call_stays_open:
  "case run_agent_task (example_env (example_response [example_call ''a''] MaxTokensReason)) (example_task 5) 0 of
     (Inr result, r, w) \<Rightarrow> rs_stop result = TaskMaxTokens \<and> open_calls (rs_messages result) = Some [''a'']
   | _ \<Rightarrow> False"
  by code_simp

end
