(* ===== verification/Agent_Names.thy ===== *)
theory Agent_Names
  imports Agent_Loop Server_Call
begin

text \<open>
  The names the model calls tools by (\<open>packages/agent/src/proxy/tool-names.ts\<close>): \<open>chooseName\<close>, whose
  search for a free suffix is shown to end, and \<open>mapPermittedTools\<close>.
\<close>

definition max_name_length :: nat where
  "max_name_length = 64"

record mapped_tool =
  mt_model_name :: string
  mt_server :: string
  mt_tool :: string
  mt_approval :: approval_mode

definition provider_safe :: "string \<Rightarrow> string" where
  "provider_safe = map (\<lambda>c. if c = CHR ''.'' then CHR ''_'' else c)"

text \<open>\<open>String(n)\<close>, in bytes.\<close>

fun nat_string :: "nat \<Rightarrow> string" where
  "nat_string n = (if n < 10 then [char_of (48 + n)] else nat_string (n div 10) @ [char_of (48 + n mod 10)])"

declare nat_string.simps [simp del]

definition digit_value :: "char \<Rightarrow> nat" where
  "digit_value c = of_char c - 48"

lemma digit_value_char [simp]: "d < 10 \<Longrightarrow> digit_value (char_of (48 + d)) = d"
  by (simp add: digit_value_def)

lemma nat_string_value: "foldl (\<lambda>v c. v * 10 + digit_value c) 0 (nat_string n) = n"
proof (induction n rule: nat_string.induct)
  case (1 n)
  then show ?case by (subst nat_string.simps) (auto simp: foldl_append)
qed

lemma nat_string_inject [simp]: "nat_string m = nat_string n \<longleftrightarrow> m = n"
  by (metis nat_string_value)

lemma nat_string_nonempty [simp]: "nat_string n \<noteq> []"
  by (subst nat_string.simps) simp

lemma length_nat_string: "n < 10 ^ k \<Longrightarrow> 0 < k \<Longrightarrow> length (nat_string n) \<le> k"
proof (induction n arbitrary: k rule: nat_string.induct)
  case (1 n)
  show ?case
  proof (cases "n < 10")
    case True
    with 1 show ?thesis by (subst nat_string.simps) simp
  next
    case False
    then obtain j where k: "k = Suc j" "0 < j" using 1(2,3) by (cases k; cases "k - 1") auto
    then have "n div 10 < 10 ^ j" using 1(2) by (simp add: less_mult_imp_div_less)
    with 1(1)[OF False] k have "length (nat_string (n div 10)) \<le> j" by simp
    with False k show ?thesis by (subst nat_string.simps) simp
  qed
qed

subsection \<open>Choosing a name\<close>

definition suffixed :: "string \<Rightarrow> nat \<Rightarrow> string" where
  "suffixed stem n = stem @ ''_'' @ nat_string n"

lemma suffixed_inject [simp]: "suffixed stem m = suffixed stem n \<longleftrightarrow> m = n"
  by (simp add: suffixed_def)

text \<open>The loop that counts up: it passes only taken names, and there are only so many.\<close>

definition suffixes_taken :: "string \<Rightarrow> string list \<Rightarrow> nat \<Rightarrow> nat set" where
  "suffixes_taken stem taken n = {m. n \<le> m \<and> suffixed stem m \<in> set taken}"

lemma finite_suffixes_taken: "finite (suffixes_taken stem taken n)"
proof -
  have "suffixed stem ` suffixes_taken stem taken n \<subseteq> set taken" by (auto simp: suffixes_taken_def)
  then have "finite (suffixed stem ` suffixes_taken stem taken n)" by (rule finite_subset) simp
  then show ?thesis by (rule finite_imageD) (simp add: inj_on_def)
qed

function free_suffix :: "string \<Rightarrow> string list \<Rightarrow> nat \<Rightarrow> string" where
  "free_suffix stem taken n =
     (if suffixed stem n \<notin> set taken then suffixed stem n else free_suffix stem taken (Suc n))"
  by pat_completeness auto
termination
proof (relation "measure (\<lambda>(stem, taken, n). card (suffixes_taken stem taken n))")
  fix stem :: string and taken n
  assume "\<not> suffixed stem n \<notin> set taken"
  then have "suffixes_taken stem taken (Suc n) \<subset> suffixes_taken stem taken n"
    by (auto simp: suffixes_taken_def Suc_le_eq)
  then show "((stem, taken, Suc n), stem, taken, n) \<in> measure (\<lambda>(stem, taken, n). card (suffixes_taken stem taken n))"
    using psubset_card_mono[OF finite_suffixes_taken] by simp
qed simp

declare free_suffix.simps [simp del]

definition choose_name :: "string \<Rightarrow> string \<Rightarrow> string list \<Rightarrow> string" where
  "choose_name server tool taken =
     (let bare = provider_safe tool;
          qualified = provider_safe server @ ''__'' @ provider_safe tool
      in if length bare \<le> max_name_length \<and> bare \<notin> set taken then bare
         else if length qualified \<le> max_name_length \<and> qualified \<notin> set taken then qualified
         else free_suffix (take (max_name_length - 5) qualified) taken 2)"

definition open_schema :: json where
  "open_schema = JObj [(''type'', JStr ''object''), (''properties'', JObj []), (''additionalProperties'', JBool True)]"

definition describe_tool :: "listed_tool \<Rightarrow> string" where
  "describe_tool entry =
     (let name = ''`'' @ pt_server (lt_tool entry) @ ''.'' @ pt_tool (lt_tool entry) @ ''`'';
          held = (if pt_approval (lt_tool entry) = ApprovalRequired
                  then '' This call is held for approval from a human before it runs.'' else '''');
          body = (case lt_description entry of
              None \<Rightarrow> name @ '', called through the Libero tool proxy. Its arguments are not described by this channel'' @
                [CHR 0x27] @ ''s team sheet: they are passed to the server unchanged, and the server validates them.''
            | Some description \<Rightarrow> description @ '' Called as '' @ name @ '' through the Libero tool proxy.'')
      in body @ held)"

definition add_mapped ::
    "tool_definition list \<times> (string, mapped_tool) jsmap \<Rightarrow> listed_tool \<Rightarrow> tool_definition list \<times> (string, mapped_tool) jsmap" where
  "add_mapped = (\<lambda>(defs, by_name) entry.
     let name = choose_name (pt_server (lt_tool entry)) (pt_tool (lt_tool entry)) (map fst by_name)
     in (defs @ [\<lparr>td_name = name, td_description = describe_tool entry,
                  td_input_schema = (case lt_input_schema entry of Some schema \<Rightarrow> schema | None \<Rightarrow> open_schema)\<rparr>],
         js_set name \<lparr>mt_model_name = name, mt_server = pt_server (lt_tool entry), mt_tool = pt_tool (lt_tool entry),
                      mt_approval = pt_approval (lt_tool entry)\<rparr> by_name))"

definition map_permitted_tools :: "listed_tool list \<Rightarrow> tool_definition list \<times> (string, mapped_tool) jsmap" where
  "map_permitted_tools = foldl add_mapped ([], [])"

subsection \<open>The name is free, and one a provider takes\<close>

lemma free_suffix_free: "free_suffix stem taken n \<notin> set taken"
  by (induction stem taken n rule: free_suffix.induct) (subst free_suffix.simps, simp)

lemma choose_name_free: "choose_name server tool taken \<notin> set taken"
  by (simp add: choose_name_def Let_def free_suffix_free)

text \<open>The suffix found is within the number of taken names.\<close>

lemma free_suffix_bound: "\<exists>m. free_suffix stem taken n = suffixed stem m \<and> n \<le> m \<and> m \<le> n + card (suffixes_taken stem taken n)"
proof (induction stem taken n rule: free_suffix.induct)
  case (1 stem taken n)
  show ?case
  proof (cases "suffixed stem n \<in> set taken")
    case True
    then have "suffixes_taken stem taken (Suc n) \<subset> suffixes_taken stem taken n"
      by (auto simp: suffixes_taken_def Suc_le_eq)
    then have "card (suffixes_taken stem taken (Suc n)) < card (suffixes_taken stem taken n)"
      by (rule psubset_card_mono[OF finite_suffixes_taken])
    moreover obtain m where "free_suffix stem taken (Suc n) = suffixed stem m" "Suc n \<le> m"
        "m \<le> Suc n + card (suffixes_taken stem taken (Suc n))"
      using 1 True by auto
    ultimately show ?thesis using True by (subst free_suffix.simps) (auto intro!: exI[of _ m])
  next
    case False
    then show ?thesis by (subst free_suffix.simps) auto
  qed
qed

lemma card_suffixes_taken: "card (suffixes_taken stem taken n) \<le> length taken"
proof -
  have "card (suffixes_taken stem taken n) = card (suffixed stem ` suffixes_taken stem taken n)"
    by (rule card_image[symmetric]) (simp add: inj_on_def)
  also have "\<dots> \<le> card (set taken)" by (rule card_mono) (auto simp: suffixes_taken_def)
  also have "\<dots> \<le> length taken" by (rule card_length)
  finally show ?thesis .
qed

definition provider_name_ok :: "string \<Rightarrow> bool" where
  "provider_name_ok name \<longleftrightarrow> name \<noteq> [] \<and> length name \<le> 64 \<and> list_all (\<lambda>c. is_alnum c \<or> c = CHR ''_'' \<or> c = CHR ''-'') name"

lemma list_all_nat_string: "(\<And>d. d < 10 \<Longrightarrow> P (char_of (48 + d :: nat))) \<Longrightarrow> list_all P (nat_string n)"
  by (induction n rule: nat_string.induct) (subst nat_string.simps, auto)

lemma digit_alnum: "d < 10 \<Longrightarrow> is_alnum (char_of (48 + d :: nat))"
proof -
  assume "d < 10"
  then have "d \<in> {0, 1, 2, 3, 4, 5, 6, 7, 8, 9}" by auto
  then show ?thesis by (elim insertE emptyE) (simp_all add: is_alnum_def, code_simp+)
qed

abbreviation provider_char :: "char \<Rightarrow> bool" where
  "provider_char c \<equiv> is_alnum c \<or> c = CHR ''_'' \<or> c = CHR ''-''"

lemma provider_safe_chars: "list_all ident_char name \<Longrightarrow> list_all provider_char (provider_safe name)"
  by (auto simp: provider_safe_def list_all_iff ident_char_def)

lemma length_provider_safe [simp]: "length (provider_safe name) = length name"
  by (simp add: provider_safe_def)

lemma list_all_take: "list_all P xs \<Longrightarrow> list_all P (take n xs)"
  by (auto simp: list_all_iff dest: in_set_takeD)

lemma choose_name_ok:
  assumes ids: "identifier_ok server" "identifier_ok tool" and few: "length taken < 9998"
  shows "provider_name_ok (choose_name server tool taken)"
proof -
  let ?qualified = "provider_safe server @ ''__'' @ provider_safe tool"
  have chars: "list_all provider_char (provider_safe tool)" "list_all provider_char ?qualified"
    using ids provider_safe_chars by (auto simp: identifier_ok_def)
  have ne: "provider_safe tool \<noteq> []" using ids(2) by (auto simp: identifier_ok_def provider_safe_def)
  obtain m where m: "free_suffix (take 59 ?qualified) taken 2 = suffixed (take 59 ?qualified) m"
      "m \<le> 2 + card (suffixes_taken (take 59 ?qualified) taken 2)"
    using free_suffix_bound[of "take 59 ?qualified" taken 2] by auto
  then have "m < 10 ^ 4" using card_suffixes_taken[of "take 59 ?qualified" taken 2] few by simp
  then have "length (nat_string m) \<le> 4" by (rule length_nat_string) simp
  moreover have "list_all provider_char (take 59 ?qualified)"
    using chars(2) by (rule list_all_take)
  moreover have "list_all provider_char (nat_string m)" by (rule list_all_nat_string) (simp add: digit_alnum)
  ultimately have "provider_name_ok (suffixed (take 59 ?qualified) m)"
    by (simp add: provider_name_ok_def suffixed_def)
  then show ?thesis
    using chars ne m(1) by (auto simp: choose_name_def Let_def max_name_length_def provider_name_ok_def)
qed

subsection \<open>The listing\<close>

text \<open>The state after some entries: one definition and one mapping for each, in order, under one name.\<close>

definition maps_entry :: "listed_tool \<Rightarrow> tool_definition \<Rightarrow> string \<times> mapped_tool \<Rightarrow> bool" where
  "maps_entry entry def km \<longleftrightarrow>
     td_name def = fst km \<and> mt_model_name (snd km) = fst km \<and> mt_server (snd km) = pt_server (lt_tool entry) \<and>
     mt_tool (snd km) = pt_tool (lt_tool entry) \<and> mt_approval (snd km) = pt_approval (lt_tool entry) \<and>
     td_description def = describe_tool entry"

definition mapped_ok :: "listed_tool list \<Rightarrow> tool_definition list \<times> (string, mapped_tool) jsmap \<Rightarrow> bool" where
  "mapped_ok entries st \<longleftrightarrow>
     distinct (map fst (snd st)) \<and> length (fst st) = length entries \<and> length (snd st) = length entries \<and>
     (\<forall>i < length entries. maps_entry (entries ! i) (fst st ! i) (snd st ! i))"

lemma add_mapped_ok:
  assumes "mapped_ok entries st"
  shows "mapped_ok (entries @ [entry]) (add_mapped st entry)"
proof -
  obtain defs by_name where st: "st = (defs, by_name)" by (cases st)
  let ?name = "choose_name (pt_server (lt_tool entry)) (pt_tool (lt_tool entry)) (map fst by_name)"
  have fresh: "?name \<notin> fst ` set by_name" using choose_name_free[of _ _ "map fst by_name"] by simp
  have lens: "length defs = length entries" "length by_name = length entries" using assms st by (auto simp: mapped_ok_def)
  show ?thesis
    using assms fresh lens unfolding st add_mapped_def mapped_ok_def
    by (auto simp: Let_def js_set_fresh nth_append maps_entry_def less_Suc_eq)
qed

lemma map_permitted_tools_ok: "mapped_ok tools (map_permitted_tools tools)"
proof (induction tools rule: rev_induct)
  case Nil
  then show ?case by (simp add: map_permitted_tools_def mapped_ok_def)
next
  case (snoc entry tools)
  then show ?case using add_mapped_ok by (simp add: map_permitted_tools_def)
qed

text \<open>The names depend on the servers and tools alone.\<close>

fun names_of :: "string list \<Rightarrow> (string \<times> string) list \<Rightarrow> string list" where
  "names_of taken [] = taken"
| "names_of taken ((server, tool) # pairs) = names_of (taken @ [choose_name server tool taken]) pairs"

definition listed_pair :: "listed_tool \<Rightarrow> string \<times> string" where
  "listed_pair entry = (pt_server (lt_tool entry), pt_tool (lt_tool entry))"

lemma foldl_add_mapped_names:
  "map fst (snd (foldl add_mapped st tools)) = names_of (map fst (snd st)) (map listed_pair tools)"
proof (induction tools arbitrary: st)
  case Nil
  then show ?case by simp
next
  case (Cons entry tools)
  have fresh: "choose_name (pt_server (lt_tool entry)) (pt_tool (lt_tool entry)) (map fst (snd st)) \<notin> fst ` set (snd st)"
    using choose_name_free[of _ _ "map fst (snd st)"] by simp
  have "map fst (snd (add_mapped st entry)) =
      map fst (snd st) @ [choose_name (pt_server (lt_tool entry)) (pt_tool (lt_tool entry)) (map fst (snd st))]"
    using fresh by (cases st) (simp add: add_mapped_def Let_def js_set_fresh)
  then show ?case using Cons[of "add_mapped st entry"] by (simp add: listed_pair_def)
qed

lemma map_permitted_tools_names:
  "map fst (snd (map_permitted_tools tools)) = names_of [] (map listed_pair tools)"
  using foldl_add_mapped_names[of "([], [])" tools] by (simp add: map_permitted_tools_def)

lemma names_of_ok:
  assumes "list_all (\<lambda>(s, t). identifier_ok s \<and> identifier_ok t) pairs" "length taken + length pairs < 9999"
    "list_all provider_name_ok taken"
  shows "list_all provider_name_ok (names_of taken pairs)"
  using assms
proof (induction taken pairs rule: names_of.induct)
  case (1 taken)
  then show ?case by simp
next
  case (2 taken server tool pairs)
  then show ?case using choose_name_ok[of server tool taken] by simp
qed

lemma mapped_names: "map td_name (fst (map_permitted_tools tools)) = map fst (snd (map_permitted_tools tools))"
  using map_permitted_tools_ok[of tools] by (auto simp: mapped_ok_def maps_entry_def list_eq_iff_nth_eq)

text \<open>
  C15. The names given to the model are distinct, each decodes to exactly the server and tool it was made for
  and nothing else decodes; they depend on the servers and tools listed, whatever the upstreams say; and up
  to 9,998 of them fit the alphabet and the 64 characters providers take.
\<close>

theorem tool_names_decode:
  assumes "map_permitted_tools tools = (defs, by_name)"
  shows "distinct (map td_name defs) \<and> length defs = length tools \<and>
    list_all (\<lambda>(entry, def). \<exists>m. js_get by_name (td_name def) = Some m \<and> mt_server m = pt_server (lt_tool entry) \<and>
       mt_tool m = pt_tool (lt_tool entry)) (zip tools defs) \<and>
    (\<forall>name m. js_get by_name name = Some m \<longrightarrow> name \<in> set (map td_name defs)) \<and>
    map td_name defs = names_of [] (map listed_pair tools) \<and>
    (length tools < 9999 \<and> list_all (\<lambda>entry. identifier_ok (pt_server (lt_tool entry)) \<and> identifier_ok (pt_tool (lt_tool entry))) tools
      \<longrightarrow> list_all provider_name_ok (map td_name defs))"
proof -
  have ok: "distinct (map fst by_name)" "length defs = length tools" "length by_name = length tools"
      "\<forall>i < length tools. maps_entry (tools ! i) (defs ! i) (by_name ! i)"
    using map_permitted_tools_ok[of tools] assms by (auto simp: mapped_ok_def)
  have names: "map td_name defs = map fst by_name" using mapped_names[of tools] assms by simp
  have stable: "map td_name defs = names_of [] (map listed_pair tools)"
    using map_permitted_tools_names[of tools] names assms by simp
  have decode: "\<exists>m. js_get by_name (td_name def) = Some m \<and> mt_server m = pt_server (lt_tool entry) \<and> mt_tool m = pt_tool (lt_tool entry)"
    if "(entry, def) \<in> set (zip tools defs)" for entry "def"
  proof -
    from that obtain i where i: "i < length tools" "entry = tools ! i" "def = defs ! i" by (auto simp: set_zip)
    then have "by_name ! i \<in> set by_name" "maps_entry entry def (by_name ! i)" using ok by auto
    then show ?thesis using ok(1) by (intro exI[of _ "snd (by_name ! i)"]) (auto simp: maps_entry_def intro!: map_of_is_SomeI)
  qed
  have safe: "list_all provider_name_ok (map td_name defs)"
    if "length tools < 9999" "list_all (\<lambda>entry. identifier_ok (pt_server (lt_tool entry)) \<and> identifier_ok (pt_tool (lt_tool entry))) tools"
    unfolding stable using that by (intro names_of_ok) (auto simp: list_all_iff listed_pair_def)
  show ?thesis
    using ok(1,2) names stable decode safe
    by (auto simp: list_all_iff dest!: map_of_SomeD intro!: image_eqI[of _ fst "(_, _)"])
qed

definition example_listed :: "string \<Rightarrow> string \<Rightarrow> listed_tool" where
  "example_listed server tool =
     \<lparr>lt_tool = \<lparr>pt_server = server, pt_tool = tool, pt_approval = ApprovalNone\<rparr>, lt_description = None, lt_input_schema = None\<rparr>"

lemma example_names:
  "map td_name (fst (map_permitted_tools [example_listed ''github'' ''list.prs'', example_listed ''gitlab'' ''list_prs'',
     example_listed ''gitlab'' ''list.prs''])) = [''list_prs'', ''gitlab__list_prs'', ''gitlab__list_prs_2'']"
  by code_simp

theorem tool_names_decode_witness:
  "list_all provider_name_ok (map td_name (fst (map_permitted_tools [example_listed ''github'' ''list.prs'', example_listed ''gitlab'' ''list_prs'']))) \<and>
   distinct (map td_name (fst (map_permitted_tools [example_listed ''github'' ''list.prs'', example_listed ''gitlab'' ''list_prs''])))"
proof -
  let ?tools = "[example_listed ''github'' ''list.prs'', example_listed ''gitlab'' ''list_prs'']"
  have "list_all (\<lambda>entry. identifier_ok (pt_server (lt_tool entry)) \<and> identifier_ok (pt_tool (lt_tool entry))) ?tools"
    by code_simp
  moreover have "length ?tools < 9999" by simp
  moreover have "map_permitted_tools ?tools = (fst (map_permitted_tools ?tools), snd (map_permitted_tools ?tools))" by simp
  ultimately show ?thesis using tool_names_decode[of ?tools] by blast
qed

end
