(* ===== verification/Agent_Outside.thy ===== *)
theory Agent_Outside
  imports Agent_Loop
begin

text \<open>
  What a task leaves as it was outside the loop (\<open>packages/agent/src/loop/loop.ts\<close>): the contract under which
  an invariant of the outside survives a whole task.
\<close>

lemma agent_loop_keeps:
  assumes "\<forall>r w. keeps w \<longrightarrow> (case agent_turn env task tools (r, w) of
      TurnThrew _ _ w' \<Rightarrow> keeps w' | TurnEnded _ _ w' \<Rightarrow> keeps w' | TurnAgain _ w' \<Rightarrow> keeps w')"
    and "keeps w" "agent_loop env task tools (r, w) = (res, r', w')"
  shows "keeps w'"
  using assms
proof (induction env task tools "(r, w)" arbitrary: r w rule: agent_loop.induct)
  case (1 env task tools r w)
  show ?case
  proof (cases "agent_turn env task tools (r, w)")
    case (TurnAgain r1 w1)
    moreover have "keeps w1" using 1(2,3) TurnAgain by (metis turn_end.simps(12))
    ultimately show ?thesis using 1(1)[of r1 w1] 1(2,4) by (subst (asm) agent_loop.simps) (simp del: agent_loop.simps)
  next
    case (TurnThrew msg r1 w1)
    then show ?thesis using 1(2-4) by (metis (no_types, lifting) agent_loop.simps prod.inject turn_end.simps(10))
  next
    case (TurnEnded stop r1 w1)
    then show ?thesis using 1(2-4) by (metis (no_types, lifting) agent_loop.simps prod.inject turn_end.simps(11))
  qed
qed

text \<open>
  An invariant of the outside: \<open>ready\<close> before the listing, \<open>keeps\<close> from then on. A task keeps it if every
  call it makes does, tools being called under the task's own attribution.
\<close>

locale outside_invariant =
  fixes env :: "'w agent_env" and attr :: attribution and ready keeps :: "'w \<Rightarrow> bool"
  assumes ready_keeps: "ready w \<Longrightarrow> keeps w"
    and listing: "ready w \<Longrightarrow> env_list env w = (l, w') \<Longrightarrow> keeps w'"
    and completing: "keeps w \<Longrightarrow> env_complete env rq w = (a, w') \<Longrightarrow> keeps w'"
    and executing: "keeps w \<Longrightarrow> env_execute env call attr w = (res, w') \<Longrightarrow> keeps w'"
    and turn_reporting: "keeps w \<Longrightarrow> env_on_turn env t w = (threw, w') \<Longrightarrow> keeps w'"
    and step_reporting: "keeps w \<Longrightarrow> keeps (env_on_tool_call env st w)"
begin

lemma keeps_report: "keeps w \<Longrightarrow> keeps (snd (report_step env n call st (r, w)))"
  by (simp add: report_step_def Let_def step_reporting)

lemma keeps_run_call:
  assumes "keeps w" "run_call env attr n call (r, w) = (stopped, r', w')"
  shows "keeps w'"
proof -
  obtain r1 w1 where r1: "report_step env n call StepRunning (r\<lparr>ar_tracker := record_tool_call (ar_tracker r), ar_executed := ar_executed r @ [call]\<rparr>, w) = (r1, w1)"
    by (cases "report_step env n call StepRunning (r\<lparr>ar_tracker := record_tool_call (ar_tracker r), ar_executed := ar_executed r @ [call]\<rparr>, w)") auto
  then have "keeps w1" using keeps_report[OF assms(1)] by (metis snd_conv)
  moreover obtain answer w2 where ex: "env_execute env call attr w1 = (answer, w2)" by (cases "env_execute env call attr w1") auto
  ultimately have "keeps w2" using executing by blast
  then show ?thesis using assms(2) r1 ex step_reporting
    by (auto simp: run_call_def Let_def report_step_def split: sum.splits option.splits)
qed

lemma keeps_dispatch:
  "keeps w \<Longrightarrow> dispatch_calls env caps attr calls st (r, w) = (st', r', w') \<Longrightarrow> keeps w'"
proof (induction calls arbitrary: st r w)
  case (Cons call calls)
  define go where "go = (case st of Some s \<Rightarrow> Some s | None \<Rightarrow> (case abort_stop env w of Some a \<Rightarrow> Some (StopAbort a)
      | None \<Rightarrow> if tool_calls_exhausted caps (ar_tracker r) then Some StopToolCallCap else None))"
  let ?r = "r\<lparr>ar_ordinal := Suc (ar_ordinal r)\<rparr>"
  show ?case
  proof (cases go)
    case (Some s)
    obtain r1 w1 where skip: "report_step env (Suc (ar_ordinal r)) call StepSkipped (?r, w) = (r1, w1)"
      by (cases "report_step env (Suc (ar_ordinal r)) call StepSkipped (?r, w)") auto
    then have "keeps w1" using keeps_report[OF Cons.prems(1)] by (metis snd_conv)
    then show ?thesis using Cons.IH[of w1 "Some s"] Cons.prems(2) Some skip by (simp add: go_def[symmetric] Let_def)
  next
    case None
    obtain s r1 w1 where run: "run_call env attr (Suc (ar_ordinal r)) call (?r, w) = (s, r1, w1)"
      by (cases "run_call env attr (Suc (ar_ordinal r)) call (?r, w)") auto
    then have "keeps w1" using keeps_run_call Cons.prems(1) by blast
    then show ?thesis using Cons.IH[of w1 s r1] Cons.prems(2) None run by (simp add: go_def[symmetric] Let_def)
  qed
qed simp

lemma keeps_turn:
  assumes "keeps w" "attribution_of task = attr"
  shows "case agent_turn env task tools (r, w) of TurnThrew _ _ w' \<Rightarrow> keeps w' | TurnEnded _ _ w' \<Rightarrow> keeps w' | TurnAgain _ w' \<Rightarrow> keeps w'"
proof (cases "abort_stop env w \<noteq> None \<or> tokens_exhausted (tk_caps task) (ar_tracker r)")
  case True
  then show ?thesis using assms(1) by (auto simp: agent_turn_def split: option.splits)
next
  case False
  obtain answer w1 where complete: "env_complete env (agent_request task tools r) w = (answer, w1)"
    by (cases "env_complete env (agent_request task tools r) w") auto
  then have w1: "keeps w1" using completing assms(1) by blast
  show ?thesis
  proof (cases answer)
    case (Inl msg)
    then show ?thesis using False complete w1 by (auto simp: agent_turn_def Let_def split: option.splits)
  next
    case (Inr response)
    obtain turn r1 where report: "report_turn response (count_answer response (ask task tools r)) = (turn, r1)"
      by (cases "report_turn response (count_answer response (ask task tools r))") auto
    obtain threw w2 where hook: "env_on_turn env turn w1 = (threw, w2)" by (cases "env_on_turn env turn w1") auto
    have w2: "keeps w2" using turn_reporting w1 hook by blast
    obtain st r3 w3 where run: "dispatch_calls env (tk_caps task) (attribution_of task) (cr_calls response) None (keep_answer response r1, w2) = (st, r3, w3)"
      by (cases "dispatch_calls env (tk_caps task) (attribution_of task) (cr_calls response) None (keep_answer response r1, w2)") auto
    have "keeps w3" using keeps_dispatch[OF w2] run assms(2) by blast
    then show ?thesis using False complete Inr report hook w2 run by (auto simp: agent_turn_def Let_def split: option.splits)
  qed
qed

lemma keeps_loop:
  assumes "keeps w" "attribution_of task = attr" "agent_loop env task tools (r, w) = (res, r', w')"
  shows "keeps w'"
  using agent_loop_keeps[of keeps env task tools, OF _ assms(1,3)] keeps_turn[OF _ assms(2)] by blast

lemma keeps_task:
  assumes "ready w" "attribution_of task = attr" "run_agent_task env task w = (res, r, w')"
  shows "keeps w'"
proof (cases "abort_stop env w")
  case (Some a)
  then show ?thesis using assms ready_keeps by (auto simp: run_agent_task_def Let_def)
next
  case None
  obtain l w1 where l: "env_list env w = (l, w1)" by (cases "env_list env w") auto
  then have w1: "keeps w1" using listing assms(1) by blast
  show ?thesis
  proof (cases l)
    case (Inl msg)
    then show ?thesis using assms(3) None l w1 by (auto simp: run_agent_task_def Let_def)
  next
    case (Inr tools)
    obtain stop r1 w2 where loop: "agent_loop env task tools (agent_start task, w1) = (stop, r1, w2)"
      by (cases "agent_loop env task tools (agent_start task, w1)") auto
    then have "keeps w2" using keeps_loop[OF w1 assms(2)] by blast
    then show ?thesis using assms(3) None l Inr loop by (auto simp: run_agent_task_def Let_def simp del: agent_loop.simps split: sum.splits)
  qed
qed

end

end
