(* ===== verification/Refusal_Text.thy ===== *)
theory Refusal_Text
  imports Tool_Call Js_Text
begin

text \<open>
  The sentences of \<open>packages/schema/src/refusal.ts\<close> and \<open>budget-warning.ts\<close>, total over the refusals and
  the limits. \<open>toLocaleString("en-US")\<close> is a parameter: of a whole number, and with two digits of fraction.
\<close>

primrec budget_exhausted_message :: "budget_limit \<Rightarrow> string" where
  "budget_exhausted_message DailyTokens =
     ''This channel has spent its daily token budget. No further calls run until the budget resets.''"
| "budget_exhausted_message DailyToolCalls =
     ''This channel has spent its daily tool-call budget. No further calls run until the budget resets.''"
| "budget_exhausted_message DailyUsd =
     ''This channel has spent its daily spend budget. No further calls run until the budget resets.''"

primrec refusal_message :: "tool_refusal \<Rightarrow> string" where
  "refusal_message NoTeamSheet =
     ''This channel has no team sheet, so no tool call is permitted. An admin provisions one at `channels/<channel id>/channel.toml`.''"
| "refusal_message TeamSheetUnreadable =
     ''This channel'' @ [CHR 0x27] @ ''s team sheet could not be read and no earlier version is in force, so no tool call is permitted. The proxy log names the file and the fault.''"
| "refusal_message (ServerNotAllowed server) =
     ''This channel'' @ [CHR 0x27] @ ''s team sheet does not list the server `'' @ server @ ''`. The call was not made.''"
| "refusal_message (ToolNotAllowed server tool) =
     ''This channel'' @ [CHR 0x27] @ ''s team sheet lists `'' @ server @ ''` but not the tool `'' @ tool @ ''`. The call was not made.''"
| "refusal_message (ServerAmbiguous server tool) =
     ''This channel'' @ [CHR 0x27] @ ''s team sheet lists `'' @ server @ ''` more than once, and the entries carrying `'' @ tool @ ''` point at different upstreams. An admin resolves it in the sheet. The call was not made.''"
| "refusal_message (NeedsApproval server tool) =
     ''`'' @ server @ ''.'' @ tool @ ''` requires approval from a human before it runs. The call is held.''"
| "refusal_message (ApprovalPending server tool) =
     ''The approval for `'' @ server @ ''.'' @ tool @ ''` has not been decided yet. The call was not made.''"
| "refusal_message (ApprovalUnknown server tool) =
     ''This channel has no approval for `'' @ server @ ''.'' @ tool @ ''`. It may have expired, or the proxy may have restarted. The call was not made.''"
| "refusal_message (ApprovalExpired server tool) =
     ''The approval for `'' @ server @ ''.'' @ tool @ ''` expired before the call was made. Asking again raises a new one.''"
| "refusal_message (ApprovalSpent server tool) =
     ''The approval for `'' @ server @ ''.'' @ tool @ ''` has already been used. One approval runs one call. The call was not made.''"
| "refusal_message (ApprovalDenied server tool) =
     ''A human declined `'' @ server @ ''.'' @ tool @ ''`. The call was not made.''"
| "refusal_message (ApprovalMismatch server tool) =
     ''This approval was not for `'' @ server @ ''.'' @ tool @ ''` with these arguments. An approval covers one exact call. The call was not made.''"
| "refusal_message (BudgetExhausted limit) = budget_exhausted_message limit"
| "refusal_message (ModelNotPriced model) =
     ''This channel caps spend in dollars, and it has spent tokens on `'' @ model @ ''`, which is not in the proxy'' @ [CHR 0x27] @ ''s price table. Spend that cannot be priced cannot be capped, so no call runs until an admin prices it. The call was not made.''"
| "refusal_message ModelUnreported =
     ''This channel caps spend in dollars, and some of today'' @ [CHR 0x27] @ ''s spend was reported without naming a model, so it cannot be priced. No call runs until the budget resets or an admin looks into it. The proxy log names the reports. The call was not made.''"
| "refusal_message (EgressDenied destination) =
     ''`'' @ destination @ ''` is not on this channel'' @ [CHR 0x27] @ ''s egress allowlist. The call was not made.''"
| "refusal_message (CredentialUnresolved credential) =
     ''The credential `'' @ credential @ ''` is named in this channel'' @ [CHR 0x27] @ ''s team sheet but is not in the vault. The call was not made.''"
| "refusal_message ScheduleFull =
     ''This channel already has as many scheduled checks waiting as it may. One has to run before another can be added. Nothing was scheduled.''"
| "refusal_message ScheduleTooSoon =
     ''That is sooner than a check may be scheduled for. Ask for a later time, or just do it now. Nothing was scheduled.''"
| "refusal_message ScheduleTooFar =
     ''That is further out than a check may be scheduled for. Ask for a nearer time. Nothing was scheduled.''"
| "refusal_message AmbientDisabled =
     ''This channel'' @ [CHR 0x27] @ ''s team sheet has `[ambient]` switched off, so nothing would ever run a scheduled check. An admin turns it on. Nothing was scheduled.''"

lemma refusal_message_nonempty: "refusal_message refusal \<noteq> []"
  by (cases refusal; (cases "case refusal of BudgetExhausted l \<Rightarrow> l | _ \<Rightarrow> DailyUsd")?) auto

subsection \<open>Warnings\<close>

definition format_count :: "(int \<Rightarrow> string) \<Rightarrow> rat \<Rightarrow> string" where
  "format_count locale_int count = locale_int \<lfloor>count + 1 / 2\<rfloor>"

definition format_money :: "(rat \<Rightarrow> string) \<Rightarrow> rat \<Rightarrow> string" where
  "format_money locale_cents usd = CHR ''$'' # locale_cents usd"

definition budget_warning_message :: "(int \<Rightarrow> string) \<Rightarrow> (rat \<Rightarrow> string) \<Rightarrow> budget_warning \<Rightarrow> string" where
  "budget_warning_message locale_int locale_cents warning =
     (case bw_limit warning of
        DailyTokens \<Rightarrow> ''Budget: this channel has spent '' @ format_count locale_int (bw_spent warning) @ '' of its '' @
          format_count locale_int (bw_cap warning) @ '' daily tokens. Calls run until it reaches the limit.''
      | DailyToolCalls \<Rightarrow> ''Budget: this channel has made '' @ format_count locale_int (bw_spent warning) @ '' of its '' @
          format_count locale_int (bw_cap warning) @ '' daily tool calls. Calls run until it reaches the limit.''
      | DailyUsd \<Rightarrow> ''Budget: this channel has spent '' @ format_money locale_cents (bw_spent warning) @ '' of its '' @
          format_money locale_cents (bw_cap warning) @ '' daily budget. Calls run until it reaches the limit.'')"

end
