(* ===== verification/Agent_Tools.thy ===== *)
theory Agent_Tools
  imports Agent_Names Agent_Outside Server_Routes Refusal_Text
begin

text \<open>
  The agent's clients of the proxy (\<open>packages/agent/src/proxy\<close>): the tool client (tools.ts), and the spend,
  budget and approvals clients, over the errors of errors.ts and transport.ts.

  The transport is a parameter: what a request comes back with, over a state of the outside. The body of
  an answer is opaque; what the wire schemas make of it is given by parameters. The four callbacks of the
  tool client are parameters too. \<open>cw_sent\<close> records the requests sent.
\<close>

subsection \<open>Failures\<close>

datatype proxy_failure =
  PfUnreachable | PfNoClientCertificate | PfTlsRejected | PfConnectionReset | PfCertificateRejected
| PfMalformedResponse | PfProxyError | PfTimedOut | PfCancelled

record client_error =
  ce_reason :: proxy_failure
  ce_message :: string

definition make_client_error :: "string \<Rightarrow> proxy_failure \<Rightarrow> client_error" where
  "make_client_error message reason = \<lparr>ce_reason = reason, ce_message = ''proxy client: '' @ message\<rparr>"

text \<open>\<open>proxyErrorFrom\<close>, given the message of the body where it is a proxy error.\<close>

definition proxy_error_from :: "string option \<Rightarrow> string \<Rightarrow> nat option \<Rightarrow> client_error" where
  "proxy_error_from message fallback status =
     make_client_error (case message of Some m \<Rightarrow> m | None \<Rightarrow> fallback)
       (if status = Some 401 then PfCertificateRejected else PfProxyError)"

subsection \<open>Requests\<close>

datatype request_body =
  NoBody
| CallBody tool_call "string option"
| SpendBody spend_report
| DecisionBody approval_decision

record proxy_request =
  pr_channel :: string
  pr_post :: bool
  pr_path :: string
  pr_body :: request_body

record ('b, 'w) wire =
  wi_request :: "proxy_request \<Rightarrow> 'w \<Rightarrow> (client_error + nat \<times> 'b) \<times> 'w"
  wi_listing :: "'b \<Rightarrow> listed_tool list option"
  wi_answer :: "'b \<Rightarrow> reply_body option"
  wi_error :: "'b \<Rightarrow> string option"

record held_call =
  hc_server :: string
  hc_tool :: string
  hc_arguments :: json
  hc_ticket :: string
  hc_expires :: nat
  hc_requesting_user :: string
  hc_task :: string

datatype held_outcome = HeldRan | HeldRefused tool_refusal

record unmapped_call =
  uc_name :: string
  uc_requesting_user :: string
  uc_task :: string

text \<open>
  \<open>cb_held\<close>: \<open>Inl\<close> where the wait rejects, else whether it gave a completion; \<open>cb_scheduled\<close>: whether the
  ticket was recorded.
\<close>

record 'w client_callbacks =
  cb_held :: "(held_call \<Rightarrow> 'w \<Rightarrow> (unit + bool) \<times> 'w) option"
  cb_completion :: "held_call \<Rightarrow> held_outcome \<Rightarrow> 'w \<Rightarrow> 'w"
  cb_unmapped :: "unmapped_call \<Rightarrow> 'w \<Rightarrow> 'w"
  cb_warning :: "budget_warning \<Rightarrow> 'w \<Rightarrow> 'w"
  cb_scheduled :: "(js_text \<Rightarrow> 'w \<Rightarrow> bool \<times> 'w) option"

record 'w client_world =
  cw_by_name :: "(string, mapped_tool) jsmap"
  cw_sent :: "proxy_request list"
  cw_outside :: 'w

definition outside :: "('w \<Rightarrow> 'w) \<Rightarrow> 'w client_world \<Rightarrow> 'w client_world" where
  "outside f c = c\<lparr>cw_outside := f (cw_outside c)\<rparr>"

definition send :: "('b, 'w) wire \<Rightarrow> proxy_request \<Rightarrow> 'w client_world \<Rightarrow> (client_error + nat \<times> 'b) \<times> 'w client_world" where
  "send wire request c =
     (let (answer, w) = wi_request wire request (cw_outside c)
      in (answer, c\<lparr>cw_sent := cw_sent c @ [request], cw_outside := w\<rparr>))"

subsection \<open>The tool client\<close>

definition not_recorded :: string where
  "not_recorded = ''The check was permitted but could not be recorded, so it will not run. Nothing is scheduled. Say so rather than reporting a scheduled check, and do not try again without being asked.''"

definition error_result :: "string \<Rightarrow> tool_result" where
  "error_result message = \<lparr>res_content = [TextBlock (js message)], res_is_error = True\<rparr>"

definition is_schedule_create :: "mapped_tool \<Rightarrow> bool" where
  "is_schedule_create m \<longleftrightarrow> mt_server m = builtin_server \<and> mt_tool m = ''schedule_task''"

definition served ::
    "'w client_callbacks \<Rightarrow> mapped_tool \<Rightarrow> tool_result \<Rightarrow> budget_warning option \<Rightarrow> 'w client_world \<Rightarrow> tool_result \<times> 'w client_world" where
  "served cbs m res warning c =
     (let c = (case warning of Some warn \<Rightarrow> outside (cb_warning cbs warn) c | None \<Rightarrow> c)
      in if is_schedule_create m \<and> \<not> res_is_error res
         then (case cb_scheduled cbs of
             None \<Rightarrow> (error_result not_recorded, c)
           | Some record \<Rightarrow>
               let (recorded, w) = record (result_text (res_content res)) (cw_outside c); c = c\<lparr>cw_outside := w\<rparr>
               in (if recorded then res else error_result not_recorded, c))
         else (res, c))"

definition call_answer :: "reply_body option \<Rightarrow> bool" where
  "call_answer answer \<longleftrightarrow>
     (case answer of Some (CallRan _ _ _) \<Rightarrow> True | Some (CallHeld _ _ _ _) \<Rightarrow> True | Some (CallRefused _ _) \<Rightarrow> True | _ \<Rightarrow> False)"

definition submit ::
    "('b, 'w) wire \<Rightarrow> string \<Rightarrow> tool_call \<Rightarrow> string option \<Rightarrow> 'w client_world \<Rightarrow> (client_error + reply_body) \<times> 'w client_world" where
  "submit wire channel body ticket c =
     (let (answer, c) = send wire \<lparr>pr_channel = channel, pr_post = True, pr_path = ''/v1/tools/call'', pr_body = CallBody body ticket\<rparr> c
      in case answer of
          Inl e \<Rightarrow> (Inl e, c)
        | Inr (status, reply) \<Rightarrow>
            if status \<noteq> 200 then (Inl (proxy_error_from (wi_error wire reply) ''the tool call failed'' (Some status)), c)
            else if call_answer (wi_answer wire reply) then (Inr (the (wi_answer wire reply)), c)
            else (Inl (make_client_error ''the tool call answer was not a valid response'' PfMalformedResponse), c))"

definition client_list ::
    "('b, 'w) wire \<Rightarrow> string \<Rightarrow> 'w client_world \<Rightarrow> (client_error + tool_definition list) \<times> 'w client_world" where
  "client_list wire channel c =
     (let (answer, c) = send wire \<lparr>pr_channel = channel, pr_post = False, pr_path = ''/v1/tools'', pr_body = NoBody\<rparr> c
      in case answer of
          Inl e \<Rightarrow> (Inl e, c)
        | Inr (status, reply) \<Rightarrow>
            if status \<noteq> 200 then (Inl (proxy_error_from (wi_error wire reply) ''the tool listing failed'' (Some status)), c)
            else (case wi_listing wire reply of
                None \<Rightarrow> (Inl (make_client_error ''the tool listing was not a valid listing'' PfMalformedResponse), c)
              | Some tools \<Rightarrow>
                  let (defs, by_name) = map_permitted_tools tools in (Inr defs, c\<lparr>cw_by_name := by_name\<rparr>)))"

definition wire_call :: "model_call \<Rightarrow> attribution \<Rightarrow> mapped_tool \<Rightarrow> tool_call" where
  "wire_call call attr m =
     \<lparr>tc_id = mc_id call, tc_server = mt_server m, tc_tool = mt_tool m, tc_arguments = mc_arguments call,
      tc_requesting_user = at_requesting_user attr, tc_task = at_task attr, tc_thread = at_thread attr\<rparr>"

definition held_of :: "model_call \<Rightarrow> attribution \<Rightarrow> mapped_tool \<Rightarrow> string \<Rightarrow> nat \<Rightarrow> held_call" where
  "held_of call attr m tkt expires =
     \<lparr>hc_server = mt_server m, hc_tool = mt_tool m, hc_arguments = mc_arguments call, hc_ticket = tkt, hc_expires = expires,
      hc_requesting_user = at_requesting_user attr, hc_task = at_task attr\<rparr>"

definition refused_of :: "reply_body \<Rightarrow> tool_refusal" where
  "refused_of answer = (case answer of CallHeld _ refusal _ _ \<Rightarrow> refusal | CallRefused _ refusal \<Rightarrow> refusal | _ \<Rightarrow> NoTeamSheet)"

text \<open>After the wait: the same body with the ticket, and the completion told.\<close>

definition resubmit ::
    "('b, 'w) wire \<Rightarrow> 'w client_callbacks \<Rightarrow> string \<Rightarrow> mapped_tool \<Rightarrow> tool_call \<Rightarrow> held_call \<Rightarrow> bool \<Rightarrow> 'w client_world \<Rightarrow>
     (client_error + tool_result) \<times> 'w client_world" where
  "resubmit wire cbs channel m body held wants c =
     (let (redeemed, c) = submit wire channel body (Some (hc_ticket held)) c
      in case redeemed of
          Inl e \<Rightarrow> (Inl e, c)
        | Inr (CallRan _ res warning) \<Rightarrow>
            let c = (if wants then outside (cb_completion cbs held HeldRan) c else c);
                (res, c) = served cbs m res warning c
            in (Inr res, c)
        | Inr answer \<Rightarrow>
            let c = (if wants then outside (cb_completion cbs held (HeldRefused (refused_of answer))) c else c)
            in (Inr (error_result (refusal_message (refused_of answer))), c))"

definition client_execute ::
    "('b, 'w) wire \<Rightarrow> 'w client_callbacks \<Rightarrow> string \<Rightarrow> model_call \<Rightarrow> attribution \<Rightarrow> 'w client_world \<Rightarrow>
     (client_error + tool_result) \<times> 'w client_world" where
  "client_execute wire cbs channel call attr c =
     (case js_get (cw_by_name c) (mc_name call) of
        None \<Rightarrow>
          (Inr (error_result (''`'' @ mc_name call @ ''` is not a tool this channel permits. The call was not made.'')),
           outside (cb_unmapped cbs \<lparr>uc_name = mc_name call, uc_requesting_user = at_requesting_user attr, uc_task = at_task attr\<rparr>) c)
      | Some m \<Rightarrow>
          let body = wire_call call attr m; (answer, c) = submit wire channel body None c
          in case answer of
              Inl e \<Rightarrow> (Inl e, c)
            | Inr (CallRan _ res warning) \<Rightarrow> (let (res, c) = served cbs m res warning c in (Inr res, c))
            | Inr (CallHeld _ refusal tkt expires) \<Rightarrow>
                (case cb_held cbs of
                   None \<Rightarrow> (Inr (error_result (refusal_message refusal)), c)
                 | Some wait \<Rightarrow>
                     let held = held_of call attr m tkt expires;
                         (waited, w) = wait held (cw_outside c);
                         c = c\<lparr>cw_outside := w\<rparr>
                     in resubmit wire cbs channel m body held (case waited of Inr True \<Rightarrow> True | _ \<Rightarrow> False) c)
            | Inr answer \<Rightarrow> (Inr (error_result (refusal_message (refused_of answer))), c))"

subsection \<open>What the tool client sends\<close>

lemma outside_simps [simp]:
  "cw_by_name (outside f c) = cw_by_name c" "cw_sent (outside f c) = cw_sent c"
  by (simp_all add: outside_def)

definition call_request :: "string \<Rightarrow> tool_call \<Rightarrow> string option \<Rightarrow> proxy_request" where
  "call_request channel body tkt = \<lparr>pr_channel = channel, pr_post = True, pr_path = ''/v1/tools/call'', pr_body = CallBody body tkt\<rparr>"

lemma served_frame:
  "served cbs m res warning c = (res', c') \<Longrightarrow> cw_by_name c' = cw_by_name c \<and> cw_sent c' = cw_sent c \<and>
     (\<not> res_is_error res' \<longrightarrow> res' = res)"
  by (auto simp: served_def Let_def error_result_def split: option.splits prod.splits if_splits)

lemma submit_frame:
  "submit wire channel body tkt c = (answer, c') \<Longrightarrow>
     cw_by_name c' = cw_by_name c \<and> cw_sent c' = cw_sent c @ [call_request channel body tkt] \<and>
     (\<forall>a. answer = Inr a \<longrightarrow> call_answer (Some a))"
  by (auto simp: submit_def send_def Let_def call_request_def call_answer_def split: sum.splits prod.splits if_splits option.splits)

definition last_ran :: "('b, 'w) wire \<Rightarrow> string \<Rightarrow> tool_call \<Rightarrow> string option \<Rightarrow> tool_result \<Rightarrow> 'w client_world \<Rightarrow> bool" where
  "last_ran wire channel body tkt res c' \<longleftrightarrow>
     (\<exists>c0 i warning c1. submit wire channel body tkt c0 = (Inr (CallRan i res warning), c1) \<and> cw_sent c1 = cw_sent c')"

lemma resubmit_frame:
  assumes "resubmit wire cbs channel m body held wants c = (res, c')"
  shows "cw_by_name c' = cw_by_name c \<and> cw_sent c' = cw_sent c @ [call_request channel body (Some (hc_ticket held))] \<and>
     (\<forall>r. res = Inr r \<longrightarrow> \<not> res_is_error r \<longrightarrow> last_ran wire channel body (Some (hc_ticket held)) r c')"
proof -
  obtain answer c1 where sub: "submit wire channel body (Some (hc_ticket held)) c = (answer, c1)"
    by (cases "submit wire channel body (Some (hc_ticket held)) c") auto
  note frame = submit_frame[OF sub]
  show ?thesis
  proof (cases "\<exists>i r warning. answer = Inr (CallRan i r warning)")
    case True
    then obtain i r warning where ran: "answer = Inr (CallRan i r warning)" by blast
    let ?c2 = "if wants then outside (cb_completion cbs held HeldRan) c1 else c1"
    obtain res2 c3 where served: "served cbs m r warning ?c2 = (res2, c3)" by (cases "served cbs m r warning ?c2") auto
    have "res = Inr res2" "c' = c3" using assms sub ran served by (auto simp: resubmit_def Let_def)
    then show ?thesis using served_frame[OF served] frame sub ran by (auto simp: last_ran_def)
  next
    case False
    then show ?thesis using assms sub frame
      by (cases answer) (auto simp: resubmit_def Let_def error_result_def split: reply_body.splits)
  qed
qed

lemma client_execute_mapped:
  assumes m: "js_get (cw_by_name c) (mc_name call) = Some m" and run: "client_execute wire cbs channel call attr c = (res, c')"
  shows "cw_by_name c' = cw_by_name c \<and>
    (cw_sent c' = cw_sent c @ [call_request channel (wire_call call attr m) None] \<and>
       (\<forall>r. res = Inr r \<longrightarrow> \<not> res_is_error r \<longrightarrow> last_ran wire channel (wire_call call attr m) None r c') \<or>
     (\<exists>i refusal tkt expires c1. cb_held cbs \<noteq> None \<and>
        submit wire channel (wire_call call attr m) None c = (Inr (CallHeld i refusal tkt expires), c1) \<and>
        cw_sent c' = cw_sent c @ [call_request channel (wire_call call attr m) None, call_request channel (wire_call call attr m) (Some tkt)] \<and>
        (\<forall>r. res = Inr r \<longrightarrow> \<not> res_is_error r \<longrightarrow> last_ran wire channel (wire_call call attr m) (Some tkt) r c')))"
proof -
  let ?body = "wire_call call attr m"
  obtain answer c1 where sub: "submit wire channel ?body None c = (answer, c1)"
    by (cases "submit wire channel ?body None c") auto
  note frame = submit_frame[OF sub]
  show ?thesis
  proof (cases answer)
    case (Inl e)
    then show ?thesis using run m sub frame by (auto simp: client_execute_def Let_def)
  next
    case (Inr a)
    show ?thesis
    proof (cases a)
      case (CallRan i r warning)
      obtain res2 c3 where served: "served cbs m r warning c1 = (res2, c3)" by (cases "served cbs m r warning c1") auto
      then have "res = Inr res2" "c' = c3" using run m sub Inr CallRan by (auto simp: client_execute_def Let_def)
      then show ?thesis using served_frame[OF served] frame sub Inr CallRan by (auto simp: last_ran_def)
    next
      case (CallHeld i refusal tkt expires)
      show ?thesis
      proof (cases "cb_held cbs")
        case None
        then show ?thesis using run m sub Inr CallHeld frame by (auto simp: client_execute_def Let_def error_result_def)
      next
        case (Some wait)
        let ?held = "held_of call attr m tkt expires"
        obtain waited w where w: "wait ?held (cw_outside c1) = (waited, w)" by (cases "wait ?held (cw_outside c1)") auto
        have again: "resubmit wire cbs channel m ?body ?held (case waited of Inr True \<Rightarrow> True | _ \<Rightarrow> False) (c1\<lparr>cw_outside := w\<rparr>) = (res, c')"
          using run m sub Inr CallHeld Some w by (simp add: client_execute_def Let_def)
        have tkt: "hc_ticket ?held = tkt" by (simp add: held_of_def)
        show ?thesis
          using resubmit_frame[OF again] frame sub Inr CallHeld Some unfolding tkt by auto
      qed
    qed (use run m sub Inr frame in \<open>auto simp: client_execute_def Let_def error_result_def call_answer_def\<close>)
  qed
qed

lemma client_execute_unmapped:
  assumes "js_get (cw_by_name c) (mc_name call) = None" "client_execute wire cbs channel call attr c = (res, c')"
  shows "cw_by_name c' = cw_by_name c \<and> cw_sent c' = cw_sent c \<and> (\<forall>r. res = Inr r \<longrightarrow> res_is_error r)"
  using assms by (auto simp: client_execute_def error_result_def)

text \<open>
  C14. A name the listing did not give is never sent. Otherwise the call goes out once, exactly as the model
  wrote it under the listed server and tool; a second time only after it was held, the same body with the
  ticket of that hold. The model reads a success only where the proxy said the last submission ran, with that
  result.
\<close>

theorem tool_call_sent_faithfully:
  assumes "client_execute wire cbs channel call attr c = (res, c')"
  shows "case js_get (cw_by_name c) (mc_name call) of
      None \<Rightarrow> cw_sent c' = cw_sent c \<and> (\<forall>r. res = Inr r \<longrightarrow> res_is_error r)
    | Some m \<Rightarrow>
        cw_sent c' = cw_sent c @ [call_request channel (wire_call call attr m) None] \<and>
          (\<forall>r. res = Inr r \<longrightarrow> \<not> res_is_error r \<longrightarrow> last_ran wire channel (wire_call call attr m) None r c') \<or>
        (\<exists>i refusal tkt expires c1. cb_held cbs \<noteq> None \<and>
           submit wire channel (wire_call call attr m) None c = (Inr (CallHeld i refusal tkt expires), c1) \<and>
           cw_sent c' = cw_sent c @ [call_request channel (wire_call call attr m) None, call_request channel (wire_call call attr m) (Some tkt)] \<and>
           (\<forall>r. res = Inr r \<longrightarrow> \<not> res_is_error r \<longrightarrow> last_ran wire channel (wire_call call attr m) (Some tkt) r c'))"
  using client_execute_mapped[OF _ assms] client_execute_unmapped[OF _ assms]
  by (cases "js_get (cw_by_name c) (mc_name call)") auto

subsection \<open>The task over the tool client\<close>

text \<open>The loop's environment: the listing and the tools are the client's, the rest is the outside's.\<close>

definition lift_outside :: "('w \<Rightarrow> 'a \<times> 'w) \<Rightarrow> 'w client_world \<Rightarrow> 'a \<times> 'w client_world" where
  "lift_outside f c = (let (a, w) = f (cw_outside c) in (a, c\<lparr>cw_outside := w\<rparr>))"

definition thrown :: "client_error + 'a \<Rightarrow> js_text + 'a" where
  "thrown res = (case res of Inl e \<Rightarrow> Inl (js (ce_message e)) | Inr a \<Rightarrow> Inr a)"

definition client_env ::
    "('b, 'w) wire \<Rightarrow> 'w client_callbacks \<Rightarrow> string \<Rightarrow> 'w agent_env \<Rightarrow> 'w client_world agent_env" where
  "client_env wire cbs channel base =
     \<lparr>env_cancelled = env_cancelled base \<circ> cw_outside, env_deadline = env_deadline base \<circ> cw_outside,
      env_now = env_now base \<circ> cw_outside,
      env_list = map_prod thrown id \<circ> client_list wire channel,
      env_complete = lift_outside \<circ> env_complete base,
      env_execute = (\<lambda>call attr. map_prod thrown id \<circ> client_execute wire cbs channel call attr),
      env_on_turn = lift_outside \<circ> env_on_turn base,
      env_on_tool_call = outside \<circ> env_on_tool_call base\<rparr>"

text \<open>Every call sent carries the task's attribution and names a listed tool.\<close>

definition attributed :: "attribution \<Rightarrow> string \<Rightarrow> (string, mapped_tool) jsmap \<Rightarrow> proxy_request \<Rightarrow> bool" where
  "attributed attr channel by_name rq \<longleftrightarrow>
     pr_channel rq = channel \<and>
     (case pr_body rq of
        CallBody body _ \<Rightarrow>
          tc_requesting_user body = at_requesting_user attr \<and> tc_task body = at_task attr \<and> tc_thread body = at_thread attr \<and>
          list_ex (\<lambda>(_, m). mt_server m = tc_server body \<and> mt_tool m = tc_tool body) by_name
      | NoBody \<Rightarrow> True
      | _ \<Rightarrow> False)"

definition sends_attributed :: "attribution \<Rightarrow> string \<Rightarrow> 'w client_world \<Rightarrow> bool" where
  "sends_attributed attr channel c \<longleftrightarrow> list_all (attributed attr channel (cw_by_name c)) (cw_sent c)"

definition nothing_sent :: "'w client_world \<Rightarrow> bool" where
  "nothing_sent c \<longleftrightarrow> cw_sent c = []"

lemma attributed_call:
  assumes "js_get by_name name = Some m"
  shows "attributed attr channel by_name (call_request channel (wire_call call attr m) tkt)"
  using map_of_SomeD[OF assms] by (auto simp: attributed_def call_request_def wire_call_def list_ex_iff)

lemma sends_attributed_execute:
  assumes "sends_attributed attr channel c" "client_execute wire cbs channel call attr c = (res, c')"
  shows "sends_attributed attr channel c'"
proof (cases "js_get (cw_by_name c) (mc_name call)")
  case None
  then show ?thesis using client_execute_unmapped[OF None assms(2)] assms(1) by (simp add: sends_attributed_def)
next
  case (Some m)
  then show ?thesis using client_execute_mapped[OF Some assms(2)] assms(1) attributed_call[OF Some]
    by (auto simp: sends_attributed_def)
qed

lemma sends_attributed_list:
  assumes "nothing_sent c" "client_list wire channel c = (res, c')"
  shows "sends_attributed attr channel c'"
  using assms by (auto simp: client_list_def send_def nothing_sent_def sends_attributed_def attributed_def Let_def
      split: sum.splits prod.splits if_splits option.splits)

interpretation client_sends: outside_invariant "client_env wire cbs channel base" attr nothing_sent "sends_attributed attr channel"
  for wire cbs channel base attr
proof
  fix c c' :: "'b client_world" and l
  assume "nothing_sent c" "env_list (client_env wire cbs channel base) c = (l, c')"
  then show "sends_attributed attr channel c'"
    using sends_attributed_list by (cases "client_list wire channel c") (auto simp: client_env_def)
next
  fix c c' :: "'b client_world" and call res
  assume "sends_attributed attr channel c" "env_execute (client_env wire cbs channel base) call attr c = (res, c')"
  then show "sends_attributed attr channel c'"
    using sends_attributed_execute by (cases "client_execute wire cbs channel call attr c") (auto simp: client_env_def)
qed (auto simp: nothing_sent_def sends_attributed_def client_env_def lift_outside_def Let_def split: prod.splits)

text \<open>
  C13. Whatever the model writes, every call a task sends is sent under the channel's own certificate with the
  user and task the loop was given, and names a server and tool of the listing.
\<close>

theorem task_calls_attributed:
  assumes "cw_sent c = []" "run_agent_task (client_env wire cbs channel base) task c = (res, r, c')"
  shows "list_all (attributed (attribution_of task) channel (cw_by_name c')) (cw_sent c')"
  using client_sends.keeps_task[OF _ refl assms(2)] assms(1) by (simp add: nothing_sent_def sends_attributed_def)

subsection \<open>An example\<close>

text \<open>
  A proxy that lists one tool, holds its call and runs it with the ticket; the state of the outside counts
  the requests. A prompter that waits and wants to be told.
\<close>

definition example_wire :: "(nat, nat) wire" where
  "example_wire = \<lparr>wi_request = (\<lambda>_ n. (Inr (200, n), Suc n)),
     wi_listing = (\<lambda>_. Some [example_listed ''github'' ''close_issue'']),
     wi_answer = (\<lambda>n. Some (if n = 1 then CallHeld ''a'' (NeedsApproval ''github'' ''close_issue'') ''t1'' 9
                            else CallRan ''a'' \<lparr>res_content = [], res_is_error = False\<rparr> None)),
     wi_error = (\<lambda>_. None)\<rparr>"

definition example_callbacks :: "nat client_callbacks" where
  "example_callbacks = \<lparr>cb_held = Some (\<lambda>_ n. (Inr True, n)), cb_completion = (\<lambda>_ _ n. n), cb_unmapped = (\<lambda>_ n. n),
     cb_warning = (\<lambda>_ n. n), cb_scheduled = None\<rparr>"

definition example_client :: "nat client_world" where
  "example_client = \<lparr>cw_by_name = snd (map_permitted_tools [example_listed ''github'' ''close_issue'']), cw_sent = [], cw_outside = 1\<rparr>"

definition example_attr :: attribution where
  "example_attr = \<lparr>at_requesting_user = ''U1'', at_task = ''t'', at_thread = None\<rparr>"

definition close_call :: model_call where
  "close_call = \<lparr>mc_id = ''a'', mc_name = ''close_issue'', mc_arguments = JObj []\<rparr>"

theorem tool_call_sent_faithfully_witness:
  "length (cw_sent (snd (client_execute example_wire example_callbacks ''C1'' close_call example_attr example_client))) \<in> {1, 2}"
proof -
  have "js_get (cw_by_name example_client) (mc_name close_call) \<noteq> None" by code_simp
  then obtain m where "js_get (cw_by_name example_client) (mc_name close_call) = Some m" by blast
  moreover have "cw_sent example_client = []" by (simp add: example_client_def)
  ultimately show ?thesis
    using tool_call_sent_faithfully[of example_wire example_callbacks "''C1''" close_call example_attr example_client,
        OF prod.collapse[symmetric]] by auto
qed

lemma example_redeems:
  "map pr_body (cw_sent (snd (client_execute example_wire example_callbacks ''C1'' close_call example_attr example_client))) =
     [CallBody (wire_call close_call example_attr \<lparr>mt_model_name = ''close_issue'', mt_server = ''github'', mt_tool = ''close_issue'', mt_approval = ApprovalNone\<rparr>) None,
      CallBody (wire_call close_call example_attr \<lparr>mt_model_name = ''close_issue'', mt_server = ''github'', mt_tool = ''close_issue'', mt_approval = ApprovalNone\<rparr>) (Some ''t1'')]"
  by code_simp

definition close_env :: "nat client_world agent_env" where
  "close_env = client_env example_wire example_callbacks ''C1'' (example_env (example_response [close_call] ToolUse))"

theorem task_calls_attributed_witness:
  "let c' = snd (snd (run_agent_task close_env (example_task 3) \<lparr>cw_by_name = [], cw_sent = [], cw_outside = 0\<rparr>))
   in list_all (attributed (attribution_of (example_task 3)) ''C1'' (cw_by_name c')) (cw_sent c')"
proof -
  obtain res r c' where run: "run_agent_task close_env (example_task 3) \<lparr>cw_by_name = [], cw_sent = [], cw_outside = 0\<rparr> = (res, r, c')"
    by (metis prod_cases3)
  then have "list_all (attributed (attribution_of (example_task 3)) ''C1'' (cw_by_name c')) (cw_sent c')"
    unfolding close_env_def by (rule task_calls_attributed[rotated]) simp
  then show ?thesis using run by simp
qed

end
