(* ===== verification/Agent_Clients.thy ===== *)
theory Agent_Clients
  imports Agent_Tools
begin

text \<open>
  The spend, budget and approvals clients (\<open>packages/agent/src/proxy/spend.ts\<close>, \<open>budget.ts\<close>,
  \<open>approvals.ts\<close>) and the transport under all of them (\<open>transport.ts\<close>): the channel's agent out of its
  cache, the reading of an answer within its bound, and what a failed connection is called.

  Each client has its deadline; whether it, or the caller's signal, had fired when the request came back is
  an argument. Files, named within the certificate directory, and key pairs are read through parameters.
\<close>

subsection \<open>Deadlines\<close>

text \<open>The transport calls any abort a cancellation; where only the deadline can have fired it is renamed.\<close>

definition rename_deadline :: "string \<Rightarrow> bool \<Rightarrow> client_error \<Rightarrow> client_error" where
  "rename_deadline what deadline e = (if ce_reason e = PfCancelled \<and> deadline then make_client_error (what @ '' timed out'') PfTimedOut else e)"

text \<open>A client's question: the answer's meaning is \<open>read\<close>.\<close>

definition client_ask ::
    "('b, 'w) wire \<Rightarrow> ('b \<Rightarrow> 'a option) \<Rightarrow> string \<Rightarrow> string \<Rightarrow> ('w \<Rightarrow> bool) \<Rightarrow> proxy_request \<Rightarrow> 'w \<Rightarrow> (client_error + 'a) \<times> 'w" where
  "client_ask wire read what answer deadline rq w =
     (let (reply, w) = wi_request wire rq w
      in (case reply of
            Inl e \<Rightarrow> Inl (rename_deadline (''the '' @ what) (deadline w) e)
          | Inr (status, body) \<Rightarrow>
              if status \<noteq> 200 then Inl (proxy_error_from (wi_error wire body) (''the '' @ what @ '' failed'') (Some status))
              else (case read body of
                  None \<Rightarrow> Inl (make_client_error (''the '' @ answer) PfMalformedResponse)
                | Some a \<Rightarrow> Inr a), w))"

subsection \<open>The three clients\<close>

definition spend_of :: "string \<Rightarrow> token_usage \<Rightarrow> string option \<Rightarrow> nat option \<Rightarrow> spend_report" where
  "spend_of turn u model cost =
     \<lparr>sr_turn = turn, sr_model = model,
      sr_usage = \<lparr>ur_input_tokens = us_input u, ur_output_tokens = us_output u,
        ur_cache_creation_input_tokens = (case us_cache_creation u of Some n \<Rightarrow> n | None \<Rightarrow> 0),
        ur_cache_read_input_tokens = (case us_cache_read u of Some n \<Rightarrow> n | None \<Rightarrow> 0)\<rparr>,
      sr_cost_nano_usd = cost\<rparr>"

definition spend_client ::
    "('b, 'w) wire \<Rightarrow> ('b \<Rightarrow> report_outcome option) \<Rightarrow> string \<Rightarrow> ('w \<Rightarrow> bool) \<Rightarrow>
     string \<Rightarrow> token_usage \<Rightarrow> string option \<Rightarrow> nat option \<Rightarrow> 'w \<Rightarrow> (client_error + report_outcome) \<times> 'w" where
  "spend_client wire read channel deadline turn u model cost =
     client_ask wire read ''spend report'' ''spend report answer was not a valid response'' deadline
       \<lparr>pr_channel = channel, pr_post = True, pr_path = ''/v1/spend'', pr_body = SpendBody (spend_of turn u model cost)\<rparr>"

text \<open>The refusal to come, or none while the channel can spend; the caller's own cancel keeps its name.\<close>

definition budget_client ::
    "('b, 'w) wire \<Rightarrow> ('b \<Rightarrow> tool_refusal option option) \<Rightarrow> string \<Rightarrow> ('w \<Rightarrow> bool) \<Rightarrow> ('w \<Rightarrow> bool) \<Rightarrow>
     'w \<Rightarrow> (client_error + tool_refusal option) \<times> 'w" where
  "budget_client wire read channel deadline cancelled =
     client_ask wire read ''budget question'' ''budget answer was not a valid status'' (\<lambda>w. deadline w \<and> \<not> cancelled w)
       \<lparr>pr_channel = channel, pr_post = False, pr_path = ''/v1/budget'', pr_body = NoBody\<rparr>"

definition approvals_client ::
    "('b, 'w) wire \<Rightarrow> ('b \<Rightarrow> approval_reply option) \<Rightarrow> ('w \<Rightarrow> bool) \<Rightarrow>
     string \<Rightarrow> approval_decision \<Rightarrow> 'w \<Rightarrow> (client_error + approval_reply) \<times> 'w" where
  "approvals_client wire read deadline channel verdict =
     client_ask wire read ''decision relay'' ''decision answer was not a valid response'' deadline
       \<lparr>pr_channel = channel, pr_post = True, pr_path = ''/v1/approvals'', pr_body = DecisionBody verdict\<rparr>"

text \<open>A report counts every token the loop counts.\<close>

lemma spend_of_total:
  "ur_input_tokens (sr_usage (spend_of turn u model cost)) + ur_output_tokens (sr_usage (spend_of turn u model cost)) +
   ur_cache_read_input_tokens (sr_usage (spend_of turn u model cost)) +
   ur_cache_creation_input_tokens (sr_usage (spend_of turn u model cost)) = total_tokens u"
  by (simp add: spend_of_def total_tokens_def)

lemma client_ask_timeout:
  assumes "client_ask wire read what answer deadline rq w = (Inl e, w')" "ce_reason e = PfTimedOut"
  shows "deadline w' \<or> (\<exists>e0. wi_request wire rq w = (Inl e0, w') \<and> ce_reason e0 = PfTimedOut)"
  using assms
  by (auto simp: client_ask_def rename_deadline_def make_client_error_def proxy_error_from_def
      split: sum.splits prod.splits if_splits option.splits)

subsection \<open>The transport\<close>

definition max_response_bytes :: nat where
  "max_response_bytes = 1048576"

record response_reader =
  rr_chunks :: "8 word list"
  rr_total :: nat

definition response_data :: "8 word list \<Rightarrow> response_reader \<Rightarrow> response_reader" where
  "response_data chunk r =
     (let total = rr_total r + length chunk
      in \<lparr>rr_chunks = (if total \<le> max_response_bytes then rr_chunks r @ chunk else rr_chunks r), rr_total = total\<rparr>)"

datatype 'b raw_reply = RawTooLarge | RawNotJson | RawReply nat "'b option"

definition response_end :: "(8 word list \<Rightarrow> 'b option) \<Rightarrow> nat \<Rightarrow> response_reader \<Rightarrow> client_error + nat \<times> 'b option" where
  "response_end parse status r =
     (if max_response_bytes < rr_total r then Inl (make_client_error ''the response was too large'' PfMalformedResponse)
      else if rr_chunks r = [] then Inr (status, None)
      else (case parse (rr_chunks r) of
          Some body \<Rightarrow> Inr (status, Some body)
        | None \<Rightarrow> Inl (make_client_error ''the response was not JSON'' PfMalformedResponse)))"

definition read_response_chunks ::
    "(8 word list \<Rightarrow> 'b option) \<Rightarrow> nat \<Rightarrow> 8 word list list \<Rightarrow> client_error + nat \<times> 'b option" where
  "read_response_chunks parse status chunks =
     response_end parse status (fold response_data chunks \<lparr>rr_chunks = [], rr_total = 0\<rparr>)"

text \<open>Reading in chunks is reading the whole body, which is buffered only up to the bound.\<close>

lemma fold_response_data:
  assumes "length (rr_chunks r) \<le> rr_total r" "rr_total r \<le> max_response_bytes \<longrightarrow> length (rr_chunks r) = rr_total r"
    "length (rr_chunks r) \<le> max_response_bytes"
  shows "let r' = fold response_data chunks r in
    rr_total r' = rr_total r + length (concat chunks) \<and> length (rr_chunks r') \<le> max_response_bytes \<and>
    (rr_total r' \<le> max_response_bytes \<longrightarrow> rr_chunks r' = rr_chunks r @ concat chunks)"
  using assms
proof (induction chunks arbitrary: r)
  case Nil
  then show ?case by simp
next
  case (Cons chunk chunks)
  have "length (rr_chunks (response_data chunk r)) \<le> rr_total (response_data chunk r)"
    "rr_total (response_data chunk r) \<le> max_response_bytes \<longrightarrow> length (rr_chunks (response_data chunk r)) = rr_total (response_data chunk r)"
    "length (rr_chunks (response_data chunk r)) \<le> max_response_bytes"
    using Cons.prems by (auto simp: response_data_def Let_def)
  from Cons.IH[OF this] show ?case by (auto simp: Let_def response_data_def)
qed

lemma read_response_chunks_whole:
  "read_response_chunks parse status chunks =
     (let body = concat chunks
      in if max_response_bytes < length body then Inl (make_client_error ''the response was too large'' PfMalformedResponse)
         else if body = [] then Inr (status, None)
         else case parse body of
             Some b \<Rightarrow> Inr (status, Some b)
           | None \<Rightarrow> Inl (make_client_error ''the response was not JSON'' PfMalformedResponse))"
  using fold_response_data[of "\<lparr>rr_chunks = [], rr_total = 0\<rparr>" chunks]
  by (simp add: read_response_chunks_def response_end_def Let_def)

text \<open>\<open>parseProxyUrl\<close>, given what \<open>new URL\<close> makes of it: protocol, host, port.\<close>

definition parse_proxy_url :: "string \<Rightarrow> (string \<times> string \<times> nat option) option \<Rightarrow> client_error + string \<times> nat" where
  "parse_proxy_url url parsed =
     (case parsed of
        None \<Rightarrow> Inl (make_client_error (''PROXY_URL is not a URL: '' @ url) PfUnreachable)
      | Some (protocol, host, port) \<Rightarrow>
          if protocol \<noteq> ''https:'' then Inl (make_client_error (''PROXY_URL must be https, and was: '' @ protocol @ ''//'') PfTlsRejected)
          else Inr (host, case port of None \<Rightarrow> 443 | Some p \<Rightarrow> p))"

definition contains :: "string \<Rightarrow> string \<Rightarrow> bool" where
  "contains s sub \<longleftrightarrow> list_ex (\<lambda>i. starts_with (drop i s) sub) [0..<Suc (length s)]"

definition transport_error :: "string \<Rightarrow> client_error" where
  "transport_error code =
     (if starts_with code ''ERR_TLS'' \<or> starts_with code ''ERR_SSL'' \<or> contains code ''CERT_''
      then make_client_error (''the proxy'' @ [CHR 0x27] @ ''s certificate was not accepted'') PfTlsRejected
      else if code \<in> {''ECONNRESET'', ''EPIPE'', ''EPROTO''}
      then make_client_error (''the proxy closed the connection without answering '' @ [CHR 0xE2, CHR 0x80, CHR 0x94] @
        '' it is down, or it did not accept this channel'' @ [CHR 0x27] @ ''s certificate'') PfConnectionReset
      else make_client_error ''the proxy could not be reached'' PfUnreachable)"

text \<open>The agents, one per channel, keyed to the certificate file's version.\<close>

type_synonym file_version = "nat \<times> nat \<times> nat"

record tls_agent =
  ta_cert :: string
  ta_key :: string

record cached_agent =
  cg_agent :: tls_agent
  cg_version :: "file_version option"

definition same_version :: "file_version option \<Rightarrow> file_version option \<Rightarrow> bool" where
  "same_version a b \<longleftrightarrow> a \<noteq> None \<and> a = b"

definition agent_for ::
    "(string \<Rightarrow> file_version option) \<Rightarrow> (string \<Rightarrow> string option) \<Rightarrow> (string \<Rightarrow> string \<Rightarrow> bool) \<Rightarrow> string \<Rightarrow>
     (string, cached_agent) jsmap \<Rightarrow> (client_error + tls_agent) \<times> (string, cached_agent) jsmap" where
  "agent_for version_of read pair_matches channel agents =
     (if \<not> channel_id_pattern channel
      then (Inl (make_client_error ''the channel id is not a valid channel id'' PfNoClientCertificate), agents)
      else
        let cert_path = ''client-'' @ channel @ ''.pem''; key_path = ''client-'' @ channel @ ''.key'';
            version = version_of cert_path;
            make = (case (read cert_path, read key_path) of
                (None, _) \<Rightarrow> (Inl (make_client_error (''cannot read client certificate at '' @ cert_path) PfNoClientCertificate), agents)
              | (_, None) \<Rightarrow> (Inl (make_client_error (''cannot read client key at '' @ key_path) PfNoClientCertificate), agents)
              | (Some cert, Some key) \<Rightarrow>
                  if \<not> pair_matches cert key
                  then (Inl (make_client_error (''the client certificate at '' @ cert_path @ '' does not match the key beside it'') PfNoClientCertificate), agents)
                  else (Inr \<lparr>ta_cert = cert, ta_key = key\<rparr>, js_set channel \<lparr>cg_agent = \<lparr>ta_cert = cert, ta_key = key\<rparr>, cg_version = version\<rparr> agents))
        in case js_get agents channel of
            Some cached \<Rightarrow> if same_version (cg_version cached) version then (Inr (cg_agent cached), agents) else make
          | None \<Rightarrow> make)"

text \<open>An agent holds a pair that matches; a changed certificate file is read again; other channels keep theirs.\<close>

lemma agent_for_other:
  "agent_for version_of read pair_matches channel agents = (res, agents') \<Longrightarrow> other \<noteq> channel \<Longrightarrow> js_get agents' other = js_get agents other"
  by (auto simp: agent_for_def Let_def split: option.splits if_splits)

lemma agent_for_served:
  assumes "agent_for version_of read pair_matches channel agents = (Inr a, agents')"
  shows "(\<exists>cached. js_get agents channel = Some cached \<and> cg_agent cached = a \<and>
      same_version (cg_version cached) (version_of (''client-'' @ channel @ ''.pem''))) \<or>
    read (''client-'' @ channel @ ''.pem'') = Some (ta_cert a) \<and> read (''client-'' @ channel @ ''.key'') = Some (ta_key a) \<and>
      pair_matches (ta_cert a) (ta_key a)"
  using assms by (auto simp: agent_for_def Let_def split: option.splits if_splits)

end
