(* ===== verification/Skill_File.thy ===== *)
theory Skill_File
  imports Team_Sheet Js_Text
begin

text \<open>
  The skill file format (\<open>packages/schema/src/skill.ts\<close>): \<open>readHeader\<close>, \<open>parseSkillFile\<close> and
  \<open>serializeSkillFile\<close> over UTF-16 code units. The regular expressions are written out; each is
  deterministic, since letters, blanks and the colon are disjoint. A schema failure is one value, without
  its list of issues.
\<close>

subsection \<open>Text\<close>

text \<open>\<open>\s\<close>, which is also what \<open>trim\<close> removes, and the line terminators a dot does not match.\<close>

definition space_unit :: "unit16 \<Rightarrow> bool" where
  "space_unit u \<longleftrightarrow> u \<in> {0x09, 0x0A, 0x0B, 0x0C, 0x0D, 0x20, 0xA0, 0x1680, 0x2028, 0x2029, 0x202F, 0x205F, 0x3000, 0xFEFF} \<or>
     0x2000 \<le> u \<and> u \<le> 0x200A"

definition line_terminator :: "unit16 \<Rightarrow> bool" where
  "line_terminator u \<longleftrightarrow> u \<in> {0x0A, 0x0D, 0x2028, 0x2029}"

definition letter_unit :: "unit16 \<Rightarrow> bool" where
  "letter_unit u \<longleftrightarrow> 0x41 \<le> u \<and> u \<le> 0x5A \<or> 0x61 \<le> u \<and> u \<le> 0x7A"

definition key_unit :: "unit16 \<Rightarrow> bool" where
  "key_unit u \<longleftrightarrow> letter_unit u \<or> 0x30 \<le> u \<and> u \<le> 0x39 \<or> u = 0x5F \<or> u = 0x2D"

definition blank_unit :: "unit16 \<Rightarrow> bool" where
  "blank_unit u \<longleftrightarrow> u = 0x20 \<or> u = 0x09"

definition js_trim :: "js_text \<Rightarrow> js_text" where
  "js_trim us = rev (dropWhile space_unit (rev (dropWhile space_unit us)))"

fun split_lines :: "js_text \<Rightarrow> js_text list" where
  "split_lines [] = [[]]"
| "split_lines (u # us) =
     (if u = 0x0A then [] # split_lines us
      else case split_lines us of [] \<Rightarrow> [[u]] | line # lines \<Rightarrow> (u # line) # lines)"

fun join_lines :: "js_text list \<Rightarrow> js_text" where
  "join_lines [] = []"
| "join_lines [line] = line"
| "join_lines (line # lines) = line @ 0x0A # join_lines lines"

fun uncrlf :: "js_text \<Rightarrow> js_text" where
  "uncrlf [] = []"
| "uncrlf [u] = [u]"
| "uncrlf (u # v # us) = (if u = 0x0D \<and> v = 0x0A then 0x0A # uncrlf us else u # uncrlf (v # us))"

definition fence :: js_text where
  "fence = js ''---''"

definition starts_blank :: "js_text \<Rightarrow> bool" where
  "starts_blank line \<longleftrightarrow> line \<noteq> [] \<and> blank_unit (hd line)"

definition unquote :: "js_text \<Rightarrow> js_text" where
  "unquote value =
     (let trimmed = js_trim value
      in if 2 \<le> length trimmed \<and> hd trimmed \<in> {0x22, 0x27} \<and> last trimmed = hd trimmed
         then butlast (tl trimmed) else trimmed)"

text \<open>\<open>([A-Za-z][A-Za-z0-9_-]*)\s*:\s*(.*)$\<close> at the start of a line, and after its indent.\<close>

definition frontmatter_line :: "js_text \<Rightarrow> (js_text \<times> js_text) option" where
  "frontmatter_line line =
     (let key = takeWhile key_unit line;
          rest = dropWhile space_unit (dropWhile key_unit line);
          value = dropWhile space_unit (tl rest)
      in if line \<noteq> [] \<and> letter_unit (hd line) \<and> rest \<noteq> [] \<and> hd rest = 0x3A \<and> list_all (\<lambda>u. \<not> line_terminator u) value
         then Some (key, value) else None)"

definition indented_line :: "js_text \<Rightarrow> (js_text \<times> js_text) option" where
  "indented_line line = (if starts_blank line then frontmatter_line (dropWhile blank_unit line) else None)"

definition block_indicators :: "js_text list" where
  "block_indicators = [js ''|'', js ''|-'', js ''>'', js ''>-'']"

subsection \<open>Block scalars\<close>

definition line_breaks :: "nat \<Rightarrow> js_text" where
  "line_breaks n = replicate n 0x0A"

definition fold_line :: "js_text \<times> js_text option \<times> nat \<Rightarrow> js_text \<Rightarrow> js_text \<times> js_text option \<times> nat" where
  "fold_line = (\<lambda>(out, previous, blanks) line.
     if js_trim line = [] then (out, previous, Suc blanks)
     else
       ((case previous of
           None \<Rightarrow> out
         | Some p \<Rightarrow> out @ (if starts_blank p \<or> starts_blank line then line_breaks (Suc blanks)
                          else if blanks = 0 then [0x20] else line_breaks blanks)) @ line,
        Some line, 0))"

definition block_value :: "js_text \<Rightarrow> js_text list \<Rightarrow> js_text" where
  "block_value indicator lines =
     (if indicator \<noteq> [] \<and> hd indicator = 0x7C then join_lines lines
      else fst (foldl fold_line ([], None, 0) lines))"

text \<open>The block's indent off every line; \<open>Inl\<close> is the offset of a line that has less.\<close>

fun strip_indent :: "js_text \<Rightarrow> nat \<Rightarrow> js_text list \<Rightarrow> nat + js_text list" where
  "strip_indent indent offset [] = Inr []"
| "strip_indent indent offset (entry # entries) =
     (if take (length indent) entry = indent
      then map_sum id ((#) (drop (length indent) entry)) (strip_indent indent (Suc offset) entries)
      else if js_trim entry = [] then map_sum id ((#) []) (strip_indent indent (Suc offset) entries)
      else Inl offset)"

definition in_block :: "js_text \<Rightarrow> bool" where
  "in_block next \<longleftrightarrow> js_trim next \<noteq> fence \<and> (js_trim next = [] \<or> starts_blank next)"

subsection \<open>The header\<close>

datatype header_error = NoFrontmatter | MalformedLine nat | DuplicateKey nat

record header =
  hd_scalars :: "(js_text \<times> js_text) list"
  hd_maps :: "(js_text, (js_text \<times> js_text) list) jsmap"
  hd_close :: nat

text \<open>
  The loop over the lines, from the one at \<open>index\<close>. \<open>seen\<close> is the keys of the scalars; \<open>opened\<close> is the key
  whose map an indented line goes in.
\<close>

function read_lines ::
    "nat \<Rightarrow> js_text list \<Rightarrow> (js_text \<times> js_text) list \<Rightarrow> (js_text, (js_text \<times> js_text) list) jsmap \<Rightarrow> js_text option \<Rightarrow>
     header_error + header" where
  "read_lines index [] scalars maps opened = Inl NoFrontmatter"
| "read_lines index (line # lines) scalars maps opened =
     (if js_trim line = fence then Inr \<lparr>hd_scalars = scalars, hd_maps = maps, hd_close = index\<rparr>
      else if js_trim line = [] then read_lines (Suc index) lines scalars maps opened
      else if starts_blank line then
        (case (indented_line line, opened) of
           (Some (key, value), Some owner) \<Rightarrow>
             let entries = (case js_get maps owner of Some m \<Rightarrow> m | None \<Rightarrow> [])
             in if key \<in> set (map fst entries) then Inl (DuplicateKey (Suc index))
                else read_lines (Suc index) lines scalars (js_set owner (entries @ [(key, unquote value)]) maps) opened
         | _ \<Rightarrow> Inl (MalformedLine (Suc index)))
      else
        (case frontmatter_line line of
           None \<Rightarrow> Inl (MalformedLine (Suc index))
         | Some (key, value) \<Rightarrow>
             if key \<in> set (map fst scalars) then Inl (DuplicateKey (Suc index))
             else
               let block = takeWhile in_block lines;
                   first = find (\<lambda>entry. js_trim entry \<noteq> []) block;
                   scalar = unquote value
               in if js_trim value \<in> set block_indicators \<and> first \<noteq> None then
                    (case strip_indent (takeWhile blank_unit (the first)) 0 block of
                       Inl offset \<Rightarrow> Inl (MalformedLine (index + offset + 2))
                     | Inr content \<Rightarrow>
                         read_lines (Suc index + length block) (dropWhile in_block lines)
                           (scalars @ [(key, js_trim (block_value (js_trim value) content))]) maps None)
                  else read_lines (Suc index) lines (scalars @ [(key, scalar)]) maps (if scalar = [] then Some key else None)))"
  by pat_completeness auto
termination
  by (relation "measure (\<lambda>(index, lines, scalars, maps, opened). length lines)")
    (auto simp: less_Suc_eq_le length_dropWhile_le)

definition read_header :: "js_text list \<Rightarrow> header_error + header" where
  "read_header lines =
     (case lines of
        [] \<Rightarrow> Inl NoFrontmatter
      | line # rest \<Rightarrow> if js_trim line \<noteq> fence then Inl NoFrontmatter else read_lines 1 rest [] [] None)"

definition read_skill_scalar :: "js_text \<Rightarrow> js_text \<Rightarrow> js_text option" where
  "read_skill_scalar body key =
     (case read_header (split_lines (uncrlf body)) of Inl _ \<Rightarrow> None | Inr header \<Rightarrow> map_of (hd_scalars header) key)"

subsection \<open>The file\<close>

datatype skill_status = SkillActive | SkillStale | SkillArchived

fun status_text :: "skill_status \<Rightarrow> js_text" where
  "status_text SkillActive = js ''active''"
| "status_text SkillStale = js ''stale''"
| "status_text SkillArchived = js ''archived''"

definition status_of :: "js_text \<Rightarrow> skill_status option" where
  "status_of us = (if us = js ''active'' then Some SkillActive else if us = js ''stale'' then Some SkillStale
     else if us = js ''archived'' then Some SkillArchived else None)"

record skill_file =
  sk_name :: js_text
  sk_description :: js_text
  sk_created :: "js_text option"
  sk_status :: skill_status
  sk_metadata :: "(js_text \<times> js_text) list option"
  sk_extra :: "(js_text \<times> js_text) list option"
  sk_body :: js_text

datatype skill_error = HeaderError header_error | EmptyBody | SchemaInvalid

definition ascii_units :: "js_text \<Rightarrow> string option" where
  "ascii_units us = (if list_all (\<lambda>u. u < 0x80) us then Some (map (\<lambda>u. char_of (unat u)) us) else None)"

definition skill_name_text :: "js_text \<Rightarrow> bool" where
  "skill_name_text us \<longleftrightarrow> (case ascii_units us of Some s \<Rightarrow> skill_name_ok s | None \<Rightarrow> False)"

definition digits_value :: "js_text \<Rightarrow> nat" where
  "digits_value = foldl (\<lambda>n u. n * 10 + (unat u - 48)) 0"

definition days_in_month :: "nat \<Rightarrow> nat \<Rightarrow> nat" where
  "days_in_month y m =
     (if m = 2 then (if y mod 4 = 0 \<and> (y mod 100 \<noteq> 0 \<or> y mod 400 = 0) then 29 else 28)
      else if m \<in> {4, 6, 9, 11} then 30 else 31)"

text \<open>A date that exists; \<open>Date.UTC\<close> reads a year below 100 as one of the twentieth century, so none round-trips.\<close>

definition skill_created_ok :: "js_text \<Rightarrow> bool" where
  "skill_created_ok us \<longleftrightarrow>
     length us = 10 \<and> us ! 4 = 0x2D \<and> us ! 7 = 0x2D \<and>
     list_all (\<lambda>u. 0x30 \<le> u \<and> u \<le> 0x39) (take 4 us @ take 2 (drop 5 us) @ drop 8 us) \<and>
     (let y = digits_value (take 4 us); m = digits_value (take 2 (drop 5 us)); d = digits_value (drop 8 us)
      in 100 \<le> y \<and> 1 \<le> m \<and> m \<le> 12 \<and> 1 \<le> d \<and> d \<le> days_in_month y m)"

definition scalar_keys :: "js_text list" where
  "scalar_keys = [js ''name'', js ''description'', js ''created'', js ''status'']"

definition defined_keys :: "js_text list" where
  "defined_keys = scalar_keys @ [js ''metadata'']"

definition discarded_keys :: "js_text list" where
  "discarded_keys = [js ''allowed-tools'']"

definition skill_description_max_chars :: nat where "skill_description_max_chars = 512"
definition shared_skill_description_max_chars :: nat where "shared_skill_description_max_chars = 1024"
definition skill_body_max_chars :: nat where "skill_body_max_chars = 4096"

text \<open>What the header's scalars and maps are as fields: the defined ones, and the rest in order.\<close>

definition header_field :: "header \<Rightarrow> js_text \<Rightarrow> js_text option" where
  "header_field header key = (if js_get (hd_maps header) key \<noteq> None then None else map_of (hd_scalars header) key)"

definition header_extra :: "header \<Rightarrow> (js_text \<times> js_text) list" where
  "header_extra header =
     filter (\<lambda>(key, _). key \<notin> set discarded_keys \<and> js_get (hd_maps header) key = None \<and> key \<notin> set defined_keys) (hd_scalars header)"

definition some_nonempty :: "'a list \<Rightarrow> 'a list option" where
  "some_nonempty xs = (if xs = [] then None else Some xs)"

definition parse_skill_file :: "bool \<Rightarrow> js_text \<Rightarrow> skill_error + skill_file" where
  "parse_skill_file shared body =
     (let lines = split_lines (uncrlf body)
      in case read_header lines of
          Inl e \<Rightarrow> Inl (HeaderError e)
        | Inr header \<Rightarrow>
            (case (header_field header (js ''name''), header_field header (js ''description''), header_field header (js ''created''),
                   header_field header (js ''status'')) of
               (Some name, Some description, created, status) \<Rightarrow>
                 if skill_name_text name \<and> description \<noteq> [] \<and>
                    length description \<le> (if shared then shared_skill_description_max_chars else skill_description_max_chars) \<and>
                    (case created of None \<Rightarrow> shared | Some c \<Rightarrow> skill_created_ok c) \<and>
                    (case status of None \<Rightarrow> True | Some st \<Rightarrow> status_of st \<noteq> None)
                 then
                   let content = js_trim (join_lines (drop (Suc (hd_close header)) lines))
                   in if content = [] then Inl EmptyBody
                      else Inr \<lparr>sk_name = name, sk_description = description, sk_created = created,
                                sk_status = (case status of None \<Rightarrow> SkillActive | Some st \<Rightarrow> the (status_of st)),
                                sk_metadata = Option.bind (js_get (hd_maps header) (js ''metadata'')) some_nonempty,
                                sk_extra = some_nonempty (header_extra header), sk_body = content\<rparr>
                 else Inl SchemaInvalid
             | _ \<Rightarrow> Inl SchemaInvalid))"

definition field_line :: "js_text \<Rightarrow> js_text \<Rightarrow> js_text" where
  "field_line key value = key @ js '': '' @ value"

definition scalar_lines :: "js_text \<Rightarrow> js_text \<Rightarrow> js_text list" where
  "scalar_lines key value =
     (if 0x0A \<notin> set value then [field_line key value]
      else field_line key (js ''|-'') # map (\<lambda>line. if line = [] then [] else js ''  '' @ line) (split_lines value))"

definition serialize_skill_file :: "skill_file \<Rightarrow> js_text" where
  "serialize_skill_file skill = join_lines
     ([fence, field_line (js ''name'') (sk_name skill)] @ scalar_lines (js ''description'') (sk_description skill) @
      (case sk_created skill of Some created \<Rightarrow> [field_line (js ''created'') created] | None \<Rightarrow> []) @
      [field_line (js ''status'') (status_text (sk_status skill))] @
      concat (map (\<lambda>(key, value). scalar_lines key value)
        (filter (\<lambda>(key, _). key \<notin> set defined_keys \<and> key \<notin> set discarded_keys) (case sk_extra skill of Some extra \<Rightarrow> extra | None \<Rightarrow> []))) @
      (case sk_metadata skill of
         Some (entry # entries) \<Rightarrow> js ''metadata:'' # map (\<lambda>(key, value). js ''  '' @ field_line key value) (entry # entries)
       | _ \<Rightarrow> []) @
      [fence, [], sk_body skill, []])"


subsection \<open>Lines\<close>

lemma split_lines_nonempty [simp]: "split_lines us \<noteq> []"
  by (induction us) (auto split: list.splits)

lemma split_lines_plain: "0x0A \<notin> set us \<Longrightarrow> split_lines us = [us]"
  by (induction us) auto

lemma split_lines_no_break: "line \<in> set (split_lines us) \<Longrightarrow> 0x0A \<notin> set line"
  by (induction us arbitrary: line) (auto split: list.splits if_splits)

lemma split_lines_append: "split_lines (us @ 0x0A # vs) = split_lines us @ split_lines vs"
  by (induction us) (auto split: list.splits)

lemma join_lines_Cons: "lines \<noteq> [] \<Longrightarrow> join_lines (line # lines) = line @ 0x0A # join_lines lines"
  by (cases lines) auto

lemma split_join_lines: "lines \<noteq> [] \<Longrightarrow> split_lines (join_lines lines) = concat (map split_lines lines)"
  by (induction lines rule: join_lines.induct) (auto simp: split_lines_append)

lemma join_split_lines: "join_lines (split_lines us) = us"
proof (induction us)
  case (Cons u us)
  then show ?case
    by (cases "split_lines us"; cases "tl (split_lines us)") (auto simp: join_lines_Cons)
qed simp

lemma uncrlf_id: "0x0D \<notin> set us \<Longrightarrow> uncrlf us = us"
  by (induction us rule: uncrlf.induct) auto

lemma set_join_lines: "set (join_lines lines) \<subseteq> insert 0x0A (\<Union> (set ` set lines))"
  by (induction lines rule: join_lines.induct) auto

subsection \<open>Trimming\<close>

lemma key_not_space: "key_unit u \<Longrightarrow> \<not> space_unit u"
proof
  assume key: "key_unit u" and space: "space_unit u"
  show False
  proof (cases "0x2000 \<le> u")
    case True
    have "\<not> u \<le> c" if "c < 0x2000" for c :: unit16
      using order_less_le_trans[OF that True] by (simp add: not_le)
    from this[of "0x7A"] this[of "0x5A"] this[of "0x39"] this[of "0x5F"] this[of "0x2D"]
    show False using key by (auto simp: key_unit_def letter_unit_def)
  next
    case False
    then show False using space key by (auto simp: space_unit_def key_unit_def letter_unit_def)
  qed
qed

lemma letter_key: "letter_unit u \<Longrightarrow> key_unit u"
  by (simp add: key_unit_def)

lemma key_not_colon [simp]: "\<not> key_unit 0x3A"
  by (simp add: key_unit_def letter_unit_def)

lemma blank_space: "blank_unit u \<Longrightarrow> space_unit u"
  by (auto simp: blank_unit_def space_unit_def)

lemma space_units [simp]: "space_unit 0x20" "space_unit 0x0A" "\<not> space_unit 0x3A" "\<not> space_unit 0x2D"
  by (simp_all add: space_unit_def)

lemma js_trim_Nil [simp]: "js_trim [] = []"
  by (simp add: js_trim_def)

lemma js_trim_space: "space_unit u \<Longrightarrow> js_trim (u # us) = js_trim us"
  by (simp add: js_trim_def)

definition trimmed :: "js_text \<Rightarrow> bool" where
  "trimmed us \<longleftrightarrow> us = [] \<or> \<not> space_unit (hd us) \<and> \<not> space_unit (last us)"

lemma js_trim_trimmed: "trimmed us \<Longrightarrow> js_trim us = us"
proof -
  assume t: "trimmed us"
  then have "dropWhile space_unit us = us" "dropWhile space_unit (rev us) = rev us"
    by (auto simp: trimmed_def dropWhile_eq_self_iff hd_rev)
  then show ?thesis by (simp add: js_trim_def)
qed

lemma last_dropWhile: "dropWhile P xs \<noteq> [] \<Longrightarrow> last (dropWhile P xs) = last xs"
  by (induction xs) auto

lemma trimmed_js_trim: "trimmed (js_trim us)"
proof -
  let ?ds = "dropWhile space_unit us" and ?es = "dropWhile space_unit (rev (dropWhile space_unit us))"
  show ?thesis
  proof (cases "?es = []")
    case False
    then have "\<not> space_unit (hd ?es)" by (rule hd_dropWhile)
    moreover have "last ?es = hd ?ds"
    proof -
      have "last ?es = last (rev ?ds)" using False by (rule last_dropWhile)
      also have "\<dots> = hd ?ds" using False by (simp add: last_rev)
      finally show ?thesis .
    qed
    moreover have "?ds \<noteq> []" using False by (metis dropWhile.simps(1) rev.simps(1))
    then have "\<not> space_unit (hd ?ds)" by (rule hd_dropWhile)
    ultimately show ?thesis using False by (simp add: trimmed_def js_trim_def hd_rev last_rev)
  qed (simp add: js_trim_def trimmed_def)
qed

lemma js_trim_eq: "js_trim us = us \<longleftrightarrow> trimmed us"
  using js_trim_trimmed trimmed_js_trim by metis

text \<open>What is left of a line that starts with no space starts the same way.\<close>

lemma js_trim_start: "us \<noteq> [] \<Longrightarrow> \<not> space_unit (hd us) \<Longrightarrow> js_trim us \<noteq> [] \<and> hd (js_trim us) = hd us"
proof -
  assume us: "us \<noteq> []" "\<not> space_unit (hd us)"
  then have d: "dropWhile space_unit us = us" by (simp add: dropWhile_eq_self_iff)
  let ?es = "dropWhile space_unit (rev us)"
  have ne: "?es \<noteq> []" using us by (metis dropWhile_eq_Nil_conv hd_in_set set_rev)
  have "last ?es = last (rev us)" using ne by (rule last_dropWhile)
  also have "\<dots> = hd us" using us(1) by (simp add: last_rev)
  finally show ?thesis using ne d by (simp add: js_trim_def hd_rev)
qed

lemma js_trim_around: "trimmed us \<Longrightarrow> us \<noteq> [] \<Longrightarrow> js_trim (0x0A # us @ [0x0A]) = us"
proof -
  assume us: "trimmed us" "us \<noteq> []"
  have "dropWhile space_unit (us @ [0x0A]) = us @ [0x0A]" using us by (auto simp: dropWhile_eq_self_iff trimmed_def)
  moreover have "dropWhile space_unit (rev us) = rev us" using us by (auto simp: dropWhile_eq_self_iff trimmed_def hd_rev)
  ultimately show ?thesis by (simp add: js_trim_def)
qed

subsection \<open>One field\<close>

definition key_ok :: "js_text \<Rightarrow> bool" where
  "key_ok key \<longleftrightarrow> key \<noteq> [] \<and> letter_unit (hd key) \<and> list_all key_unit key"

text \<open>A value a single line carries, and one a literal block carries.\<close>

definition line_value :: "js_text \<Rightarrow> bool" where
  "line_value v \<longleftrightarrow> trimmed v \<and> list_all (\<lambda>u. \<not> line_terminator u) v \<and>
     \<not> (2 \<le> length v \<and> hd v \<in> {0x22, 0x27} \<and> last v = hd v)"

definition block_content :: "js_text \<Rightarrow> bool" where
  "block_content v \<longleftrightarrow> trimmed v \<and> v \<noteq> [] \<and> list_all (\<lambda>line. js_trim line \<noteq> fence) (split_lines v)"

definition block_text :: "js_text \<Rightarrow> bool" where
  "block_text v \<longleftrightarrow> block_content v \<and> 0x0A \<in> set v \<and> 0x0D \<notin> set v"

lemma unquote_line_value: "line_value v \<Longrightarrow> unquote v = v"
  by (auto simp: unquote_def line_value_def js_trim_trimmed Let_def)

lemma fence_hd: "us \<noteq> [] \<Longrightarrow> letter_unit (hd us) \<Longrightarrow> us \<noteq> fence"
  by (auto simp: fence_def js_def letter_unit_def)

lemma letter_line:
  assumes "line \<noteq> []" "letter_unit (hd line)"
  shows "js_trim line \<noteq> []" "js_trim line \<noteq> fence" "\<not> starts_blank line" "\<not> in_block line"
proof -
  have "\<not> space_unit (hd line)" using assms(2) letter_key key_not_space by blast
  then have t: "js_trim line \<noteq> []" "hd (js_trim line) = hd line" using js_trim_start assms(1) by auto
  show "js_trim line \<noteq> []" by (rule t(1))
  show "js_trim line \<noteq> fence" using fence_hd[OF t(1)] t(2) assms(2) by simp
  show "\<not> starts_blank line" using \<open>\<not> space_unit (hd line)\<close> blank_space by (auto simp: starts_blank_def)
  then show "\<not> in_block line" using t(1) by (auto simp: in_block_def)
qed

lemma frontmatter_line_field:
  assumes "key_ok key" "trimmed v" "list_all (\<lambda>u. \<not> line_terminator u) v"
  shows "frontmatter_line (field_line key v) = Some (key, v)"
proof -
  have key: "takeWhile key_unit (field_line key v) = key" "dropWhile key_unit (field_line key v) = js '': '' @ v"
    using assms(1) by (auto simp: field_line_def key_ok_def js_def takeWhile_append dropWhile_append list_all_iff)
  have "dropWhile space_unit v = v" using assms(2) by (auto simp: trimmed_def dropWhile_eq_self_iff)
  then show ?thesis using assms(1,3) key
    by (simp add: frontmatter_line_def Let_def) (auto simp: js_def key_ok_def field_line_def)
qed

lemma indicator_not_first: "js_trim (js ''|-'') = js ''|-''"
  by (rule js_trim_trimmed) (simp add: trimmed_def js_def space_unit_def)

text \<open>The line of a field, before a line no block takes in.\<close>

definition ends_block :: "js_text list \<Rightarrow> bool" where
  "ends_block lines \<longleftrightarrow> lines \<noteq> [] \<and> \<not> in_block (hd lines)"

lemma field_line_starts: "key_ok key \<Longrightarrow> field_line key v \<noteq> [] \<and> letter_unit (hd (field_line key v))"
  by (auto simp: field_line_def key_ok_def)

lemma read_field_line:
  assumes key: "key_ok key" "key \<notin> set (map fst scalars)" and v: "line_value v" and rest: "ends_block lines"
  shows "read_lines index (field_line key v # lines) scalars maps opened =
    read_lines (Suc index) lines (scalars @ [(key, v)]) maps (if v = [] then Some key else None)"
proof -
  note line = letter_line[of "field_line key v"]
  have "frontmatter_line (field_line key v) = Some (key, v)"
    using v by (intro frontmatter_line_field[OF key(1)]) (auto simp: line_value_def)
  moreover have "takeWhile in_block lines = []" using rest by (cases lines) (auto simp: ends_block_def)
  ultimately show ?thesis
    using line field_line_starts[OF key(1), of v] key(2) unquote_line_value[OF v] by (simp add: Let_def)
qed

definition indent_line :: "js_text \<Rightarrow> js_text" where
  "indent_line line = (if line = [] then [] else js ''  '' @ line)"

lemma indent_line_in_block: "js_trim line \<noteq> fence \<Longrightarrow> in_block (indent_line line)"
  by (auto simp: indent_line_def in_block_def js_def js_trim_space starts_blank_def blank_unit_def fence_def)

lemma strip_indent_lines: "strip_indent (js ''  '') offset (map indent_line lines) = Inr lines"
  by (induction lines arbitrary: offset) (auto simp: indent_line_def js_def)

lemma split_lines_hd: "us \<noteq> [] \<Longrightarrow> hd us \<noteq> 0x0A \<Longrightarrow> hd (split_lines us) \<noteq> [] \<and> hd (hd (split_lines us)) = hd us"
  by (cases us) (auto split: list.splits)

lemma read_block:
  assumes key: "key_ok key" "key \<notin> set (map fst scalars)" and v: "block_content v" and rest: "ends_block lines"
  shows "read_lines index (field_line key (js ''|-'') # map indent_line (split_lines v) @ lines) scalars maps opened =
    read_lines (index + 1 + length (split_lines v)) lines (scalars @ [(key, v)]) maps None"
proof -
  let ?line = "field_line key (js ''|-'')" and ?block = "map indent_line (split_lines v)"
  note line = letter_line[of ?line]
  have fm: "frontmatter_line ?line = Some (key, js ''|-'')"
    by (intro frontmatter_line_field[OF key(1)]) (auto simp: trimmed_def js_def space_unit_def line_terminator_def)
  have all: "list_all in_block ?block" using v by (auto simp: block_content_def list_all_iff intro: indent_line_in_block)
  then have blk: "takeWhile in_block (?block @ lines) = ?block" "dropWhile in_block (?block @ lines) = lines"
    using rest by (cases lines; auto simp: ends_block_def list_all_iff takeWhile_append dropWhile_append)+
  have v0: "v \<noteq> []" "\<not> space_unit (hd v)" "trimmed v" using v by (auto simp: block_content_def trimmed_def)
  then have "hd v \<noteq> 0x0A" by auto
  then have h: "hd (split_lines v) \<noteq> []" "hd (hd (split_lines v)) = hd v" using split_lines_hd v0(1) by auto
  obtain l ls where ls: "split_lines v = l # ls" by (cases "split_lines v") auto
  have l: "l \<noteq> []" "\<not> space_unit (hd l)" using h v0(2) ls by auto
  have first: "find (\<lambda>entry. js_trim entry \<noteq> []) ?block = Some (indent_line l)"
    using js_trim_start[OF l] l(1) ls by (simp add: indent_line_def js_def js_trim_space)
  have indent: "takeWhile blank_unit (indent_line l) = js ''  ''"
    using l blank_space by (cases l) (auto simp: indent_line_def js_def blank_unit_def)
  have content: "js_trim (block_value (js ''|-'') (split_lines v)) = v"
    using js_trim_trimmed[OF v0(3)] by (simp add: block_value_def js_def join_split_lines)
  have ind: "js ''|-'' \<in> set block_indicators" by (simp add: block_indicators_def)
  show ?thesis
    using line field_line_starts[OF key(1), of "js ''|-''"] key(2)
    by (simp add: fm blk first indent strip_indent_lines content indicator_not_first ind Let_def)
qed

definition value_ok :: "js_text \<Rightarrow> bool" where
  "value_ok v \<longleftrightarrow> line_value v \<or> block_text v"

lemma scalar_lines_cases:
  "0x0A \<notin> set v \<Longrightarrow> scalar_lines key v = [field_line key v]"
  "0x0A \<in> set v \<Longrightarrow> scalar_lines key v = field_line key (js ''|-'') # map indent_line (split_lines v)"
  by (simp_all add: scalar_lines_def indent_line_def)

lemma line_value_break: "line_value v \<Longrightarrow> 0x0A \<notin> set v"
  by (auto simp: line_value_def list_all_iff line_terminator_def)

lemma read_scalar:
  assumes "key_ok key" "key \<notin> set (map fst scalars)" "value_ok v" "ends_block lines"
  shows "\<exists>opened'. read_lines index (scalar_lines key v @ lines) scalars maps opened =
    read_lines (index + length (scalar_lines key v)) lines (scalars @ [(key, v)]) maps opened'"
proof (cases "line_value v")
  case True
  then show ?thesis using read_field_line[OF assms(1,2) True assms(4)] scalar_lines_cases(1)[OF line_value_break[OF True]]
    by (auto simp del: read_lines.simps)
next
  case False
  then have b: "block_text v" using assms(3) by (simp add: value_ok_def)
  then have "0x0A \<in> set v" by (simp add: block_text_def)
  have "block_content v" using b by (simp add: block_text_def)
  then show ?thesis using read_block[OF assms(1,2) _ assms(4)] \<open>0x0A \<in> set v\<close> scalar_lines_cases(2)[of v key]
    by (auto simp del: read_lines.simps)
qed

lemma scalar_lines_end_block: "key_ok key \<Longrightarrow> ends_block (scalar_lines key v @ lines)"
  using letter_line(4) field_line_starts by (auto simp: ends_block_def scalar_lines_def)

lemma read_scalars:
  assumes "list_all (\<lambda>(k, v). key_ok k \<and> value_ok v) kvs" "distinct (map fst (scalars @ kvs))" "ends_block lines"
  shows "\<exists>opened'. read_lines index (concat (map (\<lambda>(k, v). scalar_lines k v) kvs) @ lines) scalars maps opened =
    read_lines (index + length (concat (map (\<lambda>(k, v). scalar_lines k v) kvs))) lines (scalars @ kvs) maps opened'"
  using assms
proof (induction kvs arbitrary: index scalars opened)
  case Nil
  then show ?case by auto
next
  case (Cons kv kvs)
  obtain k v where kv: "kv = (k, v)" by (cases kv)
  let ?rest = "concat (map (\<lambda>(k, v). scalar_lines k v) kvs) @ lines"
  have rest: "ends_block ?rest"
    using Cons.prems(1,3) scalar_lines_end_block by (cases kvs) (auto split: prod.splits)
  obtain o1 where one: "read_lines index (scalar_lines k v @ ?rest) scalars maps opened =
      read_lines (index + length (scalar_lines k v)) ?rest (scalars @ [(k, v)]) maps o1"
    using read_scalar[of k scalars v ?rest index maps opened] Cons.prems rest kv by auto
  obtain o2 where two: "read_lines (index + length (scalar_lines k v)) ?rest (scalars @ [(k, v)]) maps o1 =
      read_lines (index + length (scalar_lines k v) + length (concat (map (\<lambda>(k, v). scalar_lines k v) kvs))) lines
        ((scalars @ [(k, v)]) @ kvs) maps o2"
    using Cons.IH[of "scalars @ [(k, v)]" "index + length (scalar_lines k v)" o1] Cons.prems kv by auto
  show ?case using one two kv by (auto simp del: read_lines.simps simp: add.assoc)
qed

subsection \<open>The map\<close>

lemma read_map_line:
  assumes "key_ok key" "line_value v" "key \<notin> set (map fst (case js_get maps owner of Some m \<Rightarrow> m | None \<Rightarrow> []))"
  shows "read_lines index ((js ''  '' @ field_line key v) # lines) scalars maps (Some owner) =
    read_lines (Suc index) lines scalars
      (js_set owner ((case js_get maps owner of Some m \<Rightarrow> m | None \<Rightarrow> []) @ [(key, v)]) maps) (Some owner)"
proof -
  let ?line = "js ''  '' @ field_line key v"
  have start: "field_line key v \<noteq> []" "letter_unit (hd (field_line key v))" using field_line_starts[OF assms(1)] by auto
  have blank: "starts_blank ?line" by (simp add: starts_blank_def js_def blank_unit_def)
  have trim: "js_trim ?line = js_trim (field_line key v)" by (simp add: js_def js_trim_space)
  have "dropWhile blank_unit ?line = field_line key v"
    using start letter_key key_not_space blank_space
    by (cases "field_line key v") (auto simp: js_def blank_unit_def)
  then have "indented_line ?line = Some (key, v)"
    using blank assms(1,2) frontmatter_line_field[of key v] by (simp add: indented_line_def line_value_def)
  then show ?thesis
    using blank trim letter_line[OF start] assms(3) unquote_line_value[OF assms(2)] by (simp add: Let_def)
qed

definition map_lines :: "(js_text \<times> js_text) list \<Rightarrow> js_text list" where
  "map_lines kvs = map (\<lambda>(k, v). js ''  '' @ field_line k v) kvs"

lemma read_map:
  assumes "list_all (\<lambda>(k, v). key_ok k \<and> line_value v) kvs" "distinct (map fst (kvs0 @ kvs))" "kvs0 @ kvs \<noteq> []"
  shows "read_lines index (map_lines kvs @ lines) scalars (if kvs0 = [] then [] else [(owner, kvs0)]) (Some owner) =
    read_lines (index + length kvs) lines scalars [(owner, kvs0 @ kvs)] (Some owner)"
  using assms
proof (induction kvs arbitrary: index kvs0)
  case Nil
  then show ?case by (simp add: map_lines_def)
next
  case (Cons kv kvs)
  obtain k v where kv: "kv = (k, v)" by (cases kv)
  let ?maps = "if kvs0 = [] then [] else [(owner, kvs0)]"
  have now: "(case js_get ?maps owner of Some m \<Rightarrow> m | None \<Rightarrow> []) = kvs0" "js_set owner (kvs0 @ [(k, v)]) ?maps = [(owner, kvs0 @ [(k, v)])]"
    by auto
  have "read_lines index (map_lines (kv # kvs) @ lines) scalars ?maps (Some owner) =
      read_lines (Suc index) (map_lines kvs @ lines) scalars [(owner, kvs0 @ [(k, v)])] (Some owner)"
    using read_map_line[of k v ?maps owner index "map_lines kvs @ lines" scalars] Cons.prems kv now
    by (simp add: map_lines_def del: read_lines.simps)
  also have "\<dots> = read_lines (Suc index + length kvs) lines scalars [(owner, (kvs0 @ [(k, v)]) @ kvs)] (Some owner)"
    using Cons.IH[of "kvs0 @ [(k, v)]" "Suc index"] Cons.prems kv by (simp del: read_lines.simps)
  finally show ?case using kv by (simp del: read_lines.simps)
qed

lemma metadata_key: "key_ok (js ''metadata'')" "js ''metadata:'' = js ''metadata'' @ [0x3A]"
  by (simp_all add: key_ok_def js_def letter_unit_def key_unit_def)

lemma read_metadata:
  assumes "list_all (\<lambda>(k, v). key_ok k \<and> line_value v) kvs" "distinct (map fst kvs)" "kvs \<noteq> []"
    and "js ''metadata'' \<notin> set (map fst scalars)" "ends_block lines"
  shows "read_lines index (js ''metadata:'' # map_lines kvs @ lines) scalars [] opened =
    read_lines (index + 1 + length kvs) lines (scalars @ [(js ''metadata'', [])]) [(js ''metadata'', kvs)] (Some (js ''metadata''))"
proof -
  have start: "js ''metadata:'' \<noteq> []" "letter_unit (hd (js ''metadata:''))" by (simp_all add: js_def letter_unit_def)
  have fm: "frontmatter_line (js ''metadata:'') = Some (js ''metadata'', [])"
    by (simp add: frontmatter_line_def js_def letter_unit_def key_unit_def Let_def)
  have ind: "[] \<notin> set block_indicators" by (simp add: block_indicators_def js_def)
  have "read_lines index (js ''metadata:'' # map_lines kvs @ lines) scalars [] opened =
      read_lines (Suc index) (map_lines kvs @ lines) (scalars @ [(js ''metadata'', [])]) [] (Some (js ''metadata''))"
    using letter_line[OF start] assms(4) by (simp add: fm ind unquote_def Let_def)
  then show ?thesis using read_map[OF assms(1), of "[]" "Suc index" lines "scalars @ [(js ''metadata'', [])]" "js ''metadata''"] assms(2,3)
    by (simp del: read_lines.simps)
qed

subsection \<open>The round trip\<close>

definition skill_scalars :: "skill_file \<Rightarrow> (js_text \<times> js_text) list" where
  "skill_scalars skill =
     [(js ''name'', sk_name skill), (js ''description'', sk_description skill)] @
     (case sk_created skill of Some created \<Rightarrow> [(js ''created'', created)] | None \<Rightarrow> []) @
     [(js ''status'', status_text (sk_status skill))] @ (case sk_extra skill of Some extra \<Rightarrow> extra | None \<Rightarrow> [])"

definition skill_map :: "skill_file \<Rightarrow> (js_text \<times> js_text) list" where
  "skill_map skill = (case sk_metadata skill of Some kvs \<Rightarrow> kvs | None \<Rightarrow> [])"

definition skill_map_lines :: "skill_file \<Rightarrow> js_text list" where
  "skill_map_lines skill = (if skill_map skill = [] then [] else js ''metadata:'' # map_lines (skill_map skill))"

text \<open>
  A skill the format holds: the schema's bounds, and values a line or a literal block carries. A value of
  one line is trimmed, has no other line terminator, and is not itself in quotes.
\<close>

definition skill_writable :: "bool \<Rightarrow> skill_file \<Rightarrow> bool" where
  "skill_writable shared skill \<longleftrightarrow>
     skill_name_text (sk_name skill) \<and> line_value (sk_name skill) \<and>
     sk_description skill \<noteq> [] \<and> value_ok (sk_description skill) \<and>
     length (sk_description skill) \<le> (if shared then shared_skill_description_max_chars else skill_description_max_chars) \<and>
     (case sk_created skill of None \<Rightarrow> shared | Some c \<Rightarrow> skill_created_ok c \<and> line_value c) \<and>
     (case sk_extra skill of None \<Rightarrow> True | Some kvs \<Rightarrow> kvs \<noteq> [] \<and> distinct (map fst kvs) \<and>
        list_all (\<lambda>(k, v). key_ok k \<and> value_ok v \<and> k \<notin> set defined_keys \<and> k \<notin> set discarded_keys) kvs) \<and>
     (case sk_metadata skill of None \<Rightarrow> True | Some kvs \<Rightarrow> kvs \<noteq> [] \<and> distinct (map fst kvs) \<and>
        list_all (\<lambda>(k, v). key_ok k \<and> line_value v) kvs) \<and>
     trimmed (sk_body skill) \<and> sk_body skill \<noteq> [] \<and> 0x0D \<notin> set (sk_body skill)"

lemma field_keys_ok [simp]: "key_ok (js ''name'')" "key_ok (js ''description'')" "key_ok (js ''created'')" "key_ok (js ''status'')"
  by (simp_all add: key_ok_def js_def letter_unit_def key_unit_def)

lemma status_text_value [simp]: "line_value (status_text st)"
  by (cases st) (auto simp: line_value_def trimmed_def js_def space_unit_def line_terminator_def)

lemma status_of_text [simp]: "status_of (status_text st) = Some st"
  by (cases st) (auto simp: status_of_def js_def)

lemma field_keys_distinct [simp]:
  "js ''name'' \<noteq> js ''description''" "js ''name'' \<noteq> js ''created''" "js ''name'' \<noteq> js ''status''" "js ''name'' \<noteq> js ''metadata''"
  "js ''description'' \<noteq> js ''name''" "js ''description'' \<noteq> js ''created''" "js ''description'' \<noteq> js ''status''" "js ''description'' \<noteq> js ''metadata''"
  "js ''created'' \<noteq> js ''name''" "js ''created'' \<noteq> js ''description''" "js ''created'' \<noteq> js ''status''" "js ''created'' \<noteq> js ''metadata''"
  "js ''status'' \<noteq> js ''name''" "js ''status'' \<noteq> js ''description''" "js ''status'' \<noteq> js ''created''" "js ''status'' \<noteq> js ''metadata''"
  "js ''metadata'' \<noteq> js ''name''" "js ''metadata'' \<noteq> js ''description''" "js ''metadata'' \<noteq> js ''created''" "js ''metadata'' \<noteq> js ''status''"
  by (simp_all add: js_def)

lemma defined_key_sets: "set defined_keys = {js ''name'', js ''description'', js ''created'', js ''status'', js ''metadata''}"
  by (auto simp: defined_keys_def scalar_keys_def)

lemma skill_scalars_ok:
  assumes "skill_writable shared skill"
  shows "list_all (\<lambda>(k, v). key_ok k \<and> value_ok v) (skill_scalars skill)" "distinct (map fst (skill_scalars skill))"
    "js ''metadata'' \<notin> set (map fst (skill_scalars skill))"
proof -
  define extra where "extra = (case sk_extra skill of Some kvs \<Rightarrow> kvs | None \<Rightarrow> [])"
  define created where "created = (case sk_created skill of Some c \<Rightarrow> [(js ''created'', c)] | None \<Rightarrow> [])"
  have scalars: "skill_scalars skill = [(js ''name'', sk_name skill), (js ''description'', sk_description skill)] @ created @
      [(js ''status'', status_text (sk_status skill))] @ extra"
    by (simp add: skill_scalars_def extra_def created_def)
  have extra: "list_all (\<lambda>(k, v). key_ok k \<and> value_ok v) extra" "distinct (map fst extra)"
      "\<forall>k \<in> set (map fst extra). k \<notin> set defined_keys"
    using assms by (auto simp: skill_writable_def extra_def list_all_iff split: option.splits)
  have created: "list_all (\<lambda>(k, v). key_ok k \<and> value_ok v) created" "distinct (map fst created)"
      "set (map fst created) \<subseteq> {js ''created''}"
    using assms by (auto simp: skill_writable_def created_def value_ok_def split: option.splits)
  have plain: "value_ok (sk_name skill)" "value_ok (sk_description skill)" "value_ok (status_text (sk_status skill))"
    using assms by (auto simp: skill_writable_def value_ok_def)
  show "list_all (\<lambda>(k, v). key_ok k \<and> value_ok v) (skill_scalars skill)"
    unfolding scalars using extra(1) created(1) plain by simp
  have no: "js ''name'' \<notin> set (map fst extra)" "js ''description'' \<notin> set (map fst extra)" "js ''created'' \<notin> set (map fst extra)"
      "js ''status'' \<notin> set (map fst extra)" "js ''metadata'' \<notin> set (map fst extra)"
    using extra(3) unfolding defined_key_sets by blast+
  have only: "k \<in> set (map fst created) \<Longrightarrow> k = js ''created''" for k using created(3) by blast
  have apart: "set (map fst created) \<inter> set (map fst extra) = {}" using only no(3) by blast
  have c: "js ''name'' \<notin> set (map fst created)" "js ''description'' \<notin> set (map fst created)" "js ''status'' \<notin> set (map fst created)"
      "js ''metadata'' \<notin> set (map fst created)"
    using only field_keys_distinct by metis+
  show "distinct (map fst (skill_scalars skill))"
    unfolding scalars using extra(2) created(2) no c apart by (simp del: set_map)
  show "js ''metadata'' \<notin> set (map fst (skill_scalars skill))"
    unfolding scalars using no(5) c(4) by (simp del: set_map)
qed

lemma serialize_lines:
  assumes "skill_writable shared skill"
  shows "serialize_skill_file skill = join_lines (fence # concat (map (\<lambda>(k, v). scalar_lines k v) (skill_scalars skill)) @
    skill_map_lines skill @ [fence, [], sk_body skill, []])"
proof -
  have one: "line_value v \<Longrightarrow> scalar_lines k v = [field_line k v]" for k v
    using scalar_lines_cases(1) line_value_break by blast
  have extra: "filter (\<lambda>(key, _). key \<notin> set defined_keys \<and> key \<notin> set discarded_keys) kvs = kvs"
    if "sk_extra skill = Some kvs" for kvs
    using assms that by (auto simp: skill_writable_def list_all_iff intro!: filter_True)
  have meta: "(case sk_metadata skill of
         Some (entry # entries) \<Rightarrow> js ''metadata:'' # map (\<lambda>(key, value). js ''  '' @ field_line key value) (entry # entries)
       | _ \<Rightarrow> []) = skill_map_lines skill"
    by (auto simp: skill_map_lines_def skill_map_def map_lines_def split: option.splits list.splits)
  have "line_value (sk_name skill)" and "\<And>c. sk_created skill = Some c \<Longrightarrow> line_value c"
    using assms by (auto simp: skill_writable_def)
  then show ?thesis
    unfolding serialize_skill_file_def meta
    by (cases "sk_created skill"; cases "sk_extra skill") (simp_all add: skill_scalars_def one extra)
qed

lemma line_value_units: "line_value v \<Longrightarrow> u \<in> set v \<Longrightarrow> u \<noteq> 0x0A \<and> u \<noteq> 0x0D"
  by (auto simp: line_value_def list_all_iff line_terminator_def)

lemma key_ok_units: "key_ok k \<Longrightarrow> u \<in> set k \<Longrightarrow> u \<noteq> 0x0A \<and> u \<noteq> 0x0D"
  using key_not_space by (fastforce simp: key_ok_def list_all_iff space_unit_def)

definition no_breaks :: "js_text \<Rightarrow> bool" where
  "no_breaks line \<longleftrightarrow> 0x0A \<notin> set line \<and> 0x0D \<notin> set line"

lemma field_line_no_breaks: "key_ok k \<Longrightarrow> line_value v \<Longrightarrow> no_breaks (field_line k v)"
  using key_ok_units line_value_units by (auto simp: no_breaks_def field_line_def js_def)

lemma split_lines_units: "line \<in> set (split_lines us) \<Longrightarrow> set line \<subseteq> set us"
  by (induction us arbitrary: line) (auto split: list.splits if_splits, blast+)

lemma scalar_lines_no_breaks: "key_ok k \<Longrightarrow> value_ok v \<Longrightarrow> list_all no_breaks (scalar_lines k v)"
proof (cases "line_value v")
  case True
  then show "key_ok k \<Longrightarrow> list_all no_breaks (scalar_lines k v)"
    using field_line_no_breaks scalar_lines_cases(1) line_value_break by simp
next
  case False
  assume k: "key_ok k" and "value_ok v"
  then have b: "block_text v" using False by (simp add: value_ok_def)
  have "no_breaks (field_line k (js ''|-''))" using key_ok_units[OF k] by (auto simp: no_breaks_def field_line_def js_def)
  moreover have "no_breaks (indent_line line)" if "line \<in> set (split_lines v)" for line
    using split_lines_no_break[OF that] split_lines_units[OF that] b by (auto simp: no_breaks_def indent_line_def js_def block_text_def)
  ultimately show ?thesis using scalar_lines_cases(2)[of v k] b by (simp add: block_text_def list_all_iff)
qed

lemma header_lines_no_breaks:
  assumes "skill_writable shared skill"
  shows "list_all no_breaks (fence # concat (map (\<lambda>(k, v). scalar_lines k v) (skill_scalars skill)) @ skill_map_lines skill @ [fence, []])"
proof -
  have "list_all no_breaks (concat (map (\<lambda>(k, v). scalar_lines k v) kvs))"
    if "list_all (\<lambda>(k, v). key_ok k \<and> value_ok v) kvs" for kvs
    using that scalar_lines_no_breaks by (induction kvs) auto
  moreover have "no_breaks fence" "no_breaks (js ''metadata:'')" "no_breaks []" by (simp_all add: no_breaks_def fence_def js_def)
  moreover have "no_breaks (js ''  '' @ field_line k v)" if "key_ok k" "line_value v" for k v
    using field_line_no_breaks[OF that] by (simp add: no_breaks_def js_def)
  then have "list_all no_breaks (map_lines (skill_map skill))"
    using assms by (auto simp: map_lines_def skill_map_def skill_writable_def list_all_iff split: option.splits)
  ultimately show ?thesis using skill_scalars_ok(1)[OF assms] by (simp add: skill_map_lines_def)
qed

lemma read_serialized_header:
  assumes "skill_writable shared skill"
  shows "read_header (fence # concat (map (\<lambda>(k, v). scalar_lines k v) (skill_scalars skill)) @ skill_map_lines skill @ fence # tail) =
    Inr \<lparr>hd_scalars = skill_scalars skill @ (if skill_map skill = [] then [] else [(js ''metadata'', [])]),
      hd_maps = (if skill_map skill = [] then [] else [(js ''metadata'', skill_map skill)]),
      hd_close = Suc (length (concat (map (\<lambda>(k, v). scalar_lines k v) (skill_scalars skill)) @ skill_map_lines skill))\<rparr>"
proof -
  let ?S = "concat (map (\<lambda>(k, v). scalar_lines k v) (skill_scalars skill))"
  note scalars = skill_scalars_ok[OF assms]
  have fence: "js_trim fence = fence" "ends_block (fence # tail)"
    by (simp_all add: js_trim_trimmed trimmed_def fence_def js_def ends_block_def in_block_def space_unit_def)
  have "ends_block (skill_map_lines skill @ fence # tail)"
  proof (cases "skill_map skill = []")
    case True
    then show ?thesis using fence(2) by (simp add: skill_map_lines_def)
  next
    case False
    have "js ''metadata:'' \<noteq> []" "letter_unit (hd (js ''metadata:''))" by (simp_all add: js_def letter_unit_def)
    then show ?thesis using False letter_line(4) by (simp add: skill_map_lines_def ends_block_def)
  qed
  then obtain o1 where one: "read_lines 1 (?S @ skill_map_lines skill @ fence # tail) [] [] None =
      read_lines (1 + length ?S) (skill_map_lines skill @ fence # tail) (skill_scalars skill) [] o1"
    using read_scalars[of "skill_scalars skill" "[]" "skill_map_lines skill @ fence # tail" 1 "[]" None] scalars(1,2)
    by (auto simp del: read_lines.simps)
  have two: "read_lines (1 + length ?S) (skill_map_lines skill @ fence # tail) (skill_scalars skill) [] o1 =
      Inr \<lparr>hd_scalars = skill_scalars skill @ (if skill_map skill = [] then [] else [(js ''metadata'', [])]),
        hd_maps = (if skill_map skill = [] then [] else [(js ''metadata'', skill_map skill)]),
        hd_close = Suc (length (?S @ skill_map_lines skill))\<rparr>"
  proof (cases "skill_map skill = []")
    case True
    then show ?thesis using fence by (simp add: skill_map_lines_def)
  next
    case False
    have "list_all (\<lambda>(k, v). key_ok k \<and> line_value v) (skill_map skill)" "distinct (map fst (skill_map skill))"
      using assms by (auto simp: skill_map_def skill_writable_def split: option.splits)
    from read_metadata[OF this False scalars(3) fence(2), of "1 + length ?S" o1]
    show ?thesis using False fence(1) by (simp add: skill_map_lines_def map_lines_def)
  qed
  show ?thesis using one two fence(1) by (simp add: read_header_def del: read_lines.simps)
qed

text \<open>The fields read back.\<close>

lemma map_of_skill_scalars:
  assumes "skill_writable shared skill"
  shows "map_of (skill_scalars skill @ tail) (js ''name'') = Some (sk_name skill)"
    "map_of (skill_scalars skill @ tail) (js ''description'') = Some (sk_description skill)"
    "map_of (skill_scalars skill @ tail) (js ''status'') = Some (status_text (sk_status skill))"
  by (auto simp: skill_scalars_def split: option.splits)

lemma map_of_skill_created:
  assumes "skill_writable shared skill" "js ''created'' \<notin> fst ` set tail"
  shows "map_of (skill_scalars skill @ tail) (js ''created'') = sk_created skill"
proof -
  have "js ''created'' \<notin> fst ` set (case sk_extra skill of Some extra \<Rightarrow> extra | None \<Rightarrow> [])"
    using assms(1) by (auto simp: skill_writable_def defined_key_sets list_all_iff split: option.splits)
  then have "map_of (case sk_extra skill of Some extra \<Rightarrow> extra | None \<Rightarrow> []) (js ''created'') = None"
    by (simp add: map_of_eq_None_iff)
  moreover have "map_of tail (js ''created'') = None" using assms(2) by (simp add: map_of_eq_None_iff)
  ultimately show ?thesis by (cases "sk_created skill") (simp_all add: skill_scalars_def map_add_def)
qed

lemma header_extra_skill:
  assumes "skill_writable shared skill" "maps = [] \<or> maps = [(js ''metadata'', kvs)]" "tail = [] \<or> tail = [(js ''metadata'', [])]"
  shows "header_extra \<lparr>hd_scalars = skill_scalars skill @ tail, hd_maps = maps, hd_close = n\<rparr> =
    (case sk_extra skill of Some extra \<Rightarrow> extra | None \<Rightarrow> [])"
proof -
  define keep where "keep = (\<lambda>kv :: js_text \<times> js_text. fst kv \<notin> set discarded_keys \<and> js_get maps (fst kv) = None \<and> fst kv \<notin> set defined_keys)"
  have drop: "\<not> keep (js ''name'', v)" "\<not> keep (js ''description'', v)" "\<not> keep (js ''created'', v)" "\<not> keep (js ''status'', v)"
      "\<not> keep (js ''metadata'', v)" for v :: js_text
    by (simp_all add: defined_key_sets keep_def)
  have extra: "filter keep extra = extra" if "sk_extra skill = Some extra" for extra
  proof (rule filter_True, rule ballI)
    fix kv assume "kv \<in> set extra"
    then have "fst kv \<notin> set defined_keys" "fst kv \<notin> set discarded_keys"
      using assms(1) that by (auto simp: skill_writable_def list_all_iff)
    moreover from this have "js_get maps (fst kv) = None" using assms(2) by (auto simp: defined_key_sets)
    ultimately show "keep kv" by (simp add: keep_def)
  qed
  have "header_extra \<lparr>hd_scalars = skill_scalars skill @ tail, hd_maps = maps, hd_close = n\<rparr> = filter keep (skill_scalars skill @ tail)"
    by (simp add: header_extra_def keep_def case_prod_unfold)
  then show ?thesis using assms(3) extra
    by (cases "sk_created skill"; cases "sk_extra skill") (auto simp: skill_scalars_def drop)
qed

lemma join_lines_no_cr: "list_all no_breaks ls \<Longrightarrow> 0x0D \<notin> set b \<Longrightarrow> 0x0D \<notin> set (join_lines (ls @ [b, []]))"
  using set_join_lines[of "ls @ [b, []]"] by (auto simp: list_all_iff no_breaks_def)

text \<open>
  C36. Writing a skill and reading it back gives the skill: every field, the keys the format does not define,
  the map and the body, for values that a line or a literal block carries.
\<close>

theorem skill_file_round_trip:
  assumes "skill_writable shared skill"
  shows "parse_skill_file shared (serialize_skill_file skill) = Inr skill"
proof -
  let ?S = "concat (map (\<lambda>(k, v). scalar_lines k v) (skill_scalars skill))"
  let ?H = "fence # ?S @ skill_map_lines skill @ [fence, []]"
  have body: "trimmed (sk_body skill)" "sk_body skill \<noteq> []" "0x0D \<notin> set (sk_body skill)"
    using assms by (auto simp: skill_writable_def)
  have ser: "serialize_skill_file skill = join_lines (?H @ [sk_body skill, []])"
    using serialize_lines[OF assms] by simp
  have H: "list_all no_breaks ?H" by (rule header_lines_no_breaks[OF assms])
  then have "0x0D \<notin> set (join_lines (?H @ [sk_body skill, []]))"
    using body(3) by (rule join_lines_no_cr)
  then have crlf: "uncrlf (serialize_skill_file skill) = join_lines (?H @ [sk_body skill, []])"
    using ser by (simp add: uncrlf_id)
  have flat: "concat (map split_lines ls) = ls" if "list_all no_breaks ls" for ls
    using that by (induction ls) (auto simp: no_breaks_def split_lines_plain)
  have ne: "?H @ [sk_body skill, []] \<noteq> []" by simp
  have lines: "split_lines (uncrlf (serialize_skill_file skill)) = ?H @ split_lines (sk_body skill) @ [[]]"
    unfolding crlf split_join_lines[OF ne] map_append concat_append flat[OF H] by simp
  let ?tail = "if skill_map skill = [] then [] else [(js ''metadata'', [])] :: (js_text \<times> js_text) list"
  let ?maps = "if skill_map skill = [] then [] else [(js ''metadata'', skill_map skill)]"
  let ?header = "\<lparr>hd_scalars = skill_scalars skill @ ?tail, hd_maps = ?maps, hd_close = Suc (length (?S @ skill_map_lines skill))\<rparr>"
  have header: "read_header (?H @ split_lines (sk_body skill) @ [[]]) = Inr ?header"
    using read_serialized_header[OF assms, of "[] # split_lines (sk_body skill) @ [[]]"] by simp
  have dropped: "drop (Suc (hd_close ?header)) (?H @ split_lines (sk_body skill) @ [[]]) = [] # split_lines (sk_body skill) @ [[]]"
    by simp
  have "join_lines ([] # split_lines us @ [[]]) = 0x0A # us @ [0x0A]" for us
  proof -
    have "ls \<noteq> [] \<Longrightarrow> join_lines (ls @ [[]]) = join_lines ls @ [0x0A]" for ls :: "js_text list"
      by (induction ls rule: join_lines.induct) auto
    then show ?thesis by (simp add: join_lines_Cons join_split_lines)
  qed
  then have content: "js_trim (join_lines (drop (Suc (hd_close ?header)) (?H @ split_lines (sk_body skill) @ [[]]))) = sk_body skill"
    unfolding dropped using js_trim_around[OF body(1,2)] by simp
  have fields: "header_field ?header (js ''name'') = Some (sk_name skill)"
    "header_field ?header (js ''description'') = Some (sk_description skill)"
    "header_field ?header (js ''status'') = Some (status_text (sk_status skill))"
    "header_field ?header (js ''created'') = sk_created skill"
    using map_of_skill_scalars[OF assms] map_of_skill_created[OF assms, of ?tail] by (simp_all add: header_field_def)
  have extra: "some_nonempty (header_extra ?header) = sk_extra skill"
    using header_extra_skill[OF assms, of ?maps "skill_map skill" ?tail] assms
    by (auto simp: some_nonempty_def skill_writable_def split: option.splits)
  have metadata: "Option.bind (js_get (hd_maps ?header) (js ''metadata'')) some_nonempty = sk_metadata skill"
    using assms by (auto simp: some_nonempty_def skill_map_def skill_writable_def split: option.splits)
  have ok: "skill_name_text (sk_name skill)" "sk_description skill \<noteq> []"
    "length (sk_description skill) \<le> (if shared then shared_skill_description_max_chars else skill_description_max_chars)"
    "case sk_created skill of None \<Rightarrow> shared | Some c \<Rightarrow> skill_created_ok c"
    using assms by (auto simp: skill_writable_def split: option.splits)
  have "parse_skill_file shared (serialize_skill_file skill) =
      Inr \<lparr>sk_name = sk_name skill, sk_description = sk_description skill, sk_created = sk_created skill, sk_status = sk_status skill,
        sk_metadata = sk_metadata skill, sk_extra = sk_extra skill, sk_body = sk_body skill\<rparr>"
    unfolding parse_skill_file_def Let_def lines header sum.case fields content extra metadata
    using ok body(2) by simp
  then show ?thesis by simp
qed

definition deploy_skill :: skill_file where
  "deploy_skill = \<lparr>sk_name = js ''ship'', sk_description = js (''a'' @ CHR 0x0A # '' b''), sk_created = None,
     sk_status = SkillStale, sk_metadata = Some [(js ''x'', js ''o:p'')], sk_extra = Some [(js ''l'', js ''MIT'')],
     sk_body = js ''Go''\<rparr>"

theorem skill_file_round_trip_witness: "parse_skill_file True (serialize_skill_file deploy_skill) = Inr deploy_skill"
proof (rule skill_file_round_trip)
  have "skill_name_text (sk_name deploy_skill) \<and> line_value (sk_name deploy_skill)" by code_simp
  moreover have "sk_description deploy_skill \<noteq> [] \<and> value_ok (sk_description deploy_skill) \<and> length (sk_description deploy_skill) = 4"
    by code_simp
  moreover have "case sk_extra deploy_skill of None \<Rightarrow> True | Some kvs \<Rightarrow> kvs \<noteq> [] \<and> distinct (map fst kvs) \<and>
        list_all (\<lambda>(k, v). key_ok k \<and> value_ok v \<and> k \<notin> set defined_keys \<and> k \<notin> set discarded_keys) kvs" by code_simp
  moreover have "case sk_metadata deploy_skill of None \<Rightarrow> True | Some kvs \<Rightarrow> kvs \<noteq> [] \<and> distinct (map fst kvs) \<and>
        list_all (\<lambda>(k, v). key_ok k \<and> line_value v) kvs" by code_simp
  moreover have "trimmed (sk_body deploy_skill) \<and> sk_body deploy_skill \<noteq> [] \<and> 0x0D \<notin> set (sk_body deploy_skill)" by code_simp
  moreover have "sk_created deploy_skill = None" by (simp add: deploy_skill_def)
  ultimately show "skill_writable True deploy_skill"
    by (simp only: skill_writable_def shared_skill_description_max_chars_def if_True option.case simp_thms)
qed

text \<open>
  What is lost. A value that is itself in quotes, as a block or a doubly quoted line leaves it, is written as a
  line and read back without them: each rewrite strips one pair.
\<close>

lemma quotes_are_stripped:
  assumes "key_ok key" "key \<notin> set (map fst scalars)" "quote \<in> {0x22, 0x27}" "v \<noteq> []"
    "list_all (\<lambda>u. \<not> line_terminator u) v" "ends_block lines"
  shows "read_lines index (scalar_lines key (quote # v @ [quote]) @ lines) scalars maps opened =
    read_lines (Suc index) lines (scalars @ [(key, v)]) maps None"
proof -
  let ?v = "quote # v @ [quote]"
  have q: "\<not> space_unit quote" "\<not> line_terminator quote" "quote \<noteq> 0x0A" using assms(3) by (auto simp: space_unit_def line_terminator_def)
  then have t: "trimmed ?v" "list_all (\<lambda>u. \<not> line_terminator u) ?v" using assms(5) by (auto simp: trimmed_def)
  have "0x0A \<notin> set ?v" using assms(5) q(3) by (auto simp: list_all_iff line_terminator_def)
  then have lines: "scalar_lines key ?v = [field_line key ?v]" by (rule scalar_lines_cases(1))
  have "unquote ?v = v" using js_trim_trimmed[OF t(1)] assms(3) by (simp add: unquote_def Let_def)
  moreover have "takeWhile in_block lines = []" using assms(6) by (cases lines) (auto simp: ends_block_def)
  ultimately show ?thesis
    using letter_line[of "field_line key ?v"] field_line_starts[OF assms(1), of ?v] assms(2,4) frontmatter_line_field[OF assms(1) t] lines
    by (simp add: Let_def)
qed

text \<open>
  A block may hold a line separator that no line may: a file that reads well is then rewritten as one that
  does not read at all.
\<close>

lemma separator_breaks_rewrite:
  assumes "key_ok key" "key \<notin> set (map fst scalars)" "block_content v" "0x2028 \<in> set v" "0x0A \<notin> set v" "ends_block lines"
  shows "read_lines index (field_line key (js ''|-'') # indent_line v # lines) scalars maps opened =
      read_lines (index + 2) lines (scalars @ [(key, v)]) maps None"
    and "read_lines index (scalar_lines key v @ lines) scalars maps opened = Inl (MalformedLine (Suc index))"
proof -
  show "read_lines index (field_line key (js ''|-'') # indent_line v # lines) scalars maps opened =
      read_lines (index + 2) lines (scalars @ [(key, v)]) maps None"
    using read_block[OF assms(1-3,6), of index maps opened] split_lines_plain[OF assms(5)] by (simp del: read_lines.simps)
  have key: "dropWhile key_unit (field_line key v) = js '': '' @ v"
    using assms(1) by (auto simp: field_line_def key_ok_def js_def dropWhile_append list_all_iff)
  have "dropWhile space_unit v = v" using assms(3) by (auto simp: block_content_def trimmed_def dropWhile_eq_self_iff)
  moreover have "\<not> list_all (\<lambda>u. \<not> line_terminator u) v" using assms(4) by (auto simp: list_all_iff line_terminator_def)
  ultimately have "frontmatter_line (field_line key v) = None" using key by (simp add: frontmatter_line_def Let_def js_def)
  then show "read_lines index (scalar_lines key v @ lines) scalars maps opened = Inl (MalformedLine (Suc index))"
    using letter_line[of "field_line key v"] field_line_starts[OF assms(1), of v] scalar_lines_cases(1)[OF assms(5)] by simp
qed

end
