(* ===== verification/Approval_Desk.thy ===== *)
theory Approval_Desk
  imports Agent_Clients
begin

text \<open>
  Held calls in the channel (\<open>apps/server/src/approvals\<close>): the registry of waits, the prompter that posts a
  card and waits for a click, and the handler that relays a click to the proxy. Each wait is a record of the
  variables its promise closes over; the desk is the registry, the waits and the clicks whose answer is
  awaited. What Slack, the proxy, the clock and the agent do next is an event.
\<close>

subsection \<open>A wait\<close>

datatype settlement = SettledApproved string | SettledDenied string | SettledExpired

datatype card_status =
    CardRunning string
  | CardApproved string
  | CardDenied string
  | CardRefused string string
  | CardExpired
  | CardUnanswered string

record posted_card =
  pc_channel :: string
  pc_ts :: string

text \<open>What the promise resolved with: nothing, or the callback that completes the card of an approver.\<close>

datatype resolution = NoCompletion | Completion posted_card string

text \<open>
  \<open>wt_repaints\<close> lists the calls of \<open>updateCard\<close>; \<open>wt_awaiting\<close> is what the promise resolves with once the
  repaint of \<open>finish\<close> has settled, either way. \<open>wt_on_abort\<close> and \<open>wt_on_abandoned\<close> say which listeners the
  signal has; \<open>wt_aborted\<close> is the signal's own state.
\<close>

record wait =
  wt_channel :: string
  wt_thread :: string
  wt_ticket :: string
  wt_delay :: int
  wt_settled :: "settlement option"
  wt_posting :: bool
  wt_posted :: "posted_card option"
  wt_post_failed :: bool
  wt_finished :: bool
  wt_completed :: bool
  wt_approved_by :: "string option"
  wt_deadline :: bool
  wt_on_abort :: bool
  wt_on_abandoned :: bool
  wt_aborted :: bool
  wt_repaints :: "(posted_card \<times> card_status) list"
  wt_awaiting :: "resolution option"
  wt_resolution :: "resolution option"

definition new_wait :: "string \<Rightarrow> string \<Rightarrow> held_call \<Rightarrow> int \<Rightarrow> wait" where
  "new_wait channel thread held now =
     \<lparr>wt_channel = channel, wt_thread = thread, wt_ticket = hc_ticket held,
      wt_delay = max 0 (int (hc_expires held) - now), wt_settled = None,
      wt_posting = True, wt_posted = None, wt_post_failed = False, wt_finished = False, wt_completed = False,
      wt_approved_by = None, wt_deadline = True, wt_on_abort = True, wt_on_abandoned = False, wt_aborted = False,
      wt_repaints = [], wt_awaiting = None, wt_resolution = None\<rparr>"

text \<open>A call whose signal is already aborted is not asked about.\<close>

definition dead_wait :: "string \<Rightarrow> string \<Rightarrow> held_call \<Rightarrow> wait" where
  "dead_wait channel thread held =
     \<lparr>wt_channel = channel, wt_thread = thread, wt_ticket = hc_ticket held, wt_delay = 0, wt_settled = None,
      wt_posting = False, wt_posted = None, wt_post_failed = False, wt_finished = False, wt_completed = False,
      wt_approved_by = None, wt_deadline = False, wt_on_abort = False, wt_on_abandoned = False, wt_aborted = True,
      wt_repaints = [], wt_awaiting = None, wt_resolution = Some NoCompletion\<rparr>"

definition refused_status :: "settlement \<Rightarrow> card_status" where
  "refused_status s = (case s of SettledDenied approver \<Rightarrow> CardDenied approver | _ \<Rightarrow> CardExpired)"

definition repaint :: "posted_card \<Rightarrow> card_status \<Rightarrow> wait \<Rightarrow> wait" where
  "repaint pc st p = p\<lparr>wt_repaints := wt_repaints p @ [(pc, st)]\<rparr>"

definition finish_wait :: "wait \<Rightarrow> wait" where
  "finish_wait p =
     (case wt_settled p of
        None \<Rightarrow> p
      | Some decided \<Rightarrow>
          if wt_finished p \<or> wt_posted p = None \<and> \<not> wt_post_failed p then p
          else
            let p = p\<lparr>wt_finished := True\<rparr>
            in case wt_posted p of
                None \<Rightarrow> p\<lparr>wt_resolution := Some NoCompletion\<rparr>
              | Some pc \<Rightarrow>
                  (case decided of
                     SettledApproved approver \<Rightarrow>
                       repaint pc (CardRunning approver)
                         (p\<lparr>wt_approved_by := Some approver, wt_on_abandoned := True, wt_awaiting := Some (Completion pc approver)\<rparr>)
                   | _ \<Rightarrow> repaint pc (refused_status decided) (p\<lparr>wt_awaiting := Some NoCompletion\<rparr>)))"

text \<open>The repaint the promise waits on has settled.\<close>

definition repainted :: "wait \<Rightarrow> wait" where
  "repainted p = p\<lparr>wt_awaiting := None, wt_resolution := wt_awaiting p\<rparr>"

text \<open>The callback the promise resolved with.\<close>

definition complete_wait :: "held_outcome \<Rightarrow> wait \<Rightarrow> wait" where
  "complete_wait outcome p =
     (case wt_resolution p of
        Some (Completion pc approver) \<Rightarrow>
          if wt_completed p then p
          else repaint pc
            (case outcome of HeldRan \<Rightarrow> CardApproved approver | HeldRefused refusal \<Rightarrow> CardRefused approver (refusal_message refusal))
            (p\<lparr>wt_completed := True, wt_on_abandoned := False\<rparr>)
      | _ \<Rightarrow> p)"

definition on_abandoned :: "wait \<Rightarrow> wait" where
  "on_abandoned p =
     (case (wt_completed p, wt_posted p, wt_approved_by p) of
        (False, Some pc, Some approver) \<Rightarrow> repaint pc (CardUnanswered approver) (p\<lparr>wt_completed := True\<rparr>)
      | _ \<Rightarrow> p)"

subsection \<open>The registry\<close>

type_synonym registry = "(string, (string, nat) jsmap) jsmap"

definition register_wait :: "string \<Rightarrow> string \<Rightarrow> nat \<Rightarrow> registry \<Rightarrow> registry" where
  "register_wait channel ticket entry reg =
     js_set channel (js_set ticket entry (case js_get reg channel of Some pending \<Rightarrow> pending | None \<Rightarrow> [])) reg"

definition registered :: "string \<Rightarrow> string \<Rightarrow> registry \<Rightarrow> nat option" where
  "registered channel ticket reg = Option.bind (js_get reg channel) (\<lambda>pending. js_get pending ticket)"

definition unregister_wait :: "string \<Rightarrow> string \<Rightarrow> registry \<Rightarrow> registry" where
  "unregister_wait channel ticket reg =
     (case js_get reg channel of
        None \<Rightarrow> reg
      | Some pending \<Rightarrow>
          let rest = js_delete ticket pending
          in if rest = [] then js_delete channel reg else js_set channel rest reg)"

definition held_elsewhere :: "string \<Rightarrow> string \<Rightarrow> registry \<Rightarrow> bool" where
  "held_elsewhere channel ticket reg \<longleftrightarrow> list_ex (\<lambda>(held, pending). held \<noteq> channel \<and> js_get pending ticket \<noteq> None) reg"

subsection \<open>The desk\<close>

record click =
  ck_channel :: string
  ck_ticket :: string
  ck_verdict :: approval_verdict
  ck_approver :: string

datatype desk_log = ChannelMismatch string string | UnknownTicket string string | ApprovalUnknownLog string string

text \<open>\<open>dk_clicks\<close>: the clicks being relayed, each with the entry the handler found.\<close>

record desk =
  dk_registry :: registry
  dk_waits :: "wait list"
  dk_clicks :: "(click \<times> nat) list"
  dk_log :: "desk_log list"

definition empty_desk :: desk where
  "empty_desk = \<lparr>dk_registry = [], dk_waits = [], dk_clicks = [], dk_log = []\<rparr>"

definition change_wait :: "nat \<Rightarrow> (wait \<Rightarrow> wait) \<Rightarrow> desk \<Rightarrow> desk" where
  "change_wait i f d = (if i < length (dk_waits d) then d\<lparr>dk_waits := (dk_waits d)[i := f (dk_waits d ! i)]\<rparr> else d)"

definition prompt_held :: "string \<Rightarrow> string \<Rightarrow> held_call \<Rightarrow> int \<Rightarrow> bool \<Rightarrow> desk \<Rightarrow> desk" where
  "prompt_held channel thread held now aborted d =
     (if aborted then d\<lparr>dk_waits := dk_waits d @ [dead_wait channel thread held]\<rparr>
      else d\<lparr>dk_registry := register_wait channel (hc_ticket held) (length (dk_waits d)) (dk_registry d),
             dk_waits := dk_waits d @ [new_wait channel thread held now]\<rparr>)"

definition settle_wait :: "nat \<Rightarrow> settlement \<Rightarrow> desk \<Rightarrow> desk" where
  "settle_wait i outcome d =
     (let p = dk_waits d ! i
      in if \<not> i < length (dk_waits d) \<or> wt_settled p \<noteq> None then d
         else change_wait i (\<lambda>p. finish_wait (p\<lparr>wt_settled := Some outcome, wt_deadline := False, wt_on_abort := False\<rparr>))
                (d\<lparr>dk_registry := unregister_wait (wt_channel p) (wt_ticket p) (dk_registry d)\<rparr>))"

definition card_posted :: "nat \<Rightarrow> posted_card \<Rightarrow> desk \<Rightarrow> desk" where
  "card_posted i pc = change_wait i (\<lambda>p. finish_wait (p\<lparr>wt_posting := False, wt_posted := Some pc\<rparr>))"

definition card_post_failed :: "nat \<Rightarrow> desk \<Rightarrow> desk" where
  "card_post_failed i d = settle_wait i SettledExpired (change_wait i (\<lambda>p. p\<lparr>wt_posting := False, wt_post_failed := True\<rparr>) d)"

text \<open>
  The signal aborts: the listeners it has run once each, in the order they were added, and the first may not
  add the second, since an expiry adds none.
\<close>

definition signal_aborts :: "nat \<Rightarrow> desk \<Rightarrow> desk" where
  "signal_aborts i d =
     (let p = dk_waits d ! i;
          d = change_wait i (\<lambda>p. p\<lparr>wt_aborted := True, wt_on_abort := False, wt_on_abandoned := False\<rparr>) d;
          d = (if wt_on_abort p then settle_wait i SettledExpired d else d)
      in if wt_on_abandoned p then change_wait i on_abandoned d else d)"

subsection \<open>Clicks\<close>

definition decision_clicked :: "click \<Rightarrow> desk \<Rightarrow> desk" where
  "decision_clicked c d =
     (case registered (ck_channel c) (ck_ticket c) (dk_registry d) of
        None \<Rightarrow> d\<lparr>dk_log := dk_log d @
          [if held_elsewhere (ck_channel c) (ck_ticket c) (dk_registry d)
           then ChannelMismatch (ck_channel c) (ck_ticket c) else UnknownTicket (ck_channel c) (ck_ticket c)]\<rparr>
      | Some i \<Rightarrow> d\<lparr>dk_clicks := dk_clicks d @ [(c, i)]\<rparr>)"

definition relayed :: "click \<Rightarrow> approval_decision" where
  "relayed c = \<lparr>ad_ticket = ck_ticket c, ad_decision = ck_verdict c, ad_approver = ck_approver c\<rparr>"

definition verdict_settlement :: "approval_verdict \<Rightarrow> string \<Rightarrow> settlement" where
  "verdict_settlement verdict approver = (case verdict of Approve \<Rightarrow> SettledApproved approver | Deny \<Rightarrow> SettledDenied approver)"

definition decision_answered :: "click \<Rightarrow> nat \<Rightarrow> approval_reply \<Rightarrow> desk \<Rightarrow> desk" where
  "decision_answered c i answer d =
     (case answer of
        ReplyRecorded ticket verdict \<Rightarrow> settle_wait i (verdict_settlement verdict (ck_approver c)) d
      | ReplyAlreadyDecided ticket verdict \<Rightarrow> settle_wait i (verdict_settlement verdict (ck_approver c)) d
      | ReplyExpired ticket \<Rightarrow> settle_wait i SettledExpired d
      | ReplyUnknown ticket \<Rightarrow> settle_wait i SettledExpired (d\<lparr>dk_log := dk_log d @ [ApprovalUnknownLog (ck_channel c) (ck_ticket c)]\<rparr>))"

text \<open>The answer to the \<open>k\<close>th click in the air; \<open>None\<close> where the relay rejects, which settles nothing.\<close>

definition click_answered :: "nat \<Rightarrow> approval_reply option \<Rightarrow> desk \<Rightarrow> desk" where
  "click_answered k answer d =
     (case (k < length (dk_clicks d), answer) of
        (False, _) \<Rightarrow> d
      | (True, None) \<Rightarrow> d\<lparr>dk_clicks := take k (dk_clicks d) @ drop (Suc k) (dk_clicks d)\<rparr>
      | (True, Some reply) \<Rightarrow>
          (let (c, i) = dk_clicks d ! k
           in decision_answered c i reply (d\<lparr>dk_clicks := take k (dk_clicks d) @ drop (Suc k) (dk_clicks d)\<rparr>)))"

subsection \<open>Runs\<close>

datatype desk_event =
    EvHeld string string held_call int bool
  | EvPosted nat posted_card
  | EvPostFailed nat
  | EvDeadline nat
  | EvAborted nat
  | EvRepainted nat
  | EvCompleted nat held_outcome
  | EvClick click
  | EvAnswer nat "approval_reply option"

fun desk_apply :: "desk_event \<Rightarrow> desk \<Rightarrow> desk" where
  "desk_apply (EvHeld channel thread held now aborted) d = prompt_held channel thread held now aborted d"
| "desk_apply (EvPosted i pc) d = card_posted i pc d"
| "desk_apply (EvPostFailed i) d = card_post_failed i d"
| "desk_apply (EvDeadline i) d = settle_wait i SettledExpired d"
| "desk_apply (EvAborted i) d = signal_aborts i d"
| "desk_apply (EvRepainted i) d = change_wait i repainted d"
| "desk_apply (EvCompleted i outcome) d = change_wait i (complete_wait outcome) d"
| "desk_apply (EvClick c) d = decision_clicked c d"
| "desk_apply (EvAnswer k answer) d = click_answered k answer d"

text \<open>
  What may happen: a post answers once, a timer fires while it is set, a signal aborts once, a repaint the
  promise waits on settles once, and only a resolved promise has a callback to call.
\<close>

definition wait_at :: "nat \<Rightarrow> desk \<Rightarrow> wait option" where
  "wait_at i d = (if i < length (dk_waits d) then Some (dk_waits d ! i) else None)"

fun desk_allowed :: "desk_event \<Rightarrow> desk \<Rightarrow> bool" where
  "desk_allowed (EvHeld channel thread held now aborted) d \<longleftrightarrow> True"
| "desk_allowed (EvPosted i pc) d \<longleftrightarrow> (case wait_at i d of Some p \<Rightarrow> wt_posting p | None \<Rightarrow> False)"
| "desk_allowed (EvPostFailed i) d \<longleftrightarrow> (case wait_at i d of Some p \<Rightarrow> wt_posting p | None \<Rightarrow> False)"
| "desk_allowed (EvDeadline i) d \<longleftrightarrow> (case wait_at i d of Some p \<Rightarrow> wt_deadline p | None \<Rightarrow> False)"
| "desk_allowed (EvAborted i) d \<longleftrightarrow> (case wait_at i d of Some p \<Rightarrow> \<not> wt_aborted p | None \<Rightarrow> False)"
| "desk_allowed (EvRepainted i) d \<longleftrightarrow> (case wait_at i d of Some p \<Rightarrow> wt_awaiting p \<noteq> None | None \<Rightarrow> False)"
| "desk_allowed (EvCompleted i outcome) d \<longleftrightarrow> (case wait_at i d of Some p \<Rightarrow> wt_resolution p \<noteq> None | None \<Rightarrow> False)"
| "desk_allowed (EvClick c) d \<longleftrightarrow> True"
| "desk_allowed (EvAnswer k answer) d \<longleftrightarrow> k < length (dk_clicks d)"

inductive desk_run :: "desk_event list \<Rightarrow> desk \<Rightarrow> bool" where
  start: "desk_run [] empty_desk"
| step: "desk_run es d \<Longrightarrow> desk_allowed e d \<Longrightarrow> desk_run (es @ [e]) (desk_apply e d)"

inductive_cases desk_run_snocE: "desk_run (es @ [e]) d"

fun desk_after :: "desk_event list \<Rightarrow> desk \<Rightarrow> desk option" where
  "desk_after [] d = Some d"
| "desk_after (e # es) d = (if desk_allowed e d then desk_after es (desk_apply e d) else None)"

lemma desk_after_run: "desk_run es d \<Longrightarrow> desk_after es' d = Some d' \<Longrightarrow> desk_run (es @ es') d'"
proof (induction es' arbitrary: es d)
  case (Cons e es')
  then have "desk_run (es @ [e]) (desk_apply e d)" "desk_after es' (desk_apply e d) = Some d'"
    by (auto intro: desk_run.step split: if_splits)
  from Cons.IH[OF this] show ?case by simp
qed simp

subsection \<open>The registry's laws\<close>

lemma registered_register:
  "registered c t (register_wait c' t' i reg) = (if c = c' \<and> t = t' then Some i else registered c t reg)"
  by (auto simp: registered_def register_wait_def split: option.splits)

lemma registered_unregister:
  "registered c t (unregister_wait c' t' reg) = (if c = c' \<and> t = t' then None else registered c t reg)"
proof (cases "js_get reg c'")
  case (Some pending)
  have gone: "js_get pending t = None" if "js_delete t' pending = []" "t \<noteq> t'" for t
    using that delete_conv'[of t' pending] by (metis fun_upd_other map_of.simps(1))
  show ?thesis
    using Some gone[of t] by (auto simp: registered_def unregister_wait_def Let_def delete_conv' split: option.splits)
qed (auto simp: registered_def unregister_wait_def)

subsection \<open>The phases of a wait\<close>

definition never_asked :: "wait \<Rightarrow> bool" where
  "never_asked p \<longleftrightarrow> wt_resolution p = Some NoCompletion \<and> wt_settled p = None \<and> \<not> wt_posting p \<and> \<not> wt_deadline p \<and>
     wt_aborted p \<and> wt_awaiting p = None \<and> wt_repaints p = [] \<and> wt_posted p = None \<and> \<not> wt_post_failed p \<and>
     \<not> wt_on_abort p \<and> \<not> wt_on_abandoned p"

definition undecided :: "wait \<Rightarrow> bool" where
  "undecided p \<longleftrightarrow> wt_settled p = None \<and> wt_deadline p \<and> wt_on_abort p \<and> \<not> wt_aborted p \<and> \<not> wt_on_abandoned p \<and>
     \<not> wt_finished p \<and> \<not> wt_completed p \<and> \<not> wt_post_failed p \<and> (wt_posting p \<longleftrightarrow> wt_posted p = None) \<and>
     wt_repaints p = [] \<and> wt_awaiting p = None \<and> wt_resolution p = None"

definition settled_early :: "wait \<Rightarrow> bool" where
  "settled_early p \<longleftrightarrow> wt_settled p \<noteq> None \<and> \<not> wt_deadline p \<and> \<not> wt_on_abort p \<and> \<not> wt_on_abandoned p \<and> \<not> wt_finished p \<and>
     \<not> wt_completed p \<and> wt_posted p = None \<and> (wt_posting p \<longleftrightarrow> \<not> wt_post_failed p) \<and>
     wt_repaints p = [] \<and> wt_awaiting p = None \<and> wt_resolution p = None"

definition no_card :: "wait \<Rightarrow> bool" where
  "no_card p \<longleftrightarrow> wt_settled p = Some SettledExpired \<and> \<not> wt_deadline p \<and> \<not> wt_on_abort p \<and> \<not> wt_on_abandoned p \<and> wt_finished p \<and>
     \<not> wt_posting p \<and> wt_posted p = None \<and> wt_repaints p = [] \<and> wt_awaiting p = None \<and> wt_resolution p = Some NoCompletion"

definition resolves_with :: "wait \<Rightarrow> resolution \<Rightarrow> bool" where
  "resolves_with p r \<longleftrightarrow> wt_awaiting p = Some r \<and> wt_resolution p = None \<or> wt_awaiting p = None \<and> wt_resolution p = Some r"

definition refused_card :: "wait \<Rightarrow> bool" where
  "refused_card p \<longleftrightarrow> \<not> wt_deadline p \<and> \<not> wt_on_abort p \<and> \<not> wt_on_abandoned p \<and> wt_finished p \<and> \<not> wt_posting p \<and>
     (\<exists>pc s. wt_settled p = Some s \<and> (\<forall>a. s \<noteq> SettledApproved a) \<and> wt_posted p = Some pc \<and>
       wt_repaints p = [(pc, refused_status s)] \<and> resolves_with p NoCompletion)"

definition final_faces :: "string \<Rightarrow> card_status set" where
  "final_faces a = {CardApproved a, CardUnanswered a} \<union> range (CardRefused a)"

definition approved_card :: "wait \<Rightarrow> bool" where
  "approved_card p \<longleftrightarrow> \<not> wt_deadline p \<and> \<not> wt_on_abort p \<and> wt_finished p \<and> \<not> wt_posting p \<and>
     (\<exists>pc a. wt_settled p = Some (SettledApproved a) \<and> wt_posted p = Some pc \<and> wt_approved_by p = Some a \<and>
       resolves_with p (Completion pc a) \<and>
       (if wt_completed p then \<not> wt_on_abandoned p \<and> (\<exists>f \<in> final_faces a. wt_repaints p = [(pc, CardRunning a), (pc, f)])
        else wt_on_abandoned p \<and> wt_repaints p = [(pc, CardRunning a)]))"

definition wait_ok :: "wait \<Rightarrow> bool" where
  "wait_ok p \<longleftrightarrow> never_asked p \<or> undecided p \<or> settled_early p \<or> no_card p \<or> refused_card p \<or> approved_card p"

lemmas phase_defs = never_asked_def undecided_def settled_early_def no_card_def refused_card_def approved_card_def resolves_with_def

lemma new_wait_phase: "undecided (new_wait channel thread held now)" "never_asked (dead_wait channel thread held)"
  by (simp_all add: undecided_def never_asked_def new_wait_def dead_wait_def)

definition settled_now :: "settlement \<Rightarrow> wait \<Rightarrow> wait" where
  "settled_now s p = finish_wait (p\<lparr>wt_settled := Some s, wt_deadline := False, wt_on_abort := False\<rparr>)"

lemma settled_now_phase:
  assumes "undecided p"
  shows "if wt_posted p = None then settled_early (settled_now s p)
    else (case s of SettledApproved a \<Rightarrow> approved_card (settled_now s p) | _ \<Rightarrow> refused_card (settled_now s p))"
  using assms
  by (cases s; cases "wt_posted p")
    (auto simp: settled_now_def finish_wait_def Let_def repaint_def phase_defs refused_status_def)

lemma settled_now_ok: "undecided p \<Longrightarrow> wait_ok (settled_now s p)"
  using settled_now_phase[of p s] by (cases s) (auto simp: wait_ok_def split: if_splits)

lemma finish_wait_names [simp]: "wt_channel (finish_wait p) = wt_channel p" "wt_ticket (finish_wait p) = wt_ticket p"
    "wt_settled (finish_wait p) = wt_settled p" "wt_aborted (finish_wait p) = wt_aborted p" "wt_posted (finish_wait p) = wt_posted p"
    "wt_completed (finish_wait p) = wt_completed p"
  by (auto simp: finish_wait_def repaint_def Let_def split: option.splits settlement.splits)

lemma settled_now_names [simp]: "wt_channel (settled_now s p) = wt_channel p" "wt_ticket (settled_now s p) = wt_ticket p"
    "wt_settled (settled_now s p) = Some s" "wt_aborted (settled_now s p) = wt_aborted p" "wt_posted (settled_now s p) = wt_posted p"
    "wt_completed (settled_now s p) = wt_completed p"
  by (simp_all add: settled_now_def)

lemma on_abandoned_names [simp]: "wt_channel (on_abandoned p) = wt_channel p" "wt_ticket (on_abandoned p) = wt_ticket p"
    "wt_settled (on_abandoned p) = wt_settled p" "wt_posted (on_abandoned p) = wt_posted p" "wt_aborted (on_abandoned p) = wt_aborted p"
  by (auto simp: on_abandoned_def repaint_def split: bool.splits option.splits)

lemma complete_wait_names [simp]: "wt_channel (complete_wait out p) = wt_channel p" "wt_ticket (complete_wait out p) = wt_ticket p"
    "wt_settled (complete_wait out p) = wt_settled p" "wt_posted (complete_wait out p) = wt_posted p" "wt_aborted (complete_wait out p) = wt_aborted p"
  by (auto simp: complete_wait_def repaint_def split: option.splits resolution.splits)

text \<open>The phases exclude one another, and each is told by a few fields.\<close>

lemma phase_excl:
  "wait_ok p \<Longrightarrow> wt_settled p = None \<Longrightarrow> never_asked p \<or> undecided p"
  "wait_ok p \<Longrightarrow> wt_posting p \<Longrightarrow> undecided p \<or> settled_early p"
  "wait_ok p \<Longrightarrow> wt_on_abort p \<Longrightarrow> wt_settled p = None \<Longrightarrow> \<not> wt_aborted p \<Longrightarrow> undecided p"
  "wait_ok p \<Longrightarrow> wt_deadline p \<Longrightarrow> undecided p"
  "wait_ok p \<Longrightarrow> wt_on_abandoned p \<Longrightarrow> approved_card p"
  "never_asked p \<Longrightarrow> \<not> undecided p"
  "undecided p \<Longrightarrow> \<not> never_asked p"
  by (auto simp: wait_ok_def phase_defs)

lemma posted_phase:
  fixes pc
  assumes "wait_ok p" "wt_posting p"
  defines "q \<equiv> finish_wait (p\<lparr>wt_posting := False, wt_posted := Some pc\<rparr>)"
  shows "wait_ok q \<and> (undecided p \<longrightarrow> undecided q)"
proof -
  from phase_excl(2)[OF assms(1,2)] show ?thesis
  proof
    assume "undecided p"
    then have "undecided q" by (auto simp: q_def finish_wait_def undecided_def)
    then show ?thesis by (simp add: wait_ok_def)
  next
    assume p: "settled_early p"
    then obtain s where s: "wt_settled p = Some s" by (auto simp: settled_early_def)
    from p s have "approved_card q \<or> refused_card q" "\<not> undecided p"
      by (cases s; auto simp: q_def finish_wait_def Let_def repaint_def phase_defs refused_status_def)+
    then show ?thesis by (auto simp: wait_ok_def)
  qed
qed

lemma post_failed_phase:
  assumes "wait_ok p" "wt_posting p"
  defines "q \<equiv> p\<lparr>wt_posting := False, wt_post_failed := True\<rparr>"
  shows "if wt_settled p = None then no_card (settled_now SettledExpired q) else settled_early q"
  using phase_excl(2)[OF assms(1,2)] assms(2)
  by (auto simp: q_def settled_now_def finish_wait_def Let_def repaint_def phase_defs)

lemma repainted_phase:
  assumes "wait_ok p" "wt_awaiting p \<noteq> None"
  shows "wait_ok (repainted p) \<and> \<not> undecided p \<and> \<not> never_asked (repainted p)"
proof -
  have u: "\<not> undecided p" using assms(2) by (auto simp: undecided_def)
  from assms have "refused_card p \<or> approved_card p"
    by (auto simp: wait_ok_def never_asked_def undecided_def settled_early_def no_card_def)
  then show ?thesis
  proof
    assume "refused_card p"
    with assms(2) have "refused_card (repainted p)" by (auto simp: refused_card_def resolves_with_def repainted_def)
    then show ?thesis using u by (auto simp: wait_ok_def refused_card_def never_asked_def)
  next
    assume "approved_card p"
    with assms(2) have "approved_card (repainted p)"
      by (cases "wt_completed p") (auto simp: approved_card_def resolves_with_def repainted_def)
    then show ?thesis using u by (auto simp: wait_ok_def approved_card_def never_asked_def)
  qed
qed

lemma complete_resolved:
  assumes "wait_ok p" "wt_resolution p = Some (Completion pc a)"
  shows "approved_card p \<and> wt_posted p = Some pc \<and> wt_settled p = Some (SettledApproved a) \<and> wt_approved_by p = Some a"
  using assms unfolding wait_ok_def
  by (elim disjE) (auto simp: never_asked_def undecided_def settled_early_def no_card_def refused_card_def approved_card_def resolves_with_def)

lemma complete_phase:
  assumes "wait_ok p"
  shows "wait_ok (complete_wait out p) \<and> (undecided p \<longrightarrow> undecided (complete_wait out p)) \<and>
    (never_asked (complete_wait out p) \<longrightarrow> never_asked p)"
proof (cases "complete_wait out p = p")
  case False
  then obtain pc a where r: "wt_resolution p = Some (Completion pc a)" "\<not> wt_completed p"
    by (auto simp: complete_wait_def split: option.splits resolution.splits if_splits)
  from complete_resolved[OF assms r(1)] r
  have "approved_card (complete_wait out p)"
    by (auto simp: approved_card_def resolves_with_def complete_wait_def repaint_def final_faces_def split: held_outcome.splits)
  moreover have "\<not> undecided p" using r(1) by (simp add: undecided_def)
  ultimately show ?thesis by (auto simp: wait_ok_def approved_card_def never_asked_def)
qed (use assms in simp)

lemma abandoned_phase:
  assumes "approved_card p" "wt_on_abandoned p"
  shows "approved_card (on_abandoned (p\<lparr>wt_aborted := True, wt_on_abort := False, wt_on_abandoned := False\<rparr>))"
  using assms by (auto simp: on_abandoned_def repaint_def phase_defs final_faces_def split: if_splits)

lemma unheard_phase:
  assumes "wait_ok p" "\<not> wt_on_abort p" "\<not> wt_on_abandoned p"
  shows "wait_ok (p\<lparr>wt_aborted := True, wt_on_abort := False, wt_on_abandoned := False\<rparr>)"
  using assms unfolding wait_ok_def by (elim disjE) (auto simp: phase_defs split: if_splits)

lemma expired_phase:
  assumes "undecided p"
  shows "wait_ok (settled_now SettledExpired (p\<lparr>wt_aborted := True, wt_on_abort := False, wt_on_abandoned := False\<rparr>))"
  using assms by (cases "wt_posted p") (auto simp: settled_now_def finish_wait_def Let_def repaint_def wait_ok_def phase_defs refused_status_def)

subsection \<open>The invariant of the desk\<close>

definition desk_ok :: "desk \<Rightarrow> bool" where
  "desk_ok d \<longleftrightarrow> (\<forall>p \<in> set (dk_waits d). wait_ok p) \<and>
     (\<forall>c t i. registered c t (dk_registry d) = Some i \<longrightarrow>
        i < length (dk_waits d) \<and> undecided (dk_waits d ! i) \<and> wt_channel (dk_waits d ! i) = c \<and> wt_ticket (dk_waits d ! i) = t) \<and>
     (\<forall>(c, i) \<in> set (dk_clicks d). i < length (dk_waits d) \<and> \<not> never_asked (dk_waits d ! i) \<and>
        wt_channel (dk_waits d ! i) = ck_channel c \<and> wt_ticket (dk_waits d ! i) = ck_ticket c)"

lemma desk_okD:
  assumes "desk_ok d"
  shows "i < length (dk_waits d) \<Longrightarrow> wait_ok (dk_waits d ! i)"
    and "registered c t (dk_registry d) = Some i \<Longrightarrow>
      i < length (dk_waits d) \<and> undecided (dk_waits d ! i) \<and> wt_channel (dk_waits d ! i) = c \<and> wt_ticket (dk_waits d ! i) = t"
    and "(k, i) \<in> set (dk_clicks d) \<Longrightarrow> i < length (dk_waits d) \<and> \<not> never_asked (dk_waits d ! i) \<and>
      wt_channel (dk_waits d ! i) = ck_channel k \<and> wt_ticket (dk_waits d ! i) = ck_ticket k"
  using assms by (auto simp: desk_ok_def)

lemma desk_ok_change:
  assumes "desk_ok d" "i < length (dk_waits d)" "wait_ok q"
    "wt_channel q = wt_channel (dk_waits d ! i)" "wt_ticket q = wt_ticket (dk_waits d ! i)"
    "never_asked q \<longrightarrow> never_asked (dk_waits d ! i)" "undecided (dk_waits d ! i) \<longrightarrow> undecided q"
  shows "desk_ok (d\<lparr>dk_waits := (dk_waits d)[i := q]\<rparr>)"
proof -
  have "wait_ok p" if "p \<in> set ((dk_waits d)[i := q])" for p
    using that assms(1,3) set_update_subset_insert[of "dk_waits d" i q] by (auto simp: desk_ok_def)
  moreover have "j < length (dk_waits d) \<and> undecided ((dk_waits d)[i := q] ! j) \<and> wt_channel ((dk_waits d)[i := q] ! j) = c \<and>
      wt_ticket ((dk_waits d)[i := q] ! j) = t" if "registered c t (dk_registry d) = Some j" for c t j
    using desk_okD(2)[OF assms(1) that] assms by (cases "j = i") auto
  moreover have "j < length (dk_waits d) \<and> \<not> never_asked ((dk_waits d)[i := q] ! j) \<and> wt_channel ((dk_waits d)[i := q] ! j) = ck_channel k \<and>
      wt_ticket ((dk_waits d)[i := q] ! j) = ck_ticket k" if "(k, j) \<in> set (dk_clicks d)" for k j
    using desk_okD(3)[OF assms(1) that] assms by (cases "j = i") auto
  ultimately show ?thesis unfolding desk_ok_def by auto
qed

text \<open>A wait that leaves the registry may be settled.\<close>

lemma desk_ok_unregistered:
  assumes "desk_ok d" "i < length (dk_waits d)" "wait_ok q" "\<not> never_asked q"
    "wt_channel q = wt_channel (dk_waits d ! i)" "wt_ticket q = wt_ticket (dk_waits d ! i)"
  shows "desk_ok (d\<lparr>dk_registry := unregister_wait (wt_channel q) (wt_ticket q) (dk_registry d), dk_waits := (dk_waits d)[i := q]\<rparr>)"
proof -
  have "wait_ok p" if "p \<in> set ((dk_waits d)[i := q])" for p
    using that assms(1,3) set_update_subset_insert[of "dk_waits d" i q] by (auto simp: desk_ok_def)
  moreover have "j < length (dk_waits d) \<and> undecided ((dk_waits d)[i := q] ! j) \<and> wt_channel ((dk_waits d)[i := q] ! j) = c \<and>
      wt_ticket ((dk_waits d)[i := q] ! j) = t"
    if "registered c t (unregister_wait (wt_channel q) (wt_ticket q) (dk_registry d)) = Some j" for c t j
  proof -
    from that have r: "registered c t (dk_registry d) = Some j" "\<not> (c = wt_channel q \<and> t = wt_ticket q)"
      by (auto simp: registered_unregister split: if_splits)
    with desk_okD(2)[OF assms(1) r(1)] assms(5,6) have "j \<noteq> i" by auto
    with desk_okD(2)[OF assms(1) r(1)] show ?thesis by auto
  qed
  moreover have "j < length (dk_waits d) \<and> \<not> never_asked ((dk_waits d)[i := q] ! j) \<and> wt_channel ((dk_waits d)[i := q] ! j) = ck_channel k \<and>
      wt_ticket ((dk_waits d)[i := q] ! j) = ck_ticket k" if "(k, j) \<in> set (dk_clicks d)" for k j
    using desk_okD(3)[OF assms(1) that] assms by (cases "j = i") auto
  ultimately show ?thesis unfolding desk_ok_def by auto
qed

lemma settle_wait_eq:
  "settle_wait i s d =
    (if i < length (dk_waits d) \<and> wt_settled (dk_waits d ! i) = None
     then d\<lparr>dk_registry := unregister_wait (wt_channel (dk_waits d ! i)) (wt_ticket (dk_waits d ! i)) (dk_registry d),
            dk_waits := (dk_waits d)[i := settled_now s (dk_waits d ! i)]\<rparr>
     else d)"
  by (auto simp: settle_wait_def change_wait_def settled_now_def Let_def)

lemma desk_ok_log [simp]: "desk_ok (d\<lparr>dk_log := l\<rparr>) = desk_ok d"
  by (simp add: desk_ok_def)

lemma desk_ok_fewer: "desk_ok d \<Longrightarrow> set cs \<subseteq> set (dk_clicks d) \<Longrightarrow> desk_ok (d\<lparr>dk_clicks := cs\<rparr>)"
  by (auto simp: desk_ok_def)

lemma desk_ok_settle: "desk_ok d \<Longrightarrow> i < length (dk_waits d) \<Longrightarrow> \<not> never_asked (dk_waits d ! i) \<Longrightarrow> desk_ok (settle_wait i s d)"
proof -
  assume d: "desk_ok d" "i < length (dk_waits d)" "\<not> never_asked (dk_waits d ! i)"
  show "desk_ok (settle_wait i s d)"
  proof (cases "wt_settled (dk_waits d ! i) = None")
    case True
    with d phase_excl(1)[OF desk_okD(1)[OF d(1,2)]] have "undecided (dk_waits d ! i)" by simp
    from settled_now_ok[OF this, of s] have "wait_ok (settled_now s (dk_waits d ! i))" .
    moreover have "\<not> never_asked (settled_now s (dk_waits d ! i))" by (simp add: never_asked_def)
    ultimately show ?thesis
      using desk_ok_unregistered[OF d(1,2)] d True by (auto simp: settle_wait_eq)
  qed (use d in \<open>auto simp: settle_wait_eq\<close>)
qed

lemma desk_ok_aborts:
  assumes "desk_ok d" "i < length (dk_waits d)" "\<not> wt_aborted (dk_waits d ! i)"
  shows "desk_ok (signal_aborts i d)"
proof -
  let ?p = "dk_waits d ! i"
  let ?q = "?p\<lparr>wt_aborted := True, wt_on_abort := False, wt_on_abandoned := False\<rparr>"
  note p = desk_okD(1)[OF assms(1,2)]
  show ?thesis
  proof (cases "wt_on_abort ?p")
    case True
    have u: "undecided ?p" using p True by (auto simp: wait_ok_def phase_defs)
    then have n: "\<not> wt_on_abandoned ?p" "wt_settled ?p = None" by (simp_all add: undecided_def)
    from desk_ok_unregistered[OF assms(1,2) expired_phase[OF u]]
    have "desk_ok (d\<lparr>dk_registry := unregister_wait (wt_channel ?p) (wt_ticket ?p) (dk_registry d),
        dk_waits := (dk_waits d)[i := settled_now SettledExpired ?q]\<rparr>)" by (simp add: never_asked_def)
    with True n assms(2) show ?thesis by (simp add: signal_aborts_def change_wait_def settle_wait_eq Let_def)
  next
    case False
    show ?thesis
    proof (cases "wt_on_abandoned ?p")
      case True
      from abandoned_phase[OF phase_excl(5)[OF p True] True] have a: "approved_card (on_abandoned ?q)" .
      have "\<not> undecided ?p" using True by (simp add: undecided_def)
      moreover have "\<not> never_asked (on_abandoned ?q)" using a by (auto simp: approved_card_def never_asked_def)
      ultimately have "desk_ok (d\<lparr>dk_waits := (dk_waits d)[i := on_abandoned ?q]\<rparr>)"
        using desk_ok_change[OF assms(1,2), of "on_abandoned ?q"] a by (simp add: wait_ok_def)
      with True False assms(2) show ?thesis by (simp add: signal_aborts_def change_wait_def Let_def)
    next
      case not_ab: False
      from unheard_phase[OF p False not_ab] have "wait_ok ?q" .
      moreover have "never_asked ?q \<longrightarrow> never_asked ?p" "\<not> undecided ?p"
        using p False not_ab by (auto simp: wait_ok_def phase_defs)
      ultimately have "desk_ok (d\<lparr>dk_waits := (dk_waits d)[i := ?q]\<rparr>)" using desk_ok_change[OF assms(1,2), of ?q] by simp
      with not_ab False assms(2) show ?thesis by (simp add: signal_aborts_def change_wait_def Let_def)
    qed
  qed
qed

lemma desk_ok_post_failed:
  assumes "desk_ok d" "i < length (dk_waits d)" "wt_posting (dk_waits d ! i)"
  shows "desk_ok (card_post_failed i d)"
proof -
  let ?p = "dk_waits d ! i"
  let ?q = "?p\<lparr>wt_posting := False, wt_post_failed := True\<rparr>"
  note p = desk_okD(1)[OF assms(1,2)]
  note f = post_failed_phase[OF p assms(3)]
  show ?thesis
  proof (cases "wt_settled ?p = None")
    case True
    with f have "no_card (settled_now SettledExpired ?q)" by simp
    moreover have "\<not> never_asked (settled_now SettledExpired ?q)" by (simp add: never_asked_def)
    ultimately have "desk_ok (d\<lparr>dk_registry := unregister_wait (wt_channel ?p) (wt_ticket ?p) (dk_registry d),
        dk_waits := (dk_waits d)[i := settled_now SettledExpired ?q]\<rparr>)"
      using desk_ok_unregistered[OF assms(1,2), of "settled_now SettledExpired ?q"] by (simp add: wait_ok_def)
    with True assms(2) show ?thesis by (simp add: card_post_failed_def change_wait_def settle_wait_eq)
  next
    case False
    with f have "settled_early ?q" by simp
    moreover have "\<not> never_asked ?q" using False by (simp add: never_asked_def)
    moreover have "\<not> undecided ?p" using False by (simp add: undecided_def)
    ultimately have "desk_ok (d\<lparr>dk_waits := (dk_waits d)[i := ?q]\<rparr>)"
      using desk_ok_change[OF assms(1,2), of ?q] by (simp add: wait_ok_def)
    with False assms(2) show ?thesis by (auto simp: card_post_failed_def change_wait_def settle_wait_eq)
  qed
qed

lemma desk_ok_more:
  assumes "desk_ok d" "wait_ok q"
    "\<And>c t i. registered c t reg = Some i \<Longrightarrow> registered c t (dk_registry d) = Some i \<or>
      i = length (dk_waits d) \<and> undecided q \<and> wt_channel q = c \<and> wt_ticket q = t"
  shows "desk_ok (d\<lparr>dk_registry := reg, dk_waits := dk_waits d @ [q]\<rparr>)"
proof -
  have "i < Suc (length (dk_waits d)) \<and> undecided ((dk_waits d @ [q]) ! i) \<and> wt_channel ((dk_waits d @ [q]) ! i) = c \<and>
      wt_ticket ((dk_waits d @ [q]) ! i) = t" if "registered c t reg = Some i" for c t i
    using assms(3)[OF that] desk_okD(2)[OF assms(1), of c t i] by (auto simp: nth_append)
  moreover have "i < Suc (length (dk_waits d)) \<and> \<not> never_asked ((dk_waits d @ [q]) ! i) \<and> wt_channel ((dk_waits d @ [q]) ! i) = ck_channel c \<and>
      wt_ticket ((dk_waits d @ [q]) ! i) = ck_ticket c" if "(c, i) \<in> set (dk_clicks d)" for c i
    using desk_okD(3)[OF assms(1) that] by (auto simp: nth_append)
  ultimately show ?thesis using assms(1,2) unfolding desk_ok_def by auto
qed

lemma desk_ok_prompt: "desk_ok d \<Longrightarrow> desk_ok (prompt_held channel thread held now aborted d)"
proof -
  assume d: "desk_ok d"
  note w = new_wait_phase(1)[of channel thread held now] new_wait_phase(2)[of channel thread held]
  from w have ok: "wait_ok (new_wait channel thread held now)" "wait_ok (dead_wait channel thread held)" by (auto simp: wait_ok_def)
  have "desk_ok (d\<lparr>dk_registry := dk_registry d, dk_waits := dk_waits d @ [dead_wait channel thread held]\<rparr>)"
    using d ok(2) by (intro desk_ok_more) auto
  moreover have "desk_ok (d\<lparr>dk_registry := register_wait channel (hc_ticket held) (length (dk_waits d)) (dk_registry d),
      dk_waits := dk_waits d @ [new_wait channel thread held now]\<rparr>)"
    using d ok(1) w(1) by (intro desk_ok_more) (auto simp: registered_register new_wait_def split: if_splits)
  ultimately show ?thesis by (simp add: prompt_held_def)
qed

lemma desk_ok_answer:
  assumes "desk_ok d"
  shows "desk_ok (click_answered k answer d)"
proof (cases "k < length (dk_clicks d) \<and> answer \<noteq> None")
  case True
  obtain c i where ci: "dk_clicks d ! k = (c, i)" by (cases "dk_clicks d ! k")
  with True have m: "(c, i) \<in> set (dk_clicks d)" by (metis nth_mem)
  let ?d = "d\<lparr>dk_clicks := take k (dk_clicks d) @ drop (Suc k) (dk_clicks d)\<rparr>"
  have d: "desk_ok ?d" using assms by (intro desk_ok_fewer) (auto dest: in_set_takeD in_set_dropD)
  from desk_okD(3)[OF assms m] have i: "i < length (dk_waits d)" "\<not> never_asked (dk_waits d ! i)" by simp_all
  then have "desk_ok (settle_wait i s ?d)" "desk_ok (settle_wait i s (?d\<lparr>dk_log := l\<rparr>))" for s l
    using desk_ok_settle[OF d, of i s] desk_ok_settle[of "?d\<lparr>dk_log := l\<rparr>" i s] d by simp_all
  with True ci show ?thesis
    by (auto simp: click_answered_def decision_answered_def split: approval_reply.splits option.splits bool.splits)
next
  case False
  then show ?thesis
    using assms desk_ok_fewer[OF assms, of "take k (dk_clicks d) @ drop (Suc k) (dk_clicks d)"]
    by (cases "k < length (dk_clicks d)") (auto simp: click_answered_def dest: in_set_takeD in_set_dropD)
qed

lemma desk_ok_click: "desk_ok d \<Longrightarrow> desk_ok (decision_clicked c d)"
proof -
  assume d: "desk_ok d"
  show ?thesis
  proof (cases "registered (ck_channel c) (ck_ticket c) (dk_registry d)")
    case (Some i)
    from desk_okD(2)[OF d Some] phase_excl(7) d show ?thesis
      by (auto simp: decision_clicked_def Some desk_ok_def)
  qed (use d in \<open>simp add: decision_clicked_def\<close>)
qed

lemma desk_ok_apply: "desk_ok d \<Longrightarrow> desk_allowed e d \<Longrightarrow> desk_ok (desk_apply e d)"
proof (induction e d rule: desk_apply.induct)
  case (2 i pc d)
  then have i: "i < length (dk_waits d)" "wt_posting (dk_waits d ! i)" by (auto simp: wait_at_def split: if_splits)
  note ph = posted_phase[OF desk_okD(1)[OF 2(1) i(1)] i(2), of pc]
  have "\<not> never_asked (finish_wait ((dk_waits d ! i)\<lparr>wt_posting := False, wt_posted := Some pc\<rparr>))" by (simp add: never_asked_def)
  then show ?case using desk_ok_change[OF 2(1) i(1)] ph i by (simp add: card_posted_def change_wait_def)
next
  case (3 i d)
  then show ?case using desk_ok_post_failed by (auto simp: wait_at_def split: if_splits)
next
  case (4 i d)
  then have i: "i < length (dk_waits d)" "wt_deadline (dk_waits d ! i)" by (auto simp: wait_at_def split: if_splits)
  then show ?case using desk_ok_settle[OF 4(1) i(1)] by (simp add: never_asked_def)
next
  case (5 i d)
  then show ?case using desk_ok_aborts by (auto simp: wait_at_def split: if_splits)
next
  case (6 i d)
  then have i: "i < length (dk_waits d)" "wt_awaiting (dk_waits d ! i) \<noteq> None" by (auto simp: wait_at_def split: if_splits)
  note ph = repainted_phase[OF desk_okD(1)[OF 6(1) i(1)] i(2)]
  then show ?case using desk_ok_change[OF 6(1) i(1), of "repainted (dk_waits d ! i)"] i by (simp add: change_wait_def repainted_def)
next
  case (7 i out d)
  then have i: "i < length (dk_waits d)" by (auto simp: wait_at_def split: if_splits)
  note ph = complete_phase[OF desk_okD(1)[OF 7(1) i], of out]
  then show ?case using desk_ok_change[OF 7(1) i, of "complete_wait out (dk_waits d ! i)"] i by (simp add: change_wait_def)
qed (simp_all add: desk_ok_prompt desk_ok_click desk_ok_answer)

theorem desk_run_ok: "desk_run es d \<Longrightarrow> desk_ok d"
proof (induction rule: desk_run.induct)
  case start
  show ?case by (simp add: desk_ok_def empty_desk_def registered_def)
qed (rule desk_ok_apply)

subsection \<open>What a step does to one wait\<close>

definition reply_verdict :: "approval_reply \<Rightarrow> approval_verdict option" where
  "reply_verdict reply = (case reply of ReplyRecorded t v \<Rightarrow> Some v | ReplyAlreadyDecided t v \<Rightarrow> Some v | _ \<Rightarrow> None)"

inductive wait_step :: "desk \<Rightarrow> desk_event \<Rightarrow> nat \<Rightarrow> wait \<Rightarrow> wait \<Rightarrow> bool" for d e i where
  Same: "e \<noteq> EvPostFailed i \<Longrightarrow> e \<noteq> EvAborted i \<Longrightarrow> wait_step d e i p p"
| Expired: "undecided p \<Longrightarrow> e \<noteq> EvPostFailed i \<Longrightarrow> e \<noteq> EvAborted i \<Longrightarrow> wait_step d e i p (settled_now SettledExpired p)"
| Decided: "undecided p \<Longrightarrow> e = EvAnswer k (Some reply) \<Longrightarrow> k < length (dk_clicks d) \<Longrightarrow> dk_clicks d ! k = (c, i) \<Longrightarrow>
    reply_verdict reply = Some v \<Longrightarrow> wait_step d e i p (settled_now (verdict_settlement v (ck_approver c)) p)"
| Posted: "e = EvPosted i pc \<Longrightarrow> wt_posting p \<Longrightarrow>
    wait_step d e i p (finish_wait (p\<lparr>wt_posting := False, wt_posted := Some pc\<rparr>))"
| Unposted: "e = EvPostFailed i \<Longrightarrow> undecided p \<Longrightarrow> wt_posting p \<Longrightarrow>
    wait_step d e i p (settled_now SettledExpired (p\<lparr>wt_posting := False, wt_post_failed := True\<rparr>))"
| Unposted_late: "e = EvPostFailed i \<Longrightarrow> settled_early p \<Longrightarrow> wt_posting p \<Longrightarrow>
    wait_step d e i p (p\<lparr>wt_posting := False, wt_post_failed := True\<rparr>)"
| Abort_open: "e = EvAborted i \<Longrightarrow> undecided p \<Longrightarrow>
    wait_step d e i p (settled_now SettledExpired (p\<lparr>wt_aborted := True, wt_on_abort := False, wt_on_abandoned := False\<rparr>))"
| Abort_running: "e = EvAborted i \<Longrightarrow> approved_card p \<Longrightarrow> wt_on_abandoned p \<Longrightarrow>
    wait_step d e i p (on_abandoned (p\<lparr>wt_aborted := True, wt_on_abort := False, wt_on_abandoned := False\<rparr>))"
| Abort_unheard: "e = EvAborted i \<Longrightarrow> \<not> undecided p \<Longrightarrow> \<not> wt_on_abandoned p \<Longrightarrow>
    wait_step d e i p (p\<lparr>wt_aborted := True, wt_on_abort := False, wt_on_abandoned := False\<rparr>)"
| Repainted: "e = EvRepainted i \<Longrightarrow> wt_awaiting p \<noteq> None \<Longrightarrow> wait_step d e i p (repainted p)"
| Completed: "e = EvCompleted i out \<Longrightarrow> wait_step d e i p (complete_wait out p)"

lemma length_settle_wait [simp]: "length (dk_waits (settle_wait i s d)) = length (dk_waits d)"
  by (simp add: settle_wait_eq)

lemma length_change_wait [simp]: "length (dk_waits (change_wait i f d)) = length (dk_waits d)"
  by (simp add: change_wait_def)

lemma nth_settle_wait: "dk_waits (settle_wait i s d) ! j =
    (if j = i \<and> i < length (dk_waits d) \<and> wt_settled (dk_waits d ! i) = None then settled_now s (dk_waits d ! i) else dk_waits d ! j)"
  by (auto simp: settle_wait_eq)

lemma nth_change_wait: "dk_waits (change_wait i f d) ! j = (if j = i \<and> i < length (dk_waits d) then f (dk_waits d ! i) else dk_waits d ! j)"
  by (auto simp: change_wait_def)

lemma clicks_settle_wait [simp]: "dk_clicks (settle_wait i s d) = dk_clicks d"
  by (simp add: settle_wait_eq)

lemma length_desk_apply:
  "length (dk_waits (desk_apply e d)) = (case e of EvHeld a b c x y \<Rightarrow> Suc (length (dk_waits d)) | _ \<Rightarrow> length (dk_waits d))"
  by (cases e) (auto simp: prompt_held_def card_posted_def card_post_failed_def signal_aborts_def Let_def decision_clicked_def
      click_answered_def decision_answered_def split: option.splits bool.splits approval_reply.splits prod.splits)

lemma click_answered_wait:
  assumes "desk_ok d" "k < length (dk_clicks d)" "i < length (dk_waits d)"
  shows "wait_step d (EvAnswer k answer) i (dk_waits d ! i) (dk_waits (click_answered k answer d) ! i)"
proof (cases answer)
  case None
  then show ?thesis using assms(2) by (simp add: click_answered_def wait_step.Same)
next
  case (Some reply)
  obtain c j where cj: "dk_clicks d ! k = (c, j)" by (cases "dk_clicks d ! k")
  with assms(2) have m: "(c, j) \<in> set (dk_clicks d)" by (metis nth_mem)
  have w: "dk_waits (click_answered k answer d) ! i =
      (if i = j \<and> wt_settled (dk_waits d ! i) = None
       then settled_now (case reply_verdict reply of Some v \<Rightarrow> verdict_settlement v (ck_approver c) | None \<Rightarrow> SettledExpired) (dk_waits d ! i)
       else dk_waits d ! i)"
    using assms(2,3) cj Some
    by (cases reply) (auto simp: click_answered_def decision_answered_def nth_settle_wait reply_verdict_def)
  show ?thesis
  proof (cases "i = j \<and> wt_settled (dk_waits d ! i) = None")
    case True
    with desk_okD(3)[OF assms(1) m] phase_excl(1)[OF desk_okD(1)[OF assms(1,3)]] have "undecided (dk_waits d ! i)" by auto
    with True w cj Some assms(2) show ?thesis
      by (cases "reply_verdict reply") (auto intro: wait_step.Expired wait_step.Decided)
  next
    case False
    then show ?thesis using w by (auto intro: wait_step.Same)
  qed
qed

lemma signal_aborts_wait:
  assumes "desk_ok d" "i < length (dk_waits d)" "\<not> wt_aborted (dk_waits d ! j)"
  shows "wait_step d (EvAborted j) i (dk_waits d ! i) (dk_waits (signal_aborts j d) ! i)"
proof (cases "i = j")
  case False
  then show ?thesis by (auto simp: signal_aborts_def Let_def nth_settle_wait nth_change_wait intro: wait_step.Same)
next
  case True
  let ?p = "dk_waits d ! i"
  note p = desk_okD(1)[OF assms(1,2)]
  have u: "undecided ?p \<longleftrightarrow> wt_on_abort ?p" using p by (auto simp: wait_ok_def phase_defs)
  show ?thesis
  proof (cases "wt_on_abort ?p")
    case ab: True
    then have "\<not> wt_on_abandoned ?p" "wt_settled ?p = None" using u by (simp_all add: undecided_def)
    then have "dk_waits (signal_aborts j d) ! i =
        settled_now SettledExpired (?p\<lparr>wt_aborted := True, wt_on_abort := False, wt_on_abandoned := False\<rparr>)"
      using ab True assms(2) by (simp add: signal_aborts_def Let_def nth_settle_wait nth_change_wait)
    then show ?thesis using u ab True by (auto intro: wait_step.Abort_open)
  next
    case nab: False
    show ?thesis
    proof (cases "wt_on_abandoned ?p")
      case ab: True
      then show ?thesis
        using nab True assms(2) wait_step.Abort_running[OF _ phase_excl(5)[OF p ab] ab, where e = "EvAborted j" and d = d]
        by (simp add: signal_aborts_def Let_def nth_change_wait)
    next
      case False
      then show ?thesis using nab u True assms(2) by (auto simp: signal_aborts_def Let_def nth_change_wait intro: wait_step.Abort_unheard)
    qed
  qed
qed

lemma post_failed_wait:
  assumes "desk_ok d" "i < length (dk_waits d)" "j < length (dk_waits d)" "wt_posting (dk_waits d ! j)"
  shows "wait_step d (EvPostFailed j) i (dk_waits d ! i) (dk_waits (card_post_failed j d) ! i)"
proof (cases "i = j")
  case False
  then show ?thesis by (auto simp: card_post_failed_def nth_settle_wait nth_change_wait intro: wait_step.Same)
next
  case True
  from phase_excl(2)[OF desk_okD(1)[OF assms(1,3)] assms(4)] show ?thesis
  proof
    assume u: "undecided (dk_waits d ! j)"
    then have "wt_settled (dk_waits d ! j) = None" by (simp add: undecided_def)
    then show ?thesis
      using True assms(3) wait_step.Unposted[OF refl u assms(4), where d = d]
      by (simp add: card_post_failed_def nth_settle_wait nth_change_wait)
  next
    assume s: "settled_early (dk_waits d ! j)"
    then have "wt_settled (dk_waits d ! j) \<noteq> None" by (simp add: settled_early_def)
    then show ?thesis
      using True assms(3) wait_step.Unposted_late[OF refl s assms(4), where d = d]
      by (auto simp: card_post_failed_def nth_settle_wait nth_change_wait)
  qed
qed

lemma desk_step_wait:
  assumes "desk_ok d" "desk_allowed e d" "i < length (dk_waits d)"
  shows "wait_step d e i (dk_waits d ! i) (dk_waits (desk_apply e d) ! i)"
proof (cases e)
  case (EvHeld a b c x y)
  then show ?thesis using assms(3) by (auto simp: prompt_held_def nth_append intro: wait_step.Same)
next
  case (EvPosted j pc)
  then show ?thesis using assms(2,3)
    by (cases "j = i") (auto simp: card_posted_def nth_change_wait wait_at_def intro: wait_step.Same wait_step.Posted)
next
  case (EvPostFailed j)
  then show ?thesis using post_failed_wait[OF assms(1,3), of j] assms(2) by (auto simp: wait_at_def split: if_splits)
next
  case (EvDeadline j)
  then show ?thesis using assms phase_excl(4)[OF desk_okD(1)[OF assms(1,3)]]
    by (cases "j = i") (auto simp: nth_settle_wait wait_at_def intro: wait_step.Same wait_step.Expired)
next
  case (EvAborted j)
  then show ?thesis using signal_aborts_wait[OF assms(1,3), of j] assms(2) by (auto simp: wait_at_def split: if_splits)
next
  case (EvRepainted j)
  then show ?thesis using assms(2,3)
    by (cases "j = i") (auto simp: nth_change_wait wait_at_def intro: wait_step.Same wait_step.Repainted)
next
  case (EvCompleted j out)
  then show ?thesis
    by (cases "j = i") (auto simp: nth_change_wait intro: wait_step.Same wait_step.Completed)
next
  case (EvClick c)
  then show ?thesis by (auto simp: decision_clicked_def split: option.splits intro: wait_step.Same)
next
  case (EvAnswer k answer)
  then show ?thesis using click_answered_wait[OF assms(1) _ assms(3), of k answer] assms(2) by simp
qed

subsection \<open>What the cards say\<close>

definition faces :: "wait \<Rightarrow> card_status list" where
  "faces p = map snd (wt_repaints p)"

text \<open>The proxy's answers to clicks, each with the click and the wait its handler found.\<close>

fun answers_in :: "desk_event list \<Rightarrow> desk \<Rightarrow> ((click \<times> nat) \<times> approval_reply) list" where
  "answers_in [] d = []"
| "answers_in (e # es) d =
     (case e of EvAnswer k (Some reply) \<Rightarrow> if k < length (dk_clicks d) then [(dk_clicks d ! k, reply)] else [] | _ \<Rightarrow> []) @
     answers_in es (desk_apply e d)"

definition decided :: "desk_event list \<Rightarrow> nat \<Rightarrow> wait \<Rightarrow> approval_verdict \<Rightarrow> string \<Rightarrow> bool" where
  "decided es i p v a \<longleftrightarrow> list_ex (\<lambda>((c, j), reply). j = i \<and> ck_channel c = wt_channel p \<and> ck_ticket c = wt_ticket p \<and>
     ck_approver c = a \<and> reply_verdict reply = Some v) (answers_in es empty_desk)"

fun face_backed :: "desk_event list \<Rightarrow> nat \<Rightarrow> wait \<Rightarrow> card_status \<Rightarrow> bool" where
  "face_backed es i p (CardRunning a) \<longleftrightarrow> decided es i p Approve a"
| "face_backed es i p (CardApproved a) \<longleftrightarrow> decided es i p Approve a \<and> EvCompleted i HeldRan \<in> set es"
| "face_backed es i p (CardRefused a reason) \<longleftrightarrow> decided es i p Approve a \<and>
     (\<exists>refusal. reason = refusal_message refusal \<and> EvCompleted i (HeldRefused refusal) \<in> set es)"
| "face_backed es i p (CardUnanswered a) \<longleftrightarrow> decided es i p Approve a \<and> EvAborted i \<in> set es"
| "face_backed es i p (CardDenied a) \<longleftrightarrow> decided es i p Deny a"
| "face_backed es i p CardExpired \<longleftrightarrow> True"

text \<open>The faces of one card, in order: one refusal, or a running face and at most one end to it.\<close>

definition card_story :: "card_status list \<Rightarrow> bool" where
  "card_story fs \<longleftrightarrow>
     (case fs of
        [] \<Rightarrow> True
      | [f] \<Rightarrow> (case f of CardRunning a \<Rightarrow> True | CardDenied a \<Rightarrow> True | CardExpired \<Rightarrow> True | _ \<Rightarrow> False)
      | [f, g] \<Rightarrow>
          (case f of CardRunning a \<Rightarrow>
             (case g of CardApproved b \<Rightarrow> a = b | CardRefused b reason \<Rightarrow> a = b | CardUnanswered b \<Rightarrow> a = b | _ \<Rightarrow> False)
           | _ \<Rightarrow> False)
      | _ \<Rightarrow> False)"

lemma desk_run_fold: "desk_run es d \<Longrightarrow> d = fold desk_apply es empty_desk"
  by (induction rule: desk_run.induct) auto

lemma answers_in_append: "answers_in (es @ es') d = answers_in es d @ answers_in es' (fold desk_apply es d)"
  by (induction es arbitrary: d) auto

lemma decided_names: "wt_channel p = wt_channel q \<Longrightarrow> wt_ticket p = wt_ticket q \<Longrightarrow> decided es i p v a = decided es i q v a"
  by (simp add: decided_def)

lemma decided_more: "decided es i p v a \<Longrightarrow> decided (es @ es') i p v a"
  by (simp add: decided_def answers_in_append)

lemma face_backed_more: "face_backed es i p f \<Longrightarrow> face_backed (es @ es') i p f"
  by (cases f) (auto intro: decided_more)

lemma face_backed_names: "wt_channel p = wt_channel q \<Longrightarrow> wt_ticket p = wt_ticket q \<Longrightarrow> face_backed es i p f = face_backed es i q f"
  using decided_names[of p q es i] by (cases f) auto

definition settlement_backed :: "desk_event list \<Rightarrow> nat \<Rightarrow> wait \<Rightarrow> bool" where
  "settlement_backed es i p \<longleftrightarrow>
     (case wt_settled p of
        Some (SettledApproved a) \<Rightarrow> decided es i p Approve a
      | Some (SettledDenied a) \<Rightarrow> decided es i p Deny a
      | _ \<Rightarrow> True)"

definition backed :: "desk_event list \<Rightarrow> nat \<Rightarrow> wait \<Rightarrow> bool" where
  "backed es i p \<longleftrightarrow> settlement_backed es i p \<and> (\<forall>f \<in> set (faces p). face_backed es i p f)"

lemma settlement_backed_names:
  "wt_channel p = wt_channel q \<Longrightarrow> wt_ticket p = wt_ticket q \<Longrightarrow> wt_settled p = wt_settled q \<Longrightarrow>
   settlement_backed es i p = settlement_backed es i q"
  using decided_names[of p q es i] by (auto simp: settlement_backed_def split: option.splits settlement.splits)

lemma backed_more: "backed es i p \<Longrightarrow> backed (es @ es') i p"
  by (auto simp: backed_def settlement_backed_def intro: decided_more face_backed_more split: option.splits settlement.splits)

text \<open>A wait that shows no more and is settled no differently stays backed; one more face needs its own backing.\<close>

lemma backed_same:
  "backed es i p \<Longrightarrow> wt_channel q = wt_channel p \<Longrightarrow> wt_ticket q = wt_ticket p \<Longrightarrow> wt_settled q = wt_settled p \<Longrightarrow>
   set (faces q) \<subseteq> set (faces p) \<union> {f. face_backed es i p f} \<Longrightarrow> backed es i q"
  using face_backed_names[of q p es i] settlement_backed_names[of q p es i] by (auto simp: backed_def)

lemma finish_wait_faces:
  "set (faces (finish_wait p)) \<subseteq> set (faces p) \<union>
     (case wt_settled p of Some (SettledApproved a) \<Rightarrow> {CardRunning a} | Some s \<Rightarrow> {refused_status s} | None \<Rightarrow> {})"
  by (auto simp: finish_wait_def Let_def repaint_def faces_def split: option.splits settlement.splits if_splits)

lemma settlement_backed_faces:
  assumes "settlement_backed es i p"
  shows "(case wt_settled p of Some (SettledApproved a) \<Rightarrow> {CardRunning a} | Some s \<Rightarrow> {refused_status s} | None \<Rightarrow> {}) \<subseteq>
     {f. face_backed es i p f}"
proof (cases "wt_settled p")
  case (Some s)
  with assms show ?thesis by (cases s) (simp_all add: settlement_backed_def refused_status_def)
qed simp

lemma backed_finish:
  assumes "backed es i p"
  shows "backed es i (finish_wait p)"
proof (rule backed_same[OF assms])
  have "settlement_backed es i p" using assms by (simp add: backed_def)
  from settlement_backed_faces[OF this] finish_wait_faces[of p]
  show "set (faces (finish_wait p)) \<subseteq> set (faces p) \<union> {f. face_backed es i p f}" by blast
qed simp_all

lemma backed_settled_now:
  assumes "backed es i p" "settlement_backed es i (p\<lparr>wt_settled := Some s\<rparr>)"
  shows "backed es i (settled_now s p)"
proof -
  let ?q = "p\<lparr>wt_settled := Some s, wt_deadline := False, wt_on_abort := False\<rparr>"
  have "settlement_backed es i ?q"
    using assms(2) settlement_backed_names[of "?q" "p\<lparr>wt_settled := Some s\<rparr>"] by simp
  moreover have "\<forall>f \<in> set (faces ?q). face_backed es i ?q f"
    using assms(1) face_backed_names[of "?q" p es i] by (simp add: backed_def faces_def)
  ultimately show ?thesis unfolding settled_now_def by (intro backed_finish) (simp add: backed_def)
qed

lemma backed_completed:
  assumes "wait_ok p" "backed es i p" "EvCompleted i out \<in> set es"
  shows "backed es i (complete_wait out p)"
proof (rule backed_same[OF assms(2)])
  show "set (faces (complete_wait out p)) \<subseteq> set (faces p) \<union> {f. face_backed es i p f}"
  proof
    fix f assume f: "f \<in> set (faces (complete_wait out p))"
    show "f \<in> set (faces p) \<union> {f. face_backed es i p f}"
    proof (cases "f \<in> set (faces p)")
      case False
      with f obtain pc a where r: "wt_resolution p = Some (Completion pc a)"
        and fe: "f = (case out of HeldRan \<Rightarrow> CardApproved a | HeldRefused refusal \<Rightarrow> CardRefused a (refusal_message refusal))"
        by (auto simp: complete_wait_def repaint_def faces_def split: option.splits resolution.splits if_splits)
      from complete_resolved[OF assms(1) r] assms(2) have "decided es i p Approve a"
        by (auto simp: backed_def settlement_backed_def)
      with fe assms(3) show ?thesis by (cases out) auto
    qed simp
  qed
qed auto

lemma backed_abandoned:
  assumes "approved_card p" "backed es i p" "EvAborted i \<in> set es"
  shows "backed es i (on_abandoned (p\<lparr>wt_aborted := True, wt_on_abort := False, wt_on_abandoned := False\<rparr>))"
proof (rule backed_same[OF assms(2)])
  let ?q = "p\<lparr>wt_aborted := True, wt_on_abort := False, wt_on_abandoned := False\<rparr>"
  from assms(1) obtain pc a where a: "wt_settled p = Some (SettledApproved a)" "wt_approved_by p = Some a"
    by (auto simp: approved_card_def)
  with assms(2) have "decided es i p Approve a" by (auto simp: backed_def settlement_backed_def)
  with a assms(3) show "set (faces (on_abandoned ?q)) \<subseteq> set (faces p) \<union> {f. face_backed es i p f}"
    by (auto simp: on_abandoned_def repaint_def faces_def split: option.splits bool.splits)
qed auto

lemma backed_step:
  assumes "desk_run es d" "desk_allowed e d" "i < length (dk_waits d)" "backed es i (dk_waits d ! i)"
  shows "backed (es @ [e]) i (dk_waits (desk_apply e d) ! i)"
proof -
  let ?p = "dk_waits d ! i"
  note ok = desk_run_ok[OF assms(1)]
  note p = desk_okD(1)[OF ok assms(3)]
  have b: "backed (es @ [e]) i ?p" by (rule backed_more[OF assms(4)])
  from desk_step_wait[OF ok assms(2,3)] show ?thesis
  proof (cases rule: wait_step.cases)
    case (Decided k reply c v)
    from Decided have m: "(c, i) \<in> set (dk_clicks d)" by (metis nth_mem)
    from desk_okD(3)[OF ok m] Decided desk_run_fold[OF assms(1)]
    have "decided (es @ [e]) i ?p v (ck_approver c)" by (simp add: decided_def answers_in_append)
    then have "settlement_backed (es @ [e]) i (?p\<lparr>wt_settled := Some (verdict_settlement v (ck_approver c))\<rparr>)"
      using decided_names[of "?p\<lparr>wt_settled := Some (verdict_settlement v (ck_approver c))\<rparr>" ?p "es @ [e]" i]
      by (cases v) (auto simp: settlement_backed_def verdict_settlement_def)
    with Decided(1) b show ?thesis by (simp add: backed_settled_now)
  next
    case Expired
    with b show ?thesis by (simp add: backed_settled_now settlement_backed_def)
  next
    case (Posted pc)
    have "backed (es @ [e]) i (?p\<lparr>wt_posting := False, wt_posted := Some pc\<rparr>)"
      using b by (rule backed_same) (auto simp: faces_def)
    with Posted(1) show ?thesis by (simp add: backed_finish)
  next
    case Unposted
    have "backed (es @ [e]) i (?p\<lparr>wt_posting := False, wt_post_failed := True\<rparr>)"
      using b by (rule backed_same) (auto simp: faces_def)
    with Unposted(1) show ?thesis by (simp add: backed_settled_now settlement_backed_def)
  next
    case Unposted_late
    show ?thesis unfolding Unposted_late(1) using b by (rule backed_same) (auto simp: faces_def)
  next
    case Abort_open
    have "backed (es @ [e]) i (?p\<lparr>wt_aborted := True, wt_on_abort := False, wt_on_abandoned := False\<rparr>)"
      using b by (rule backed_same) (auto simp: faces_def)
    with Abort_open(1) show ?thesis by (simp add: backed_settled_now settlement_backed_def)
  next
    case Abort_running
    then show ?thesis using backed_abandoned[OF Abort_running(3) b] by simp
  next
    case Abort_unheard
    show ?thesis unfolding Abort_unheard(1) using b by (rule backed_same) (auto simp: faces_def)
  next
    case Repainted
    show ?thesis unfolding Repainted(1) using b by (rule backed_same) (auto simp: faces_def repainted_def)
  next
    case (Completed out)
    then show ?thesis using backed_completed[OF p b, of out] by simp
  qed (use b in simp)
qed

lemma backed_new: "wt_settled p = None \<Longrightarrow> wt_repaints p = [] \<Longrightarrow> backed es i p"
  by (simp add: backed_def settlement_backed_def faces_def)

text \<open>A wait the desk has after a step was there before it, or has just begun.\<close>

lemma desk_wait_cases:
  assumes "i < length (dk_waits (desk_apply e d))"
  obtains (old) "i < length (dk_waits d)"
  | (fresh) "i = length (dk_waits d)" "undecided (dk_waits (desk_apply e d) ! i) \<or> never_asked (dk_waits (desk_apply e d) ! i)"
proof (cases "i < length (dk_waits d)")
  case False
  with assms obtain a b c x y where e: "e = EvHeld a b c x y"
    unfolding length_desk_apply by (auto split: desk_event.splits)
  have "length (dk_waits (desk_apply e d)) = Suc (length (dk_waits d))" unfolding length_desk_apply e by simp
  with assms False have "i = length (dk_waits d)" by simp
  with e show ?thesis using fresh by (simp add: prompt_held_def new_wait_phase split: if_splits)
qed (rule old)

lemma desk_run_backed: "desk_run es d \<Longrightarrow> i < length (dk_waits d) \<Longrightarrow> backed es i (dk_waits d ! i)"
proof (induction arbitrary: i rule: desk_run.induct)
  case start
  then show ?case by (simp add: empty_desk_def)
next
  case (step es d e)
  from step.prems show ?case
  proof (cases rule: desk_wait_cases)
    case old
    then show ?thesis using backed_step[OF step.hyps] step.IH by blast
  next
    case fresh
    then show ?thesis by (auto intro!: backed_new simp: undecided_def never_asked_def)
  qed
qed

lemma wait_ok_story:
  assumes "wait_ok p"
  shows "card_story (faces p) \<and> list_all (\<lambda>(pc, f). wt_posted p = Some pc) (wt_repaints p)"
proof (cases "refused_card p")
  case True
  then obtain pc s where "wt_repaints p = [(pc, refused_status s)]" "wt_posted p = Some pc" by (auto simp: refused_card_def)
  then show ?thesis by (cases s) (simp_all add: card_story_def faces_def refused_status_def)
next
  case False
  with assms show ?thesis unfolding wait_ok_def
    by (elim disjE) (auto simp: never_asked_def undecided_def settled_early_def no_card_def approved_card_def
        final_faces_def faces_def card_story_def split: if_splits)
qed

lemma wait_ok_resolution:
  "wait_ok p \<Longrightarrow> wt_resolution p = Some (Completion pc a) \<Longrightarrow> wt_posted p = Some pc \<and> CardRunning a \<in> set (faces p)"
  using complete_resolved[of p pc a] by (auto simp: approved_card_def faces_def split: if_splits)

text \<open>
  C16. Whatever order clicks, answers, posts, repaints, deadlines and aborts arrive in, a card tells the truth:
  every face is painted on the posted card, the faces are one refusal or a running face and at most one end
  to it, approval is shown and the call let go on only where the proxy answered that very ticket's click, in
  its own channel, with an approval, a denial only where it answered one, and the end says what the call's
  answer was.
\<close>

theorem cards_tell_the_truth:
  assumes "desk_run es d" "i < length (dk_waits d)"
  shows "let p = dk_waits d ! i in
    card_story (faces p) \<and> list_all (face_backed es i p) (faces p) \<and> list_all (\<lambda>(pc, f). wt_posted p = Some pc) (wt_repaints p) \<and>
    (case wt_resolution p of
       Some (Completion pc a) \<Rightarrow> wt_posted p = Some pc \<and> decided es i p Approve a
     | _ \<Rightarrow> True)"
proof -
  note p = desk_okD(1)[OF desk_run_ok[OF assms(1)] assms(2)]
  have b: "\<forall>f \<in> set (faces (dk_waits d ! i)). face_backed es i (dk_waits d ! i) f"
    using desk_run_backed[OF assms] by (simp add: backed_def)
  moreover have "wt_posted (dk_waits d ! i) = Some pc \<and> decided es i (dk_waits d ! i) Approve a"
    if "wt_resolution (dk_waits d ! i) = Some (Completion pc a)" for pc a
    using wait_ok_resolution[OF p that] b by auto
  ultimately show ?thesis
    using wait_ok_story[OF p] by (auto simp: Let_def list_all_iff split: option.splits resolution.splits)
qed

subsection \<open>How waits end\<close>

definition expects_nothing :: "wait \<Rightarrow> bool" where
  "expects_nothing p \<longleftrightarrow> wt_resolution p = None \<and> \<not> wt_posting p \<and> \<not> wt_deadline p \<and> wt_awaiting p = None"

definition post_failed_late :: "desk_event list \<Rightarrow> nat \<Rightarrow> bool" where
  "post_failed_late es i \<longleftrightarrow> (\<exists>es1 es2. es = es1 @ EvPostFailed i # es2 \<and>
     wt_settled (dk_waits (fold desk_apply es1 empty_desk) ! i) \<noteq> None)"

lemma split_snoc:
  "(\<exists>es1 es2. es @ [e] = es1 @ x # es2 \<and> P es1) \<longleftrightarrow> (\<exists>es1 es2. es = es1 @ x # es2 \<and> P es1) \<or> e = x \<and> P es"
proof
  assume "\<exists>es1 es2. es @ [e] = es1 @ x # es2 \<and> P es1"
  then obtain es1 es2 where s: "es @ [e] = es1 @ x # es2" "P es1" by blast
  then show "(\<exists>es1 es2. es = es1 @ x # es2 \<and> P es1) \<or> e = x \<and> P es"
    by (cases es2 rule: rev_cases) auto
next
  assume "(\<exists>es1 es2. es = es1 @ x # es2 \<and> P es1) \<or> e = x \<and> P es"
  then show "\<exists>es1 es2. es @ [e] = es1 @ x # es2 \<and> P es1" by fastforce
qed

lemma post_failed_late_snoc:
  "post_failed_late (es @ [e]) i \<longleftrightarrow>
     post_failed_late es i \<or> e = EvPostFailed i \<and> wt_settled (dk_waits (fold desk_apply es empty_desk) ! i) \<noteq> None"
  unfolding post_failed_late_def by (rule split_snoc)

lemma expects_nothing_phase: "wait_ok p \<Longrightarrow> expects_nothing p \<longleftrightarrow> settled_early p \<and> \<not> wt_posting p"
  unfolding wait_ok_def
  by (elim disjE) (auto simp: expects_nothing_def never_asked_def undecided_def settled_early_def no_card_def refused_card_def
      approved_card_def resolves_with_def)

lemma settled_now_expects: "undecided p \<Longrightarrow> \<not> expects_nothing (settled_now s p)"
  using settled_now_phase[of p s]
  by (cases s; cases "wt_posted p")
    (auto simp: expects_nothing_def undecided_def settled_now_def finish_wait_def Let_def repaint_def)

lemma stuck_step:
  assumes "desk_ok d" "desk_allowed e d" "i < length (dk_waits d)"
  shows "expects_nothing (dk_waits (desk_apply e d) ! i) \<longleftrightarrow>
    expects_nothing (dk_waits d ! i) \<or> e = EvPostFailed i \<and> wt_settled (dk_waits d ! i) \<noteq> None"
proof -
  let ?p = "dk_waits d ! i" and ?q = "dk_waits (desk_apply e d) ! i"
  note p = desk_okD(1)[OF assms(1,3)]
  have un: "\<not> expects_nothing ?p" if "undecided ?p" using that by (simp add: expects_nothing_def undecided_def)
  from desk_step_wait[OF assms] show ?thesis
  proof (cases rule: wait_step.cases)
    case Expired
    then show ?thesis using un settled_now_expects by simp
  next
    case Decided
    then show ?thesis using un settled_now_expects by simp
  next
    case (Posted pc)
    note ph = posted_phase[OF p Posted(3), of pc]
    have "\<not> wt_posting ?q" "wt_posted ?q = Some pc"
      unfolding Posted(1) by (auto simp: finish_wait_def Let_def repaint_def split: option.splits settlement.splits)
    with ph expects_nothing_phase[of ?q] have "\<not> expects_nothing ?q" unfolding Posted(1) by (auto simp: settled_early_def)
    moreover have "\<not> expects_nothing ?p" using Posted(3) by (simp add: expects_nothing_def)
    ultimately show ?thesis using Posted(2) by simp
  next
    case Unposted
    have "no_card ?q" using post_failed_phase[OF p Unposted(4)] Unposted(1,3) by (simp add: undecided_def)
    then have "\<not> expects_nothing ?q" by (simp add: no_card_def expects_nothing_def)
    with un Unposted(3) show ?thesis by (simp add: undecided_def)
  next
    case Unposted_late
    then show ?thesis by (auto simp: expects_nothing_def settled_early_def)
  next
    case Abort_open
    then show ?thesis using un settled_now_expects[of "?p\<lparr>wt_on_abort := False, wt_aborted := True, wt_on_abandoned := False\<rparr>"]
      by (auto simp: expects_nothing_def undecided_def settled_now_def finish_wait_def Let_def repaint_def split: option.splits)
  next
    case Abort_running
    then show ?thesis
      by (auto simp: expects_nothing_def approved_card_def resolves_with_def on_abandoned_def repaint_def split: option.splits bool.splits)
  next
    case Abort_unheard
    then show ?thesis by (simp add: expects_nothing_def)
  next
    case Repainted
    then show ?thesis by (auto simp: expects_nothing_def repainted_def)
  next
    case (Completed out)
    then show ?thesis
      by (auto simp: expects_nothing_def complete_wait_def repaint_def split: option.splits resolution.splits)
  qed auto
qed

lemma late_is_stuck:
  "desk_run es d \<Longrightarrow> i < length (dk_waits d) \<and> expects_nothing (dk_waits d ! i) \<longleftrightarrow> post_failed_late es i"
proof (induction arbitrary: i rule: desk_run.induct)
  case start
  then show ?case by (simp add: empty_desk_def post_failed_late_def)
next
  case (step es d e)
  note f = desk_run_fold[OF step.hyps(1), symmetric]
  show ?case
  proof (cases "i < length (dk_waits d)")
    case True
    have "i < length (dk_waits (desk_apply e d))" using True unfolding length_desk_apply by (auto split: desk_event.splits)
    with stuck_step[OF desk_run_ok[OF step.hyps(1)] step.hyps(2) True] step.IH[of i] True show ?thesis
      by (auto simp: post_failed_late_snoc f)
  next
    case False
    have "\<not> post_failed_late (es @ [e]) i"
      using step.IH[of i] False step.hyps(2) by (auto simp: post_failed_late_snoc wait_at_def)
    moreover have "\<not> expects_nothing (dk_waits (desk_apply e d) ! i)" if "i < length (dk_waits (desk_apply e d))"
      using that by (cases rule: desk_wait_cases) (use False in \<open>auto simp: expects_nothing_def undecided_def never_asked_def\<close>)
    ultimately show ?thesis by blast
  qed
qed

text \<open>
  C17. A wait that has not resolved expects the answer to its post, its deadline or its repaint, and so ends,
  with one exception: where the post fails after the wait was settled, by an abort, the deadline or a click,
  nothing is left that would resolve it, whatever happens next.
\<close>

theorem wait_hangs_iff:
  assumes "desk_run es d" "i < length (dk_waits d)"
  shows "expects_nothing (dk_waits d ! i) \<longleftrightarrow> post_failed_late es i"
  using late_is_stuck[OF assms(1), of i] assms(2) by simp

lemma post_failed_late_stays: "post_failed_late es i \<Longrightarrow> post_failed_late (es @ es') i"
  unfolding post_failed_late_def by fastforce

text \<open>The run of the exception: the task is aborted while the post is in flight, and the post fails.\<close>

definition desk_demo_held :: held_call where
  "desk_demo_held = \<lparr>hc_server = ''git'', hc_tool = ''push'', hc_arguments = JNull, hc_ticket = ''t1'', hc_expires = 900,
     hc_requesting_user = ''U1'', hc_task = ''task1''\<rparr>"

definition hung_events :: "desk_event list" where
  "hung_events = [EvHeld ''C1'' ''10.1'' desk_demo_held 0 False, EvAborted 0, EvPostFailed 0]"

lemma desk_demo_run: "desk_after es empty_desk = Some d \<Longrightarrow> desk_run es d"
  using desk_after_run[OF desk_run.start] by simp

theorem wait_hangs_iff_witness:
  "\<exists>d. desk_run hung_events d \<and> length (dk_waits d) = 1 \<and> expects_nothing (dk_waits d ! 0) = post_failed_late hung_events 0 \<and>
     expects_nothing (dk_waits d ! 0)"
proof -
  obtain d where d: "desk_after hung_events empty_desk = Some d" "length (dk_waits d) = 1" "expects_nothing (dk_waits d ! 0)"
    by (simp add: hung_events_def wait_at_def empty_desk_def prompt_held_def new_wait_def signal_aborts_def change_wait_def
        settle_wait_eq settled_now_def finish_wait_def card_post_failed_def expects_nothing_def Let_def)
  from wait_hangs_iff[OF desk_demo_run[OF d(1)], of 0] d show ?thesis using desk_demo_run[OF d(1)] by auto
qed

text \<open>
  The other end of a card. An abort while a card shows that its call runs paints the last face; a card is left
  running for good only where the abort came before the card was posted, after the approval.
\<close>

definition aborted_unposted :: "desk_event list \<Rightarrow> nat \<Rightarrow> bool" where
  "aborted_unposted es i \<longleftrightarrow> (\<exists>es1 es2. es = es1 @ EvAborted i # es2 \<and>
     (let p = dk_waits (fold desk_apply es1 empty_desk) ! i
      in wt_posted p = None \<and> (case wt_settled p of Some (SettledApproved a) \<Rightarrow> True | _ \<Rightarrow> False)))"

lemma aborted_unposted_snoc:
  "aborted_unposted (es @ [e]) i \<longleftrightarrow> aborted_unposted es i \<or> e = EvAborted i \<and>
     (let p = dk_waits (fold desk_apply es empty_desk) ! i
      in wt_posted p = None \<and> (case wt_settled p of Some (SettledApproved a) \<Rightarrow> True | _ \<Rightarrow> False))"
  unfolding aborted_unposted_def by (rule split_snoc)

definition left_running :: "wait \<Rightarrow> bool" where
  "left_running p \<longleftrightarrow> wt_aborted p \<and> \<not> wt_completed p \<and> (case wt_settled p of Some (SettledApproved a) \<Rightarrow> True | _ \<Rightarrow> False)"

lemma verdict_settlement_left: "\<not> wt_aborted p \<Longrightarrow> \<not> left_running (settled_now s p)"
  by (simp add: left_running_def)

lemma left_running_step:
  assumes "desk_ok d" "desk_allowed e d" "i < length (dk_waits d)" "left_running (dk_waits (desk_apply e d) ! i)"
  shows "left_running (dk_waits d ! i) \<or> e = EvAborted i \<and> wt_posted (dk_waits d ! i) = None \<and>
    (case wt_settled (dk_waits d ! i) of Some (SettledApproved a) \<Rightarrow> True | _ \<Rightarrow> False)"
proof -
  let ?p = "dk_waits d ! i" and ?q = "dk_waits (desk_apply e d) ! i"
  note p = desk_okD(1)[OF assms(1,3)]
  from desk_step_wait[OF assms(1,2,3)] show ?thesis
  proof (cases rule: wait_step.cases)
    case Abort_running
    have "wt_completed ?q"
      unfolding Abort_running(1) using Abort_running(3,4)
      by (auto simp: on_abandoned_def repaint_def approved_card_def split: if_splits)
    with assms(4) show ?thesis by (simp add: left_running_def)
  next
    case Abort_unheard
    have "wt_posted ?p = None" if "wt_settled ?p = Some (SettledApproved a)" "\<not> wt_completed ?p" for a
      using p Abort_unheard(4) that
      by (auto simp: wait_ok_def never_asked_def undecided_def settled_early_def no_card_def refused_card_def approved_card_def)
    with assms(4) Abort_unheard show ?thesis by (auto simp: left_running_def split: option.splits settlement.splits)
  next
    case (Completed out)
    have "wt_completed ?p \<longrightarrow> wt_completed ?q"
      unfolding Completed(1) by (auto simp: complete_wait_def repaint_def split: option.splits resolution.splits)
    with assms(4) Completed(1) show ?thesis by (simp add: left_running_def)
  qed (use assms(4) in \<open>auto simp: left_running_def undecided_def repainted_def\<close>)
qed

lemma left_running_late: "desk_run es d \<Longrightarrow> i < length (dk_waits d) \<Longrightarrow> left_running (dk_waits d ! i) \<Longrightarrow> aborted_unposted es i"
proof (induction arbitrary: i rule: desk_run.induct)
  case start
  then show ?case by (simp add: empty_desk_def)
next
  case (step es d e)
  note f = desk_run_fold[OF step.hyps(1), symmetric]
  from step.prems(1) show ?case
  proof (cases rule: desk_wait_cases)
    case old
    with left_running_step[OF desk_run_ok[OF step.hyps(1)] step.hyps(2) old step.prems(2)] step.IH[OF old]
    show ?thesis by (auto simp: aborted_unposted_snoc f Let_def)
  next
    case fresh
    with step.prems(2) show ?thesis by (auto simp: left_running_def undecided_def never_asked_def)
  qed
qed

text \<open>
  C18. An abort ends every card: a wait whose signal has aborted shows a card that says the call is running only
  where the abort came after the approval and before the card was posted.
\<close>

theorem abort_ends_running_card:
  assumes "desk_run es d" "i < length (dk_waits d)"
    and "wt_aborted (dk_waits d ! i)" "faces (dk_waits d ! i) = [CardRunning a]"
  shows "aborted_unposted es i"
proof (rule left_running_late[OF assms(1,2)])
  note p = desk_okD(1)[OF desk_run_ok[OF assms(1)] assms(2)]
  have "approved_card (dk_waits d ! i)"
  proof (cases "refused_card (dk_waits d ! i)")
    case True
    then obtain pc s where "wt_repaints (dk_waits d ! i) = [(pc, refused_status s)]" by (auto simp: refused_card_def)
    with assms(4) show ?thesis by (cases s) (simp_all add: faces_def refused_status_def)
  qed (use p assms(4) in \<open>auto simp: wait_ok_def never_asked_def undecided_def settled_early_def no_card_def faces_def\<close>)
  with assms(3,4) show "left_running (dk_waits d ! i)"
    by (auto simp: approved_card_def left_running_def faces_def split: if_splits)
qed

text \<open>A click answered before the post is, and then the abort: the card says its call is running, for good.\<close>

definition running_events :: "desk_event list" where
  "running_events = [EvHeld ''C1'' ''10.1'' desk_demo_held 0 False,
     EvClick \<lparr>ck_channel = ''C1'', ck_ticket = ''t1'', ck_verdict = Approve, ck_approver = ''U2''\<rparr>,
     EvAnswer 0 (Some (ReplyRecorded ''t1'' Approve)), EvAborted 0, EvPosted 0 \<lparr>pc_channel = ''C1'', pc_ts = ''11.2''\<rparr>, EvRepainted 0]"

definition running_desk :: desk where
  "running_desk = the (desk_after running_events empty_desk)"

lemma running_desk: "desk_after running_events empty_desk = Some running_desk" "length (dk_waits running_desk) = 1"
    "wt_aborted (dk_waits running_desk ! 0)" "faces (dk_waits running_desk ! 0) = [CardRunning ''U2'']"
    "wt_resolution (dk_waits running_desk ! 0) = Some (Completion \<lparr>pc_channel = ''C1'', pc_ts = ''11.2''\<rparr> ''U2'')"
proof -
  show "length (dk_waits running_desk) = 1" by code_simp
  show "wt_aborted (dk_waits running_desk ! 0)" by code_simp
  show "faces (dk_waits running_desk ! 0) = [CardRunning ''U2'']" by code_simp
  show "wt_resolution (dk_waits running_desk ! 0) = Some (Completion \<lparr>pc_channel = ''C1'', pc_ts = ''11.2''\<rparr> ''U2'')" by code_simp
  have "desk_after running_events empty_desk \<noteq> None" by code_simp
  then show "desk_after running_events empty_desk = Some running_desk" by (simp add: running_desk_def)
qed

theorem abort_ends_running_card_witness: "desk_run running_events running_desk \<and> aborted_unposted running_events 0"
  using abort_ends_running_card[OF desk_demo_run[OF running_desk(1)], of 0 "''U2''"] running_desk desk_demo_run[OF running_desk(1)] by simp

theorem cards_tell_the_truth_witness:
  "desk_run running_events running_desk \<and> face_backed running_events 0 (dk_waits running_desk ! 0) (CardRunning ''U2'') \<and>
   decided running_events 0 (dk_waits running_desk ! 0) Approve ''U2''"
  using cards_tell_the_truth[OF desk_demo_run[OF running_desk(1)], of 0] running_desk desk_demo_run[OF running_desk(1)] by (simp add: Let_def)

end
