(* ===== verification/Approval_Card.thy ===== *)
theory Approval_Card
  imports Approval_Desk
begin

text \<open>
  The approval card and the click on it (\<open>packages/gateway/src/slack/approval-card.ts\<close>, \<open>approval-ids.ts\<close>,
  \<open>decision.ts\<close>): the short form of a held call's arguments, the blocks of a card in each state, and what an
  interaction envelope is read as. Texts are UTF-16 code units; \<open>JSON.stringify\<close> of an argument is a parameter.
\<close>

subsection \<open>Texts for Slack\<close>

definition tool_name_limit :: nat where "tool_name_limit = 80"
definition arguments_limit :: nat where "arguments_limit = 300"
definition reason_limit :: nat where "reason_limit = 400"

definition replace_unit :: "unit16 \<Rightarrow> js_text \<Rightarrow> js_text \<Rightarrow> js_text" where
  "replace_unit u by us = concat (map (\<lambda>x. if x = u then by else [x]) us)"

definition escape_mrkdwn :: "js_text \<Rightarrow> js_text" where
  "escape_mrkdwn us = replace_unit 0x3E (js ''&gt;'') (replace_unit 0x3C (js ''&lt;'') (replace_unit 0x26 (js ''&amp;'') us))"

definition neutralize_backticks :: "js_text \<Rightarrow> js_text" where
  "neutralize_backticks us = replace_unit 0x60 [0x27] us"

definition card_ellipsis :: unit16 where "card_ellipsis = 0x2026"

definition safe_text :: "js_text \<Rightarrow> nat \<Rightarrow> js_text" where
  "safe_text us limit =
     (let escaped = escape_mrkdwn us in if length escaped \<le> limit then escaped else take (limit - 1) escaped @ [card_ellipsis])"

subsection \<open>The arguments\<close>

definition em_dash :: js_text where "em_dash = [0x20, 0x2014, 0x20]"

text \<open>The iterator of a string: a pair of surrogates is one character.\<close>

fun characters :: "js_text \<Rightarrow> js_text list" where
  "characters [] = []"
| "characters [u] = [[u]]"
| "characters (u # w # us) =
     (if high_surrogate u \<and> low_surrogate w then [u, w] # characters us else [u] # characters (w # us))"

definition text_cost :: "js_text \<Rightarrow> nat" where
  "text_cost us = length (escape_mrkdwn (neutralize_backticks us))"

definition argument_entry :: "('v \<Rightarrow> js_text option) \<Rightarrow> js_text \<times> 'v \<Rightarrow> js_text \<times> js_text" where
  "argument_entry stringify e =
     (fst e, fst e @ js '': '' @ (case stringify (snd e) of Some t \<Rightarrow> t | None \<Rightarrow> js ''undefined''))"

definition more_not_shown :: "nat \<Rightarrow> js_text" where
  "more_not_shown n = js ''+'' @ js_nat n @ js '' more not shown''"

text \<open>The loop: the most entries that fit whole, with the dropped keys named or else counted.\<close>

fun fit_entries :: "(js_text \<times> js_text) list \<Rightarrow> nat \<Rightarrow> js_text option" where
  "fit_entries ordered 0 = None"
| "fit_entries ordered (Suc n) =
     (let shown = Suc n;
          body = js_join (js '', '') (map snd (take shown ordered));
          dropped = map fst (drop shown ordered);
          counted = body @ em_dash @ more_not_shown (length dropped);
          named = counted @ js '': '' @ js_join (js '', '') dropped
      in if text_cost named \<le> arguments_limit then Some named
         else if text_cost counted \<le> arguments_limit then Some counted
         else fit_entries ordered n)"

text \<open>The walk inside a value: characters while the budget lasts.\<close>

fun cut_characters :: "nat \<Rightarrow> js_text list \<Rightarrow> js_text" where
  "cut_characters budget [] = []"
| "cut_characters budget (c # cs) =
     (if budget < text_cost c then [] else c @ cut_characters (budget - text_cost c) cs)"

definition cut_suffix :: "nat \<Rightarrow> js_text" where
  "cut_suffix others =
     (if others = 0 then em_dash @ js ''truncated'' else em_dash @ js ''truncated, '' @ more_not_shown others)"

definition cut_entry :: "js_text \<Rightarrow> nat \<Rightarrow> js_text" where
  "cut_entry first others =
     cut_characters (arguments_limit - text_cost (cut_suffix others) - 1) (characters first) @ [card_ellipsis] @ cut_suffix others"

definition render_held_call_arguments :: "('v \<Rightarrow> js_text option) \<Rightarrow> (js_text \<times> 'v) list \<Rightarrow> js_text option" where
  "render_held_call_arguments stringify args =
     (let entries = map (argument_entry stringify) args;
          whole = js_join (js '', '') (map snd entries);
          ordered = sort_key (\<lambda>e. text_cost (snd e)) entries
      in if entries = [] then None
         else if text_cost whole \<le> arguments_limit then Some whole
         else case fit_entries ordered (length ordered - 1) of
             Some t \<Rightarrow> Some t
           | None \<Rightarrow> Some (cut_entry (snd (hd ordered)) (length ordered - 1)))"

subsection \<open>The card\<close>

record slack_button =
  sb_action :: string
  sb_label :: string
  sb_primary :: bool
  sb_value :: js_text
  sb_spoken :: js_text

datatype slack_block = SectionBlock js_text | ContextBlock js_text | ActionsBlock "slack_button list"

record slack_card =
  sc_color :: "string option"
  sc_fallback :: js_text
  sc_blocks :: "slack_block list"

datatype card_look = LookAwaiting js_text nat | LookFace card_status

definition approve_action_id :: string where "approve_action_id = ''libero_approval_approve''"
definition deny_action_id :: string where "deny_action_id = ''libero_approval_deny''"

primrec face_colour :: "card_status \<Rightarrow> string option" where
  "face_colour (CardRunning a) = None"
| "face_colour (CardApproved a) = Some ''#1BA85A''"
| "face_colour (CardDenied a) = Some ''#FF6B5B''"
| "face_colour (CardRefused a r) = Some ''#FF6B5B''"
| "face_colour CardExpired = Some ''#FF6B5B''"
| "face_colour (CardUnanswered a) = None"

primrec face_label :: "card_status \<Rightarrow> js_text" where
  "face_label (CardRunning a) = js ''APPROVED'' @ em_dash @ js ''RUNNING''"
| "face_label (CardApproved a) = js ''APPROVED''"
| "face_label (CardDenied a) = js ''DENIED''"
| "face_label (CardRefused a r) = js ''APPROVED'' @ em_dash @ js ''BLOCKED''"
| "face_label CardExpired = js ''EXPIRED''"
| "face_label (CardUnanswered a) = js ''APPROVED'' @ em_dash @ js ''UNANSWERED''"

definition card_deadline :: "nat \<Rightarrow> js_text" where
  "card_deadline expires =
     (let seconds = js_nat (expires div 1000)
      in js ''Expires <!date^'' @ seconds @ js ''^{time}|at '' @ seconds @ js ''>'')"

definition approved_by :: "string \<Rightarrow> js_text" where
  "approved_by a = js ''Approved by <@'' @ js a @ js ''>.''"

primrec face_sentence :: "card_status \<Rightarrow> js_text" where
  "face_sentence (CardRunning a) = js ''. A human approved it; the call is running.''"
| "face_sentence (CardApproved a) = js ''. A human approved it and the call ran.''"
| "face_sentence (CardDenied a) = js ''. The call did not run.''"
| "face_sentence (CardRefused a r) = js ''. A human approved it, and the call was refused anyway. It did not run.''"
| "face_sentence CardExpired = js ''. The call did not run.''"
| "face_sentence (CardUnanswered a) = js ''. A human approved it and the task ended before the call answered. It may have run.''"

primrec face_context :: "card_status \<Rightarrow> js_text" where
  "face_context (CardRunning a) = approved_by a"
| "face_context (CardApproved a) = approved_by a"
| "face_context (CardDenied a) = js ''Denied by <@'' @ js a @ js ''>.''"
| "face_context (CardRefused a r) = approved_by a @ js '' '' @ safe_text (js r) reason_limit"
| "face_context CardExpired = js ''No decision before the deadline. Asking again raises a new approval.''"
| "face_context (CardUnanswered a) = approved_by a @ js '' The audit log has what the call did.''"

primrec face_fallback :: "card_status \<Rightarrow> js_text \<Rightarrow> js_text" where
  "face_fallback (CardRunning a) tool = js ''Approved: a human approved '' @ tool @ js '' and the call is running.''"
| "face_fallback (CardApproved a) tool = js ''Approved: a human approved '' @ tool @ js '' and the call ran.''"
| "face_fallback (CardDenied a) tool = js ''Denied: a human denied '' @ tool @ js ''. The call did not run.''"
| "face_fallback (CardRefused a r) tool = js ''Blocked: '' @ tool @ js '' was approved by a human and refused anyway. The call did not run.''"
| "face_fallback CardExpired tool = js ''Expired: nobody decided '' @ tool @ js '' before the deadline. The call did not run.''"
| "face_fallback (CardUnanswered a) tool = js ''Unanswered: '' @ tool @ js '' was approved and the task ended before the call answered. It may have run.''"

definition code_span :: "js_text \<Rightarrow> js_text" where
  "code_span us = [0x60] @ us @ [0x60]"

definition call_named :: "js_text \<Rightarrow> js_text option \<Rightarrow> js_text" where
  "call_named tool detail = code_span tool @ (case detail of None \<Rightarrow> [] | Some d \<Rightarrow> js '' on '' @ code_span d)"

definition awaiting_buttons :: "js_text \<Rightarrow> js_text \<Rightarrow> slack_button list" where
  "awaiting_buttons tool ticket =
     [\<lparr>sb_action = approve_action_id, sb_label = ''Approve once'', sb_primary = True, sb_value = ticket,
       sb_spoken = js ''Approve one call to '' @ tool\<rparr>,
      \<lparr>sb_action = deny_action_id, sb_label = ''Deny'', sb_primary = False, sb_value = ticket,
       sb_spoken = js ''Deny the call to '' @ tool\<rparr>]"

definition render_approval_card :: "js_text \<Rightarrow> js_text option \<Rightarrow> card_look \<Rightarrow> slack_card" where
  "render_approval_card tool_name arguments look =
     (let tool = safe_text (neutralize_backticks tool_name) tool_name_limit;
          detail = map_option (\<lambda>a. safe_text (neutralize_backticks a) arguments_limit) arguments;
          call = call_named tool detail
      in case look of
          LookAwaiting ticket expires \<Rightarrow>
            \<lparr>sc_color = Some ''#F5B544'',
             sc_fallback = js ''Awaiting a human: '' @ tool @ js '' is held until someone approves or denies it.'',
             sc_blocks =
               [SectionBlock (code_span (js ''APPROVAL REQUIRED'') @ [0x0A] @ js ''The agent wants to call '' @ call @
                  js ''. The call is held until a human decides.''),
                ContextBlock (card_deadline expires @ [0x20, 0xB7, 0x20] @ js ''Approving runs this exact call and no other'' @ em_dash @
                  js ''the ticket binds its arguments by hash.''),
                ActionsBlock (awaiting_buttons tool ticket)]\<rparr>
        | LookFace face \<Rightarrow>
            \<lparr>sc_color = face_colour face,
             sc_fallback = face_fallback face tool,
             sc_blocks =
               [SectionBlock (code_span (face_label face) @ [0x0A] @ js ''The agent asked to call '' @ call @ face_sentence face),
                ContextBlock (face_context face)]\<rparr>)"

subsection \<open>The click\<close>

text \<open>An envelope's body: a value of \<open>JSON.parse\<close>, an object being its entries.\<close>

datatype slack_value =
    SvNull
  | SvBool bool
  | SvNumber
  | SvText js_text
  | SvArray "slack_value list"
  | SvObject "(string \<times> slack_value) list"

record slack_decision =
  sd_team :: js_text
  sd_channel :: js_text
  sd_approver :: js_text
  sd_ticket :: js_text
  sd_verdict :: approval_verdict
  sd_message_ts :: js_text
  sd_thread_ts :: js_text

datatype decision_ignored = NotAnInteraction | NotAnApproval | UnknownVerdict | MissingField

definition ticket_id_limit :: nat where "ticket_id_limit = 128"

definition as_record :: "slack_value option \<Rightarrow> (string \<times> slack_value) list option" where
  "as_record v = (case v of Some (SvObject entries) \<Rightarrow> Some entries | _ \<Rightarrow> None)"

definition read_string :: "(string \<times> slack_value) list \<Rightarrow> string \<Rightarrow> js_text option" where
  "read_string source key = (case map_of source key of Some (SvText t) \<Rightarrow> if t = [] then None else Some t | _ \<Rightarrow> None)"

definition read_nested_id :: "(string \<times> slack_value) list \<Rightarrow> string \<Rightarrow> string \<Rightarrow> js_text option" where
  "read_nested_id source parent key = Option.bind (as_record (map_of source parent)) (\<lambda>nested. read_string nested key)"

definition verdict_for_action :: "js_text \<Rightarrow> approval_verdict option" where
  "verdict_for_action a = (if a = js approve_action_id then Some Approve else if a = js deny_action_id then Some Deny else None)"

definition approval_action :: "js_text \<Rightarrow> bool" where
  "approval_action a \<longleftrightarrow> take (length ''libero_approval_'') a = js ''libero_approval_''"

definition first_some :: "'a option \<Rightarrow> 'a option \<Rightarrow> 'a option" where
  "first_some a b = (case a of None \<Rightarrow> b | Some x \<Rightarrow> Some x)"

definition to_decision :: "slack_value \<Rightarrow> decision_ignored + slack_decision" where
  "to_decision envelope =
     (case as_record (Some envelope) of
        None \<Rightarrow> Inl NotAnInteraction
      | Some body \<Rightarrow>
          if map_of body ''type'' \<noteq> Some (SvText (js ''block_actions'')) then Inl NotAnInteraction
          else case map_of body ''actions'' of
              Some (SvArray actions) \<Rightarrow>
                (case as_record (case actions of [] \<Rightarrow> None | a # as \<Rightarrow> Some a) of
                   None \<Rightarrow> Inl NotAnInteraction
                 | Some action \<Rightarrow>
                     (case read_string action ''action_id'' of
                        None \<Rightarrow> Inl NotAnInteraction
                      | Some action_id \<Rightarrow>
                          if \<not> approval_action action_id then Inl NotAnApproval
                          else case verdict_for_action action_id of
                              None \<Rightarrow> Inl UnknownVerdict
                            | Some verdict \<Rightarrow>
                                (case read_string action ''value'' of
                                   None \<Rightarrow> Inl MissingField
                                 | Some ticket \<Rightarrow>
                                     if ticket_id_limit < length ticket then Inl MissingField
                                     else case (read_nested_id body ''team'' ''id'', read_nested_id body ''channel'' ''id'',
                                                read_nested_id body ''user'' ''id'', read_nested_id body ''message'' ''ts'') of
                                         (Some team, Some channel, Some approver, Some ts) \<Rightarrow>
                                           Inr \<lparr>sd_team = team, sd_channel = channel, sd_approver = approver, sd_ticket = ticket,
                                                sd_verdict = verdict, sd_message_ts = ts,
                                                sd_thread_ts = the (first_some (read_nested_id body ''container'' ''thread_ts'')
                                                  (first_some (read_nested_id body ''message'' ''thread_ts'') (Some ts)))\<rparr>
                                       | _ \<Rightarrow> Inl MissingField)))
            | _ \<Rightarrow> Inl NotAnInteraction)"

subsection \<open>Markup\<close>

definition plain_units :: "js_text \<Rightarrow> bool" where
  "plain_units us \<longleftrightarrow> 0x3C \<notin> set us \<and> 0x3E \<notin> set us \<and> 0x60 \<notin> set us"

lemma replace_unit_append [simp]: "replace_unit u by (us @ vs) = replace_unit u by us @ replace_unit u by vs"
  by (simp add: replace_unit_def)

lemma replace_unit_Nil [simp]: "replace_unit u by [] = []"
  by (simp add: replace_unit_def)

lemma set_replace_unit: "set (replace_unit u by us) \<subseteq> (set us - {u}) \<union> set by"
  by (auto simp: replace_unit_def split: if_splits)

lemma escape_append [simp]: "escape_mrkdwn (us @ vs) = escape_mrkdwn us @ escape_mrkdwn vs"
  by (simp add: escape_mrkdwn_def)

lemma escape_Nil [simp]: "escape_mrkdwn [] = []"
  by (simp add: escape_mrkdwn_def)

lemma neutralize_append [simp]: "neutralize_backticks (us @ vs) = neutralize_backticks us @ neutralize_backticks vs"
  by (simp add: neutralize_backticks_def)

lemma neutralize_Nil [simp]: "neutralize_backticks [] = []"
  by (simp add: neutralize_backticks_def)

lemma entity_units: "set (js ''&gt;'') = {0x26, 0x67, 0x74, 0x3B}" "set (js ''&lt;'') = {0x26, 0x6C, 0x74, 0x3B}"
    "set (js ''&amp;'') = {0x26, 0x61, 0x6D, 0x70, 0x3B}"
  by (auto simp: js_def)

lemma escape_units: "set (escape_mrkdwn us) \<subseteq> (set us - {0x3C, 0x3E}) \<union> {0x26, 0x67, 0x6C, 0x74, 0x61, 0x6D, 0x70, 0x3B}"
  using set_replace_unit[of "0x3E" "js ''&gt;''" "replace_unit 0x3C (js ''&lt;'') (replace_unit 0x26 (js ''&amp;'') us)"]
    set_replace_unit[of "0x3C" "js ''&lt;''" "replace_unit 0x26 (js ''&amp;'') us"] set_replace_unit[of "0x26" "js ''&amp;''" us]
  unfolding escape_mrkdwn_def entity_units by auto

lemma neutralize_units: "0x60 \<notin> set (neutralize_backticks us)"
  using set_replace_unit[of "0x60" "[0x27]" us] by (auto simp: neutralize_backticks_def)

lemma plain_safe_text: "plain_units (safe_text (neutralize_backticks us) limit)"
  using escape_units[of "neutralize_backticks us"] neutralize_units[of us]
  by (auto simp: plain_units_def safe_text_def Let_def card_ellipsis_def dest: in_set_takeD)

text \<open>The section's own words hold none of the three either, so its spans are the card's and no one else's.\<close>

definition backticks :: "js_text \<Rightarrow> nat" where
  "backticks us = length (filter (\<lambda>u. u = 0x60) us)"

definition sections_inert :: "nat \<Rightarrow> slack_block list \<Rightarrow> bool" where
  "sections_inert spans blocks \<longleftrightarrow>
     list_all (\<lambda>b. case b of SectionBlock us \<Rightarrow> 0x3C \<notin> set us \<and> 0x3E \<notin> set us \<and> backticks us = 2 * spans | _ \<Rightarrow> True) blocks"

lemma backticks_append [simp]: "backticks (us @ vs) = backticks us + backticks vs"
  by (simp add: backticks_def)

lemma backticks_Cons [simp]: "backticks (u # us) = (if u = 0x60 then Suc (backticks us) else backticks us)"
  by (simp add: backticks_def)

lemma backticks_plain: "plain_units us \<Longrightarrow> backticks us = 0"
  by (auto simp: backticks_def plain_units_def filter_empty_conv)

lemma plain_append [simp]: "plain_units (us @ vs) \<longleftrightarrow> plain_units us \<and> plain_units vs"
  by (auto simp: plain_units_def)

lemma plain_words [simp]: "plain_units em_dash" "plain_units (face_label face)" "plain_units (face_sentence face)"
  "plain_units (js ''APPROVAL REQUIRED'')" "plain_units (js ''The agent wants to call '')"
  "plain_units (js ''. The call is held until a human decides.'')" "plain_units (js ''The agent asked to call '')" "plain_units (js '' on '')"
  by (simp_all add: plain_units_def em_dash_def js_def; cases face; simp add: plain_units_def em_dash_def js_def)+

lemma call_named_inert:
  assumes "plain_units tool" "\<And>d. detail = Some d \<Longrightarrow> plain_units d"
  shows "0x3C \<notin> set (call_named tool detail) \<and> 0x3E \<notin> set (call_named tool detail) \<and>
    backticks (call_named tool detail) = (if detail = None then 2 else 4)"
  using assms backticks_plain[OF assms(1)] backticks_plain[OF assms(2)] plain_words(8)
  by (cases detail) (auto simp: call_named_def code_span_def plain_units_def backticks_def js_def)

text \<open>
  C19. Nothing a model or an upstream wrote is markup on a card: in every state the text of a section holds no
  angle bracket, so no link, mention or date, and no backtick but the two of each of the card's own spans, the
  label, the tool's name and, where there are any, the arguments.
\<close>

theorem card_text_is_inert:
  "sections_inert (if arguments = None then 2 else 3) (sc_blocks (render_approval_card tool arguments look))"
proof -
  let ?tool = "safe_text (neutralize_backticks tool) tool_name_limit"
  let ?detail = "map_option (\<lambda>a. safe_text (neutralize_backticks a) arguments_limit) arguments"
  have "plain_units d" if "?detail = Some d" for d using that plain_safe_text by auto
  note call = call_named_inert[of ?tool ?detail, OF plain_safe_text this]
  have call: "0x3C \<notin> set (call_named ?tool ?detail)" "0x3E \<notin> set (call_named ?tool ?detail)"
    "backticks (call_named ?tool ?detail) = (if arguments = None then 2 else 4)"
    using call by (auto split: if_splits)
  have span: "0x3C \<notin> set (code_span us)" "0x3E \<notin> set (code_span us)" "backticks (code_span us) = 2" if "plain_units us" for us
    using that backticks_plain[OF that] by (auto simp: code_span_def plain_units_def backticks_def)
  have words: "0x3C \<notin> set us" "0x3E \<notin> set us" "backticks us = 0" if "plain_units us" for us
    using that backticks_plain[OF that] by (auto simp: plain_units_def)
  show ?thesis
  proof (cases look)
    case (LookAwaiting ticket expires)
    then show ?thesis
      using call span[of "js ''APPROVAL REQUIRED''"] words[of "js ''The agent wants to call ''"]
        words[of "js ''. The call is held until a human decides.''"]
      by (simp add: render_approval_card_def sections_inert_def Let_def)
  next
    case (LookFace face)
    then show ?thesis
      using call span[of "face_label face"] words[of "js ''The agent asked to call ''"] words[of "face_sentence face"]
      by (simp add: render_approval_card_def sections_inert_def Let_def)
  qed
qed

subsection \<open>The short form of the arguments\<close>

lemma text_cost_append [simp]: "text_cost (us @ vs) = text_cost us + text_cost vs"
  by (simp add: text_cost_def)

lemma text_cost_Nil [simp]: "text_cost [] = 0"
  by (simp add: text_cost_def)

lemma characters_concat: "concat (characters us) = us"
  by (induction us rule: characters.induct) auto

lemma cut_characters_cost: "text_cost (cut_characters budget cs) \<le> budget"
proof (induction cs arbitrary: budget)
  case (Cons c cs)
  show ?case using Cons[of "budget - text_cost c"] by (cases "budget < text_cost c") (simp_all add: le_diff_conv2)
qed simp

lemma cut_characters_prefix: "\<exists>n. cut_characters budget cs = concat (take n cs)"
proof (induction cs arbitrary: budget)
  case (Cons c cs)
  show ?case
  proof (cases "budget < text_cost c")
    case False
    from Cons[of "budget - text_cost c"] obtain n where "cut_characters (budget - text_cost c) cs = concat (take n cs)" by blast
    with False show ?thesis by (intro exI[of _ "Suc n"]) simp
  qed (auto intro: exI[of _ 0])
qed simp

lemma cut_characters_take: "\<exists>n. cut_characters budget (characters us) = take n us"
proof -
  from cut_characters_prefix[of budget "characters us"] obtain n
    where c: "cut_characters budget (characters us) = concat (take n (characters us))" by blast
  have "us = concat (take n (characters us)) @ concat (drop n (characters us))"
    by (metis append_take_drop_id characters_concat concat_append)
  then have "concat (take n (characters us)) = take (length (concat (take n (characters us)))) us"
    by (metis append_eq_conv_conj)
  with c show ?thesis by metis
qed

lemma text_cost_plain: "list_all (\<lambda>u. u \<notin> {0x26, 0x3C, 0x3E}) us \<Longrightarrow> text_cost us = length us"
proof (induction us)
  case (Cons u us)
  have "text_cost [u] = 1" using Cons.prems
    by (auto simp: text_cost_def neutralize_backticks_def replace_unit_def escape_mrkdwn_def)
  moreover have "text_cost (u # us) = text_cost [u] + text_cost us" using text_cost_append[of "[u]" us] by simp
  ultimately show ?case using Cons by simp
qed simp

lemma digit_units: "list_all (\<lambda>u. u \<notin> {0x26, 0x3C, 0x3E}) (js_nat n)"
proof (induction n rule: js_nat.induct)
  case (1 n)
  have "d < 10 \<Longrightarrow> digit_unit d \<notin> {0x26, 0x3C, 0x3E}" for d
  proof -
    assume "d < 10"
    then have "d \<in> set [0, 1, 2, 3, 4, 5, 6, 7, 8, 9]" by auto
    then show ?thesis by (auto simp: digit_unit_def)
  qed
  then show ?case using 1 by (subst js_nat.simps) auto
qed

lemma cut_suffix_cost: "n < 2 ^ 32 \<Longrightarrow> text_cost (cut_suffix n) \<le> 100"
proof -
  assume "n < 2 ^ 32"
  then have "length (js_nat n) \<le> 10" by (intro length_js_nat_le) simp_all
  moreover have "list_all (\<lambda>u. u \<notin> {0x26, 0x3C, 0x3E}) (cut_suffix n)"
    using digit_units[of n] by (simp add: cut_suffix_def more_not_shown_def em_dash_def js_def)
  ultimately show ?thesis
    by (subst text_cost_plain) (simp_all add: cut_suffix_def more_not_shown_def em_dash_def)
qed

lemma cut_entry_cost: "n < 2 ^ 32 \<Longrightarrow> text_cost (cut_entry t n) \<le> arguments_limit"
proof -
  assume n: "n < 2 ^ 32"
  have "text_cost [card_ellipsis] = 1" by (subst text_cost_plain) (simp_all add: card_ellipsis_def)
  with cut_suffix_cost[OF n] cut_characters_cost[of "arguments_limit - text_cost (cut_suffix n) - 1" "characters t"]
  show ?thesis using text_cost_append[of "[card_ellipsis]" "cut_suffix n"] by (simp add: cut_entry_def arguments_limit_def)
qed

text \<open>What a short form that leaves something out looks like, and what it says it leaves out.\<close>

definition partial_form :: "(js_text \<times> js_text) list \<Rightarrow> js_text \<Rightarrow> bool" where
  "partial_form ordered t \<longleftrightarrow>
     (\<exists>n body. n < length ordered \<and> 0 < n \<and> body = js_join (js '', '') (map snd (take n ordered)) @ em_dash @ more_not_shown (length ordered - n) \<and>
        (t = body \<or> t = body @ js '': '' @ js_join (js '', '') (map fst (drop n ordered))))"

definition cut_form :: "(js_text \<times> js_text) list \<Rightarrow> js_text \<Rightarrow> bool" where
  "cut_form ordered t \<longleftrightarrow> (\<exists>k. t = take k (snd (hd ordered)) @ [card_ellipsis] @ cut_suffix (length ordered - 1))"

lemma fit_entries_form:
  "fit_entries ordered n = Some t \<Longrightarrow> n < length ordered \<Longrightarrow> text_cost t \<le> arguments_limit \<and> partial_form ordered t"
proof (induction ordered n rule: fit_entries.induct)
  case (2 ordered n)
  let ?body = "js_join (js '', '') (map snd (take (Suc n) ordered)) @ em_dash @ more_not_shown (length ordered - Suc n)"
  let ?named = "?body @ js '': '' @ js_join (js '', '') (map fst (drop (Suc n) ordered))"
  have p: "partial_form ordered ?body" "partial_form ordered ?named"
    using 2(3) unfolding partial_form_def by blast+
  from 2(2) consider "text_cost ?named \<le> arguments_limit" "t = ?named"
    | "\<not> text_cost ?named \<le> arguments_limit" "text_cost ?body \<le> arguments_limit" "t = ?body"
    | "\<not> text_cost ?named \<le> arguments_limit" "\<not> text_cost ?body \<le> arguments_limit" "fit_entries ordered n = Some t"
    by (auto simp: Let_def split: if_splits)
  then show ?case
  proof cases
    case 3
    then show ?thesis using "2.IH"[OF refl refl refl refl refl] 2(3) by simp
  qed (use p in auto)
qed simp

text \<open>
  C20. What a human decides on is what fits: the short form of a call's arguments never reaches the renderer's
  own cut, is every argument in the call's order where that fits, and otherwise is whole entries, shortest
  first, with the number of those left out, or one entry cut short that says so.
\<close>

theorem arguments_never_cut_silently:
  assumes "args \<noteq> []" "length args < 2 ^ 32"
  shows "\<exists>t. render_held_call_arguments stringify args = Some t \<and>
    safe_text (neutralize_backticks t) arguments_limit = escape_mrkdwn (neutralize_backticks t) \<and>
    (let entries = map (argument_entry stringify) args; ordered = sort_key (\<lambda>e. text_cost (snd e)) entries
     in if text_cost (js_join (js '', '') (map snd entries)) \<le> arguments_limit then t = js_join (js '', '') (map snd entries)
        else partial_form ordered t \<or> cut_form ordered t)"
proof -
  define entries where "entries = map (argument_entry stringify) args"
  define ordered where "ordered = sort_key (\<lambda>e. text_cost (snd e)) entries"
  have len: "length ordered = length args" "entries \<noteq> []" "0 < length ordered"
    using assms(1) by (simp_all add: ordered_def entries_def)
  obtain t where t: "render_held_call_arguments stringify args = Some t" "text_cost t \<le> arguments_limit"
    and form: "if text_cost (js_join (js '', '') (map snd entries)) \<le> arguments_limit then t = js_join (js '', '') (map snd entries)
      else partial_form ordered t \<or> cut_form ordered t"
  proof (cases "text_cost (js_join (js '', '') (map snd entries)) \<le> arguments_limit")
    case True
    then show ?thesis
      using len(2) by (intro that[of "js_join (js '', '') (map snd entries)"]) (simp_all add: render_held_call_arguments_def Let_def entries_def)
  next
    case False
    show ?thesis
    proof (cases "fit_entries ordered (length ordered - 1)")
      case (Some t)
      with fit_entries_form[OF Some] len(2,3) False show ?thesis
        by (intro that[of t]) (simp_all add: render_held_call_arguments_def Let_def entries_def ordered_def)
    next
      case None
      obtain k where "cut_characters (arguments_limit - text_cost (cut_suffix (length ordered - 1)) - 1) (characters (snd (hd ordered))) =
          take k (snd (hd ordered))"
        using cut_characters_take by blast
      then have "cut_form ordered (cut_entry (snd (hd ordered)) (length ordered - 1))"
        by (auto simp: cut_form_def cut_entry_def)
      moreover have "text_cost (cut_entry (snd (hd ordered)) (length ordered - 1)) \<le> arguments_limit"
        using assms(2) len(1) by (intro cut_entry_cost) simp
      ultimately show ?thesis
        using None len(2) False
        by (intro that[of "cut_entry (snd (hd ordered)) (length ordered - 1)"])
          (simp_all add: render_held_call_arguments_def Let_def entries_def ordered_def)
    qed
  qed
  with t(2) show ?thesis
    unfolding entries_def ordered_def by (auto simp: safe_text_def text_cost_def Let_def)
qed

text \<open>Three arguments, one of them long: the flag is shown, and the rest is named.\<close>

definition demo_arguments :: "(js_text \<times> js_text) list" where
  "demo_arguments = [(js ''diff'', replicate 400 0x61), (js ''force'', js ''true''), (js ''note'', replicate 300 0x3C)]"

theorem arguments_never_cut_silently_witness:
  "\<exists>t. render_held_call_arguments Some demo_arguments = Some t \<and>
     safe_text (neutralize_backticks t) arguments_limit = escape_mrkdwn (neutralize_backticks t)"
  using arguments_never_cut_silently[of demo_arguments Some] by (auto simp: demo_arguments_def)

subsection \<open>From the card to the decision\<close>

text \<open>What Slack sends for a button of a card: the fields the reader looks at, among whatever else.\<close>

definition button_clicked :: "js_text \<Rightarrow> js_text \<Rightarrow> js_text \<Rightarrow> js_text \<Rightarrow> js_text option \<Rightarrow> slack_button \<Rightarrow> slack_value" where
  "button_clicked team channel user ts thread b =
     SvObject [(''type'', SvText (js ''block_actions'')),
       (''team'', SvObject [(''id'', SvText team)]), (''channel'', SvObject [(''id'', SvText channel)]),
       (''user'', SvObject [(''id'', SvText user)]),
       (''message'', SvObject ((''ts'', SvText ts) # (case thread of Some t \<Rightarrow> [(''thread_ts'', SvText t)] | None \<Rightarrow> []))),
       (''actions'', SvArray [SvObject [(''action_id'', SvText (js (sb_action b))), (''value'', SvText (sb_value b))]])]"

definition card_buttons :: "slack_card \<Rightarrow> slack_button list" where
  "card_buttons c = concat (map (\<lambda>b. case b of ActionsBlock bs \<Rightarrow> bs | _ \<Rightarrow> []) (sc_blocks c))"

lemma card_buttons_look:
  "card_buttons (render_approval_card tool arguments look) =
     (case look of LookAwaiting ticket expires \<Rightarrow> awaiting_buttons (safe_text (neutralize_backticks tool) tool_name_limit) ticket
      | LookFace face \<Rightarrow> [])"
  by (cases look) (simp_all add: card_buttons_def render_approval_card_def Let_def)

lemma verdict_for_actions [simp]: "verdict_for_action (js approve_action_id) = Some Approve" "verdict_for_action (js deny_action_id) = Some Deny"
    "approval_action (js approve_action_id)" "approval_action (js deny_action_id)" "js approve_action_id \<noteq> []" "js deny_action_id \<noteq> []"
  by code_simp+

text \<open>
  C21. A card asks about one ticket and its click answers for that one: a held call's card has exactly the two
  buttons, each read back as its own verdict on the card's ticket by whoever clicked, in the channel and thread
  of the click, and no other face of a card has a button.
\<close>

theorem card_click_round_trip:
  assumes "ticket \<noteq> []" "length ticket \<le> ticket_id_limit" "team \<noteq> []" "channel \<noteq> []" "user \<noteq> []" "ts \<noteq> []" "thread \<noteq> Some []"
  shows "map (\<lambda>b. (sb_label b, to_decision (button_clicked team channel user ts thread b)))
      (card_buttons (render_approval_card tool arguments (LookAwaiting ticket expires))) =
    [(''Approve once'', Inr \<lparr>sd_team = team, sd_channel = channel, sd_approver = user, sd_ticket = ticket, sd_verdict = Approve,
        sd_message_ts = ts, sd_thread_ts = (case thread of Some t \<Rightarrow> t | None \<Rightarrow> ts)\<rparr>),
     (''Deny'', Inr \<lparr>sd_team = team, sd_channel = channel, sd_approver = user, sd_ticket = ticket, sd_verdict = Deny,
        sd_message_ts = ts, sd_thread_ts = (case thread of Some t \<Rightarrow> t | None \<Rightarrow> ts)\<rparr>)] \<and>
    card_buttons (render_approval_card tool arguments (LookFace face)) = []"
  using assms
  by (cases thread)
    (simp_all add: card_buttons_look awaiting_buttons_def to_decision_def button_clicked_def as_record_def read_string_def
      read_nested_id_def first_some_def)

theorem card_click_round_trip_witness:
  "map (\<lambda>b. sb_label b) (card_buttons (render_approval_card (js ''git.push'') None (LookAwaiting (js ''t1'') 90000))) = [''Approve once'', ''Deny''] \<and>
   to_decision (button_clicked (js ''T1'') (js ''C1'') (js ''U2'') (js ''1.2'') None
     (hd (card_buttons (render_approval_card (js ''git.push'') None (LookAwaiting (js ''t1'') 90000))))) =
   Inr \<lparr>sd_team = js ''T1'', sd_channel = js ''C1'', sd_approver = js ''U2'', sd_ticket = js ''t1'', sd_verdict = Approve,
     sd_message_ts = js ''1.2'', sd_thread_ts = js ''1.2''\<rparr>"
  using card_click_round_trip[of "js ''t1''" "js ''T1''" "js ''C1''" "js ''U2''" "js ''1.2''" None "js ''git.push''" None 90000]
  by (simp add: card_buttons_look awaiting_buttons_def ticket_id_limit_def js_def)

end
