(* ===== verification/Message_Store.thy ===== *)
theory Message_Store
  imports Js_Text Json "HOL-Library.Multiset"
begin

text \<open>
  The channel's store (\<open>packages/memory/src/store-db.ts\<close>): messages with their full-text index, the agent's
  replies, thread summaries and embeddings, with the triggers that keep derived rows in step. A table is its
  rows in insertion order; a Slack \<open>ts\<close> compares as text. The index's matching and ranking and the vectors'
  distances are SQLite's, and parameters where a read uses them.
\<close>

subsection \<open>Rows\<close>

record message_row =
  mr_id :: nat
  mr_ts :: string
  mr_thread :: "string option"
  mr_user :: string
  mr_name :: "string option"
  mr_text :: js_text
  mr_at :: int

datatype summary_shape = ShapeAnswered | ShapeDecision | ShapeIncident | ShapeOpen | ShapeNothing

record thread_summary =
  ts_thread :: string
  ts_shape :: summary_shape
  ts_text :: js_text
  ts_covers :: string
  ts_count :: nat
  ts_at :: int

datatype source_kind = FactSource | SummarySource | SkillSource

record source_row =
  so_id :: nat
  so_kind :: source_kind
  so_ref :: string
  so_at :: int

text \<open>\<open>st_index\<close> is the rows of \<open>message_fts\<close>, \<open>st_vectors\<close> those of \<open>vec_embedding\<close>; a vector is a \<open>'x\<close>.\<close>

record 'x store =
  st_messages :: "message_row list"
  st_index :: "(nat \<times> js_text) list"
  st_replies :: "message_row list"
  st_summaries :: "thread_summary list"
  st_sources :: "source_row list"
  st_vectors :: "(nat \<times> 'x) list"
  st_model :: "(string \<times> nat) option"

definition empty_store :: "'x store" where
  "empty_store = \<lparr>st_messages = [], st_index = [], st_replies = [], st_summaries = [], st_sources = [], st_vectors = [], st_model = None\<rparr>"

text \<open>A rowid is one more than the greatest.\<close>

definition next_rowid :: "nat list \<Rightarrow> nat" where
  "next_rowid ids = (if ids = [] then 1 else Suc (Max (set ids)))"

text \<open>\<open>COALESCE(thread_ts, ts)\<close>: the thread a message belongs to.\<close>

definition root_of :: "message_row \<Rightarrow> string" where
  "root_of m = (case mr_thread m of Some t \<Rightarrow> t | None \<Rightarrow> mr_ts m)"

subsection \<open>The triggers\<close>

text \<open>\<open>embedding_source_delete\<close>, over the sources that are deleted.\<close>

definition delete_sources :: "(source_row \<Rightarrow> bool) \<Rightarrow> 'x store \<Rightarrow> 'x store" where
  "delete_sources P st =
     st\<lparr>st_sources := filter (\<lambda>s. \<not> P s) (st_sources st),
        st_vectors := filter (\<lambda>v. \<not> (\<exists>s \<in> set (st_sources st). P s \<and> so_id s = fst v)) (st_vectors st)\<rparr>"

text \<open>\<open>thread_summary_delete\<close>, over the summaries that are deleted.\<close>

definition delete_summary :: "string \<Rightarrow> 'x store \<Rightarrow> 'x store" where
  "delete_summary thread st =
     (if list_ex (\<lambda>s. ts_thread s = thread) (st_summaries st)
      then delete_sources (\<lambda>s. so_kind s = SummarySource \<and> so_ref s = thread)
             (st\<lparr>st_summaries := filter (\<lambda>s. ts_thread s \<noteq> thread) (st_summaries st)\<rparr>)
      else st)"

subsection \<open>Messages\<close>

definition insert_message :: "message_row \<Rightarrow> message_row list \<Rightarrow> bool \<times> message_row list" where
  "insert_message m rows =
     (if mr_ts m \<in> mr_ts ` set rows then (False, rows)
      else (True, rows @ [m\<lparr>mr_id := next_rowid (map mr_id rows)\<rparr>]))"

definition append_message :: "message_row \<Rightarrow> 'x store \<Rightarrow> bool \<times> 'x store" where
  "append_message m st =
     (let (added, rows) = insert_message m (st_messages st)
      in (added, st\<lparr>st_messages := rows,
            st_index := (if added then st_index st @ [(mr_id (last rows), mr_text m)] else st_index st)\<rparr>))"

definition append_agent_reply :: "message_row \<Rightarrow> 'x store \<Rightarrow> bool \<times> 'x store" where
  "append_agent_reply m st = (let (added, rows) = insert_message m (st_replies st) in (added, st\<lparr>st_replies := rows\<rparr>))"

definition row_at :: "string \<Rightarrow> message_row list \<Rightarrow> message_row option" where
  "row_at ts rows = find (\<lambda>m. mr_ts m = ts) rows"

definition without_row :: "string \<Rightarrow> message_row list \<Rightarrow> message_row list" where
  "without_row ts rows = filter (\<lambda>m. mr_ts m \<noteq> ts) rows"

text \<open>The triggers of a deletion: the index is told the row as it was indexed, and the thread's summary goes.\<close>

definition remove_message :: "string \<Rightarrow> 'x store \<Rightarrow> bool \<times> 'x store" where
  "remove_message ts st =
     (case row_at ts (st_messages st) of
        Some old \<Rightarrow>
          (True, delete_summary (root_of old)
            (st\<lparr>st_messages := without_row ts (st_messages st),
               st_index := filter (\<lambda>e. e \<noteq> (mr_id old, mr_text old)) (st_index st)\<rparr>))
      | None \<Rightarrow> (row_at ts (st_replies st) \<noteq> None, st\<lparr>st_replies := without_row ts (st_replies st)\<rparr>))"

definition set_text :: "string \<Rightarrow> js_text \<Rightarrow> message_row list \<Rightarrow> message_row list" where
  "set_text ts body rows = map (\<lambda>m. if mr_ts m = ts then m\<lparr>mr_text := body\<rparr> else m) rows"

definition replace_text :: "string \<Rightarrow> js_text \<Rightarrow> 'x store \<Rightarrow> bool \<times> 'x store" where
  "replace_text ts body st =
     (case row_at ts (st_messages st) of
        Some old \<Rightarrow>
          (True, delete_summary (root_of old)
            (st\<lparr>st_messages := set_text ts body (st_messages st),
               st_index := filter (\<lambda>e. e \<noteq> (mr_id old, mr_text old)) (st_index st) @ [(mr_id old, body)]\<rparr>))
      | None \<Rightarrow> (row_at ts (st_replies st) \<noteq> None, st\<lparr>st_replies := set_text ts body (st_replies st)\<rparr>))"

subsection \<open>Reads\<close>

definition read_max_limit :: int where "read_max_limit = 200"

text \<open>\<open>clampLimit\<close> of a finite number, truncated; the others read as one.\<close>

definition clamp_limit :: "int option \<Rightarrow> nat" where
  "clamp_limit limit = (case limit of None \<Rightarrow> 1 | Some n \<Rightarrow> nat (max 1 (min read_max_limit n)))"

definition newest_first :: "message_row list \<Rightarrow> message_row list" where
  "newest_first rows = rev (sort_key mr_ts rows)"

definition in_thread :: "string \<Rightarrow> message_row \<Rightarrow> bool" where
  "in_thread thread m \<longleftrightarrow> mr_ts m = thread \<or> mr_thread m = Some thread"

definition recent :: "int option \<Rightarrow> 'x store \<Rightarrow> message_row list" where
  "recent limit st = rev (take (clamp_limit limit) (newest_first (st_messages st)))"

definition recent_in_thread :: "string \<Rightarrow> int option \<Rightarrow> 'x store \<Rightarrow> message_row list" where
  "recent_in_thread thread limit st =
     rev (take (clamp_limit limit) (newest_first (filter (in_thread thread) (st_messages st))))"

datatype voice = HumanVoice | AgentVoice

definition transcript_in_thread :: "string \<Rightarrow> int option \<Rightarrow> 'x store \<Rightarrow> (voice \<times> message_row) list" where
  "transcript_in_thread thread limit st =
     (let bounded = clamp_limit limit;
          said = take bounded (newest_first (filter (in_thread thread) (st_messages st)));
          replied = take bounded (newest_first (filter (in_thread thread) (st_replies st)));
          merged = sort_key (\<lambda>e. mr_ts (snd e)) (map (Pair HumanVoice) said @ map (Pair AgentVoice) replied)
      in if length merged \<le> bounded then merged else drop (length merged - bounded) merged)"

text \<open>A read of the index: \<open>matches\<close> is the ids it answers with, best first, for a query over its rows.\<close>

definition search_messages ::
    "(js_text \<Rightarrow> (nat \<times> js_text) list \<Rightarrow> nat list) \<Rightarrow> js_text \<Rightarrow> nat \<Rightarrow> string option \<Rightarrow> 'x store \<Rightarrow> message_row list" where
  "search_messages matches query bounded exclude st =
     (let joined = List.map_filter (\<lambda>i. find (\<lambda>m. mr_id m = i) (st_messages st))
      in case exclude of
          None \<Rightarrow> joined (take bounded (matches query (st_index st)))
        | Some thread \<Rightarrow> take bounded (filter (\<lambda>m. root_of m \<noteq> thread) (joined (matches query (st_index st)))))"

subsection \<open>Threads and their summaries\<close>

definition thread_roots :: "'x store \<Rightarrow> string list" where
  "thread_roots st = remdups (map root_of (st_messages st))"

definition of_root :: "string \<Rightarrow> 'x store \<Rightarrow> message_row list" where
  "of_root thread st = filter (\<lambda>m. root_of m = thread) (st_messages st)"

definition newest_ts :: "string \<Rightarrow> 'x store \<Rightarrow> string" where
  "newest_ts thread st = Max (mr_ts ` set (of_root thread st))"

record stale_thread =
  sl_thread :: string
  sl_newest :: string
  sl_count :: nat

definition summary_for :: "string \<Rightarrow> 'x store \<Rightarrow> thread_summary option" where
  "summary_for thread st = find (\<lambda>s. ts_thread s = thread) (st_summaries st)"

definition stale_threads :: "string \<Rightarrow> int option \<Rightarrow> 'x store \<Rightarrow> stale_thread list" where
  "stale_threads idle_before limit st =
     take (clamp_limit limit) (rev (sort_key sl_newest
       (map (\<lambda>t. \<lparr>sl_thread = t, sl_newest = newest_ts t st, sl_count = length (of_root t st)\<rparr>)
         (filter (\<lambda>t. newest_ts t st < idle_before \<and>
                      (case summary_for t st of None \<Rightarrow> True | Some s \<Rightarrow> ts_covers s < newest_ts t st))
           (thread_roots st)))))"

definition idle_threads :: "string \<Rightarrow> string \<Rightarrow> int option \<Rightarrow> 'x store \<Rightarrow> (string \<times> string) list" where
  "idle_threads idle_before after limit st =
     take (clamp_limit limit) (rev (sort_key snd
       (map (\<lambda>t. (t, newest_ts t st))
         (filter (\<lambda>t. newest_ts t st < idle_before \<and> after < newest_ts t st) (thread_roots st)))))"

definition put_thread_summary :: "thread_summary \<Rightarrow> 'x store \<Rightarrow> 'x store" where
  "put_thread_summary s st =
     st\<lparr>st_summaries :=
        (if ts_thread s \<in> ts_thread ` set (st_summaries st)
         then map (\<lambda>old. if ts_thread old = ts_thread s then s else old) (st_summaries st)
         else st_summaries st @ [s])\<rparr>"

subsection \<open>Embeddings\<close>

definition max_embedding_dims :: nat where "max_embedding_dims = 4096"

datatype embedding_error = WrongSpace "string \<times> nat" | BadWidth nat

definition ensure_embedding_space :: "string \<Rightarrow> nat \<Rightarrow> 'x store \<Rightarrow> embedding_error + 'x store" where
  "ensure_embedding_space model dims st =
     (case st_model st of
        Some held \<Rightarrow> if held = (model, dims) then Inr st else Inl (WrongSpace held)
      | None \<Rightarrow>
          if dims < 1 \<or> max_embedding_dims < dims then Inl (BadWidth dims)
          else Inr (st\<lparr>st_model := Some (model, dims)\<rparr>))"

definition source_at :: "source_kind \<Rightarrow> string \<Rightarrow> 'x store \<Rightarrow> source_row option" where
  "source_at kind ref st = find (\<lambda>s. so_kind s = kind \<and> so_ref s = ref) (st_sources st)"

text \<open>The upsert of the source gives the id; the vector under it is replaced.\<close>

definition put_embedding ::
    "source_kind \<Rightarrow> string \<Rightarrow> 'x \<Rightarrow> nat \<Rightarrow> string \<Rightarrow> int \<Rightarrow> 'x store \<Rightarrow> embedding_error + 'x store" where
  "put_embedding kind ref vector dims model now st =
     (case ensure_embedding_space model dims st of
        Inl e \<Rightarrow> Inl e
      | Inr st \<Rightarrow>
          let (i, sources) =
            (case source_at kind ref st of
               Some old \<Rightarrow> (so_id old, map (\<lambda>s. if so_id s = so_id old then s\<lparr>so_at := now\<rparr> else s) (st_sources st))
             | None \<Rightarrow>
                 let i = next_rowid (map so_id (st_sources st))
                 in (i, st_sources st @ [\<lparr>so_id = i, so_kind = kind, so_ref = ref, so_at = now\<rparr>]))
          in Inr (st\<lparr>st_sources := sources, st_vectors := filter (\<lambda>v. fst v \<noteq> i) (st_vectors st) @ [(i, vector)]\<rparr>))"

definition remove_embedding :: "source_kind \<Rightarrow> string \<Rightarrow> 'x store \<Rightarrow> bool \<times> 'x store" where
  "remove_embedding kind ref st =
     (source_at kind ref st \<noteq> None, delete_sources (\<lambda>s. so_kind s = kind \<and> so_ref s = ref) st)"

definition drop_embeddings :: "'x store \<Rightarrow> (string \<times> nat) option \<times> 'x store" where
  "drop_embeddings st = (st_model st, st\<lparr>st_sources := [], st_vectors := [], st_model := None\<rparr>)"

text \<open>The \<open>k\<close> nearest of a kind: \<open>distance\<close> orders the vectors.\<close>

definition nearest ::
    "('x \<Rightarrow> 'd::linorder) \<Rightarrow> nat \<Rightarrow> source_kind option \<Rightarrow> 'x store \<Rightarrow> (source_kind \<times> string) list" where
  "nearest distance wanted kind st =
     (if st_model st = None then []
      else
        let candidates = filter (\<lambda>v. case kind of None \<Rightarrow> True
              | Some k \<Rightarrow> list_ex (\<lambda>s. so_id s = fst v \<and> so_kind s = k) (st_sources st)) (st_vectors st);
            hits = take wanted (sort_key (\<lambda>v. distance (snd v)) candidates)
        in List.map_filter (\<lambda>v. map_option (\<lambda>s. (so_kind s, so_ref s)) (find (\<lambda>s. so_id s = fst v) (st_sources st))) hits)"

definition summaries_needing_embedding :: "int option \<Rightarrow> 'x store \<Rightarrow> thread_summary list" where
  "summaries_needing_embedding limit st =
     take (clamp_limit limit) (sort_key ts_thread
       (filter (\<lambda>s. source_at SummarySource (ts_thread s) st = None \<and> ts_shape s \<noteq> ShapeNothing) (st_summaries st)))"

subsection \<open>What the triggers keep\<close>

definition rows_ok :: "message_row list \<Rightarrow> bool" where
  "rows_ok rows \<longleftrightarrow> distinct (map mr_ts rows) \<and> distinct (map mr_id rows)"

definition index_ok :: "'x store \<Rightarrow> bool" where
  "index_ok st \<longleftrightarrow> mset (st_index st) = mset (map (\<lambda>m. (mr_id m, mr_text m)) (st_messages st))"

definition vectors_ok :: "'x store \<Rightarrow> bool" where
  "vectors_ok st \<longleftrightarrow> distinct (map so_id (st_sources st)) \<and> distinct (map (\<lambda>s. (so_kind s, so_ref s)) (st_sources st)) \<and>
     mset (map fst (st_vectors st)) = mset (map so_id (st_sources st)) \<and> (st_model st = None \<longrightarrow> st_sources st = [])"

definition tables_ok :: "'x store \<Rightarrow> bool" where
  "tables_ok st \<longleftrightarrow> rows_ok (st_messages st) \<and> rows_ok (st_replies st) \<and> index_ok st \<and>
     distinct (map ts_thread (st_summaries st)) \<and> vectors_ok st"

lemma next_rowid_fresh: "i \<in> set ids \<Longrightarrow> i < next_rowid ids"
  by (auto simp: next_rowid_def less_Suc_eq_le)

lemma insert_message_ok: "rows_ok rows \<Longrightarrow> rows_ok (snd (insert_message m rows))"
  using next_rowid_fresh[of _ "map mr_id rows"] by (force simp: rows_ok_def insert_message_def)

lemma rows_ok_filter: "rows_ok rows \<Longrightarrow> rows_ok (filter P rows)"
  by (simp add: rows_ok_def distinct_map_filter)

lemma set_text_names [simp]: "map mr_ts (set_text ts body rows) = map mr_ts rows" "map mr_id (set_text ts body rows) = map mr_id rows"
  by (simp_all add: set_text_def)

lemma set_text_ok: "rows_ok rows \<Longrightarrow> rows_ok (set_text ts body rows)"
  by (simp add: rows_ok_def)

lemma row_at_Some: "row_at ts rows = Some m \<Longrightarrow> m \<in> set rows \<and> mr_ts m = ts"
  by (auto simp: row_at_def dest: find_Some_in)

lemma row_at_None: "row_at ts rows = None \<longleftrightarrow> ts \<notin> mr_ts ` set rows"
  by (auto simp: row_at_def find_None_iff)

text \<open>The row a \<open>ts\<close> names, taken out: one entry of the index goes with it, and it is that row's.\<close>

lemma split_row:
  assumes "rows_ok rows" "row_at ts rows = Some m"
  obtains xs ys where "rows = xs @ m # ys" "ts \<notin> mr_ts ` set (xs @ ys)" "mr_id m \<notin> mr_id ` set (xs @ ys)" "without_row ts rows = xs @ ys"
proof -
  from row_at_Some[OF assms(2)] obtain xs ys where s: "rows = xs @ m # ys" "mr_ts m = ts" by (metis split_list)
  with assms(1) have n: "ts \<notin> mr_ts ` set xs" "ts \<notin> mr_ts ` set ys" "mr_id m \<notin> mr_id ` set (xs @ ys)" by (auto simp: rows_ok_def)
  then have "filter (\<lambda>m. mr_ts m \<noteq> ts) xs = xs" "filter (\<lambda>m. mr_ts m \<noteq> ts) ys = ys" by (intro filter_True; auto)+
  with s n show ?thesis by (intro that[of xs ys]) (auto simp: without_row_def)
qed

lemma index_without_row:
  assumes "rows_ok rows" "row_at ts rows = Some m" "mset idx = mset (map (\<lambda>m. (mr_id m, mr_text m)) rows)"
  shows "mset (filter (\<lambda>e. e \<noteq> (mr_id m, mr_text m)) idx) = mset (map (\<lambda>m. (mr_id m, mr_text m)) (without_row ts rows))"
proof -
  from split_row[OF assms(1,2)] obtain xs ys
    where s: "rows = xs @ m # ys" "ts \<notin> mr_ts ` set (xs @ ys)" "mr_id m \<notin> mr_id ` set (xs @ ys)" and w: "without_row ts rows = xs @ ys"
    by blast
  have "mset (filter (\<lambda>e. e \<noteq> (mr_id m, mr_text m)) idx) =
      filter_mset (\<lambda>e. e \<noteq> (mr_id m, mr_text m)) (mset (map (\<lambda>m. (mr_id m, mr_text m)) rows))"
    using assms(3) by (metis mset_filter)
  also have "\<dots> = mset (filter (\<lambda>e. e \<noteq> (mr_id m, mr_text m)) (map (\<lambda>m. (mr_id m, mr_text m)) rows))" by simp
  also have "filter (\<lambda>e. e \<noteq> (mr_id m, mr_text m)) (map (\<lambda>m. (mr_id m, mr_text m)) rows) = map (\<lambda>m. (mr_id m, mr_text m)) (xs @ ys)"
  proof -
    have "filter (\<lambda>e. e \<noteq> (mr_id m, mr_text m)) (map (\<lambda>m. (mr_id m, mr_text m)) xs) = map (\<lambda>m. (mr_id m, mr_text m)) xs"
      "filter (\<lambda>e. e \<noteq> (mr_id m, mr_text m)) (map (\<lambda>m. (mr_id m, mr_text m)) ys) = map (\<lambda>m. (mr_id m, mr_text m)) ys"
      by (rule filter_True; use s(3) in force)+
    then show ?thesis unfolding s(1) by simp
  qed
  finally show ?thesis unfolding w .
qed

lemma set_text_split:
  assumes "rows_ok rows" "row_at ts rows = Some m"
  shows "mset (map (\<lambda>m. (mr_id m, mr_text m)) (set_text ts body rows)) =
    add_mset (mr_id m, body) (mset (map (\<lambda>m. (mr_id m, mr_text m)) (without_row ts rows)))"
proof -
  from split_row[OF assms(1,2)] obtain xs ys
    where s: "rows = xs @ m # ys" "ts \<notin> mr_ts ` set (xs @ ys)" and w: "without_row ts rows = xs @ ys" by blast
  have "set_text ts body xs = xs" "set_text ts body ys = ys" unfolding set_text_def using s(2) by (intro map_idI; auto)+
  then have "set_text ts body rows = xs @ m\<lparr>mr_text := body\<rparr> # ys"
    using row_at_Some[OF assms(2)] unfolding s(1) by (simp add: set_text_def)
  then show ?thesis unfolding w by simp
qed

lemma delete_sources_fields [simp]:
  "st_messages (delete_sources P st) = st_messages st" "st_index (delete_sources P st) = st_index st"
  "st_replies (delete_sources P st) = st_replies st" "st_summaries (delete_sources P st) = st_summaries st"
  "st_model (delete_sources P st) = st_model st"
  by (simp_all add: delete_sources_def)

lemma delete_summary_fields [simp]:
  "st_messages (delete_summary t st) = st_messages st" "st_index (delete_summary t st) = st_index st"
  "st_replies (delete_summary t st) = st_replies st" "st_model (delete_summary t st) = st_model st"
  by (simp_all add: delete_summary_def)

lemma delete_summary_summaries: "st_summaries (delete_summary t st) = filter (\<lambda>s. ts_thread s \<noteq> t) (st_summaries st)"
  by (auto simp: delete_summary_def list_ex_iff filter_id_conv intro!: filter_True[symmetric])

lemma vectors_ok_cong:
  "st_sources a = st_sources b \<Longrightarrow> st_vectors a = st_vectors b \<Longrightarrow> st_model a = st_model b \<Longrightarrow> vectors_ok a = vectors_ok b"
  by (simp add: vectors_ok_def)

lemma index_ok_cong: "st_messages a = st_messages b \<Longrightarrow> st_index a = st_index b \<Longrightarrow> index_ok a = index_ok b"
  by (simp add: index_ok_def)

lemma delete_sources_ok:
  assumes "vectors_ok st"
  shows "vectors_ok (delete_sources P st)"
proof -
  let ?ids = "so_id ` {s \<in> set (st_sources st). P s}"
  have d: "distinct (map so_id (st_sources st))" using assms by (simp add: vectors_ok_def)
  have same: "so_id s \<in> ?ids \<longleftrightarrow> P s" if "s \<in> set (st_sources st)" for s
    using that d by (auto simp: distinct_map dest: inj_onD)
  have v: "st_vectors (delete_sources P st) = filter (\<lambda>v. fst v \<notin> ?ids) (st_vectors st)"
    by (auto simp: delete_sources_def intro!: filter_cong)
  have s: "map so_id (filter (\<lambda>s. \<not> P s) (st_sources st)) = filter (\<lambda>i. i \<notin> ?ids) (map so_id (st_sources st))"
    using same by (auto simp: filter_map o_def intro!: arg_cong[of _ _ "map so_id"] filter_cong)
  have "map fst (st_vectors (delete_sources P st)) = filter (\<lambda>i. i \<notin> ?ids) (map fst (st_vectors st))"
    unfolding v by (simp add: filter_map o_def)
  then have "mset (map fst (st_vectors (delete_sources P st))) = filter_mset (\<lambda>i. i \<notin> ?ids) (mset (map fst (st_vectors st)))"
    by (simp only: mset_filter)
  also have "\<dots> = mset (filter (\<lambda>i. i \<notin> ?ids) (map so_id (st_sources st)))" using assms by (simp add: vectors_ok_def)
  finally have "mset (map fst (st_vectors (delete_sources P st))) = mset (map so_id (st_sources (delete_sources P st)))"
    using s by (simp add: delete_sources_def)
  then show ?thesis using assms by (simp add: vectors_ok_def distinct_map_filter) (simp add: delete_sources_def distinct_map_filter)
qed

lemma delete_summary_ok: "tables_ok st \<Longrightarrow> tables_ok (delete_summary t st)"
proof -
  assume wf: "tables_ok st"
  let ?st = "st\<lparr>st_summaries := filter (\<lambda>s. ts_thread s \<noteq> t) (st_summaries st)\<rparr>"
  have "vectors_ok ?st" using wf by (simp add: tables_ok_def vectors_ok_def)
  from delete_sources_ok[OF this] have "vectors_ok (delete_summary t st)" using wf by (simp add: delete_summary_def tables_ok_def)
  then show ?thesis using wf index_ok_cong[of "delete_summary t st" st]
    by (simp add: tables_ok_def delete_summary_summaries distinct_map_filter)
qed

datatype 'x store_op =
    OpAppend message_row
  | OpReply message_row
  | OpRemove string
  | OpReplace string js_text
  | OpSummary thread_summary
  | OpEmbed source_kind string 'x nat string int
  | OpUnembed source_kind string
  | OpDrop

fun store_apply :: "'x store_op \<Rightarrow> 'x store \<Rightarrow> 'x store" where
  "store_apply (OpAppend m) st = snd (append_message m st)"
| "store_apply (OpReply m) st = snd (append_agent_reply m st)"
| "store_apply (OpRemove ts) st = snd (remove_message ts st)"
| "store_apply (OpReplace ts body) st = snd (replace_text ts body st)"
| "store_apply (OpSummary s) st = put_thread_summary s st"
| "store_apply (OpEmbed kind ref vector dims model now) st =
     (case put_embedding kind ref vector dims model now st of Inl e \<Rightarrow> st | Inr st \<Rightarrow> st)"
| "store_apply (OpUnembed kind ref) st = snd (remove_embedding kind ref st)"
| "store_apply OpDrop st = snd (drop_embeddings st)"

lemma append_message_ok: "tables_ok st \<Longrightarrow> tables_ok (snd (append_message m st))"
  using insert_message_ok[of "st_messages st" m]
  by (auto simp: tables_ok_def append_message_def insert_message_def index_ok_def vectors_ok_def split: prod.splits)

lemma append_reply_ok: "tables_ok st \<Longrightarrow> tables_ok (snd (append_agent_reply m st))"
  using insert_message_ok[of "st_replies st" m]
  by (auto simp: tables_ok_def append_agent_reply_def index_ok_def vectors_ok_def split: prod.splits)

lemma remove_message_ok: "tables_ok st \<Longrightarrow> tables_ok (snd (remove_message ts st))"
proof (cases "row_at ts (st_messages st)")
  case (Some old)
  assume wf: "tables_ok st"
  then have "mset (filter (\<lambda>e. e \<noteq> (mr_id old, mr_text old)) (st_index st)) =
      mset (map (\<lambda>m. (mr_id m, mr_text m)) (without_row ts (st_messages st)))"
    by (intro index_without_row[OF _ Some]) (simp_all add: tables_ok_def index_ok_def)
  then have "tables_ok (st\<lparr>st_messages := without_row ts (st_messages st),
      st_index := filter (\<lambda>e. e \<noteq> (mr_id old, mr_text old)) (st_index st)\<rparr>)"
    using wf rows_ok_filter by (auto simp: tables_ok_def index_ok_def vectors_ok_def without_row_def)
  then show ?thesis using delete_summary_ok Some by (simp add: remove_message_def)
next
  case None
  assume "tables_ok st"
  then show ?thesis using None rows_ok_filter
    by (auto simp: remove_message_def tables_ok_def index_ok_def vectors_ok_def without_row_def)
qed

lemma replace_text_ok: "tables_ok st \<Longrightarrow> tables_ok (snd (replace_text ts body st))"
proof (cases "row_at ts (st_messages st)")
  case (Some old)
  assume wf: "tables_ok st"
  then have r: "rows_ok (st_messages st)" by (simp add: tables_ok_def)
  from wf have "mset (filter (\<lambda>e. e \<noteq> (mr_id old, mr_text old)) (st_index st)) =
      mset (map (\<lambda>m. (mr_id m, mr_text m)) (without_row ts (st_messages st)))"
    by (intro index_without_row[OF r Some]) (simp add: tables_ok_def index_ok_def)
  then have "tables_ok (st\<lparr>st_messages := set_text ts body (st_messages st),
      st_index := filter (\<lambda>e. e \<noteq> (mr_id old, mr_text old)) (st_index st) @ [(mr_id old, body)]\<rparr>)"
    using wf set_text_ok[OF r] set_text_split[OF r Some, of body] by (auto simp: tables_ok_def index_ok_def vectors_ok_def)
  then show ?thesis using delete_summary_ok Some by (simp add: replace_text_def)
next
  case None
  assume "tables_ok st"
  then show ?thesis using None set_text_ok
    by (auto simp: replace_text_def tables_ok_def index_ok_def vectors_ok_def)
qed

lemma put_summary_threads: "map ts_thread (st_summaries (put_thread_summary s st)) =
    (if ts_thread s \<in> ts_thread ` set (st_summaries st) then map ts_thread (st_summaries st) else map ts_thread (st_summaries st) @ [ts_thread s])"
  by (auto simp: put_thread_summary_def)

lemma put_summary_ok: "tables_ok st \<Longrightarrow> tables_ok (put_thread_summary s st)"
  using put_summary_threads[of s st]
  by (auto simp: tables_ok_def index_ok_def vectors_ok_def put_thread_summary_def)

lemma source_at_Some: "source_at kind ref st = Some s \<Longrightarrow> s \<in> set (st_sources st) \<and> so_kind s = kind \<and> so_ref s = ref"
  by (auto simp: source_at_def dest: find_Some_in)

lemma source_at_None: "source_at kind ref st = None \<longleftrightarrow> (kind, ref) \<notin> (\<lambda>s. (so_kind s, so_ref s)) ` set (st_sources st)"
  by (auto simp: source_at_def find_None_iff)

lemma ensure_space:
  "ensure_embedding_space model dims st = Inr st' \<Longrightarrow> st' = st\<lparr>st_model := Some (model, dims)\<rparr> \<and> (st_model st \<noteq> None \<longrightarrow> st' = st)"
  by (auto simp: ensure_embedding_space_def split: option.splits if_splits)

lemma replaced_vectors:
  assumes "mset (map fst vs) = mset ids" "distinct ids"
  shows "mset (map fst (filter (\<lambda>v. fst v \<noteq> i) vs @ [(i, x)])) = mset (if i \<in> set ids then ids else ids @ [i])"
proof -
  have "map fst (filter (\<lambda>v. fst v \<noteq> i) vs) = filter (\<lambda>j. j \<noteq> i) (map fst vs)" by (simp add: filter_map o_def)
  then have "mset (map fst (filter (\<lambda>v. fst v \<noteq> i) vs)) = filter_mset (\<lambda>j. j \<noteq> i) (mset ids)"
    using assms(1) by (simp only: mset_filter)
  then have m: "mset (map fst (filter (\<lambda>v. fst v \<noteq> i) vs)) = mset (filter (\<lambda>j. j \<noteq> i) ids)" by simp
  show ?thesis
  proof (cases "i \<in> set ids")
    case True
    then obtain xs ys where s: "ids = xs @ i # ys" by (metis split_list)
    with assms(2) have "filter (\<lambda>j. j \<noteq> i) xs = xs" "filter (\<lambda>j. j \<noteq> i) ys = ys" by (intro filter_True; auto)+
    then have "filter (\<lambda>j. j \<noteq> i) ids = xs @ ys" unfolding s by simp
    then show ?thesis using m True s by simp
  next
    case False
    then have "filter (\<lambda>j. j \<noteq> i) ids = ids" by (intro filter_True) auto
    then show ?thesis using m False by simp
  qed
qed

lemma put_embedding_ok:
  assumes "tables_ok st" "put_embedding kind ref vector dims model now st = Inr st'"
  shows "tables_ok st'"
proof -
  obtain st1 where e: "ensure_embedding_space model dims st = Inr st1"
    using assms(2) by (auto simp: put_embedding_def split: sum.splits)
  note st1 = ensure_space[OF e]
  have wf: "tables_ok st1" "st_model st1 = Some (model, dims)" using assms(1) st1 by (auto simp: tables_ok_def index_ok_def vectors_ok_def)
  then have v: "vectors_ok st1" by (simp add: tables_ok_def)
  show ?thesis
  proof (cases "source_at kind ref st1")
    case (Some old)
    let ?sources = "map (\<lambda>s. if so_id s = so_id old then s\<lparr>so_at := now\<rparr> else s) (st_sources st1)"
    have st': "st' = st1\<lparr>st_sources := ?sources, st_vectors := filter (\<lambda>v. fst v \<noteq> so_id old) (st_vectors st1) @ [(so_id old, vector)]\<rparr>"
      using assms(2) e Some by (simp add: put_embedding_def)
    have n: "map so_id ?sources = map so_id (st_sources st1)" "map (\<lambda>s. (so_kind s, so_ref s)) ?sources = map (\<lambda>s. (so_kind s, so_ref s)) (st_sources st1)"
      by auto
    have "so_id old \<in> set (map so_id (st_sources st1))" using source_at_Some[OF Some] by auto
    then have "vectors_ok st'"
      using v wf(2) n replaced_vectors[of "st_vectors st1" "map so_id (st_sources st1)" "so_id old" vector]
      unfolding vectors_ok_def st' by (simp del: map_map mset_map)
    then show ?thesis using wf st' index_ok_cong[of st' st1] by (simp add: tables_ok_def)
  next
    case None
    let ?i = "next_rowid (map so_id (st_sources st1))"
    have st': "st' = st1\<lparr>st_sources := st_sources st1 @ [\<lparr>so_id = ?i, so_kind = kind, so_ref = ref, so_at = now\<rparr>],
        st_vectors := filter (\<lambda>v. fst v \<noteq> ?i) (st_vectors st1) @ [(?i, vector)]\<rparr>"
      using assms(2) e None by (simp add: put_embedding_def Let_def)
    have f: "?i \<notin> so_id ` set (st_sources st1)" using next_rowid_fresh[of ?i "map so_id (st_sources st1)"] by auto
    then have "vectors_ok st'"
      using v wf(2) None replaced_vectors[of "st_vectors st1" "map so_id (st_sources st1)" ?i vector]
      unfolding vectors_ok_def st' source_at_None by simp
    then show ?thesis using wf st' index_ok_cong[of st' st1] by (simp add: tables_ok_def)
  qed
qed

lemma remove_embedding_ok: "tables_ok st \<Longrightarrow> tables_ok (snd (remove_embedding kind ref st))"
  using delete_sources_ok[of st] index_ok_cong[of "snd (remove_embedding kind ref st)" st]
  by (simp add: tables_ok_def remove_embedding_def)

lemma drop_embeddings_ok: "tables_ok st \<Longrightarrow> tables_ok (snd (drop_embeddings st))"
  by (simp add: tables_ok_def drop_embeddings_def index_ok_def vectors_ok_def)

lemma store_apply_ok: "tables_ok st \<Longrightarrow> tables_ok (store_apply op st)"
  by (cases op)
    (auto simp: append_message_ok append_reply_ok remove_message_ok replace_text_ok put_summary_ok remove_embedding_ok
      drop_embeddings_ok split: sum.splits intro: put_embedding_ok)

lemma tables_after_ops: "tables_ok (fold store_apply ops empty_store)"
proof -
  have "tables_ok (fold store_apply ops st)" if "tables_ok st" for st
    using that by (induction ops arbitrary: st) (auto simp: store_apply_ok)
  moreover have "tables_ok empty_store" by (simp add: tables_ok_def rows_ok_def index_ok_def vectors_ok_def empty_store_def)
  ultimately show ?thesis by blast
qed

text \<open>
  C33. Derived rows never fall behind: after any operations on a new store each \<open>ts\<close> names one message, the
  full-text index holds exactly the texts the messages have now, there is one summary a thread, and every
  source has exactly one vector and every vector a source.
\<close>

theorem store_stays_in_step: "tables_ok (fold store_apply ops empty_store)"
  by (rule tables_after_ops)

subsection \<open>A deletion is mirrored\<close>

lemma find_filter_same: "(\<And>x. P x \<Longrightarrow> Q x) \<Longrightarrow> find P (filter Q xs) = find P xs"
  by (induction xs) auto

lemma find_filter_none: "(\<And>x. P x \<Longrightarrow> \<not> Q x) \<Longrightarrow> find P (filter Q xs) = None"
  by (auto simp: find_None_iff)

text \<open>The source a deletion takes with it, where there is a summary to take.\<close>

definition summary_source :: "string \<Rightarrow> 'x store \<Rightarrow> source_row option" where
  "summary_source thread st = (if summary_for thread st = None then None else source_at SummarySource thread st)"

lemma source_at_unique:
  assumes "tables_ok st" "s \<in> set (st_sources st)"
  shows "source_at (so_kind s) (so_ref s) st = Some s"
proof -
  have "source_at (so_kind s) (so_ref s) st \<noteq> None" unfolding source_at_None using assms(2) by blast
  then obtain u where u: "source_at (so_kind s) (so_ref s) st = Some u" by blast
  have "inj_on (\<lambda>s. (so_kind s, so_ref s)) (set (st_sources st))" using assms(1) by (simp add: tables_ok_def vectors_ok_def distinct_map)
  from inj_onD[OF this _ _ assms(2), of u] source_at_Some[OF u] u show ?thesis by simp
qed

lemma delete_summary_store:
  assumes "tables_ok st"
  shows "delete_summary thread st =
    st\<lparr>st_summaries := filter (\<lambda>s. ts_thread s \<noteq> thread) (st_summaries st),
       st_sources := filter (\<lambda>s. Some s \<noteq> summary_source thread st) (st_sources st),
       st_vectors := filter (\<lambda>v. Some (fst v) \<noteq> map_option so_id (summary_source thread st)) (st_vectors st)\<rparr>"
proof (cases "summary_for thread st")
  case None
  then have n: "\<not> list_ex (\<lambda>s. ts_thread s = thread) (st_summaries st)" by (auto simp: summary_for_def find_None_iff list_ex_iff)
  then have "filter (\<lambda>s. ts_thread s \<noteq> thread) (st_summaries st) = st_summaries st" by (intro filter_True) (auto simp: list_ex_iff)
  with n None show ?thesis by (simp add: delete_summary_def summary_source_def)
next
  case (Some held)
  then have l: "list_ex (\<lambda>s. ts_thread s = thread) (st_summaries st)" by (auto simp: summary_for_def list_ex_iff dest: find_Some_in)
  have only: "so_kind s = SummarySource \<and> so_ref s = thread \<longleftrightarrow> source_at SummarySource thread st = Some s" if "s \<in> set (st_sources st)" for s
    using source_at_unique[OF assms that] source_at_Some[of SummarySource thread st s] by auto
  then have "filter (\<lambda>s. \<not> (so_kind s = SummarySource \<and> so_ref s = thread)) (st_sources st) =
      filter (\<lambda>s. Some s \<noteq> source_at SummarySource thread st) (st_sources st)"
    by (intro filter_cong) auto
  moreover have "(\<exists>s \<in> set (st_sources st). (so_kind s = SummarySource \<and> so_ref s = thread) \<and> so_id s = i) \<longleftrightarrow>
      Some i = map_option so_id (source_at SummarySource thread st)" for i
    using only source_at_Some[of SummarySource thread st] by (cases "source_at SummarySource thread st") auto
  ultimately show ?thesis using l Some by (simp add: delete_summary_def delete_sources_def summary_source_def)
qed

lemma index_by_id:
  assumes "tables_ok st" "row_at ts (st_messages st) = Some old"
  shows "filter (\<lambda>e. e \<noteq> (mr_id old, mr_text old)) (st_index st) = filter (\<lambda>e. fst e \<noteq> mr_id old) (st_index st)"
proof (rule filter_cong[OF refl])
  fix e assume "e \<in> set (st_index st)"
  then have "e \<in> (\<lambda>m. (mr_id m, mr_text m)) ` set (st_messages st)"
    using assms(1) mset_eq_setD[of "st_index st" "map (\<lambda>m. (mr_id m, mr_text m)) (st_messages st)"] by (simp add: tables_ok_def index_ok_def)
  then obtain m where m: "m \<in> set (st_messages st)" "e = (mr_id m, mr_text m)" by blast
  have "m = old" if "mr_id m = mr_id old"
    using that assms m(1) row_at_Some[OF assms(2)] by (auto simp: tables_ok_def rows_ok_def distinct_map dest: inj_onD)
  then show "e \<noteq> (mr_id old, mr_text old) \<longleftrightarrow> fst e \<noteq> mr_id old" using m(2) by auto
qed

text \<open>
  C34. A message deleted in Slack leaves the store with all that was derived from it and takes nothing else: its row
  and its entry of the index go, its thread's summary, if there is one, and with that the summary's source and vector;
  every other row of every table stays as it was and where it was, and no read by the message's \<open>ts\<close>, its id or its
  thread answers with it.
\<close>

theorem deletion_leaves_nothing:
  assumes "tables_ok st" "row_at ts (st_messages st) = Some old"
  shows "remove_message ts st =
      (True, st\<lparr>st_messages := filter (\<lambda>m. mr_ts m \<noteq> ts) (st_messages st),
                st_index := filter (\<lambda>e. fst e \<noteq> mr_id old) (st_index st),
                st_summaries := filter (\<lambda>s. ts_thread s \<noteq> root_of old) (st_summaries st),
                st_sources := filter (\<lambda>s. Some s \<noteq> summary_source (root_of old) st) (st_sources st),
                st_vectors := filter (\<lambda>v. Some (fst v) \<noteq> map_option so_id (summary_source (root_of old) st)) (st_vectors st)\<rparr>) \<and>
    row_at ts (st_messages (snd (remove_message ts st))) = None \<and>
    mr_id old \<notin> fst ` set (st_index (snd (remove_message ts st))) \<and>
    summary_for (root_of old) (snd (remove_message ts st)) = None \<and>
    (summary_for (root_of old) st \<noteq> None \<longrightarrow> source_at SummarySource (root_of old) (snd (remove_message ts st)) = None)"
proof -
  let ?st = "st\<lparr>st_messages := without_row ts (st_messages st),
      st_index := filter (\<lambda>e. e \<noteq> (mr_id old, mr_text old)) (st_index st)\<rparr>"
  have r: "remove_message ts st = (True, delete_summary (root_of old) ?st)" using assms(2) by (simp add: remove_message_def)
  have same: "summary_source thread ?st = summary_source thread st" for thread
    by (simp add: summary_source_def summary_for_def source_at_def)
  have "rows_ok (st_messages st)" "mset (st_index st) = mset (map (\<lambda>m. (mr_id m, mr_text m)) (st_messages st))"
    using assms(1) by (simp_all add: tables_ok_def index_ok_def)
  from index_without_row[OF this(1) assms(2) this(2)] have "index_ok ?st" by (simp add: index_ok_def)
  then have ok: "tables_ok ?st"
    using assms(1) rows_ok_filter[of "st_messages st"] by (simp add: tables_ok_def without_row_def vectors_ok_def)
  note st' = delete_summary_store[OF ok, of "root_of old", unfolded same]
  have eq: "remove_message ts st = (True, st\<lparr>st_messages := filter (\<lambda>m. mr_ts m \<noteq> ts) (st_messages st),
      st_index := filter (\<lambda>e. fst e \<noteq> mr_id old) (st_index st),
      st_summaries := filter (\<lambda>s. ts_thread s \<noteq> root_of old) (st_summaries st),
      st_sources := filter (\<lambda>s. Some s \<noteq> summary_source (root_of old) st) (st_sources st),
      st_vectors := filter (\<lambda>v. Some (fst v) \<noteq> map_option so_id (summary_source (root_of old) st)) (st_vectors st)\<rparr>)"
    unfolding r unfolding st' by (simp add: without_row_def index_by_id[OF assms])
  have "find (\<lambda>s. so_kind s = SummarySource \<and> so_ref s = root_of old) (filter (\<lambda>s. Some s \<noteq> source_at SummarySource (root_of old) st) (st_sources st)) = None"
    unfolding find_None_iff using source_at_unique[OF assms(1)] by (metis (mono_tags, lifting) mem_Collect_eq set_filter)
  then have src: "summary_for (root_of old) st \<noteq> None \<longrightarrow> source_at SummarySource (root_of old) (snd (remove_message ts st)) = None"
    unfolding eq by (simp add: source_at_def summary_source_def)
  have "row_at ts (st_messages (snd (remove_message ts st))) = None" unfolding eq row_at_None by auto
  moreover have "mr_id old \<notin> fst ` set (st_index (snd (remove_message ts st)))" unfolding eq by auto
  moreover have "summary_for (root_of old) (snd (remove_message ts st)) = None" unfolding eq by (auto simp: summary_for_def find_None_iff)
  ultimately show ?thesis using eq src by blast
qed

subsection \<open>The transcript\<close>

text \<open>Two ways to list distinct keys in order are one.\<close>

lemma sort_key_filter_eq:
  assumes "distinct (map f xs)" "sorted (map f ys)" "distinct (map f ys)" "set ys \<subseteq> set xs"
  shows "ys = filter (\<lambda>x. x \<in> set ys) (sort_key f xs)"
proof (rule map_sorted_distinct_set_unique[of f])
  have "inj_on f (set xs)" using assms(1) by (simp add: distinct_map)
  then show "inj_on f (set ys \<union> set (filter (\<lambda>x. x \<in> set ys) (sort_key f xs)))"
    by (rule inj_on_subset) (use assms(4) in auto)
  show "sorted (map f (filter (\<lambda>x. x \<in> set ys) (sort_key f xs)))" by (intro sorted_filter) simp
  have "distinct (map f (sort_key f xs))" using assms(1) by (simp add: distinct_map)
  then show "distinct (map f (filter (\<lambda>x. x \<in> set ys) (sort_key f xs)))" by (rule distinct_map_filter)
qed (use assms in auto)

text \<open>The newest \<open>n\<close> of a list, in order.\<close>

definition newest :: "('a \<Rightarrow> 'k::linorder) \<Rightarrow> nat \<Rightarrow> 'a list \<Rightarrow> 'a list" where
  "newest f n xs = drop (length xs - n) (sort_key f xs)"

lemma sort_key_parts:
  assumes "distinct (map f (xs @ ys))" "sort_key f (xs @ ys) = us @ ts"
  shows "sort_key f xs = filter (\<lambda>x. x \<in> set xs) us @ filter (\<lambda>x. x \<in> set xs) ts"
  using sort_key_filter_eq[of f "xs @ ys" "sort_key f xs"] assms by (simp add: distinct_map)

lemma newest_part:
  assumes "distinct (map f (xs @ ys))" "x \<in> set xs" "x \<in> set (newest f n (xs @ ys))"
  shows "x \<in> set (newest f n xs)"
proof -
  let ?L = "sort_key f (xs @ ys)"
  let ?us = "take (length (xs @ ys) - n) ?L" and ?ts = "drop (length (xs @ ys) - n) ?L"
  have p: "sort_key f xs = filter (\<lambda>x. x \<in> set xs) ?us @ filter (\<lambda>x. x \<in> set xs) ?ts"
    using sort_key_parts[OF assms(1), of ?us ?ts] by simp
  have "length (filter (\<lambda>x. x \<in> set xs) ?ts) \<le> n" by (rule order.trans[OF length_filter_le]) simp
  moreover have "length xs = length (filter (\<lambda>x. x \<in> set xs) ?us) + length (filter (\<lambda>x. x \<in> set xs) ?ts)"
    using arg_cong[OF p, of length] by simp
  ultimately have "length xs - n \<le> length (filter (\<lambda>x. x \<in> set xs) ?us)" by linarith
  then have "filter (\<lambda>x. x \<in> set xs) ?ts = drop (length (filter (\<lambda>x. x \<in> set xs) ?us)) (sort_key f xs)" unfolding p by simp
  moreover have "set (drop (length (filter (\<lambda>x. x \<in> set xs) ?us)) (sort_key f xs)) \<subseteq> set (newest f n xs)"
    unfolding newest_def by (rule set_drop_subset_set_drop) fact
  moreover have "x \<in> set (filter (\<lambda>x. x \<in> set xs) ?ts)" using assms(2,3) by (simp add: newest_def)
  ultimately show ?thesis by auto
qed

lemma newest_subset: "set (newest f n xs) \<subseteq> set xs"
  by (auto simp: newest_def dest: in_set_dropD)

lemma newest_distinct: "distinct (map f xs) \<Longrightarrow> distinct (map f (newest f n xs))"
  by (simp add: newest_def drop_map[symmetric] distinct_map)

lemma newest_two_distinct:
  assumes "distinct (map f (xs @ ys))"
  shows "distinct (map f (newest f n xs @ newest f n ys))"
proof -
  have "f ` set (newest f n xs) \<inter> f ` set (newest f n ys) \<subseteq> f ` set xs \<inter> f ` set ys"
    using newest_subset[of f n xs] newest_subset[of f n ys] by blast
  also have "\<dots> = {}" using assms by auto
  finally have "set (map f (newest f n xs)) \<inter> set (map f (newest f n ys)) = {}" by simp
  then show ?thesis using assms newest_distinct[of f xs n] newest_distinct[of f ys n] by simp
qed

lemma newest_of_two:
  assumes "distinct (map f (xs @ ys))"
  shows "newest f n (newest f n xs @ newest f n ys) = newest f n (xs @ ys)"
proof -
  let ?m = "newest f n xs @ newest f n ys" and ?L = "sort_key f (xs @ ys)"
  let ?us = "take (length (xs @ ys) - n) ?L" and ?ts = "newest f n (xs @ ys)"
  have L: "?L = ?us @ ?ts" by (simp add: newest_def)
  note dm = newest_two_distinct[OF assms, of n]
  have sub: "set ?m \<subseteq> set (xs @ ys)" using newest_subset[of f n xs] newest_subset[of f n ys] by auto
  have ts: "set ?ts \<subseteq> set ?m"
  proof
    fix x assume x: "x \<in> set ?ts"
    then consider "x \<in> set xs" | "x \<in> set ys" using newest_subset[of f n "xs @ ys"] by auto
    then show "x \<in> set ?m"
    proof cases
      case 1
      then show ?thesis using newest_part[OF assms 1 x] by simp
    next
      case 2
      have d: "distinct (map f (ys @ xs))" using assms by auto
      have "inj_on f (set (ys @ xs))" "distinct (ys @ xs)" using d unfolding distinct_map by simp_all
      then have "sort_key f (ys @ xs) = sort_key f (xs @ ys)"
        using assms by (intro map_sorted_distinct_set_unique[of f]) (auto simp: distinct_map Un_commute)
      then have "newest f n (ys @ xs) = ?ts" by (simp add: newest_def add.commute)
      then show ?thesis using newest_part[OF d 2, of n] x by simp
    qed
  qed
  have "distinct (map f (sort_key f ?m))" using dm unfolding distinct_map by (simp only: distinct_sort set_sort)
  moreover have "set (sort_key f ?m) \<subseteq> set (xs @ ys)" using sub by (simp only: set_sort)
  ultimately have "sort_key f ?m = filter (\<lambda>x. x \<in> set (sort_key f ?m)) ?L"
    by (intro sort_key_filter_eq assms sorted_sort_key)
  also have "\<dots> = filter (\<lambda>x. x \<in> set ?m) ?us @ filter (\<lambda>x. x \<in> set ?m) ?ts" by (subst L) simp
  also have "filter (\<lambda>x. x \<in> set ?m) ?ts = ?ts" using ts by (intro filter_True) auto
  finally have S: "sort_key f ?m = filter (\<lambda>x. x \<in> set ?m) ?us @ ?ts" .
  show ?thesis
  proof (cases "n \<le> length (xs @ ys)")
    case True
    then have "length ?ts = n" by (simp add: newest_def)
    then have "length ?m - n = length (filter (\<lambda>x. x \<in> set ?m) ?us)" using arg_cong[OF S, of length] by simp
    then show ?thesis unfolding newest_def[of f n ?m] S by simp
  next
    case False
    then have e: "?us = []" by simp
    have "sort_key f ?m = ?ts" using S unfolding e by simp
    moreover have "length ?m - n = 0" using arg_cong[OF S, of length] e False L by (simp add: newest_def)
    ultimately show ?thesis by (simp add: newest_def[of f n ?m])
  qed
qed

definition conversation :: "string \<Rightarrow> 'x store \<Rightarrow> (voice \<times> message_row) list" where
  "conversation thread st =
     map (Pair HumanVoice) (filter (in_thread thread) (st_messages st)) @ map (Pair AgentVoice) (filter (in_thread thread) (st_replies st))"

lemma take_newest_first: "set (take n (newest_first rows)) = set (newest mr_ts n rows)"
  by (simp add: newest_first_def newest_def take_rev)

lemma transcript_newest:
  assumes "tables_ok st" "mr_ts ` set (st_messages st) \<inter> mr_ts ` set (st_replies st) = {}"
  shows "transcript_in_thread thread limit st = newest (\<lambda>e. mr_ts (snd e)) (clamp_limit limit) (conversation thread st)"
proof -
  let ?n = "clamp_limit limit" and ?f = "\<lambda>e :: voice \<times> message_row. mr_ts (snd e)"
  let ?said = "filter (in_thread thread) (st_messages st)" and ?replied = "filter (in_thread thread) (st_replies st)"
  have dm: "distinct (map mr_ts ?said)" "distinct (map mr_ts ?replied)"
    using assms(1) by (simp_all add: tables_ok_def rows_ok_def distinct_map_filter)
  have d: "distinct (map ?f (map (Pair HumanVoice) ?said @ map (Pair AgentVoice) ?replied))"
    using dm assms(2) by (auto simp: o_def)
  have part: "sort_key ?f (map (Pair v) xs) = map (Pair v) (sort_key mr_ts xs)" if "distinct (map mr_ts xs)" for v xs
    using that by (intro map_sorted_distinct_set_unique[of ?f]) (auto simp: distinct_map o_def inj_on_def)
  have n: "newest ?f ?n (map (Pair v) xs) = map (Pair v) (newest mr_ts ?n xs)" if "distinct (map mr_ts xs)" for v xs
    using part[OF that] by (simp add: newest_def drop_map)
  let ?a = "map (Pair HumanVoice) (take ?n (newest_first ?said))" and ?b = "map (Pair AgentVoice) (take ?n (newest_first ?replied))"
  let ?m = "newest ?f ?n (map (Pair HumanVoice) ?said) @ newest ?f ?n (map (Pair AgentVoice) ?replied)"
  have r: "take ?n (newest_first xs) = rev (newest mr_ts ?n xs)" for xs by (simp add: newest_first_def newest_def take_rev)
  have len: "length (?a @ ?b) = length ?m" unfolding n[OF dm(1)] n[OF dm(2)] r by simp
  have dmm: "distinct (map ?f ?m)" "set (?a @ ?b) = set ?m"
  proof -
    show "set (?a @ ?b) = set ?m" unfolding n[OF dm(1)] n[OF dm(2)] r by simp
    show "distinct (map ?f ?m)"
      by (rule newest_two_distinct[OF d])
  qed
  have "sort_key ?f (?a @ ?b) = sort_key ?f ?m"
  proof (rule map_sorted_distinct_set_unique[of ?f])
    have i: "inj_on ?f (set ?m)" "distinct ?m" using dmm(1) unfolding distinct_map by simp_all
    then show "inj_on ?f (set (sort_key ?f (?a @ ?b)) \<union> set (sort_key ?f ?m))" using dmm(2) by (simp only: set_sort Un_absorb)
    have "card (set (?a @ ?b)) = length (?a @ ?b)" using dmm(2) len i(2) by (simp only: distinct_card)
    then have "distinct (?a @ ?b)" by (rule card_distinct)
    then show "distinct (map ?f (sort_key ?f (?a @ ?b)))" using i(1) dmm(2) by (simp only: distinct_map distinct_sort set_sort)
    show "distinct (map ?f (sort_key ?f ?m))" using i by (simp only: distinct_map distinct_sort set_sort)
  qed (use dmm(2) in simp_all)
  then have "newest ?f ?n (?a @ ?b) = newest ?f ?n ?m" using len by (simp only: newest_def)
  also have "\<dots> = newest ?f ?n (conversation thread st)" unfolding conversation_def by (rule newest_of_two[OF d])
  finally have "newest ?f ?n (?a @ ?b) = newest ?f ?n (conversation thread st)" .
  moreover have "transcript_in_thread thread limit st = newest ?f ?n (?a @ ?b)"
    by (simp add: transcript_in_thread_def newest_def Let_def)
  ultimately show ?thesis by simp
qed

text \<open>
  C35. A thread's transcript is the newest messages of the conversation, people's and the agent's together, in
  order: asking each table for at most that many and merging loses nothing and brings in nothing older.
\<close>

theorem transcript_is_newest_of_conversation:
  assumes "tables_ok st" "mr_ts ` set (st_messages st) \<inter> mr_ts ` set (st_replies st) = {}"
  shows "transcript_in_thread thread limit st = newest (\<lambda>e. mr_ts (snd e)) (clamp_limit limit) (conversation thread st)"
  using assms by (rule transcript_newest)

definition demo_message :: "string \<Rightarrow> string option \<Rightarrow> string \<Rightarrow> message_row" where
  "demo_message ts thread body = \<lparr>mr_id = 0, mr_ts = ts, mr_thread = thread, mr_user = ''U1'', mr_name = None, mr_text = js body, mr_at = 0\<rparr>"

definition demo_messages :: "nat store" where
  "demo_messages = fold store_apply
     [OpAppend (demo_message ''1.1'' None ''ship it?''), OpReply (demo_message ''1.2'' (Some ''1.1'') ''checking''),
      OpAppend (demo_message ''1.3'' (Some ''1.1'') ''yes''),
      OpSummary \<lparr>ts_thread = ''1.1'', ts_shape = ShapeDecision, ts_text = js ''ship'', ts_covers = ''1.3'', ts_count = 2, ts_at = 0\<rparr>,
      OpEmbed SummarySource ''1.1'' 7 3 ''m'' 0] empty_store"

lemma demo_tables_ok: "tables_ok demo_messages"
  unfolding demo_messages_def by (rule tables_after_ops)

theorem transcript_is_newest_of_conversation_witness:
  "transcript_in_thread ''1.1'' (Some 2) demo_messages = newest (\<lambda>e. mr_ts (snd e)) (clamp_limit (Some 2)) (conversation ''1.1'' demo_messages) \<and>
   map fst (transcript_in_thread ''1.1'' (Some 2) demo_messages) = [AgentVoice, HumanVoice]"
proof -
  have "mr_ts ` set (st_messages demo_messages) \<inter> mr_ts ` set (st_replies demo_messages) = {}" by code_simp
  moreover have "map fst (transcript_in_thread ''1.1'' (Some 2) demo_messages) = [AgentVoice, HumanVoice]" by code_simp
  ultimately show ?thesis using transcript_is_newest_of_conversation[OF demo_tables_ok, of "''1.1''" "Some 2"] by simp
qed

theorem deletion_leaves_nothing_witness:
  "source_at SummarySource ''1.1'' demo_messages \<noteq> None \<and> summary_for ''1.1'' (snd (remove_message ''1.3'' demo_messages)) = None \<and>
   source_at SummarySource ''1.1'' (snd (remove_message ''1.3'' demo_messages)) = None"
proof -
  have r: "row_at ''1.3'' (st_messages demo_messages) \<noteq> None" "summary_for ''1.1'' demo_messages \<noteq> None"
    "source_at SummarySource ''1.1'' demo_messages \<noteq> None" "root_of (the (row_at ''1.3'' (st_messages demo_messages))) = ''1.1''"
    by code_simp+
  then obtain old where o: "row_at ''1.3'' (st_messages demo_messages) = Some old" "root_of old = ''1.1''" by auto
  have "summary_for (root_of old) (snd (remove_message ''1.3'' demo_messages)) = None \<and>
      (summary_for (root_of old) demo_messages \<noteq> None \<longrightarrow> source_at SummarySource (root_of old) (snd (remove_message ''1.3'' demo_messages)) = None)"
    using deletion_leaves_nothing[OF demo_tables_ok o(1)] by blast
  with r(2,3) o(2) show ?thesis by metis
qed

end
