(* ===== verification/Channel_Memory.thy ===== *)
theory Channel_Memory
  imports Message_Store Agent_Names
begin

text \<open>
  What a channel remembers and how it comes to: messages and revisions reaching the store
  (\<open>apps/server/src/ingest.ts\<close>), the sweep that summarises quiet threads (\<open>session/summarize.ts\<close>) and recall
  (\<open>session/recall.ts\<close>). A message waits for its author's name before it is stored, and the sweep waits for the
  proxy, the model and the embedding; revisions are applied at once, in between. The sweep itself runs under the
  channel's mutex, so there is one stage.
\<close>

subsection \<open>Recall\<close>

definition recall_limit :: nat where "recall_limit = 5"
definition recall_max_chars :: nat where "recall_max_chars = 6000"

text \<open>The loop over the hits: \<open>full\<close> once one did not fit.\<close>

fun recall_hits :: "nat \<Rightarrow> 'x store \<Rightarrow> bool \<Rightarrow> nat \<Rightarrow> string list \<Rightarrow> thread_summary list" where
  "recall_hits max_chars st full chars [] = []"
| "recall_hits max_chars st full chars (ref # refs) =
     (if full then recall_hits max_chars st True chars refs
      else case summary_for ref st of
          None \<Rightarrow> recall_hits max_chars st False chars refs
        | Some s \<Rightarrow>
            if ts_text s = [] then recall_hits max_chars st False chars refs
            else if max_chars < chars + length (ts_text s) then recall_hits max_chars st True chars refs
            else s # recall_hits max_chars st False (chars + length (ts_text s)) refs)"

definition recall_summaries :: "bool \<Rightarrow> ('x \<Rightarrow> 'd::linorder) option \<Rightarrow> nat \<Rightarrow> nat \<Rightarrow> 'x store \<Rightarrow> thread_summary list" where
  "recall_summaries enabled distance limit max_chars st =
     (case (enabled, distance) of
        (True, Some near) \<Rightarrow> recall_hits max_chars st False 0 (map snd (nearest near (clamp_limit (Some (int limit))) (Some SummarySource) st))
      | _ \<Rightarrow> [])"

subsection \<open>The sweep\<close>

definition sweep_interval_ms :: nat where "sweep_interval_ms = 5 * 60 * 1000"
definition max_threads_per_sweep :: nat where "max_threads_per_sweep = 3"
definition max_thread_messages :: nat where "max_thread_messages = 60"

definition pad_start :: "nat \<Rightarrow> string \<Rightarrow> string" where
  "pad_start n s = replicate (n - length s) (CHR ''0'') @ s"

definition to_slack_ts :: "nat \<Rightarrow> string" where
  "to_slack_ts ms = pad_start 10 (nat_string (ms div 1000)) @ ''.'' @ pad_start 6 (nat_string (ms mod 1000 * 1000))"

text \<open>
  \<open>SweepAsked\<close>: the model has been given the rows of a thread; the last field says whether one of that thread's
  messages has been deleted or edited since, which the code does not keep. \<open>SweepVector\<close>: its summary is being embedded.
\<close>

datatype sweep_stage =
    SweepIdle
  | SweepSettings nat
  | SweepSpend "stale_thread list"
  | SweepAsked stale_thread "message_row list" bool "stale_thread list"
  | SweepVector string "stale_thread list"

text \<open>
  \<open>cm_naming\<close> is the messages whose author is being looked up; \<open>cm_made\<close> records what each summary was made of.
\<close>

record 'x channel_memory =
  cm_store :: "'x store"
  cm_naming :: "(bool \<times> message_row) list"
  cm_swept_at :: "nat option"
  cm_stage :: sweep_stage
  cm_made :: "(string, message_row list \<times> bool) jsmap"

definition new_memory :: "'x channel_memory" where
  "new_memory = \<lparr>cm_store = empty_store, cm_naming = [], cm_swept_at = None, cm_stage = SweepIdle, cm_made = []\<rparr>"

definition sweep_next :: "bool \<Rightarrow> stale_thread list \<Rightarrow> 'x channel_memory \<Rightarrow> 'x channel_memory" where
  "sweep_next aborted stale m =
     (case stale of
        [] \<Rightarrow> m\<lparr>cm_stage := SweepIdle\<rparr>
      | t # rest \<Rightarrow>
          if aborted then m\<lparr>cm_stage := SweepIdle\<rparr>
          else m\<lparr>cm_stage := SweepAsked t (recent_in_thread (sl_thread t) (Some (int max_thread_messages)) (cm_store m)) False rest\<rparr>)"

definition sweep_begin :: "nat \<Rightarrow> 'x channel_memory \<Rightarrow> 'x channel_memory" where
  "sweep_begin now m =
     (if (case cm_swept_at m of Some previous \<Rightarrow> now - previous < sweep_interval_ms | None \<Rightarrow> False) then m
      else m\<lparr>cm_swept_at := Some now, cm_stage := SweepSettings now\<rparr>)"

text \<open>The channel's settings: the idle time, or none where they disable summaries or cannot be read.\<close>

definition settings_answered :: "nat option \<Rightarrow> 'x channel_memory \<Rightarrow> 'x channel_memory" where
  "settings_answered idle_ms m =
     (case (cm_stage m, idle_ms) of
        (SweepSettings started, Some idle) \<Rightarrow>
          let stale = stale_threads (to_slack_ts (started - idle)) (Some (int max_threads_per_sweep)) (cm_store m)
          in m\<lparr>cm_stage := if stale = [] then SweepIdle else SweepSpend stale\<rparr>
      | (SweepSettings started, None) \<Rightarrow> m\<lparr>cm_stage := SweepIdle\<rparr>
      | _ \<Rightarrow> m)"

definition may_spend :: "bool \<Rightarrow> bool \<Rightarrow> 'x channel_memory \<Rightarrow> 'x channel_memory" where
  "may_spend ok aborted m =
     (case cm_stage m of
        SweepSpend stale \<Rightarrow> if ok then sweep_next aborted stale m else m\<lparr>cm_stage := SweepIdle\<rparr>
      | _ \<Rightarrow> m)"

text \<open>The model's answer, or none where the turn failed; \<open>embeds\<close>: the deployment has an embedding.\<close>

definition summary_answered :: "(summary_shape \<times> js_text) option \<Rightarrow> bool \<Rightarrow> nat \<Rightarrow> bool \<Rightarrow> 'x channel_memory \<Rightarrow> 'x channel_memory" where
  "summary_answered result embeds now aborted m =
     (case cm_stage m of
        SweepAsked t rows torn rest \<Rightarrow>
          (case result of
             None \<Rightarrow> sweep_next aborted rest m
           | Some (shape, body) \<Rightarrow>
               let m = m\<lparr>cm_store := put_thread_summary \<lparr>ts_thread = sl_thread t, ts_shape = shape, ts_text = body,
                           ts_covers = sl_newest t, ts_count = sl_count t, ts_at = int now\<rparr> (cm_store m),
                         cm_made := js_set (sl_thread t) (rows, torn) (cm_made m)\<rparr>
               in if shape \<noteq> ShapeNothing \<and> embeds then m\<lparr>cm_stage := SweepVector (sl_thread t) rest\<rparr>
                  else sweep_next aborted rest m)
      | _ \<Rightarrow> m)"

text \<open>The embedding's answer; a vector the store refuses, like none, is a failure that is logged.\<close>

definition vector_answered :: "('x \<times> nat \<times> string) option \<Rightarrow> nat \<Rightarrow> bool \<Rightarrow> 'x channel_memory \<Rightarrow> 'x channel_memory" where
  "vector_answered answer now aborted m =
     (case cm_stage m of
        SweepVector thread rest \<Rightarrow>
          (case answer of
             None \<Rightarrow> sweep_next aborted rest m
           | Some (vector, dims, model) \<Rightarrow>
               sweep_next aborted rest
                 (case put_embedding SummarySource thread vector dims model (int now) (cm_store m) of
                    Inl e \<Rightarrow> m
                  | Inr st \<Rightarrow> m\<lparr>cm_store := st\<rparr>))
      | _ \<Rightarrow> m)"

subsection \<open>Messages and revisions\<close>

definition message_arrives :: "bool \<Rightarrow> message_row \<Rightarrow> 'x channel_memory \<Rightarrow> 'x channel_memory" where
  "message_arrives from_app row m = m\<lparr>cm_naming := cm_naming m @ [(from_app, row)]\<rparr>"

definition author_named :: "nat \<Rightarrow> string option \<Rightarrow> int \<Rightarrow> 'x channel_memory \<Rightarrow> 'x channel_memory" where
  "author_named k name now m =
     (if k < length (cm_naming m) then
        let (from_app, row) = cm_naming m ! k;
            row = row\<lparr>mr_name := name, mr_at := now\<rparr>
        in m\<lparr>cm_store := snd (if from_app then append_agent_reply row (cm_store m) else append_message row (cm_store m)),
             cm_naming := take k (cm_naming m) @ drop (Suc k) (cm_naming m)\<rparr>
      else m)"

datatype revision = Deleted string | Edited string js_text

primrec revised_ts :: "revision \<Rightarrow> string" where
  "revised_ts (Deleted ts) = ts"
| "revised_ts (Edited ts body) = ts"

definition tear :: "string option \<Rightarrow> sweep_stage \<Rightarrow> sweep_stage" where
  "tear hit stage =
     (case stage of
        SweepAsked t rows torn rest \<Rightarrow> SweepAsked t rows (torn \<or> hit = Some (sl_thread t)) rest
      | _ \<Rightarrow> stage)"

definition revision_arrives :: "revision \<Rightarrow> 'x channel_memory \<Rightarrow> 'x channel_memory" where
  "revision_arrives r m =
     m\<lparr>cm_store := snd (case r of Deleted ts \<Rightarrow> remove_message ts (cm_store m) | Edited ts body \<Rightarrow> replace_text ts body (cm_store m)),
       cm_stage := tear (map_option root_of (row_at (revised_ts r) (st_messages (cm_store m)))) (cm_stage m)\<rparr>"

subsection \<open>Runs\<close>

datatype 'x memory_event =
    EvMessage bool message_row
  | EvNamed nat "string option" int
  | EvRevision revision
  | EvSweep nat
  | EvSettings "nat option"
  | EvSpend bool bool
  | EvSummary "(summary_shape \<times> js_text) option" bool nat bool
  | EvVector "('x \<times> nat \<times> string) option" nat bool

fun memory_apply :: "'x memory_event \<Rightarrow> 'x channel_memory \<Rightarrow> 'x channel_memory" where
  "memory_apply (EvMessage from_app row) m = message_arrives from_app row m"
| "memory_apply (EvNamed k name now) m = author_named k name now m"
| "memory_apply (EvRevision r) m = revision_arrives r m"
| "memory_apply (EvSweep now) m = (if cm_stage m = SweepIdle then sweep_begin now m else m)"
| "memory_apply (EvSettings idle_ms) m = settings_answered idle_ms m"
| "memory_apply (EvSpend ok aborted) m = may_spend ok aborted m"
| "memory_apply (EvSummary result embeds now aborted) m = summary_answered result embeds now aborted m"
| "memory_apply (EvVector answer now aborted) m = vector_answered answer now aborted m"

definition memory_after :: "'x memory_event list \<Rightarrow> 'x channel_memory" where
  "memory_after es = fold memory_apply es new_memory"

subsection \<open>What summaries are made of\<close>

text \<open>The rows of the summary's own thread are still there, as they were read.\<close>

definition still_said :: "string \<Rightarrow> message_row list \<Rightarrow> 'x store \<Rightarrow> bool" where
  "still_said thread rows st \<longleftrightarrow> (\<forall>r \<in> set rows. root_of r = thread \<longrightarrow> r \<in> set (st_messages st))"

definition memory_ok :: "'x channel_memory \<Rightarrow> bool" where
  "memory_ok m \<longleftrightarrow> tables_ok (cm_store m) \<and>
     (\<forall>t rows. summary_for t (cm_store m) \<noteq> None \<longrightarrow> js_get (cm_made m) t = Some (rows, False) \<longrightarrow> still_said t rows (cm_store m)) \<and>
     (\<forall>t. summary_for t (cm_store m) \<noteq> None \<longrightarrow> js_get (cm_made m) t \<noteq> None) \<and>
     (case cm_stage m of SweepAsked s rows torn rest \<Rightarrow> \<not> torn \<longrightarrow> still_said (sl_thread s) rows (cm_store m) | _ \<Rightarrow> True)"

lemma still_said_mono: "set (st_messages st) \<subseteq> set (st_messages st') \<Longrightarrow> still_said t rows st \<Longrightarrow> still_said t rows st'"
  by (auto simp: still_said_def)

lemma recent_in_thread_messages: "set (recent_in_thread thread limit st) \<subseteq> set (st_messages st)"
  by (auto simp: recent_in_thread_def newest_first_def dest: in_set_takeD)

text \<open>A step that keeps the messages, the summaries and what they were made of.\<close>

lemma memory_ok_same:
  assumes "memory_ok m" "tables_ok st" "set (st_messages (cm_store m)) \<subseteq> set (st_messages st)" "st_summaries st = st_summaries (cm_store m)"
    "case stage of SweepAsked s rows torn rest \<Rightarrow> \<not> torn \<longrightarrow> still_said (sl_thread s) rows st | _ \<Rightarrow> True"
  shows "memory_ok (m\<lparr>cm_store := st, cm_stage := stage, cm_naming := naming, cm_swept_at := swept\<rparr>)"
proof -
  have "case stage of SweepAsked s rows torn rest \<Rightarrow> \<not> torn \<longrightarrow> still_said (sl_thread s) rows st | _ \<Rightarrow> True" by (fact assms(5))
  then show ?thesis
    using assms(1,2,4) still_said_mono[OF assms(3)] unfolding memory_ok_def summary_for_def by (cases stage) simp_all
qed

lemma memory_ok_stage: "memory_ok m \<Longrightarrow> \<forall>a b c d. stage \<noteq> SweepAsked a b c d \<Longrightarrow> memory_ok (m\<lparr>cm_stage := stage\<rparr>)"
  unfolding memory_ok_def by (cases stage) auto

lemma memory_ok_next:
  assumes "memory_ok m"
  shows "memory_ok (sweep_next aborted stale m)"
proof -
  have "still_said t (recent_in_thread t limit (cm_store m)) (cm_store m)" for t limit
    using recent_in_thread_messages[of t limit "cm_store m"] by (auto simp: still_said_def)
  with assms show ?thesis by (cases stale; cases aborted) (simp_all add: sweep_next_def memory_ok_def)
qed

lemma memory_ok_answered:
  assumes "memory_ok m" "cm_stage m = SweepAsked s rows torn rest" "ts_thread x = sl_thread s" "\<forall>a b c d. stage \<noteq> SweepAsked a b c d"
  shows "memory_ok (m\<lparr>cm_store := put_thread_summary x (cm_store m), cm_made := js_set (sl_thread s) (rows, torn) (cm_made m), cm_stage := stage\<rparr>)"
proof -
  let ?st = "put_thread_summary x (cm_store m)"
  have st: "st_messages ?st = st_messages (cm_store m)" by (simp add: put_thread_summary_def)
  have said: "still_said t rws ?st = still_said t rws (cm_store m)" for t rws by (simp add: still_said_def st)
  have other: "summary_for t ?st \<noteq> None \<longrightarrow> t = sl_thread s \<or> summary_for t (cm_store m) \<noteq> None" for t
    using assms(3) by (auto simp: summary_for_def find_None_iff put_thread_summary_def split: if_splits)
  have "summary_for t ?st \<noteq> None \<longrightarrow> js_get (js_set (sl_thread s) (rows, torn) (cm_made m)) t = Some (rws, False) \<longrightarrow> still_said t rws ?st" for t rws
    using assms(1,2) other[of t] unfolding memory_ok_def said by (auto split: if_splits)
  moreover have "summary_for t ?st \<noteq> None \<longrightarrow> js_get (js_set (sl_thread s) (rows, torn) (cm_made m)) t \<noteq> None" for t
    using assms(1) other[of t] unfolding memory_ok_def by (auto split: if_splits)
  ultimately show ?thesis using assms(1,4) put_summary_ok unfolding memory_ok_def by (auto split: sweep_stage.splits)
qed

lemma summary_for_deleted: "summary_for t (delete_summary hit st) = (if t = hit then None else summary_for t st)"
  unfolding summary_for_def delete_summary_summaries by (auto intro: find_filter_same find_filter_none)

text \<open>A revision takes one thread's summary, and leaves every other thread's messages as they were.\<close>

lemma revision_store:
  assumes "tables_ok st" "row_at ts (st_messages st) = Some old" "st' = snd (remove_message ts st) \<or> st' = snd (replace_text ts body st)"
  shows "summary_for (root_of old) st' = None" "\<And>t. t \<noteq> root_of old \<Longrightarrow> summary_for t st' = summary_for t st"
    "\<And>t rows. t \<noteq> root_of old \<Longrightarrow> still_said t rows st \<Longrightarrow> still_said t rows st'"
proof -
  have r: "rows_ok (st_messages st)" using assms(1) by (simp add: tables_ok_def)
  have o: "old \<in> set (st_messages st)" "mr_ts old = ts" using row_at_Some[OF assms(2)] by auto
  have f: "summary_for t st' = (if t = root_of old then None else summary_for t st)" for t
    using assms(2,3) by (auto simp: remove_message_def replace_text_def summary_for_deleted) (simp_all add: summary_for_def)
  show "summary_for (root_of old) st' = None" "\<And>t. t \<noteq> root_of old \<Longrightarrow> summary_for t st' = summary_for t st" using f by simp_all
  have "x \<in> set (st_messages st')" if "x \<in> set (st_messages st)" "root_of x \<noteq> root_of old" for x
  proof -
    have "mr_ts x \<noteq> ts"
    proof
      assume "mr_ts x = ts"
      with that(1) o r have "x = old" by (auto simp: rows_ok_def distinct_map dest: inj_onD)
      with that(2) show False by simp
    qed
    with that(1) assms(2,3) show ?thesis
      by (auto simp: remove_message_def replace_text_def without_row_def set_text_def intro: rev_image_eqI)
  qed
  then show "\<And>t rows. t \<noteq> root_of old \<Longrightarrow> still_said t rows st \<Longrightarrow> still_said t rows st'"
    by (auto simp: still_said_def)
qed

lemma memory_ok_revision:
  assumes "memory_ok m"
  shows "memory_ok (revision_arrives r m)"
proof -
  let ?st = "cm_store m" and ?m = "revision_arrives r m"
  have wf: "tables_ok ?st" using assms by (simp add: memory_ok_def)
  then have wf': "tables_ok (cm_store ?m)" by (auto simp: revision_arrives_def remove_message_ok replace_text_ok split: revision.splits)
  show ?thesis
  proof (cases "row_at (revised_ts r) (st_messages ?st)")
    case None
    have "st_messages (cm_store ?m) = st_messages ?st" "st_summaries (cm_store ?m) = st_summaries ?st"
      using None by (auto simp: revision_arrives_def remove_message_def replace_text_def split: revision.splits)
    moreover have "cm_stage ?m = cm_stage m" using None by (auto simp: revision_arrives_def tear_def split: sweep_stage.splits)
    moreover have "cm_made ?m = cm_made m" by (simp add: revision_arrives_def)
    ultimately show ?thesis using assms wf' by (cases "cm_stage m") (simp_all add: memory_ok_def summary_for_def still_said_def)
  next
    case (Some old)
    have st: "cm_store ?m = snd (remove_message (revised_ts r) ?st) \<or>
        cm_store ?m = snd (replace_text (revised_ts r) (case r of Edited ts body \<Rightarrow> body | _ \<Rightarrow> []) ?st)"
      by (cases r) (simp_all add: revision_arrives_def)
    note s = revision_store[OF wf Some st]
    have made: "cm_made ?m = cm_made m" and stage: "cm_stage ?m = tear (Some (root_of old)) (cm_stage m)"
      by (simp_all add: revision_arrives_def Some)
    have "summary_for t (cm_store ?m) \<noteq> None \<longrightarrow> js_get (cm_made ?m) t = Some (rows, False) \<longrightarrow> still_said t rows (cm_store ?m)" for t rows
      using s(1) s(2)[of t] s(3)[of t rows] assms by (cases "t = root_of old") (auto simp: made memory_ok_def)
    moreover have "summary_for t (cm_store ?m) \<noteq> None \<longrightarrow> js_get (cm_made ?m) t \<noteq> None" for t
      using s(1) s(2)[of t] assms by (cases "t = root_of old") (auto simp: made memory_ok_def)
    moreover have "case cm_stage ?m of SweepAsked s rows torn rest \<Rightarrow> \<not> torn \<longrightarrow> still_said (sl_thread s) rows (cm_store ?m) | _ \<Rightarrow> True"
      unfolding stage using assms s(3) by (cases "cm_stage m") (auto simp: tear_def memory_ok_def)
    ultimately show ?thesis using wf' by (simp add: memory_ok_def)
  qed
qed

lemma memory_ok_named: "memory_ok m \<Longrightarrow> memory_ok (author_named k name now m)"
proof -
  assume ok: "memory_ok m"
  show ?thesis
  proof (cases "k < length (cm_naming m)")
    case True
    obtain from_app row where p: "cm_naming m ! k = (from_app, row)" by (cases "cm_naming m ! k")
    let ?row = "row\<lparr>mr_name := name, mr_at := now\<rparr>"
    let ?st = "snd (if from_app then append_agent_reply ?row (cm_store m) else append_message ?row (cm_store m))"
    have wf: "tables_ok ?st" using ok by (auto simp: memory_ok_def append_message_ok append_reply_ok)
    have sub: "set (st_messages (cm_store m)) \<subseteq> set (st_messages ?st)" "st_summaries ?st = st_summaries (cm_store m)"
      by (auto simp: append_message_def append_agent_reply_def insert_message_def)
    have "case cm_stage m of SweepAsked s rows torn rest \<Rightarrow> \<not> torn \<longrightarrow> still_said (sl_thread s) rows ?st | _ \<Rightarrow> True"
      using ok still_said_mono[OF sub(1)] by (auto simp: memory_ok_def split: sweep_stage.splits)
    from memory_ok_same[OF ok wf sub this, where naming = "take k (cm_naming m) @ drop (Suc k) (cm_naming m)" and swept = "cm_swept_at m"]
    show ?thesis using True p by (cases from_app) (simp_all add: author_named_def Let_def)
  qed (use ok in \<open>simp add: author_named_def\<close>)
qed

lemma memory_ok_vector: "memory_ok m \<Longrightarrow> memory_ok (vector_answered answer now aborted m)"
proof (cases "cm_stage m")
  case (SweepVector thread rest)
  assume ok: "memory_ok m"
  have "memory_ok (case put_embedding SummarySource thread vector dims model (int now) (cm_store m) of Inl e \<Rightarrow> m | Inr st \<Rightarrow> m\<lparr>cm_store := st\<rparr>)"
    for vector dims model
  proof (cases "put_embedding SummarySource thread vector dims model (int now) (cm_store m)")
    case (Inr st)
    have "st_messages st = st_messages (cm_store m)" "st_summaries st = st_summaries (cm_store m)"
      using Inr by (auto simp: put_embedding_def Let_def dest!: ensure_space split: sum.splits option.splits)
    then show ?thesis using ok Inr put_embedding_ok[OF _ Inr] SweepVector by (auto simp: memory_ok_def summary_for_def still_said_def)
  qed (use ok in simp)
  then show ?thesis using ok SweepVector by (auto simp: vector_answered_def memory_ok_next split: option.splits)
qed (auto simp: vector_answered_def)

lemma memory_ok_apply: "memory_ok m \<Longrightarrow> memory_ok (memory_apply e m)"
proof (cases e)
  case (EvMessage from_app row)
  assume "memory_ok m"
  then show ?thesis using EvMessage by (cases "cm_stage m") (simp_all add: message_arrives_def memory_ok_def)
next
  case (EvSweep now)
  assume "memory_ok m"
  then show ?thesis using EvSweep by (cases "cm_stage m") (simp_all add: sweep_begin_def memory_ok_def)
next
  case (EvSettings idle)
  assume "memory_ok m"
  then show ?thesis using EvSettings memory_ok_stage[of m]
    by (cases "cm_stage m"; cases idle) (simp_all add: settings_answered_def Let_def)
next
  case (EvSpend ok aborted)
  assume "memory_ok m"
  then show ?thesis using EvSpend memory_ok_next[of m] by (cases "cm_stage m"; cases ok) (simp_all add: may_spend_def memory_ok_stage)
next
  case (EvSummary result embeds now aborted)
  assume ok: "memory_ok m"
  show ?thesis
  proof (cases "cm_stage m")
    case (SweepAsked s rows torn rest)
    show ?thesis
    proof (cases result)
      case None
      then show ?thesis using ok EvSummary SweepAsked memory_ok_next by (simp add: summary_answered_def)
    next
      case (Some r)
      obtain shape body where r: "r = (shape, body)" by (cases r)
      let ?x = "\<lparr>ts_thread = sl_thread s, ts_shape = shape, ts_text = body, ts_covers = sl_newest s, ts_count = sl_count s, ts_at = int now\<rparr>"
      let ?m = "m\<lparr>cm_store := put_thread_summary ?x (cm_store m), cm_made := js_set (sl_thread s) (rows, torn) (cm_made m)\<rparr>"
      have "memory_ok (?m\<lparr>cm_stage := SweepVector (sl_thread s) rest\<rparr>)" "memory_ok (?m\<lparr>cm_stage := SweepIdle\<rparr>)"
        using memory_ok_answered[OF ok SweepAsked, of ?x] by simp_all
      moreover have "sweep_next aborted rest ?m = sweep_next aborted rest (?m\<lparr>cm_stage := SweepIdle\<rparr>)"
        by (auto simp: sweep_next_def split: list.splits)
      ultimately have "memory_ok (sweep_next aborted rest ?m)" "memory_ok (?m\<lparr>cm_stage := SweepVector (sl_thread s) rest\<rparr>)"
        by (metis memory_ok_next)+
      then show ?thesis unfolding EvSummary Some r by (simp add: summary_answered_def SweepAsked Let_def)
    qed
  qed (use ok EvSummary in \<open>auto simp: summary_answered_def\<close>)
qed (auto simp: memory_ok_named memory_ok_revision memory_ok_vector)

lemma memory_after_ok: "memory_ok (memory_after es)"
proof -
  have "memory_ok (fold memory_apply es m)" if "memory_ok m" for m
    using that by (induction es arbitrary: m) (auto simp: memory_ok_apply)
  moreover have "memory_ok new_memory"
    by (simp add: memory_ok_def new_memory_def empty_store_def tables_ok_def rows_ok_def index_ok_def vectors_ok_def summary_for_def)
  ultimately show ?thesis by (simp add: memory_after_def)
qed

lemma summary_for_thread: "summary_for t st = Some s \<Longrightarrow> ts_thread s = t"
  by (auto simp: summary_for_def dest!: find_Some_in)

lemma recall_hits_summaries: "s \<in> set (recall_hits max_chars st full chars refs) \<Longrightarrow> summary_for (ts_thread s) st = Some s"
proof (induction max_chars st full chars refs rule: recall_hits.induct)
  case (2 max_chars st full chars ref refs)
  then show ?case
    by (auto split: if_splits option.splits dest: summary_for_thread)
qed simp

lemma recall_hits_chars: "chars \<le> max_chars \<Longrightarrow> chars + (\<Sum>s \<leftarrow> recall_hits max_chars st full chars refs. length (ts_text s)) \<le> max_chars"
  by (induction max_chars st full chars refs rule: recall_hits.induct) (auto split: option.splits simp: add.assoc)

text \<open>
  C32. What is recalled was said and still is: in every interleaving of messages, revisions and sweeps a recalled
  summary was made of messages its thread still has, word for word, unless one of them was deleted or edited
  while the model was writing that very summary; and what is recalled fits the budget.
\<close>

theorem recall_is_still_said:
  assumes "s \<in> set (recall_summaries enabled distance limit max_chars (cm_store (memory_after es)))"
  shows "(\<exists>rows torn. js_get (cm_made (memory_after es)) (ts_thread s) = Some (rows, torn) \<and>
      (torn \<or> still_said (ts_thread s) rows (cm_store (memory_after es)))) \<and>
    (\<Sum>s \<leftarrow> recall_summaries enabled distance limit max_chars (cm_store (memory_after es)). length (ts_text s)) \<le> max_chars"
proof -
  let ?m = "memory_after es"
  from assms obtain refs where "s \<in> set (recall_hits max_chars (cm_store ?m) False 0 refs)"
    by (auto simp: recall_summaries_def split: bool.splits option.splits)
  from recall_hits_summaries[OF this] have s: "summary_for (ts_thread s) (cm_store ?m) \<noteq> None" by simp
  note ok = memory_after_ok[of es, unfolded memory_ok_def]
  from ok s obtain rows torn where "js_get (cm_made ?m) (ts_thread s) = Some (rows, torn)" by fastforce
  with ok s have "\<exists>rows torn. js_get (cm_made ?m) (ts_thread s) = Some (rows, torn) \<and> (torn \<or> still_said (ts_thread s) rows (cm_store ?m))"
    by (cases torn) auto
  moreover have "(\<Sum>s \<leftarrow> recall_summaries enabled distance limit max_chars (cm_store ?m). length (ts_text s)) \<le> max_chars"
    using recall_hits_chars[of 0 max_chars] by (auto simp: recall_summaries_def split: bool.splits option.splits)
  ultimately show ?thesis by blast
qed

definition quiet_message :: message_row where
  "quiet_message = \<lparr>mr_id = 0, mr_ts = ''0.1'', mr_thread = None, mr_user = ''U1'', mr_name = None, mr_text = js ''key 42'', mr_at = 0\<rparr>"

definition quiet_events :: "revision list \<Rightarrow> nat memory_event list" where
  "quiet_events revisions =
     [EvMessage False quiet_message, EvNamed 0 (Some ''Ada'') 1, EvSweep 1, EvSettings (Some 1), EvSpend True False] @ map EvRevision revisions @
     [EvSummary (Some (ShapeDecision, js ''the key is 42'')) True 1 False, EvVector (Some (7, 1, ''e'')) 1 False]"

definition quiet_summary :: thread_summary where
  "quiet_summary = \<lparr>ts_thread = ''0.1'', ts_shape = ShapeDecision, ts_text = js ''the key is 42'', ts_covers = ''0.1'', ts_count = 1, ts_at = 1\<rparr>"

lemma quiet_recall: "recall_summaries True (Some (id :: nat \<Rightarrow> nat)) 5 100 (cm_store (memory_after (quiet_events []))) = [quiet_summary]"
  by code_simp

text \<open>The message is deleted while the model writes, and what is recalled tells what it said.\<close>

lemma torn_recall:
  "recall_summaries True (Some (id :: nat \<Rightarrow> nat)) 5 100 (cm_store (memory_after (quiet_events [Deleted ''0.1'']))) = [quiet_summary]"
  "st_messages (cm_store (memory_after (quiet_events [Deleted ''0.1'']))) = []"
  "stale_threads ''9'' (Some 3) (cm_store (memory_after (quiet_events [Deleted ''0.1'']))) = []"
  by code_simp+

text \<open>A deletion that comes while the author's name is looked up finds nothing, and the message is then stored.\<close>

lemma deleted_while_named:
  "map mr_ts (st_messages (cm_store (memory_after
     ([EvMessage False quiet_message, EvRevision (Deleted ''0.1''), EvNamed 0 (Some ''Ada'') 1] :: nat memory_event list)))) = [''0.1'']"
  by code_simp

lemma recall_is_still_said_witness:
  "recall_summaries True (Some (id :: nat \<Rightarrow> nat)) 5 100 (cm_store (memory_after (quiet_events []))) = [quiet_summary] \<and>
   (\<exists>rows torn. js_get (cm_made (memory_after (quiet_events []))) (ts_thread quiet_summary) = Some (rows, torn) \<and>
      (torn \<or> still_said (ts_thread quiet_summary) rows (cm_store (memory_after (quiet_events [])))))"
proof
  show "recall_summaries True (Some (id :: nat \<Rightarrow> nat)) 5 100 (cm_store (memory_after (quiet_events []))) = [quiet_summary]"
    by (rule quiet_recall)
  then show "\<exists>rows torn. js_get (cm_made (memory_after (quiet_events []))) (ts_thread quiet_summary) = Some (rows, torn) \<and>
      (torn \<or> still_said (ts_thread quiet_summary) rows (cm_store (memory_after (quiet_events []))))"
    using recall_is_still_said[of quiet_summary True "Some (id :: nat \<Rightarrow> nat)" 5 100 "quiet_events []"] by simp
qed

end
