(* ===== verification/Message_Query.thy ===== *)
theory Message_Query
  imports Skill_File
begin

text \<open>
  The full-text query built from a model's words (\<open>toMatchQuery\<close> and \<open>toAnyMatchQuery\<close> of
  \<open>packages/memory/src/store-db.ts\<close>), over UTF-16 code units, and FTS5's own reading of the strings it is made of.
\<close>

definition search_max_terms :: nat where "search_max_terms = 32"
definition search_max_query_chars :: nat where "search_max_query_chars = 1024"

text \<open>\<open>split(/\s+/u)\<close> with the empty parts left out: the runs of units that are not space.\<close>

function text_words :: "js_text \<Rightarrow> js_text list" where
  "text_words us =
     (let rest = dropWhile space_unit us
      in if rest = [] then []
         else takeWhile (\<lambda>u. \<not> space_unit u) rest # text_words (dropWhile (\<lambda>u. \<not> space_unit u) rest))"
  by auto
termination
proof (relation "measure length")
  fix us rest :: js_text
  assume r: "rest = dropWhile space_unit us" "rest \<noteq> []"
  then have "\<not> space_unit (hd rest)" using hd_dropWhile by blast
  then have "length (dropWhile (\<lambda>u. \<not> space_unit u) rest) < length rest"
    using r(2) by (cases rest) (auto simp: less_Suc_eq_le length_dropWhile_le)
  also have "\<dots> \<le> length us" using r(1) by (simp add: length_dropWhile_le)
  finally show "(dropWhile (\<lambda>u. \<not> space_unit u) rest, us) \<in> measure length" by simp
qed simp

declare text_words.simps [simp del]

definition quote_unit :: unit16 where "quote_unit = 0x22"

definition double_quotes :: "js_text \<Rightarrow> js_text" where
  "double_quotes us = concat (map (\<lambda>u. if u = quote_unit then [quote_unit, quote_unit] else [u]) us)"

definition quoted_term :: "js_text \<Rightarrow> js_text" where
  "quoted_term us = quote_unit # double_quotes us @ [quote_unit]"

definition query_terms :: "js_text \<Rightarrow> js_text list" where
  "query_terms us = take search_max_terms (text_words (take search_max_query_chars us))"

definition quoted_terms :: "js_text \<Rightarrow> js_text list" where
  "quoted_terms us = map quoted_term (query_terms us)"

definition to_match_query :: "js_text \<Rightarrow> js_text option" where
  "to_match_query us = (let terms = quoted_terms us in if terms = [] then None else Some (js_join (js '' '') terms))"

definition to_any_match_query :: "js_text \<Rightarrow> js_text option" where
  "to_any_match_query us = (let terms = quoted_terms us in if terms = [] then None else Some (js_join (js '' OR '') terms))"

text \<open>
  \<open>runSearch\<close>: the conjunction, and where it finds nothing the disjunction, unless that is the same query.
\<close>

definition run_search :: "(js_text \<Rightarrow> 'r list) \<Rightarrow> js_text \<Rightarrow> 'r list" where
  "run_search run us =
     (case to_match_query us of
        None \<Rightarrow> []
      | Some all \<Rightarrow>
          if run all \<noteq> [] then run all
          else case to_any_match_query us of
              None \<Rightarrow> []
            | Some any \<Rightarrow> if any = all then [] else run any)"

subsection \<open>How FTS5 reads it\<close>

text \<open>A string after its opening quote: up to the quote that is not doubled.\<close>

fun fts_string :: "js_text \<Rightarrow> (js_text \<times> js_text) option" where
  "fts_string [] = None"
| "fts_string (u # us) =
     (if u = quote_unit then
        (case us of
           w # rest \<Rightarrow> if w = quote_unit then map_option (apfst ((#) quote_unit)) (fts_string rest) else Some ([], us)
         | [] \<Rightarrow> Some ([], []))
      else map_option (apfst ((#) u)) (fts_string us))"

text \<open>Strings with a separator between them.\<close>

lemma fts_string_shorter: "fts_string us = Some (t, rest) \<Longrightarrow> length rest < length us"
proof (induction us arbitrary: t rest rule: fts_string.induct)
  case (2 u us)
  then show ?case by (cases us) (fastforce split: if_splits)+
qed simp

function fts_phrases :: "js_text \<Rightarrow> js_text \<Rightarrow> js_text list option" where
  "fts_phrases sep us =
     (case us of
        [] \<Rightarrow> None
      | u # rest \<Rightarrow>
          if u \<noteq> quote_unit then None
          else case fts_string rest of
              None \<Rightarrow> None
            | Some (t, after) \<Rightarrow>
                if after = [] then Some [t]
                else if take (length sep) after = sep then map_option ((#) t) (fts_phrases sep (drop (length sep) after)) else None)"
  by auto
termination
  by (relation "measure (\<lambda>(sep, us). length us)") (auto dest!: fts_string_shorter)

declare fts_phrases.simps [simp del]

lemma double_quotes_simps [simp]: "double_quotes [] = []"
    "double_quotes (u # us) = (if u = quote_unit then quote_unit # quote_unit # double_quotes us else u # double_quotes us)"
  by (simp_all add: double_quotes_def)

lemma fts_string_quoted: "rest = [] \<or> hd rest \<noteq> quote_unit \<Longrightarrow> fts_string (double_quotes t @ quote_unit # rest) = Some (t, rest)"
proof (induction t)
  case Nil
  then show ?case by (cases rest) auto
qed auto

lemma fts_phrases_join:
  "ts \<noteq> [] \<Longrightarrow> sep \<noteq> [] \<Longrightarrow> hd sep \<noteq> quote_unit \<Longrightarrow> fts_phrases sep (js_join sep (map quoted_term ts)) = Some ts"
proof (induction ts rule: list_nonempty_induct)
  case (single t)
  then show ?case using fts_string_quoted[of "[]" t] by (subst fts_phrases.simps) (simp add: quoted_term_def)
next
  case (cons t ts)
  obtain t' ts' where ts: "ts = t' # ts'" using cons.hyps by (cases ts) auto
  have j: "js_join sep (map quoted_term (t # ts)) = quote_unit # double_quotes t @ quote_unit # sep @ js_join sep (map quoted_term ts)"
    by (simp add: ts quoted_term_def)
  have "fts_string (double_quotes t @ quote_unit # sep @ js_join sep (map quoted_term ts)) = Some (t, sep @ js_join sep (map quoted_term ts))"
    using cons.prems by (intro fts_string_quoted) (cases sep; simp)
  then show ?case using cons unfolding j by (subst fts_phrases.simps) simp
qed

lemma text_words_ok: "t \<in> set (text_words us) \<Longrightarrow> t \<noteq> [] \<and> list_all (\<lambda>u. \<not> space_unit u) t"
proof (induction us rule: text_words.induct)
  case (1 us)
  let ?rest = "dropWhile space_unit us"
  show ?case
  proof (cases "?rest = []")
    case False
    from False have h: "\<not> space_unit (hd ?rest)" using hd_dropWhile by blast
    from False have "text_words us = takeWhile (\<lambda>u. \<not> space_unit u) ?rest # text_words (dropWhile (\<lambda>u. \<not> space_unit u) ?rest)"
      by (subst text_words.simps) (simp only: Let_def if_False)
    with "1.prems" consider "t = takeWhile (\<lambda>u. \<not> space_unit u) ?rest" | "t \<in> set (text_words (dropWhile (\<lambda>u. \<not> space_unit u) ?rest))"
      by auto
    then show ?thesis
    proof cases
      case 1
      then show ?thesis using h False by (cases ?rest) (auto simp: list_all_iff dest: set_takeWhileD)
    next
      case 2
      then show ?thesis using "1.IH"[OF refl False] by simp
    qed
  next
    case True
    then show ?thesis using "1.prems" by (subst (asm) text_words.simps) simp
  qed
qed

text \<open>
  No word a model searches for is query syntax: FTS5 reads both queries back as exactly the words, one
  string each, at most thirty-two of them and none of them empty, and text without a word makes no query.
\<close>

theorem match_query_is_words:
  "(case to_match_query us of Some q \<Rightarrow> fts_phrases (js '' '') q = Some (query_terms us) | None \<Rightarrow> query_terms us = []) \<and>
   (case to_any_match_query us of Some q \<Rightarrow> fts_phrases (js '' OR '') q = Some (query_terms us) | None \<Rightarrow> query_terms us = []) \<and>
   length (query_terms us) \<le> search_max_terms \<and> list_all (\<lambda>t. t \<noteq> [] \<and> list_all (\<lambda>u. \<not> space_unit u) t) (query_terms us)"
proof -
  have sep: "js '' '' \<noteq> []" "hd (js '' '') \<noteq> quote_unit" "js '' OR '' \<noteq> []" "hd (js '' OR '') \<noteq> quote_unit"
    by (simp_all add: js_def quote_unit_def)
  have "list_all (\<lambda>t. t \<noteq> [] \<and> list_all (\<lambda>u. \<not> space_unit u) t) (query_terms us)"
    using text_words_ok by (auto simp: query_terms_def list_all_iff dest!: in_set_takeD)
  then show ?thesis
    using fts_phrases_join[OF _ sep(1,2), of "query_terms us"] fts_phrases_join[OF _ sep(3,4), of "query_terms us"]
    by (auto simp: to_match_query_def to_any_match_query_def quoted_terms_def Let_def query_terms_def)
qed

end
