(* ===== verification/Session_Registry.thy ===== *)
theory Session_Registry
  imports Prelude
begin

text \<open>
  One channel, one session (\<open>apps/server/src/session\<close>): the mutex its tasks queue on (\<open>mutex.ts\<close>), the registry that
  opens and evicts sessions (\<open>registry.ts\<close>), the threads a session follows (\<open>threads.ts\<close>), the cache of its authors'
  names (\<open>names.ts\<close>) and the router that puts a mention through them (\<open>router.ts\<close>). A session object outlives its
  eviction for whoever holds it, so sessions are numbered in the order they were made and the registry maps a channel
  to a number. A step is one synchronous stretch: opening a session and joining its queue, the sheet's answer, the end
  of a task.
\<close>

subsection \<open>Names\<close>

definition name_cache_max :: nat where "name_cache_max = 500"

text \<open>\<open>fresh\<close> is the lookup started when there is none: the cache keeps lookups, so callers share one in flight.\<close>

definition name_get :: "nat \<Rightarrow> string \<Rightarrow> 'p \<Rightarrow> (string, 'p) jsmap \<Rightarrow> 'p \<times> (string, 'p) jsmap" where
  "name_get max_names user fresh cache =
     (case js_get cache user of
        Some held \<Rightarrow> (held, cache)
      | None \<Rightarrow>
          let cache = js_set user fresh cache
          in (fresh, if max_names < length cache then drop 1 cache else cache))"

subsection \<open>Threads\<close>

definition activate :: "string \<Rightarrow> nat \<Rightarrow> nat \<Rightarrow> (string, nat) jsmap \<Rightarrow> (string, nat) jsmap" where
  "activate thread now window until =
     (let until = filter (\<lambda>e. \<not> snd e \<le> now) until
      in if window = 0 then js_delete thread until else js_set thread (now + window) until)"

definition is_active :: "string \<Rightarrow> nat \<Rightarrow> (string, nat) jsmap \<Rightarrow> bool" where
  "is_active thread now until = (case js_get until thread of None \<Rightarrow> False | Some deadline \<Rightarrow> now < deadline)"

subsection \<open>Sessions\<close>

definition session_idle_ms :: nat where "session_idle_ms = 30 * 60000"

text \<open>A task in a thread, or what it leaves to do after its reply.\<close>

datatype job = TaskJob nat string | AfterJob nat

record session_key =
  sk_workspace :: string
  sk_channel :: string

text \<open>
  \<open>se_queue\<close>: what the mutex holds, the running work first, so \<open>pending\<close> is its length; \<open>se_window\<close>: the follow-up
  window of the running task, once its sheet is known.
\<close>

record session =
  se_key :: session_key
  se_queue :: "job list"
  se_window :: "nat option"
  se_threads :: "(string, nat) jsmap"
  se_last_used :: nat
  se_closed :: bool

datatype session_log =
    JobQueued session_key job
  | JobStarted session_key job
  | JobFinished session_key job
  | SessionEvicted nat nat

record sessions =
  sn_all :: "session list"
  sn_entries :: "(session_key, nat) jsmap"
  sn_log :: "session_log list"

definition no_sessions :: sessions where
  "no_sessions = \<lparr>sn_all = [], sn_entries = [], sn_log = []\<rparr>"

definition change_session :: "nat \<Rightarrow> (session \<Rightarrow> session) \<Rightarrow> sessions \<Rightarrow> sessions" where
  "change_session sid f st = st\<lparr>sn_all := (sn_all st)[sid := f (sn_all st ! sid)]\<rparr>"

definition tell :: "session_log list \<Rightarrow> sessions \<Rightarrow> sessions" where
  "tell es st = st\<lparr>sn_log := sn_log st @ es\<rparr>"

definition sweep_one :: "nat \<Rightarrow> nat \<Rightarrow> session_key \<times> nat \<Rightarrow> sessions \<Rightarrow> sessions" where
  "sweep_one idle now e st =
     (let (key, sid) = e; s = sn_all st ! sid
      in if se_queue s \<noteq> [] then st
         else if now < se_last_used s + idle then st
         else tell [SessionEvicted sid now]
           ((change_session sid (\<lambda>s. s\<lparr>se_closed := True\<rparr>) st)\<lparr>sn_entries := js_delete key (sn_entries st)\<rparr>))"

definition sweep_sessions :: "nat \<Rightarrow> nat \<Rightarrow> sessions \<Rightarrow> sessions" where
  "sweep_sessions idle now st = fold (sweep_one idle now) (sn_entries st) st"

definition make_session :: "session_key \<Rightarrow> nat \<Rightarrow> session" where
  "make_session key now =
     \<lparr>se_key = key, se_queue = [], se_window = None, se_threads = [], se_last_used = now, se_closed = False\<rparr>"

definition open_session :: "nat \<Rightarrow> session_key \<Rightarrow> nat \<Rightarrow> sessions \<Rightarrow> nat \<times> sessions" where
  "open_session idle key now st =
     (let st = sweep_sessions idle now st
      in case js_get (sn_entries st) key of
          Some sid \<Rightarrow> (sid, change_session sid (\<lambda>s. s\<lparr>se_last_used := now\<rparr>) st)
        | None \<Rightarrow>
            let sid = length (sn_all st)
            in (sid, st\<lparr>sn_all := sn_all st @ [make_session key now], sn_entries := js_set key sid (sn_entries st)\<rparr>))"

subsection \<open>The mutex\<close>

text \<open>\<open>run\<close>: the work starts at once where nothing is before it.\<close>

definition mutex_run :: "nat \<Rightarrow> job \<Rightarrow> sessions \<Rightarrow> sessions" where
  "mutex_run sid job st =
     (let s = sn_all st ! sid
      in tell (JobQueued (se_key s) job # (if se_queue s = [] then [JobStarted (se_key s) job] else []))
           (change_session sid (\<lambda>s. s\<lparr>se_queue := se_queue s @ [job]\<rparr>) st))"

text \<open>The running work has settled, either way, and the next starts.\<close>

definition mutex_settled :: "nat \<Rightarrow> sessions \<Rightarrow> sessions" where
  "mutex_settled sid st =
     (let s = sn_all st ! sid
      in case se_queue s of
          [] \<Rightarrow> st
        | job # rest \<Rightarrow>
            tell (JobFinished (se_key s) job # (case rest of [] \<Rightarrow> [] | following # _ \<Rightarrow> [JobStarted (se_key s) following]))
              (change_session sid (\<lambda>s. s\<lparr>se_queue := rest, se_window := None\<rparr>) st))"

subsection \<open>The router\<close>

definition mention_arrives :: "nat \<Rightarrow> session_key \<Rightarrow> nat \<Rightarrow> string \<Rightarrow> nat \<Rightarrow> sessions \<Rightarrow> sessions" where
  "mention_arrives idle key task thread now st =
     (let (sid, st) = open_session idle key now st in mutex_run sid (TaskJob task thread) st)"

text \<open>The sheet's answer for the running task, which makes its thread active.\<close>

definition sheet_known :: "nat \<Rightarrow> nat \<Rightarrow> nat \<Rightarrow> sessions \<Rightarrow> sessions" where
  "sheet_known sid now window st =
     (if sid < length (sn_all st) then
        (case se_queue (sn_all st ! sid) of
           TaskJob task thread # _ \<Rightarrow>
             if se_window (sn_all st ! sid) = None
             then change_session sid (\<lambda>s. s\<lparr>se_window := Some window, se_threads := activate thread now window (se_threads s)\<rparr>) st
             else st
         | _ \<Rightarrow> st)
      else st)"

text \<open>The \<open>finally\<close> of a task.\<close>

definition task_ends :: "nat \<Rightarrow> string \<Rightarrow> session \<Rightarrow> session" where
  "task_ends now thread s =
     s\<lparr>se_last_used := now,
       se_threads := (case se_window s of None \<Rightarrow> se_threads s | Some window \<Rightarrow> activate thread now window (se_threads s))\<rparr>"

text \<open>\<open>after\<close>: whether the task, which then did not throw, left work for after its reply.\<close>

definition job_done :: "nat \<Rightarrow> nat \<Rightarrow> bool \<Rightarrow> sessions \<Rightarrow> sessions" where
  "job_done sid now after st =
     (if sid < length (sn_all st) then
        (case se_queue (sn_all st ! sid) of
           TaskJob task thread # _ \<Rightarrow>
             let st = mutex_settled sid (change_session sid (task_ends now thread) st)
             in if after then mutex_run sid (AfterJob task) st else st
         | AfterJob task # _ \<Rightarrow> mutex_settled sid st
         | [] \<Rightarrow> st)
      else st)"

datatype session_event =
    SeOpened session_key nat
  | SeMention session_key nat string nat
  | SeSheet nat nat nat
  | SeDone nat nat bool

primrec event_time :: "session_event \<Rightarrow> nat" where
  "event_time (SeOpened key now) = now"
| "event_time (SeMention key task thread now) = now"
| "event_time (SeSheet sid now window) = now"
| "event_time (SeDone sid now after) = now"

primrec session_apply :: "nat \<Rightarrow> session_event \<Rightarrow> sessions \<Rightarrow> sessions" where
  "session_apply idle (SeOpened key now) st = snd (open_session idle key now st)"
| "session_apply idle (SeMention key task thread now) st = mention_arrives idle key task thread now st"
| "session_apply idle (SeSheet sid now window) st = sheet_known sid now window st"
| "session_apply idle (SeDone sid now after) st = job_done sid now after st"

definition sessions_after :: "nat \<Rightarrow> session_event list \<Rightarrow> sessions" where
  "sessions_after idle es = fold (session_apply idle) es no_sessions"

subsection \<open>One at a time\<close>

primrec queued_for :: "session_key \<Rightarrow> session_log \<Rightarrow> job list" where
  "queued_for key (JobQueued k j) = (if k = key then [j] else [])"
| "queued_for key (JobStarted k j) = []"
| "queued_for key (JobFinished k j) = []"
| "queued_for key (SessionEvicted sid now) = []"

primrec run_for :: "session_key \<Rightarrow> session_log \<Rightarrow> session_log list" where
  "run_for key (JobQueued k j) = []"
| "run_for key (JobStarted k j) = (if k = key then [JobStarted k j] else [])"
| "run_for key (JobFinished k j) = (if k = key then [JobFinished k j] else [])"
| "run_for key (SessionEvicted sid now) = []"

definition one_by_one :: "session_key \<Rightarrow> job list \<Rightarrow> job list \<Rightarrow> session_log list" where
  "one_by_one key finished waiting =
     concat (map (\<lambda>j. [JobStarted key j, JobFinished key j]) finished) @
     (case waiting of [] \<Rightarrow> [] | j # _ \<Rightarrow> [JobStarted key j])"

definition in_order :: "session_key \<Rightarrow> job list \<Rightarrow> session_log list \<Rightarrow> bool" where
  "in_order key waiting log \<longleftrightarrow>
     (\<exists>finished. concat (map (queued_for key) log) = finished @ waiting \<and> concat (map (run_for key) log) = one_by_one key finished waiting)"

definition queue_of :: "session_key \<Rightarrow> sessions \<Rightarrow> job list" where
  "queue_of key st = (case js_get (sn_entries st) key of Some sid \<Rightarrow> se_queue (sn_all st ! sid) | None \<Rightarrow> [])"

definition order_ok :: "sessions \<Rightarrow> bool" where
  "order_ok st \<longleftrightarrow> js_map_wf (sn_entries st) \<and>
     (\<forall>key sid. js_get (sn_entries st) key = Some sid \<longrightarrow>
        sid < length (sn_all st) \<and> se_key (sn_all st ! sid) = key \<and> \<not> se_closed (sn_all st ! sid)) \<and>
     (\<forall>sid < length (sn_all st). js_get (sn_entries st) (se_key (sn_all st ! sid)) \<noteq> Some sid \<longrightarrow>
        se_closed (sn_all st ! sid) \<and> se_queue (sn_all st ! sid) = []) \<and>
     (\<forall>key. in_order key (queue_of key st) (sn_log st))"

lemma order_ok_entry:
  "order_ok st \<Longrightarrow> js_get (sn_entries st) key = Some sid \<Longrightarrow>
     sid < length (sn_all st) \<and> se_key (sn_all st ! sid) = key \<and> \<not> se_closed (sn_all st ! sid)"
  by (simp add: order_ok_def)

lemma order_ok_gone:
  "order_ok st \<Longrightarrow> sid < length (sn_all st) \<Longrightarrow> js_get (sn_entries st) (se_key (sn_all st ! sid)) \<noteq> Some sid \<Longrightarrow>
     se_closed (sn_all st ! sid) \<and> se_queue (sn_all st ! sid) = []"
  by (simp add: order_ok_def)

lemma order_ok_log:
  assumes "order_ok st" "js_get (sn_entries st) key = Some sid"
  shows "in_order key (se_queue (sn_all st ! sid)) (sn_log st)"
proof -
  have "in_order key (queue_of key st) (sn_log st)" using assms(1) by (simp add: order_ok_def)
  then show ?thesis using assms(2) by (simp add: queue_of_def)
qed

lemma in_order_other:
  "in_order key q log \<Longrightarrow> concat (map (queued_for key) es) = [] \<Longrightarrow> concat (map (run_for key) es) = [] \<Longrightarrow> in_order key q (log @ es)"
  by (auto simp: in_order_def)

lemma in_order_queued:
  "in_order key q log \<Longrightarrow> in_order key (q @ [j]) (log @ JobQueued key j # (if q = [] then [JobStarted key j] else []))"
  unfolding in_order_def by (cases q) (auto simp: one_by_one_def)

lemma in_order_finished:
  assumes "in_order key (j # q) log"
  shows "in_order key q (log @ JobFinished key j # (case q of [] \<Rightarrow> [] | j' # _ \<Rightarrow> [JobStarted key j']))"
proof -
  from assms obtain finished where "concat (map (queued_for key) log) = finished @ j # q"
    "concat (map (run_for key) log) = one_by_one key finished (j # q)" by (auto simp: in_order_def)
  then show ?thesis unfolding in_order_def by (intro exI[of _ "finished @ [j]"]) (auto simp: one_by_one_def split: list.splits)
qed

text \<open>A session that is registered, changed but for its key, its store and its queue.\<close>

lemma order_ok_changed:
  assumes "order_ok st" "\<And>s. se_key (f s) = se_key s" "\<And>s. se_closed (f s) = se_closed s" "\<And>s. se_queue (f s) = se_queue s"
  shows "order_ok (change_session sid f st)"
proof -
  have n: "se_key (sn_all (change_session sid f st) ! i) = se_key (sn_all st ! i)"
    "se_closed (sn_all (change_session sid f st) ! i) = se_closed (sn_all st ! i)"
    "se_queue (sn_all (change_session sid f st) ! i) = se_queue (sn_all st ! i)" if "i < length (sn_all st)" for i
    using that assms(2-4) by (cases "i = sid"; simp add: change_session_def)+
  have "queue_of key (change_session sid f st) = queue_of key st" for key
    using assms(1) n by (auto simp: queue_of_def order_ok_def change_session_def split: option.splits)
  with assms(1) n show ?thesis by (auto simp: order_ok_def change_session_def)
qed

lemma order_ok_sweep_one:
  assumes "order_ok st" "js_get (sn_entries st) key = Some sid"
  shows "order_ok (sweep_one idle now (key, sid) st)"
proof (cases "se_queue (sn_all st ! sid) \<noteq> [] \<or> now < se_last_used (sn_all st ! sid) + idle")
  case True
  then show ?thesis using assms(1) by (auto simp: sweep_one_def Let_def)
next
  case False
  let ?st = "sweep_one idle now (key, sid) st"
  have s: "sid < length (sn_all st)" "se_key (sn_all st ! sid) = key" using assms by (auto simp: order_ok_def)
  have entries: "js_get (sn_entries ?st) k = (if k = key then None else js_get (sn_entries st) k)" for k
    using False by (simp add: sweep_one_def Let_def tell_def delete_conv')
  have nth: "sn_all ?st ! i = (if i = sid then (sn_all st ! sid)\<lparr>se_closed := True\<rparr> else sn_all st ! i)" if "i < length (sn_all st)" for i
    using False that by (simp add: sweep_one_def Let_def tell_def change_session_def)
  have len: "length (sn_all ?st) = length (sn_all st)" using False by (simp add: sweep_one_def Let_def tell_def change_session_def)
  have log: "sn_log ?st = sn_log st @ [SessionEvicted sid now]" using False by (simp add: sweep_one_def Let_def tell_def change_session_def)
  have wf: "js_map_wf (sn_entries ?st)" using assms(1) False by (simp add: order_ok_def sweep_one_def Let_def tell_def)
  have "queue_of k ?st = queue_of k st" for k
  proof (cases "k = key")
    case True
    then show ?thesis using assms(2) False by (simp add: queue_of_def entries)
  next
    case other: False
    show ?thesis
    proof (cases "js_get (sn_entries st) k")
      case (Some i)
      then have "i < length (sn_all st)" "i \<noteq> sid" using order_ok_entry[OF assms(1) Some] s(2) other by auto
      then show ?thesis using Some other nth[of i] by (simp add: queue_of_def entries)
    qed (simp add: queue_of_def entries other)
  qed
  then have "in_order k (queue_of k ?st) (sn_log ?st)" for k
    using assms(1) unfolding log by (auto simp: order_ok_def intro: in_order_other)
  moreover have "i < length (sn_all st) \<and> se_key (sn_all ?st ! i) = k \<and> \<not> se_closed (sn_all ?st ! i)"
    if "js_get (sn_entries ?st) k = Some i" for k i
  proof -
    have o: "k \<noteq> key" "js_get (sn_entries st) k = Some i" using that by (simp_all add: entries split: if_splits)
    from order_ok_entry[OF assms(1) o(2)] o(1) s(2) have "i \<noteq> sid" "i < length (sn_all st)" by auto
    then show ?thesis using order_ok_entry[OF assms(1) o(2)] nth[of i] by simp
  qed
  moreover have "se_closed (sn_all ?st ! i) \<and> se_queue (sn_all ?st ! i) = []"
    if "i < length (sn_all st)" "js_get (sn_entries ?st) (se_key (sn_all ?st ! i)) \<noteq> Some i" for i
  proof (cases "i = sid")
    case True
    then show ?thesis using nth[OF that(1)] False by simp
  next
    case other: False
    then have same: "sn_all ?st ! i = sn_all st ! i" using nth[OF that(1)] by simp
    have "js_get (sn_entries st) (se_key (sn_all st ! i)) \<noteq> Some i"
      using that(2) other assms(2) unfolding same entries by (auto split: if_splits)
    then show ?thesis using order_ok_gone[OF assms(1) that(1)] same by simp
  qed
  ultimately show ?thesis using wf unfolding order_ok_def len by blast
qed

lemma sweep_one_entries:
  "sn_entries (sweep_one idle now (key, sid) st) = sn_entries st \<or> sn_entries (sweep_one idle now (key, sid) st) = js_delete key (sn_entries st)"
  by (simp add: sweep_one_def Let_def tell_def)

text \<open>What every single eviction keeps, the sweep keeps.\<close>

lemma sweep_keeps:
  assumes "P st" "order_ok st"
    "\<And>st key sid. P st \<Longrightarrow> order_ok st \<Longrightarrow> js_get (sn_entries st) key = Some sid \<Longrightarrow> P (sweep_one idle now (key, sid) st)"
  shows "P (sweep_sessions idle now st) \<and> order_ok (sweep_sessions idle now st)"
proof -
  have "P (fold (sweep_one idle now) es st) \<and> order_ok (fold (sweep_one idle now) es st)"
    if "P st" "order_ok st" "js_map_wf es" "\<forall>(k, i) \<in> set es. js_get (sn_entries st) k = Some i" for es st
    using that
  proof (induction es arbitrary: st)
    case (Cons e es)
    obtain k i where e: "e = (k, i)" by (cases e)
    let ?st = "sweep_one idle now (k, i) st"
    have g: "js_get (sn_entries st) k = Some i" using Cons.prems(4) e by simp
    have "k \<notin> fst ` set es" "js_map_wf es" using Cons.prems(3) e by (auto simp: js_map_wf_def)
    moreover have "\<forall>(k, i) \<in> set es. js_get (sn_entries ?st) k = Some i"
      using Cons.prems(4) \<open>k \<notin> fst ` set es\<close> sweep_one_entries[of idle now k i st] by (force simp: delete_conv')
    ultimately show ?case
      using Cons.IH[OF assms(3)[OF Cons.prems(1,2) g] order_ok_sweep_one[OF Cons.prems(2) g]] e by simp
  qed simp
  moreover have "js_map_wf (sn_entries st)" using assms(2) by (simp add: order_ok_def)
  ultimately show ?thesis using assms(1,2) js_get_in_set[of "sn_entries st"] unfolding sweep_sessions_def by fastforce
qed

text \<open>The registered session of a channel, its queue changed and the change told.\<close>

lemma order_ok_queue:
  assumes "order_ok st" "js_get (sn_entries st) key = Some sid"
    "\<And>s. se_key (f s) = se_key s" "\<And>s. se_closed (f s) = se_closed s"
    "in_order key (se_queue (f (sn_all st ! sid))) (sn_log st @ es)"
    "\<And>k. k \<noteq> key \<Longrightarrow> concat (map (queued_for k) es) = [] \<and> concat (map (run_for k) es) = []"
  shows "order_ok (tell es (change_session sid f st))"
proof -
  let ?st = "tell es (change_session sid f st)"
  have s: "sid < length (sn_all st)" "se_key (sn_all st ! sid) = key" using order_ok_entry[OF assms(1,2)] by auto
  have nth: "sn_all ?st ! i = (if i = sid then f (sn_all st ! sid) else sn_all st ! i)" if "i < length (sn_all st)" for i
    using that by (simp add: change_session_def tell_def)
  have same: "se_key (sn_all ?st ! i) = se_key (sn_all st ! i)" "se_closed (sn_all ?st ! i) = se_closed (sn_all st ! i)"
    if "i < length (sn_all st)" for i
    using nth[OF that] assms(3,4) by (cases "i = sid"; simp)+
  have frame: "length (sn_all ?st) = length (sn_all st)" "sn_entries ?st = sn_entries st" "sn_log ?st = sn_log st @ es"
    by (simp_all add: change_session_def tell_def)
  have "in_order k (queue_of k ?st) (sn_log ?st)" for k
  proof (cases "k = key")
    case True
    then show ?thesis using assms(2,5) nth[OF s(1)] by (simp add: queue_of_def frame)
  next
    case False
    have "queue_of k ?st = queue_of k st"
    proof (cases "js_get (sn_entries st) k")
      case (Some i)
      then have "i < length (sn_all st)" "i \<noteq> sid" using order_ok_entry[OF assms(1) Some] s(2) False by auto
      then show ?thesis using Some nth[of i] by (simp add: queue_of_def frame)
    qed (simp add: queue_of_def frame)
    then show ?thesis using assms(1) assms(6)[OF False] in_order_other unfolding order_ok_def frame by metis
  qed
  moreover have "i < length (sn_all st) \<and> se_key (sn_all ?st ! i) = k \<and> \<not> se_closed (sn_all ?st ! i)"
    if "js_get (sn_entries st) k = Some i" for k i
    using order_ok_entry[OF assms(1) that] same by simp
  moreover have "se_closed (sn_all ?st ! i) \<and> se_queue (sn_all ?st ! i) = []"
    if "i < length (sn_all st)" "js_get (sn_entries st) (se_key (sn_all ?st ! i)) \<noteq> Some i" for i
  proof -
    have "i \<noteq> sid" using that(2) s assms(2) unfolding same(1)[OF that(1)] by auto
    then show ?thesis using that order_ok_gone[OF assms(1) that(1)] same[OF that(1)] nth[OF that(1)] by simp
  qed
  moreover have "js_map_wf (sn_entries st)" using assms(1) by (simp add: order_ok_def)
  ultimately show ?thesis unfolding order_ok_def frame by blast
qed

lemma order_ok_run:
  assumes "order_ok st" "js_get (sn_entries st) key = Some sid"
  shows "order_ok (mutex_run sid job st)"
proof -
  have k: "se_key (sn_all st ! sid) = key" using order_ok_entry[OF assms] by simp
  have "in_order key (se_queue (sn_all st ! sid)) (sn_log st)" by (rule order_ok_log[OF assms])
  from in_order_queued[OF this, of job] show ?thesis
    unfolding mutex_run_def Let_def k by (intro order_ok_queue[OF assms]) auto
qed

lemma busy_registered:
  "order_ok st \<Longrightarrow> sid < length (sn_all st) \<Longrightarrow> se_queue (sn_all st ! sid) \<noteq> [] \<Longrightarrow>
     js_get (sn_entries st) (se_key (sn_all st ! sid)) = Some sid"
  using order_ok_gone by blast

lemma order_ok_settled:
  assumes "order_ok st" "sid < length (sn_all st)"
  shows "order_ok (mutex_settled sid st)"
proof (cases "se_queue (sn_all st ! sid)")
  case (Cons job rest)
  let ?key = "se_key (sn_all st ! sid)"
  have r: "js_get (sn_entries st) ?key = Some sid" using busy_registered[OF assms] Cons by simp
  have "in_order ?key (job # rest) (sn_log st)" using order_ok_log[OF assms(1) r] Cons by simp
  from in_order_finished[OF this] show ?thesis
    unfolding mutex_settled_def Let_def Cons list.case
    by (intro order_ok_queue[OF assms(1) r]) (auto split: list.splits)
qed (use assms in \<open>simp add: mutex_settled_def\<close>)

lemma order_ok_open:
  assumes "order_ok st"
  shows "order_ok (snd (open_session idle key now st)) \<and>
    js_get (sn_entries (snd (open_session idle key now st))) key = Some (fst (open_session idle key now st))"
proof -
  let ?st = "sweep_sessions idle now st"
  have ok: "order_ok ?st" using sweep_keeps[of "\<lambda>_. True", OF _ assms] by simp
  show ?thesis
  proof (cases "js_get (sn_entries ?st) key")
    case (Some sid)
    have "order_ok (change_session sid (\<lambda>s. s\<lparr>se_last_used := now\<rparr>) ?st)" by (rule order_ok_changed[OF ok]) simp_all
    then show ?thesis using Some by (simp add: open_session_def Let_def change_session_def)
  next
    case None
    let ?n = "length (sn_all ?st)"
    let ?st' = "?st\<lparr>sn_all := sn_all ?st @ [make_session key now], sn_entries := js_set key ?n (sn_entries ?st)\<rparr>"
    have nth: "sn_all ?st' ! i = (if i = ?n then make_session key now else sn_all ?st ! i)" if "i < Suc ?n" for i
      using that by (simp add: nth_append)
    have "queue_of k ?st' = queue_of k ?st" for k
      using None order_ok_entry[OF ok, of k] nth by (auto simp: queue_of_def make_session_def nth_append split: option.splits)
    then have "in_order k (queue_of k ?st') (sn_log ?st')" for k using ok by (simp add: order_ok_def)
    moreover have "i < Suc ?n \<and> se_key (sn_all ?st' ! i) = k \<and> \<not> se_closed (sn_all ?st' ! i)"
      if "js_get (sn_entries ?st') k = Some i" for k i
    proof (cases "k = key")
      case True
      then show ?thesis using that by (auto simp: make_session_def nth_append)
    next
      case False
      then have "js_get (sn_entries ?st) k = Some i" using that by simp
      from order_ok_entry[OF ok this] show ?thesis by (simp add: nth_append)
    qed
    moreover have "se_closed (sn_all ?st' ! i) \<and> se_queue (sn_all ?st' ! i) = []"
      if "i < Suc ?n" "js_get (sn_entries ?st') (se_key (sn_all ?st' ! i)) \<noteq> Some i" for i
    proof (cases "i = ?n")
      case True
      then show ?thesis using that by (simp add: make_session_def)
    next
      case False
      then have i: "i < ?n" using that(1) by simp
      then have "js_get (sn_entries ?st) (se_key (sn_all ?st ! i)) \<noteq> Some i" using that(2) None by (auto simp: nth_append split: if_splits)
      from order_ok_gone[OF ok i this] i show ?thesis by (simp add: nth_append)
    qed
    moreover have "js_map_wf (sn_entries ?st')" using ok by (simp add: order_ok_def)
    ultimately have "order_ok ?st'" unfolding order_ok_def by simp
    then show ?thesis using None by (simp add: open_session_def Let_def)
  qed
qed

lemma order_ok_done:
  assumes "order_ok st"
  shows "order_ok (job_done sid now after st)"
proof (cases "sid < length (sn_all st) \<and> se_queue (sn_all st ! sid) \<noteq> []")
  case True
  then obtain job rest where q: "se_queue (sn_all st ! sid) = job # rest" by (cases "se_queue (sn_all st ! sid)") auto
  show ?thesis
  proof (cases job)
    case (TaskJob task thread)
    let ?st = "change_session sid (task_ends now thread) st"
    have ok: "order_ok ?st" by (rule order_ok_changed[OF assms]) (simp_all add: task_ends_def split: option.splits)
    have "js_get (sn_entries (mutex_settled sid ?st)) (se_key (sn_all st ! sid)) = Some sid"
      using busy_registered[OF assms, of sid] True by (simp add: mutex_settled_def change_session_def tell_def Let_def task_ends_def split: list.splits)
    with order_ok_run order_ok_settled[OF ok, of sid] True q TaskJob show ?thesis
      by (simp add: job_done_def Let_def change_session_def)
  qed (use True q order_ok_settled[OF assms] in \<open>simp add: job_done_def\<close>)
qed (use assms in \<open>auto simp: job_done_def\<close>)

lemma order_ok_sheet: "order_ok st \<Longrightarrow> order_ok (sheet_known sid now window st)"
  by (auto simp: sheet_known_def split: list.splits job.splits intro!: order_ok_changed)

lemma order_ok_apply: "order_ok st \<Longrightarrow> order_ok (session_apply idle e st)"
proof (cases e)
  case (SeMention key task thread now)
  assume "order_ok st"
  from order_ok_open[OF this, of idle key now] order_ok_run[of "snd (open_session idle key now st)" key] SeMention
  show ?thesis by (cases "open_session idle key now st") (simp add: mention_arrives_def)
qed (auto simp: order_ok_done order_ok_sheet order_ok_open)

lemma sessions_after_ok: "order_ok (sessions_after idle es)"
proof -
  have "order_ok (fold (session_apply idle) es st)" if "order_ok st" for st
    using that by (induction es arbitrary: st) (auto simp: order_ok_apply)
  moreover have "order_ok no_sessions" by (simp add: order_ok_def no_sessions_def queue_of_def in_order_def one_by_one_def)
  ultimately show ?thesis by (simp add: sessions_after_def)
qed

text \<open>
  C22. A channel's work runs one at a time and in the order it came, whatever evictions come between: in every run a
  channel's starts and ends are those of its queued work in order, each ended before the next starts, with at most the
  first that waits running.
\<close>

theorem one_task_at_a_time:
  "\<exists>finished waiting. concat (map (queued_for key) (sn_log (sessions_after idle es))) = finished @ waiting \<and>
     concat (map (run_for key) (sn_log (sessions_after idle es))) = one_by_one key finished waiting"
  using sessions_after_ok[of idle es] unfolding order_ok_def in_order_def by blast

subsection \<open>Evictions\<close>

definition deadlines :: "session \<Rightarrow> nat set" where
  "deadlines s = snd ` set (se_threads s)"

definition session_timely :: "nat \<Rightarrow> nat \<Rightarrow> session \<Rightarrow> bool" where
  "session_timely now idle s \<longleftrightarrow> se_last_used s \<le> now \<and> (\<forall>d \<in> deadlines s. d \<le> now + idle) \<and>
     (case se_window s of
        None \<Rightarrow> \<forall>d \<in> deadlines s. d \<le> se_last_used s + idle
      | Some w \<Rightarrow> w \<le> idle \<and> (\<exists>task thread rest. se_queue s = TaskJob task thread # rest))"

text \<open>An evicted session is closed, holds no work and follows no thread from then on.\<close>

definition evicted_rightly :: "session list \<Rightarrow> nat \<Rightarrow> nat \<Rightarrow> bool" where
  "evicted_rightly all sid t \<longleftrightarrow> sid < length all \<and> se_closed (all ! sid) \<and> se_queue (all ! sid) = [] \<and> (\<forall>d \<in> deadlines (all ! sid). d \<le> t)"

definition timely :: "nat \<Rightarrow> nat \<Rightarrow> sessions \<Rightarrow> bool" where
  "timely now idle st \<longleftrightarrow> (\<forall>s \<in> set (sn_all st). session_timely now idle s) \<and>
     (\<forall>sid t. SessionEvicted sid t \<in> set (sn_log st) \<longrightarrow> evicted_rightly (sn_all st) sid t)"

lemma session_timely_later: "session_timely t idle s \<Longrightarrow> t \<le> now \<Longrightarrow> session_timely now idle s"
  by (force simp: session_timely_def split: option.splits)

lemma timely_later: "timely t idle st \<Longrightarrow> t \<le> now \<Longrightarrow> timely now idle st"
  using session_timely_later unfolding timely_def by blast

lemma activate_deadlines: "snd ` set (activate thread now window until) \<subseteq> insert (now + window) (snd ` set until)"
proof -
  let ?until = "filter (\<lambda>e. \<not> snd e \<le> now) until"
  have "set (js_set k v m) \<subseteq> insert (k, v) (set m)" for k v and m :: "(string, nat) jsmap"
    by (induction m) auto
  from this[of thread "now + window" ?until] have "set (js_set thread (now + window) ?until) \<subseteq> insert (thread, now + window) (set until)" by auto
  moreover have "set (js_delete thread ?until) \<subseteq> set until" by (auto simp: AList.delete_eq)
  ultimately have "set (activate thread now window until) \<subseteq> insert (thread, now + window) (set until)"
    by (auto simp: activate_def Let_def)
  then show ?thesis by auto
qed

text \<open>A session that is not closed, changed into one that is timely.\<close>

lemma timely_changed:
  assumes "timely now idle st" "sid < length (sn_all st)" "\<not> se_closed (sn_all st ! sid)" "session_timely now idle (f (sn_all st ! sid))"
    "list_all (\<lambda>e. \<forall>sid t. e \<noteq> SessionEvicted sid t) es"
  shows "timely now idle (tell es (change_session sid f st))"
proof -
  have "session_timely now idle s" if "s \<in> set ((sn_all st)[sid := f (sn_all st ! sid)])" for s
    using that assms(1,4) set_update_subset_insert[of "sn_all st" sid "f (sn_all st ! sid)"] unfolding timely_def by auto
  moreover have "evicted_rightly ((sn_all st)[sid := f (sn_all st ! sid)]) i t"
    if "SessionEvicted i t \<in> set (sn_log st) \<or> SessionEvicted i t \<in> set es" for i t
  proof -
    have "SessionEvicted i t \<in> set (sn_log st)" using that assms(5) by (auto simp: list_all_iff)
    then have e: "evicted_rightly (sn_all st) i t" using assms(1) by (simp add: timely_def)
    then have "i \<noteq> sid" using assms(3) by (auto simp: evicted_rightly_def)
    with e show ?thesis by (simp add: evicted_rightly_def)
  qed
  ultimately show ?thesis by (simp add: timely_def tell_def change_session_def)
qed

lemma tell_nothing: "tell [] st = st"
  by (simp add: tell_def)

lemmas timely_touched = timely_changed[where es = "[]", unfolded tell_nothing, simplified]

lemma timely_sweep_one:
  assumes "timely now idle st" "order_ok st" "js_get (sn_entries st) key = Some sid"
  shows "timely now idle (sweep_one idle now (key, sid) st)"
proof (cases "se_queue (sn_all st ! sid) \<noteq> [] \<or> now < se_last_used (sn_all st ! sid) + idle")
  case True
  then show ?thesis using assms(1) by (auto simp: sweep_one_def Let_def)
next
  case False
  let ?s = "sn_all st ! sid"
  have s: "sid < length (sn_all st)" using order_ok_entry[OF assms(2,3)] by simp
  have t: "session_timely now idle ?s" using assms(1) s by (simp add: timely_def)
  have "se_window ?s = None" using t False by (auto simp: session_timely_def split: option.splits)
  then have d: "\<forall>d \<in> deadlines ?s. d \<le> now" using t False by (auto simp: session_timely_def)
  have nth: "(sn_all st)[sid := ?s\<lparr>se_closed := True\<rparr>] ! i = (if i = sid then ?s\<lparr>se_closed := True\<rparr> else sn_all st ! i)"
    if "i < length (sn_all st)" for i using that by simp
  have "session_timely now idle x" if "x \<in> set ((sn_all st)[sid := ?s\<lparr>se_closed := True\<rparr>])" for x
  proof -
    have "x = ?s\<lparr>se_closed := True\<rparr> \<or> x \<in> set (sn_all st)"
      using that set_update_subset_insert[of "sn_all st" sid "?s\<lparr>se_closed := True\<rparr>"] by auto
    moreover have "session_timely now idle (?s\<lparr>se_closed := True\<rparr>)"
      using t by (cases "se_window ?s") (simp_all add: session_timely_def deadlines_def)
    ultimately show ?thesis using assms(1) by (auto simp: timely_def)
  qed
  moreover have "evicted_rightly ((sn_all st)[sid := ?s\<lparr>se_closed := True\<rparr>]) i t"
    if "SessionEvicted i t \<in> set (sn_log st) \<or> i = sid \<and> t = now" for i t
  proof (cases "i = sid")
    case True
    have "\<forall>d \<in> deadlines ?s. d \<le> t"
      using that d assms(1) True unfolding timely_def evicted_rightly_def by blast
    then show ?thesis using True s False by (simp add: evicted_rightly_def deadlines_def)
  next
    case other: False
    then have "evicted_rightly (sn_all st) i t" using that assms(1) by (simp add: timely_def)
    then show ?thesis using other by (simp add: evicted_rightly_def)
  qed
  ultimately show ?thesis using False by (simp add: timely_def sweep_one_def Let_def tell_def change_session_def)
qed

lemma timely_open:
  assumes "timely now idle st" "order_ok st"
  shows "timely now idle (snd (open_session idle key now st))"
proof -
  let ?st = "sweep_sessions idle now st"
  have ok: "timely now idle ?st" "order_ok ?st"
    using sweep_keeps[of "timely now idle" st idle now, OF assms] timely_sweep_one by blast+
  show ?thesis
  proof (cases "js_get (sn_entries ?st) key")
    case (Some sid)
    then have s: "sid < length (sn_all ?st)" "\<not> se_closed (sn_all ?st ! sid)" using order_ok_entry[OF ok(2) Some] by auto
    then have "session_timely now idle (sn_all ?st ! sid)" using ok(1) by (simp add: timely_def)
    then have "session_timely now idle ((sn_all ?st ! sid)\<lparr>se_last_used := now\<rparr>)"
      by (cases "se_window (sn_all ?st ! sid)") (auto simp: session_timely_def deadlines_def)
    with timely_touched[OF ok(1) s, of "\<lambda>s. s\<lparr>se_last_used := now\<rparr>"] show ?thesis using Some by (simp add: open_session_def Let_def)
  next
    case None
    have "session_timely now idle (make_session key now)" by (simp add: make_session_def session_timely_def deadlines_def)
    moreover have "evicted_rightly (sn_all ?st @ [make_session key now]) i t" if "SessionEvicted i t \<in> set (sn_log ?st)" for i t
    proof -
      have "evicted_rightly (sn_all ?st) i t" using that ok(1) by (simp add: timely_def)
      then show ?thesis by (simp add: evicted_rightly_def nth_append)
    qed
    ultimately have "timely now idle (?st\<lparr>sn_all := sn_all ?st @ [make_session key now], sn_entries := js_set key (length (sn_all ?st)) (sn_entries ?st)\<rparr>)"
      using ok(1) by (auto simp: timely_def)
    with None show ?thesis by (simp add: open_session_def Let_def)
  qed
qed

lemma timely_run:
  assumes "timely now idle st" "order_ok st" "js_get (sn_entries st) key = Some sid"
  shows "timely now idle (mutex_run sid job st)"
proof -
  have s: "sid < length (sn_all st)" "\<not> se_closed (sn_all st ! sid)" using order_ok_entry[OF assms(2,3)] by auto
  then have "session_timely now idle (sn_all st ! sid)" using assms(1) by (simp add: timely_def)
  then have "session_timely now idle ((sn_all st ! sid)\<lparr>se_queue := se_queue (sn_all st ! sid) @ [job]\<rparr>)"
    by (cases "se_window (sn_all st ! sid)") (auto simp: session_timely_def deadlines_def)
  with timely_changed[OF assms(1) s, of "\<lambda>s. s\<lparr>se_queue := se_queue s @ [job]\<rparr>"] show ?thesis
    by (simp add: mutex_run_def Let_def)
qed

text \<open>The end of the running work: a task's last use is now, and anything else followed nothing.\<close>

lemma timely_settled:
  assumes "timely now idle st" "order_ok st" "sid < length (sn_all st)"
    "\<forall>d \<in> deadlines (sn_all st ! sid). d \<le> se_last_used (sn_all st ! sid) + idle"
  shows "timely now idle (mutex_settled sid st)"
proof (cases "se_queue (sn_all st ! sid)")
  case (Cons job rest)
  then have s: "\<not> se_closed (sn_all st ! sid)" using busy_registered[OF assms(2,3)] order_ok_entry[OF assms(2)] by force
  have "session_timely now idle (sn_all st ! sid)" using assms(1,3) by (simp add: timely_def)
  then have "session_timely now idle ((sn_all st ! sid)\<lparr>se_queue := rest, se_window := None\<rparr>)"
    using assms(4) by (auto simp: session_timely_def deadlines_def split: option.splits)
  with timely_changed[OF assms(1,3) s, of "\<lambda>s. s\<lparr>se_queue := rest, se_window := None\<rparr>"] show ?thesis
    by (simp add: mutex_settled_def Let_def Cons split: list.splits)
qed (use assms in \<open>simp add: mutex_settled_def\<close>)

lemma timely_done:
  assumes "timely now idle st" "order_ok st"
  shows "timely now idle (job_done sid now after st)"
proof (cases "sid < length (sn_all st) \<and> se_queue (sn_all st ! sid) \<noteq> []")
  case True
  then obtain job rest where q: "se_queue (sn_all st ! sid) = job # rest" by (cases "se_queue (sn_all st ! sid)") auto
  let ?s = "sn_all st ! sid"
  have reg: "js_get (sn_entries st) (se_key ?s) = Some sid" using busy_registered[OF assms(2)] True by simp
  have s: "sid < length (sn_all st)" "\<not> se_closed ?s" using order_ok_entry[OF assms(2) reg] by simp_all
  have t: "session_timely now idle ?s" using assms(1) s(1) by (simp add: timely_def)
  show ?thesis
  proof (cases job)
    case (TaskJob task thread)
    let ?e = "task_ends now thread ?s" and ?st = "change_session sid (task_ends now thread) st"
    have d: "\<forall>d \<in> deadlines ?e. d \<le> now + idle"
    proof (cases "se_window ?s")
      case (Some w)
      then have "deadlines ?e \<subseteq> insert (now + w) (deadlines ?s)"
        using activate_deadlines by (simp add: deadlines_def task_ends_def)
      then show ?thesis using t Some by (auto simp: session_timely_def)
    qed (use t in \<open>simp add: session_timely_def task_ends_def deadlines_def\<close>)
    then have "session_timely now idle ?e"
      using t q TaskJob by (auto simp: session_timely_def task_ends_def deadlines_def split: option.splits)
    then have tm: "timely now idle ?st" by (rule timely_touched[OF assms(1) s])
    have ok: "order_ok ?st" by (rule order_ok_changed[OF assms(2)]) (simp_all add: task_ends_def split: option.splits)
    have "timely now idle (mutex_settled sid ?st)"
      using d s(1) by (intro timely_settled[OF tm ok]) (simp_all add: change_session_def task_ends_def)
    moreover have "order_ok (mutex_settled sid ?st)" using order_ok_settled[OF ok, of sid] s(1) by (simp add: change_session_def)
    moreover have "js_get (sn_entries (mutex_settled sid ?st)) (se_key ?s) = Some sid"
      using reg by (simp add: mutex_settled_def change_session_def tell_def Let_def task_ends_def split: list.splits)
    ultimately show ?thesis using timely_run True q TaskJob by (simp add: job_done_def Let_def)
  next
    case (AfterJob task)
    then have "\<forall>d \<in> deadlines ?s. d \<le> se_last_used ?s + idle" using t q by (auto simp: session_timely_def split: option.splits)
    from timely_settled[OF assms s(1) this] show ?thesis using True q AfterJob by (simp add: job_done_def)
  qed
qed (use assms in \<open>auto simp: job_done_def\<close>)

lemma timely_sheet:
  assumes "timely now idle st" "order_ok st" "window \<le> idle"
  shows "timely now idle (sheet_known sid now window st)"
proof (cases "sid < length (sn_all st) \<and> (\<exists>task thread rest. se_queue (sn_all st ! sid) = TaskJob task thread # rest) \<and> se_window (sn_all st ! sid) = None")
  case True
  then obtain task thread rest where q: "se_queue (sn_all st ! sid) = TaskJob task thread # rest" by blast
  let ?s = "sn_all st ! sid" and ?f = "\<lambda>s. s\<lparr>se_window := Some window, se_threads := activate thread now window (se_threads s)\<rparr>"
  have s: "sid < length (sn_all st)" "\<not> se_closed ?s"
    using busy_registered[OF assms(2), of sid] order_ok_entry[OF assms(2)] True q by force+
  have t: "session_timely now idle ?s" using assms(1) s(1) by (simp add: timely_def)
  have "session_timely now idle (?f ?s)"
  proof -
    have "deadlines (?f ?s) \<subseteq> insert (now + window) (deadlines ?s)" using activate_deadlines by (simp add: deadlines_def)
    then show ?thesis using t assms(3) q by (auto simp: session_timely_def)
  qed
  with timely_touched[OF assms(1) s, of ?f] show ?thesis using True q by (simp add: sheet_known_def)
qed (use assms in \<open>auto simp: sheet_known_def split: list.splits job.splits\<close>)

definition window_within :: "nat \<Rightarrow> session_event \<Rightarrow> bool" where
  "window_within idle e \<longleftrightarrow> (case e of SeSheet sid now window \<Rightarrow> window \<le> idle | _ \<Rightarrow> True)"

lemma timely_apply:
  assumes "timely (event_time e) idle st" "order_ok st" "window_within idle e"
  shows "timely (event_time e) idle (session_apply idle e st)"
proof (cases e)
  case (SeMention key task thread now)
  have "timely now idle (snd (open_session idle key now st))" using timely_open assms(1,2) SeMention by simp
  from timely_run[OF this, of key] order_ok_open[OF assms(2), of idle key now] SeMention show ?thesis
    by (cases "open_session idle key now st") (simp add: mention_arrives_def)
qed (use assms in \<open>auto simp: timely_open timely_sheet timely_done window_within_def\<close>)

lemma timely_run_events:
  assumes "sorted (map event_time es)" "\<forall>e \<in> set es. window_within idle e"
  shows "timely (if es = [] then 0 else event_time (last es)) idle (sessions_after idle es)"
  using assms
proof (induction es rule: rev_induct)
  case Nil
  show ?case by (simp add: sessions_after_def no_sessions_def timely_def)
next
  case (snoc e es)
  let ?t = "if es = [] then 0 else event_time (last es)"
  have "?t \<le> event_time e" using snoc.prems(1) by (auto simp: sorted_append)
  moreover have "timely ?t idle (sessions_after idle es)" using snoc by (simp add: sorted_append)
  ultimately have "timely (event_time e) idle (sessions_after idle es)" by (rule timely_later[rotated])
  from timely_apply[OF this sessions_after_ok] snoc.prems(2) show ?case by (simp add: sessions_after_def)
qed

text \<open>
  C23. Eviction costs nobody an answer: where the clock does not go back and no follow-up window is longer than the
  idle time, an evicted session held no work, its store is closed only then, and it follows no thread from that
  moment on, so a message the agent would have answered finds the session that follows its thread.
\<close>

theorem eviction_is_harmless:
  assumes "sorted (map event_time es)" "\<forall>e \<in> set es. window_within idle e"
    "SessionEvicted sid t \<in> set (sn_log (sessions_after idle es))" "t \<le> now"
  defines "s \<equiv> sn_all (sessions_after idle es) ! sid"
  shows "se_queue s = [] \<and> se_closed s \<and> \<not> is_active thread now (se_threads s)"
proof -
  have e: "evicted_rightly (sn_all (sessions_after idle es)) sid t"
    using timely_run_events[OF assms(1,2)] assms(3) by (simp add: timely_def)
  have "d \<le> now" if "js_get (se_threads s) thread = Some d" for d
    using e assms(4) map_of_SomeD[OF that] by (force simp: evicted_rightly_def deadlines_def s_def)
  with e show ?thesis by (auto simp: evicted_rightly_def is_active_def s_def split: option.splits dest: leD)
qed

text \<open>A store is closed under no work: a session with work is the registered one of its channel, and open.\<close>

lemma work_is_open:
  assumes "sid < length (sn_all (sessions_after idle es))" "se_queue (sn_all (sessions_after idle es) ! sid) \<noteq> []"
  shows "\<not> se_closed (sn_all (sessions_after idle es) ! sid)"
  using busy_registered[OF sessions_after_ok assms] order_ok_entry[OF sessions_after_ok] by blast

lemma name_get_bounded: "length cache \<le> max_names \<Longrightarrow> length (snd (name_get max_names user fresh cache)) \<le> max_names"
  by (auto simp: name_get_def Let_def length_js_set split: option.splits)

subsection \<open>A run\<close>

definition team_channel :: session_key where "team_channel = \<lparr>sk_workspace = ''T1'', sk_channel = ''C1''\<rparr>"

definition two_mentions :: "session_event list" where
  "two_mentions = [SeMention team_channel 1 ''1.1'' 0, SeSheet 0 1 5, SeMention team_channel 2 ''2.1'' 2, SeDone 0 3 True,
     SeDone 0 4 False, SeDone 0 5 False, SeOpened team_channel 20]"

lemma one_task_at_a_time_run:
  "sn_log (sessions_after 10 two_mentions) =
     [JobQueued team_channel (TaskJob 1 ''1.1''), JobStarted team_channel (TaskJob 1 ''1.1''),
      JobQueued team_channel (TaskJob 2 ''2.1''), JobFinished team_channel (TaskJob 1 ''1.1''),
      JobStarted team_channel (TaskJob 2 ''2.1''), JobQueued team_channel (AfterJob 1),
      JobFinished team_channel (TaskJob 2 ''2.1''), JobStarted team_channel (AfterJob 1),
      JobFinished team_channel (AfterJob 1), SessionEvicted 0 20]"
  by code_simp

theorem eviction_is_harmless_witness:
  "SessionEvicted 0 20 \<in> set (sn_log (sessions_after 10 two_mentions)) \<and>
   se_closed (sn_all (sessions_after 10 two_mentions) ! 0) \<and>
   \<not> is_active ''1.1'' 20 (se_threads (sn_all (sessions_after 10 two_mentions) ! 0))"
proof -
  have e: "SessionEvicted 0 20 \<in> set (sn_log (sessions_after 10 two_mentions))" by (simp add: one_task_at_a_time_run)
  have "sorted (map event_time two_mentions)" "\<forall>e \<in> set two_mentions. window_within 10 e"
    by (simp_all add: two_mentions_def window_within_def)
  from eviction_is_harmless[OF this e order.refl, of "''1.1''"] e show ?thesis by simp
qed

end
