(* ===== verification/Memory_File.thy ===== *)
theory Memory_File
  imports Agent_Loop Js_Text "HOL-Library.Sublist"
begin

text \<open>
  A channel's \<open>MEMORY.md\<close>: the two operations a model may ask for (\<open>packages/schema/src/memory-op.ts\<close>), what one does
  to the file (\<open>packages/memory/src/memory-file.ts\<close>) and the curation turn that runs them after a reply
  (\<open>packages/agent/src/curation/turn.ts\<close>). A file is the text its bytes decode to, none where it is not there.
\<close>

subsection \<open>Operations\<close>

definition memory_op_max_text_chars :: nat where "memory_op_max_text_chars = 4096"

datatype memory_op = MemoryAppend js_text | MemoryReplace js_text js_text

datatype memory_op_failure =
    UnknownMemoryTool
  | MalformedMemoryArguments
  | MemoryTextTooLong
  | FileCapExceeded nat nat
  | FindNotFound
  | FindAmbiguous nat

datatype memory_op_result = MemoryWritten nat nat | MemoryFailed memory_op_failure

text \<open>What a model sends as arguments: an object's fields, of which only texts matter, or no object.\<close>

datatype argument_value = ArgumentText js_text | ArgumentOther

type_synonym op_arguments = "(string \<times> argument_value) list option"

datatype zod_issue = TooBig | OtherIssue

definition text_issues :: "nat \<Rightarrow> argument_value option \<Rightarrow> zod_issue list" where
  "text_issues min_chars v =
     (case v of
        Some (ArgumentText us) \<Rightarrow>
          (if length us < min_chars then [OtherIssue] else []) @ (if memory_op_max_text_chars < length us then [TooBig] else [])
      | _ \<Rightarrow> [OtherIssue])"

definition strict_issues :: "(string \<times> nat) list \<Rightarrow> op_arguments \<Rightarrow> zod_issue list" where
  "strict_issues known arguments =
     (case arguments of
        None \<Rightarrow> [OtherIssue]
      | Some given \<Rightarrow>
          concat (map (\<lambda>(name, min_chars). text_issues min_chars (map_of given name)) known) @
          (if list_ex (\<lambda>(name, v). name \<notin> fst ` set known) given then [OtherIssue] else []))"

definition failure_of :: "zod_issue list \<Rightarrow> memory_op_failure" where
  "failure_of issues = (if list_all (\<lambda>i. i = TooBig) issues then MemoryTextTooLong else MalformedMemoryArguments)"

definition argument_text :: "op_arguments \<Rightarrow> string \<Rightarrow> js_text" where
  "argument_text arguments name =
     (case Option.bind arguments (\<lambda>given. map_of given name) of Some (ArgumentText us) \<Rightarrow> us | _ \<Rightarrow> [])"

definition parse_memory_op :: "string \<Rightarrow> op_arguments \<Rightarrow> memory_op_failure + memory_op" where
  "parse_memory_op name arguments =
     (if name = ''memory_append'' then
        let issues = strict_issues [(''text'', 1)] arguments
        in if issues \<noteq> [] then Inl (failure_of issues) else Inr (MemoryAppend (argument_text arguments ''text''))
      else if name = ''memory_replace'' then
        let issues = strict_issues [(''find'', 1), (''replace'', 0)] arguments
        in if issues \<noteq> [] then Inl (failure_of issues)
           else Inr (MemoryReplace (argument_text arguments ''find'') (argument_text arguments ''replace''))
      else Inl UnknownMemoryTool)"

definition memory_op_message :: "memory_op_result \<Rightarrow> js_text" where
  "memory_op_message result =
     (case result of
        MemoryWritten chars limit \<Rightarrow> js ''Written. MEMORY.md now holds '' @ js_nat chars @ js '' of '' @ js_nat limit @ js '' characters.''
      | MemoryFailed UnknownMemoryTool \<Rightarrow> js ''That is not one of this channel's memory operations. Nothing was written.''
      | MemoryFailed MalformedMemoryArguments \<Rightarrow> js ''Those arguments do not match the operation's input schema. Nothing was written.''
      | MemoryFailed MemoryTextTooLong \<Rightarrow>
          js ''One memory operation may carry '' @ js_nat memory_op_max_text_chars @ js '' characters and this one carried more. Nothing was written.''
      | MemoryFailed (FileCapExceeded chars limit) \<Rightarrow>
          js ''MEMORY.md would be '' @ js_nat chars @ js '' characters and this channel's cap is '' @ js_nat limit @
          js ''. Nothing was written. Replace something already in the file with a shorter version of itself to make room.''
      | MemoryFailed FindNotFound \<Rightarrow>
          js ''That text appears nowhere in MEMORY.md, and a replacement must match exactly once. Nothing was written. Copy the text from the file as it is written there.''
      | MemoryFailed (FindAmbiguous matches) \<Rightarrow>
          js ''That text appears '' @ js_nat matches @
          js '' times in MEMORY.md, and a replacement must match exactly once. Nothing was written. Include enough of the surrounding text to name one place.'')"

subsection \<open>What an operation does\<close>

text \<open>\<open>indexOf\<close>, and the matches \<open>split\<close> counts: from the left, none overlapping.\<close>

fun text_index :: "js_text \<Rightarrow> js_text \<Rightarrow> nat option" where
  "text_index needle us =
     (if prefix needle us then Some 0
      else case us of [] \<Rightarrow> None | u # rest \<Rightarrow> map_option Suc (text_index needle rest))"

declare text_index.simps [simp del]

function count_matches :: "js_text \<Rightarrow> js_text \<Rightarrow> nat" where
  "count_matches needle us =
     (if needle = [] then 0
      else case text_index needle us of
          None \<Rightarrow> 0
        | Some i \<Rightarrow> if length us < i + length needle then 0 else Suc (count_matches needle (drop (i + length needle) us)))"
  by auto
termination by (relation "measure (\<lambda>(needle, us). length us)") (auto simp: length_greater_0_conv[symmetric] simp del: length_greater_0_conv)

declare count_matches.simps [simp del]

definition precheck :: "memory_op \<Rightarrow> memory_op_failure option" where
  "precheck op =
     (let required = (case op of MemoryAppend us \<Rightarrow> us | MemoryReplace find_text _ \<Rightarrow> find_text);
          texts = (case op of MemoryAppend us \<Rightarrow> [us] | MemoryReplace find_text replace_by \<Rightarrow> [find_text, replace_by])
      in if required = [] then Some MalformedMemoryArguments
         else if list_ex (\<lambda>f. memory_op_max_text_chars < length f) texts then Some MemoryTextTooLong
         else None)"

definition newline :: unit16 where "newline = 0xA"

definition ends_line :: "js_text \<Rightarrow> bool" where
  "ends_line us \<longleftrightarrow> us \<noteq> [] \<and> last us = newline"

text \<open>The text to write, if any, and what is answered.\<close>

definition capped :: "js_text \<Rightarrow> js_text \<Rightarrow> nat \<Rightarrow> js_text option \<times> memory_op_result" where
  "capped content future limit =
     (if limit < length future \<and> length content < length future then (None, MemoryFailed (FileCapExceeded (length future) limit))
      else (Some future, MemoryWritten (length future) limit))"

definition plan_memory_op :: "js_text \<Rightarrow> memory_op \<Rightarrow> nat \<Rightarrow> js_text option \<times> memory_op_result" where
  "plan_memory_op content op limit =
     (case precheck op of
        Some invalid \<Rightarrow> (None, MemoryFailed invalid)
      | None \<Rightarrow>
          (case op of
             MemoryAppend us \<Rightarrow>
               let separator = (if content = [] \<or> ends_line content then [] else [newline]);
                   terminator = (if ends_line us then [] else [newline])
               in capped content (content @ separator @ us @ terminator) limit
           | MemoryReplace find_text replace_by \<Rightarrow>
               let matches = count_matches find_text content
               in if matches = 0 then (None, MemoryFailed FindNotFound)
                  else if 1 < matches then (None, MemoryFailed (FindAmbiguous matches))
                  else
                    let i = (case text_index find_text content of Some i \<Rightarrow> i | None \<Rightarrow> 0)
                    in capped content (take i content @ replace_by @ drop (i + length find_text) content) limit))"

text \<open>What \<open>Buffer.from\<close> keeps of a text: a surrogate without its other half is written as U+FFFD.\<close>

fun well_formed :: "js_text \<Rightarrow> js_text" where
  "well_formed [] = []"
| "well_formed [u] = [if high_surrogate u \<or> low_surrogate u then 0xFFFD else u]"
| "well_formed (u # v # rest) =
     (if high_surrogate u \<and> low_surrogate v then u # v # well_formed rest
      else (if high_surrogate u \<or> low_surrogate u then 0xFFFD else u) # well_formed (v # rest))"

type_synonym memory_file = "js_text option"

definition read_memory :: "memory_file \<Rightarrow> js_text" where
  "read_memory file = (case file of Some content \<Rightarrow> content | None \<Rightarrow> [])"

definition open_memory_file :: "bool \<Rightarrow> bool \<Rightarrow> nat \<Rightarrow> bool" where
  "open_memory_file channel_ok directory_there max_file_chars \<longleftrightarrow>
     channel_ok \<and> memory_op_max_text_chars \<le> max_file_chars \<and> directory_there"

text \<open>A file that cannot be read, or not replaced, is an exception: none, and the file as it was.\<close>

datatype file_io = IoOk | ReadFails | WriteFails

definition apply_memory_op :: "file_io \<Rightarrow> nat \<Rightarrow> memory_op \<Rightarrow> memory_file \<Rightarrow> memory_op_result option \<times> memory_file" where
  "apply_memory_op disk limit op file =
     (if disk = ReadFails then (None, file)
      else
        let (future, result) = plan_memory_op (read_memory file) op limit
        in case future of
            None \<Rightarrow> (Some result, file)
          | Some us \<Rightarrow> if disk = WriteFails then (None, file) else (Some result, Some (well_formed us)))"

subsection \<open>The curation turn\<close>

definition curation_transcript :: "message list \<Rightarrow> message list" where
  "curation_transcript messages =
     List.map_filter (\<lambda>m. case m of
         ToolMessage _ _ _ \<Rightarrow> None
       | UserMessage us \<Rightarrow> Some (UserMessage us)
       | AssistantMessage content _ _ \<Rightarrow> if content = [] then None else Some (AssistantMessage content [] None)) messages"

definition current_memory :: "js_text \<Rightarrow> nat \<Rightarrow> message" where
  "current_memory memory max_file_chars =
     UserMessage (js_join [newline]
       [if memory = [] then js ''This channel has no MEMORY.md yet. It is empty.''
        else js ''This channel's MEMORY.md, in full:'' @ [newline, newline] @ memory,
        [],
        js ''It currently holds '' @ js_nat (length memory) @ js '' characters and may hold '' @ js_nat max_file_chars @ js ''.'',
        [],
        js ''Update it if this conversation produced a durable fact about how this team works.'',
        js ''Call no tool if it did not.''])"

definition curation_messages :: "message list \<Rightarrow> js_text \<Rightarrow> nat \<Rightarrow> message list" where
  "curation_messages messages memory max_file_chars = curation_transcript messages @ [current_memory memory max_file_chars]"

record curation_call =
  cc_name :: string
  cc_arguments :: op_arguments

text \<open>The calls of the model's answer, each with what the disk does; an operation that throws abandons the rest.\<close>

fun run_curation_calls ::
    "nat \<Rightarrow> (curation_call \<times> file_io) list \<Rightarrow> memory_file \<Rightarrow> (string \<times> memory_op_result \<times> js_text) list option \<times> memory_file" where
  "run_curation_calls limit [] file = (Some [], file)"
| "run_curation_calls limit ((call, disk) # calls) file =
     (let (result, file) =
        (case parse_memory_op (cc_name call) (cc_arguments call) of
           Inl reason \<Rightarrow> (Some (MemoryFailed reason), file)
         | Inr op \<Rightarrow> apply_memory_op disk limit op file)
      in case result of
          None \<Rightarrow> (None, file)
        | Some r \<Rightarrow>
            let (outcomes, file) = run_curation_calls limit calls file
            in (map_option (\<lambda>os. (cc_name call, r, memory_op_message r) # os) outcomes, file))"

subsection \<open>Replacing\<close>

lemma text_index_Some:
  "text_index needle us = Some i \<Longrightarrow>
     \<exists>pre post. us = pre @ needle @ post \<and> length pre = i \<and> (\<forall>j < i. \<not> prefix needle (drop j us))"
proof (induction us arbitrary: i)
  case Nil
  then show ?case by (auto simp: text_index.simps[of needle "[]"] split: if_splits)
next
  case (Cons u rest)
  show ?case
  proof (cases "prefix needle (u # rest)")
    case True
    with Cons.prems have "i = 0" by (simp add: text_index.simps[of needle "u # rest"])
    moreover from True obtain post where "u # rest = needle @ post" by (auto simp: prefix_def)
    ultimately show ?thesis by (intro exI[of _ "[]"] exI[of _ post]) simp
  next
    case False
    with Cons.prems obtain k where k: "text_index needle rest = Some k" "i = Suc k"
      by (auto simp: text_index.simps[of needle "u # rest"])
    from Cons.IH[OF k(1)] obtain pre post where p: "rest = pre @ needle @ post" "length pre = k" "\<forall>j < k. \<not> prefix needle (drop j rest)" by blast
    have "\<forall>j < i. \<not> prefix needle (drop j (u # rest))" using False p(3) k(2) by (auto simp: less_Suc_eq_0_disj)
    then show ?thesis using p(1,2) k(2) by (intro exI[of _ "u # pre"] exI[of _ post]) simp
  qed
qed

lemma text_index_None: "text_index needle us = None \<longleftrightarrow> \<not> sublist needle us"
proof (induction us)
  case Nil
  show ?case by (simp add: text_index.simps[of needle "[]"])
next
  case (Cons u rest)
  then show ?case by (simp add: text_index.simps[of needle "u # rest"] sublist_Cons_right)
qed

lemma count_matches_Some:
  assumes "needle \<noteq> []" "text_index needle us = Some i"
  shows "\<exists>pre post. us = pre @ needle @ post \<and> length pre = i \<and> (\<forall>j < i. \<not> prefix needle (drop j us)) \<and>
    count_matches needle us = Suc (count_matches needle post)"
proof -
  from text_index_Some[OF assms(2)] obtain pre post where p: "us = pre @ needle @ post" "length pre = i" "\<forall>j < i. \<not> prefix needle (drop j us)" by blast
  have "count_matches needle us = Suc (count_matches needle post)"
    using assms p(1,2) by (subst count_matches.simps) simp
  with p show ?thesis by blast
qed

lemma count_matches_None: "needle \<noteq> [] \<Longrightarrow> count_matches needle us = 0 \<longleftrightarrow> \<not> sublist needle us"
proof (cases "text_index needle us")
  case None
  assume "needle \<noteq> []"
  then show ?thesis using None text_index_None[of needle us] by (subst count_matches.simps) simp
next
  case (Some i)
  assume "needle \<noteq> []"
  from count_matches_Some[OF this Some] text_index_None[of needle us] Some show ?thesis by auto
qed

lemma capped_cases:
  "capped content future limit = (None, MemoryFailed (FileCapExceeded (length future) limit)) \<or>
   capped content future limit = (Some future, MemoryWritten (length future) limit) \<and> length future \<le> max limit (length content)"
  by (auto simp: capped_def)

text \<open>A file over its cap may still be made smaller.\<close>

lemma shrinking_is_allowed: "length future \<le> length content \<Longrightarrow> capped content future limit = (Some future, MemoryWritten (length future) limit)"
  by (simp add: capped_def)

text \<open>An appended text has lines of its own.\<close>

lemma append_is_framed:
  assumes "plan_memory_op content (MemoryAppend us) limit = (Some future, result)"
  shows "\<exists>before after. future = before @ us @ after \<and> (before = content \<or> before = content @ [newline]) \<and>
    (before = [] \<or> ends_line before) \<and> ends_line future \<and> result = MemoryWritten (length future) limit"
proof -
  let ?sep = "if content = [] \<or> ends_line content then [] else [newline]" and ?closing = "if ends_line us then [] else [newline]"
  from assms have p: "precheck (MemoryAppend us) = None" by (auto simp: plan_memory_op_def split: option.splits)
  then have "us \<noteq> []" by (auto simp: precheck_def split: if_splits)
  from assms p capped_cases[of content "content @ ?sep @ us @ ?closing" limit]
  have "future = content @ ?sep @ us @ ?closing" "result = MemoryWritten (length future) limit"
    by (auto simp: plan_memory_op_def Let_def)
  with \<open>us \<noteq> []\<close> show ?thesis
    by (intro exI[of _ "content @ ?sep"] exI[of _ ?closing]) (auto simp: ends_line_def)
qed

text \<open>The places of a text, none overlapping the next, and the most there can be.\<close>

definition separate_places :: "js_text \<Rightarrow> js_text \<Rightarrow> nat list \<Rightarrow> bool" where
  "separate_places needle us ps \<longleftrightarrow> sorted_wrt (\<lambda>i j. i + length needle \<le> j) ps \<and> (\<forall>i \<in> set ps. prefix needle (drop i us))"

definition most_places :: "js_text \<Rightarrow> js_text \<Rightarrow> nat \<Rightarrow> bool" where
  "most_places needle us n \<longleftrightarrow>
     (\<exists>ps. separate_places needle us ps \<and> length ps = n) \<and> (\<forall>ps. separate_places needle us ps \<longrightarrow> length ps \<le> n)"

text \<open>Any places but the first lie behind the leftmost match, which is none later than the first.\<close>

lemma separate_places_after:
  assumes "separate_places needle (pre @ needle @ post) (p # ps)" "\<forall>j < length pre. \<not> prefix needle (drop j (pre @ needle @ post))"
  shows "separate_places needle post (map (\<lambda>q. q - (length pre + length needle)) ps)"
proof -
  let ?n = "length pre + length needle"
  have "\<not> p < length pre" using assms by (auto simp: separate_places_def)
  then have late: "\<forall>q \<in> set ps. ?n \<le> q" using assms(1) by (force simp: separate_places_def)
  have "prefix needle (drop (q - ?n) post)" if "q \<in> set ps" for q
  proof -
    have "prefix needle (drop q (pre @ needle @ post))" using assms(1) that by (simp add: separate_places_def)
    moreover have "drop q (pre @ needle @ post) = drop (q - ?n) post"
    proof -
      have "?n \<le> q" using late that by blast
      then have "q = (q - ?n) + ?n" by simp
      then have "drop q (pre @ needle @ post) = drop (q - ?n) (drop ?n (pre @ needle @ post))" by (metis drop_drop)
      then show ?thesis by simp
    qed
    ultimately show ?thesis by simp
  qed
  moreover have "sorted_wrt (\<lambda>i j. i + length needle \<le> j) (map (\<lambda>q. q - ?n) ps)"
  proof -
    have "sorted_wrt (\<lambda>i j. i + length needle \<le> j) ps" using assms(1) by (simp add: separate_places_def)
    then show ?thesis unfolding sorted_wrt_map using late by (auto elim!: sorted_wrt_mono_rel[rotated])
  qed
  ultimately show ?thesis by (auto simp: separate_places_def)
qed

lemma separate_places_before:
  assumes "separate_places needle post ps"
  shows "separate_places needle (pre @ needle @ post) (length pre # map (\<lambda>q. q + (length pre + length needle)) ps)"
proof -
  let ?n = "length pre + length needle"
  have "drop (q + ?n) (pre @ needle @ post) = drop q post" for q by (simp add: add.commute drop_drop[symmetric] del: drop_drop)
  then show ?thesis using assms by (auto simp: separate_places_def sorted_wrt_map)
qed

lemma count_matches_most:
  assumes "needle \<noteq> []"
  shows "most_places needle us (count_matches needle us)"
proof (induction "length us" arbitrary: us rule: less_induct)
  case less
  show ?case
  proof (cases "text_index needle us")
    case None
    then have no: "\<not> sublist needle us" by (simp add: text_index_None)
    have "ps = []" if "separate_places needle us ps" for ps
    proof (rule ccontr)
      assume "ps \<noteq> []"
      then have "prefix needle (drop (hd ps) us)" using that by (cases ps) (simp_all add: separate_places_def)
      then obtain rest where "drop (hd ps) us = needle @ rest" by (auto simp: prefix_def)
      then have "us = take (hd ps) us @ needle @ rest" by (metis append_take_drop_id)
      then show False using no unfolding sublist_def by blast
    qed
    moreover have "separate_places needle us []" by (simp add: separate_places_def)
    ultimately show ?thesis using count_matches_None[OF assms, of us] no by (auto simp: most_places_def)
  next
    case (Some i)
    from count_matches_Some[OF assms Some] obtain pre post where p: "us = pre @ needle @ post" "length pre = i"
      "\<forall>j < i. \<not> prefix needle (drop j us)" "count_matches needle us = Suc (count_matches needle post)" by blast
    have "length post < length us" using p(1) assms by simp
    from less[OF this] have m: "most_places needle post (count_matches needle post)" .
    then obtain ps where "separate_places needle post ps" "length ps = count_matches needle post" by (auto simp: most_places_def)
    with separate_places_before[OF this(1), of pre] p(1,4)
    have "\<exists>ps. separate_places needle us ps \<and> length ps = count_matches needle us" by (metis length_Cons length_map)
    moreover have "length ps \<le> count_matches needle us" if "separate_places needle us ps" for ps
    proof (cases ps)
      case (Cons q qs)
      have "separate_places needle post (map (\<lambda>q. q - (length pre + length needle)) qs)"
        using separate_places_after[of needle pre post q qs] that p(1-3) Cons by simp
      then have "length qs \<le> count_matches needle post" using m by (auto simp: most_places_def)
      then show ?thesis using Cons p(4) by simp
    qed simp
    ultimately show ?thesis by (simp add: most_places_def)
  qed
qed

text \<open>
  C26. A replacement touches exactly the text it names. Let \<open>matches\<close> be the most places the file has it at with none
  overlapping another: where there is none, or more than one, nothing is written and the answer says so, with that very
  number; where there is one, its first occurrence and nothing else is replaced, within the cap.
\<close>

theorem memory_replace_is_exact:
  assumes "precheck (MemoryReplace find_text replace_by) = None"
  shows "\<exists>matches. most_places find_text content matches \<and>
    (matches = 0 \<and> \<not> sublist find_text content \<and>
       plan_memory_op content (MemoryReplace find_text replace_by) limit = (None, MemoryFailed FindNotFound) \<or>
     matches = 1 \<and> (\<exists>pre post. content = pre @ find_text @ post \<and> \<not> sublist find_text post \<and>
       (\<forall>j < length pre. \<not> prefix find_text (drop j content)) \<and>
       plan_memory_op content (MemoryReplace find_text replace_by) limit = capped content (pre @ replace_by @ post) limit) \<or>
     2 \<le> matches \<and> plan_memory_op content (MemoryReplace find_text replace_by) limit = (None, MemoryFailed (FindAmbiguous matches)))"
proof -
  have ne: "find_text \<noteq> []" using assms by (auto simp: precheck_def split: if_splits)
  let ?n = "count_matches find_text content"
  have plan: "plan_memory_op content (MemoryReplace find_text replace_by) limit =
      (if ?n = 0 then (None, MemoryFailed FindNotFound)
       else if 1 < ?n then (None, MemoryFailed (FindAmbiguous ?n))
       else let i = (case text_index find_text content of Some i \<Rightarrow> i | None \<Rightarrow> 0)
         in capped content (take i content @ replace_by @ drop (i + length find_text) content) limit)"
    using assms by (simp add: plan_memory_op_def Let_def)
  note most = count_matches_most[OF ne, of content]
  consider "?n = 0" | "?n = 1" | "2 \<le> ?n" by linarith
  then show ?thesis
  proof cases
    case 1
    with most plan count_matches_None[OF ne, of content] show ?thesis by (intro exI[of _ "0"]) simp
  next
    case 2
    then obtain i where i: "text_index find_text content = Some i"
      using count_matches_None[OF ne, of content] text_index_None[of find_text content] by fastforce
    from count_matches_Some[OF ne i] obtain pre post where p: "content = pre @ find_text @ post" "length pre = i"
      "\<forall>j < i. \<not> prefix find_text (drop j content)" "?n = Suc (count_matches find_text post)" by blast
    from p(4) 2 have "\<not> sublist find_text post" using count_matches_None[OF ne, of post] by simp
    moreover have "plan_memory_op content (MemoryReplace find_text replace_by) limit = capped content (pre @ replace_by @ post) limit"
      using plan 2 i p(1,2) by (simp add: Let_def)
    ultimately have "\<exists>pre post. content = pre @ find_text @ post \<and> \<not> sublist find_text post \<and>
       (\<forall>j < length pre. \<not> prefix find_text (drop j content)) \<and>
       plan_memory_op content (MemoryReplace find_text replace_by) limit = capped content (pre @ replace_by @ post) limit"
      using p(1-3) by blast
    with most 2 show ?thesis by (metis (no_types, lifting))
  next
    case 3
    with most plan show ?thesis by (intro exI[of _ ?n]) simp
  qed
qed

subsection \<open>A whole turn\<close>

lemma length_well_formed [simp]: "length (well_formed us) = length us"
  by (induction us rule: well_formed.induct) auto

lemma plan_within_cap: "plan_memory_op content op limit = (Some future, result) \<Longrightarrow> length future \<le> max limit (length content)"
  using capped_cases[of content _ limit] by (auto simp: plan_memory_op_def Let_def capped_def split: option.splits memory_op.splits if_splits)

lemma apply_within_cap:
  "length (read_memory (snd (apply_memory_op disk limit op file))) \<le> max limit (length (read_memory file))"
  using plan_within_cap[of "read_memory file" op limit]
  by (cases "plan_memory_op (read_memory file) op limit")
    (auto simp: apply_memory_op_def read_memory_def split: option.splits)

lemma parse_memory_op_names: "parse_memory_op name arguments = Inr op \<Longrightarrow> name \<in> {''memory_append'', ''memory_replace''}"
  by (auto simp: parse_memory_op_def Let_def split: if_splits)

text \<open>
  C27. Whatever a model asks for in a curation turn and whatever the disk does, the file ends within its cap or, where
  it was already over it, no longer than it was; and it is the file it was unless one of the calls is one of the two
  operations and parses, so no other tool a model names can reach it.
\<close>

theorem curation_stays_within_cap:
  "length (read_memory (snd (run_curation_calls limit calls held))) \<le> max limit (length (read_memory held)) \<and>
   (snd (run_curation_calls limit calls held) = held \<or>
    (\<exists>call io op. (call, io) \<in> set calls \<and> cc_name call \<in> {''memory_append'', ''memory_replace''} \<and>
       parse_memory_op (cc_name call) (cc_arguments call) = Inr op))"
proof (induction limit calls held rule: run_curation_calls.induct)
  case (2 limit call disk calls held)
  show ?case
  proof (cases "parse_memory_op (cc_name call) (cc_arguments call)")
    case (Inl reason)
    then show ?thesis using "2.IH"[of "(Some (MemoryFailed reason), held)" "Some (MemoryFailed reason)" held] 
      by (auto split: prod.splits)
  next
    case (Inr op)
    obtain result held' where a: "apply_memory_op disk limit op held = (result, held')" by (cases "apply_memory_op disk limit op held")
    have w: "length (read_memory held') \<le> max limit (length (read_memory held))" using apply_within_cap[of disk limit op held] a by simp
    have n: "cc_name call \<in> {''memory_append'', ''memory_replace''}" by (rule parse_memory_op_names[OF Inr])
    show ?thesis
    proof (cases result)
      case None
      then show ?thesis using Inr a w n by auto
    next
      case (Some r)
      have "length (read_memory (snd (run_curation_calls limit calls held'))) \<le> max limit (length (read_memory held'))"
        using "2.IH"[of "(Some r, held')" "Some r" held' r] Inr a Some by simp
      then have "length (read_memory (snd (run_curation_calls limit calls held'))) \<le> max limit (length (read_memory held))" using w by simp
      moreover have "snd (run_curation_calls limit ((call, disk) # calls) held) = snd (run_curation_calls limit calls held')"
        using Inr a Some by (simp split: prod.splits)
      ultimately show ?thesis using Inr n by auto
    qed
  qed
qed simp

text \<open>No tool traffic is left in what the curation model sees, and nothing a person said is lost.\<close>

lemma curation_transcript_plain:
  "m \<in> set (curation_transcript messages) \<Longrightarrow>
     (case m of UserMessage _ \<Rightarrow> True | AssistantMessage content calls state \<Rightarrow> content \<noteq> [] \<and> calls = [] \<and> state = None | ToolMessage _ _ _ \<Rightarrow> False)"
  by (auto simp: curation_transcript_def List.map_filter_def split: message.splits if_splits)

definition said_by_people :: "message list \<Rightarrow> js_text list" where
  "said_by_people messages = List.map_filter (\<lambda>m. case m of UserMessage us \<Rightarrow> Some us | _ \<Rightarrow> None) messages"

lemma curation_transcript_people: "said_by_people (curation_transcript messages) = said_by_people messages"
  by (induction messages) (auto simp: said_by_people_def curation_transcript_def List.map_filter_simps split: message.splits)

subsection \<open>A turn\<close>

text \<open>Occurrences that overlap count as one, and the first is replaced.\<close>

lemma overlapping_find:
  "plan_memory_op (js ''aaa'') (MemoryReplace (js ''aa'') (js ''b'')) 4096 = (Some (js ''ba''), MemoryWritten 2 4096)"
  by code_simp

theorem memory_replace_is_exact_witness:
  "most_places (js ''80'') (js ''port 80'') 1 \<and>
   plan_memory_op (js ''port 80'') (MemoryReplace (js ''80'') (js ''81'')) 4096 = (Some (js ''port 81''), MemoryWritten 7 4096)"
proof -
  have p: "precheck (MemoryReplace (js ''80'') (js ''81'')) = None" by (simp add: precheck_def memory_op_max_text_chars_def js_def)
  have plan: "plan_memory_op (js ''port 80'') (MemoryReplace (js ''80'') (js ''81'')) 4096 = (Some (js ''port 81''), MemoryWritten 7 4096)"
    by code_simp
  with memory_replace_is_exact[OF p, of "js ''port 80''" 4096] show ?thesis by auto
qed

end
