(* ===== verification/Rule_Clock.thy ===== *)
theory Rule_Clock
  imports Team_Sheet
begin

text \<open>
  When a standing rule next fires (\<open>apps/server/src/session/rule-clock.ts\<close>). An instant is its milliseconds since
  1970, a calendar date the number of its day, which is what \<open>Date.UTC\<close> makes of a year, a month and a day that may
  be out of range. A zone is the wall clock it shows at an instant, the runtime's and a parameter, but for UTC.
\<close>

subsection \<open>Wall clocks\<close>

definition day_length :: int where "day_length = 86400000"

record wall_clock =
  wall_day :: int
  wall_hour :: int
  wall_minute :: int
  wall_second :: int

type_synonym zone = "int \<Rightarrow> wall_clock"

definition utc_instant :: "int \<Rightarrow> int \<Rightarrow> int \<Rightarrow> int" where
  "utc_instant day hour minute = day * day_length + hour * 3600000 + minute * 60000"

definition utc_wall :: zone where
  "utc_wall i =
     \<lparr>wall_day = i div day_length, wall_hour = i mod day_length div 3600000, wall_minute = i mod 3600000 div 60000, wall_second = i mod 60000 div 1000\<rparr>"

definition offset_at :: "zone \<Rightarrow> int \<Rightarrow> int" where
  "offset_at zone i =
     (let wall = zone i in utc_instant (wall_day wall) (wall_hour wall) (wall_minute wall) + wall_second wall * 1000 - i)"

definition instant_of_wall_clock :: "zone \<Rightarrow> int \<Rightarrow> int \<Rightarrow> int \<Rightarrow> int option" where
  "instant_of_wall_clock zone day hour minute =
     (let as_if_utc = utc_instant day hour minute;
          once = as_if_utc - offset_at zone as_if_utc;
          i = as_if_utc - offset_at zone once;
          wall = zone i
      in if wall_day wall = day \<and> wall_hour wall = hour \<and> wall_minute wall = minute then Some i else None)"

subsection \<open>Rules\<close>

definition weekdays :: "rule_day list" where "weekdays = [Sun, Mon, Tue, Wed, Thu, Fri, Sat]"

text \<open>Day 0 was a Thursday.\<close>

definition weekday_of :: "int \<Rightarrow> rule_day" where
  "weekday_of day = weekdays ! nat ((day + 4) mod 7)"

text \<open>A rule's times are texts the schema holds to \<open>HH:MM\<close>.\<close>

definition two_digits :: "string \<Rightarrow> int" where
  "two_digits s = (of_char (s ! 0) - 48) * 10 + (of_char (s ! 1) - 48)"

definition clock_hour :: "string \<Rightarrow> int" where "clock_hour time = two_digits (take 2 time)"
definition clock_minute :: "string \<Rightarrow> int" where "clock_minute time = two_digits (take 2 (drop 3 time))"

definition default_zone :: string where "default_zone = ''UTC''"

definition sooner :: "int \<Rightarrow> int option \<Rightarrow> int option \<Rightarrow> int option" where
  "sooner after found earliest =
     (case found of
        None \<Rightarrow> earliest
      | Some i \<Rightarrow> if i \<le> after then earliest
          else (case earliest of None \<Rightarrow> Some i | Some j \<Rightarrow> if i < j then Some i else Some j))"

text \<open>The earliest of a day's times that is still ahead.\<close>

definition day_occurrence :: "zone \<Rightarrow> string list \<Rightarrow> int \<Rightarrow> int \<Rightarrow> int option" where
  "day_occurrence zone clocks after day =
     fold (\<lambda>time. sooner after (instant_of_wall_clock zone day (clock_hour time) (clock_minute time))) clocks None"

definition on_day :: "ambient_rule \<Rightarrow> int \<Rightarrow> bool" where
  "on_day rule day \<longleftrightarrow> (case rule_days rule of None \<Rightarrow> True | Some days \<Rightarrow> weekday_of day \<in> set days)"

fun rule_search :: "zone \<Rightarrow> ambient_rule \<Rightarrow> int \<Rightarrow> int list \<Rightarrow> int option" where
  "rule_search zone rule after [] = None"
| "rule_search zone rule after (day # days) =
     (if \<not> on_day rule day then rule_search zone rule after days
      else case day_occurrence zone (rule_at rule) after day of
          Some i \<Rightarrow> Some i
        | None \<Rightarrow> rule_search zone rule after days)"

definition next_rule_occurrence :: "(string \<Rightarrow> zone) \<Rightarrow> ambient_rule \<Rightarrow> int \<Rightarrow> int option" where
  "next_rule_occurrence zones rule after =
     (let zone = zones (case rule_timezone rule of Some z \<Rightarrow> z | None \<Rightarrow> default_zone);
          from = wall_day (zone after)
      in rule_search zone rule after (map (\<lambda>offset. from + offset) [0..7]))"

subsection \<open>What a rule names\<close>

definition reads :: "wall_clock \<Rightarrow> string \<Rightarrow> bool" where
  "reads wall time \<longleftrightarrow> wall_hour wall = clock_hour time \<and> wall_minute wall = clock_minute time"

lemma instant_of_wall_clock_reads:
  "instant_of_wall_clock zone day hour minute = Some i \<Longrightarrow>
     wall_day (zone i) = day \<and> wall_hour (zone i) = hour \<and> wall_minute (zone i) = minute"
  by (auto simp: instant_of_wall_clock_def Let_def split: if_splits)

text \<open>The fold keeps the least of the instants that are ahead.\<close>

definition ahead :: "zone \<Rightarrow> string list \<Rightarrow> int \<Rightarrow> int \<Rightarrow> int set" where
  "ahead zone clocks after day =
     {i. after < i \<and> (\<exists>time \<in> set clocks. instant_of_wall_clock zone day (clock_hour time) (clock_minute time) = Some i)}"

definition least_of :: "int set \<Rightarrow> int option \<Rightarrow> bool" where
  "least_of X m \<longleftrightarrow> (case m of None \<Rightarrow> X = {} | Some i \<Rightarrow> i \<in> X \<and> (\<forall>j \<in> X. i \<le> j))"

lemma least_of_sooner:
  "least_of X m \<Longrightarrow> least_of (X \<union> {i. after < i \<and> found = Some i}) (sooner after found m)"
  by (auto simp: least_of_def sooner_def split: option.splits)

lemma day_occurrence_least: "least_of (ahead zone clocks after day) (day_occurrence zone clocks after day)"
proof (induction clocks rule: rev_induct)
  case Nil
  show ?case by (simp add: least_of_def ahead_def day_occurrence_def)
next
  case (snoc time clocks)
  have "ahead zone (clocks @ [time]) after day =
      ahead zone clocks after day \<union> {i. after < i \<and> instant_of_wall_clock zone day (clock_hour time) (clock_minute time) = Some i}"
    by (auto simp: ahead_def)
  with least_of_sooner[OF snoc] show ?case by (simp add: day_occurrence_def)
qed

lemma rule_search_finds:
  "rule_search zone rule after days = Some i \<Longrightarrow>
     \<exists>before day rest. days = before @ day # rest \<and> on_day rule day \<and> day_occurrence zone (rule_at rule) after day = Some i \<and>
       (\<forall>d \<in> set before. \<not> on_day rule d \<or> day_occurrence zone (rule_at rule) after d = None)"
proof (induction days)
  case (Cons d days)
  show ?case
  proof (cases "on_day rule d \<and> day_occurrence zone (rule_at rule) after d \<noteq> None")
    case True
    then show ?thesis using Cons.prems by (intro exI[of _ "[]"] exI[of _ d] exI[of _ days]) (auto split: option.splits)
  next
    case False
    then have "rule_search zone rule after days = Some i" using Cons.prems by (auto split: if_splits option.splits)
    from Cons.IH[OF this] obtain before day rest where "days = before @ day # rest" "on_day rule day"
      "day_occurrence zone (rule_at rule) after day = Some i"
      "\<forall>d \<in> set before. \<not> on_day rule d \<or> day_occurrence zone (rule_at rule) after d = None" by blast
    with False show ?thesis by (intro exI[of _ "d # before"] exI[of _ day] exI[of _ rest]) auto
  qed
qed simp

lemma rule_search_None:
  "rule_search zone rule after days = None \<longleftrightarrow>
     (\<forall>d \<in> set days. \<not> on_day rule d \<or> day_occurrence zone (rule_at rule) after d = None)"
  by (induction days) (auto split: option.splits)

text \<open>
  A rule fires only when its zone's clock reads one of its times on one of its days, in every zone, whatever its
  clock does, and strictly after the instant asked about, so a firing is never found again.
\<close>

theorem rule_fires_when_it_says:
  assumes "next_rule_occurrence zones rule after = Some i"
  defines "wall \<equiv> zones (case rule_timezone rule of Some z \<Rightarrow> z | None \<Rightarrow> default_zone) i"
  shows "after < i \<and> (\<exists>time \<in> set (rule_at rule). reads wall time) \<and>
    (case rule_days rule of None \<Rightarrow> True | Some days \<Rightarrow> weekday_of (wall_day wall) \<in> set days)"
proof -
  let ?zone = "zones (case rule_timezone rule of Some z \<Rightarrow> z | None \<Rightarrow> default_zone)"
  from assms(1) obtain day where d: "on_day rule day" "day_occurrence ?zone (rule_at rule) after day = Some i"
    unfolding next_rule_occurrence_def Let_def by (blast dest: rule_search_finds)
  have "i \<in> ahead ?zone (rule_at rule) after day"
    using day_occurrence_least[of ?zone "rule_at rule" after day] d(2) by (simp add: least_of_def)
  with d(1) show ?thesis
    by (auto simp: ahead_def wall_def reads_def on_day_def dest!: instant_of_wall_clock_reads split: option.splits)
qed

subsection \<open>UTC\<close>

lemma digit_value: "is_digit c \<Longrightarrow> (of_char c :: int) \<in> {48..57}"
  by (auto simp: is_digit_def)

lemma clock_time_range:
  "clock_time_ok time \<Longrightarrow> 0 \<le> clock_hour time \<and> clock_hour time < 24 \<and> 0 \<le> clock_minute time \<and> clock_minute time < 60"
proof (cases time rule: clock_time_ok.cases)
  case (1 a b c d e)
  assume "clock_time_ok time"
  then have t: "a \<in> set ''01'' \<and> is_digit b \<or> a = CHR ''2'' \<and> b \<in> set ''0123''" "d \<in> set ''012345''" "is_digit e"
    using 1 by auto
  have h: "clock_hour time = (of_char a - 48) * 10 + (of_char b - 48)" and m: "clock_minute time = (of_char d - 48) * 10 + (of_char e - 48)"
    using 1 by (simp_all add: clock_hour_def clock_minute_def two_digits_def)
  have "(of_char d :: int) \<in> {48..53}" using t(2) by auto
  then have "0 \<le> clock_minute time \<and> clock_minute time < 60" using digit_value[OF t(3)] unfolding m by auto
  moreover have "0 \<le> clock_hour time \<and> clock_hour time < 24"
    using t(1)
  proof
    assume "a \<in> set ''01'' \<and> is_digit b"
    moreover from this have "(of_char a :: int) \<in> {48..49}" by auto
    ultimately show ?thesis using digit_value[of b] unfolding h by auto
  next
    assume "a = CHR ''2'' \<and> b \<in> set ''0123''"
    moreover from this have "(of_char b :: int) \<in> {48..51}" by auto
    ultimately show ?thesis unfolding h by auto
  qed
  ultimately show ?thesis by simp
qed auto

lemma utc_wall_of_instant:
  assumes "0 \<le> hour" "hour < 24" "0 \<le> minute" "minute < 60"
  shows "utc_wall (utc_instant day hour minute) = \<lparr>wall_day = day, wall_hour = hour, wall_minute = minute, wall_second = 0\<rparr>"
proof -
  let ?i = "utc_instant day hour minute"
  have r: "0 \<le> hour * 3600000 + minute * 60000" "hour * 3600000 + minute * 60000 < 86400000" using assms by simp_all
  have "?i div day_length = day" "?i mod day_length = hour * 3600000 + minute * 60000"
    using r by (auto simp: utc_instant_def day_length_def intro!: int_div_pos_eq int_mod_pos_eq)
  moreover have "(hour * 3600000 + minute * 60000) div 3600000 = hour" using assms by (intro int_div_pos_eq[where r = "minute * 60000"]) auto
  moreover have "?i mod 3600000 = minute * 60000"
    using assms by (intro int_mod_pos_eq[where q = "day * 24 + hour"]) (auto simp: utc_instant_def day_length_def)
  moreover have "?i = (day * 1440 + hour * 60 + minute) * 60000" by (simp add: utc_instant_def day_length_def)
  then have "?i mod 60000 = 0" by simp
  ultimately show ?thesis by (simp add: utc_wall_def)
qed

lemma instant_in_utc:
  assumes "clock_time_ok time"
  shows "instant_of_wall_clock utc_wall day (clock_hour time) (clock_minute time) = Some (utc_instant day (clock_hour time) (clock_minute time))"
  using clock_time_range[OF assms] by (simp add: instant_of_wall_clock_def Let_def offset_at_def utc_wall_of_instant)

definition utc_occurrences :: "ambient_rule \<Rightarrow> int set" where
  "utc_occurrences rule =
     {i. \<exists>day. \<exists>time \<in> set (rule_at rule). on_day rule day \<and> i = utc_instant day (clock_hour time) (clock_minute time)}"

lemma utc_instant_day:
  assumes "clock_time_ok time"
  shows "day * day_length \<le> utc_instant day (clock_hour time) (clock_minute time) \<and>
    utc_instant day (clock_hour time) (clock_minute time) < (day + 1) * day_length"
  using clock_time_range[OF assms] by (simp add: utc_instant_def day_length_def)

lemma day_of_bounds: "d * day_length \<le> x \<Longrightarrow> x < (e + 1) * day_length \<Longrightarrow> d \<le> e"
  by (simp add: day_length_def)

text \<open>Every weekday is among any seven days.\<close>

lemma weekday_comes:
  assumes "ds \<noteq> []"
  shows "\<exists>offset \<in> set [1..7]. weekday_of (from + offset) \<in> set ds"
proof -
  obtain w where w: "w \<in> set ds" using assms by (cases ds) auto
  have "w \<in> set weekdays" by (cases w) (simp_all add: weekdays_def)
  moreover have "length weekdays = 7" by (simp add: weekdays_def)
  ultimately obtain k where k: "k < 7" "weekdays ! k = w" unfolding in_set_conv_nth by auto
  define n where "n = int k"
  have n: "0 \<le> n" "n \<le> 6" "weekdays ! nat n = w" using k by (simp_all add: n_def)
  let ?o = "(n - (from + 5)) mod 7 + 1"
  have "(from + ?o + 4) mod 7 = (from + 5 + (n - (from + 5)) mod 7) mod 7" by (simp add: algebra_simps)
  also have "\<dots> = n mod 7" by (simp add: mod_add_right_eq)
  also have "\<dots> = n" using n(1,2) by simp
  finally have "(from + ?o + 4) mod 7 = n" .
  moreover have "0 \<le> (n - (from + 5)) mod 7" "(n - (from + 5)) mod 7 < 7" by simp_all
  then have "1 \<le> ?o" "?o \<le> 7" by linarith+
  ultimately show ?thesis using n(3) w by (intro bexI[of _ ?o]) (auto simp: weekday_of_def)
qed

text \<open>
  C28. A rule in UTC fires at every one of its occurrences and never between: the next instant the clock gives is the
  least of all the instants its days and times name that are still ahead, and there always is one.
\<close>

theorem utc_rule_is_next_occurrence:
  assumes "ambient_rule_ok zone_ok rule" "rule_timezone rule = None" "zones ''UTC'' = utc_wall"
  shows "\<exists>i. next_rule_occurrence zones rule after = Some i \<and> i \<in> utc_occurrences rule \<and> after < i \<and>
    (\<forall>j \<in> utc_occurrences rule. after < j \<longrightarrow> i \<le> j)"
proof -
  let ?from = "after div day_length" and ?at = "rule_at rule"
  let ?days = "map (\<lambda>offset. ?from + offset) [0..7]"
  have ok: "clock_time_ok time" if "time \<in> set ?at" for time using assms(1) that by (auto simp: ambient_rule_ok_def list_all_iff)
  have nr: "next_rule_occurrence zones rule after = rule_search utc_wall rule after ?days"
    using assms(2,3) by (simp add: next_rule_occurrence_def default_zone_def utc_wall_def)
  have ahead: "ahead utc_wall ?at after day = {i. after < i \<and> (\<exists>time \<in> set ?at. i = utc_instant day (clock_hour time) (clock_minute time))}" for day
    using instant_in_utc[OF ok] by (auto simp: ahead_def)
  have after: "?from * day_length \<le> after" "after < (?from + 1) * day_length" by (simp_all add: day_length_def)
  obtain time where time: "time \<in> set ?at" using assms(1) by (cases ?at) (auto simp: ambient_rule_ok_def)
  obtain offset where offset: "1 \<le> offset" "offset \<le> 7" "on_day rule (?from + offset)"
  proof (cases "rule_days rule")
    case None
    then show thesis using that[of 1] by (simp add: on_day_def)
  next
    case (Some ds)
    then have "ds \<noteq> []" using assms(1) by (auto simp: ambient_rule_ok_def)
    from weekday_comes[OF this, of ?from] Some that show thesis by (auto simp: on_day_def)
  qed
  have "(?from + offset) * day_length \<le> utc_instant (?from + offset) (clock_hour time) (clock_minute time)"
    using utc_instant_day[OF ok[OF time]] by blast
  moreover have "(?from + 1) * day_length \<le> (?from + offset) * day_length" using offset(1) by (simp add: day_length_def)
  ultimately have "utc_instant (?from + offset) (clock_hour time) (clock_minute time) \<in> ahead utc_wall ?at after (?from + offset)"
    using after(2) time unfolding ahead by auto
  then have "day_occurrence utc_wall ?at after (?from + offset) \<noteq> None"
    using day_occurrence_least[of utc_wall ?at after "?from + offset"]
    by (cases "day_occurrence utc_wall ?at after (?from + offset)") (auto simp: least_of_def)
  then have "rule_search utc_wall rule after ?days \<noteq> None"
    using offset unfolding rule_search_None by force
  then obtain i where i: "rule_search utc_wall rule after ?days = Some i" by auto
  from rule_search_finds[OF i] obtain before day rest where d: "?days = before @ day # rest" "on_day rule day"
    "day_occurrence utc_wall ?at after day = Some i"
    "\<forall>d \<in> set before. \<not> on_day rule d \<or> day_occurrence utc_wall ?at after d = None" by blast
  have mem: "i \<in> ahead utc_wall ?at after day" and least: "\<forall>j \<in> ahead utc_wall ?at after day. i \<le> j"
    using day_occurrence_least[of utc_wall ?at after day] d(3) by (simp_all add: least_of_def)
  have "i \<le> j" if j: "j \<in> utc_occurrences rule" "after < j" for j
  proof -
    from j(1) obtain dj tj where o: "tj \<in> set ?at" "on_day rule dj" "j = utc_instant dj (clock_hour tj) (clock_minute tj)"
      by (auto simp: utc_occurrences_def)
    then have aj: "j \<in> ahead utc_wall ?at after dj" using j(2) unfolding ahead by auto
    note bj = utc_instant_day[OF ok[OF o(1)], of dj, folded o(3)]
    have "?from \<le> dj" using day_of_bounds[of ?from after dj] after(1) bj j(2) by simp
    show ?thesis
    proof (cases "dj < day")
      case True
      have sorted: "sorted_wrt (<) ?days" by (simp add: sorted_wrt_map)
      have "day \<in> set ?days" using d(1) by simp
      then have "dj \<in> set ?days" using True \<open>?from \<le> dj\<close> by (auto simp: image_iff intro!: bexI[of _ "dj - ?from"])
      moreover have "dj \<notin> set (day # rest)" using sorted True unfolding d(1) by (auto simp: sorted_wrt_append)
      ultimately have "dj \<in> set before" unfolding d(1) by auto
      then have "day_occurrence utc_wall ?at after dj = None" using d(4) o(2) by blast
      then show ?thesis using day_occurrence_least[of utc_wall ?at after dj] aj by (simp add: least_of_def)
    next
      case False
      show ?thesis
      proof (cases "dj = day")
        case True
        then show ?thesis using least aj by blast
      next
        case ne: False
        from mem obtain ti where ti: "ti \<in> set ?at" "i = utc_instant day (clock_hour ti) (clock_minute ti)" unfolding ahead by auto
        have "i < (day + 1) * day_length" using utc_instant_day[OF ok[OF ti(1)], of day] ti(2) by simp
        also have "\<dots> \<le> dj * day_length" using False ne by (simp add: day_length_def)
        finally show ?thesis using bj by simp
      qed
    qed
  qed
  moreover have "i \<in> utc_occurrences rule" using mem d(2) unfolding ahead utc_occurrences_def by auto
  moreover have "after < i" using mem unfolding ahead by auto
  ultimately show ?thesis using i nr by auto
qed

subsection \<open>Rules at work\<close>

definition digest :: ambient_rule where
  "digest = \<lparr>rule_name = ''digest'', rule_at = [''09:00'', ''01:30''], rule_days = Some [Mon], rule_timezone = None, rule_question = js ''news?''\<rparr>"

text \<open>From the first Thursday: the Monday after, at half past one.\<close>

lemma digest_next: "next_rule_occurrence (\<lambda>_. utc_wall) digest 0 = Some (utc_instant 4 1 30)"
  by code_simp

theorem utc_rule_is_next_occurrence_witness:
  "next_rule_occurrence (\<lambda>_. utc_wall) digest 0 = Some (utc_instant 4 1 30) \<and> utc_instant 4 1 30 \<in> utc_occurrences digest"
proof -
  have "ambient_rule_ok (\<lambda>_. True) digest"
    by (simp add: digest_def ambient_rule_ok_def skill_name_ok_def word_char_def is_lower_def is_digit_def)
  from utc_rule_is_next_occurrence[OF this, of "\<lambda>_. utc_wall" 0] digest_next show ?thesis by (simp add: digest_def)
qed

theorem rule_fires_when_it_says_witness:
  "next_rule_occurrence (\<lambda>_. utc_wall) digest 0 = Some (utc_instant 4 1 30) \<and> weekday_of (wall_day (utc_wall (utc_instant 4 1 30))) = Mon"
  using rule_fires_when_it_says[OF digest_next] digest_next by (simp add: digest_def)

text \<open>
  A clock that springs forward by an hour in the first hours of that Monday has no half past one then, and a rule for
  Mondays at that time, asked any day of the week before, is told that it never fires again.
\<close>

definition springing :: zone where
  "springing i = utc_wall (if i < utc_instant 4 1 0 then i else i + 3600000)"

lemma gap_hides_the_week_after:
  "next_rule_occurrence (\<lambda>_. springing) (digest\<lparr>rule_at := [''01:30'']\<rparr>) 0 = None"
  by code_simp

end
