(* ===== verification/Ambient.thy ===== *)
theory Ambient
  imports Rule_Clock
begin

text \<open>
  What a channel does unasked: the scan that finds due heartbeats, checks and rules and says when to wake next
  (\<open>apps/server/src/session/ambient.ts\<close>), and a check from its ticket to its stamp (\<open>session/check.ts\<close> over the
  \<open>scheduled_task\<close> tables of \<open>packages/memory/src/store-db.ts\<close>). Scans do not overlap: the loop sleeps until one is done.
\<close>

subsection \<open>The scan\<close>

definition ambient_rescan_ms :: int where "ambient_rescan_ms = 60000"

record ambient_settings =
  as_enabled :: bool
  as_heartbeat :: bool
  as_every_ms :: int
  as_rules :: "ambient_rule list"

text \<open>A rule's key is the channel and the rule's name, which the code joins by a NUL that neither can hold.\<close>

type_synonym rule_key = "string \<times> string"

record clockwork =
  cl_schedule :: "(string, int) jsmap"
  cl_rules :: "(rule_key, int) jsmap"

text \<open>What a scan gathers from the channels before anything runs.\<close>

record scan_plan =
  pl_clock :: clockwork
  pl_due :: "string list"
  pl_checks :: "string list"
  pl_rules :: "(string \<times> ambient_rule \<times> int) list"
  pl_heartbeats :: "string list"
  pl_live :: "rule_key list"
  pl_task_due :: "(string, int) jsmap"

definition set_rule :: "rule_key \<Rightarrow> int option \<Rightarrow> scan_plan \<Rightarrow> scan_plan" where
  "set_rule key due p =
     p\<lparr>pl_clock := (pl_clock p)\<lparr>cl_rules :=
        (case due of None \<Rightarrow> js_delete key (cl_rules (pl_clock p)) | Some i \<Rightarrow> js_set key i (cl_rules (pl_clock p)))\<rparr>\<rparr>"

definition scan_rule :: "(string \<Rightarrow> zone) \<Rightarrow> int \<Rightarrow> string \<Rightarrow> ambient_rule \<Rightarrow> scan_plan \<Rightarrow> scan_plan" where
  "scan_rule zones now channel rule p =
     (let key = (channel, rule_name rule); p = p\<lparr>pl_live := key # pl_live p\<rparr>
      in case js_get (cl_rules (pl_clock p)) key of
          None \<Rightarrow>
            (case next_rule_occurrence zones rule now of
               None \<Rightarrow> p
             | Some first \<Rightarrow> set_rule key (Some first) p)
        | Some due_at \<Rightarrow>
            if now < due_at then p
            else
              let p = set_rule key (next_rule_occurrence zones rule now) p
              in p\<lparr>pl_rules := pl_rules p @ [(channel, rule, due_at)]\<rparr>)"

definition scan_heartbeat :: "int \<Rightarrow> string list \<Rightarrow> string \<Rightarrow> ambient_settings \<Rightarrow> scan_plan \<Rightarrow> scan_plan" where
  "scan_heartbeat now running channel settings p =
     (if \<not> as_heartbeat settings then p
      else
        let p = p\<lparr>pl_heartbeats := channel # pl_heartbeats p\<rparr>;
            again = (pl_clock p)\<lparr>cl_schedule := js_set channel (now + as_every_ms settings) (cl_schedule (pl_clock p))\<rparr>
        in case js_get (cl_schedule (pl_clock p)) channel of
            None \<Rightarrow> p\<lparr>pl_clock := again\<rparr>
          | Some due_at \<Rightarrow>
              if now < due_at then p
              else if channel \<in> set running then p\<lparr>pl_clock := again\<rparr>
              else p\<lparr>pl_clock := again, pl_due := pl_due p @ [channel]\<rparr>)"

definition scan_ticket :: "int \<Rightarrow> string list \<Rightarrow> string \<Rightarrow> int option \<Rightarrow> scan_plan \<Rightarrow> scan_plan" where
  "scan_ticket now running channel ticket p =
     (case ticket of
        None \<Rightarrow> p
      | Some due_at \<Rightarrow>
          p\<lparr>pl_task_due := js_set channel due_at (pl_task_due p),
            pl_checks := (if due_at \<le> now \<and> channel \<notin> set running then pl_checks p @ [channel] else pl_checks p)\<rparr>)"

text \<open>One channel, with its settings, none where they could not be read, and its earliest ticket.\<close>

definition scan_channel ::
    "(string \<Rightarrow> zone) \<Rightarrow> int \<Rightarrow> string list \<Rightarrow> string \<times> ambient_settings option \<times> int option \<Rightarrow> scan_plan \<Rightarrow> scan_plan" where
  "scan_channel zones now running c p =
     (let (channel, settings, ticket) = c
      in case settings of
          None \<Rightarrow>
            p\<lparr>pl_heartbeats := channel # pl_heartbeats p,
              pl_live := filter (\<lambda>key. fst key = channel) (map fst (cl_rules (pl_clock p))) @ pl_live p\<rparr>
        | Some s \<Rightarrow>
            if \<not> as_enabled s then p
            else scan_heartbeat now running channel s
              (fold (scan_rule zones now channel) (as_rules s) (scan_ticket now running channel ticket p)))"

definition scan_start :: "clockwork \<Rightarrow> scan_plan" where
  "scan_start clock =
     \<lparr>pl_clock = clock, pl_due = [], pl_checks = [], pl_rules = [], pl_heartbeats = [], pl_live = [], pl_task_due = []\<rparr>"

text \<open>Entries nothing in this scan stood for are dropped.\<close>

definition scan_prune :: "scan_plan \<Rightarrow> scan_plan" where
  "scan_prune p =
     p\<lparr>pl_clock := \<lparr>cl_schedule = filter (\<lambda>e. fst e \<in> set (pl_heartbeats p)) (cl_schedule (pl_clock p)),
                   cl_rules = filter (\<lambda>e. fst e \<in> set (pl_live p)) (cl_rules (pl_clock p))\<rparr>\<rparr>"

definition ambient_scan ::
    "(string \<Rightarrow> zone) \<Rightarrow> int \<Rightarrow> string list \<Rightarrow> (string \<times> ambient_settings option \<times> int option) list \<Rightarrow> clockwork \<Rightarrow> scan_plan" where
  "ambient_scan zones now running channels clock =
     scan_prune (fold (scan_channel zones now running) channels (scan_start clock))"

definition earliest_due :: "int list \<Rightarrow> int option" where
  "earliest_due dues =
     fold (\<lambda>d earliest. case earliest of None \<Rightarrow> Some d | Some e \<Rightarrow> if d < e then Some d else Some e) dues None"

definition next_due_at :: "int \<Rightarrow> scan_plan \<Rightarrow> int option" where
  "next_due_at now p =
     earliest_due (map snd (cl_schedule (pl_clock p)) @
       map (\<lambda>e. if snd e \<le> now then now + ambient_rescan_ms else snd e) (pl_task_due p) @
       map snd (cl_rules (pl_clock p)))"

text \<open>The loop's sleep, from a fresh reading of the clock.\<close>

definition sleep_ms :: "int \<Rightarrow> int \<Rightarrow> int option \<Rightarrow> int" where
  "sleep_ms now later next_due =
     (let horizon = now + ambient_rescan_ms; wake_at = (case next_due of None \<Rightarrow> horizon | Some d \<Rightarrow> min d horizon)
      in max 0 (wake_at - later))"

subsection \<open>A scan after a scan\<close>

record scan_input =
  si_now :: int
  si_running :: "string list"
  si_channels :: "(string \<times> ambient_settings option \<times> int option) list"

definition no_clock :: clockwork where "no_clock = \<lparr>cl_schedule = [], cl_rules = []\<rparr>"

text \<open>The clock after some scans, and the firings of each: channel, rule and the instant it was due.\<close>

fun scans :: "(string \<Rightarrow> zone) \<Rightarrow> scan_input list \<Rightarrow> clockwork \<Rightarrow> clockwork \<times> (string \<times> ambient_rule \<times> int) list" where
  "scans zones [] clock = (clock, [])"
| "scans zones (i # later) clock =
     (let p = ambient_scan zones (si_now i) (si_running i) (si_channels i) clock; (clock, fired) = scans zones later (pl_clock p)
      in (clock, pl_rules p @ fired))"

definition fired_at :: "rule_key \<Rightarrow> (string \<times> ambient_rule \<times> int) list \<Rightarrow> int list" where
  "fired_at key fired = List.map_filter (\<lambda>(channel, rule, due_at). if (channel, rule_name rule) = key then Some due_at else None) fired"

subsection \<open>Tickets\<close>

datatype check_outcome = CheckPosted | CheckSilent | CheckOverBudget | CheckFailed

record scheduled_task =
  sk_id :: string
  sk_task :: string
  sk_prompt :: string
  sk_due :: int
  sk_created :: int
  sk_fired :: "(int \<times> check_outcome) option"

record ticket_tables =
  tt_tasks :: "scheduled_task list"
  tt_cancelled :: "(scheduled_task \<times> int) list"

definition schedule_task :: "scheduled_task \<Rightarrow> ticket_tables \<Rightarrow> ticket_tables" where
  "schedule_task t tt =
     (if sk_id t \<in> sk_id ` set (tt_tasks tt) then tt else tt\<lparr>tt_tasks := tt_tasks tt @ [t\<lparr>sk_fired := None\<rparr>]\<rparr>)"

definition pending_tasks :: "ticket_tables \<Rightarrow> scheduled_task list" where
  "pending_tasks tt = filter (\<lambda>t. sk_fired t = None) (tt_tasks tt)"

definition next_scheduled_due :: "ticket_tables \<Rightarrow> int option" where
  "next_scheduled_due tt = (if pending_tasks tt = [] then None else Some (Min (sk_due ` set (pending_tasks tt))))"

definition due_scheduled_tasks :: "int \<Rightarrow> nat \<Rightarrow> ticket_tables \<Rightarrow> scheduled_task list" where
  "due_scheduled_tasks now bounded tt = take bounded (sort_key sk_due (filter (\<lambda>t. sk_due t \<le> now) (pending_tasks tt)))"

definition mark_fired :: "string \<Rightarrow> int \<Rightarrow> check_outcome \<Rightarrow> ticket_tables \<Rightarrow> ticket_tables" where
  "mark_fired i now out tt =
     tt\<lparr>tt_tasks := map (\<lambda>t. if sk_id t = i \<and> sk_fired t = None then t\<lparr>sk_fired := Some (now, out)\<rparr> else t) (tt_tasks tt)\<rparr>"

text \<open>None: the record of an earlier cancellation has the id, the insert throws and all is rolled back.\<close>

definition cancel_task :: "string \<Rightarrow> int \<Rightarrow> ticket_tables \<Rightarrow> bool option \<times> ticket_tables" where
  "cancel_task i now tt =
     (case find (\<lambda>t. sk_id t = i \<and> sk_fired t = None) (tt_tasks tt) of
        None \<Rightarrow> (Some False, tt)
      | Some t \<Rightarrow>
          if i \<in> (\<lambda>c. sk_id (fst c)) ` set (tt_cancelled tt) then (None, tt)
          else (Some True, tt\<lparr>tt_tasks := filter (\<lambda>t. \<not> (sk_id t = i \<and> sk_fired t = None)) (tt_tasks tt),
                             tt_cancelled := tt_cancelled tt @ [(t, now)]\<rparr>))"

text \<open>How a fired turn ends, and the outcome and what is said for it; an abort leaves the ticket.\<close>

datatype fired_turn = TurnOverBudget | TurnFailed | TurnSilent | TurnAborted | TurnAnswer js_text

definition check_outcome_of :: "fired_turn \<Rightarrow> check_outcome option" where
  "check_outcome_of turn =
     (case turn of
        TurnOverBudget \<Rightarrow> Some CheckOverBudget
      | TurnFailed \<Rightarrow> Some CheckFailed
      | TurnSilent \<Rightarrow> Some CheckSilent
      | TurnAborted \<Rightarrow> None
      | TurnAnswer us \<Rightarrow> Some CheckPosted)"

definition check_speaks :: "fired_turn \<Rightarrow> bool" where
  "check_speaks turn \<longleftrightarrow> (case turn of TurnSilent \<Rightarrow> False | TurnAborted \<Rightarrow> False | _ \<Rightarrow> True)"

text \<open>\<open>cs_running\<close>: the ticket whose turn is running, one at a time under the channel's mutex.\<close>

record check_state =
  cs_tables :: ticket_tables
  cs_running :: "scheduled_task option"
  cs_said :: "string list"

definition check_begins :: "int \<Rightarrow> check_state \<Rightarrow> check_state" where
  "check_begins now st =
     (case (cs_running st, due_scheduled_tasks now 1 (cs_tables st)) of
        (None, t # _) \<Rightarrow> st\<lparr>cs_running := Some t\<rparr>
      | _ \<Rightarrow> st)"

text \<open>The channel's settings are read before the turn, and where they are off nothing happens.\<close>

definition check_declined :: "check_state \<Rightarrow> check_state" where
  "check_declined st = st\<lparr>cs_running := None\<rparr>"

text \<open>\<open>stamped\<close>: the store took the stamp.\<close>

definition check_ends :: "fired_turn \<Rightarrow> int \<Rightarrow> bool \<Rightarrow> check_state \<Rightarrow> check_state" where
  "check_ends turn now stamped st =
     (case cs_running st of
        None \<Rightarrow> st
      | Some t \<Rightarrow>
          st\<lparr>cs_running := None,
             cs_said := (if check_speaks turn then cs_said st @ [sk_id t] else cs_said st),
             cs_tables := (case check_outcome_of turn of
                 Some out \<Rightarrow> if stamped then mark_fired (sk_id t) now out (cs_tables st) else cs_tables st
               | None \<Rightarrow> cs_tables st)\<rparr>)"

datatype check_event =
    CkScheduled scheduled_task
  | CkBegins int
  | CkDeclined
  | CkEnds fired_turn int bool
  | CkCancelled string int

primrec check_apply :: "check_event \<Rightarrow> check_state \<Rightarrow> check_state" where
  "check_apply (CkScheduled t) st = st\<lparr>cs_tables := schedule_task t (cs_tables st)\<rparr>"
| "check_apply (CkBegins now) st = check_begins now st"
| "check_apply CkDeclined st = check_declined st"
| "check_apply (CkEnds turn now stamped) st = check_ends turn now stamped st"
| "check_apply (CkCancelled i now) st = st\<lparr>cs_tables := snd (cancel_task i now (cs_tables st))\<rparr>"

definition checks_after :: "check_event list \<Rightarrow> check_state" where
  "checks_after es = fold check_apply es \<lparr>cs_tables = \<lparr>tt_tasks = [], tt_cancelled = []\<rparr>, cs_running = None, cs_said = []\<rparr>"

subsection \<open>Waking\<close>

lemma next_rule_later: "next_rule_occurrence zones rule now = Some i \<Longrightarrow> now < i"
proof -
  assume "next_rule_occurrence zones rule now = Some i"
  then obtain zone day where "day_occurrence zone (rule_at rule) now day = Some i"
    unfolding next_rule_occurrence_def Let_def by (blast dest: rule_search_finds)
  with day_occurrence_least[of zone "rule_at rule" now day] show ?thesis by (simp add: least_of_def ahead_def)
qed

text \<open>Every entry this scan stood for is ahead.\<close>

definition plan_ahead :: "int \<Rightarrow> scan_plan \<Rightarrow> bool" where
  "plan_ahead now p \<longleftrightarrow> js_map_wf (cl_schedule (pl_clock p)) \<and> js_map_wf (cl_rules (pl_clock p)) \<and>
     (\<forall>c \<in> set (pl_heartbeats p). \<forall>d. js_get (cl_schedule (pl_clock p)) c = Some d \<longrightarrow> now < d) \<and>
     (\<forall>k \<in> set (pl_live p). \<forall>d. js_get (cl_rules (pl_clock p)) k = Some d \<longrightarrow> now < d)"

lemma rules_set_rule:
  "js_get (cl_rules (pl_clock (set_rule key due p))) = (js_get (cl_rules (pl_clock p)))(key := due)"
  by (auto simp: set_rule_def delete_conv' split: option.splits)

lemma set_rule_frame [simp]:
  "cl_schedule (pl_clock (set_rule key due p)) = cl_schedule (pl_clock p)" "pl_heartbeats (set_rule key due p) = pl_heartbeats p"
  "pl_live (set_rule key due p) = pl_live p" "pl_rules (set_rule key due p) = pl_rules p" "pl_task_due (set_rule key due p) = pl_task_due p"
  by (simp_all add: set_rule_def)

lemma set_rule_wf: "js_map_wf (cl_rules (pl_clock p)) \<Longrightarrow> js_map_wf (cl_rules (pl_clock (set_rule key due p)))"
  by (auto simp: set_rule_def split: option.splits)

text \<open>What a scan does to one rule: its entry, if it has one, is ahead, and it has fired at most at the instant it held.\<close>

lemma scan_rule_cases:
  fixes p :: scan_plan and channel :: string and rule :: ambient_rule and zones :: "string \<Rightarrow> zone" and now :: int
  assumes "js_map_wf (cl_rules (pl_clock p))"
  defines "key \<equiv> (channel, rule_name rule)" and "p' \<equiv> scan_rule zones now channel rule p"
  shows "js_map_wf (cl_rules (pl_clock p')) \<and> cl_schedule (pl_clock p') = cl_schedule (pl_clock p) \<and>
    pl_heartbeats p' = pl_heartbeats p \<and> pl_task_due p' = pl_task_due p \<and> pl_live p' = key # pl_live p \<and>
    (\<exists>due. js_get (cl_rules (pl_clock p')) = (js_get (cl_rules (pl_clock p)))(key := due) \<and> (\<forall>d. due = Some d \<longrightarrow> now < d) \<and>
      (pl_rules p' = pl_rules p \<and> (js_get (cl_rules (pl_clock p)) key = None \<or> due = js_get (cl_rules (pl_clock p)) key) \<or>
       (\<exists>old. js_get (cl_rules (pl_clock p)) key = Some old \<and> old \<le> now \<and> pl_rules p' = pl_rules p @ [(channel, rule, old)])))"
proof (cases "js_get (cl_rules (pl_clock p)) key")
  case None
  show ?thesis
  proof (cases "next_rule_occurrence zones rule now")
    case no: None
    then show ?thesis using None assms(1) by (auto simp: p'_def scan_rule_def key_def Let_def fun_eq_iff)
  next
    case (Some first)
    have p': "p' = set_rule key (Some first) (p\<lparr>pl_live := key # pl_live p\<rparr>)"
      using None Some by (simp add: p'_def scan_rule_def key_def Let_def)
    have wf: "js_map_wf (cl_rules (pl_clock (set_rule key (Some first) (p\<lparr>pl_live := key # pl_live p\<rparr>))))"
      using assms(1) by (intro set_rule_wf) simp
    show ?thesis using None next_rule_later[OF Some] wf unfolding p'
      by (intro conjI exI[of _ "Some first"]) (auto simp: rules_set_rule)
  qed
next
  case (Some old)
  show ?thesis
  proof (cases "now < old")
    case True
    then show ?thesis using Some assms(1) by (intro conjI exI[of _ "Some old"]) (auto simp: p'_def scan_rule_def key_def Let_def fun_eq_iff)
  next
    case False
    let ?n = "next_rule_occurrence zones rule now"
    have p': "p' = (set_rule key ?n (p\<lparr>pl_live := key # pl_live p\<rparr>))\<lparr>pl_rules := pl_rules p @ [(channel, rule, old)]\<rparr>"
      using Some False by (simp add: p'_def scan_rule_def key_def Let_def)
    have wf: "js_map_wf (cl_rules (pl_clock (set_rule key ?n (p\<lparr>pl_live := key # pl_live p\<rparr>))))"
      using assms(1) by (intro set_rule_wf) simp
    show ?thesis using Some False next_rule_later wf unfolding p'
      by (intro conjI exI[of _ ?n]) (auto simp: rules_set_rule)
  qed
qed

lemma plan_ahead_rule: "plan_ahead now p \<Longrightarrow> plan_ahead now (scan_rule zones now channel rule p)"
  using scan_rule_cases[of p zones now channel rule] unfolding plan_ahead_def by (auto split: if_splits)

lemma plan_ahead_rules: "plan_ahead now p \<Longrightarrow> plan_ahead now (fold (scan_rule zones now channel) rules p)"
  by (induction rules arbitrary: p) (auto simp: plan_ahead_rule)

lemma plan_ahead_ticket: "plan_ahead now p \<Longrightarrow> plan_ahead now (scan_ticket now running channel ticket p)"
  by (auto simp: plan_ahead_def scan_ticket_def split: option.splits)

lemma plan_ahead_heartbeat: "0 < as_every_ms s \<Longrightarrow> plan_ahead now p \<Longrightarrow> plan_ahead now (scan_heartbeat now running channel s p)"
  by (auto simp: plan_ahead_def scan_heartbeat_def Let_def split: option.splits if_splits)

lemma plan_ahead_channel:
  "(\<exists>s. settings = Some s \<and> 0 < as_every_ms s) \<Longrightarrow> plan_ahead now p \<Longrightarrow> plan_ahead now (scan_channel zones now running (channel, settings, ticket) p)"
  by (auto simp: scan_channel_def plan_ahead_rules plan_ahead_ticket plan_ahead_heartbeat)

lemma scan_ticket_frame [simp]: "pl_clock (scan_ticket now running channel ticket p) = pl_clock p"
  "pl_rules (scan_ticket now running channel ticket p) = pl_rules p"
  by (simp_all add: scan_ticket_def split: option.splits)

lemma scan_heartbeat_frame [simp]: "cl_rules (pl_clock (scan_heartbeat now running channel s p)) = cl_rules (pl_clock p)"
  "pl_rules (scan_heartbeat now running channel s p) = pl_rules p"
  by (simp_all add: scan_heartbeat_def Let_def split: option.splits)

definition clock_wf :: "clockwork \<Rightarrow> bool" where
  "clock_wf c \<longleftrightarrow> js_map_wf (cl_schedule c) \<and> js_map_wf (cl_rules c)"

lemma clock_wf_rules: "clock_wf (pl_clock p) \<Longrightarrow> clock_wf (pl_clock (fold (scan_rule zones now channel) rules p))"
  using scan_rule_cases[of _ zones now channel] by (induction rules arbitrary: p) (auto simp: clock_wf_def)

lemma clock_wf_channel: "clock_wf (pl_clock p) \<Longrightarrow> clock_wf (pl_clock (scan_channel zones now running c p))"
proof -
  have "clock_wf (pl_clock (scan_heartbeat now running channel s p))" if "clock_wf (pl_clock p)" for channel s p
    using that by (auto simp: clock_wf_def scan_heartbeat_def Let_def split: option.splits)
  then show "clock_wf (pl_clock p) \<Longrightarrow> ?thesis"
    by (cases c) (auto simp: scan_channel_def clock_wf_rules split: option.splits)
qed

lemma clock_wf_scan: "clock_wf clock \<Longrightarrow> clock_wf (pl_clock (ambient_scan zones now running channels clock))"
proof -
  have "clock_wf (pl_clock (fold (scan_channel zones now running) channels p))" if "clock_wf (pl_clock p)" for p
    using that by (induction channels arbitrary: p) (auto simp: clock_wf_channel)
  then show "clock_wf clock \<Longrightarrow> ?thesis"
    by (auto simp: ambient_scan_def scan_prune_def scan_start_def clock_wf_def)
qed

lemma clock_wf_scans: "clock_wf clock \<Longrightarrow> clock_wf (fst (scans zones inputs clock))"
proof (induction inputs arbitrary: clock)
  case (Cons i inputs)
  from Cons.IH[OF clock_wf_scan[OF Cons.prems]] show ?case by (simp add: Let_def case_prod_beta)
qed simp

lemma earliest_due_among: "earliest_due dues = Some d \<Longrightarrow> d \<in> set dues"
  by (induction dues arbitrary: d rule: rev_induct) (auto simp: earliest_due_def split: option.splits if_splits)

text \<open>
  C30. The loop never asks to be woken at an instant that has passed: after any scans, a scan in which every channel's
  settings could be read leaves nothing that is due, whatever the zones' clocks do and whatever is still pending.
\<close>

theorem scan_wakes_later:
  assumes "\<forall>(channel, settings, ticket) \<in> set channels. \<exists>s. settings = Some s \<and> 0 < as_every_ms s"
    "next_due_at now (ambient_scan zones now running channels (fst (scans zones inputs no_clock))) = Some d"
  shows "now < d"
proof -
  let ?clock = "fst (scans zones inputs no_clock)" and ?p = "fold (scan_channel zones now running) channels (scan_start (fst (scans zones inputs no_clock)))"
  have "clock_wf ?clock" by (rule clock_wf_scans) (simp add: clock_wf_def no_clock_def js_map_wf_def)
  then have "plan_ahead now (scan_start ?clock)" by (simp add: plan_ahead_def scan_start_def clock_wf_def)
  moreover have "plan_ahead now (fold (scan_channel zones now running) cs p)"
    if "plan_ahead now p" "\<forall>(channel, settings, ticket) \<in> set cs. \<exists>s. settings = Some s \<and> 0 < as_every_ms s" for cs p
    using that by (induction cs arbitrary: p) (auto simp: plan_ahead_channel)
  ultimately have a: "plan_ahead now ?p" using assms(1) by blast
  have s: "now < x" if "(c, x) \<in> set (cl_schedule (pl_clock ?p))" "c \<in> set (pl_heartbeats ?p)" for c x
    using that a js_get_in_set unfolding plan_ahead_def by metis
  have r: "now < x" if "(k, x) \<in> set (cl_rules (pl_clock ?p))" "k \<in> set (pl_live ?p)" for k x
    using that a js_get_in_set unfolding plan_ahead_def by metis
  from earliest_due_among[OF assms(2)[unfolded next_due_at_def]] show ?thesis
    using s r by (auto simp: ambient_scan_def scan_prune_def ambient_rescan_ms_def split: if_splits)
qed

subsection \<open>Firing\<close>

lemma fired_at_append: "fired_at key (xs @ ys) = fired_at key xs @ fired_at key ys"
  by (simp add: fired_at_def List.map_filter_def)

lemma fired_at_one: "fired_at key [(channel, rule, due_at)] = (if (channel, rule_name rule) = key then [due_at] else [])"
  by (simp add: fired_at_def List.map_filter_def)

text \<open>What a key has fired, against the entry it has: later and later, none in the future, and all before its entry.\<close>

definition fired_before :: "int \<Rightarrow> rule_key \<Rightarrow> (string \<times> ambient_rule \<times> int) list \<Rightarrow> (rule_key, int) jsmap \<Rightarrow> bool" where
  "fired_before now key fired rules \<longleftrightarrow> sorted_wrt (<) (fired_at key fired) \<and>
     (\<forall>d \<in> set (fired_at key fired). d \<le> now \<and> (\<forall>v. js_get rules key = Some v \<longrightarrow> d < v))"

lemma fired_before_rule:
  assumes "js_map_wf (cl_rules (pl_clock p))" "fired_before now key (before @ pl_rules p) (cl_rules (pl_clock p))"
  shows "fired_before now key (before @ pl_rules (scan_rule zones now channel rule p)) (cl_rules (pl_clock (scan_rule zones now channel rule p)))"
proof -
  let ?p = "scan_rule zones now channel rule p" and ?k = "(channel, rule_name rule)"
  from scan_rule_cases[OF assms(1), of zones now channel rule] obtain due where
    m: "js_get (cl_rules (pl_clock ?p)) = (js_get (cl_rules (pl_clock p)))(?k := due)" "\<forall>d. due = Some d \<longrightarrow> now < d"
    and c: "pl_rules ?p = pl_rules p \<and> (js_get (cl_rules (pl_clock p)) ?k = None \<or> due = js_get (cl_rules (pl_clock p)) ?k) \<or>
       (\<exists>old. js_get (cl_rules (pl_clock p)) ?k = Some old \<and> old \<le> now \<and> pl_rules ?p = pl_rules p @ [(channel, rule, old)])" by blast
  show ?thesis
  proof (cases "key = ?k")
    case False
    then have "fired_at key (before @ pl_rules ?p) = fired_at key (before @ pl_rules p)" using c by (auto simp: fired_at_append fired_at_one)
    then show ?thesis using assms(2) m(1) False by (simp add: fired_before_def)
  next
    case True
    have same: ?thesis if "pl_rules ?p = pl_rules p" using that assms(2) m True by (force simp: fired_before_def)
    show ?thesis
    proof (cases "pl_rules ?p = pl_rules p")
      case False
      then obtain old where
        o: "js_get (cl_rules (pl_clock p)) ?k = Some old" "old \<le> now" "pl_rules ?p = pl_rules p @ [(channel, rule, old)]" using c by blast
      then have f: "fired_at key (before @ pl_rules ?p) = fired_at key (before @ pl_rules p) @ [old]"
        using True by (simp add: fired_at_append fired_at_one)
      have prev: "\<forall>d \<in> set (fired_at key (before @ pl_rules p)). d < old \<and> d \<le> now" using assms(2) o(1) True by (auto simp: fired_before_def)
      then have "sorted_wrt (<) (fired_at key (before @ pl_rules ?p))" using assms(2) unfolding f by (simp add: fired_before_def sorted_wrt_append)
      moreover have "\<forall>d \<in> set (fired_at key (before @ pl_rules ?p)). d \<le> now \<and> (\<forall>v. js_get (cl_rules (pl_clock ?p)) key = Some v \<longrightarrow> d < v)"
        using prev o(2) m True unfolding f by auto
      ultimately show ?thesis unfolding fired_before_def by blast
    qed (rule same)
  qed
qed

lemma fired_before_rules:
  assumes "clock_wf (pl_clock p)" "fired_before now key (before @ pl_rules p) (cl_rules (pl_clock p))"
  shows "fired_before now key (before @ pl_rules (fold (scan_rule zones now channel) rules p))
    (cl_rules (pl_clock (fold (scan_rule zones now channel) rules p)))"
  using assms
proof (induction rules arbitrary: p)
  case (Cons rule rules)
  have "js_map_wf (cl_rules (pl_clock p))" using Cons.prems(1) by (simp add: clock_wf_def)
  from fired_before_rule[OF this Cons.prems(2)] clock_wf_rules[OF Cons.prems(1), of zones now channel "[rule]"] Cons.IH
  show ?case by simp
qed simp

lemma fired_before_channel:
  assumes "clock_wf (pl_clock p)" "fired_before now key (before @ pl_rules p) (cl_rules (pl_clock p))"
  shows "fired_before now key (before @ pl_rules (scan_channel zones now running c p)) (cl_rules (pl_clock (scan_channel zones now running c p)))"
proof -
  obtain channel settings ticket where c: "c = (channel, settings, ticket)" by (cases c)
  have "fired_before now key (before @ pl_rules (fold (scan_rule zones now channel) rules (scan_ticket now running channel ticket p)))
      (cl_rules (pl_clock (fold (scan_rule zones now channel) rules (scan_ticket now running channel ticket p))))" for rules
    using fired_before_rules[of "scan_ticket now running channel ticket p"] assms by simp
  with assms(2) show ?thesis unfolding c by (cases settings) (auto simp: scan_channel_def)
qed

lemma fired_before_scan:
  fixes zones :: "string \<Rightarrow> zone" and running :: "string list" and now :: int and clock :: clockwork
    and channels :: "(string \<times> ambient_settings option \<times> int option) list" and before :: "(string \<times> ambient_rule \<times> int) list"
  assumes "clock_wf clock" "fired_before t key before (cl_rules clock)" "t \<le> now"
  defines "p \<equiv> ambient_scan zones now running channels clock"
  shows "fired_before now key (before @ pl_rules p) (cl_rules (pl_clock p))"
proof -
  have "clock_wf (pl_clock (fold (scan_channel zones now running) cs q)) \<and>
      fired_before now key (before @ pl_rules (fold (scan_channel zones now running) cs q)) (cl_rules (pl_clock (fold (scan_channel zones now running) cs q)))"
    if "clock_wf (pl_clock q)" "fired_before now key (before @ pl_rules q) (cl_rules (pl_clock q))" for cs q
    using that by (induction cs arbitrary: q) (auto simp: clock_wf_channel fired_before_channel)
  moreover have "fired_before now key (before @ pl_rules (scan_start clock)) (cl_rules (pl_clock (scan_start clock)))"
    using assms(2,3) by (force simp: fired_before_def scan_start_def)
  ultimately have f: "clock_wf (pl_clock (fold (scan_channel zones now running) channels (scan_start clock)))"
    "fired_before now key (before @ pl_rules (fold (scan_channel zones now running) channels (scan_start clock)))
      (cl_rules (pl_clock (fold (scan_channel zones now running) channels (scan_start clock))))"
    using assms(1) by (simp_all add: scan_start_def)
  then show ?thesis unfolding p_def ambient_scan_def
    by (auto simp: fired_before_def scan_prune_def clock_wf_def dest!: js_get_filterD)
qed

text \<open>
  C29. No occurrence of a rule fires twice: over any scans whose clock does not go back, whatever the sheets and the
  zones do in between, a channel's rule fires at later and later instants, each of which had come.
\<close>

theorem rule_occurrence_fires_once:
  assumes "sorted (map si_now inputs)"
  shows "sorted_wrt (<) (fired_at key (snd (scans zones inputs no_clock)))"
proof -
  have "sorted_wrt (<) (fired_at key (before @ snd (scans zones inputs clock)))"
    if "clock_wf clock" "fired_before t key before (cl_rules clock)" "\<forall>i \<in> set inputs. t \<le> si_now i" "sorted (map si_now inputs)"
    for t before clock inputs
    using that
  proof (induction inputs arbitrary: t before clock)
    case Nil
    then show ?case by (simp add: fired_before_def)
  next
    case (Cons i inputs)
    let ?p = "ambient_scan zones (si_now i) (si_running i) (si_channels i) clock"
    have "fired_before (si_now i) key (before @ pl_rules ?p) (cl_rules (pl_clock ?p))"
      using Cons.prems by (intro fired_before_scan) auto
    from Cons.IH[OF clock_wf_scan[OF Cons.prems(1)] this] Cons.prems(4) show ?case by (simp add: Let_def case_prod_beta)
  qed
  from this[of no_clock "Min (insert 0 (si_now ` set inputs))" "[]" inputs] assms show ?thesis
    by (simp add: clock_wf_def no_clock_def js_map_wf_def fired_before_def fired_at_def List.map_filter_def)
qed

subsection \<open>Settling\<close>

primrec scheduled_ids :: "check_event \<Rightarrow> string list" where
  "scheduled_ids (CkScheduled t) = [sk_id t]"
| "scheduled_ids (CkBegins now) = []"
| "scheduled_ids CkDeclined = []"
| "scheduled_ids (CkEnds turn now stamped) = []"
| "scheduled_ids (CkCancelled i now) = []"

primrec unstamped :: "check_event \<Rightarrow> bool" where
  "unstamped (CkScheduled t) = False"
| "unstamped (CkBegins now) = False"
| "unstamped CkDeclined = False"
| "unstamped (CkEnds turn now stamped) = (\<not> stamped)"
| "unstamped (CkCancelled i now) = False"

definition cancelled_ids :: "ticket_tables \<Rightarrow> string set" where
  "cancelled_ids tt = (\<lambda>c. sk_id (fst c)) ` set (tt_cancelled tt)"

definition tickets_ok :: "string set \<Rightarrow> nat \<Rightarrow> check_state \<Rightarrow> bool" where
  "tickets_ok ids failed st \<longleftrightarrow> distinct (map sk_id (tt_tasks (cs_tables st))) \<and>
     sk_id ` set (tt_tasks (cs_tables st)) \<subseteq> ids \<and> cancelled_ids (cs_tables st) \<subseteq> ids \<and>
     sk_id ` set (tt_tasks (cs_tables st)) \<inter> cancelled_ids (cs_tables st) = {} \<and>
     (\<forall>i. count_list (cs_said st) i \<le> Suc failed) \<and> (\<forall>i. i \<notin> ids \<longrightarrow> count_list (cs_said st) i = 0) \<and>
     (\<forall>t \<in> set (tt_tasks (cs_tables st)). sk_fired t = None \<longrightarrow> count_list (cs_said st) (sk_id t) \<le> failed) \<and>
     (\<forall>t. cs_running st = Some t \<longrightarrow> sk_id t \<in> ids \<and> count_list (cs_said st) (sk_id t) \<le> failed)"

lemma mark_fired_ids: "map sk_id (tt_tasks (mark_fired i now out tt)) = map sk_id (tt_tasks tt)" "tt_cancelled (mark_fired i now out tt) = tt_cancelled tt"
  by (auto simp: mark_fired_def)

lemma mark_fired_pending: "t \<in> set (tt_tasks (mark_fired i now out tt)) \<Longrightarrow> sk_fired t = None \<Longrightarrow> t \<in> set (tt_tasks tt) \<and> sk_id t \<noteq> i"
  by (auto simp: mark_fired_def split: if_splits)

lemma due_task_pending: "due_scheduled_tasks now n tt = t # ts \<Longrightarrow> t \<in> set (tt_tasks tt) \<and> sk_fired t = None"
proof -
  assume "due_scheduled_tasks now n tt = t # ts"
  then have "t \<in> set (due_scheduled_tasks now n tt)" by simp
  then show ?thesis by (auto simp: due_scheduled_tasks_def pending_tasks_def dest: in_set_takeD)
qed

lemma count_list_snoc: "count_list (xs @ [x]) y = count_list xs y + (if x = y then 1 else 0)"
  by (induction xs) auto

lemma tickets_ok_ends:
  assumes "tickets_ok ids failed st"
  shows "tickets_ok ids (failed + (if stamped then 0 else 1)) (check_ends turn now stamped st)"
proof (cases "cs_running st")
  case None
  then show ?thesis using assms by (auto simp: check_ends_def tickets_ok_def le_SucI)
next
  case (Some t)
  let ?st = "check_ends turn now stamped st" and ?n = "failed + (if stamped then 0 else 1)"
  have said: "count_list (cs_said ?st) i \<le> count_list (cs_said st) i + (if i = sk_id t \<and> check_speaks turn then 1 else 0)" for i
    using Some by (auto simp: check_ends_def count_list_snoc)
  have run: "sk_id t \<in> ids" "count_list (cs_said st) (sk_id t) \<le> failed" using assms Some by (auto simp: tickets_ok_def)
  have bound: "count_list (cs_said ?st) i \<le> Suc ?n" for i
    using said[of i] run(2) assms by (cases "i = sk_id t") (auto simp: tickets_ok_def le_SucI dest: spec[of _ i] split: if_splits)
  have pend: "count_list (cs_said ?st) (sk_id u) \<le> ?n" if "u \<in> set (tt_tasks (cs_tables ?st))" "sk_fired u = None" for u
  proof (cases stamped)
    case False
    have u: "u \<in> set (tt_tasks (cs_tables st))" using that(1) Some False by (auto simp: check_ends_def split: option.splits)
    then have "count_list (cs_said st) (sk_id u) \<le> failed" using assms that(2) by (simp add: tickets_ok_def)
    then show ?thesis using said[of "sk_id u"] False by (auto split: if_splits)
  next
    case True
    show ?thesis
    proof (cases "check_outcome_of turn")
      case None
      then have "\<not> check_speaks turn" by (auto simp: check_outcome_of_def check_speaks_def split: fired_turn.splits)
      then show ?thesis using that said[of "sk_id u"] None Some assms True by (auto simp: check_ends_def tickets_ok_def)
    next
      case out: (Some out)
      then have "u \<in> set (tt_tasks (mark_fired (sk_id t) now out (cs_tables st)))" using that(1) Some True by (simp add: check_ends_def)
      from mark_fired_pending[OF this that(2)] have "u \<in> set (tt_tasks (cs_tables st))" "sk_id u \<noteq> sk_id t" by auto
      then show ?thesis using said[of "sk_id u"] that(2) assms True by (force simp: tickets_ok_def)
    qed
  qed
  have ids: "map sk_id (tt_tasks (cs_tables ?st)) = map sk_id (tt_tasks (cs_tables st))" "cancelled_ids (cs_tables ?st) = cancelled_ids (cs_tables st)"
    using Some by (auto simp: check_ends_def mark_fired_ids cancelled_ids_def split: option.splits)
  have "sk_id ` set (tt_tasks (cs_tables ?st)) = sk_id ` set (tt_tasks (cs_tables st))" using arg_cong[OF ids(1), of set] by simp
  moreover have "count_list (cs_said ?st) i = 0" if "i \<notin> ids" for i
    using said[of i] that run(1) assms by (auto simp: tickets_ok_def split: if_splits)
  moreover have "cs_running ?st = None" using Some by (simp add: check_ends_def)
  ultimately show ?thesis using assms bound pend unfolding tickets_ok_def ids by simp
qed

lemma tickets_ok_begins:
  assumes "tickets_ok ids failed st"
  shows "tickets_ok ids failed (check_begins now st)"
proof (cases "check_begins now st = st")
  case False
  then obtain t ts where t: "due_scheduled_tasks now 1 (cs_tables st) = t # ts" "check_begins now st = st\<lparr>cs_running := Some t\<rparr>"
    by (auto simp: check_begins_def split: option.splits list.splits)
  from due_task_pending[OF t(1)] have "t \<in> set (tt_tasks (cs_tables st))" "sk_fired t = None" by simp_all
  then have "sk_id t \<in> ids" "count_list (cs_said st) (sk_id t) \<le> failed" using assms by (auto simp: tickets_ok_def)
  then show ?thesis using assms unfolding t(2) by (simp add: tickets_ok_def)
qed (simp add: assms)

lemma tickets_ok_schedule:
  assumes "tickets_ok ids failed st" "sk_id t \<notin> ids"
  shows "tickets_ok (insert (sk_id t) ids) failed (st\<lparr>cs_tables := schedule_task t (cs_tables st)\<rparr>)"
proof -
  have "schedule_task t (cs_tables st) = (cs_tables st)\<lparr>tt_tasks := tt_tasks (cs_tables st) @ [t\<lparr>sk_fired := None\<rparr>]\<rparr>"
    using assms by (auto simp: schedule_task_def tickets_ok_def)
  then show ?thesis using assms by (auto simp: tickets_ok_def cancelled_ids_def)
qed

lemma tickets_ok_cancel:
  assumes "tickets_ok ids failed st"
  shows "tickets_ok ids failed (st\<lparr>cs_tables := snd (cancel_task i now (cs_tables st))\<rparr>)"
proof (cases "find (\<lambda>t. sk_id t = i \<and> sk_fired t = None) (tt_tasks (cs_tables st))")
  case None
  then show ?thesis using assms by (simp add: cancel_task_def)
next
  case (Some t)
  then have t: "t \<in> set (tt_tasks (cs_tables st))" "sk_id t = i" "sk_fired t = None" by (auto dest: find_Some_in)
  let ?rows = "tt_tasks (cs_tables st)" and ?left = "filter (\<lambda>t. \<not> (sk_id t = i \<and> sk_fired t = None)) (tt_tasks (cs_tables st))"
  show ?thesis
  proof (cases "i \<in> cancelled_ids (cs_tables st)")
    case True
    then show ?thesis using assms Some unfolding cancelled_ids_def by (simp add: cancel_task_def)
  next
    case False
    then have c: "snd (cancel_task i now (cs_tables st)) = (cs_tables st)\<lparr>tt_tasks := ?left, tt_cancelled := tt_cancelled (cs_tables st) @ [(t, now)]\<rparr>"
      using Some unfolding cancelled_ids_def by (simp add: cancel_task_def)
    have d: "distinct (map sk_id ?rows)" using assms by (simp add: tickets_ok_def)
    have one: "u = t" if "u \<in> set ?rows" "sk_id u = i" for u
      using d that t(1,2) unfolding distinct_map inj_on_def by simp
    then have "i \<notin> sk_id ` set ?left" using t(2,3) by auto
    moreover have "sk_id ` set ?left \<subseteq> sk_id ` set ?rows" by auto
    moreover have "i \<in> ids" using assms t(1,2) by (auto simp: tickets_ok_def)
    ultimately show ?thesis using assms distinct_map_filter[OF d, of "\<lambda>t. \<not> (sk_id t = i \<and> sk_fired t = None)"] t(2) unfolding c
      by (auto simp: tickets_ok_def cancelled_ids_def)
  qed
qed

text \<open>
  C31. A scheduled check settles once: where the proxy's ids are distinct, the channel is told of a check at most once
  more than there were stamps the store would not take, and a check that has a row, fired or waiting, has no record of
  a cancellation, in every order of scheduling, firing and cancelling.
\<close>

theorem check_settles_once:
  assumes "distinct (concat (map scheduled_ids es))"
  shows "count_list (cs_said (checks_after es)) i \<le> Suc (length (filter unstamped es)) \<and>
    (i \<in> sk_id ` set (tt_tasks (cs_tables (checks_after es))) \<longrightarrow> i \<notin> cancelled_ids (cs_tables (checks_after es)))"
proof -
  have "tickets_ok (set (concat (map scheduled_ids es))) (length (filter unstamped es)) (checks_after es)"
    using assms
  proof (induction es rule: rev_induct)
    case Nil
    show ?case by (simp add: checks_after_def tickets_ok_def cancelled_ids_def)
  next
    case (snoc e es)
    then have ok: "tickets_ok (set (concat (map scheduled_ids es))) (length (filter unstamped es)) (checks_after es)" by simp
    have step: "checks_after (es @ [e]) = check_apply e (checks_after es)" by (simp add: checks_after_def)
    show ?case
    proof (cases e)
      case (CkScheduled t)
      with snoc.prems have "sk_id t \<notin> set (concat (map scheduled_ids es))" by auto
      from tickets_ok_schedule[OF ok this] CkScheduled show ?thesis unfolding step by simp
    next
      case (CkBegins now)
      then show ?thesis using tickets_ok_begins[OF ok, of now] unfolding step by simp
    next
      case CkDeclined
      then show ?thesis using ok unfolding step by (simp add: check_declined_def tickets_ok_def)
    next
      case (CkEnds turn now stamped)
      then show ?thesis using tickets_ok_ends[OF ok, of stamped turn now] unfolding step by (cases stamped) simp_all
    next
      case (CkCancelled i now)
      then show ?thesis using tickets_ok_cancel[OF ok, of i now] unfolding step by simp
    qed
  qed
  then show ?thesis by (auto simp: tickets_ok_def)
qed

subsection \<open>Examples\<close>

text \<open>The digest of Mondays at 01:30 and 09:00, asked on the Thursday the epoch was, on that Monday and after.\<close>

lemma digest_first: "next_rule_occurrence (\<lambda>_. utc_wall) digest 0 = Some 351000000" by code_simp

lemma digest_second: "next_rule_occurrence (\<lambda>_. utc_wall) digest 351005000 = Some 378000000" by code_simp

lemma digest_third: "next_rule_occurrence (\<lambda>_. utc_wall) digest 378007000 = Some 955800000" by code_simp

definition weekly_digest :: ambient_settings where
  "weekly_digest = \<lparr>as_enabled = True, as_heartbeat = True, as_every_ms = 3600000, as_rules = [digest]\<rparr>"

definition digest_on :: "ambient_settings \<Rightarrow> int \<Rightarrow> scan_input" where
  "digest_on settings now = \<lparr>si_now = now, si_running = [], si_channels = [(''C1'', Some settings, Some 70000)]\<rparr>"

definition digest_clock :: "int \<Rightarrow> int \<Rightarrow> clockwork" where
  "digest_clock beat rule = \<lparr>cl_schedule = [(''C1'', beat)], cl_rules = [((''C1'', ''digest''), rule)]\<rparr>"

definition digest_scan :: "ambient_settings \<Rightarrow> int \<Rightarrow> clockwork \<Rightarrow> scan_plan" where
  "digest_scan settings now = ambient_scan (\<lambda>_. utc_wall) now [] [(''C1'', Some settings, Some 70000)]"

lemmas scan_example_defs = digest_def weekly_digest_def digest_scan_def digest_clock_def no_clock_def ambient_scan_def scan_start_def scan_prune_def scan_channel_def scan_ticket_def scan_rule_def
  scan_heartbeat_def set_rule_def fired_at_def next_due_at_def earliest_due_def ambient_rescan_ms_def List.map_filter_def Let_def

lemma digest_no_scans [simp]: "scans (\<lambda>_. utc_wall) [] clock = (clock, [])" by simp

lemma digest_scans:
  "scans (\<lambda>_. utc_wall) (digest_on settings now # later) clock =
     (fst (scans (\<lambda>_. utc_wall) later (pl_clock (digest_scan settings now clock))),
      pl_rules (digest_scan settings now clock) @ snd (scans (\<lambda>_. utc_wall) later (pl_clock (digest_scan settings now clock))))"
  by (simp add: digest_on_def digest_scan_def Let_def case_prod_beta)

lemma digest_scan_first:
  "pl_clock (digest_scan weekly_digest 0 no_clock) = digest_clock 3600000 351000000" "pl_rules (digest_scan weekly_digest 0 no_clock) = []"
  using digest_first by (simp_all add: scan_example_defs)

lemma digest_scan_second:
  "pl_clock (digest_scan weekly_digest 351005000 (digest_clock 3600000 351000000)) = digest_clock 354605000 378000000"
  "pl_rules (digest_scan weekly_digest 351005000 (digest_clock 3600000 351000000)) = [(''C1'', digest, 351000000)]"
  using digest_second by (simp_all add: scan_example_defs)

lemma digest_scan_third:
  "pl_rules (digest_scan weekly_digest 378007000 (digest_clock 354605000 378000000)) = [(''C1'', digest, 378000000)]"
  using digest_third by (simp add: scan_example_defs)

lemma digest_wakes: "next_due_at 80000 (ambient_scan (\<lambda>_. utc_wall) 80000 [] [(''C1'', Some weekly_digest, Some 70000)]
    (fst (scans (\<lambda>_. utc_wall) [digest_on weekly_digest 0] no_clock))) = Some 140000"
  by (simp del: scans.simps add: digest_scans digest_scan_first) (simp add: scan_example_defs)

theorem scan_wakes_later_witness:
  "next_due_at 80000 (ambient_scan (\<lambda>_. utc_wall) 80000 [] [(''C1'', Some weekly_digest, Some 70000)]
    (fst (scans (\<lambda>_. utc_wall) [digest_on weekly_digest 0] no_clock))) = Some 140000 \<and> (80000::int) < 140000"
  using scan_wakes_later[OF _ digest_wakes] digest_wakes by (simp add: weekly_digest_def)

definition one_monday :: "scan_input list" where
  "one_monday = map (digest_on weekly_digest) [0, 351005000, 378007000]"

lemma one_monday_fires: "fired_at (''C1'', ''digest'') (snd (scans (\<lambda>_. utc_wall) one_monday no_clock)) = [351000000, 378000000]"
  by (simp del: scans.simps add: one_monday_def digest_scans digest_scan_first digest_scan_second digest_scan_third)
    (simp add: fired_at_def List.map_filter_def digest_def)

lemma one_monday_sorted: "sorted (map si_now one_monday)" by (simp add: one_monday_def digest_on_def)

theorem rule_occurrence_fires_once_witness:
  "fired_at (''C1'', ''digest'') (snd (scans (\<lambda>_. utc_wall) one_monday no_clock)) = [351000000, 378000000] \<and>
   sorted_wrt (<) [351000000, 378000000 :: int]"
  using rule_occurrence_fires_once[OF one_monday_sorted, of "(''C1'', ''digest'')" "\<lambda>_. utc_wall"] one_monday_fires by simp

definition a_check :: "string \<Rightarrow> scheduled_task" where
  "a_check i = \<lparr>sk_id = i, sk_task = ''t'', sk_prompt = ''p'', sk_due = 100, sk_created = 0, sk_fired = None\<rparr>"

definition two_checks :: "check_event list" where
  "two_checks = [CkScheduled (a_check ''a''), CkScheduled (a_check ''b''), CkBegins 150, CkEnds (TurnAnswer (js ''done'')) 160 True, CkCancelled ''b'' 170]"

lemma two_checks_run: "distinct (concat (map scheduled_ids two_checks))" "cs_said (checks_after two_checks) = [''a'']"
  "map sk_id (tt_tasks (cs_tables (checks_after two_checks))) = [''a'']" "filter unstamped two_checks = []"
  by code_simp+

theorem check_settles_once_witness:
  "cs_said (checks_after two_checks) = [''a''] \<and> count_list (cs_said (checks_after two_checks)) ''a'' \<le> 1 \<and>
   ''a'' \<notin> cancelled_ids (cs_tables (checks_after two_checks))"
proof -
  have "''a'' \<in> sk_id ` set (tt_tasks (cs_tables (checks_after two_checks)))"
    using arg_cong[OF two_checks_run(3), of set] by simp
  with check_settles_once[OF two_checks_run(1), of "''a''"] two_checks_run(2,4) show ?thesis by simp
qed

text \<open>A rule whose hour was edited still has the old hour's entry: it fires at the hour no sheet says any more.\<close>

definition later_digest :: ambient_settings where
  "later_digest = weekly_digest\<lparr>as_rules := [digest\<lparr>rule_at := [''09:00'']\<rparr>]\<rparr>"

lemma later_scans:
  "pl_clock (digest_scan later_digest 60000 (digest_clock 3600000 351000000)) = digest_clock 3600000 351000000"
  "pl_rules (digest_scan later_digest 60000 (digest_clock 3600000 351000000)) = []"
  "pl_rules (digest_scan later_digest 351000000 (digest_clock 3600000 351000000)) = [(''C1'', digest\<lparr>rule_at := [''09:00'']\<rparr>, 351000000)]"
  by (simp_all add: scan_example_defs later_digest_def)

lemma edited_rule_fires_at_old_time:
  "fired_at (''C1'', ''digest'') (snd (scans (\<lambda>_. utc_wall)
     [digest_on weekly_digest 0, digest_on later_digest 60000, digest_on later_digest 351000000] no_clock)) = [351000000]"
  by (simp del: scans.simps add: digest_scans digest_scan_first later_scans) (simp add: fired_at_def List.map_filter_def digest_def)

text \<open>While a channel's settings cannot be read, an entry that comes due stays, and the loop wakes at once, each time.\<close>

lemma unreadable_sheet_spins:
  "let clock = pl_clock (digest_scan weekly_digest 0 no_clock); now = 351005000;
       p = ambient_scan (\<lambda>_. utc_wall) now [] [(''C1'', None, None)] clock
   in pl_clock p = clock \<and> pl_rules p = [] \<and> sleep_ms now now (next_due_at now p) = 0"
  unfolding digest_scan_first by (simp add: scan_example_defs sleep_ms_def)

text \<open>A check called off while its turn runs is on record as cancelled, and speaks.\<close>

lemma cancelled_check_speaks:
  "let st = checks_after [CkScheduled (a_check ''a''), CkBegins 150, CkCancelled ''a'' 155, CkEnds (TurnAnswer (js ''done'')) 160 True]
   in map (sk_id \<circ> fst) (tt_cancelled (cs_tables st)) = [''a''] \<and> tt_tasks (cs_tables st) = [] \<and> cs_said st = [''a'']"
  by code_simp

end
