(* ===== verification/Fired_Turn.thy ===== *)
theory Fired_Turn
  imports Agent_Tools Memory_File Message_Store Ambient
begin

text \<open>
  A turn nobody asked for: the answer a model may give (\<open>packages/schema/src/ambient-finding.ts\<close>), the single call that
  offers nothing else (\<open>packages/agent/src/ambient\<close>), the loop over the channel's tools with that answer intercepted
  (\<open>apps/server/src/session/fired-tools.ts\<close>), and a firing from its budget question to its outcome
  (\<open>session/fired-turn.ts\<close>). The loop is \<open>runAgentTask\<close>; the system prompt is an argument.
\<close>

subsection \<open>Findings\<close>

definition finding_tool :: string where "finding_tool = ''post_finding''"
definition finding_max_chars :: nat where "finding_max_chars = 700"

datatype finding_failure = FindingUnknownTool | FindingMalformed | FindingTooLong

primrec finding_failure_text :: "finding_failure \<Rightarrow> string" where
  "finding_failure_text FindingUnknownTool = ''unknown_tool''"
| "finding_failure_text FindingMalformed = ''malformed_arguments''"
| "finding_failure_text FindingTooLong = ''text_too_long''"

text \<open>What a strict schema sees of a call's arguments.\<close>

definition call_fields :: "json \<Rightarrow> op_arguments" where
  "call_fields arguments =
     (case arguments of
        JObj given \<Rightarrow> Some (map (\<lambda>(name, v). (name, case v of JStr s \<Rightarrow> ArgumentText (js s) | _ \<Rightarrow> ArgumentOther)) given)
      | _ \<Rightarrow> None)"

text \<open>An issue's code, and the field it is about.\<close>

definition finding_issues :: "op_arguments \<Rightarrow> (zod_issue \<times> string option) list" where
  "finding_issues arguments =
     (case arguments of
        None \<Rightarrow> [(OtherIssue, None)]
      | Some given \<Rightarrow>
          (case map_of given ''text'' of
             Some (ArgumentText us) \<Rightarrow>
               (if us = [] then [(OtherIssue, Some ''text'')] else []) @
               (if finding_max_chars < length us then [(TooBig, Some ''text'')] else [])
           | _ \<Rightarrow> [(OtherIssue, Some ''text'')]) @
          (if list_ex (\<lambda>(name, v). name \<noteq> ''text'') given then [(OtherIssue, None)] else []))"

definition finding_failure_of :: "(zod_issue \<times> string option) list \<Rightarrow> finding_failure" where
  "finding_failure_of issues =
     (if list_all (\<lambda>i. fst i = TooBig) issues \<and> list_all (\<lambda>i. snd i = Some ''text'') issues then FindingTooLong else FindingMalformed)"

definition parse_ambient_finding :: "model_call \<Rightarrow> finding_failure + js_text" where
  "parse_ambient_finding call =
     (if mc_name call \<noteq> finding_tool then Inl FindingUnknownTool
      else
        let given = call_fields (mc_arguments call); issues = finding_issues given
        in if issues \<noteq> [] then Inl (finding_failure_of issues) else Inr (argument_text given ''text''))"

subsection \<open>What the turn is asked\<close>

record activity_line =
  al_author :: js_text
  al_text :: js_text

definition activity_lines :: "activity_line list \<Rightarrow> js_text list" where
  "activity_lines messages = map (\<lambda>l. al_author l @ js '': '' @ al_text l) messages"

definition activity_message :: "activity_line list \<Rightarrow> js_text" where
  "activity_message messages =
     js_join [newline]
       ([js ''Recent activity in this channel, oldest first:'', []] @ activity_lines messages @
        [[], js ''Is there anything here worth saying something about, unprompted? If not, call no tool.''])"

definition check_message :: "js_text \<Rightarrow> activity_line list \<Rightarrow> js_text" where
  "check_message prompt messages =
     js_join [newline]
       ([js ''The check you were asked to run, exactly as it was written when it was set up:'', [], js ''<check>'', prompt, js ''</check>'', [],
         js ''Recent activity in this channel, oldest first:'', []] @
        (if messages = [] then [js ''(nothing has been said in this channel recently)''] else activity_lines messages) @
        [[], js ''Run that check against what you can see. If it has an answer worth putting in the channel,'',
         js ''call post_finding with it. If not, call no tool.''])"

text \<open>A stored message as the turn reads it.\<close>

definition activity_of :: "message_row \<Rightarrow> activity_line" where
  "activity_of row = \<lparr>al_author = js (case mr_name row of Some name \<Rightarrow> name | None \<Rightarrow> mr_user row), al_text = mr_text row\<rparr>"

subsection \<open>One answer\<close>

text \<open>What a turn has recorded: a text, or why its answer could not be used.\<close>

record fired_tools =
  ft_finding :: "js_text option"
  ft_unusable :: "finding_failure option"

definition nothing_recorded :: fired_tools where "nothing_recorded = \<lparr>ft_finding = None, ft_unusable = None\<rparr>"

definition recorded_by :: "model_call \<Rightarrow> fired_tools" where
  "recorded_by call =
     (case parse_ambient_finding call of
        Inr us \<Rightarrow> \<lparr>ft_finding = Some us, ft_unusable = None\<rparr>
      | Inl reason \<Rightarrow> \<lparr>ft_finding = None, ft_unusable = Some reason\<rparr>)"

text \<open>The single call: the first \<open>post_finding\<close> of the answer, whatever else it asks for.\<close>

definition first_finding :: "model_call list \<Rightarrow> model_call list" where
  "first_finding calls = (case find (\<lambda>c. mc_name c = finding_tool) calls of Some c \<Rightarrow> [c] | None \<Rightarrow> [])"

definition recorded_of :: "model_call list \<Rightarrow> fired_tools" where
  "recorded_of asked = (case asked of [] \<Rightarrow> nothing_recorded | c # _ \<Rightarrow> recorded_by c)"

record single_turn =
  sg_model :: string
  sg_system :: js_text
  sg_content :: js_text
  sg_max_tokens :: nat
  sg_tool :: tool_definition

definition single_request :: "single_turn \<Rightarrow> completion_request" where
  "single_request t =
     \<lparr>rq_model = sg_model t, rq_messages = [UserMessage (sg_content t)], rq_max_tokens = int (sg_max_tokens t),
      rq_system = Some (sg_system t), rq_tools = [sg_tool t]\<rparr>"

text \<open>None: the provider, or the report of what it cost, threw.\<close>

definition run_single_turn :: "'w agent_env \<Rightarrow> single_turn \<Rightarrow> 'w \<Rightarrow> model_call list option \<times> 'w" where
  "run_single_turn env t w =
     (let (answer, w) = env_complete env (single_request t) w
      in case answer of
          Inl msg \<Rightarrow> (None, w)
        | Inr response \<Rightarrow>
            let (threw, w) = env_on_turn env
              \<lparr>ct_usage = cr_usage response, ct_turn = 1, ct_model = cr_model response, ct_cost_nano_usd = None\<rparr> w
            in (if threw = None then Some (first_finding (cr_calls response)) else None, w))"

subsection \<open>The loop, with the answer intercepted\<close>

definition finding_recorded :: js_text where
  "finding_recorded = js ''Recorded. It will be posted when you finish; do not call this again.''"

definition finding_already :: js_text where
  "finding_already = js ''You have already recorded an answer for this run. Nothing further was recorded.''"

text \<open>\<open>fw_asked\<close> keeps the \<open>post_finding\<close> calls, for what is proved about them.\<close>

record 'w fired_world =
  fw_tools :: fired_tools
  fw_asked :: "model_call list"
  fw_outside :: 'w

definition fired_lift :: "('w \<Rightarrow> 'a \<times> 'w) \<Rightarrow> 'w fired_world \<Rightarrow> 'a \<times> 'w fired_world" where
  "fired_lift f c = (let (a, w) = f (fw_outside c) in (a, c\<lparr>fw_outside := w\<rparr>))"

definition fired_list :: "tool_definition \<Rightarrow> 'w agent_env \<Rightarrow> 'w fired_world \<Rightarrow> (js_text + tool_definition list) \<times> 'w fired_world" where
  "fired_list tool base c =
     (let (listed, c) = fired_lift (env_list base) c
      in (case listed of Inl msg \<Rightarrow> Inl msg | Inr defs \<Rightarrow> Inr (defs @ [tool]), c))"

definition fired_execute ::
    "'w agent_env \<Rightarrow> model_call \<Rightarrow> attribution \<Rightarrow> 'w fired_world \<Rightarrow> (js_text + tool_result) \<times> 'w fired_world" where
  "fired_execute base call attr c =
     (if mc_name call \<noteq> finding_tool then fired_lift (env_execute base call attr) c
      else
        let c = c\<lparr>fw_asked := fw_asked c @ [call]\<rparr>
        in if ft_finding (fw_tools c) \<noteq> None \<or> ft_unusable (fw_tools c) \<noteq> None
           then (Inr \<lparr>res_content = [TextBlock finding_already], res_is_error = True\<rparr>, c)
           else case parse_ambient_finding call of
               Inr us \<Rightarrow>
                 (Inr \<lparr>res_content = [TextBlock finding_recorded], res_is_error = False\<rparr>,
                  c\<lparr>fw_tools := (fw_tools c)\<lparr>ft_finding := Some us\<rparr>\<rparr>)
             | Inl reason \<Rightarrow>
                 (Inr \<lparr>res_content = [TextBlock (js ''That answer could not be used: '' @ js (finding_failure_text reason) @ js ''.'')],
                       res_is_error = True\<rparr>,
                  c\<lparr>fw_tools := (fw_tools c)\<lparr>ft_unusable := Some reason\<rparr>\<rparr>))"

definition fired_env :: "tool_definition \<Rightarrow> 'w agent_env \<Rightarrow> 'w fired_world agent_env" where
  "fired_env tool base =
     \<lparr>env_cancelled = env_cancelled base \<circ> fw_outside, env_deadline = env_deadline base \<circ> fw_outside,
      env_now = env_now base \<circ> fw_outside,
      env_list = fired_list tool base,
      env_complete = fired_lift \<circ> env_complete base,
      env_execute = fired_execute base,
      env_on_turn = fired_lift \<circ> env_on_turn base,
      env_on_tool_call = (\<lambda>step c. c\<lparr>fw_outside := env_on_tool_call base step (fw_outside c)\<rparr>)\<rparr>"

text \<open>The tool client of a firing: no prompter, no recorder of tickets, nobody told.\<close>

definition fired_callbacks :: "'w client_callbacks" where
  "fired_callbacks =
     \<lparr>cb_held = None, cb_completion = (\<lambda>_ _ w. w), cb_unmapped = (\<lambda>_ w. w), cb_warning = (\<lambda>_ w. w), cb_scheduled = None\<rparr>"

subsection \<open>A firing\<close>

definition max_fired_turn_messages :: int where "max_fired_turn_messages = 40"

record fired_settings =
  fs_model :: string
  fs_max_tokens :: nat
  fs_tools :: bool
  fs_caps :: loop_caps

record fired_request =
  fq_question :: js_text
  fq_turn_id :: string
  fq_settings :: fired_settings
  fq_system :: js_text

definition fired_task :: "fired_request \<Rightarrow> activity_line list \<Rightarrow> agent_task" where
  "fired_task q messages =
     \<lparr>tk_model = fs_model (fq_settings q), tk_requesting_user = ambient_requesting_user, tk_task_id = fq_turn_id q, tk_thread = None,
      tk_system = Some (fq_system q), tk_messages = [UserMessage (check_message (fq_question q) messages)],
      tk_caps = fs_caps (fq_settings q)\<rparr>"

definition outcome_of :: "fired_tools \<Rightarrow> fired_turn" where
  "outcome_of tools =
     (case ft_unusable tools of
        Some reason \<Rightarrow> TurnFailed
      | None \<Rightarrow> (case ft_finding tools of None \<Rightarrow> TurnSilent | Some us \<Rightarrow> TurnAnswer us))"

text \<open>The two shapes: what the turn recorded, none where it threw, and the calls it recorded it from.\<close>

definition run_tool_turn ::
    "tool_definition \<Rightarrow> 'w agent_env \<Rightarrow> agent_task \<Rightarrow> 'w \<Rightarrow> fired_tools option \<times> model_call list \<times> 'w" where
  "run_tool_turn tool base task w =
     (let (res, r, c) = run_agent_task (fired_env tool base) task \<lparr>fw_tools = nothing_recorded, fw_asked = [], fw_outside = w\<rparr>
      in (case res of Inl msg \<Rightarrow> None | Inr _ \<Rightarrow> Some (fw_tools c), fw_asked c, fw_outside c))"

definition run_one_turn :: "'w agent_env \<Rightarrow> single_turn \<Rightarrow> 'w \<Rightarrow> fired_tools option \<times> model_call list \<times> 'w" where
  "run_one_turn env t w =
     (let (asked, w) = run_single_turn env t w
      in case asked of None \<Rightarrow> (None, [], w) | Some calls \<Rightarrow> (Some (recorded_of calls), calls, w))"

text \<open>
  \<open>may_spend\<close> is the budget's answer, \<open>rows\<close> the channel's recent messages, none where the store threw, \<open>tool\<close>
  \<open>post_finding\<close> as it is offered.
\<close>

definition run_fired_turn ::
    "tool_definition \<Rightarrow> 'w agent_env \<Rightarrow> bool \<Rightarrow> message_row list option \<Rightarrow> fired_request \<Rightarrow> 'w \<Rightarrow> fired_turn \<times> model_call list \<times> 'w" where
  "run_fired_turn tool env may_spend rows q w =
     (if \<not> may_spend then (TurnOverBudget, [], w)
      else case rows of
          None \<Rightarrow> (TurnFailed, [], w)
        | Some rs \<Rightarrow>
            let messages = map activity_of rs; s = fq_settings q;
                (recorded, asked, w) =
                  (if fs_tools s then run_tool_turn tool env (fired_task q messages) w
                   else run_one_turn env
                     \<lparr>sg_model = fs_model s, sg_system = fq_system q, sg_content = check_message (fq_question q) messages,
                      sg_max_tokens = fs_max_tokens s, sg_tool = tool\<rparr> w)
            in (if env_cancelled env w then TurnAborted
                else (case recorded of None \<Rightarrow> TurnFailed | Some tools \<Rightarrow> outcome_of tools), asked, w))"

subsection \<open>What a firing says\<close>

lemma parse_finding_bounds:
  "parse_ambient_finding call = Inr us \<Longrightarrow> mc_name call = finding_tool \<and> us \<noteq> [] \<and> length us \<le> finding_max_chars"
  by (auto simp: parse_ambient_finding_def finding_issues_def argument_text_def Let_def
      split: if_splits option.splits argument_value.splits)

text \<open>What the intercepted calls recorded is what the first of them gives.\<close>

definition records_first :: "'w fired_world \<Rightarrow> bool" where
  "records_first c \<longleftrightarrow> fw_tools c = recorded_of (fw_asked c) \<and> list_all (\<lambda>call. mc_name call = finding_tool) (fw_asked c)"

lemma recorded_of_snoc: "asked \<noteq> [] \<Longrightarrow> recorded_of (asked @ [call]) = recorded_of asked"
  by (cases asked) (simp_all add: recorded_of_def)

lemma recorded_some: "asked \<noteq> [] \<longleftrightarrow> ft_finding (recorded_of asked) \<noteq> None \<or> ft_unusable (recorded_of asked) \<noteq> None"
  by (cases asked) (auto simp: recorded_of_def recorded_by_def nothing_recorded_def split: sum.splits)

lemma fired_lift_frame: "fired_lift f c = (a, c') \<Longrightarrow> fw_tools c' = fw_tools c \<and> fw_asked c' = fw_asked c"
  by (auto simp: fired_lift_def Let_def split: prod.splits)

lemma fired_execute_records:
  assumes "records_first c" "fired_execute base call attr c = (res, c')"
  shows "records_first c'"
proof (cases "mc_name call = finding_tool")
  case False
  then have "fired_lift (env_execute base call attr) c = (res, c')" using assms(2) by (simp add: fired_execute_def)
  from fired_lift_frame[OF this] assms(1) show ?thesis by (simp add: records_first_def)
next
  case True
  show ?thesis
  proof (cases "fw_asked c")
    case Nil
    then have n: "fw_tools c = nothing_recorded" using assms(1) by (simp add: records_first_def recorded_of_def)
    then have "c' = c\<lparr>fw_asked := [call], fw_tools := recorded_by call\<rparr>"
      using assms(2) True Nil by (cases "parse_ambient_finding call") (auto simp: fired_execute_def recorded_by_def nothing_recorded_def)
    then show ?thesis using True by (simp add: records_first_def recorded_of_def)
  next
    case (Cons a b)
    then have "ft_finding (fw_tools c) \<noteq> None \<or> ft_unusable (fw_tools c) \<noteq> None"
      using assms(1) recorded_some[of "fw_asked c"] by (simp add: records_first_def)
    then have "c' = c\<lparr>fw_asked := fw_asked c @ [call]\<rparr>" using assms(2) True by (auto simp: fired_execute_def Let_def)
    then show ?thesis using assms(1) True Cons by (simp add: records_first_def recorded_of_def)
  qed
qed

interpretation fired_records: outside_invariant "fired_env tool base" attr records_first records_first
  for tool base attr
proof
  fix c c' :: "'a fired_world" and l
  assume a: "records_first c" "env_list (fired_env tool base) c = (l, c')"
  then obtain l' where "fired_lift (env_list base) c = (l', c')" by (auto simp: fired_env_def fired_list_def split: prod.splits)
  from fired_lift_frame[OF this] a(1) show "records_first c'" by (simp add: records_first_def)
next
  fix c c' :: "'a fired_world" and call res
  assume "records_first c" "env_execute (fired_env tool base) call attr c = (res, c')"
  then show "records_first c'" using fired_execute_records by (simp add: fired_env_def) blast
qed (auto simp: fired_env_def records_first_def dest!: fired_lift_frame)

lemma run_tool_turn_records:
  assumes "run_tool_turn tool base task w = (Some tools, asked, w')"
  shows "tools = recorded_of asked"
proof -
  obtain res r c where run: "run_agent_task (fired_env tool base) task \<lparr>fw_tools = nothing_recorded, fw_asked = [], fw_outside = w\<rparr> = (res, r, c)"
    by (metis prod_cases3)
  have "records_first c" by (rule fired_records.keeps_task[OF _ refl run]) (simp add: records_first_def recorded_of_def)
  then show ?thesis using assms run by (auto simp: run_tool_turn_def records_first_def split: sum.splits)
qed

lemma run_one_turn_records: "run_one_turn env t w = (Some tools, asked, w') \<Longrightarrow> tools = recorded_of asked"
  by (auto simp: run_one_turn_def Let_def split: prod.splits option.splits)

text \<open>
  A firing speaks only what its model gave to \<open>post_finding\<close>, and only once: it answers with the text of the first
  such call of the turn, where that parses, of at most 700 characters; it is silent exactly where there was none; an
  answer that cannot be used, and a turn that throws, is a failure.
\<close>

theorem firing_says_its_finding:
  assumes "run_fired_turn tool env may_spend rows q w = (outcome, asked, w')" "\<not> env_cancelled env w'"
  shows "case outcome of
      TurnAnswer us \<Rightarrow> (\<exists>call calls. asked = call # calls \<and> parse_ambient_finding call = Inr us) \<and> us \<noteq> [] \<and> length us \<le> 700
    | TurnSilent \<Rightarrow> asked = [] \<and> may_spend
    | TurnOverBudget \<Rightarrow> \<not> may_spend \<and> w' = w
    | TurnAborted \<Rightarrow> False
    | TurnFailed \<Rightarrow> may_spend"
proof (cases "may_spend \<and> rows \<noteq> None")
  case False
  then show ?thesis using assms(1) by (cases may_spend) (auto simp: run_fired_turn_def)
next
  case True
  then obtain rs where rs: "rows = Some rs" by blast
  obtain recorded where r: "outcome = (case recorded of None \<Rightarrow> TurnFailed | Some tools \<Rightarrow> outcome_of tools)"
    "\<And>tools. recorded = Some tools \<Longrightarrow> tools = recorded_of asked"
    using assms True rs by (auto simp: run_fired_turn_def Let_def split: prod.splits if_splits dest: run_tool_turn_records run_one_turn_records)
  show ?thesis
  proof (cases recorded)
    case None
    then show ?thesis using r True by simp
  next
    case (Some tools)
    then have t: "outcome = outcome_of (recorded_of asked)" using r by simp
    show ?thesis
    proof (cases asked)
      case Nil
      then show ?thesis using t True by (simp add: outcome_of_def recorded_of_def nothing_recorded_def)
    next
      case (Cons call calls)
      then show ?thesis using t True parse_finding_bounds[of call]
        by (cases "parse_ambient_finding call") (auto simp: outcome_of_def recorded_of_def recorded_by_def finding_max_chars_def)
    qed
  qed
qed

subsection \<open>What a firing sends\<close>

text \<open>A request no person stands behind: the channel's certificate, the reserved user, the firing as its task, no ticket.\<close>

definition unattended :: "string \<Rightarrow> string \<Rightarrow> proxy_request \<Rightarrow> bool" where
  "unattended channel turn_id rq \<longleftrightarrow>
     pr_channel rq = channel \<and>
     (case pr_body rq of
        CallBody body tkt \<Rightarrow>
          tc_requesting_user body = ambient_requesting_user \<and> tc_task body = turn_id \<and> tc_thread body = None \<and> tkt = None
      | NoBody \<Rightarrow> True
      | _ \<Rightarrow> False)"

definition sends_unattended :: "string \<Rightarrow> string \<Rightarrow> 'w client_world fired_world \<Rightarrow> bool" where
  "sends_unattended channel turn_id c \<longleftrightarrow> list_all (unattended channel turn_id) (cw_sent (fw_outside c))"

definition fired_attribution :: "string \<Rightarrow> attribution" where
  "fired_attribution turn_id = \<lparr>at_requesting_user = ambient_requesting_user, at_task = turn_id, at_thread = None\<rparr>"

lemma fired_sends_execute:
  assumes "list_all (unattended channel turn_id) (cw_sent c)"
    "client_execute wire fired_callbacks channel call (fired_attribution turn_id) c = (res, c')"
  shows "list_all (unattended channel turn_id) (cw_sent c')"
proof (cases "js_get (cw_by_name c) (mc_name call)")
  case None
  then show ?thesis using client_execute_unmapped[OF None assms(2)] assms(1) by simp
next
  case (Some m)
  from client_execute_mapped[OF Some assms(2)]
  have "cw_sent c' = cw_sent c @ [call_request channel (wire_call call (fired_attribution turn_id) m) None]"
    by (auto simp: fired_callbacks_def)
  then show ?thesis using assms(1) by (simp add: unattended_def call_request_def wire_call_def fired_attribution_def)
qed

lemma fired_sends_list:
  assumes "list_all (unattended channel turn_id) (cw_sent c)" "client_list wire channel c = (res, c')"
  shows "list_all (unattended channel turn_id) (cw_sent c')"
  using assms by (auto simp: client_list_def send_def unattended_def Let_def split: sum.splits prod.splits if_splits option.splits)

lemma lift_outside_sent: "lift_outside f c = (a, c') \<Longrightarrow> cw_sent c' = cw_sent c"
  by (auto simp: lift_outside_def Let_def split: prod.splits)

lemma fired_lift_split: "fired_lift f c = (a, c') \<Longrightarrow> f (fw_outside c) = (a, fw_outside c')"
  by (auto simp: fired_lift_def Let_def split: prod.splits)

interpretation fired_sends: outside_invariant "fired_env tool (client_env wire fired_callbacks channel base)" "fired_attribution turn_id"
    "sends_unattended channel turn_id" "sends_unattended channel turn_id"
  for tool wire channel base turn_id
proof
  fix c c' :: "'a client_world fired_world" and l
  assume a: "sends_unattended channel turn_id c" "env_list (fired_env tool (client_env wire fired_callbacks channel base)) c = (l, c')"
  then obtain l' where "fired_lift (env_list (client_env wire fired_callbacks channel base)) c = (l', c')"
    by (auto simp: fired_env_def fired_list_def split: prod.splits)
  from fired_lift_split[OF this] show "sends_unattended channel turn_id c'"
    using a(1) fired_sends_list[of channel turn_id "fw_outside c" wire]
    by (cases "client_list wire channel (fw_outside c)") (auto simp: client_env_def sends_unattended_def)
next
  fix c c' :: "'a client_world fired_world" and call res
  assume a: "sends_unattended channel turn_id c"
    "env_execute (fired_env tool (client_env wire fired_callbacks channel base)) call (fired_attribution turn_id) c = (res, c')"
  show "sends_unattended channel turn_id c'"
  proof (cases "mc_name call = finding_tool")
    case True
    then show ?thesis using a by (auto simp: fired_env_def fired_execute_def sends_unattended_def Let_def split: if_splits sum.splits)
  next
    case False
    then have "fired_lift (env_execute (client_env wire fired_callbacks channel base) call (fired_attribution turn_id)) c = (res, c')"
      using a(2) by (simp add: fired_env_def fired_execute_def)
    from fired_lift_split[OF this] show ?thesis
      using a(1) fired_sends_execute[of channel turn_id "fw_outside c" wire call]
      by (cases "client_execute wire fired_callbacks channel call (fired_attribution turn_id) (fw_outside c)") (auto simp: client_env_def sends_unattended_def)
  qed
qed (auto simp: fired_env_def client_env_def sends_unattended_def dest!: fired_lift_split lift_outside_sent)

lemma fired_task_attribution: "attribution_of (fired_task q messages) = fired_attribution (fq_turn_id q)"
  by (simp add: attribution_of_def fired_task_def fired_attribution_def)

text \<open>
  A firing acts for nobody and is approved by nobody: whatever its model writes and whatever the proxy answers,
  every request it makes goes out under its own channel's certificate, every call of it under the reserved user and
  the firing's own id, in no thread, and never with a ticket, so what the proxy holds stays held.
\<close>

theorem firing_acts_for_nobody:
  assumes "run_fired_turn tool (client_env wire fired_callbacks channel base) may_spend rows q c = (outcome, asked, c')" "cw_sent c = []"
  shows "list_all (unattended channel (fq_turn_id q)) (cw_sent c')"
proof -
  let ?env = "client_env wire fired_callbacks channel base"
  have tools: "list_all (unattended channel (fq_turn_id q)) (cw_sent d)"
    if turn: "run_tool_turn tool ?env (fired_task q messages) c = (recorded, asked, d)" for messages recorded asked d
  proof -
    obtain res r e where run: "run_agent_task (fired_env tool ?env) (fired_task q messages) \<lparr>fw_tools = nothing_recorded, fw_asked = [], fw_outside = c\<rparr> = (res, r, e)"
      by (metis prod_cases3)
    have "sends_unattended channel (fq_turn_id q) e"
      by (rule fired_sends.keeps_task[OF _ fired_task_attribution run]) (simp add: sends_unattended_def assms(2))
    then show ?thesis using turn run by (auto simp: run_tool_turn_def sends_unattended_def)
  qed
  have one: "cw_sent d = cw_sent c" if "run_one_turn ?env t c = (recorded, asked, d)" for t recorded asked d
    using that by (auto simp: run_one_turn_def run_single_turn_def client_env_def Let_def
        split: prod.splits sum.splits option.splits if_splits dest!: lift_outside_sent)
  show ?thesis using assms
    by (auto simp: run_fired_turn_def Let_def split: prod.splits option.splits if_splits dest: tools one)
qed

end
