(* ===== verification/Heartbeat.thy ===== *)
theory Heartbeat
  imports Fired_Turn Channel_Memory Approval_Card
begin

text \<open>
  Speech nobody asked for: the posting surface and its window (\<open>apps/server/src/proactive/proactive.ts\<close>), how a post
  is worded (\<open>packages/gateway/src/slack/proactive-post.ts\<close>), what a rule and a check say
  (\<open>session/rule.ts\<close>, \<open>session/check.ts\<close>) and the heartbeat from its pregate to its post (\<open>session/heartbeat.ts\<close>). A
  channel's heartbeats run one at a time, under its mutex.
\<close>

subsection \<open>The post\<close>

datatype proactive_source = HeartbeatSource | TaskSource | RuleSource

primrec source_label :: "proactive_source \<Rightarrow> string" where
  "source_label HeartbeatSource = ''NOTICED''"
| "source_label TaskSource = ''SCHEDULED CHECK''"
| "source_label RuleSource = ''STANDING RULE''"

definition proactive_body_limit :: nat where "proactive_body_limit = 800"

definition switch_note :: js_text where
  "switch_note = js ''_Unprompted posts are `[ambient]` in this channel's team sheet._''"

definition render_proactive_post :: "proactive_source \<Rightarrow> js_text \<Rightarrow> js_text" where
  "render_proactive_post source text_said =
     js_join [newline, newline]
       ((js ''`'' @ js (source_label source) @ js ''`'' @ [newline] @ safe_text text_said proactive_body_limit) #
        (if source = HeartbeatSource then [switch_note] else []))"

definition heartbeat_post_window_ms :: int where "heartbeat_post_window_ms = 4 * 60 * 60 * 1000"

definition window_open :: "int \<Rightarrow> string \<Rightarrow> int \<Rightarrow> (string, int) jsmap \<Rightarrow> bool" where
  "window_open window channel now posts =
     (case js_get posts channel of None \<Rightarrow> True | Some before \<Rightarrow> window \<le> now - before)"

text \<open>Whether it was posted, whether Slack was asked, and the permits: taken at the attempt, and not given back.\<close>

definition proactive_post ::
    "int \<Rightarrow> string \<Rightarrow> proactive_source \<Rightarrow> int \<Rightarrow> bool \<Rightarrow> (string, int) jsmap \<Rightarrow> bool \<times> bool \<times> (string, int) jsmap" where
  "proactive_post window channel source now slack_ok posts =
     (if source = HeartbeatSource then
        (if \<not> window_open window channel now posts then (False, False, posts)
         else (slack_ok, True, js_set channel now posts))
      else (slack_ok, True, posts))"

subsection \<open>What a rule and a check say\<close>

datatype fired_failure = FailedOverBudget | FailedOther

definition fired_why :: "js_text \<Rightarrow> fired_failure \<Rightarrow> js_text" where
  "fired_why otherwise why =
     (case why of
        FailedOverBudget \<Rightarrow> js ''this channel has spent its daily budget, so nothing was run''
      | FailedOther \<Rightarrow> otherwise)"

definition render_rule_failure_notice :: "ambient_rule \<Rightarrow> fired_failure \<Rightarrow> js_text" where
  "render_rule_failure_notice rule why =
     js_join [newline]
       [js ''The scheduled rule '' @ js (rule_name rule) @ js '' came due and did not happen: '' @ fired_why (js ''it could not be run'') why @ js ''.'', [],
        js ''It asks: '' @ rule_question rule, [],
        js ''The rule still stands and will run again at its next time. If this one mattered,'',
        js ''someone here can do it now.'']"

definition render_check_failure_notice :: "js_text \<Rightarrow> fired_failure \<Rightarrow> js_text" where
  "render_check_failure_notice prompt why =
     js_join [newline]
       [js ''A scheduled check came due and did not happen: '' @ fired_why (js ''the check could not be run'') why @ js ''.'', [],
        js ''It was: '' @ prompt, [],
        js ''Nothing else will happen about it '' @ [0x2014] @ js '' a check runs once, and this one is done. If it still'',
        js ''matters, someone here can do it or ask for it to be scheduled again.'']"

definition fired_post :: "(fired_failure \<Rightarrow> js_text) \<Rightarrow> fired_turn \<Rightarrow> js_text option" where
  "fired_post notice turn =
     (case turn of
        TurnOverBudget \<Rightarrow> Some (notice FailedOverBudget)
      | TurnFailed \<Rightarrow> Some (notice FailedOther)
      | TurnSilent \<Rightarrow> None
      | TurnAborted \<Rightarrow> None
      | TurnAnswer us \<Rightarrow> Some us)"

definition rule_turn_id :: "ambient_rule \<Rightarrow> nat \<Rightarrow> string" where
  "rule_turn_id rule due_at = ''rule-'' @ rule_name rule @ ''-'' @ nat_string due_at"

text \<open>A rule that came due, with its channel's settings, none where they are off or could not be read.\<close>

definition fire_rule ::
    "tool_definition \<Rightarrow> 'w agent_env \<Rightarrow> bool \<Rightarrow> message_row list option \<Rightarrow> (fired_settings \<times> js_text) option \<Rightarrow> ambient_rule \<Rightarrow> nat \<Rightarrow> 'w \<Rightarrow>
     (proactive_source \<times> js_text) option \<times> 'w" where
  "fire_rule tool env affordable rows settings rule due_at w =
     (case settings of
        None \<Rightarrow> (None, w)
      | Some (s, system) \<Rightarrow>
          let (turn, asked, w) = run_fired_turn tool env affordable rows
                \<lparr>fq_question = rule_question rule, fq_turn_id = rule_turn_id rule due_at, fq_settings = s, fq_system = system\<rparr> w
          in (map_option (Pair RuleSource) (fired_post (render_rule_failure_notice rule) turn), w))"

definition fire_check ::
    "tool_definition \<Rightarrow> 'w agent_env \<Rightarrow> bool \<Rightarrow> message_row list option \<Rightarrow> (fired_settings \<times> js_text) option \<Rightarrow> string \<Rightarrow> js_text \<Rightarrow> 'w \<Rightarrow>
     (check_outcome \<times> (proactive_source \<times> js_text) option) option \<times> 'w" where
  "fire_check tool env affordable rows settings task_id prompt w =
     (case settings of
        None \<Rightarrow> (None, w)
      | Some (s, system) \<Rightarrow>
          let (turn, asked, w) = run_fired_turn tool env affordable rows
                \<lparr>fq_question = prompt, fq_turn_id = ''check-'' @ task_id, fq_settings = s, fq_system = system\<rparr> w
          in (map_option (\<lambda>out. (out, map_option (Pair TaskSource) (fired_post (render_check_failure_notice prompt) turn))) (check_outcome_of turn), w))"

subsection \<open>The heartbeat\<close>

definition max_heartbeat_messages :: int where "max_heartbeat_messages = 40"

type_synonym skill_pair = "string \<times> string"

definition skill_proposal_filename :: "skill_pair \<Rightarrow> string" where
  "skill_proposal_filename pair =
     (let (first, second) = (if fst pair \<le> snd pair then (fst pair, snd pair) else (snd pair, fst pair))
      in first @ ''--'' @ second @ ''.md'')"

definition render_proposal_notice :: "skill_pair \<Rightarrow> js_text" where
  "render_proposal_notice pair =
     js_join [newline]
       [js ''A merge proposal is waiting: `proposals/'' @ js (skill_proposal_filename pair) @ js ''`'',
        js ''It suggests folding `'' @ js (fst pair) @ js ''` and `'' @ js (snd pair) @ js ''` into one playbook. To apply it, follow'',
        js ''the steps in the file. To decline, delete the file '' @ [0x2014] @ js '' nothing else happens either way, and'',
        js ''this is the only time it will be mentioned.'']"

record heartbeat_settings =
  hs_enabled :: bool
  hs_answer_after_idle_ms :: nat
  hs_model :: string
  hs_max_tokens :: nat
  hs_tools :: bool
  hs_caps :: loop_caps
  hs_system :: js_text

text \<open>
  A tick: the settings, none where they could not be read; the clock at each of its readings; the channel's store, none
  where it throws; the waiting proposals, and the pairs already noticed; the answers of the budget, Slack and the stamp.
\<close>

record 'x heartbeat_inputs =
  ht_channel :: string
  ht_settings :: "heartbeat_settings option"
  ht_may_post_at :: int
  ht_at :: nat
  ht_store :: "'x store option"
  ht_proposals :: "skill_pair list"
  ht_noticed :: "skill_pair list"
  ht_may_spend :: bool
  ht_post_at :: int
  ht_slack_ok :: bool
  ht_stamp_ok :: bool

text \<open>\<open>heartbeats\<close>: the evaluations and the posts there have been, for what is proved about them.\<close>

record evaluation =
  ev_channel :: string
  ev_rows :: "message_row list"
  ev_quiet :: string
  ev_answered :: bool

datatype heartbeat_said = HeartbeatSaid string int js_text "skill_pair option" bool

record heartbeats =
  hb_watermark :: "(string, string) jsmap"
  hb_posts :: "(string, int) jsmap"
  hb_evaluations :: "evaluation list"
  hb_said :: "heartbeat_said list"

definition no_heartbeats :: heartbeats where
  "no_heartbeats = \<lparr>hb_watermark = [], hb_posts = [], hb_evaluations = [], hb_said = []\<rparr>"

definition first_unnoticed :: "skill_pair list \<Rightarrow> skill_pair list \<Rightarrow> skill_pair option" where
  "first_unnoticed proposals noticed = find (\<lambda>pair. pair \<notin> set noticed) proposals"

text \<open>The evaluation: with tools it is offered \<open>post_finding\<close> as \<open>check_tool\<close> words it, without as \<open>tool\<close> does.\<close>

definition heartbeat_evaluate ::
    "tool_definition \<Rightarrow> tool_definition \<Rightarrow> 'w agent_env \<Rightarrow> heartbeat_settings \<Rightarrow> string \<Rightarrow> message_row list \<Rightarrow> 'w \<Rightarrow> fired_tools option \<times> 'w" where
  "heartbeat_evaluate tool check_tool env s channel rows w =
     (let messages = map activity_of rows; turn_id = ''ambient-'' @ channel @ ''-'' @ mr_ts (last rows);
          (recorded, asked, w) =
            (if hs_tools s
             then run_tool_turn check_tool env
               \<lparr>tk_model = hs_model s, tk_requesting_user = ambient_requesting_user, tk_task_id = turn_id, tk_thread = None,
                tk_system = Some (hs_system s), tk_messages = [UserMessage (activity_message messages)], tk_caps = hs_caps s\<rparr> w
             else run_one_turn env
               \<lparr>sg_model = hs_model s, sg_system = hs_system s, sg_content = activity_message messages,
                sg_max_tokens = hs_max_tokens s, sg_tool = tool\<rparr> w)
      in (recorded, w))"

definition finding_of :: "fired_tools option \<Rightarrow> js_text option" where
  "finding_of recorded =
     (case recorded of None \<Rightarrow> None | Some tools \<Rightarrow> if ft_unusable tools \<noteq> None then None else ft_finding tools)"

text \<open>What is there to weigh: the newest message of the thread that has gone quiet, and the recent messages.\<close>

definition heartbeat_material :: "nat \<Rightarrow> heartbeat_settings \<Rightarrow> string \<Rightarrow> 'x store \<Rightarrow> (string \<times> message_row list) option" where
  "heartbeat_material now s since st =
     (case idle_threads (to_slack_ts (now - hs_answer_after_idle_ms s)) since (Some 1) st of
        [] \<Rightarrow> None
      | (thread, quiet) # _ \<Rightarrow>
          let rows = recent (Some max_heartbeat_messages) st in if rows = [] then None else Some (quiet, rows))"

definition heartbeat_weighs ::
    "tool_definition \<Rightarrow> tool_definition \<Rightarrow> 'w agent_env \<Rightarrow> heartbeat_settings \<Rightarrow> string \<Rightarrow> string \<times> message_row list \<Rightarrow>
     'w \<times> heartbeats \<Rightarrow> js_text option \<times> 'w \<times> heartbeats" where
  "heartbeat_weighs tool check_tool env s channel material wh =
     (let (w, h) = wh; (quiet, rows) = material; (recorded, w) = heartbeat_evaluate tool check_tool env s channel rows w;
          h = h\<lparr>hb_evaluations := hb_evaluations h @
              [\<lparr>ev_channel = channel, ev_rows = rows, ev_quiet = quiet, ev_answered = (recorded \<noteq> None)\<rparr>]\<rparr>
      in (finding_of recorded, w,
          (if recorded = None then h else h\<lparr>hb_watermark := js_set channel (mr_ts (last rows)) (hb_watermark h)\<rparr>)))"

definition heartbeat_says ::
    "int \<Rightarrow> 'x heartbeat_inputs \<Rightarrow> js_text option \<Rightarrow> skill_pair option \<Rightarrow> heartbeats \<Rightarrow> heartbeats" where
  "heartbeat_says window t found waiting h =
     (let parts = (case found of None \<Rightarrow> [] | Some us \<Rightarrow> [us]) @ (case waiting of None \<Rightarrow> [] | Some pair \<Rightarrow> [render_proposal_notice pair]);
          body = js_join [newline, newline] parts;
          (posted, tried, posts) = proactive_post window (ht_channel t) HeartbeatSource (ht_post_at t) (ht_slack_ok t) (hb_posts h)
      in if body = [] then h
         else h\<lparr>hb_posts := posts,
                hb_said := (if tried then hb_said h @ [HeartbeatSaid (ht_channel t) (ht_post_at t) (render_proactive_post HeartbeatSource body)
                    (if posted \<and> ht_stamp_ok t then waiting else None) posted] else hb_said h)\<rparr>)"

definition heartbeat_tick ::
    "int \<Rightarrow> tool_definition \<Rightarrow> tool_definition \<Rightarrow> 'w agent_env \<Rightarrow> 'x heartbeat_inputs \<Rightarrow> 'w \<times> heartbeats \<Rightarrow> 'w \<times> heartbeats" where
  "heartbeat_tick window tool check_tool env t wh =
     (let (w, h) = wh
      in case (ht_settings t, ht_store t) of
          (Some s, Some st) \<Rightarrow>
            if \<not> hs_enabled s \<or> \<not> window_open window (ht_channel t) (ht_may_post_at t) (hb_posts h) then (w, h)
            else
              let since = (case js_get (hb_watermark h) (ht_channel t) of None \<Rightarrow> [] | Some ts \<Rightarrow> ts);
                  waiting = first_unnoticed (ht_proposals t) (ht_noticed t);
                  (found, w, h) =
                    (case heartbeat_material (ht_at t) s since st of
                       None \<Rightarrow> (None, w, h)
                     | Some material \<Rightarrow>
                         if ht_may_spend t then heartbeat_weighs tool check_tool env s (ht_channel t) material (w, h) else (None, w, h))
              in if env_cancelled env w then (w, h) else (w, heartbeat_says window t found waiting h)
        | _ \<Rightarrow> (w, h))"

definition heartbeats_after ::
    "int \<Rightarrow> tool_definition \<Rightarrow> tool_definition \<Rightarrow> 'w agent_env \<Rightarrow> 'x heartbeat_inputs list \<Rightarrow> 'w \<Rightarrow> heartbeats" where
  "heartbeats_after window tool check_tool env ticks w = snd (fold (heartbeat_tick window tool check_tool env) ticks (w, no_heartbeats))"

subsection \<open>The window\<close>

definition said_times :: "string \<Rightarrow> heartbeats \<Rightarrow> int list" where
  "said_times channel h =
     List.map_filter (\<lambda>s. case s of HeartbeatSaid c now body pair posted \<Rightarrow> if c = channel then Some now else None) (hb_said h)"

definition spaced :: "int \<Rightarrow> string \<Rightarrow> heartbeats \<Rightarrow> bool" where
  "spaced window channel h \<longleftrightarrow> sorted_wrt (\<lambda>a b. a + window \<le> b) (said_times channel h) \<and>
     (\<forall>t \<in> set (said_times channel h). \<exists>v. js_get (hb_posts h) channel = Some v \<and> t \<le> v)"

lemma said_times_snoc:
  "said_times channel (h\<lparr>hb_posts := posts, hb_said := hb_said h @ [HeartbeatSaid c now body pair posted]\<rparr>) =
     said_times channel h @ (if c = channel then [now] else [])"
  by (simp add: said_times_def List.map_filter_def)

lemma spaced_says:
  assumes "0 \<le> window" "spaced window channel h"
  shows "spaced window channel (heartbeat_says window t found waiting h)"
proof (cases "heartbeat_says window t found waiting h = h")
  case True
  then show ?thesis using assms(2) by simp
next
  case False
  let ?open = "window_open window (ht_channel t) (ht_post_at t) (hb_posts h)"
  have same: "spaced window channel (h\<lparr>hb_posts := hb_posts h, hb_said := hb_said h\<rparr>)" using assms(2) by simp
  show ?thesis
  proof (cases ?open)
    case shut: False
    then have "heartbeat_says window t found waiting h = h"
      by (simp add: heartbeat_says_def proactive_post_def Let_def)
    with False show ?thesis by simp
  next
    case True
    with False obtain body pair posted where s: "heartbeat_says window t found waiting h =
        h\<lparr>hb_posts := js_set (ht_channel t) (ht_post_at t) (hb_posts h), hb_said := hb_said h @ [HeartbeatSaid (ht_channel t) (ht_post_at t) body pair posted]\<rparr>"
      by (auto simp: heartbeat_says_def proactive_post_def Let_def split: if_splits)
    show ?thesis
    proof (cases "ht_channel t = channel")
      case other: False
      then show ?thesis using assms(2) unfolding s by (simp add: spaced_def said_times_snoc)
    next
      case here: True
      have before: "\<forall>x \<in> set (said_times channel h). x + window \<le> ht_post_at t"
        using assms(2) True here by (force simp: spaced_def window_open_def)
      then show ?thesis using assms here unfolding s by (auto simp: spaced_def said_times_snoc sorted_wrt_append)
    qed
  qed
qed

lemma spaced_weighs:
  "spaced window channel h \<Longrightarrow> heartbeat_weighs tool check_tool env s c material (w, h) = (found, w', h') \<Longrightarrow> spaced window channel h'"
  by (auto simp: heartbeat_weighs_def spaced_def said_times_def Let_def split: prod.splits if_splits)

lemma spaced_tick:
  assumes "0 \<le> window" "spaced window channel (snd wh)"
  shows "spaced window channel (snd (heartbeat_tick window tool check_tool env t wh))"
proof -
  obtain w h where wh: "wh = (w, h)" by (cases wh)
  show ?thesis using assms(2) unfolding wh heartbeat_tick_def
    by (auto simp: Let_def split: option.splits prod.splits if_splits intro!: spaced_says[OF assms(1)] dest: spaced_weighs)
qed

text \<open>
  A channel hears from its heartbeat at most once a window, whatever its cadence, its clock and Slack do: each attempt to
  post comes at least four hours after the one before it, since the permit is taken at the attempt.
\<close>

theorem heartbeat_posts_are_spaced:
  "sorted_wrt (\<lambda>a b. a + heartbeat_post_window_ms \<le> b)
     (said_times channel (heartbeats_after heartbeat_post_window_ms tool check_tool env ticks w))"
proof -
  let ?W = heartbeat_post_window_ms
  have w: "0 \<le> ?W" by (simp add: heartbeat_post_window_ms_def)
  have "spaced ?W channel (snd (fold (heartbeat_tick ?W tool check_tool env) ts wh))" if "spaced ?W channel (snd wh)" for ts wh
    using that by (induction ts arbitrary: wh) (auto simp: spaced_tick[OF w])
  moreover have "spaced ?W channel (snd (w, no_heartbeats))"
    by (simp add: spaced_def said_times_def no_heartbeats_def List.map_filter_def)
  ultimately have "spaced ?W channel (heartbeats_after ?W tool check_tool env ticks w)" unfolding heartbeats_after_def by blast
  then show ?thesis by (simp add: spaced_def)
qed

subsection \<open>The watermark\<close>

definition weighed :: "string \<Rightarrow> heartbeats \<Rightarrow> evaluation list" where
  "weighed channel h = filter (\<lambda>e. ev_channel e = channel \<and> ev_answered e) (hb_evaluations h)"

definition anew :: "string \<Rightarrow> heartbeats \<Rightarrow> bool" where
  "anew channel h \<longleftrightarrow> sorted_wrt (\<lambda>a b. \<forall>row \<in> set (ev_rows a). mr_ts row < ev_quiet b) (weighed channel h) \<and>
     (\<forall>e \<in> set (weighed channel h). \<forall>row \<in> set (ev_rows e). \<exists>mark. js_get (hb_watermark h) channel = Some mark \<and> mr_ts row \<le> mark)"

lemma sorted_last: "sorted (map f xs) \<Longrightarrow> x \<in> set xs \<Longrightarrow> f x \<le> f (last xs)"
proof (induction xs rule: rev_induct)
  case (snoc y ys)
  then show ?case by (auto simp: sorted_append)
qed simp

lemma recent_last:
  assumes "m \<in> set (st_messages st)"
  shows "recent (Some n) st \<noteq> [] \<and> mr_ts m \<le> mr_ts (last (recent (Some n) st)) \<and> (\<forall>row \<in> set (recent (Some n) st). mr_ts row \<le> mr_ts (last (recent (Some n) st)))"
proof -
  let ?s = "sort_key mr_ts (st_messages st)"
  have n: "0 < clamp_limit (Some n)" by (simp add: clamp_limit_def read_max_limit_def)
  have s: "recent (Some n) st = drop (length ?s - clamp_limit (Some n)) ?s" by (simp add: recent_def newest_first_def take_rev)
  have ne: "?s \<noteq> []" using assms by (metis empty_iff empty_set set_sort)
  then have l: "recent (Some n) st \<noteq> []" "last (recent (Some n) st) = last ?s" 
  proof -
    have "length ?s - clamp_limit (Some n) < length ?s" using n ne by (metis diff_less length_greater_0_conv)
    then show "recent (Some n) st \<noteq> []" "last (recent (Some n) st) = last ?s" unfolding s by (simp_all add: last_drop)
  qed
  have le: "mr_ts row \<le> mr_ts (last ?s)" if "row \<in> set ?s" for row using sorted_last[of mr_ts ?s row] that by simp
  have "mr_ts m \<le> mr_ts (last ?s)" using le assms by simp
  moreover have "\<forall>row \<in> set (recent (Some n) st). mr_ts row \<le> mr_ts (last ?s)" using le unfolding s by (auto dest: in_set_dropD)
  ultimately show ?thesis using l by simp
qed

lemma heartbeat_material_anew:
  assumes "heartbeat_material now s since st = Some (quiet, rows)"
  shows "since < quiet \<and> quiet \<le> mr_ts (last rows) \<and> (\<forall>row \<in> set rows. mr_ts row \<le> mr_ts (last rows))"
proof -
  obtain thread rest where t: "idle_threads (to_slack_ts (now - hs_answer_after_idle_ms s)) since (Some 1) st = (thread, quiet) # rest"
    and rows: "rows = recent (Some max_heartbeat_messages) st"
    using assms by (auto simp: heartbeat_material_def Let_def split: list.splits if_splits)
  then have "(thread, quiet) \<in> set (idle_threads (to_slack_ts (now - hs_answer_after_idle_ms s)) since (Some 1) st)" by simp
  then have q: "thread \<in> set (thread_roots st)" "quiet = newest_ts thread st" "since < quiet"
    by (auto simp: idle_threads_def dest!: in_set_takeD)
  from q(1) have "mr_ts ` set (of_root thread st) \<noteq> {}" by (auto simp: thread_roots_def of_root_def)
  from Max_in[OF _ this] have "quiet \<in> mr_ts ` set (of_root thread st)" using q(2) by (simp add: newest_ts_def)
  then obtain m where "m \<in> set (st_messages st)" "mr_ts m = quiet" by (auto simp: of_root_def)
  with recent_last[of m st max_heartbeat_messages] q(3) rows show ?thesis by simp
qed

lemma anew_weighs:
  assumes "anew channel h" "heartbeat_weighs tool check_tool env s c (quiet, rows) (w, h) = (found, w', h')"
    "(case js_get (hb_watermark h) c of None \<Rightarrow> [] | Some ts \<Rightarrow> ts) < quiet" "quiet \<le> mr_ts (last rows)"
    "\<forall>row \<in> set rows. mr_ts row \<le> mr_ts (last rows)"
  shows "anew channel h'"
proof -
  obtain recorded w1 where e: "heartbeat_evaluate tool check_tool env s c rows w = (recorded, w1)" by (cases "heartbeat_evaluate tool check_tool env s c rows w")
  then have h': "h' = (if recorded = None then h\<lparr>hb_evaluations := hb_evaluations h @ [\<lparr>ev_channel = c, ev_rows = rows, ev_quiet = quiet, ev_answered = False\<rparr>]\<rparr>
      else h\<lparr>hb_evaluations := hb_evaluations h @ [\<lparr>ev_channel = c, ev_rows = rows, ev_quiet = quiet, ev_answered = True\<rparr>],
             hb_watermark := js_set c (mr_ts (last rows)) (hb_watermark h)\<rparr>)"
    using assms(2) by (auto simp: heartbeat_weighs_def)
  show ?thesis
  proof (cases "recorded = None \<or> c \<noteq> channel")
    case True
    then have "weighed channel h' = weighed channel h" "js_get (hb_watermark h') channel = js_get (hb_watermark h) channel"
      unfolding h' by (auto simp: weighed_def)
    then show ?thesis using assms(1) by (simp add: anew_def)
  next
    case False
    then have w: "weighed channel h' = weighed channel h @ [\<lparr>ev_channel = c, ev_rows = rows, ev_quiet = quiet, ev_answered = True\<rparr>]"
      "js_get (hb_watermark h') channel = Some (mr_ts (last rows))" unfolding h' by (auto simp: weighed_def)
    have before: "mr_ts row < quiet" if "e \<in> set (weighed channel h)" "row \<in> set (ev_rows e)" for e row
    proof -
      from assms(1) that obtain mark where "js_get (hb_watermark h) channel = Some mark" "mr_ts row \<le> mark" by (auto simp: anew_def)
      with assms(3) False show ?thesis by simp
    qed
    then have "\<forall>e \<in> set (weighed channel h). \<forall>row \<in> set (ev_rows e). mr_ts row \<le> mr_ts (last rows)" using assms(4) by fastforce
    then show ?thesis using assms(1,5) before unfolding anew_def w by (auto simp: sorted_wrt_append)
  qed
qed

lemma anew_says: "anew channel h \<Longrightarrow> anew channel (heartbeat_says window t found waiting h)"
  by (simp add: anew_def weighed_def heartbeat_says_def Let_def split: prod.splits)

lemma anew_tick:
  assumes "anew channel (snd wh)"
  shows "anew channel (snd (heartbeat_tick window tool check_tool env t wh))"
proof -
  obtain w h where wh: "wh = (w, h)" by (cases wh)
  have a: "anew channel h" using assms wh by simp
  show ?thesis
  proof (cases "ht_settings t = None \<or> ht_store t = None")
    case True
    then show ?thesis using a unfolding wh by (auto simp: heartbeat_tick_def split: option.splits)
  next
    case False
    then obtain s st where s: "ht_settings t = Some s" "ht_store t = Some st" by auto
    let ?since = "case js_get (hb_watermark h) (ht_channel t) of None \<Rightarrow> [] | Some ts \<Rightarrow> ts"
    have "anew channel h'"
      if "heartbeat_material (ht_at t) s ?since st = Some material"
        "heartbeat_weighs tool check_tool env s (ht_channel t) material (w, h) = (found, w', h')" for material found w' h'
    proof -
      obtain quiet rows where m: "material = (quiet, rows)" by (cases material)
      have f: "?since < quiet" "quiet \<le> mr_ts (last rows)" "\<forall>row \<in> set rows. mr_ts row \<le> mr_ts (last rows)"
        using heartbeat_material_anew[of "ht_at t" s ?since st quiet rows] that(1) unfolding m by blast+
      show ?thesis by (rule anew_weighs[OF a that(2)[unfolded m] f])
    qed
    then show ?thesis using a s unfolding wh heartbeat_tick_def
      by (auto simp: Let_def anew_says split: option.splits prod.splits if_splits)
  qed
qed

text \<open>
  A finding is offered at most once for each silence: an evaluation that the model answers is prompted by a thread whose
  newest message is later than every message that any earlier answered evaluation of the channel was shown.
\<close>

theorem heartbeat_weighs_anew:
  "sorted_wrt (\<lambda>a b. list_all (\<lambda>row. mr_ts row < ev_quiet b) (ev_rows a)) (weighed channel (heartbeats_after window tool check_tool env ticks w))"
proof -
  have "anew channel (snd (fold (heartbeat_tick window tool check_tool env) ts wh))" if "anew channel (snd wh)" for ts wh
    using that by (induction ts arbitrary: wh) (auto simp: anew_tick)
  moreover have "anew channel (snd (w, no_heartbeats))" by (simp add: anew_def weighed_def no_heartbeats_def)
  ultimately have "anew channel (heartbeats_after window tool check_tool env ticks w)" unfolding heartbeats_after_def by blast
  then show ?thesis by (simp add: anew_def list_all_iff)
qed

text \<open>
  The watermark is the channel's newest message, of whatever thread: once an evaluation has been answered, nothing that
  was stored by then is material again, the threads that had not yet gone quiet included, however long they stay so.
\<close>

lemma idle_threads_none:
  assumes "\<forall>m \<in> set (st_messages st). mr_ts m \<le> since"
  shows "idle_threads before since limit st = []"
proof -
  have "newest_ts thread st \<le> since" if "thread \<in> set (thread_roots st)" for thread
  proof -
    from that have ne: "mr_ts ` set (of_root thread st) \<noteq> {}" by (auto simp: thread_roots_def of_root_def)
    from Max_in[OF _ ne] have "newest_ts thread st \<in> mr_ts ` set (of_root thread st)" by (simp add: newest_ts_def)
    then show ?thesis using assms by (auto simp: of_root_def)
  qed
  then show ?thesis by (simp add: idle_threads_def filter_empty_conv not_less)
qed

theorem unquiet_thread_is_never_weighed:
  assumes "heartbeat_material now s since st = Some (quiet, rows)"
    "heartbeat_weighs tool check_tool env s channel (quiet, rows) (w, h) = (found, w', h')"
    "ev_answered (last (hb_evaluations h'))"
  shows "\<exists>mark. js_get (hb_watermark h') channel = Some mark \<and> heartbeat_material later s' mark st = None"
proof -
  obtain recorded w1 where e: "heartbeat_evaluate tool check_tool env s channel rows w = (recorded, w1)"
    by (cases "heartbeat_evaluate tool check_tool env s channel rows w")
  then have "recorded \<noteq> None" using assms(2,3) by (auto simp: heartbeat_weighs_def Let_def split: if_splits)
  then have mark: "js_get (hb_watermark h') channel = Some (mr_ts (last rows))" using assms(2) e by (auto simp: heartbeat_weighs_def Let_def)
  have rows: "rows = recent (Some max_heartbeat_messages) st"
    using assms(1) by (auto simp: heartbeat_material_def Let_def split: list.splits if_splits)
  have "\<forall>m \<in> set (st_messages st). mr_ts m \<le> mr_ts (last rows)" using recent_last unfolding rows by blast
  then show ?thesis using mark by (simp add: heartbeat_material_def idle_threads_none)
qed

text \<open>An evaluation that ends in silence takes no permit, so the window does not space evaluations.\<close>

lemma silent_evaluation_keeps_window:
  "heartbeat_weighs tool check_tool env s channel material (w, h) = (None, w', h') \<Longrightarrow> hb_posts (heartbeat_says window t None None h') = hb_posts h"
  by (auto simp: heartbeat_weighs_def heartbeat_says_def Let_def split: prod.splits if_splits)

subsection \<open>A finding beside a notice\<close>

lemma replace_unit_length: "r \<noteq> [] \<Longrightarrow> length us \<le> length (replace_unit u r us)"
proof (induction us)
  case (Cons v vs)
  from Cons.prems obtain x xs where "r = x # xs" by (cases r) simp_all
  with Cons show ?case by (simp add: replace_unit_def)
qed simp

lemma escape_length: "length us \<le> length (escape_mrkdwn us)"
proof -
  have "js ''&gt;'' \<noteq> []" "js ''&lt;'' \<noteq> []" "js ''&amp;'' \<noteq> []" by (simp_all add: js_def)
  then show ?thesis unfolding escape_mrkdwn_def by (meson le_trans replace_unit_length)
qed

lemma proposal_notice_length: "98 < length (render_proposal_notice pair)"
  by (simp add: render_proposal_notice_def js_def)

text \<open>A finding at its bound leaves 97 units of the notice that is then recorded as given, too few for the file's two acts.\<close>

theorem finding_cuts_notice:
  assumes "length found = finding_max_chars" "escape_mrkdwn found = found"
  shows "safe_text (js_join [newline, newline] [found, render_proposal_notice pair]) proactive_body_limit =
     found @ [newline, newline] @ take 97 (escape_mrkdwn (render_proposal_notice pair)) @ [card_ellipsis]"
proof -
  let ?n = "escape_mrkdwn (render_proposal_notice pair)"
  have nl: "escape_mrkdwn [newline, newline] = [newline, newline]" by (simp add: escape_mrkdwn_def replace_unit_def newline_def)
  have e: "escape_mrkdwn (js_join [newline, newline] [found, render_proposal_notice pair]) = found @ [newline, newline] @ ?n"
    using assms(2) nl escape_append[of "[newline, newline]"] by simp
  have "98 < length ?n" using escape_length[of "render_proposal_notice pair"] proposal_notice_length[of pair] by simp
  then show ?thesis unfolding safe_text_def e using assms(1) by (simp add: finding_max_chars_def proactive_body_limit_def)
qed

end
