(* ===== verification/Spec2Isabelle.thy ===== *)
theory Spec2Isabelle
  imports Server_Load Server_Edge Redact_Secrets Semaphore Token_Safety Mcp_Bounds Sheet_Store Price_Store Agent_Clients Skill_File Approval_Card Session_Context Session_Registry Memory_File Heartbeat
begin

text \<open>
  Libero puts an agent into Slack channels and lets it call tools. An agent process never holds a credential: every
  tool call goes to a proxy (\<open>packages/proxy\<close>) that knows the channel from the caller's client certificate, reads
  that channel's team sheet, decides, dispatches, meters and audits. A call the sheet holds for a human waits as a
  ticket; the session server (\<open>apps/server\<close>) shows it as a Slack card (\<open>packages/gateway\<close>), relays the click to
  the proxy and lets the agent's loop (\<open>packages/agent\<close>) redeem it. What a channel said is kept in a SQLite store
  (\<open>packages/memory\<close>), summarised when threads go quiet and recalled into later tasks. \<open>packages/schema\<close> holds
  the shapes all of them share. The development models these parts from the source, each in its own theories, and
  proves what makes each correct and what makes them safe together.

  \<^bold>\<open>Common ground.\<close> \<open>Prelude\<close>: JavaScript's insertion-ordered maps as association lists (\<open>js_get\<close>, \<open>js_set\<close>),
  option and sum helpers, the fact collections. \<open>Js_Number\<close>: a number is the rational a double denotes, with
  rounding where the source computes. \<open>Js_Text\<close>: strings that the code measures or cuts, as UTF-16 code units
  (16-bit words); identifiers, which the code only compares, are HOL strings. \<open>Json\<close>: JSON values and the two
  renderings the audit log hashes. An error that the source throws or returns is a constructor of a component's own
  error type, and a fallible operation answers a sum or an option.

  \<^bold>\<open>Schema\<close> (\<open>packages/schema/src\<close>). \<open>Schema\<close> and \<open>Team_Sheet\<close>: names, the sheet and its rules
  (\<open>team-sheet.ts\<close>, \<open>builtin.ts\<close>, \<open>sandbox.ts\<close>, \<open>names.ts\<close>, \<open>price-table.ts\<close>, \<open>egress.ts\<close>). \<open>Tool_Call\<close>,
  \<open>Refusal_Text\<close>: calls, results, refusals and the sentences shown for them. \<open>Skill_File\<close>: reading and writing
  the header and body of a skill (\<open>skill.ts\<close>), with the round trip and the two inputs that break it.

  \<^bold>\<open>The proxy's decision and its stores\<close> (\<open>packages/proxy/src\<close>). \<open>Enforce\<close> translates \<open>enforce.ts\<close>;
  \<open>Enforce_Policy\<close> gives the policy it implements over the set of granting entries and proves that \<open>decide\<close>
  refines it; \<open>Enforce_Listing\<close> relates the tool listing to the decision. \<open>Approvals\<close> is the ticket store, with
  the locale \<open>ticket_store\<close> for what a held call relies on. \<open>Budget\<close> and \<open>Budget_Spend\<close> are the spend tables and
  the meter (\<open>budget-db.ts\<close>, \<open>budget-meter.ts\<close>), with the locale \<open>spend_meter_laws\<close> from which the daily bound is proved and a
  refinement to an abstract ledger; \<open>Drift\<close> is \<open>drift-db.ts\<close>. \<open>Audit_Log\<close>, \<open>Audit_Chain\<close> and \<open>Audit_Reader\<close>
  are \<open>audit-db.ts\<close>: appends, the hash chain (locale \<open>audit_sink\<close>), its verification, migration, queries and the
  rows read back. \<open>Sheet_Store\<close> and \<open>Price_Store\<close> are the file caches.

  \<^bold>\<open>The proxy's server.\<close> \<open>Server_Call\<close> is \<open>callTool\<close>, cut into phases at its awaits; \<open>Server_Routes\<close> the other
  routes, the identity of a connection and the body reader. \<open>Server_System\<close> is the process: requests share one
  state, a step (the inductive \<open>proxy_step\<close>) is one synchronous stretch of one handler, and between two stretches of a
  request any other may run, which is the interleaving Node's event loop allows. \<open>Server_Safety\<close>, \<open>Server_Rows\<close>,
  \<open>Server_Load\<close> and \<open>Server_Edge\<close> prove what holds of every run; \<open>Demo_Sheet\<close> and \<open>Demo_Run\<close> are the
  concrete sheet and run their witnesses use.

  \<^bold>\<open>What leaves the proxy.\<close> \<open>Redact\<close>, \<open>Redact_Encode\<close>, \<open>Redact_Stream\<close> and \<open>Redact_Secrets\<close> are
  \<open>redact.ts\<close>: the spellings of a secret, the buffered and streaming replacement, their equivalence and that no spelling
  survives. \<open>Mcp_Bounds\<close> bounds what an upstream's answer may carry (\<open>mcp-bounds.ts\<close>). \<open>Semaphore\<close> is the
  limit on calls in flight. \<open>Token_Exchange\<close>, \<open>Token_Engine\<close> and \<open>Token_Safety\<close> are the refresh-token
  exchange of \<open>outbound.ts\<close>, the grants and the engine that mints access tokens (\<open>token-engine.ts\<close>,
  \<open>token-store.ts\<close>), with runs of requests, flights and replaced grants.

  \<^bold>\<open>The agent\<close> (\<open>packages/agent/src\<close>). \<open>Agent_Loop\<close> is the task loop: turns, caps, tool calls, aborts, over an
  environment of answers. \<open>Agent_Outside\<close> holds the locale \<open>outside_invariant\<close>, under which a task keeps what the
  loop never touches; \<open>Agent_Names\<close> maps tool names to what the model may call; \<open>Agent_Tools\<close> is the client that
  sends calls to the proxy and interprets that locale; \<open>Agent_Clients\<close> the spend, budget and approvals clients.

  \<^bold>\<open>Approvals in Slack.\<close> \<open>Approval_Desk\<close> is \<open>apps/server/src/approvals\<close>: waits, their cards, clicks, deadlines
  and aborts as events in any order. \<open>Approval_Card\<close> is the card's text and buttons and the click read back
  (\<open>packages/gateway/src/slack\<close>).

  \<^bold>\<open>Channel memory.\<close> \<open>Message_Store\<close> is \<open>packages/memory/src/store-db.ts\<close>: messages with their full-text index,
  replies, summaries and embeddings, with the triggers that keep derived rows in step. \<open>Message_Query\<close> builds the
  query a model's words become. \<open>Channel_Memory\<close> interleaves messages and revisions (\<open>ingest.ts\<close>) with the sweep
  that summarises (\<open>session/summarize.ts\<close>) and reads it back (\<open>session/recall.ts\<close>).

  What a deletion takes is stated table by table, so that nothing else can go with it. \<open>Memory_File\<close> is a channel's
  \<open>MEMORY.md\<close>: the operations a model may ask for (\<open>packages/schema/src/memory-op.ts\<close>), what one does to the file
  (\<open>packages/memory/src/memory-file.ts\<close>) and the curation turn that runs them
  (\<open>packages/agent/src/curation/turn.ts\<close>); the matches of a replacement are counted against the most places that do not
  overlap.

  \<^bold>\<open>Sessions\<close> (\<open>apps/server/src/session\<close>). \<open>Session_Registry\<close> is the mutex, the registry and its sweep, the threads
  an app follows and the router's use of them, as events in any order, with the invariants \<open>order_ok\<close> (a channel's jobs run
  one by one) and \<open>timely\<close> (what an evicted session held). \<open>Session_Context\<close> is the message a task starts from
  (\<open>context.ts\<close>): history within the channel's bounds, mentions, memory, skills and recalled summaries.

  \<^bold>\<open>Rules and checks.\<close> \<open>Rule_Clock\<close> computes the next instant of a standing rule (\<open>session/rule-clock.ts\<close>) over an
  arbitrary zone and compares it, in UTC, with the instants the rule names. \<open>Ambient\<close> is a scan of the channels
  (\<open>session/ambient.ts\<close>), whose invariant \<open>plan_ahead\<close> keeps every entry in the future, and a scheduled check from its
  row to its stamp (\<open>session/check.ts\<close>), with \<open>tickets_ok\<close> over every order of scheduling, firing and cancelling.

  \<^bold>\<open>Turns nobody asked for.\<close> \<open>Fired_Turn\<close> is what a rule or a check runs (\<open>session/fired-turn.ts\<close>): one call, or the
  agent's loop with \<open>post_finding\<close> intercepted (\<open>session/fired-tools.ts\<close>); it interprets the loop's locale twice, for what
  a firing says (\<open>firing_says_its_finding\<close>) and for what it sends (\<open>firing_acts_for_nobody\<close>). \<open>Heartbeat\<close> is what is
  posted: the failure notices, the window of \<open>proactive/proactive.ts\<close> (\<open>heartbeat_posts_are_spaced\<close>), and a heartbeat from
  its pregate to its post (\<open>session/heartbeat.ts\<close>), with the watermark's two sides: nothing is weighed twice for one
  silence (\<open>heartbeat_weighs_anew\<close>), and a thread that had not gone quiet is not weighed at all
  (\<open>unquiet_thread_is_never_weighed\<close>). System prompts and tool descriptions are arguments.

  \<^bold>\<open>How the lemmas are arranged.\<close> Each component has an invariant (\<open>store_wf\<close>, \<open>log_sound\<close>, \<open>desk_ok\<close>,
  \<open>tables_ok\<close>, \<open>memory_ok\<close> and others), a lemma per operation that preserves it, and lemmas for what each
  operation does on each branch. The properties that span components are proved over runs from these. A text block that
  starts with an identifier \<open>C\<close> and a number names a property of the manifest; a theorem whose name ends in
  \<open>_witness\<close> applies it to a concrete input.

  \<^bold>\<open>Parameters.\<close> Code that is not in the repository is an argument: SHA-256, base64url signatures, the model's
  answers, what an upstream says, the answers of the file system, SQLite's full-text matching and ranking, the distance
  between vectors, the clock and random identifiers. The hypotheses on them are named where they are used and witnessed.

  \<^bold>\<open>Bounds and termination.\<close> No definition uses fuel. Loops are structural or have a proved measure; the
  agent's loop is bounded by its caps, and that it ends is a property, not an assumption. Runs are finite lists of
  events of any length, or an inductive relation, so no bound on their number enters. Numbers the code keeps as
  doubles are integers in range by the schemas that read them; where that can fail \<open>Js_Number\<close> is used.

  \<^bold>\<open>Not modelled.\<close> The provider adapters' HTTP bodies and streaming (\<open>packages/agent/src/completion\<close>), whose shapes
  are the providers'; the MCP client's transport and the stdio child processes of \<open>packages/proxy\<close>; TLS and certificate
  issue; the runner's container control (\<open>apps/runner\<close>), which is calls to a container engine; the Slack socket and web
  client; the skills a channel writes, recalls and
  retires (\<open>session/skill-*.ts\<close>); the vault and the other custody backends; the operator's command line (\<open>packages/cli\<close>), which prompts, prints and writes files; logging throughout.
  Crashes between two statements of one SQLite transaction are SQLite's to undo and are not steps of the model.
\<close>

end
